(* ===== verification/Prelude.thy ===== *)
theory Prelude
  imports Main "HOL-Library.Word" "HOL-Library.Monad_Syntax"
begin

text \<open>
  Shared vocabulary of the development: bytes and byte regions, the \<open>Result\<close> values of
  \<open>src/src/common/result.h\<close>, and the facts about reading and overwriting parts of a
  region that every codec and every page controller uses.

  A \<open>std::span\<close> of bytes is a list of 8-bit words. \<open>subspan\<close> is a view of a
  part of it; \<open>put\<close> is what \<open>std::ranges::copy\<close>, \<open>std::memmove\<close> from a
  private source and a write through a subspan do: it overwrites the bytes from an offset on
  and leaves the rest. Both are only used where the code has established that the part lies
  inside the region.
\<close>

unbundle bit_operations_syntax

type_synonym byte = "8 word"

text \<open>Facts that read back what was written (\<open>region\<close>), sizes, and layout constants.\<close>

named_theorems region \<open>reading a region after overwriting a part of it\<close>
named_theorems layout \<open>sizes and offsets of the persistent formats\<close>

section \<open>Results\<close>

text \<open>
  \<open>Result<T, E>\<close> and \<open>Status<E>\<close>: a sum with the error on the left. Every error
  path of the code is an \<open>Inl\<close>.
\<close>

type_synonym ('t, 'e) result = "'e + 't"
type_synonym 'e status = "'e + unit"

abbreviation Ok :: "'t \<Rightarrow> ('t, 'e) result" where
  "Ok \<equiv> Inr"

abbreviation Unexpected :: "'e \<Rightarrow> ('t, 'e) result" where
  "Unexpected \<equiv> Inl"

definition Result_Ok :: "('t, 'e) result \<Rightarrow> bool" where
  "Result_Ok r = (case r of Inl _ \<Rightarrow> False | Inr _ \<Rightarrow> True)"

text \<open>\<open>Result::Value()\<close> and \<open>Result::Error()\<close> abort on the wrong alternative:
  \<open>None\<close> is the abort.\<close>

definition Result_Value :: "('t, 'e) result \<Rightarrow> 't option" where
  "Result_Value r = (case r of Inl _ \<Rightarrow> None | Inr v \<Rightarrow> Some v)"

definition Result_Error :: "('t, 'e) result \<Rightarrow> 'e option" where
  "Result_Error r = (case r of Inl e \<Rightarrow> Some e | Inr _ \<Rightarrow> None)"

definition AsOptional :: "('t, 'e) result \<Rightarrow> 't option" where
  "AsOptional r = (if Result_Ok r then Result_Value r else None)"

lemma AsOptional_simps [simp]:
  "AsOptional (Inr v) = Some v"
  "AsOptional (Inl e) = None"
  by (simp_all add: AsOptional_def Result_Ok_def Result_Value_def)

lemma AsOptional_Some_iff: "AsOptional r = Some v \<longleftrightarrow> r = Inr v"
  by (cases r) simp_all

text \<open>An early return taken apart.\<close>

lemma guard_Ok_iff: "(if b then Inl e else r) = Inr v \<longleftrightarrow> \<not> b \<and> r = Inr v"
  by simp

lemma sum_case_Ok_iff:
  "(case x of Inl e \<Rightarrow> Inl (f e) | Inr y \<Rightarrow> g y) = Inr v \<longleftrightarrow> (\<exists>y. x = Inr y \<and> g y = Inr v)"
  by (cases x) simp_all

section \<open>Regions\<close>

definition subspan :: "nat \<Rightarrow> nat \<Rightarrow> 'a list \<Rightarrow> 'a list" where
  "subspan off n xs = take n (drop off xs)"

definition put :: "nat \<Rightarrow> 'a list \<Rightarrow> 'a list \<Rightarrow> 'a list" where
  "put off ys xs = take off xs @ ys @ drop (off + length ys) xs"

lemma length_subspan [simp]: "off + n \<le> length xs \<Longrightarrow> length (subspan off n xs) = n"
  by (simp add: subspan_def)

lemma length_subspan_min: "length (subspan off n xs) = min n (length xs - off)"
  by (simp add: subspan_def min.commute)

lemma length_put [simp]: "off + length ys \<le> length xs \<Longrightarrow> length (put off ys xs) = length xs"
  by (simp add: put_def)

lemma nth_subspan [simp]:
  "i < n \<Longrightarrow> off + i < length xs \<Longrightarrow> subspan off n xs ! i = xs ! (off + i)"
  by (simp add: subspan_def)

lemma nth_put:
  "off + length ys \<le> length xs \<Longrightarrow> i < length xs \<Longrightarrow>
   put off ys xs ! i = (if off \<le> i \<and> i < off + length ys then ys ! (i - off) else xs ! i)"
  by (auto simp: put_def nth_append)

lemma region_eqI:
  "length xs = length ys \<Longrightarrow> (\<And>i. i < length xs \<Longrightarrow> xs ! i = ys ! i) \<Longrightarrow> xs = ys"
  by (simp add: list_eq_iff_nth_eq)

lemma subspan_put_same [region]:
  "off + length ys \<le> length xs \<Longrightarrow> subspan off (length ys) (put off ys xs) = ys"
  by (simp add: subspan_def put_def)

lemma subspan_put_eq [region]:
  "n = length ys \<Longrightarrow> off + n \<le> length xs \<Longrightarrow> subspan off n (put off ys xs) = ys"
  by (simp add: subspan_put_same)

lemma subspan_put_other [region]:
  assumes "off + length ys \<le> length xs" and "off' + n \<le> length xs"
    and "off' + n \<le> off \<or> off + length ys \<le> off'"
  shows "subspan off' n (put off ys xs) = subspan off' n xs"
  by (rule region_eqI) (use assms in \<open>auto simp: nth_put\<close>)

lemma subspan_put_inside:
  assumes "off + length ys \<le> length xs" and "off \<le> off'" and "off' + n \<le> off + length ys"
  shows "subspan off' n (put off ys xs) = subspan (off' - off) n ys"
  by (rule region_eqI) (use assms in \<open>auto simp: nth_put\<close>)

lemma subspan_subspan [simp]:
  "a + n \<le> m \<Longrightarrow> off + m \<le> length xs \<Longrightarrow>
   subspan a n (subspan off m xs) = subspan (off + a) n xs"
  by (rule region_eqI) (auto simp: add.assoc)

lemma subspan_take [simp]: "off + n \<le> m \<Longrightarrow> subspan off n (take m xs) = subspan off n xs"
  by (simp add: subspan_def drop_take min_def)

lemma subspan_0_take: "subspan 0 n xs = take n xs"
  by (simp add: subspan_def)

lemma subspan_full [simp]: "n = length xs \<Longrightarrow> subspan 0 n xs = xs"
  by (simp add: subspan_def)

lemma subspan_append_left [simp]:
  "off + n \<le> length xs \<Longrightarrow> subspan off n (xs @ ys) = subspan off n xs"
  by (simp add: subspan_def)

lemma subspan_append_right:
  "length xs \<le> off \<Longrightarrow> subspan off n (xs @ ys) = subspan (off - length xs) n ys"
  by (simp add: subspan_def)

lemma put_full [simp]: "length ys = length xs \<Longrightarrow> put 0 ys xs = ys"
  by (simp add: put_def)

lemma put_subspan_same [simp]: "off + n \<le> length xs \<Longrightarrow> put off (subspan off n xs) xs = xs"
  by (rule region_eqI) (auto simp: nth_put)

lemma put_put_same: "length ys = length zs \<Longrightarrow> off + length ys \<le> length xs \<Longrightarrow>
    put off zs (put off ys xs) = put off zs xs"
  by (rule region_eqI) (auto simp: nth_put)

lemma put_put_commute:
  assumes "a + length ys \<le> length xs" and "b + length zs \<le> length xs"
    and "a + length ys \<le> b \<or> b + length zs \<le> a"
  shows "put a ys (put b zs xs) = put b zs (put a ys xs)"
  by (rule region_eqI) (use assms in \<open>auto simp: nth_put\<close>)

text \<open>Joining two adjacent parts, and the bytes before a written part.\<close>

lemma subspan_join:
  "off + m + n \<le> length xs \<Longrightarrow>
   subspan off m xs @ subspan (off + m) n xs = subspan off (m + n) xs"
  by (simp add: subspan_def take_add drop_drop add.commute)

lemma nth_subspan_eq:
  "subspan off n xs = subspan off n ys \<Longrightarrow> off \<le> i \<Longrightarrow> i < off + n \<Longrightarrow>
   off + n \<le> length xs \<Longrightarrow> off + n \<le> length ys \<Longrightarrow> xs ! i = ys ! i"
  using nth_subspan[of "i - off" n off xs] nth_subspan[of "i - off" n off ys] by simp

text \<open>Writing into the zeros behind a finished part, and over a part of equal length.\<close>

lemma put_zeros:
  assumes "length A \<le> off" and "off + length xs \<le> length A + n"
  shows "put off xs (A @ replicate n z) =
    A @ replicate (off - length A) z @ xs @ replicate (n - (off - length A) - length xs) z"
  by (rule region_eqI) (use assms in \<open>auto simp: nth_put nth_append\<close>)

lemma put_replace:
  "length A = off \<Longrightarrow> length xs = length B \<Longrightarrow> put off xs (A @ B @ C) = A @ xs @ C"
  by (simp add: put_def)

section \<open>Options and words\<close>

lemma bind_eq_Some_ex: "Option.bind x f = Some z \<longleftrightarrow> (\<exists>y. x = Some y \<and> f y = Some z)"
  by (cases x) simp_all

lemma option_eqI: "(\<And>v. x = Some v \<longleftrightarrow> y = Some v) \<Longrightarrow> x = y"
  by (cases x; cases y) auto

lemma unat_16_lt [simp]: "unat (w :: 16 word) < 65536"
proof -
  have "unat w < 2 ^ LENGTH(16)" by (rule unsigned_less)
  then show ?thesis by simp
qed

lemma unat_16_le: "unat (w :: 16 word) \<le> 65535"
  using unat_16_lt[of w] by linarith

lemma unat_32_lt: "unat (w :: 32 word) < 4294967296"
proof -
  have "unat w < 2 ^ LENGTH(32)" by (rule unsigned_less)
  then show ?thesis by simp
qed

lemma unat_64_lt: "unat (w :: 64 word) < 18446744073709551616"
proof -
  have "unat w < 2 ^ LENGTH(64)" by (rule unsigned_less)
  then show ?thesis by simp
qed

lemma unat_of_nat_16 [simp]: "n < 65536 \<Longrightarrow> unat (of_nat n :: 16 word) = n"
  by (simp add: unat_of_nat)

lemma unat_of_nat_32: "n < 4294967296 \<Longrightarrow> unat (of_nat n :: 32 word) = n"
  by (simp add: unat_of_nat)

lemma unat_of_nat_8: "n < 256 \<Longrightarrow> unat (of_nat n :: 8 word) = n"
  by (simp add: unat_of_nat)

lemma unat_of_nat_64: "n < 18446744073709551616 \<Longrightarrow> unat (of_nat n :: 64 word) = n"
  by (simp add: unat_of_nat)

end
