(* ===== verification/Common_Types.thy ===== *)
theory Common_Types
  imports Prelude "HOL-Library.Product_Lexorder"
begin

text \<open>
  Identifiers and positions of \<open>src/src/common/types.h\<close>. \<open>StrongId\<close> wraps an
  unsigned integer only so that the compiler keeps identifiers apart; at run time it is the
  integer, so an identifier is a word of its width. \<open>PageId\<close> and \<open>Rid\<close> carry
  the member-wise order of their defaulted \<open>operator<=>\<close>.
\<close>

type_synonym FileId = "32 word"
type_synonym TxnId = "64 word"
type_synonym CommandId = "32 word"
type_synonym Lsn = "64 word"
type_synonym TableId = "64 word"
type_synonym IndexId = "64 word"
type_synonym SchemaVer = "32 word"
type_synonym PageNo = "64 word"
type_synonym SlotId = "16 word"

definition INVALID_FILE_ID :: FileId where [layout, simp]:
  "INVALID_FILE_ID = 0"

definition INVALID_PAGE_NO :: PageNo where
  "INVALID_PAGE_NO = - 1"

definition INVALID_SLOT_ID :: SlotId where
  "INVALID_SLOT_ID = - 1"

definition INVALID_TXN_ID :: TxnId where [layout, simp]:
  "INVALID_TXN_ID = 0"

definition FROZEN_TXN_ID :: TxnId where [layout, simp]:
  "FROZEN_TXN_ID = 1"

definition FIRST_NORMAL_TXN_ID :: TxnId where [layout, simp]:
  "FIRST_NORMAL_TXN_ID = 2"

definition INVALID_LSN :: Lsn where [layout, simp]:
  "INVALID_LSN = 0"

lemma unat_INVALID_PAGE_NO: "unat INVALID_PAGE_NO = 18446744073709551615"
  by (simp add: INVALID_PAGE_NO_def unsigned_minus_1_eq_mask mask_eq_exp_minus_1)

lemma unat_INVALID_SLOT_ID: "unat INVALID_SLOT_ID = 65535"
  by (simp add: INVALID_SLOT_ID_def unsigned_minus_1_eq_mask mask_eq_exp_minus_1)

lemma slot_lt_ne_INVALID: "unat s < 65535 \<Longrightarrow> s \<noteq> INVALID_SLOT_ID"
  by (auto simp: unat_INVALID_SLOT_ID)

datatype PageId = PageId (file_id: FileId) (page_no: PageNo)

datatype Rid = Rid (page: PageId) (slot: SlotId)

definition default_PageId :: PageId where
  "default_PageId = PageId INVALID_FILE_ID INVALID_PAGE_NO"

definition default_Rid :: Rid where
  "default_Rid = Rid default_PageId INVALID_SLOT_ID"

text \<open>The defaulted \<open>operator<=>\<close> compares member by member, in the order of declaration.\<close>

definition PageId_at_most :: "PageId \<Rightarrow> PageId \<Rightarrow> bool" where
  "PageId_at_most p q = (file_id p < file_id q \<or> file_id p = file_id q \<and> page_no p \<le> page_no q)"

lemma PageId_at_most_pair: "PageId_at_most p q \<longleftrightarrow> (file_id p, page_no p) \<le> (file_id q, page_no q)"
  by (auto simp: PageId_at_most_def)

instantiation PageId :: linorder
begin

definition less_eq_PageId :: "PageId \<Rightarrow> PageId \<Rightarrow> bool" where
  "less_eq_PageId p q = PageId_at_most p q"

definition less_PageId :: "PageId \<Rightarrow> PageId \<Rightarrow> bool" where
  "less_PageId p q = (\<not> PageId_at_most q p)"

instance
  by standard (auto simp: less_eq_PageId_def less_PageId_def PageId_at_most_pair PageId.expand simp del: less_eq_prod_simp)

end

definition Rid_at_most :: "Rid \<Rightarrow> Rid \<Rightarrow> bool" where
  "Rid_at_most r s = (page r < page s \<or> page r = page s \<and> slot r \<le> slot s)"

lemma Rid_at_most_pair: "Rid_at_most r s \<longleftrightarrow> (page r, slot r) \<le> (page s, slot s)"
  by (auto simp: Rid_at_most_def)

instantiation Rid :: linorder
begin

definition less_eq_Rid :: "Rid \<Rightarrow> Rid \<Rightarrow> bool" where
  "less_eq_Rid r s = Rid_at_most r s"

definition less_Rid :: "Rid \<Rightarrow> Rid \<Rightarrow> bool" where
  "less_Rid r s = (\<not> Rid_at_most s r)"

instance
  by standard (auto simp: less_eq_Rid_def less_Rid_def Rid_at_most_pair Rid.expand simp del: less_eq_prod_simp)

end

text \<open>\<open>std::hash<PageId>\<close> over 64-bit \<open>size_t\<close>; \<open>std::hash\<close> of an unsigned
  integer is the identity in the library the project targets.\<close>

definition PageId_hash :: "PageId \<Rightarrow> 64 word" where
  "PageId_hash p =
     (let file_hash = (ucast (file_id p) :: 64 word); page_hash = page_no p
      in file_hash XOR (page_hash + 0x9e3779b9 + push_bit 6 file_hash + drop_bit 2 file_hash))"

end
