(* ===== verification/Encoding.thy ===== *)
theory Encoding
  imports Common_Types
begin

text \<open>
  The little-endian codec of \<open>src/src/common/encoding.h\<close>. An encoder receives the
  destination span and returns the span with its leading bytes overwritten, or \<open>None\<close>
  where the code returns \<open>false\<close> (the destination is then untouched). A decoder
  returns \<open>None\<close> for \<open>std::nullopt\<close>.

  Integers of every fixed width are words; a signed integer is its bit pattern, as
  \<open>std::bit_cast\<close> leaves it. The contract that every codec of the storage formats
  shares is the locale \<open>byte_codec\<close>, and \<open>strict_codec\<close> adds that each value has
  exactly one encoding.
\<close>

section \<open>Integers\<close>

definition sizeof :: "'a::len itself \<Rightarrow> nat" where
  "sizeof _ = LENGTH('a) div 8"

text \<open>The loop of \<open>EncodeLittleEndian\<close>: \<open>n\<close> bytes to go, at \<open>offset\<close>.\<close>

fun encode_le_loop :: "nat \<Rightarrow> nat \<Rightarrow> 'a::len word \<Rightarrow> byte list \<Rightarrow> byte list" where
  "encode_le_loop 0 offset bits destination = destination"
| "encode_le_loop (Suc n) offset bits destination =
     encode_le_loop n (Suc offset) (drop_bit 8 bits) (destination[offset := ucast (bits AND 0xFF)])"

definition EncodeLittleEndian :: "byte list \<Rightarrow> 'a::len word \<Rightarrow> byte list option" where
  "EncodeLittleEndian destination value =
     (if length destination < sizeof TYPE('a) then None
      else Some (encode_le_loop (sizeof TYPE('a)) 0 value destination))"

text \<open>The loop of \<open>DecodeLittleEndian\<close>, from the highest byte down.\<close>

fun decode_le_loop :: "nat \<Rightarrow> 'a::len word \<Rightarrow> byte list \<Rightarrow> 'a word" where
  "decode_le_loop 0 bits source = bits"
| "decode_le_loop (Suc offset) bits source =
     decode_le_loop offset (push_bit 8 bits OR ucast (source ! offset)) source"

definition DecodeLittleEndian :: "byte list \<Rightarrow> 'a::len word option" where
  "DecodeLittleEndian source =
     (if length source < sizeof TYPE('a) then None
      else Some (decode_le_loop (sizeof TYPE('a)) 0 source))"

text \<open>The reference: the bytes of a word, lowest first, and the word of a byte list.\<close>

definition le_bytes :: "'a::len word \<Rightarrow> byte list" where
  "le_bytes v = map (\<lambda>i. ucast (drop_bit (8 * i) v)) [0..<sizeof TYPE('a)]"

fun le_word :: "byte list \<Rightarrow> 'a::len word" where
  "le_word [] = 0"
| "le_word (b # bs) = ucast b OR push_bit 8 (le_word bs)"

lemma length_le_bytes [simp]: "length (le_bytes (v :: 'a::len word)) = sizeof TYPE('a)"
  by (simp add: le_bytes_def)

lemma sizeof_simps [simp]:
  "sizeof TYPE(8) = 1" "sizeof TYPE(16) = 2" "sizeof TYPE(32) = 4" "sizeof TYPE(64) = 8"
  by (simp_all add: sizeof_def)

lemma ucast_and_FF: "ucast ((v :: 'a::len word) AND 0xFF) = (ucast v :: byte)"
proof (rule bit_word_eqI)
  fix n assume "n < LENGTH(8)"
  then have "n < 8" by simp
  moreover have "bit (0xFF :: 'a word) n \<longleftrightarrow> n < LENGTH('a)" if "n < 8"
  proof -
    have "(0xFF :: 'a word) = mask 8" by (simp add: mask_eq_exp_minus_1)
    then show ?thesis using that by (simp only: bit_mask_iff) auto
  qed
  ultimately show "bit (ucast (v AND 0xFF) :: byte) n = bit (ucast v :: byte) n"
    by (auto simp: bit_ucast_iff bit_and_iff dest: bit_imp_le_length)
qed

lemma encode_le_loop_eq:
  "offset + n \<le> length d \<Longrightarrow>
   encode_le_loop n offset v d = put offset (map (\<lambda>i. ucast (drop_bit (8 * i) v)) [0..<n]) d"
proof (induction n arbitrary: offset v d)
  case 0
  then show ?case by (simp add: put_def)
next
  case (Suc n)
  have step: "map (\<lambda>i. ucast (drop_bit (8 * i) v)) [0..<Suc n] =
      ucast v # map (\<lambda>i. ucast (drop_bit (8 * i) (drop_bit 8 v)) :: byte) [0..<n]"
    unfolding upt_conv_Cons[OF zero_less_Suc] map_Suc_upt[symmetric]
    by (simp add: drop_bit_drop_bit comp_def add.commute)
  from Suc.prems have "Suc offset + n \<le> length (d[offset := ucast (v AND 0xFF)])"
    by simp
  then have "encode_le_loop (Suc n) offset v d =
      put (Suc offset) (map (\<lambda>i. ucast (drop_bit (8 * i) (drop_bit 8 v))) [0..<n])
        (d[offset := ucast v])"
    using Suc.IH by (simp add: ucast_and_FF)
  also have "\<dots> = put offset (map (\<lambda>i. ucast (drop_bit (8 * i) v)) [0..<Suc n]) d"
    unfolding step by (rule region_eqI)
      (use Suc.prems in \<open>auto simp: nth_put nth_Cons'\<close>)
  finally show ?case .
qed

lemma EncodeLittleEndian_eq:
  "EncodeLittleEndian d (v :: 'a::len word) =
     (if length d < sizeof TYPE('a) then None else Some (put 0 (le_bytes v) d))"
  by (simp add: EncodeLittleEndian_def encode_le_loop_eq le_bytes_def)

lemma decode_le_loop_eq:
  "n \<le> length s \<Longrightarrow> 8 dvd LENGTH('a) \<Longrightarrow>
   decode_le_loop n (bits :: 'a::len word) s = push_bit (8 * n) bits OR le_word (take n s)"
proof (induction n arbitrary: bits)
  case 0
  then show ?case by simp
next
  case (Suc n)
  have app: "(le_word (xs @ [b]) :: 'a word) = le_word xs OR push_bit (8 * length xs) (ucast b)"
    for xs b
    by (induction xs) (simp_all add: push_bit_or push_bit_push_bit or.assoc add.commute)
  from Suc show ?case
    by (simp add: take_Suc_conv_app_nth app push_bit_or push_bit_push_bit or.assoc or.commute
        or.left_commute add.commute min_def)
qed

lemma DecodeLittleEndian_eq:
  assumes "8 dvd LENGTH('a::len)"
  shows "DecodeLittleEndian s =
     (if length s < sizeof TYPE('a) then None
      else Some (le_word (take (sizeof TYPE('a)) s) :: 'a word))"
  using assms by (simp add: DecodeLittleEndian_def decode_le_loop_eq)

lemma bit_le_word:
  "bit (le_word bs :: 'a::len word) n \<longleftrightarrow>
     n < LENGTH('a) \<and> n div 8 < length bs \<and> bit (bs ! (n div 8)) (n mod 8)"
proof (induction bs arbitrary: n)
  case Nil
  then show ?case by simp
next
  case (Cons b bs)
  show ?case
  proof (cases "n < 8")
    case True
    then show ?thesis
      by (auto simp: bit_or_iff bit_ucast_iff bit_push_bit_iff)
  next
    case False
    then obtain m where m: "n = m + 8" by (metis add.commute le_add_diff_inverse not_less)
    have "\<not> bit b (m + 8)"
      by (rule impossible_bit) simp
    moreover have "(m + 8) div 8 = Suc (m div 8)" and "(m + 8) mod 8 = m mod 8"
      by simp_all
    ultimately show ?thesis using Cons.IH[of m]
      by (auto simp: m bit_or_iff bit_ucast_iff bit_push_bit_iff)
  qed
qed

lemma le_word_le_bytes:
  assumes "8 dvd LENGTH('a::len)"
  shows "le_word (le_bytes (v :: 'a word)) = v"
proof (rule bit_word_eqI)
  fix n assume n: "n < LENGTH('a)"
  from assms obtain k where k: "LENGTH('a) = 8 * k" by (rule dvdE)
  from n k have "n div 8 < k" by (simp add: less_mult_imp_div_less mult.commute)
  moreover have "n mod 8 < 8" by simp
  ultimately show "bit (le_word (le_bytes v) :: 'a word) n = bit v n"
    using n k by (auto simp: bit_le_word le_bytes_def sizeof_def bit_ucast_iff bit_drop_bit_eq
        dest: bit_imp_le_length)
qed

lemma le_bytes_le_word:
  assumes "8 dvd LENGTH('a::len)" and "length bs = sizeof TYPE('a)"
  shows "le_bytes (le_word bs :: 'a word) = bs"
proof (rule nth_equalityI)
  show "length (le_bytes (le_word bs :: 'a word)) = length bs" using assms by simp
next
  fix i assume "i < length (le_bytes (le_word bs :: 'a word))"
  then have i: "i < sizeof TYPE('a)" by simp
  from assms(1) obtain k where k: "LENGTH('a) = 8 * k" by (rule dvdE)
  have "bit (ucast (drop_bit (8 * i) (le_word bs :: 'a word)) :: byte) n = bit (bs ! i) n"
    if "n < 8" for n
  proof -
    have "8 * i + n < 8 * k" using i that by (simp add: sizeof_def k)
    then show ?thesis
      using i that assms(2) by (simp add: bit_ucast_iff bit_drop_bit_eq bit_le_word k sizeof_def)
  qed
  then show "le_bytes (le_word bs :: 'a word) ! i = bs ! i"
    using i by (auto simp: le_bytes_def intro!: bit_word_eqI)
qed


section \<open>Fields of a larger region\<close>

text \<open>\<open>encode_at\<close> is an encoder applied to \<open>destination.subspan(offset, n)\<close>;
  \<open>encode_field\<close> and \<open>decode_field\<close> are the integer codec on the subspan of the
  integer's own size, the form in which every header codec calls it.\<close>

definition encode_at ::
    "nat \<Rightarrow> nat \<Rightarrow> (byte list \<Rightarrow> byte list option) \<Rightarrow> byte list \<Rightarrow> byte list option" where
  "encode_at off n encode destination =
     map_option (\<lambda>bs. put off bs destination) (encode (subspan off n destination))"

definition encode_field :: "nat \<Rightarrow> 'a::len word \<Rightarrow> byte list \<Rightarrow> byte list option" where
  "encode_field off value destination =
     encode_at off (sizeof TYPE('a)) (\<lambda>bs. EncodeLittleEndian bs value) destination"

definition decode_field :: "nat \<Rightarrow> byte list \<Rightarrow> 'a::len word option" where
  "decode_field off source = DecodeLittleEndian (subspan off (sizeof TYPE('a)) source)"

lemma encode_field_eq [simp]:
  fixes v :: "'a::len word"
  shows "off + sizeof TYPE('a) \<le> length d \<Longrightarrow> encode_field off v d = Some (put off (le_bytes v) d)"
  by (simp add: encode_field_def encode_at_def EncodeLittleEndian_eq)

lemma decode_field_eq:
  assumes "8 dvd LENGTH('a::len)" and "off + sizeof TYPE('a) \<le> length s"
  shows "decode_field off s = Some (le_word (subspan off (sizeof TYPE('a)) s) :: 'a word)"
  using assms by (simp add: decode_field_def DecodeLittleEndian_eq)

lemma decode_fields [simp]:
  "off + 1 \<le> length s \<Longrightarrow> decode_field off s = Some (le_word (subspan off 1 s) :: 8 word)"
  "off + 2 \<le> length s \<Longrightarrow> decode_field off s = Some (le_word (subspan off 2 s) :: 16 word)"
  "off + 4 \<le> length s \<Longrightarrow> decode_field off s = Some (le_word (subspan off 4 s) :: 32 word)"
  "off + 8 \<le> length s \<Longrightarrow> decode_field off s = Some (le_word (subspan off 8 s) :: 64 word)"
  by (simp_all add: decode_field_eq)

lemma le_word_le_bytes_simps [simp]:
  "le_word (le_bytes (v8 :: 8 word)) = v8"
  "le_word (le_bytes (v16 :: 16 word)) = v16"
  "le_word (le_bytes (v32 :: 32 word)) = v32"
  "le_word (le_bytes (v64 :: 64 word)) = v64"
  by (simp_all add: le_word_le_bytes)

lemma le_bytes_le_word_simps [simp]:
  "length bs = Suc 0 \<Longrightarrow> le_bytes (le_word bs :: 8 word) = bs"
  "length bs = 2 \<Longrightarrow> le_bytes (le_word bs :: 16 word) = bs"
  "length bs = 4 \<Longrightarrow> le_bytes (le_word bs :: 32 word) = bs"
  "length bs = 8 \<Longrightarrow> le_bytes (le_word bs :: 64 word) = bs"
  by (simp_all add: le_bytes_le_word)

lemma le_word_eq_iff:
  "length bs = Suc 0 \<Longrightarrow> le_word bs = (v8 :: 8 word) \<longleftrightarrow> bs = le_bytes v8"
  "length bs = 2 \<Longrightarrow> le_word bs = (v16 :: 16 word) \<longleftrightarrow> bs = le_bytes v16"
  "length bs = 4 \<Longrightarrow> le_word bs = (v32 :: 32 word) \<longleftrightarrow> bs = le_bytes v32"
  "length bs = 8 \<Longrightarrow> le_word bs = (v64 :: 64 word) \<longleftrightarrow> bs = le_bytes v64"
  by auto

text \<open>Two adjacent writes are one.\<close>

lemma put_put_adjacent:
  "off' = off + length xs \<Longrightarrow> off' + length ys \<le> length d \<Longrightarrow>
   put off' ys (put off xs d) = put off (xs @ ys) d"
  by (rule region_eqI) (auto simp: nth_put nth_append)

lemma encode_at_put [simp]:
  "encode (subspan off n d) = Some (put 0 bs (subspan off n d)) \<Longrightarrow> length bs = n \<Longrightarrow>
   off + n \<le> length d \<Longrightarrow> encode_at off n encode d = Some (put off bs d)"
  by (simp add: encode_at_def)

section \<open>The contract of a codec\<close>

text \<open>
  \<open>image v\<close> is the fixed-width encoding of \<open>v\<close>; \<open>valid\<close> says which values
  the encoder accepts. A client that stores encodings in a larger region needs only these
  laws: the encoder touches exactly its width, and the decoder reads nothing else.
\<close>

locale byte_codec =
  fixes width :: nat
    and valid :: "'v \<Rightarrow> bool"
    and image :: "'v \<Rightarrow> byte list"
    and encode :: "byte list \<Rightarrow> 'v \<Rightarrow> byte list option"
    and decode :: "byte list \<Rightarrow> 'v option"
  assumes length_image: "valid v \<Longrightarrow> length (image v) = width"
    and encode_eq: "encode d v =
      (if width \<le> length d \<and> valid v then Some (put 0 (image v) d) else None)"
    and decode_small: "length s < width \<Longrightarrow> decode s = None"
    and decode_prefix: "width \<le> length s \<Longrightarrow> decode s = decode (take width s)"
    and decode_image: "valid v \<Longrightarrow> decode (image v) = Some v"
begin

lemma encode_length: "encode d v = Some d' \<Longrightarrow> length d' = length d"
  by (auto simp: encode_eq length_image split: if_splits)

lemma encode_frame: "encode d v = Some d' \<Longrightarrow> drop width d' = drop width d"
  by (auto simp: encode_eq put_def length_image split: if_splits)

lemma encode_writes: "encode d v = Some d' \<Longrightarrow> take width d' = image v"
  by (auto simp: encode_eq put_def length_image split: if_splits)

lemma encode_Some_iff: "(\<exists>d'. encode d v = Some d') \<longleftrightarrow> width \<le> length d \<and> valid v"
  by (auto simp: encode_eq)

lemma decode_encode:
  assumes "encode d v = Some d'"
  shows "decode d' = Some v"
proof -
  from assms have "valid v" and "width \<le> length d'"
    by (auto simp: encode_eq length_image split: if_splits)
  then show ?thesis
    using decode_prefix[of d'] encode_writes[OF assms] decode_image by simp
qed

lemma encode_inject:
  "encode d v = Some e \<Longrightarrow> encode d' w = Some e' \<Longrightarrow> take width e = take width e' \<Longrightarrow> v = w"
  using decode_image encode_writes by (metis encode_Some_iff option.inject)

lemma image_inject: "valid v \<Longrightarrow> valid w \<Longrightarrow> image v = image w \<Longrightarrow> v = w"
  using decode_image by (metis option.inject)

lemma decode_append: "width = length xs \<Longrightarrow> decode (xs @ ys) = decode xs"
  using decode_prefix[of "xs @ ys"] by simp

lemma decode_put:
  "valid v \<Longrightarrow> off + width \<le> length b \<Longrightarrow>
   decode (subspan off width (put off (image v) b)) = Some v"
  by (simp add: subspan_put_eq length_image decode_image)

lemma decode_put_other:
  "off + length ys \<le> length b \<Longrightarrow> off' + width \<le> length b \<Longrightarrow>
   off' + width \<le> off \<or> off + length ys \<le> off' \<Longrightarrow>
   decode (subspan off' width (put off ys b)) = decode (subspan off' width b)"
  by (simp add: subspan_put_other)

end

text \<open>A strict codec rejects every byte sequence that is not the encoding of a value.\<close>

locale strict_codec = byte_codec +
  assumes decode_strict: "decode s = Some v \<Longrightarrow> valid v \<and> image v = take width s"
begin

lemma decode_Some_iff:
  "decode s = Some v \<longleftrightarrow> width \<le> length s \<and> valid v \<and> take width s = image v"
  using decode_strict decode_small decode_prefix decode_image
  by (metis length_image not_less option.distinct(1))

lemma encode_decode: "decode s = Some v \<Longrightarrow> encode s v = Some s"
  using append_take_drop_id[of width s] by (auto simp: decode_Some_iff encode_eq put_def length_image)

end

interpretation u8: strict_codec 1 "\<lambda>_. True" "le_bytes :: 8 word \<Rightarrow> _"
    EncodeLittleEndian DecodeLittleEndian
  by unfold_locales
    (auto simp: EncodeLittleEndian_eq DecodeLittleEndian_eq Suc_le_eq split: if_splits)

interpretation u16: strict_codec 2 "\<lambda>_. True" "le_bytes :: 16 word \<Rightarrow> _"
    EncodeLittleEndian DecodeLittleEndian
  by unfold_locales (auto simp: EncodeLittleEndian_eq DecodeLittleEndian_eq split: if_splits)

interpretation u32: strict_codec 4 "\<lambda>_. True" "le_bytes :: 32 word \<Rightarrow> _"
    EncodeLittleEndian DecodeLittleEndian
  by unfold_locales (auto simp: EncodeLittleEndian_eq DecodeLittleEndian_eq split: if_splits)

interpretation u64: strict_codec 8 "\<lambda>_. True" "le_bytes :: 64 word \<Rightarrow> _"
    EncodeLittleEndian DecodeLittleEndian
  by unfold_locales (auto simp: EncodeLittleEndian_eq DecodeLittleEndian_eq split: if_splits)

section \<open>Page and tuple identifiers\<close>

definition PAGE_ID_ENCODED_SIZE :: nat where [layout, simp]: "PAGE_ID_ENCODED_SIZE = 12"
definition RID_ENCODED_SIZE :: nat where [layout, simp]: "RID_ENCODED_SIZE = 16"
definition PAGE_ID_FILE_ID_OFFSET :: nat where [layout, simp]: "PAGE_ID_FILE_ID_OFFSET = 0"
definition PAGE_ID_PAGE_NO_OFFSET :: nat where [layout, simp]: "PAGE_ID_PAGE_NO_OFFSET = 4"
definition RID_SLOT_ID_OFFSET :: nat where [layout, simp]: "RID_SLOT_ID_OFFSET = 12"
definition RID_RESERVED_OFFSET :: nat where [layout, simp]: "RID_RESERVED_OFFSET = 14"

definition EncodePageId :: "byte list \<Rightarrow> PageId \<Rightarrow> byte list option" where
  "EncodePageId destination page_id =
     (if length destination < PAGE_ID_ENCODED_SIZE then None
      else do {
        d \<leftarrow> encode_field PAGE_ID_FILE_ID_OFFSET (file_id page_id) destination;
        encode_field PAGE_ID_PAGE_NO_OFFSET (page_no page_id) d
      })"

definition DecodePageId :: "byte list \<Rightarrow> PageId option" where
  "DecodePageId source =
     (if length source < PAGE_ID_ENCODED_SIZE then None
      else do {
        fid \<leftarrow> decode_field PAGE_ID_FILE_ID_OFFSET source;
        pno \<leftarrow> decode_field PAGE_ID_PAGE_NO_OFFSET source;
        Some (PageId fid pno)
      })"

definition EncodeRid :: "byte list \<Rightarrow> Rid \<Rightarrow> byte list option" where
  "EncodeRid destination rid =
     (if length destination < RID_ENCODED_SIZE then None
      else do {
        d \<leftarrow> encode_at 0 PAGE_ID_ENCODED_SIZE (\<lambda>bs. EncodePageId bs (page rid)) destination;
        d \<leftarrow> encode_field RID_SLOT_ID_OFFSET (slot rid) d;
        encode_field RID_RESERVED_OFFSET (0 :: 16 word) d
      })"

definition DecodeRid :: "byte list \<Rightarrow> Rid option" where
  "DecodeRid source =
     (if length source < RID_ENCODED_SIZE then None
      else if source ! RID_RESERVED_OFFSET \<noteq> 0 \<or> source ! (RID_RESERVED_OFFSET + 1) \<noteq> 0 then None
      else do {
        page \<leftarrow> DecodePageId (take PAGE_ID_ENCODED_SIZE source);
        slot \<leftarrow> decode_field RID_SLOT_ID_OFFSET source;
        Some (Rid page slot)
      })"

definition PageId_image :: "PageId \<Rightarrow> byte list" where
  "PageId_image p = le_bytes (file_id p) @ le_bytes (page_no p)"

definition Rid_image :: "Rid \<Rightarrow> byte list" where
  "Rid_image r = PageId_image (page r) @ le_bytes (slot r) @ le_bytes (0 :: 16 word)"

lemma length_PageId_image [simp]: "length (PageId_image p) = 12"
  by (simp add: PageId_image_def)

lemma take_parts: "m + n \<le> length s \<Longrightarrow> take m s @ subspan m n s = take (m + n) s"
  by (simp add: subspan_def take_add)

lemma DecodePageId_eq:
  "DecodePageId s = (if length s < 12 then None
     else Some (PageId (le_word (subspan 0 4 s)) (le_word (subspan 4 8 s))))"
  by (simp add: DecodePageId_def)

lemma EncodePageId_eq:
  "EncodePageId d p = (if 12 \<le> length d then Some (put 0 (PageId_image p) d) else None)"
  by (simp add: EncodePageId_def PageId_image_def put_put_adjacent)

interpretation page_id: strict_codec 12 "\<lambda>_. True" PageId_image EncodePageId DecodePageId
  by unfold_locales
    (auto simp: EncodePageId_eq DecodePageId_eq PageId_image_def subspan_append_right
      subspan_0_take take_parts split: if_splits)

lemma le_bytes_zero_16: "le_bytes (0 :: 16 word) = [0, 0]"
  by (simp add: le_bytes_def upt_rec)

lemma EncodeRid_eq:
  "EncodeRid d r = (if 16 \<le> length d then Some (put 0 (Rid_image r) d) else None)"
  by (simp add: EncodeRid_def Rid_image_def put_put_adjacent EncodePageId_eq encode_at_def)

lemma subspan_two: "off + 2 \<le> length s \<Longrightarrow> subspan off 2 s = [s ! off, s ! (off + 1)]"
  by (rule nth_equalityI) (auto simp: nth_Cons' less_2_cases_iff)

lemma DecodeRid_Some_iff:
  "DecodeRid s = Some r \<longleftrightarrow> 16 \<le> length s \<and> take 16 s = Rid_image r"
proof (cases "16 \<le> length s")
  case True
  have parts: "take 16 s = take 12 s @ subspan 12 2 s @ [s ! 14, s ! 15]"
    using take_parts[of 12 2 s] take_parts[of 14 2 s] True subspan_two[of 14 s]
    by (simp add: append.assoc flip: append_assoc)
  have "DecodeRid s = Some r \<longleftrightarrow> s ! 14 = 0 \<and> s ! 15 = 0 \<and>
      DecodePageId (take 12 s) = Some (page r) \<and> (le_word (subspan 12 2 s) = slot r)"
    using True by (cases r) (auto simp: DecodeRid_def bind_eq_Some_ex)
  also have "\<dots> \<longleftrightarrow> take 16 s = Rid_image r"
    unfolding parts Rid_image_def page_id.decode_Some_iff le_bytes_zero_16
    using True by (auto simp: le_word_eq_iff)
  finally show ?thesis using True by simp
qed (simp add: DecodeRid_def)

interpretation rid: strict_codec 16 "\<lambda>_. True" Rid_image EncodeRid DecodeRid
proof unfold_locales
  show "length (Rid_image r) = 16" for r by (simp add: Rid_image_def)
  then show "DecodeRid (Rid_image r) = Some r" for r by (simp add: DecodeRid_Some_iff)
  show "DecodeRid s = DecodeRid (take 16 s)" if "16 \<le> length s" for s
    by (rule option_eqI) (use that in \<open>simp add: DecodeRid_Some_iff\<close>)
  show "DecodeRid s = None" if "length s < 16" for s
    using that by (simp add: DecodeRid_def)
qed (auto simp: EncodeRid_eq DecodeRid_Some_iff)

end
