(* ===== verification/Crc32c.thy ===== *)
theory Crc32c
  imports Encoding
begin

text \<open>
  The bit-by-bit CRC-32C of \<open>src/src/common/crc32c.cpp\<close> (reflected polynomial
  \<open>0x82F63B78\<close>), and its error detection: as a map of the remainder each step is
  injective, and four bytes act as one 32-bit word, so two inputs of equal length that
  differ only inside a window of four bytes never collide.
\<close>

definition CRC32C_REFLECTED_POLYNOMIAL :: "32 word" where
  "CRC32C_REFLECTED_POLYNOMIAL = 0x82F63B78"

definition CRC32C_INITIAL_REMAINDER :: "32 word" where
  "CRC32C_INITIAL_REMAINDER = 0xFFFFFFFF"

text \<open>The inner loop, \<open>n\<close> bits to go.\<close>

fun crc32c_bits :: "nat \<Rightarrow> 32 word \<Rightarrow> 32 word" where
  "crc32c_bits 0 remainder = remainder"
| "crc32c_bits (Suc n) remainder =
     crc32c_bits n
       (if remainder AND 1 \<noteq> 0 then drop_bit 1 remainder XOR CRC32C_REFLECTED_POLYNOMIAL
        else drop_bit 1 remainder)"

definition crc32c_byte :: "32 word \<Rightarrow> byte \<Rightarrow> 32 word" where
  "crc32c_byte remainder b = crc32c_bits 8 (remainder XOR ucast b)"

definition Crc32c :: "byte list \<Rightarrow> 32 word" where
  "Crc32c bytes =
     foldl crc32c_byte CRC32C_INITIAL_REMAINDER bytes XOR CRC32C_INITIAL_REMAINDER"

lemma Crc32c_check_vector:
  "Crc32c [0x31, 0x32, 0x33, 0x34, 0x35, 0x36, 0x37, 0x38, 0x39] = 0xE3069283"
  by code_simp

section \<open>Every step is injective in the remainder\<close>

lemma xor_cancel [simp]: "a XOR c = b XOR c \<longleftrightarrow> a = b" "c XOR a = c XOR b \<longleftrightarrow> a = b"
  for a :: "'a::len word"
  by (metis xor.assoc xor_self_eq xor.right_neutral, metis xor.assoc xor_self_eq xor.left_neutral)

definition crc32c_bit :: "32 word \<Rightarrow> 32 word" where
  "crc32c_bit r =
     (if bit r 0 then drop_bit 1 r XOR CRC32C_REFLECTED_POLYNOMIAL else drop_bit 1 r)"

lemma and_1_ne_0: "(r :: 32 word) AND 1 \<noteq> 0 \<longleftrightarrow> bit r 0"
  by (simp add: and_one_eq odd_iff_mod_2_eq_one bit_0 flip: even_iff_mod_2_eq_zero)

lemma crc32c_bits_Suc: "crc32c_bits (Suc n) r = crc32c_bits n (crc32c_bit r)"
  by (simp only: crc32c_bits.simps crc32c_bit_def and_1_ne_0)

lemma crc32c_bits_add: "crc32c_bits (m + n) r = crc32c_bits n (crc32c_bits m r)"
  by (induction m arbitrary: r) (simp_all add: crc32c_bits_Suc del: crc32c_bits.simps(2))

lemma bit_poly_31: "bit CRC32C_REFLECTED_POLYNOMIAL 31"
  by (simp add: CRC32C_REFLECTED_POLYNOMIAL_def bit_numeral_rec(1) bit_iff_odd_drop_bit)

lemma bit_crc32c_bit_31: "bit (crc32c_bit r) 31 = bit r 0"
  using bit_poly_31 by (auto simp: crc32c_bit_def bit_xor_iff bit_drop_bit_eq
      dest: bit_imp_le_length)

lemma crc32c_bit_inject: "crc32c_bit r = crc32c_bit s \<Longrightarrow> r = s"
proof -
  assume eq: "crc32c_bit r = crc32c_bit s"
  then have b0: "bit r 0 = bit s 0"
    using bit_crc32c_bit_31 by metis
  with eq have "drop_bit 1 r = drop_bit 1 s"
    by (auto simp: crc32c_bit_def split: if_splits)
  then have "bit r (Suc n) = bit s (Suc n)" for n
    by (metis bit_drop_bit_eq comp_apply plus_1_eq_Suc)
  with b0 show "r = s"
    by (intro bit_word_eqI) (metis not0_implies_Suc)
qed

lemma crc32c_bits_inject: "crc32c_bits n r = crc32c_bits n s \<Longrightarrow> r = s"
  by (induction n arbitrary: r s)
    (auto simp: crc32c_bits_Suc simp del: crc32c_bits.simps(2) dest: crc32c_bit_inject)

lemma crc32c_byte_inject: "crc32c_byte r b = crc32c_byte s b \<Longrightarrow> r = s"
  by (auto simp: crc32c_byte_def dest!: crc32c_bits_inject)

lemma crc32c_bytes_inject:
  "foldl crc32c_byte r bs = foldl crc32c_byte s bs \<Longrightarrow> r = s"
  by (induction bs arbitrary: r s) (auto dest: crc32c_byte_inject)

section \<open>Four bytes act as one word\<close>

lemma crc32c_bit_xor: "crc32c_bit (r XOR push_bit 1 y) = crc32c_bit r XOR take_bit 31 y"
proof -
  have "drop_bit 1 (r XOR push_bit 1 y) = drop_bit 1 r XOR take_bit 31 y"
    by (rule bit_word_eqI)
      (simp only: bit_drop_bit_eq bit_xor_iff bit_push_bit_iff bit_take_bit_iff comp_def,
        auto dest: bit_imp_le_length)
  moreover have "bit (r XOR push_bit 1 y) 0 = bit r 0"
    by (simp only: bit_xor_iff bit_push_bit_iff) simp
  ultimately show ?thesis
    by (simp add: crc32c_bit_def xor.assoc xor.commute xor.left_commute)
qed

lemma crc32c_bits_xor:
  "n \<le> 32 \<Longrightarrow> crc32c_bits n (r XOR push_bit n y) = crc32c_bits n r XOR take_bit (32 - n) y"
proof (induction n arbitrary: r y)
  case 0
  then show ?case by (simp add: take_bit_word_eq_self)
next
  case (Suc n)
  have "push_bit (Suc n) y = push_bit 1 (push_bit n y)" by (simp add: push_bit_push_bit)
  then have "crc32c_bits (Suc n) (r XOR push_bit (Suc n) y) =
      crc32c_bits n (crc32c_bit r XOR take_bit 31 (push_bit n y))"
    by (simp only: crc32c_bits_Suc crc32c_bit_xor)
  also have "take_bit 31 (push_bit n y) = push_bit n (take_bit (31 - n) y)"
    by (rule bit_word_eqI) (auto simp: bit_push_bit_iff bit_take_bit_iff)
  also have "crc32c_bits n (crc32c_bit r XOR \<dots>) =
      crc32c_bits n (crc32c_bit r) XOR take_bit (32 - n) (take_bit (31 - n) y)"
    using Suc by simp
  finally show ?case
    by (simp add: crc32c_bits_Suc min_def del: crc32c_bits.simps(2))
qed

text \<open>The window of the next \<open>length bs \<le> 4\<close> bytes is one XOR into the remainder.\<close>

lemma crc32c_window:
  "length bs \<le> 4 \<Longrightarrow>
   foldl crc32c_byte r bs = crc32c_bits (8 * length bs) (r XOR le_word bs)"
proof (induction bs arbitrary: r)
  case Nil
  then show ?case by simp
next
  case (Cons b bs)
  have small: "take_bit 24 (le_word bs :: 32 word) = le_word bs"
  proof (rule bit_word_eqI)
    fix n
    show "bit (take_bit 24 (le_word bs :: 32 word)) n = bit (le_word bs :: 32 word) n"
      using Cons.prems by (auto simp: bit_take_bit_iff bit_le_word)
  qed
  have "foldl crc32c_byte r (b # bs) =
      crc32c_bits (8 * length bs) (crc32c_bits 8 (r XOR ucast b) XOR le_word bs)"
    using Cons by (simp flip: crc32c_byte_def)
  also have "crc32c_bits 8 (r XOR ucast b) XOR le_word bs =
      crc32c_bits 8 (r XOR ucast b XOR push_bit 8 (le_word bs))"
    using crc32c_bits_xor[of 8 "r XOR ucast b" "le_word bs"] small by (simp add: xor.assoc)
  also have "r XOR ucast b XOR push_bit 8 (le_word bs) = r XOR le_word (b # bs)"
  proof -
    have "ucast b XOR push_bit 8 (le_word bs :: 32 word) = ucast b OR push_bit 8 (le_word bs)"
      by (rule bit_word_eqI) (auto simp: bit_xor_iff bit_or_iff bit_push_bit_iff bit_ucast_iff
          dest: bit_imp_le_length)
    then show ?thesis by (simp add: xor.assoc)
  qed
  finally show ?case by (simp add: add.commute flip: crc32c_bits_add)
qed

text \<open>Inputs that differ only inside a four-byte window have different checksums.\<close>

lemma Crc32c_window_inject:
  assumes eq: "Crc32c (xs @ u @ ys) = Crc32c (xs @ w @ ys)"
    and len: "length u = length w" "length w \<le> 4"
  shows "u = w"
proof -
  let ?r = "foldl crc32c_byte CRC32C_INITIAL_REMAINDER xs"
  from eq have "foldl crc32c_byte ?r u = foldl crc32c_byte ?r w"
    by (auto simp: Crc32c_def dest!: crc32c_bytes_inject)
  then have "(le_word u :: 32 word) = le_word w"
    using len by (auto simp: crc32c_window dest!: crc32c_bits_inject)
  then have eqb: "bit (u ! i) j = bit (w ! i) j" if "i < length w" "j < 8" for i j
  proof -
    have "8 * i + j < 32" using that len by linarith
    moreover have "bit (le_word u :: 32 word) (8 * i + j) = bit (le_word w :: 32 word) (8 * i + j)"
      using \<open>(le_word u :: 32 word) = le_word w\<close> by simp
    ultimately show ?thesis using that len by (simp add: bit_le_word)
  qed
  show "u = w"
    by (rule nth_equalityI) (use len eqb in \<open>auto intro!: bit_word_eqI\<close>)
qed

end
