(* ===== verification/Page.thy ===== *)
theory Page
  imports Crc32c
begin

text \<open>
  The page layer: \<open>src/src/storage/page/page_header.h\<close> (common 32-byte header),
  \<open>page.h\<close>/\<open>page.cpp\<close> (a page bound to its \<open>PageId\<close>) and
  \<open>page_checksum.cpp\<close>. A scoped enumeration with a fixed underlying type can hold any
  value of that type, so \<open>static_cast<PageType>\<close> of an unassigned code yields a value
  that is none of the enumerators; it is the constructor \<open>UNNAMED_PAGE_TYPE\<close>.
\<close>

definition PAGE_SIZE :: nat where [layout, simp]: "PAGE_SIZE = 8192"
definition COMMON_PAGE_HEADER_ENCODED_SIZE :: nat where [layout, simp]:
  "COMMON_PAGE_HEADER_ENCODED_SIZE = 32"

section \<open>The common header\<close>

datatype PageType =
    SUPERBLOCK | HEAP_DATA | FSM_DATA | BTREE_INTERNAL | BTREE_LEAF | BTREE_FREE | CATALOG_DATA
  | UNNAMED_PAGE_TYPE "16 word"

fun PageType_value :: "PageType \<Rightarrow> 16 word" where
  "PageType_value SUPERBLOCK = 0"
| "PageType_value HEAP_DATA = 1"
| "PageType_value FSM_DATA = 2"
| "PageType_value BTREE_INTERNAL = 3"
| "PageType_value BTREE_LEAF = 4"
| "PageType_value BTREE_FREE = 5"
| "PageType_value CATALOG_DATA = 6"
| "PageType_value (UNNAMED_PAGE_TYPE w) = w"

definition PageType_cast :: "16 word \<Rightarrow> PageType" where
  "PageType_cast w =
     (if w = 0 then SUPERBLOCK else if w = 1 then HEAP_DATA else if w = 2 then FSM_DATA
      else if w = 3 then BTREE_INTERNAL else if w = 4 then BTREE_LEAF
      else if w = 5 then BTREE_FREE else if w = 6 then CATALOG_DATA
      else UNNAMED_PAGE_TYPE w)"

text \<open>A C++ value has one representation: an unnamed value is not one of the codes.\<close>

definition PageType_repr :: "PageType \<Rightarrow> bool" where
  "PageType_repr t = (PageType_cast (PageType_value t) = t)"

lemma PageType_value_cast [simp]: "PageType_value (PageType_cast w) = w"
  by (simp add: PageType_cast_def)

lemma PageType_repr_cast [simp]: "PageType_repr (PageType_cast w)"
  by (simp add: PageType_repr_def)

lemma PageType_repr_named [simp]:
  "PageType_repr SUPERBLOCK" "PageType_repr HEAP_DATA" "PageType_repr FSM_DATA"
  "PageType_repr BTREE_INTERNAL" "PageType_repr BTREE_LEAF" "PageType_repr BTREE_FREE"
  "PageType_repr CATALOG_DATA"
  by (simp_all add: PageType_repr_def PageType_cast_def)

record CommonPageHeader =
  ch_page_type :: PageType
  ch_format_version :: "16 word"
  ch_flags :: "32 word"
  ch_page_lsn :: Lsn
  ch_checksum_crc32c :: "32 word"
  ch_header_size :: "16 word"
  ch_reserved16 :: "16 word"
  ch_page_no :: PageNo

definition CH_PAGE_TYPE_OFFSET :: nat where [layout, simp]: "CH_PAGE_TYPE_OFFSET = 0"
definition CH_FORMAT_VERSION_OFFSET :: nat where [layout, simp]: "CH_FORMAT_VERSION_OFFSET = 2"
definition CH_FLAGS_OFFSET :: nat where [layout, simp]: "CH_FLAGS_OFFSET = 4"
definition CH_PAGE_LSN_OFFSET :: nat where [layout, simp]: "CH_PAGE_LSN_OFFSET = 8"
definition CH_CHECKSUM_OFFSET :: nat where [layout, simp]: "CH_CHECKSUM_OFFSET = 16"
definition CH_HEADER_SIZE_OFFSET :: nat where [layout, simp]: "CH_HEADER_SIZE_OFFSET = 20"
definition CH_RESERVED16_OFFSET :: nat where [layout, simp]: "CH_RESERVED16_OFFSET = 22"
definition CH_PAGE_NO_OFFSET :: nat where [layout, simp]: "CH_PAGE_NO_OFFSET = 24"

text \<open>The code encodes all eight fields and returns their conjunction; each subspan has
  exactly its field's size, so no field can fail and the chain below takes every step.\<close>

definition EncodeCommonPageHeader :: "byte list \<Rightarrow> CommonPageHeader \<Rightarrow> byte list option" where
  "EncodeCommonPageHeader destination header =
     (if length destination < COMMON_PAGE_HEADER_ENCODED_SIZE then None
      else do {
        d \<leftarrow> encode_field CH_PAGE_TYPE_OFFSET (PageType_value (ch_page_type header)) destination;
        d \<leftarrow> encode_field CH_FORMAT_VERSION_OFFSET (ch_format_version header) d;
        d \<leftarrow> encode_field CH_FLAGS_OFFSET (ch_flags header) d;
        d \<leftarrow> encode_field CH_PAGE_LSN_OFFSET (ch_page_lsn header) d;
        d \<leftarrow> encode_field CH_CHECKSUM_OFFSET (ch_checksum_crc32c header) d;
        d \<leftarrow> encode_field CH_HEADER_SIZE_OFFSET (ch_header_size header) d;
        d \<leftarrow> encode_field CH_RESERVED16_OFFSET (ch_reserved16 header) d;
        encode_field CH_PAGE_NO_OFFSET (ch_page_no header) d
      })"

definition DecodeCommonPageHeader :: "byte list \<Rightarrow> CommonPageHeader option" where
  "DecodeCommonPageHeader source =
     (if length source < COMMON_PAGE_HEADER_ENCODED_SIZE then None
      else do {
        page_type \<leftarrow> decode_field CH_PAGE_TYPE_OFFSET source;
        format_version \<leftarrow> decode_field CH_FORMAT_VERSION_OFFSET source;
        flags \<leftarrow> decode_field CH_FLAGS_OFFSET source;
        page_lsn \<leftarrow> decode_field CH_PAGE_LSN_OFFSET source;
        checksum \<leftarrow> decode_field CH_CHECKSUM_OFFSET source;
        header_size \<leftarrow> decode_field CH_HEADER_SIZE_OFFSET source;
        reserved16 \<leftarrow> decode_field CH_RESERVED16_OFFSET source;
        page_no \<leftarrow> decode_field CH_PAGE_NO_OFFSET source;
        Some \<lparr>ch_page_type = PageType_cast page_type, ch_format_version = format_version,
          ch_flags = flags, ch_page_lsn = page_lsn, ch_checksum_crc32c = checksum,
          ch_header_size = header_size, ch_reserved16 = reserved16, ch_page_no = page_no\<rparr>
      })"

definition CommonPageHeader_image :: "CommonPageHeader \<Rightarrow> byte list" where
  "CommonPageHeader_image h =
     le_bytes (PageType_value (ch_page_type h)) @ le_bytes (ch_format_version h) @
     le_bytes (ch_flags h) @ le_bytes (ch_page_lsn h) @ le_bytes (ch_checksum_crc32c h) @
     le_bytes (ch_header_size h) @ le_bytes (ch_reserved16 h) @ le_bytes (ch_page_no h)"

lemma length_CommonPageHeader_image [simp]: "length (CommonPageHeader_image h) = 32"
  by (simp add: CommonPageHeader_image_def)

lemma EncodeCommonPageHeader_eq:
  "EncodeCommonPageHeader d h =
     (if 32 \<le> length d then Some (put 0 (CommonPageHeader_image h) d) else None)"
  by (simp add: EncodeCommonPageHeader_def CommonPageHeader_image_def put_put_adjacent)

lemma DecodeCommonPageHeader_eq:
  "DecodeCommonPageHeader s =
     (if length s < 32 then None
      else Some \<lparr>ch_page_type = PageType_cast (le_word (subspan 0 2 s)),
        ch_format_version = le_word (subspan 2 2 s), ch_flags = le_word (subspan 4 4 s),
        ch_page_lsn = le_word (subspan 8 8 s), ch_checksum_crc32c = le_word (subspan 16 4 s),
        ch_header_size = le_word (subspan 20 2 s), ch_reserved16 = le_word (subspan 22 2 s),
        ch_page_no = le_word (subspan 24 8 s)\<rparr>)"
  by (simp add: DecodeCommonPageHeader_def)

interpretation common_header: strict_codec 32 "\<lambda>h. PageType_repr (ch_page_type h)"
    CommonPageHeader_image
    "\<lambda>d h. if PageType_repr (ch_page_type h) then EncodeCommonPageHeader d h else None"
    DecodeCommonPageHeader
proof unfold_locales
  show "DecodeCommonPageHeader (CommonPageHeader_image h) = Some h"
    if "PageType_repr (ch_page_type h)" for h
    using that by (simp add: DecodeCommonPageHeader_eq CommonPageHeader_image_def PageType_repr_def
        subspan_append_right)
  show "PageType_repr (ch_page_type h) \<and> CommonPageHeader_image h = take 32 s"
    if "DecodeCommonPageHeader s = Some h" for s h
    using that
    by (auto simp: DecodeCommonPageHeader_eq CommonPageHeader_image_def subspan_0_take take_parts
        simp flip: append_assoc split: if_splits)
qed (auto simp: EncodeCommonPageHeader_eq DecodeCommonPageHeader_eq)

section \<open>A page\<close>

record Page =
  Page_id :: PageId
  Page_bytes :: "byte list"

text \<open>The byte storage is a fixed array; a model page is one whose list has that length.\<close>

definition Page_wf :: "Page \<Rightarrow> bool" where
  "Page_wf p = (length (Page_bytes p) = PAGE_SIZE)"

definition Page_new :: "PageId \<Rightarrow> Page" where
  "Page_new pid = \<lparr>Page_id = pid, Page_bytes = replicate PAGE_SIZE 0\<rparr>"

text \<open>\<open>DBLUS_CHECK\<close> aborts the process when its condition fails; \<open>None\<close> is the
  abort.\<close>

definition Page_WriteHeader :: "Page \<Rightarrow> CommonPageHeader \<Rightarrow> Page option" where
  "Page_WriteHeader p header =
     map_option (\<lambda>bs. p\<lparr>Page_bytes := bs\<rparr>) (EncodeCommonPageHeader (Page_bytes p) header)"

definition Page_Initialize :: "Page \<Rightarrow> CommonPageHeader \<Rightarrow> Page option" where
  "Page_Initialize p header =
     Page_WriteHeader (p\<lparr>Page_bytes := replicate (length (Page_bytes p)) 0\<rparr>) header"

definition Page_DecodeHeader :: "Page \<Rightarrow> CommonPageHeader option" where
  "Page_DecodeHeader p = DecodeCommonPageHeader (Page_bytes p)"

datatype PageHeaderValidationError = DECODE_FAILED | UNEXPECTED_PAGE_TYPE | UNEXPECTED_PAGE_NUMBER

definition Page_ValidateHeader ::
    "Page \<Rightarrow> PageType \<Rightarrow> (CommonPageHeader, PageHeaderValidationError) result" where
  "Page_ValidateHeader p expected_type =
     (case Page_DecodeHeader p of
        None \<Rightarrow> Unexpected DECODE_FAILED
      | Some header \<Rightarrow>
          if ch_page_type header \<noteq> expected_type then Unexpected UNEXPECTED_PAGE_TYPE
          else if ch_page_no header \<noteq> page_no (Page_id p) then Unexpected UNEXPECTED_PAGE_NUMBER
          else Ok header)"

lemma Page_new_wf [simp]: "Page_wf (Page_new pid)"
  by (simp add: Page_wf_def Page_new_def)

lemma Page_Initialize_eq:
  "Page_wf p \<Longrightarrow> Page_Initialize p h =
     Some (p\<lparr>Page_bytes := put 0 (CommonPageHeader_image h) (replicate 8192 0)\<rparr>)"
  by (simp add: Page_Initialize_def Page_WriteHeader_def EncodeCommonPageHeader_eq Page_wf_def)

lemma Page_ValidateHeader_Ok_iff:
  "Page_ValidateHeader p t = Ok h \<longleftrightarrow>
     Page_DecodeHeader p = Some h \<and> ch_page_type h = t \<and> ch_page_no h = page_no (Page_id p)"
  by (auto simp: Page_ValidateHeader_def split: option.splits if_splits)

section \<open>The page checksum\<close>

definition ComputePageChecksum :: "byte list \<Rightarrow> 32 word" where
  "ComputePageChecksum bytes = Crc32c (put CH_CHECKSUM_OFFSET (replicate 4 0) (take PAGE_SIZE bytes))"

definition FinalizePageChecksum :: "byte list \<Rightarrow> byte list" where
  "FinalizePageChecksum bytes =
     (case encode_field CH_CHECKSUM_OFFSET (ComputePageChecksum bytes) bytes of
        None \<Rightarrow> bytes | Some bytes' \<Rightarrow> bytes')"

definition VerifyPageChecksum :: "byte list \<Rightarrow> bool" where
  "VerifyPageChecksum bytes =
     (case decode_field CH_CHECKSUM_OFFSET bytes of
        None \<Rightarrow> False | Some stored \<Rightarrow> stored = ComputePageChecksum bytes)"

lemma length_FinalizePageChecksum [simp]:
  "length bs = 8192 \<Longrightarrow> length (FinalizePageChecksum bs) = 8192"
  by (simp add: FinalizePageChecksum_def)

lemma FinalizePageChecksum_eq:
  "length bs = 8192 \<Longrightarrow> FinalizePageChecksum bs = put 16 (le_bytes (ComputePageChecksum bs)) bs"
  by (simp add: FinalizePageChecksum_def)

lemma VerifyPageChecksum_eq:
  "length bs = 8192 \<Longrightarrow>
   VerifyPageChecksum bs \<longleftrightarrow> subspan 16 4 bs = le_bytes (ComputePageChecksum bs)"
  by (simp add: VerifyPageChecksum_def le_word_eq_iff)

text \<open>The checksum does not depend on its own field.\<close>

lemma ComputePageChecksum_field:
  "length bs = 8192 \<Longrightarrow> length f = 4 \<Longrightarrow>
   ComputePageChecksum (put 16 f bs) = ComputePageChecksum bs"
  by (simp add: ComputePageChecksum_def put_put_same)

lemma VerifyPageChecksum_Finalize:
  "length bs = 8192 \<Longrightarrow> VerifyPageChecksum (FinalizePageChecksum bs)"
  by (simp add: VerifyPageChecksum_eq FinalizePageChecksum_eq ComputePageChecksum_field
      subspan_put_eq)

lemma FinalizePageChecksum_other:
  "length bs = 8192 \<Longrightarrow> off + n \<le> 16 \<or> 20 \<le> off \<and> off + n \<le> 8192 \<Longrightarrow>
   subspan off n (FinalizePageChecksum bs) = subspan off n bs"
  by (auto simp: FinalizePageChecksum_eq subspan_put_other)

text \<open>A change confined to at most four consecutive bytes that is entirely inside or entirely
  outside the checksum field.\<close>

lemma put_split:
  "off + length ys \<le> length xs \<Longrightarrow> put off ys xs = take off xs @ ys @ drop (off + length ys) xs"
  by (simp add: put_def)

lemma ComputePageChecksum_window:
  assumes len: "length bs = 8192" "length u = length w" "length w \<le> 4"
    and at: "off + length w \<le> 16 \<or> 20 \<le> off \<and> off + length w \<le> 8192"
    and eq: "ComputePageChecksum (put off u bs) = ComputePageChecksum (put off w bs)"
  shows "u = w"
proof -
  define z where "z = put 16 (replicate 4 0) bs"
  have swap: "put 16 (replicate 4 0) (put off v bs) = take off z @ v @ drop (off + length w) z"
    if "length v = length w" for v
  proof -
    have "put 16 (replicate 4 0) (put off v bs) = put off v z"
      unfolding z_def by (rule put_put_commute) (use that len at in auto)
    then show ?thesis using that by (simp add: put_def)
  qed
  have "off + length w \<le> 8192" using at by auto
  with eq len show ?thesis
    unfolding ComputePageChecksum_def
    by (intro Crc32c_window_inject[of "take off z" u "drop (off + length w) z" w])
      (auto simp: swap[symmetric])
qed

end
