(* ===== verification/Heap_Format.thy ===== *)
theory Heap_Format
  imports Page
begin

text \<open>
  The persisted forms of a heap page's own header and of a slot-directory entry:
  \<open>src/src/storage/heap/heap_page_format.h\<close> and \<open>heap_page_format.cpp\<close>.
\<close>

definition HEAP_PAGE_FORMAT_VERSION :: "16 word" where [layout, simp]: "HEAP_PAGE_FORMAT_VERSION = 1"
definition HEAP_PAGE_HEADER_OFFSET :: nat where [layout, simp]: "HEAP_PAGE_HEADER_OFFSET = 32"
definition HEAP_PAGE_HEADER_ENCODED_SIZE :: nat where [layout, simp]:
  "HEAP_PAGE_HEADER_ENCODED_SIZE = 16"
definition HEAP_PAGE_TOTAL_HEADER_SIZE :: nat where [layout, simp]: "HEAP_PAGE_TOTAL_HEADER_SIZE = 48"
definition HEAP_PAGE_SLOT_ENTRY_ENCODED_SIZE :: nat where [layout, simp]:
  "HEAP_PAGE_SLOT_ENTRY_ENCODED_SIZE = 8"
definition HEAP_PAGE_SLOT_DIRECTORY_OFFSET :: nat where [layout, simp]:
  "HEAP_PAGE_SLOT_DIRECTORY_OFFSET = 48"
definition HEAP_PAGE_MAX_RAW_TUPLE_SIZE :: nat where [layout, simp]:
  "HEAP_PAGE_MAX_RAW_TUPLE_SIZE =
     PAGE_SIZE - HEAP_PAGE_TOTAL_HEADER_SIZE - HEAP_PAGE_SLOT_ENTRY_ENCODED_SIZE - 1"

definition HP_SLOT_COUNT_OFFSET :: nat where [layout, simp]: "HP_SLOT_COUNT_OFFSET = 0"
definition HP_FREE_SLOT_HEAD_OFFSET :: nat where [layout, simp]: "HP_FREE_SLOT_HEAD_OFFSET = 2"
definition HP_LOWER_OFFSET :: nat where [layout, simp]: "HP_LOWER_OFFSET = 4"
definition HP_UPPER_OFFSET :: nat where [layout, simp]: "HP_UPPER_OFFSET = 6"
definition HP_PRUNE_HINT_OFFSET :: nat where [layout, simp]: "HP_PRUNE_HINT_OFFSET = 8"
definition HP_RESERVED_OFFSET :: nat where [layout, simp]: "HP_RESERVED_OFFSET = 12"

definition HEAP_SLOT_TUPLE_OFFSET_OFFSET :: nat where [layout, simp]:
  "HEAP_SLOT_TUPLE_OFFSET_OFFSET = 0"
definition HEAP_SLOT_TUPLE_LENGTH_OFFSET :: nat where [layout, simp]:
  "HEAP_SLOT_TUPLE_LENGTH_OFFSET = 2"
definition HEAP_SLOT_FLAGS_OFFSET :: nat where [layout, simp]: "HEAP_SLOT_FLAGS_OFFSET = 4"
definition HEAP_SLOT_AUX_OFFSET :: nat where [layout, simp]: "HEAP_SLOT_AUX_OFFSET = 6"

section \<open>The heap page header\<close>

record HeapPageHeader =
  hp_slot_count :: "16 word"
  hp_free_slot_head :: SlotId
  hp_lower :: "16 word"
  hp_upper :: "16 word"
  hp_prune_hint :: "32 word"
  hp_reserved :: "32 word"

definition default_HeapPageHeader :: HeapPageHeader where
  "default_HeapPageHeader = \<lparr>hp_slot_count = 0, hp_free_slot_head = INVALID_SLOT_ID,
     hp_lower = of_nat HEAP_PAGE_TOTAL_HEADER_SIZE, hp_upper = of_nat PAGE_SIZE,
     hp_prune_hint = 0, hp_reserved = 0\<rparr>"

definition EncodeHeapPageHeader :: "byte list \<Rightarrow> HeapPageHeader \<Rightarrow> byte list option" where
  "EncodeHeapPageHeader destination header =
     (if length destination < HEAP_PAGE_HEADER_ENCODED_SIZE then None
      else do {
        d \<leftarrow> encode_field HP_SLOT_COUNT_OFFSET (hp_slot_count header) destination;
        d \<leftarrow> encode_field HP_FREE_SLOT_HEAD_OFFSET (hp_free_slot_head header) d;
        d \<leftarrow> encode_field HP_LOWER_OFFSET (hp_lower header) d;
        d \<leftarrow> encode_field HP_UPPER_OFFSET (hp_upper header) d;
        d \<leftarrow> encode_field HP_PRUNE_HINT_OFFSET (hp_prune_hint header) d;
        encode_field HP_RESERVED_OFFSET (hp_reserved header) d
      })"

definition DecodeHeapPageHeader :: "byte list \<Rightarrow> HeapPageHeader option" where
  "DecodeHeapPageHeader source =
     (if length source < HEAP_PAGE_HEADER_ENCODED_SIZE then None
      else do {
        slot_count \<leftarrow> decode_field HP_SLOT_COUNT_OFFSET source;
        free_slot_head \<leftarrow> decode_field HP_FREE_SLOT_HEAD_OFFSET source;
        lower \<leftarrow> decode_field HP_LOWER_OFFSET source;
        upper \<leftarrow> decode_field HP_UPPER_OFFSET source;
        prune_hint \<leftarrow> decode_field HP_PRUNE_HINT_OFFSET source;
        reserved \<leftarrow> decode_field HP_RESERVED_OFFSET source;
        Some \<lparr>hp_slot_count = slot_count, hp_free_slot_head = free_slot_head, hp_lower = lower,
          hp_upper = upper, hp_prune_hint = prune_hint, hp_reserved = reserved\<rparr>
      })"

definition HeapPageHeader_image :: "HeapPageHeader \<Rightarrow> byte list" where
  "HeapPageHeader_image h =
     le_bytes (hp_slot_count h) @ le_bytes (hp_free_slot_head h) @ le_bytes (hp_lower h) @
     le_bytes (hp_upper h) @ le_bytes (hp_prune_hint h) @ le_bytes (hp_reserved h)"

lemma length_HeapPageHeader_image [simp]: "length (HeapPageHeader_image h) = 16"
  by (simp add: HeapPageHeader_image_def)

lemma EncodeHeapPageHeader_eq:
  "EncodeHeapPageHeader d h =
     (if 16 \<le> length d then Some (put 0 (HeapPageHeader_image h) d) else None)"
  by (simp add: EncodeHeapPageHeader_def HeapPageHeader_image_def put_put_adjacent)

lemma DecodeHeapPageHeader_eq:
  "DecodeHeapPageHeader s =
     (if length s < 16 then None
      else Some \<lparr>hp_slot_count = le_word (subspan 0 2 s), hp_free_slot_head = le_word (subspan 2 2 s),
        hp_lower = le_word (subspan 4 2 s), hp_upper = le_word (subspan 6 2 s),
        hp_prune_hint = le_word (subspan 8 4 s), hp_reserved = le_word (subspan 12 4 s)\<rparr>)"
  by (simp add: DecodeHeapPageHeader_def)

interpretation heap_header: strict_codec 16 "\<lambda>_. True" HeapPageHeader_image
    EncodeHeapPageHeader DecodeHeapPageHeader
proof unfold_locales
  show "DecodeHeapPageHeader (HeapPageHeader_image h) = Some h" for h
    by (simp add: DecodeHeapPageHeader_eq HeapPageHeader_image_def subspan_append_right)
  show "True \<and> HeapPageHeader_image h = take 16 s" if "DecodeHeapPageHeader s = Some h" for s h
    using that
    by (auto simp: DecodeHeapPageHeader_eq HeapPageHeader_image_def subspan_0_take take_parts
        simp flip: append_assoc split: if_splits)
qed (auto simp: EncodeHeapPageHeader_eq DecodeHeapPageHeader_eq)

section \<open>Slot entries\<close>

datatype HeapSlotState =
  UNUSED | NORMAL | DEAD | REDIRECT_RESERVED | UNNAMED_SLOT_STATE "16 word"

fun HeapSlotState_value :: "HeapSlotState \<Rightarrow> 16 word" where
  "HeapSlotState_value UNUSED = 0"
| "HeapSlotState_value NORMAL = 1"
| "HeapSlotState_value DEAD = 2"
| "HeapSlotState_value REDIRECT_RESERVED = 3"
| "HeapSlotState_value (UNNAMED_SLOT_STATE w) = w"

definition HeapSlotState_cast :: "16 word \<Rightarrow> HeapSlotState" where
  "HeapSlotState_cast w =
     (if w = 0 then UNUSED else if w = 1 then NORMAL else if w = 2 then DEAD
      else if w = 3 then REDIRECT_RESERVED else UNNAMED_SLOT_STATE w)"

fun IsValidHeapSlotState :: "HeapSlotState \<Rightarrow> bool" where
  "IsValidHeapSlotState UNUSED = True"
| "IsValidHeapSlotState NORMAL = True"
| "IsValidHeapSlotState DEAD = True"
| "IsValidHeapSlotState REDIRECT_RESERVED = True"
| "IsValidHeapSlotState (UNNAMED_SLOT_STATE w) = False"

lemma HeapSlotState_value_cast [simp]: "HeapSlotState_value (HeapSlotState_cast w) = w"
  by (simp add: HeapSlotState_cast_def)

lemma HeapSlotState_cast_value [simp]:
  "IsValidHeapSlotState s \<Longrightarrow> HeapSlotState_cast (HeapSlotState_value s) = s"
  by (cases s) (simp_all add: HeapSlotState_cast_def)

record HeapSlotEntry =
  se_tuple_offset :: "16 word"
  se_tuple_length :: "16 word"
  se_state :: HeapSlotState
  se_aux :: "16 word"

definition default_HeapSlotEntry :: HeapSlotEntry where
  "default_HeapSlotEntry =
     \<lparr>se_tuple_offset = 0, se_tuple_length = 0, se_state = UNUSED, se_aux = 0\<rparr>"

datatype HeapSlotEntryDecodeError = SLOT_BUFFER_TOO_SMALL | SLOT_INVALID_STATE

definition EncodeHeapSlotEntry :: "byte list \<Rightarrow> HeapSlotEntry \<Rightarrow> byte list option" where
  "EncodeHeapSlotEntry destination entry =
     (if length destination < HEAP_PAGE_SLOT_ENTRY_ENCODED_SIZE
         \<or> \<not> IsValidHeapSlotState (se_state entry) then None
      else do {
        d \<leftarrow> encode_field HEAP_SLOT_TUPLE_OFFSET_OFFSET (se_tuple_offset entry) destination;
        d \<leftarrow> encode_field HEAP_SLOT_TUPLE_LENGTH_OFFSET (se_tuple_length entry) d;
        d \<leftarrow> encode_field HEAP_SLOT_FLAGS_OFFSET (HeapSlotState_value (se_state entry)) d;
        encode_field HEAP_SLOT_AUX_OFFSET (se_aux entry) d
      })"

definition DecodeHeapSlotEntry ::
    "byte list \<Rightarrow> (HeapSlotEntry, HeapSlotEntryDecodeError) result" where
  "DecodeHeapSlotEntry source =
     (if length source < HEAP_PAGE_SLOT_ENTRY_ENCODED_SIZE then Unexpected SLOT_BUFFER_TOO_SMALL
      else
        (case (decode_field HEAP_SLOT_TUPLE_OFFSET_OFFSET source,
               decode_field HEAP_SLOT_TUPLE_LENGTH_OFFSET source,
               decode_field HEAP_SLOT_FLAGS_OFFSET source,
               decode_field HEAP_SLOT_AUX_OFFSET source) of
           (Some tuple_offset, Some tuple_length, Some raw_state, Some aux) \<Rightarrow>
             let state = HeapSlotState_cast raw_state
             in if \<not> IsValidHeapSlotState state then Unexpected SLOT_INVALID_STATE
                else Ok \<lparr>se_tuple_offset = tuple_offset, se_tuple_length = tuple_length,
                       se_state = state, se_aux = aux\<rparr>
         | _ \<Rightarrow> Unexpected SLOT_BUFFER_TOO_SMALL))"

definition HeapSlotEntry_image :: "HeapSlotEntry \<Rightarrow> byte list" where
  "HeapSlotEntry_image e =
     le_bytes (se_tuple_offset e) @ le_bytes (se_tuple_length e) @
     le_bytes (HeapSlotState_value (se_state e)) @ le_bytes (se_aux e)"

lemma length_HeapSlotEntry_image [simp]: "length (HeapSlotEntry_image e) = 8"
  by (simp add: HeapSlotEntry_image_def)

lemma EncodeHeapSlotEntry_eq:
  "EncodeHeapSlotEntry d e =
     (if 8 \<le> length d \<and> IsValidHeapSlotState (se_state e)
      then Some (put 0 (HeapSlotEntry_image e) d) else None)"
  by (auto simp: EncodeHeapSlotEntry_def HeapSlotEntry_image_def put_put_adjacent)

lemma DecodeHeapSlotEntry_eq:
  "DecodeHeapSlotEntry s =
     (if length s < 8 then Unexpected SLOT_BUFFER_TOO_SMALL
      else let state = HeapSlotState_cast (le_word (subspan 4 2 s))
           in if \<not> IsValidHeapSlotState state then Unexpected SLOT_INVALID_STATE
              else Ok \<lparr>se_tuple_offset = le_word (subspan 0 2 s),
                     se_tuple_length = le_word (subspan 2 2 s),
                     se_state = state, se_aux = le_word (subspan 6 2 s)\<rparr>)"
  by (simp add: DecodeHeapSlotEntry_def Let_def)

interpretation slot_entry: strict_codec 8 "\<lambda>e. IsValidHeapSlotState (se_state e)"
    HeapSlotEntry_image EncodeHeapSlotEntry "\<lambda>s. AsOptional (DecodeHeapSlotEntry s)"
proof unfold_locales
  show "AsOptional (DecodeHeapSlotEntry (HeapSlotEntry_image e)) = Some e"
    if "IsValidHeapSlotState (se_state e)" for e
    using that
    by (simp add: DecodeHeapSlotEntry_eq HeapSlotEntry_image_def subspan_append_right Let_def)
  show "IsValidHeapSlotState (se_state e) \<and> HeapSlotEntry_image e = take 8 s"
    if "AsOptional (DecodeHeapSlotEntry s) = Some e" for s e
    using that
    by (auto simp: AsOptional_Some_iff DecodeHeapSlotEntry_eq HeapSlotEntry_image_def
        subspan_0_take take_parts Let_def simp flip: append_assoc split: if_splits)
qed (auto simp: EncodeHeapSlotEntry_eq DecodeHeapSlotEntry_eq Let_def)

end
