(* ===== verification/Tuple_Header.thy ===== *)
theory Tuple_Header
  imports Page
begin

text \<open>
  The 48-byte tuple-version header of \<open>src/src/storage/tuple/tuple_header.h\<close> and
  \<open>tuple_header.cpp\<close>: transaction stamps, the pointer to the previous version and the
  schema version.
\<close>

type_synonym TupleFlags = "16 word"

definition TUPLE_FLAG_HAS_NULLS :: TupleFlags where [layout]: "TUPLE_FLAG_HAS_NULLS = 1"
definition TUPLE_FLAG_HAS_VARLEN :: TupleFlags where [layout]: "TUPLE_FLAG_HAS_VARLEN = 2"
definition TUPLE_FLAGS_KNOWN_MASK :: TupleFlags where [layout]:
  "TUPLE_FLAGS_KNOWN_MASK = TUPLE_FLAG_HAS_NULLS OR TUPLE_FLAG_HAS_VARLEN"

definition TUPLE_HEADER_XMIN_OFFSET :: nat where [layout, simp]: "TUPLE_HEADER_XMIN_OFFSET = 0"
definition TUPLE_HEADER_XMAX_OFFSET :: nat where [layout, simp]: "TUPLE_HEADER_XMAX_OFFSET = 8"
definition TUPLE_HEADER_CMIN_OFFSET :: nat where [layout, simp]: "TUPLE_HEADER_CMIN_OFFSET = 16"
definition TUPLE_HEADER_CMAX_OFFSET :: nat where [layout, simp]: "TUPLE_HEADER_CMAX_OFFSET = 20"
definition TUPLE_HEADER_PREV_PAGE_NO_OFFSET :: nat where [layout, simp]:
  "TUPLE_HEADER_PREV_PAGE_NO_OFFSET = 24"
definition TUPLE_HEADER_PREV_SLOT_OFFSET :: nat where [layout, simp]:
  "TUPLE_HEADER_PREV_SLOT_OFFSET = 32"
definition TUPLE_HEADER_FLAGS_OFFSET :: nat where [layout, simp]: "TUPLE_HEADER_FLAGS_OFFSET = 34"
definition TUPLE_HEADER_HEADER_BYTES_OFFSET :: nat where [layout, simp]:
  "TUPLE_HEADER_HEADER_BYTES_OFFSET = 36"
definition TUPLE_HEADER_NULL_BITMAP_BYTES_OFFSET :: nat where [layout, simp]:
  "TUPLE_HEADER_NULL_BITMAP_BYTES_OFFSET = 38"
definition TUPLE_HEADER_SCHEMA_VERSION_OFFSET :: nat where [layout, simp]:
  "TUPLE_HEADER_SCHEMA_VERSION_OFFSET = 40"
definition TUPLE_HEADER_RESERVED_OFFSET :: nat where [layout, simp]:
  "TUPLE_HEADER_RESERVED_OFFSET = 44"
definition TUPLE_HEADER_ENCODED_SIZE :: nat where [layout, simp]: "TUPLE_HEADER_ENCODED_SIZE = 48"

record TupleHeader =
  th_xmin :: TxnId
  th_xmax :: TxnId
  th_cmin :: CommandId
  th_cmax :: CommandId
  th_prev_page_no :: PageNo
  th_prev_slot :: SlotId
  th_tuple_flags :: TupleFlags
  th_header_bytes :: "16 word"
  th_null_bitmap_bytes :: "16 word"
  th_schema_version :: SchemaVer
  th_reserved :: "32 word"

datatype TupleHeaderDecodeError =
    TH_NONE | TH_SOURCE_TOO_SMALL | TH_INVALID_PREVIOUS_VERSION_POINTER | TH_INVALID_FLAGS
  | TH_INVALID_HEADER_SIZE | TH_NONZERO_RESERVED

definition ValidateTupleHeader :: "TupleHeader \<Rightarrow> TupleHeaderDecodeError" where
  "ValidateTupleHeader header =
     (let page_is_invalid = (th_prev_page_no header = INVALID_PAGE_NO);
          slot_is_invalid = (th_prev_slot header = INVALID_SLOT_ID)
      in if page_is_invalid \<noteq> slot_is_invalid then TH_INVALID_PREVIOUS_VERSION_POINTER
         else if th_tuple_flags header AND NOT TUPLE_FLAGS_KNOWN_MASK \<noteq> 0 then TH_INVALID_FLAGS
         else if th_header_bytes header \<noteq> of_nat TUPLE_HEADER_ENCODED_SIZE
           then TH_INVALID_HEADER_SIZE
         else if th_reserved header \<noteq> 0 then TH_NONZERO_RESERVED
         else TH_NONE)"

definition EncodeTupleHeader :: "byte list \<Rightarrow> TupleHeader \<Rightarrow> byte list option" where
  "EncodeTupleHeader destination header =
     (if length destination < TUPLE_HEADER_ENCODED_SIZE \<or> ValidateTupleHeader header \<noteq> TH_NONE
      then None
      else do {
        e \<leftarrow> encode_field TUPLE_HEADER_XMIN_OFFSET (th_xmin header)
               (replicate TUPLE_HEADER_ENCODED_SIZE 0);
        e \<leftarrow> encode_field TUPLE_HEADER_XMAX_OFFSET (th_xmax header) e;
        e \<leftarrow> encode_field TUPLE_HEADER_CMIN_OFFSET (th_cmin header) e;
        e \<leftarrow> encode_field TUPLE_HEADER_CMAX_OFFSET (th_cmax header) e;
        e \<leftarrow> encode_field TUPLE_HEADER_PREV_PAGE_NO_OFFSET (th_prev_page_no header) e;
        e \<leftarrow> encode_field TUPLE_HEADER_PREV_SLOT_OFFSET (th_prev_slot header) e;
        e \<leftarrow> encode_field TUPLE_HEADER_FLAGS_OFFSET (th_tuple_flags header) e;
        e \<leftarrow> encode_field TUPLE_HEADER_HEADER_BYTES_OFFSET (th_header_bytes header) e;
        e \<leftarrow> encode_field TUPLE_HEADER_NULL_BITMAP_BYTES_OFFSET (th_null_bitmap_bytes header) e;
        e \<leftarrow> encode_field TUPLE_HEADER_SCHEMA_VERSION_OFFSET (th_schema_version header) e;
        e \<leftarrow> encode_field TUPLE_HEADER_RESERVED_OFFSET (0 :: 32 word) e;
        Some (put 0 e destination)
      })"

definition DecodeTupleHeader ::
    "byte list \<Rightarrow> (TupleHeader, TupleHeaderDecodeError) result" where
  "DecodeTupleHeader source =
     (if length source < TUPLE_HEADER_ENCODED_SIZE then Unexpected TH_SOURCE_TOO_SMALL
      else
        (case do {
           xmin \<leftarrow> decode_field TUPLE_HEADER_XMIN_OFFSET source;
           xmax \<leftarrow> decode_field TUPLE_HEADER_XMAX_OFFSET source;
           cmin \<leftarrow> decode_field TUPLE_HEADER_CMIN_OFFSET source;
           cmax \<leftarrow> decode_field TUPLE_HEADER_CMAX_OFFSET source;
           prev_page_no \<leftarrow> decode_field TUPLE_HEADER_PREV_PAGE_NO_OFFSET source;
           prev_slot \<leftarrow> decode_field TUPLE_HEADER_PREV_SLOT_OFFSET source;
           tuple_flags \<leftarrow> decode_field TUPLE_HEADER_FLAGS_OFFSET source;
           header_bytes \<leftarrow> decode_field TUPLE_HEADER_HEADER_BYTES_OFFSET source;
           null_bitmap_bytes \<leftarrow> decode_field TUPLE_HEADER_NULL_BITMAP_BYTES_OFFSET source;
           schema_version \<leftarrow> decode_field TUPLE_HEADER_SCHEMA_VERSION_OFFSET source;
           reserved \<leftarrow> decode_field TUPLE_HEADER_RESERVED_OFFSET source;
           Some \<lparr>th_xmin = xmin, th_xmax = xmax, th_cmin = cmin, th_cmax = cmax,
             th_prev_page_no = prev_page_no, th_prev_slot = prev_slot,
             th_tuple_flags = tuple_flags, th_header_bytes = header_bytes,
             th_null_bitmap_bytes = null_bitmap_bytes, th_schema_version = schema_version,
             th_reserved = reserved\<rparr>
         } of
           None \<Rightarrow> Unexpected TH_SOURCE_TOO_SMALL
         | Some header \<Rightarrow>
             (let validation_error = ValidateTupleHeader header
              in if validation_error \<noteq> TH_NONE then Unexpected validation_error else Ok header)))"

definition TupleHeader_image :: "TupleHeader \<Rightarrow> byte list" where
  "TupleHeader_image h =
     le_bytes (th_xmin h) @ le_bytes (th_xmax h) @ le_bytes (th_cmin h) @ le_bytes (th_cmax h) @
     le_bytes (th_prev_page_no h) @ le_bytes (th_prev_slot h) @ le_bytes (th_tuple_flags h) @
     le_bytes (th_header_bytes h) @ le_bytes (th_null_bitmap_bytes h) @
     le_bytes (th_schema_version h) @ le_bytes (0 :: 32 word)"

lemma length_TupleHeader_image [simp]: "length (TupleHeader_image h) = 48"
  by (simp add: TupleHeader_image_def)

lemma EncodeTupleHeader_eq:
  "EncodeTupleHeader d h =
     (if 48 \<le> length d \<and> ValidateTupleHeader h = TH_NONE
      then Some (put 0 (TupleHeader_image h) d) else None)"
  by (auto simp: EncodeTupleHeader_def TupleHeader_image_def put_put_adjacent)

text \<open>The fields a 48-byte header holds, whether or not they are acceptable.\<close>

definition TupleHeader_fields :: "byte list \<Rightarrow> TupleHeader" where
  "TupleHeader_fields s =
     \<lparr>th_xmin = le_word (subspan 0 8 s), th_xmax = le_word (subspan 8 8 s),
      th_cmin = le_word (subspan 16 4 s), th_cmax = le_word (subspan 20 4 s),
      th_prev_page_no = le_word (subspan 24 8 s), th_prev_slot = le_word (subspan 32 2 s),
      th_tuple_flags = le_word (subspan 34 2 s), th_header_bytes = le_word (subspan 36 2 s),
      th_null_bitmap_bytes = le_word (subspan 38 2 s),
      th_schema_version = le_word (subspan 40 4 s), th_reserved = le_word (subspan 44 4 s)\<rparr>"

lemma DecodeTupleHeader_eq:
  "DecodeTupleHeader s =
     (if length s < 48 then Unexpected TH_SOURCE_TOO_SMALL
      else if ValidateTupleHeader (TupleHeader_fields s) \<noteq> TH_NONE
      then Unexpected (ValidateTupleHeader (TupleHeader_fields s))
      else Ok (TupleHeader_fields s))"
  by (simp add: DecodeTupleHeader_def TupleHeader_fields_def Let_def)

lemma ValidateTupleHeader_reserved: "ValidateTupleHeader h = TH_NONE \<Longrightarrow> th_reserved h = 0"
  by (auto simp: ValidateTupleHeader_def Let_def split: if_splits)

lemma TupleHeader_fields_image:
  "th_reserved h = 0 \<Longrightarrow> TupleHeader_fields (TupleHeader_image h @ s) = h"
  by (simp add: TupleHeader_fields_def TupleHeader_image_def subspan_append_right)

lemma TupleHeader_image_fields:
  "48 \<le> length s \<Longrightarrow> th_reserved (TupleHeader_fields s) = 0 \<Longrightarrow>
   TupleHeader_image (TupleHeader_fields s) = take 48 s"
  using take_parts[of 44 4 s]
  by (simp add: TupleHeader_fields_def TupleHeader_image_def subspan_0_take take_parts le_word_eq_iff
      flip: append_assoc)

interpretation tuple_header: strict_codec 48 "\<lambda>h. ValidateTupleHeader h = TH_NONE"
    TupleHeader_image EncodeTupleHeader "\<lambda>s. AsOptional (DecodeTupleHeader s)"
proof unfold_locales
  show "AsOptional (DecodeTupleHeader (TupleHeader_image h)) = Some h"
    if "ValidateTupleHeader h = TH_NONE" for h
    using that TupleHeader_fields_image[of h "[]"]
    by (simp add: DecodeTupleHeader_eq ValidateTupleHeader_reserved)
  show "ValidateTupleHeader h = TH_NONE \<and> TupleHeader_image h = take 48 s"
    if "AsOptional (DecodeTupleHeader s) = Some h" for s h
    using that
    by (auto simp: AsOptional_Some_iff DecodeTupleHeader_eq TupleHeader_image_fields
        ValidateTupleHeader_reserved split: if_splits)
  show "AsOptional (DecodeTupleHeader s) = AsOptional (DecodeTupleHeader (take 48 s))"
    if "48 \<le> length s" for s
    using that by (simp add: DecodeTupleHeader_eq TupleHeader_fields_def)
qed (auto simp: EncodeTupleHeader_eq DecodeTupleHeader_eq)

end
