(* ===== verification/Null_Bitmap.thy ===== *)
theory Null_Bitmap
  imports Prelude
begin

text \<open>
  The null bitmap of a tuple: \<open>NullBitmapBytes\<close>, \<open>IsNull\<close>, \<open>SetNull\<close> and
  \<open>ClearNull\<close> of \<open>src/src/storage/tuple/tuple_layout.cpp\<close>. Every access checks the
  column count, the index and the bitmap's size first. The locale \<open>flag_array\<close> is the
  contract the tuple codec relies on.
\<close>

section \<open>The null bitmap\<close>

definition NullBitmapBytes :: "nat \<Rightarrow> (16 word) option" where
  "NullBitmapBytes column_count =
     (let bytes = column_count div 8 + (if column_count mod 8 \<noteq> 0 then 1 else 0)
      in if bytes > 65535 then None else Some (of_nat bytes))"

datatype NullBitmapError = COLUMN_COUNT_TOO_LARGE | BITMAP_COLUMN_OUT_OF_RANGE | BITMAP_TOO_SMALL

definition ValidateBitmapAccess :: "nat \<Rightarrow> nat \<Rightarrow> nat \<Rightarrow> NullBitmapError status" where
  "ValidateBitmapAccess bitmap_size column_count column_index =
     (case NullBitmapBytes column_count of
        None \<Rightarrow> Unexpected COLUMN_COUNT_TOO_LARGE
      | Some required_bytes \<Rightarrow>
          if column_index \<ge> column_count then Unexpected BITMAP_COLUMN_OUT_OF_RANGE
          else if bitmap_size < unat required_bytes then Unexpected BITMAP_TOO_SMALL
          else Ok ())"

definition NullBitMask :: "nat \<Rightarrow> byte" where
  "NullBitMask column_index = push_bit (column_index mod 8) 1"

definition IsNull :: "byte list \<Rightarrow> nat \<Rightarrow> nat \<Rightarrow> (bool, NullBitmapError) result" where
  "IsNull bitmap column_count column_index =
     (case ValidateBitmapAccess (length bitmap) column_count column_index of
        Inl e \<Rightarrow> Unexpected e
      | Inr _ \<Rightarrow> Ok ((bitmap ! (column_index div 8)) AND NullBitMask column_index \<noteq> 0))"

definition SetNull ::
    "byte list \<Rightarrow> nat \<Rightarrow> nat \<Rightarrow> (byte list, NullBitmapError) result" where
  "SetNull bitmap column_count column_index =
     (case ValidateBitmapAccess (length bitmap) column_count column_index of
        Inl e \<Rightarrow> Unexpected e
      | Inr _ \<Rightarrow>
          (let byte_index = column_index div 8; byte_value = bitmap ! byte_index
           in Ok (bitmap[byte_index := byte_value OR NullBitMask column_index])))"

definition ClearNull ::
    "byte list \<Rightarrow> nat \<Rightarrow> nat \<Rightarrow> (byte list, NullBitmapError) result" where
  "ClearNull bitmap column_count column_index =
     (case ValidateBitmapAccess (length bitmap) column_count column_index of
        Inl e \<Rightarrow> Unexpected e
      | Inr _ \<Rightarrow>
          (let byte_index = column_index div 8; byte_value = bitmap ! byte_index
           in Ok (bitmap[byte_index := byte_value AND NOT (NullBitMask column_index)])))"

definition bitmap_bytes :: "nat \<Rightarrow> nat" where
  "bitmap_bytes n = (n + 7) div 8"

lemma bitmap_bytes_eq: "n div 8 + (if n mod 8 \<noteq> 0 then 1 else 0) = bitmap_bytes n"
proof -
  have "n + 7 = (n mod 8 + 7) + n div 8 * 8"
    using div_mult_mod_eq[of n 8] by linarith
  then have "(n + 7) div 8 = ((n mod 8 + 7) + n div 8 * 8) div 8" by (rule arg_cong)
  also have "\<dots> = n div 8 + (n mod 8 + 7) div 8" by (rule div_mult_self1) simp
  also have "(n mod 8 + 7) div 8 = (if n mod 8 \<noteq> 0 then 1 else 0)"
    using mod_less_divisor[of 8 n] by (auto intro!: div_nat_eqI)
  finally show ?thesis by (simp add: bitmap_bytes_def add.commute)
qed

lemma NullBitmapBytes_eq:
  "NullBitmapBytes n = (if bitmap_bytes n > 65535 then None else Some (of_nat (bitmap_bytes n)))"
  by (simp only: NullBitmapBytes_def bitmap_bytes_eq Let_def)

lemma bitmap_index: "i < n \<Longrightarrow> i div 8 < bitmap_bytes n"
  using div_le_mono[of "i + 8" "n + 7" 8] by (simp add: bitmap_bytes_def)

lemma ValidateBitmapAccess_Ok_iff:
  "ValidateBitmapAccess m n i = Ok u \<longleftrightarrow> bitmap_bytes n \<le> 65535 \<and> i < n \<and> bitmap_bytes n \<le> m"
  by (auto simp: ValidateBitmapAccess_def NullBitmapBytes_eq split: option.splits if_splits)

lemma bit_NullBitMask: "bit (NullBitMask i) j \<longleftrightarrow> j = i mod 8"
proof -
  have "i mod 8 < 8" by simp
  then show ?thesis
    by (simp only: NullBitMask_def bit_push_bit_iff bit_1_iff) auto
qed

lemma and_NullBitMask: "(b AND NullBitMask i \<noteq> 0) = bit b (i mod 8)"
proof
  assume "bit b (i mod 8)"
  then have "bit (b AND NullBitMask i) (i mod 8)"
    by (simp add: bit_and_iff bit_NullBitMask)
  then show "b AND NullBitMask i \<noteq> 0" by auto
next
  assume "b AND NullBitMask i \<noteq> 0"
  then obtain j where "bit (b AND NullBitMask i) j"
    by (auto simp: bit_eq_iff)
  then show "bit b (i mod 8)" by (auto simp: bit_and_iff bit_NullBitMask)
qed

text \<open>What a bitmap of \<open>n\<close> columns says of column \<open>i\<close>.\<close>

definition null_bit :: "byte list \<Rightarrow> nat \<Rightarrow> bool" where
  "null_bit bitmap i = bit (bitmap ! (i div 8)) (i mod 8)"

text \<open>
  The contract between the bitmap and the tuple codec: an array of \<open>n\<close> flags. Access
  outside it is refused, setting or clearing one flag leaves the others and the length.
\<close>

locale flag_array =
  fixes ok :: "'b \<Rightarrow> bool"
    and flags :: nat
    and get :: "'b \<Rightarrow> nat \<Rightarrow> bool option"
    and mark :: "'b \<Rightarrow> nat \<Rightarrow> 'b option"
    and unmark :: "'b \<Rightarrow> nat \<Rightarrow> 'b option"
  assumes get_Some: "ok b \<Longrightarrow> i < flags \<Longrightarrow> \<exists>v. get b i = Some v"
    and get_None: "ok b \<Longrightarrow> flags \<le> i \<Longrightarrow> get b i = None"
    and mark_Some: "ok b \<Longrightarrow> i < flags \<Longrightarrow>
      \<exists>b'. mark b i = Some b' \<and> ok b' \<and> (\<forall>j. get b' j = (if j = i then Some True else get b j))"
    and unmark_Some: "ok b \<Longrightarrow> i < flags \<Longrightarrow>
      \<exists>b'. unmark b i = Some b' \<and> ok b' \<and> (\<forall>j. get b' j = (if j = i then Some False else get b j))"
begin

primrec mark_all :: "'b \<Rightarrow> nat list \<Rightarrow> 'b option" where
  "mark_all b [] = Some b"
| "mark_all b (i # is) = Option.bind (mark b i) (\<lambda>b'. mark_all b' is)"

lemma mark_all_get:
  "ok b \<Longrightarrow> set is \<subseteq> {..<flags} \<Longrightarrow>
   \<exists>b'. mark_all b is = Some b' \<and> ok b' \<and>
     (\<forall>j. get b' j = (if j \<in> set is then Some True else get b j))"
proof (induction "is" arbitrary: b)
  case Nil
  then show ?case by simp
next
  case (Cons i "is")
  from Cons.prems obtain b1 where b1: "mark b i = Some b1" "ok b1"
    "\<And>j. get b1 j = (if j = i then Some True else get b j)"
    using mark_Some[of b i] by auto
  with Cons.prems Cons.IH[of b1] show ?case by auto
qed

lemma unmark_mark:
  assumes "ok b" and "i < flags" and "get b i = Some False"
  shows "\<exists>b1 b2. mark b i = Some b1 \<and> unmark b1 i = Some b2 \<and> (\<forall>j. get b2 j = get b j)"
proof -
  obtain b1 where b1: "mark b i = Some b1" "ok b1"
    "\<And>j. get b1 j = (if j = i then Some True else get b j)"
    using mark_Some[OF assms(1,2)] by blast
  obtain b2 where "unmark b1 i = Some b2"
    "\<And>j. get b2 j = (if j = i then Some False else get b1 j)"
    using unmark_Some[OF b1(2) assms(2)] by blast
  with b1 assms(3) show ?thesis by auto
qed

end

lemma IsNull_eq:
  "bitmap_bytes n \<le> 65535 \<Longrightarrow> bitmap_bytes n \<le> length b \<Longrightarrow> i < n \<Longrightarrow>
   IsNull b n i = Ok (null_bit b i)"
  using ValidateBitmapAccess_Ok_iff[of "length b" n i "()"]
  by (auto simp: IsNull_def and_NullBitMask null_bit_def split: sum.splits)

lemma IsNull_out: "n \<le> i \<Longrightarrow> \<exists>e. IsNull b n i = Unexpected e"
  using ValidateBitmapAccess_Ok_iff[of "length b" n i "()"]
  by (auto simp: IsNull_def split: sum.splits)

lemma SetNull_eq:
  "bitmap_bytes n \<le> 65535 \<Longrightarrow> bitmap_bytes n \<le> length b \<Longrightarrow> i < n \<Longrightarrow>
   SetNull b n i = Ok (b[i div 8 := (b ! (i div 8)) OR NullBitMask i])"
  using ValidateBitmapAccess_Ok_iff[of "length b" n i "()"]
  by (auto simp: SetNull_def Let_def split: sum.splits)

lemma ClearNull_eq:
  "bitmap_bytes n \<le> 65535 \<Longrightarrow> bitmap_bytes n \<le> length b \<Longrightarrow> i < n \<Longrightarrow>
   ClearNull b n i = Ok (b[i div 8 := (b ! (i div 8)) AND NOT (NullBitMask i)])"
  using ValidateBitmapAccess_Ok_iff[of "length b" n i "()"]
  by (auto simp: ClearNull_def Let_def split: sum.splits)

lemma div_mod_8_eq: "i div 8 = j div 8 \<Longrightarrow> i mod 8 = j mod 8 \<longleftrightarrow> i = j" for i j :: nat
  by (metis div_mult_mod_eq)

lemma null_bit_set:
  "i div 8 < length b \<Longrightarrow>
   null_bit (b[i div 8 := (b ! (i div 8)) OR NullBitMask i]) j = (j = i \<or> null_bit b j)"
  by (auto simp: null_bit_def nth_list_update bit_or_iff bit_NullBitMask div_mod_8_eq)

lemma null_bit_clear:
  "i div 8 < length b \<Longrightarrow>
   null_bit (b[i div 8 := (b ! (i div 8)) AND NOT (NullBitMask i)]) j = (j \<noteq> i \<and> null_bit b j)"
  by (auto simp: null_bit_def nth_list_update bit_and_iff bit_not_iff bit_NullBitMask div_mod_8_eq)

interpretation null_bitmap: flag_array
    "\<lambda>b. bitmap_bytes n \<le> 65535 \<and> bitmap_bytes n \<le> length b" n
    "\<lambda>b i. AsOptional (IsNull b n i)" "\<lambda>b i. AsOptional (SetNull b n i)"
    "\<lambda>b i. AsOptional (ClearNull b n i)"
proof unfold_locales
  fix b :: "byte list" and i assume ok: "bitmap_bytes n \<le> 65535 \<and> bitmap_bytes n \<le> length b"
  show "\<exists>v. AsOptional (IsNull b n i) = Some v" if "i < n"
    using that ok by (simp add: IsNull_eq)
  show "AsOptional (IsNull b n i) = None" if "n \<le> i"
    using IsNull_out[OF that, of b] by auto
  have other: "AsOptional (IsNull b' n j) = (if j = i then Some v else AsOptional (IsNull b n j))"
    if "length b' = length b" "\<And>j. null_bit b' j = (if j = i then v else null_bit b j)" "i < n"
    for b' :: "byte list" and j v
    using that ok IsNull_out[of n j b] IsNull_out[of n j b'] by (cases "j < n") (auto simp: IsNull_eq)
  show "\<exists>b'. AsOptional (SetNull b n i) = Some b' \<and>
      (bitmap_bytes n \<le> 65535 \<and> bitmap_bytes n \<le> length b') \<and>
      (\<forall>j. AsOptional (IsNull b' n j) = (if j = i then Some True else AsOptional (IsNull b n j)))"
    if "i < n"
  proof -
    have "i div 8 < length b" using that ok bitmap_index[OF that] by linarith
    then show ?thesis using that ok
      by (simp only: SetNull_eq AsOptional_simps option.inject ex_simps simp_thms)
        (intro exI conjI allI other, auto simp: null_bit_set)
  qed
  show "\<exists>b'. AsOptional (ClearNull b n i) = Some b' \<and>
      (bitmap_bytes n \<le> 65535 \<and> bitmap_bytes n \<le> length b') \<and>
      (\<forall>j. AsOptional (IsNull b' n j) = (if j = i then Some False else AsOptional (IsNull b n j)))"
    if "i < n"
  proof -
    have "i div 8 < length b" using that ok bitmap_index[OF that] by linarith
    then show ?thesis using that ok
      by (simp only: ClearNull_eq AsOptional_simps option.inject ex_simps simp_thms)
        (intro exI conjI allI other, auto simp: null_bit_clear)
  qed
qed

end
