(* ===== verification/Tuple_Layout.thy ===== *)
theory Tuple_Layout
  imports Heap_Format Tuple_Header Null_Bitmap
begin

text \<open>
  Tuple layout planning: \<open>src/src/storage/tuple/tuple_layout.h\<close> and
  \<open>tuple_layout.cpp\<close>. \<open>std::size_t\<close> is a natural number whose additions go
  through \<open>CheckedAdd\<close> against the 64-bit maximum, as in the code.
\<close>

definition SIZE_MAX :: nat where "SIZE_MAX = 18446744073709551615"

definition BOOLEAN_PHYSICAL_SIZE :: nat where [layout, simp]: "BOOLEAN_PHYSICAL_SIZE = 1"
definition INT32_PHYSICAL_SIZE :: nat where [layout, simp]: "INT32_PHYSICAL_SIZE = 4"
definition INT64_PHYSICAL_SIZE :: nat where [layout, simp]: "INT64_PHYSICAL_SIZE = 8"
definition FLOAT64_PHYSICAL_SIZE :: nat where [layout, simp]: "FLOAT64_PHYSICAL_SIZE = 8"
definition DATE_PHYSICAL_SIZE :: nat where [layout, simp]: "DATE_PHYSICAL_SIZE = 4"
definition TIMESTAMP_PHYSICAL_SIZE :: nat where [layout, simp]: "TIMESTAMP_PHYSICAL_SIZE = 8"
definition VARCHAR_DESCRIPTOR_OFFSET_OFFSET :: nat where [layout, simp]:
  "VARCHAR_DESCRIPTOR_OFFSET_OFFSET = 0"
definition VARCHAR_DESCRIPTOR_LENGTH_OFFSET :: nat where [layout, simp]:
  "VARCHAR_DESCRIPTOR_LENGTH_OFFSET = 4"
definition VARCHAR_DESCRIPTOR_ENCODED_SIZE :: nat where [layout, simp]:
  "VARCHAR_DESCRIPTOR_ENCODED_SIZE = 8"

datatype PhysicalType =
    BOOLEAN | INT32 | INT64 | FLOAT64 | DATE | TIMESTAMP | VARCHAR
  | UNNAMED_PHYSICAL_TYPE "8 word"

fun PhysicalTypeWidth :: "PhysicalType \<Rightarrow> nat option" where
  "PhysicalTypeWidth BOOLEAN = Some BOOLEAN_PHYSICAL_SIZE"
| "PhysicalTypeWidth INT32 = Some INT32_PHYSICAL_SIZE"
| "PhysicalTypeWidth INT64 = Some INT64_PHYSICAL_SIZE"
| "PhysicalTypeWidth FLOAT64 = Some FLOAT64_PHYSICAL_SIZE"
| "PhysicalTypeWidth DATE = Some DATE_PHYSICAL_SIZE"
| "PhysicalTypeWidth TIMESTAMP = Some TIMESTAMP_PHYSICAL_SIZE"
| "PhysicalTypeWidth VARCHAR = Some VARCHAR_DESCRIPTOR_ENCODED_SIZE"
| "PhysicalTypeWidth (UNNAMED_PHYSICAL_TYPE _) = None"

definition CheckedAdd :: "nat \<Rightarrow> nat \<Rightarrow> nat option" where
  "CheckedAdd left right = (if right > SIZE_MAX - left then None else Some (left + right))"

lemma CheckedAdd_Some_iff:
  "left \<le> SIZE_MAX \<Longrightarrow> CheckedAdd left right = Some s \<longleftrightarrow> s = left + right \<and> s \<le> SIZE_MAX"
  by (auto simp: CheckedAdd_def)

section \<open>Layouts\<close>

record PhysicalColumnSpec =
  cs_type :: PhysicalType
  cs_nullable :: bool

record PhysicalColumnLayout =
  cl_type :: PhysicalType
  cl_nullable :: bool
  cl_fixed_offset :: nat
  cl_fixed_width :: nat
  cl_null_bit_index :: nat

record TuplePhysicalLayout =
  tl_schema_version :: SchemaVer
  tl_columns :: "PhysicalColumnLayout list"
  tl_null_bitmap_bytes :: "16 word"
  tl_fixed_area_offset :: nat
  tl_fixed_area_size :: nat
  tl_varlen_payload_offset :: nat
  tl_varlen_column_count :: nat
  tl_has_nullable_columns :: bool

definition default_TuplePhysicalLayout :: TuplePhysicalLayout where
  "default_TuplePhysicalLayout =
     \<lparr>tl_schema_version = 0, tl_columns = [], tl_null_bitmap_bytes = 0,
      tl_fixed_area_offset = TUPLE_HEADER_ENCODED_SIZE, tl_fixed_area_size = 0,
      tl_varlen_payload_offset = TUPLE_HEADER_ENCODED_SIZE, tl_varlen_column_count = 0,
      tl_has_nullable_columns = False\<rparr>"

datatype TuplePhysicalLayoutBuildError =
  INVALID_PHYSICAL_TYPE | NULL_BITMAP_TOO_LARGE | LAYOUT_SIZE_OVERFLOW | LAYOUT_TUPLE_TOO_LARGE

record TuplePhysicalLayoutBuildFailure =
  lb_code :: TuplePhysicalLayoutBuildError
  lb_column_index :: nat

text \<open>Accessors.\<close>

definition ColumnCount :: "TuplePhysicalLayout \<Rightarrow> nat" where
  "ColumnCount layout = length (tl_columns layout)"

definition Column :: "TuplePhysicalLayout \<Rightarrow> nat \<Rightarrow> PhysicalColumnLayout option" where
  "Column layout column_index =
     (if column_index \<ge> length (tl_columns layout) then None
      else Some (tl_columns layout ! column_index))"

definition NullBitmapSize :: "TuplePhysicalLayout \<Rightarrow> nat" where
  "NullBitmapSize layout = unat (tl_null_bitmap_bytes layout)"

definition MinimumTupleSize :: "TuplePhysicalLayout \<Rightarrow> nat" where
  "MinimumTupleSize layout = tl_varlen_payload_offset layout"

definition HasVarlenColumns :: "TuplePhysicalLayout \<Rightarrow> bool" where
  "HasVarlenColumns layout = (tl_varlen_column_count layout \<noteq> 0)"

section \<open>Building a layout\<close>

text \<open>The loop over the columns; \<open>index\<close> counts up while the specs are consumed.\<close>

fun build_columns ::
    "nat \<Rightarrow> PhysicalColumnSpec list \<Rightarrow> TuplePhysicalLayout \<Rightarrow>
     (TuplePhysicalLayout, TuplePhysicalLayoutBuildFailure) result" where
  "build_columns index [] layout = Ok layout"
| "build_columns index (c # columns) layout =
     (case PhysicalTypeWidth (cs_type c) of
        None \<Rightarrow> Unexpected \<lparr>lb_code = INVALID_PHYSICAL_TYPE, lb_column_index = index\<rparr>
      | Some width \<Rightarrow>
          (case (CheckedAdd (tl_fixed_area_offset layout) (tl_fixed_area_size layout),
                 CheckedAdd (tl_fixed_area_size layout) width) of
             (Some fixed_offset, Some fixed_area_size) \<Rightarrow>
               build_columns (index + 1) columns
                 (layout\<lparr>tl_fixed_area_size := fixed_area_size,
                    tl_columns := tl_columns layout @
                      [\<lparr>cl_type = cs_type c, cl_nullable = cs_nullable c,
                        cl_fixed_offset = fixed_offset, cl_fixed_width = width,
                        cl_null_bit_index = index\<rparr>],
                    tl_has_nullable_columns := tl_has_nullable_columns layout \<or> cs_nullable c,
                    tl_varlen_column_count := tl_varlen_column_count layout +
                      (if cs_type c = VARCHAR then 1 else 0)\<rparr>)
           | _ \<Rightarrow> Unexpected \<lparr>lb_code = LAYOUT_SIZE_OVERFLOW, lb_column_index = index\<rparr>))"

definition BuildTuplePhysicalLayout ::
    "PhysicalColumnSpec list \<Rightarrow> SchemaVer \<Rightarrow>
     (TuplePhysicalLayout, TuplePhysicalLayoutBuildFailure) result" where
  "BuildTuplePhysicalLayout columns schema_version =
     (case NullBitmapBytes (length columns) of
        None \<Rightarrow> Unexpected \<lparr>lb_code = NULL_BITMAP_TOO_LARGE, lb_column_index = 0\<rparr>
      | Some bm_bytes \<Rightarrow>
          (case CheckedAdd TUPLE_HEADER_ENCODED_SIZE (unat bm_bytes) of
             None \<Rightarrow> Unexpected \<lparr>lb_code = LAYOUT_SIZE_OVERFLOW, lb_column_index = 0\<rparr>
           | Some fixed_area_offset \<Rightarrow>
               (case build_columns 0 columns
                       (default_TuplePhysicalLayout\<lparr>tl_schema_version := schema_version,
                          tl_null_bitmap_bytes := bm_bytes,
                          tl_fixed_area_offset := fixed_area_offset\<rparr>) of
                  Inl e \<Rightarrow> Unexpected e
                | Inr layout \<Rightarrow>
                    (case CheckedAdd (tl_fixed_area_offset layout) (tl_fixed_area_size layout) of
                       None \<Rightarrow> Unexpected \<lparr>lb_code = LAYOUT_SIZE_OVERFLOW, lb_column_index = 0\<rparr>
                     | Some varlen_payload_offset \<Rightarrow>
                         if varlen_payload_offset > HEAP_PAGE_MAX_RAW_TUPLE_SIZE
                         then Unexpected \<lparr>lb_code = LAYOUT_TUPLE_TOO_LARGE, lb_column_index = 0\<rparr>
                         else Ok (layout\<lparr>tl_varlen_payload_offset := varlen_payload_offset\<rparr>)))))"

section \<open>Planning a tuple's size\<close>

record VarlenValueSize =
  vs_length :: nat
  vs_is_null :: bool

record TupleSizePlan =
  sp_varlen_payload_size :: nat
  sp_total_size :: nat

datatype TupleSizePlanningError =
  VARLEN_VALUE_COUNT_MISMATCH | PLAN_VARCHAR_LENGTH_TOO_LARGE | PLAN_SIZE_OVERFLOW | PLAN_TUPLE_TOO_LARGE

record TupleSizePlanningFailure =
  pf_code :: TupleSizePlanningError
  pf_varlen_index :: nat

fun plan_payload ::
    "nat \<Rightarrow> VarlenValueSize list \<Rightarrow> nat \<Rightarrow> (nat, TupleSizePlanningFailure) result" where
  "plan_payload index [] payload_size = Ok payload_size"
| "plan_payload index (value # values) payload_size =
     (if vs_is_null value then plan_payload (index + 1) values payload_size
      else if vs_length value > 4294967295
        then Unexpected \<lparr>pf_code = PLAN_VARCHAR_LENGTH_TOO_LARGE, pf_varlen_index = index\<rparr>
      else
        (case CheckedAdd payload_size (vs_length value) of
           None \<Rightarrow> Unexpected \<lparr>pf_code = PLAN_SIZE_OVERFLOW, pf_varlen_index = index\<rparr>
         | Some payload_size' \<Rightarrow> plan_payload (index + 1) values payload_size'))"

definition PlanTupleSize ::
    "TuplePhysicalLayout \<Rightarrow> VarlenValueSize list \<Rightarrow>
     (TupleSizePlan, TupleSizePlanningFailure) result" where
  "PlanTupleSize layout varlen_values =
     (if length varlen_values \<noteq> tl_varlen_column_count layout
      then Unexpected \<lparr>pf_code = VARLEN_VALUE_COUNT_MISMATCH, pf_varlen_index = 0\<rparr>
      else
        (case plan_payload 0 varlen_values 0 of
           Inl e \<Rightarrow> Unexpected e
         | Inr payload_size \<Rightarrow>
             (case CheckedAdd (tl_varlen_payload_offset layout) payload_size of
                None \<Rightarrow> Unexpected \<lparr>pf_code = PLAN_SIZE_OVERFLOW, pf_varlen_index = 0\<rparr>
              | Some total_size \<Rightarrow>
                  if total_size > HEAP_PAGE_MAX_RAW_TUPLE_SIZE
                  then Unexpected \<lparr>pf_code = PLAN_TUPLE_TOO_LARGE, pf_varlen_index = 0\<rparr>
                  else Ok \<lparr>sp_varlen_payload_size = payload_size, sp_total_size = total_size\<rparr>)))"

section \<open>What a built layout looks like\<close>

text \<open>The width of a type, and the total of the columns before column \<open>i\<close>.\<close>

definition type_width :: "PhysicalType \<Rightarrow> nat" where
  "type_width t = (case PhysicalTypeWidth t of None \<Rightarrow> 0 | Some w \<Rightarrow> w)"

definition widths_before :: "PhysicalColumnLayout list \<Rightarrow> nat \<Rightarrow> nat" where
  "widths_before cols i = sum_list (map cl_fixed_width (take i cols))"

definition varlen_count :: "PhysicalColumnLayout list \<Rightarrow> nat" where
  "varlen_count cols = length (filter (\<lambda>c. cl_type c = VARCHAR) cols)"

text \<open>
  The type invariant of \<open>TuplePhysicalLayout\<close>: the columns tile the fixed area in order,
  without gap or overlap, between the null bitmap and the variable-length payload, and the
  whole fits a heap tuple.
\<close>

definition column_ok :: "TuplePhysicalLayout \<Rightarrow> nat \<Rightarrow> PhysicalColumnLayout \<Rightarrow> bool" where
  "column_ok L i c \<longleftrightarrow>
     PhysicalTypeWidth (cl_type c) = Some (cl_fixed_width c) \<and> cl_null_bit_index c = i \<and>
     cl_fixed_offset c = tl_fixed_area_offset L + widths_before (tl_columns L) i"

definition layout_wf :: "TuplePhysicalLayout \<Rightarrow> bool" where
  "layout_wf L \<longleftrightarrow>
     (\<forall>i < ColumnCount L. column_ok L i (tl_columns L ! i)) \<and>
     bitmap_bytes (ColumnCount L) \<le> 65535 \<and>
     NullBitmapSize L = bitmap_bytes (ColumnCount L) \<and>
     tl_fixed_area_offset L = 48 + bitmap_bytes (ColumnCount L) \<and>
     tl_fixed_area_size L = widths_before (tl_columns L) (ColumnCount L) \<and>
     tl_varlen_payload_offset L = tl_fixed_area_offset L + tl_fixed_area_size L \<and>
     tl_varlen_payload_offset L \<le> HEAP_PAGE_MAX_RAW_TUPLE_SIZE \<and>
     tl_varlen_column_count L = varlen_count (tl_columns L) \<and>
     tl_has_nullable_columns L = (\<exists>c \<in> set (tl_columns L). cl_nullable c)"

lemma widths_before_Suc:
  "i < length cols \<Longrightarrow> widths_before cols (Suc i) = widths_before cols i + cl_fixed_width (cols ! i)"
  by (simp add: widths_before_def take_Suc_conv_app_nth)

lemma widths_before_append [simp]:
  "i \<le> length cols \<Longrightarrow> widths_before (cols @ cs) i = widths_before cols i"
  by (simp add: widths_before_def)

lemma widths_before_mono: "i \<le> j \<Longrightarrow> widths_before cols i \<le> widths_before cols j"
proof (induction j)
  case (Suc j)
  then show ?case
    by (cases "i = Suc j"; cases "j < length cols")
      (auto simp: widths_before_Suc, auto simp: widths_before_def)
qed simp

lemma widths_before_0 [simp]: "widths_before cols 0 = 0"
  by (simp add: widths_before_def)

lemma build_columns_ok:
  assumes "build_columns (length (tl_columns L)) specs L = Ok L'"
    and "\<forall>i < ColumnCount L. column_ok L i (tl_columns L ! i)"
    and "tl_fixed_area_size L = widths_before (tl_columns L) (ColumnCount L)"
    and "tl_fixed_area_offset L \<le> SIZE_MAX" and "tl_fixed_area_size L \<le> SIZE_MAX"
    and "tl_varlen_column_count L = varlen_count (tl_columns L)"
    and "tl_has_nullable_columns L = (\<exists>c \<in> set (tl_columns L). cl_nullable c)"
  shows "(\<forall>i < ColumnCount L'. column_ok L' i (tl_columns L' ! i)) \<and>
     tl_fixed_area_size L' = widths_before (tl_columns L') (ColumnCount L') \<and>
     tl_fixed_area_size L' \<le> SIZE_MAX \<and>
     tl_varlen_column_count L' = varlen_count (tl_columns L') \<and>
     tl_has_nullable_columns L' = (\<exists>c \<in> set (tl_columns L'). cl_nullable c) \<and>
     tl_fixed_area_offset L' = tl_fixed_area_offset L \<and>
     tl_null_bitmap_bytes L' = tl_null_bitmap_bytes L \<and>
     tl_schema_version L' = tl_schema_version L \<and>
     map cl_type (tl_columns L') = map cl_type (tl_columns L) @ map cs_type specs \<and>
     map cl_nullable (tl_columns L') = map cl_nullable (tl_columns L) @ map cs_nullable specs"
  using assms
proof (induction specs arbitrary: L)
  case Nil
  then show ?case by simp
next
  case (Cons c specs)
  from Cons.prems(1) obtain w off sz where
    w: "PhysicalTypeWidth (cs_type c) = Some w"
    and off: "CheckedAdd (tl_fixed_area_offset L) (tl_fixed_area_size L) = Some off"
    and sz: "CheckedAdd (tl_fixed_area_size L) w = Some sz"
    by (auto split: option.splits)
  define L1 where "L1 = L\<lparr>tl_fixed_area_size := sz,
      tl_columns := tl_columns L @ [\<lparr>cl_type = cs_type c, cl_nullable = cs_nullable c,
        cl_fixed_offset = off, cl_fixed_width = w, cl_null_bit_index = length (tl_columns L)\<rparr>],
      tl_has_nullable_columns := tl_has_nullable_columns L \<or> cs_nullable c,
      tl_varlen_column_count := tl_varlen_column_count L + (if cs_type c = VARCHAR then 1 else 0)\<rparr>"
  have step: "build_columns (length (tl_columns L1)) specs L1 = Ok L'"
    using Cons.prems(1) w off sz by (simp add: L1_def)
  have cols: "\<forall>i < ColumnCount L1. column_ok L1 i (tl_columns L1 ! i)"
    using Cons.prems(2-5) w off sz
    by (auto simp: L1_def ColumnCount_def column_ok_def nth_append less_Suc_eq CheckedAdd_Some_iff)
  have "tl_fixed_area_size L1 = widths_before (tl_columns L1) (ColumnCount L1)"
    using Cons.prems(3,5) sz
    by (simp add: L1_def ColumnCount_def widths_before_Suc CheckedAdd_Some_iff)
  moreover have "tl_fixed_area_size L1 \<le> SIZE_MAX"
    using Cons.prems(5) sz by (simp add: L1_def CheckedAdd_Some_iff)
  moreover have "tl_varlen_column_count L1 = varlen_count (tl_columns L1)"
    using Cons.prems(6) by (simp add: L1_def varlen_count_def)
  moreover have "tl_has_nullable_columns L1 = (\<exists>c \<in> set (tl_columns L1). cl_nullable c)"
    using Cons.prems(7) by (auto simp: L1_def)
  ultimately show ?case
    using Cons.IH[OF step cols] Cons.prems(4) by (simp add: L1_def)
qed

lemma BuildTuplePhysicalLayout_layout:
  assumes "BuildTuplePhysicalLayout specs ver = Ok L"
  shows "layout_wf L" and "tl_schema_version L = ver"
    and "map cl_type (tl_columns L) = map cs_type specs"
    and "map cl_nullable (tl_columns L) = map cs_nullable specs"
proof -
  define n where "n = length specs"
  from assms have small: "bitmap_bytes n \<le> 65535"
    by (auto simp: BuildTuplePhysicalLayout_def NullBitmapBytes_eq n_def split: if_splits)
  define L0 where "L0 = default_TuplePhysicalLayout\<lparr>tl_schema_version := ver,
    tl_null_bitmap_bytes := of_nat (bitmap_bytes n), tl_fixed_area_offset := 48 + bitmap_bytes n\<rparr>"
  have add: "CheckedAdd 48 (bitmap_bytes n) = Some (48 + bitmap_bytes n)"
    using small by (simp add: CheckedAdd_def SIZE_MAX_def)
  obtain L1 where L1: "build_columns 0 specs L0 = Ok L1"
    and L: "L = L1\<lparr>tl_varlen_payload_offset := tl_fixed_area_offset L1 + tl_fixed_area_size L1\<rparr>"
    and max: "tl_fixed_area_offset L1 + tl_fixed_area_size L1 \<le> HEAP_PAGE_MAX_RAW_TUPLE_SIZE"
    using assms small add
    by (auto simp: BuildTuplePhysicalLayout_def NullBitmapBytes_eq L0_def CheckedAdd_def
        simp flip: n_def split: sum.splits if_splits)
  have L1_ok: "(\<forall>i < ColumnCount L1. column_ok L1 i (tl_columns L1 ! i)) \<and>
     tl_fixed_area_size L1 = widths_before (tl_columns L1) (ColumnCount L1) \<and>
     tl_fixed_area_size L1 \<le> SIZE_MAX \<and>
     tl_varlen_column_count L1 = varlen_count (tl_columns L1) \<and>
     tl_has_nullable_columns L1 = (\<exists>c \<in> set (tl_columns L1). cl_nullable c) \<and>
     tl_fixed_area_offset L1 = 48 + bitmap_bytes n \<and>
     tl_null_bitmap_bytes L1 = of_nat (bitmap_bytes n) \<and>
     tl_schema_version L1 = ver \<and>
     map cl_type (tl_columns L1) = map cs_type specs \<and>
     map cl_nullable (tl_columns L1) = map cs_nullable specs"
    using build_columns_ok[of L0 specs L1] L1 small
    by (simp add: L0_def default_TuplePhysicalLayout_def ColumnCount_def varlen_count_def SIZE_MAX_def)
  then have "length (tl_columns L1) = n"
    by (metis length_map n_def)
  with L1_ok L max small show "layout_wf L"
    by (simp add: layout_wf_def column_ok_def ColumnCount_def NullBitmapSize_def)
  from L1_ok L show "tl_schema_version L = ver" "map cl_type (tl_columns L) = map cs_type specs"
    "map cl_nullable (tl_columns L) = map cs_nullable specs" by simp_all
qed

text \<open>Consequences the codec uses.\<close>

lemma layout_wf_column:
  assumes "layout_wf L" and "i < ColumnCount L"
  shows "cl_fixed_offset (tl_columns L ! i) =
      48 + bitmap_bytes (ColumnCount L) + widths_before (tl_columns L) i"
    and "PhysicalTypeWidth (cl_type (tl_columns L ! i)) = Some (cl_fixed_width (tl_columns L ! i))"
    and "cl_fixed_offset (tl_columns L ! i) + cl_fixed_width (tl_columns L ! i)
      \<le> tl_varlen_payload_offset L"
    and "48 + bitmap_bytes (ColumnCount L) \<le> cl_fixed_offset (tl_columns L ! i)"
proof -
  have "widths_before (tl_columns L) (Suc i) \<le> widths_before (tl_columns L) (ColumnCount L)"
    by (rule widths_before_mono) (use assms(2) in simp)
  with assms show "cl_fixed_offset (tl_columns L ! i) + cl_fixed_width (tl_columns L ! i)
      \<le> tl_varlen_payload_offset L"
    by (auto simp: layout_wf_def column_ok_def ColumnCount_def widths_before_Suc)
qed (use assms in \<open>auto simp: layout_wf_def column_ok_def\<close>)

text \<open>Distinct columns own disjoint bytes.\<close>

lemma layout_wf_disjoint:
  assumes "layout_wf L" and "i < j" and "j < ColumnCount L"
  shows "cl_fixed_offset (tl_columns L ! i) + cl_fixed_width (tl_columns L ! i)
     \<le> cl_fixed_offset (tl_columns L ! j)"
proof -
  have "widths_before (tl_columns L) (Suc i) \<le> widths_before (tl_columns L) j"
    by (rule widths_before_mono) (use assms(2) in simp)
  with assms show ?thesis
    by (auto simp: layout_wf_def column_ok_def ColumnCount_def widths_before_Suc)
qed

section \<open>What a size plan promises\<close>

definition payload_total :: "VarlenValueSize list \<Rightarrow> nat" where
  "payload_total vs = sum_list (map (\<lambda>v. if vs_is_null v then 0 else vs_length v) vs)"

lemma plan_payload_Ok:
  "plan_payload i vs p = Ok t \<Longrightarrow> p \<le> SIZE_MAX \<Longrightarrow>
   t = p + payload_total vs \<and> t \<le> SIZE_MAX \<and>
   (\<forall>v \<in> set vs. vs_is_null v \<or> vs_length v \<le> 4294967295)"
  by (induction i vs p rule: plan_payload.induct)
    (auto simp: payload_total_def CheckedAdd_Some_iff split: if_splits option.splits)

lemma plan_payload_total:
  "p + payload_total vs \<le> 4294967295 \<Longrightarrow> plan_payload i vs p = Ok (p + payload_total vs)"
proof (induction i vs p rule: plan_payload.induct)
  case (2 index x xs p)
  then show ?case
    by (cases "vs_is_null x") (auto simp: payload_total_def CheckedAdd_def SIZE_MAX_def)
qed (simp add: payload_total_def)

lemma PlanTupleSize_Ok_iff:
  assumes "tl_varlen_payload_offset L \<le> HEAP_PAGE_MAX_RAW_TUPLE_SIZE"
  shows "PlanTupleSize L vs = Ok plan \<longleftrightarrow>
     length vs = tl_varlen_column_count L \<and>
     tl_varlen_payload_offset L + payload_total vs \<le> HEAP_PAGE_MAX_RAW_TUPLE_SIZE \<and>
     plan = \<lparr>sp_varlen_payload_size = payload_total vs,
             sp_total_size = tl_varlen_payload_offset L + payload_total vs\<rparr>"
    (is "?l \<longleftrightarrow> ?r")
proof
  assume ?l
  then obtain p where len: "length vs = tl_varlen_column_count L" and p: "plan_payload 0 vs 0 = Ok p"
    and rest: "CheckedAdd (tl_varlen_payload_offset L) p = Some (sp_total_size plan)"
      "sp_total_size plan \<le> HEAP_PAGE_MAX_RAW_TUPLE_SIZE"
      "plan = \<lparr>sp_varlen_payload_size = p, sp_total_size = sp_total_size plan\<rparr>"
    by (auto simp: PlanTupleSize_def split: if_splits sum.splits option.splits)
  from plan_payload_Ok[OF p] have "p = payload_total vs" by simp
  with len rest assms show ?r
    by (auto simp: CheckedAdd_def split: if_splits)
next
  assume r: ?r
  then have "plan_payload 0 vs 0 = Ok (payload_total vs)"
    using plan_payload_total[of 0 vs 0] by simp
  with r show ?l
    by (auto simp: PlanTupleSize_def CheckedAdd_def SIZE_MAX_def)
qed

end
