(* ===== verification/Scalar_Codec.thy ===== *)
theory Scalar_Codec
  imports Tuple_Layout
begin

text \<open>
  Values of a tuple and their fixed-width encodings: the scalar and VARCHAR-descriptor half of
  \<open>src/src/storage/tuple/tuple_codec.h\<close> and \<open>tuple_codec.cpp\<close>. A \<open>double\<close> is its
  bit pattern, as \<open>Float64PhysicalValue\<close> stores it; signed integers are bit patterns too.
  A \<open>VarcharValue\<close> is the bytes its span views.
\<close>

datatype TupleValue =
    NullValue
  | BooleanValue bool
  | Int32Value "32 word"
  | Int64Value "64 word"
  | Float64PhysicalValue "64 word"
  | DatePhysicalValue "32 word"
  | TimestampPhysicalValue "64 word"
  | VarcharValue "byte list"

fun IsNullValue :: "TupleValue \<Rightarrow> bool" where
  "IsNullValue NullValue = True"
| "IsNullValue _ = False"

fun ValueMatchesType :: "PhysicalType \<Rightarrow> TupleValue \<Rightarrow> bool" where
  "ValueMatchesType BOOLEAN (BooleanValue _) = True"
| "ValueMatchesType INT32 (Int32Value _) = True"
| "ValueMatchesType INT64 (Int64Value _) = True"
| "ValueMatchesType FLOAT64 (Float64PhysicalValue _) = True"
| "ValueMatchesType DATE (DatePhysicalValue _) = True"
| "ValueMatchesType TIMESTAMP (TimestampPhysicalValue _) = True"
| "ValueMatchesType VARCHAR (VarcharValue _) = True"
| "ValueMatchesType _ _ = False"

section \<open>VARCHAR descriptors\<close>

record VarcharDescriptor =
  vd_payload_offset :: "32 word"
  vd_payload_length :: "32 word"

definition default_VarcharDescriptor :: VarcharDescriptor where
  "default_VarcharDescriptor = \<lparr>vd_payload_offset = 0, vd_payload_length = 0\<rparr>"

datatype VarcharDescriptorCodecError = DESCRIPTOR_BUFFER_TOO_SMALL

definition EncodeVarcharDescriptor ::
    "byte list \<Rightarrow> VarcharDescriptor \<Rightarrow> (byte list, VarcharDescriptorCodecError) result" where
  "EncodeVarcharDescriptor destination descriptor =
     (if length destination < VARCHAR_DESCRIPTOR_ENCODED_SIZE
      then Unexpected DESCRIPTOR_BUFFER_TOO_SMALL
      else
        (case do {
           e \<leftarrow> encode_field VARCHAR_DESCRIPTOR_OFFSET_OFFSET (vd_payload_offset descriptor)
                  (replicate VARCHAR_DESCRIPTOR_ENCODED_SIZE 0);
           encode_field VARCHAR_DESCRIPTOR_LENGTH_OFFSET (vd_payload_length descriptor) e
         } of
           None \<Rightarrow> Unexpected DESCRIPTOR_BUFFER_TOO_SMALL
         | Some encoded \<Rightarrow> Ok (put 0 encoded destination)))"

definition DecodeVarcharDescriptor ::
    "byte list \<Rightarrow> (VarcharDescriptor, VarcharDescriptorCodecError) result" where
  "DecodeVarcharDescriptor source =
     (if length source < VARCHAR_DESCRIPTOR_ENCODED_SIZE
      then Unexpected DESCRIPTOR_BUFFER_TOO_SMALL
      else
        (case (decode_field VARCHAR_DESCRIPTOR_OFFSET_OFFSET source,
               decode_field VARCHAR_DESCRIPTOR_LENGTH_OFFSET source) of
           (Some payload_offset, Some payload_length) \<Rightarrow>
             Ok \<lparr>vd_payload_offset = payload_offset, vd_payload_length = payload_length\<rparr>
         | _ \<Rightarrow> Unexpected DESCRIPTOR_BUFFER_TOO_SMALL))"

definition VarcharDescriptor_image :: "VarcharDescriptor \<Rightarrow> byte list" where
  "VarcharDescriptor_image d = le_bytes (vd_payload_offset d) @ le_bytes (vd_payload_length d)"

lemma length_VarcharDescriptor_image [simp]: "length (VarcharDescriptor_image d) = 8"
  by (simp add: VarcharDescriptor_image_def)

lemma EncodeVarcharDescriptor_eq:
  "EncodeVarcharDescriptor b d =
     (if 8 \<le> length b then Ok (put 0 (VarcharDescriptor_image d) b)
      else Unexpected DESCRIPTOR_BUFFER_TOO_SMALL)"
  by (simp add: EncodeVarcharDescriptor_def VarcharDescriptor_image_def put_put_adjacent)

lemma DecodeVarcharDescriptor_eq:
  "DecodeVarcharDescriptor s =
     (if length s < 8 then Unexpected DESCRIPTOR_BUFFER_TOO_SMALL
      else Ok \<lparr>vd_payload_offset = le_word (subspan 0 4 s),
              vd_payload_length = le_word (subspan 4 4 s)\<rparr>)"
  by (simp add: DecodeVarcharDescriptor_def)

interpretation varchar_descriptor: strict_codec 8 "\<lambda>_. True" VarcharDescriptor_image
    "\<lambda>b d. AsOptional (EncodeVarcharDescriptor b d)" "\<lambda>s. AsOptional (DecodeVarcharDescriptor s)"
  by unfold_locales
    (auto simp: EncodeVarcharDescriptor_eq DecodeVarcharDescriptor_eq VarcharDescriptor_image_def
      subspan_append_right subspan_0_take take_parts AsOptional_Some_iff split: if_splits)

lemma DecodeVarcharDescriptor_image [simp]:
  "DecodeVarcharDescriptor (VarcharDescriptor_image d) = Ok d"
  using varchar_descriptor.decode_image[of d] by (simp add: AsOptional_Some_iff)

section \<open>Fixed-width scalars\<close>

datatype FixedScalarCodecError =
    DESTINATION_TOO_SMALL | SOURCE_TOO_SMALL | SCALAR_TYPE_MISMATCH | UNSUPPORTED_VARLEN_TYPE
  | SCALAR_INVALID_PHYSICAL_TYPE | SCALAR_INVALID_BOOLEAN

definition EncodedOrTooSmall :: "byte list option \<Rightarrow> (byte list, FixedScalarCodecError) result" where
  "EncodedOrTooSmall encoded =
     (case encoded of None \<Rightarrow> Unexpected DESTINATION_TOO_SMALL | Some bs \<Rightarrow> Ok bs)"

definition EncodeFixedScalar ::
    "byte list \<Rightarrow> PhysicalType \<Rightarrow> TupleValue \<Rightarrow> (byte list, FixedScalarCodecError) result" where
  "EncodeFixedScalar destination type v =
     (case PhysicalTypeWidth type of
        None \<Rightarrow> Unexpected SCALAR_INVALID_PHYSICAL_TYPE
      | Some width \<Rightarrow>
          if type = VARCHAR then Unexpected UNSUPPORTED_VARLEN_TYPE
          else if \<not> ValueMatchesType type v then Unexpected SCALAR_TYPE_MISMATCH
          else if length destination < width then Unexpected DESTINATION_TOO_SMALL
          else
            (case (type, v) of
               (BOOLEAN, BooleanValue b) \<Rightarrow> Ok (destination[0 := (if b then 1 else 0)])
             | (INT32, Int32Value w) \<Rightarrow> EncodedOrTooSmall (encode_field 0 w destination)
             | (INT64, Int64Value w) \<Rightarrow> EncodedOrTooSmall (encode_field 0 w destination)
             | (FLOAT64, Float64PhysicalValue w) \<Rightarrow> EncodedOrTooSmall (encode_field 0 w destination)
             | (DATE, DatePhysicalValue w) \<Rightarrow> EncodedOrTooSmall (encode_field 0 w destination)
             | (TIMESTAMP, TimestampPhysicalValue w) \<Rightarrow>
                 EncodedOrTooSmall (encode_field 0 w destination)
             | _ \<Rightarrow> Unexpected SCALAR_TYPE_MISMATCH))"

text \<open>The decoding of one integer type: \<open>nullopt\<close> becomes \<open>SOURCE_TOO_SMALL\<close>.\<close>

definition decoded_or_too_small ::
    "('w \<Rightarrow> TupleValue) \<Rightarrow> 'w option \<Rightarrow> (TupleValue, FixedScalarCodecError) result" where
  "decoded_or_too_small mk decoded =
     (case decoded of None \<Rightarrow> Unexpected SOURCE_TOO_SMALL | Some w \<Rightarrow> Ok (mk w))"

definition DecodeFixedScalar ::
    "PhysicalType \<Rightarrow> byte list \<Rightarrow> (TupleValue, FixedScalarCodecError) result" where
  "DecodeFixedScalar type source =
     (case PhysicalTypeWidth type of
        None \<Rightarrow> Unexpected SCALAR_INVALID_PHYSICAL_TYPE
      | Some width \<Rightarrow>
          if type = VARCHAR then Unexpected UNSUPPORTED_VARLEN_TYPE
          else if length source < width then Unexpected SOURCE_TOO_SMALL
          else
            (case type of
               BOOLEAN \<Rightarrow>
                 (if source ! 0 > 1 then Unexpected SCALAR_INVALID_BOOLEAN
                  else Ok (BooleanValue (source ! 0 = 1)))
             | INT32 \<Rightarrow> decoded_or_too_small Int32Value (decode_field 0 source)
             | INT64 \<Rightarrow> decoded_or_too_small Int64Value (decode_field 0 source)
             | FLOAT64 \<Rightarrow> decoded_or_too_small Float64PhysicalValue (decode_field 0 source)
             | DATE \<Rightarrow> decoded_or_too_small DatePhysicalValue (decode_field 0 source)
             | TIMESTAMP \<Rightarrow> decoded_or_too_small TimestampPhysicalValue (decode_field 0 source)
             | _ \<Rightarrow> Unexpected SCALAR_INVALID_PHYSICAL_TYPE))"

fun scalar_image :: "TupleValue \<Rightarrow> byte list" where
  "scalar_image (BooleanValue b) = [if b then 1 else 0]"
| "scalar_image (Int32Value w) = le_bytes w"
| "scalar_image (Int64Value w) = le_bytes w"
| "scalar_image (Float64PhysicalValue w) = le_bytes w"
| "scalar_image (DatePhysicalValue w) = le_bytes w"
| "scalar_image (TimestampPhysicalValue w) = le_bytes w"
| "scalar_image _ = []"

definition scalar_ok :: "PhysicalType \<Rightarrow> TupleValue \<Rightarrow> bool" where
  "scalar_ok t v \<longleftrightarrow> t \<noteq> VARCHAR \<and> ValueMatchesType t v"

lemma scalar_ok_cases [consumes 1, case_names Boolean Int32 Int64 Float64 Date Timestamp]:
  assumes "scalar_ok t v"
  obtains b where "t = BOOLEAN" "v = BooleanValue b" | w where "t = INT32" "v = Int32Value w"
  | w where "t = INT64" "v = Int64Value w" | w where "t = FLOAT64" "v = Float64PhysicalValue w"
  | w where "t = DATE" "v = DatePhysicalValue w"
  | w where "t = TIMESTAMP" "v = TimestampPhysicalValue w"
  using assms by (cases t; cases v) (auto simp: scalar_ok_def)

lemma scalar_ok_simps [simp]:
  "scalar_ok BOOLEAN (BooleanValue b)" "scalar_ok INT32 (Int32Value w)"
  "scalar_ok INT64 (Int64Value x)" "scalar_ok FLOAT64 (Float64PhysicalValue x)"
  "scalar_ok DATE (DatePhysicalValue w)" "scalar_ok TIMESTAMP (TimestampPhysicalValue x)"
  "\<not> scalar_ok t NullValue" "\<not> scalar_ok t (VarcharValue s)" "\<not> scalar_ok VARCHAR v"
  by (simp_all add: scalar_ok_def) (cases t; simp)+

lemma length_scalar_image: "scalar_ok t v \<Longrightarrow> length (scalar_image v) = type_width t"
  by (cases rule: scalar_ok_cases) (auto simp: type_width_def)

lemma put_one: "d \<noteq> [] \<Longrightarrow> put 0 [x] d = d[0 := x]"
  by (cases d) (simp_all add: put_def)

lemma EncodeFixedScalar_eq:
  "scalar_ok t v \<Longrightarrow> EncodeFixedScalar d t v =
     (if type_width t \<le> length d then Ok (put 0 (scalar_image v) d)
      else Unexpected DESTINATION_TOO_SMALL)"
  by (cases rule: scalar_ok_cases)
    (auto simp: EncodeFixedScalar_def EncodedOrTooSmall_def type_width_def put_one Suc_le_eq)

lemma EncodeFixedScalar_not_ok:
  "\<not> scalar_ok t v \<Longrightarrow> \<exists>e. EncodeFixedScalar d t v = Unexpected e"
  by (cases t) (auto simp: EncodeFixedScalar_def scalar_ok_def)

lemma byte_le_1: "(b :: byte) \<le> 1 \<longleftrightarrow> b = 0 \<or> b = 1"
proof -
  have "b \<le> 1 \<longleftrightarrow> unat b \<le> 1" by (simp add: word_le_nat_alt)
  also have "\<dots> \<longleftrightarrow> unat b = 0 \<or> unat b = 1" by linarith
  also have "\<dots> \<longleftrightarrow> b = 0 \<or> b = 1" by (metis unat_0 unat_1 unat_eq_zero word_unat_eq_iff)
  finally show ?thesis .
qed

lemma DecodeFixedScalar_Some_iff:
  "DecodeFixedScalar t s = Ok v \<longleftrightarrow>
     type_width t \<le> length s \<and> scalar_ok t v \<and> take (type_width t) s = scalar_image v"
proof (cases t)
  case BOOLEAN
  show ?thesis
  proof (cases s)
    case (Cons b bs)
    have "DecodeFixedScalar t s = Ok v \<longleftrightarrow> (b = 0 \<or> b = 1) \<and> v = BooleanValue (b = 1)"
      using byte_le_1[of b] by (auto simp: DecodeFixedScalar_def BOOLEAN Cons not_less[symmetric])
    also have "\<dots> \<longleftrightarrow> scalar_ok t v \<and> [b] = scalar_image v"
      by (auto simp: BOOLEAN elim!: scalar_ok_cases split: if_splits)
    finally show ?thesis by (simp add: BOOLEAN Cons type_width_def)
  qed (simp add: DecodeFixedScalar_def BOOLEAN type_width_def)
qed (auto simp: DecodeFixedScalar_def decoded_or_too_small_def type_width_def subspan_0_take
      elim!: scalar_ok_cases)

interpretation scalar: strict_codec "type_width t" "scalar_ok t" scalar_image
    "\<lambda>d v. AsOptional (EncodeFixedScalar d t v)" "\<lambda>s. AsOptional (DecodeFixedScalar t s)"
proof unfold_locales
  show "AsOptional (EncodeFixedScalar d t v) =
      (if type_width t \<le> length d \<and> scalar_ok t v then Some (put 0 (scalar_image v) d) else None)"
    for d v
    using EncodeFixedScalar_not_ok[of t v d] by (cases "scalar_ok t v") (auto simp: EncodeFixedScalar_eq)
  show "AsOptional (DecodeFixedScalar t s) = AsOptional (DecodeFixedScalar t (take (type_width t) s))"
    if "type_width t \<le> length s" for s
    by (rule option_eqI) (use that in \<open>simp add: AsOptional_Some_iff DecodeFixedScalar_Some_iff\<close>)
  show "AsOptional (DecodeFixedScalar t s) = None" if "length s < type_width t" for s
    using that by (intro option_eqI) (simp add: AsOptional_Some_iff DecodeFixedScalar_Some_iff)
qed (auto simp: AsOptional_Some_iff DecodeFixedScalar_Some_iff length_scalar_image)

end
