(* ===== verification/Tuple_Codec.thy ===== *)
theory Tuple_Codec
  imports Scalar_Codec
begin

text \<open>
  Encoding, validating and decoding whole tuples: \<open>EncodeTuple\<close>, \<open>ValidateTuple\<close> and
  \<open>DecodeTupleValue\<close> of \<open>src/src/storage/tuple/tuple_codec.cpp\<close>, definitions only.
  The loops over the columns run over the column list with the column index beside it. The
  bitmap and each column are subspans of the one tuple buffer, so every write goes back into
  the buffer with \<open>put\<close>.
\<close>

record TupleVersionMetadata =
  vm_xmin :: TxnId
  vm_xmax :: TxnId
  vm_cmin :: CommandId
  vm_cmax :: CommandId
  vm_prev_page_no :: PageNo
  vm_prev_slot :: SlotId

datatype TupleCodecError =
    TC_NONE | COLUMN_COUNT_MISMATCH | COLUMN_OUT_OF_RANGE | TYPE_MISMATCH | NULL_NOT_ALLOWED
  | VARCHAR_LENGTH_TOO_LARGE | TUPLE_TOO_LARGE | INVALID_HEADER_METADATA | MALFORMED_TUPLE
  | SCHEMA_VERSION_MISMATCH | INVALID_BOOLEAN | FLAG_BITMAP_MISMATCH | VARLEN_FLAG_MISMATCH
  | INVALID_VARLEN_DESCRIPTOR | VARLEN_OFFSET_MISMATCH | TRAILING_BYTES

record TupleCodecFailure =
  tf_code :: TupleCodecError
  tf_column_index :: nat
  tf_header_error :: TupleHeaderDecodeError

text \<open>A failure from its code alone takes the default members.\<close>

definition tuple_failure :: "TupleCodecError \<Rightarrow> TupleCodecFailure" where
  "tuple_failure code = \<lparr>tf_code = code, tf_column_index = 0, tf_header_error = TH_NONE\<rparr>"

definition column_failure :: "TupleCodecError \<Rightarrow> nat \<Rightarrow> TupleCodecFailure" where
  "column_failure code index =
     \<lparr>tf_code = code, tf_column_index = index, tf_header_error = TH_NONE\<rparr>"

fun TupleErrorFromScalar :: "FixedScalarCodecError \<Rightarrow> TupleCodecError" where
  "TupleErrorFromScalar SCALAR_TYPE_MISMATCH = TYPE_MISMATCH"
| "TupleErrorFromScalar UNSUPPORTED_VARLEN_TYPE = MALFORMED_TUPLE"
| "TupleErrorFromScalar SCALAR_INVALID_BOOLEAN = INVALID_BOOLEAN"
| "TupleErrorFromScalar DESTINATION_TOO_SMALL = MALFORMED_TUPLE"
| "TupleErrorFromScalar SOURCE_TOO_SMALL = MALFORMED_TUPLE"
| "TupleErrorFromScalar SCALAR_INVALID_PHYSICAL_TYPE = MALFORMED_TUPLE"

fun TupleErrorFromSizePlanning :: "TupleSizePlanningError \<Rightarrow> TupleCodecError" where
  "TupleErrorFromSizePlanning PLAN_VARCHAR_LENGTH_TOO_LARGE = VARCHAR_LENGTH_TOO_LARGE"
| "TupleErrorFromSizePlanning PLAN_SIZE_OVERFLOW = TUPLE_TOO_LARGE"
| "TupleErrorFromSizePlanning PLAN_TUPLE_TOO_LARGE = TUPLE_TOO_LARGE"
| "TupleErrorFromSizePlanning VARLEN_VALUE_COUNT_MISMATCH = MALFORMED_TUPLE"

fun varlen_schema_index_loop ::
    "PhysicalColumnLayout list \<Rightarrow> nat \<Rightarrow> nat \<Rightarrow> nat \<Rightarrow> nat" where
  "varlen_schema_index_loop [] column_index current varlen_index = column_index"
| "varlen_schema_index_loop (c # cs) column_index current varlen_index =
     (if cl_type c \<noteq> VARCHAR then varlen_schema_index_loop cs (column_index + 1) current varlen_index
      else if current = varlen_index then column_index
      else varlen_schema_index_loop cs (column_index + 1) (current + 1) varlen_index)"

definition VarlenSchemaColumnIndex :: "TuplePhysicalLayout \<Rightarrow> nat \<Rightarrow> nat" where
  "VarlenSchemaColumnIndex layout varlen_index =
     varlen_schema_index_loop (tl_columns layout) 0 0 varlen_index"

definition CheckedDescriptorEnd :: "VarcharDescriptor \<Rightarrow> (32 word) option" where
  "CheckedDescriptorEnd d =
     (if vd_payload_length d > 0xFFFFFFFF - vd_payload_offset d then None
      else Some (vd_payload_offset d + vd_payload_length d))"

definition UnusedBitmapBitMask :: "nat \<Rightarrow> byte" where
  "UnusedBitmapBitMask column_count =
     (let used_bits = column_count mod 8
      in if used_bits = 0 then 0 else push_bit used_bits 0xFF)"

section \<open>Encoding\<close>

text \<open>The first loop of \<open>EncodeTuple\<close>: nullability, types and the VARCHAR sizes.\<close>

fun check_values ::
    "TuplePhysicalLayout \<Rightarrow> nat \<Rightarrow> TupleValue list \<Rightarrow> bool \<Rightarrow> VarlenValueSize list \<Rightarrow>
     (bool \<times> VarlenValueSize list, TupleCodecFailure) result" where
  "check_values layout index [] has_nulls varlen_sizes = Ok (has_nulls, varlen_sizes)"
| "check_values layout index (v # vs) has_nulls varlen_sizes =
     (case Column layout index of
        None \<Rightarrow> Unexpected (column_failure MALFORMED_TUPLE index)
      | Some column \<Rightarrow>
          if IsNullValue v then
            (if \<not> cl_nullable column then Unexpected (column_failure NULL_NOT_ALLOWED index)
             else check_values layout (index + 1) vs True
                    (if cl_type column = VARCHAR
                     then varlen_sizes @ [\<lparr>vs_length = 0, vs_is_null = True\<rparr>] else varlen_sizes))
          else if \<not> ValueMatchesType (cl_type column) v
            then Unexpected (column_failure TYPE_MISMATCH index)
          else if cl_type column = VARCHAR then
            (case v of
               VarcharValue bytes \<Rightarrow>
                 check_values layout (index + 1) vs has_nulls
                   (varlen_sizes @ [\<lparr>vs_length = length bytes, vs_is_null = False\<rparr>])
             | _ \<Rightarrow> Unexpected (column_failure TYPE_MISMATCH index))
          else check_values layout (index + 1) vs has_nulls varlen_sizes)"

text \<open>The second loop: bitmap bits, fixed columns, descriptors and payload.\<close>

fun encode_values ::
    "TuplePhysicalLayout \<Rightarrow> nat \<Rightarrow> TupleValue list \<Rightarrow> byte list \<Rightarrow> nat \<Rightarrow>
     (byte list \<times> nat, TupleCodecFailure) result" where
  "encode_values layout index [] tuple payload_cursor = Ok (tuple, payload_cursor)"
| "encode_values layout index (v # vs) tuple payload_cursor =
     (let column = tl_columns layout ! index;
          off = cl_fixed_offset column; width = cl_fixed_width column
      in if IsNullValue v then
           (case SetNull (subspan TUPLE_HEADER_ENCODED_SIZE (NullBitmapSize layout) tuple)
                   (ColumnCount layout) index of
              Inl _ \<Rightarrow> Unexpected (column_failure MALFORMED_TUPLE index)
            | Inr bitmap \<Rightarrow>
                (let tuple = put TUPLE_HEADER_ENCODED_SIZE bitmap tuple
                 in if cl_type column = VARCHAR then
                      (case EncodeVarcharDescriptor (subspan off width tuple)
                              default_VarcharDescriptor of
                         Inl _ \<Rightarrow> Unexpected (column_failure MALFORMED_TUPLE index)
                       | Inr bs \<Rightarrow>
                           encode_values layout (index + 1) vs (put off bs tuple) payload_cursor)
                    else encode_values layout (index + 1) vs tuple payload_cursor))
         else if cl_type column = VARCHAR then
           (case v of
              VarcharValue bytes \<Rightarrow>
                if payload_cursor > 4294967295 \<or> length bytes > 4294967295
                then Unexpected (column_failure MALFORMED_TUPLE index)
                else
                  (case EncodeVarcharDescriptor (subspan off width tuple)
                          \<lparr>vd_payload_offset = of_nat payload_cursor,
                           vd_payload_length = of_nat (length bytes)\<rparr> of
                     Inl _ \<Rightarrow> Unexpected (column_failure MALFORMED_TUPLE index)
                   | Inr bs \<Rightarrow>
                       if payload_cursor > length tuple
                         \<or> length bytes > length tuple - payload_cursor
                       then Unexpected (column_failure MALFORMED_TUPLE index)
                       else encode_values layout (index + 1) vs
                              (put payload_cursor bytes (put off bs tuple))
                              (payload_cursor + length bytes))
            | _ \<Rightarrow> Unexpected (column_failure MALFORMED_TUPLE index))
         else
           (case EncodeFixedScalar (subspan off width tuple) (cl_type column) v of
              Inl e \<Rightarrow> Unexpected (column_failure (TupleErrorFromScalar e) index)
            | Inr bs \<Rightarrow> encode_values layout (index + 1) vs (put off bs tuple) payload_cursor))"

text \<open>The header of the new tuple.\<close>

definition encode_header ::
    "TuplePhysicalLayout \<Rightarrow> TupleVersionMetadata \<Rightarrow> bool \<Rightarrow> TupleHeader" where
  "encode_header layout metadata has_nulls =
     \<lparr>th_xmin = vm_xmin metadata, th_xmax = vm_xmax metadata, th_cmin = vm_cmin metadata,
      th_cmax = vm_cmax metadata, th_prev_page_no = vm_prev_page_no metadata,
      th_prev_slot = vm_prev_slot metadata,
      th_tuple_flags = (if has_nulls then TUPLE_FLAG_HAS_NULLS else 0) OR
        (if HasVarlenColumns layout then TUPLE_FLAG_HAS_VARLEN else 0),
      th_header_bytes = of_nat TUPLE_HEADER_ENCODED_SIZE,
      th_null_bitmap_bytes = tl_null_bitmap_bytes layout,
      th_schema_version = tl_schema_version layout, th_reserved = 0\<rparr>"

definition EncodeTuple ::
    "TuplePhysicalLayout \<Rightarrow> TupleVersionMetadata \<Rightarrow> TupleValue list \<Rightarrow>
     (byte list, TupleCodecFailure) result" where
  "EncodeTuple layout metadata vs =
     (if length vs \<noteq> ColumnCount layout then Unexpected (tuple_failure COLUMN_COUNT_MISMATCH)
      else
        (case check_values layout 0 vs False [] of
           Inl e \<Rightarrow> Unexpected e
         | Inr (has_nulls, varlen_sizes) \<Rightarrow>
             (case PlanTupleSize layout varlen_sizes of
                Inl e \<Rightarrow> Unexpected (column_failure (TupleErrorFromSizePlanning (pf_code e))
                           (VarlenSchemaColumnIndex layout (pf_varlen_index e)))
              | Inr size_plan \<Rightarrow>
                  (case EncodeTupleHeader (replicate TUPLE_HEADER_ENCODED_SIZE 0)
                          (encode_header layout metadata has_nulls) of
                     None \<Rightarrow> Unexpected (tuple_failure INVALID_HEADER_METADATA)
                   | Some encoded_header \<Rightarrow>
                       (let tuple = put 0 encoded_header (replicate (sp_total_size size_plan) 0)
                        in case encode_values layout 0 vs tuple (tl_varlen_payload_offset layout) of
                             Inl e \<Rightarrow> Unexpected e
                           | Inr (tuple, payload_cursor) \<Rightarrow>
                               if payload_cursor \<noteq> sp_total_size size_plan
                               then Unexpected (tuple_failure MALFORMED_TUPLE)
                               else Ok tuple)))))"

section \<open>Validation\<close>

text \<open>The loop over the columns that reads the bitmap and the BOOLEAN bytes.\<close>

fun null_pass ::
    "TuplePhysicalLayout \<Rightarrow> byte list \<Rightarrow> byte list \<Rightarrow> nat \<Rightarrow> PhysicalColumnLayout list \<Rightarrow> bool \<Rightarrow>
     (bool, TupleCodecFailure) result" where
  "null_pass layout tuple bitmap index [] has_nulls = Ok has_nulls"
| "null_pass layout tuple bitmap index (column # columns) has_nulls =
     (case IsNull bitmap (ColumnCount layout) index of
        Inl _ \<Rightarrow> Unexpected (column_failure MALFORMED_TUPLE index)
      | Inr False \<Rightarrow>
          (if cl_type column = BOOLEAN then
             (case DecodeFixedScalar (cl_type column)
                     (subspan (cl_fixed_offset column) (cl_fixed_width column) tuple) of
                Inl e \<Rightarrow> Unexpected (column_failure (TupleErrorFromScalar e) index)
              | Inr _ \<Rightarrow> null_pass layout tuple bitmap (index + 1) columns has_nulls)
           else null_pass layout tuple bitmap (index + 1) columns has_nulls)
      | Inr True \<Rightarrow>
          (if \<not> cl_nullable column then Unexpected (column_failure NULL_NOT_ALLOWED index)
           else null_pass layout tuple bitmap (index + 1) columns True))"

text \<open>The loop over the VARCHAR descriptors: payloads tile the tail in column order.\<close>

fun varlen_pass ::
    "TuplePhysicalLayout \<Rightarrow> byte list \<Rightarrow> byte list \<Rightarrow> nat \<Rightarrow> PhysicalColumnLayout list \<Rightarrow> nat \<Rightarrow>
     (nat, TupleCodecFailure) result" where
  "varlen_pass layout tuple bitmap index [] expected = Ok expected"
| "varlen_pass layout tuple bitmap index (column # columns) expected =
     (if cl_type column \<noteq> VARCHAR then varlen_pass layout tuple bitmap (index + 1) columns expected
      else
        (case DecodeVarcharDescriptor
                (subspan (cl_fixed_offset column) (cl_fixed_width column) tuple) of
           Inl _ \<Rightarrow> Unexpected (column_failure INVALID_VARLEN_DESCRIPTOR index)
         | Inr descriptor \<Rightarrow>
             (case IsNull bitmap (ColumnCount layout) index of
                Inl _ \<Rightarrow> Unexpected (column_failure MALFORMED_TUPLE index)
              | Inr True \<Rightarrow>
                  (if descriptor \<noteq> default_VarcharDescriptor
                   then Unexpected (column_failure INVALID_VARLEN_DESCRIPTOR index)
                   else varlen_pass layout tuple bitmap (index + 1) columns expected)
              | Inr False \<Rightarrow>
                  (if unat (vd_payload_offset descriptor) < tl_varlen_payload_offset layout
                   then Unexpected (column_failure INVALID_VARLEN_DESCRIPTOR index)
                   else
                     (case CheckedDescriptorEnd descriptor of
                        None \<Rightarrow> Unexpected (column_failure INVALID_VARLEN_DESCRIPTOR index)
                      | Some descriptor_end \<Rightarrow>
                          if unat (vd_payload_offset descriptor) > length tuple
                            \<or> unat descriptor_end > length tuple
                          then Unexpected (column_failure INVALID_VARLEN_DESCRIPTOR index)
                          else if unat (vd_payload_offset descriptor) \<noteq> expected
                          then Unexpected (column_failure VARLEN_OFFSET_MISMATCH index)
                          else varlen_pass layout tuple bitmap (index + 1) columns
                                 (unat descriptor_end))))))"

definition ValidateTuple ::
    "TuplePhysicalLayout \<Rightarrow> byte list \<Rightarrow> (TupleHeader, TupleCodecFailure) result" where
  "ValidateTuple layout tuple =
     (if length tuple < MinimumTupleSize layout then Unexpected (tuple_failure MALFORMED_TUPLE)
      else if length tuple > HEAP_PAGE_MAX_RAW_TUPLE_SIZE
        then Unexpected (tuple_failure TUPLE_TOO_LARGE)
      else
        (case DecodeTupleHeader (take TUPLE_HEADER_ENCODED_SIZE tuple) of
           Inl e \<Rightarrow> Unexpected \<lparr>tf_code = MALFORMED_TUPLE, tf_column_index = 0, tf_header_error = e\<rparr>
         | Inr header \<Rightarrow>
             if th_schema_version header \<noteq> tl_schema_version layout
               then Unexpected (tuple_failure SCHEMA_VERSION_MISMATCH)
             else if th_null_bitmap_bytes header \<noteq> tl_null_bitmap_bytes layout
               then Unexpected (tuple_failure MALFORMED_TUPLE)
             else if (th_tuple_flags header AND TUPLE_FLAG_HAS_VARLEN \<noteq> 0) \<noteq> HasVarlenColumns layout
               then Unexpected (tuple_failure VARLEN_FLAG_MISMATCH)
             else
               (let bitmap = subspan TUPLE_HEADER_ENCODED_SIZE (NullBitmapSize layout) tuple
                in if bitmap \<noteq> [] \<and> last bitmap AND UnusedBitmapBitMask (ColumnCount layout) \<noteq> 0
                   then Unexpected (tuple_failure MALFORMED_TUPLE)
                   else
                     (case null_pass layout tuple bitmap 0 (tl_columns layout) False of
                        Inl e \<Rightarrow> Unexpected e
                      | Inr has_nulls \<Rightarrow>
                          if (th_tuple_flags header AND TUPLE_FLAG_HAS_NULLS \<noteq> 0) \<noteq> has_nulls
                          then Unexpected (tuple_failure FLAG_BITMAP_MISMATCH)
                          else
                            (case varlen_pass layout tuple bitmap 0 (tl_columns layout)
                                    (tl_varlen_payload_offset layout) of
                               Inl e \<Rightarrow> Unexpected e
                             | Inr expected_payload_offset \<Rightarrow>
                                 if expected_payload_offset \<noteq> length tuple
                                 then Unexpected (tuple_failure TRAILING_BYTES)
                                 else Ok header)))))"

section \<open>Decoding one column\<close>

definition DecodeTupleValue ::
    "TuplePhysicalLayout \<Rightarrow> byte list \<Rightarrow> nat \<Rightarrow> (TupleValue, TupleCodecFailure) result" where
  "DecodeTupleValue layout tuple column_index =
     (if column_index \<ge> ColumnCount layout then Unexpected (tuple_failure COLUMN_OUT_OF_RANGE)
      else
        (case ValidateTuple layout tuple of
           Inl e \<Rightarrow> Unexpected \<lparr>tf_code = tf_code e, tf_column_index = 0,
                               tf_header_error = tf_header_error e\<rparr>
         | Inr _ \<Rightarrow>
             (case IsNull (subspan TUPLE_HEADER_ENCODED_SIZE (NullBitmapSize layout) tuple)
                     (ColumnCount layout) column_index of
                Inl _ \<Rightarrow> Unexpected (tuple_failure MALFORMED_TUPLE)
              | Inr True \<Rightarrow> Ok NullValue
              | Inr False \<Rightarrow>
                  (let column = tl_columns layout ! column_index;
                       field = subspan (cl_fixed_offset column) (cl_fixed_width column) tuple
                   in if cl_type column = VARCHAR then
                        (case DecodeVarcharDescriptor field of
                           Inl _ \<Rightarrow> Unexpected (tuple_failure INVALID_VARLEN_DESCRIPTOR)
                         | Inr descriptor \<Rightarrow>
                             Ok (VarcharValue (subspan (unat (vd_payload_offset descriptor))
                                                 (unat (vd_payload_length descriptor)) tuple)))
                      else
                        (case DecodeFixedScalar (cl_type column) field of
                           Inl e \<Rightarrow> Unexpected (tuple_failure (TupleErrorFromScalar e))
                         | Inr v \<Rightarrow> Ok v)))))"

end
