(* ===== verification/Tuple_Repr.thy ===== *)
theory Tuple_Repr
  imports Tuple_Codec
begin

text \<open>
  The contract of the tuple codec: \<open>represents L h vs b\<close> says what it means for the bytes
  \<open>b\<close> to be a tuple of layout \<open>L\<close> with header \<open>h\<close> and column values \<open>vs\<close>.
  \<open>EncodeTuple\<close> only produces such bytes, \<open>ValidateTuple\<close> accepts exactly such bytes
  and \<open>DecodeTupleValue\<close> reads the values back. The bytes of a null fixed-width column are
  not constrained: the code does not look at them.
\<close>

section \<open>Representation\<close>

fun payload :: "TupleValue \<Rightarrow> byte list" where
  "payload (VarcharValue bs) = bs"
| "payload _ = []"

definition cursor :: "TuplePhysicalLayout \<Rightarrow> TupleValue list \<Rightarrow> nat \<Rightarrow> nat" where
  "cursor L vs i = tl_varlen_payload_offset L + sum_list (map (length \<circ> payload) (take i vs))"

definition value_image :: "nat \<Rightarrow> TupleValue \<Rightarrow> byte list" where
  "value_image cur v =
     (case v of
        VarcharValue bs \<Rightarrow> VarcharDescriptor_image
          \<lparr>vd_payload_offset = of_nat cur, vd_payload_length = of_nat (length bs)\<rparr>
      | _ \<Rightarrow> scalar_image v)"

definition value_fits :: "PhysicalColumnLayout \<Rightarrow> TupleValue \<Rightarrow> bool" where
  "value_fits c v = (if IsNullValue v then cl_nullable c else ValueMatchesType (cl_type c) v)"

definition values_fit :: "TuplePhysicalLayout \<Rightarrow> TupleValue list \<Rightarrow> bool" where
  "values_fit L vs \<longleftrightarrow> length vs = ColumnCount L \<and>
     (\<forall>i < ColumnCount L. value_fits (tl_columns L ! i) (vs ! i))"

definition bitmap_of :: "TuplePhysicalLayout \<Rightarrow> byte list \<Rightarrow> byte list" where
  "bitmap_of L b = subspan 48 (NullBitmapSize L) b"

definition field_of :: "TuplePhysicalLayout \<Rightarrow> byte list \<Rightarrow> nat \<Rightarrow> byte list" where
  "field_of L b i =
     subspan (cl_fixed_offset (tl_columns L ! i)) (cl_fixed_width (tl_columns L ! i)) b"

definition column_repr ::
    "TuplePhysicalLayout \<Rightarrow> TupleValue list \<Rightarrow> byte list \<Rightarrow> nat \<Rightarrow> bool" where
  "column_repr L vs b i \<longleftrightarrow>
     null_bit (bitmap_of L b) i = IsNullValue (vs ! i) \<and>
     (if IsNullValue (vs ! i)
      then cl_type (tl_columns L ! i) = VARCHAR \<longrightarrow>
        field_of L b i = VarcharDescriptor_image default_VarcharDescriptor
      else field_of L b i = value_image (cursor L vs i) (vs ! i)) \<and>
     subspan (cursor L vs i) (length (payload (vs ! i))) b = payload (vs ! i)"

definition header_fits :: "TuplePhysicalLayout \<Rightarrow> TupleHeader \<Rightarrow> bool \<Rightarrow> bool" where
  "header_fits L h has_nulls \<longleftrightarrow> ValidateTupleHeader h = TH_NONE \<and>
     th_schema_version h = tl_schema_version L \<and>
     th_null_bitmap_bytes h = tl_null_bitmap_bytes L \<and>
     (th_tuple_flags h AND TUPLE_FLAG_HAS_VARLEN \<noteq> 0) = HasVarlenColumns L \<and>
     (th_tuple_flags h AND TUPLE_FLAG_HAS_NULLS \<noteq> 0) = has_nulls"

definition represents ::
    "TuplePhysicalLayout \<Rightarrow> TupleHeader \<Rightarrow> TupleValue list \<Rightarrow> byte list \<Rightarrow> bool" where
  "represents L h vs b \<longleftrightarrow>
     values_fit L vs \<and> header_fits L h (\<exists>v \<in> set vs. IsNullValue v) \<and>
     length b = cursor L vs (ColumnCount L) \<and> length b \<le> HEAP_PAGE_MAX_RAW_TUPLE_SIZE \<and>
     take 48 b = TupleHeader_image h \<and>
     (\<forall>j. ColumnCount L \<le> j \<and> j < 8 * NullBitmapSize L \<longrightarrow> \<not> null_bit (bitmap_of L b) j) \<and>
     (\<forall>i < ColumnCount L. column_repr L vs b i)"

section \<open>Cursors and layouts\<close>

lemma cursor_0 [simp]: "cursor L vs 0 = tl_varlen_payload_offset L"
  by (simp add: cursor_def)

lemma cursor_Suc: "i < length vs \<Longrightarrow> cursor L vs (Suc i) = cursor L vs i + length (payload (vs ! i))"
  by (simp add: cursor_def take_Suc_conv_app_nth)

lemma cursor_mono: "i \<le> j \<Longrightarrow> cursor L vs i \<le> cursor L vs j"
proof (induction j)
  case (Suc j)
  then show ?case
    by (cases "i = Suc j"; cases "j < length vs") (auto simp: cursor_Suc, auto simp: cursor_def)
qed simp

lemma cursor_ge: "tl_varlen_payload_offset L \<le> cursor L vs i"
  by (simp add: cursor_def)

lemma cursor_end:
  "i < ColumnCount L \<Longrightarrow> length vs = ColumnCount L \<Longrightarrow>
   cursor L vs i + length (payload (vs ! i)) \<le> cursor L vs (ColumnCount L)"
  using cursor_mono[of "Suc i" "ColumnCount L" L vs] by (simp add: cursor_Suc)

lemma layout_facts:
  assumes "layout_wf L"
  shows "NullBitmapSize L = bitmap_bytes (ColumnCount L)" and "NullBitmapSize L \<le> 65535"
    and "48 + NullBitmapSize L \<le> tl_varlen_payload_offset L"
    and "tl_varlen_payload_offset L \<le> 8135"
  using assms by (auto simp: layout_wf_def)

lemma field_bounds:
  assumes "layout_wf L" and "i < ColumnCount L"
  shows "48 + NullBitmapSize L \<le> cl_fixed_offset (tl_columns L ! i)"
    and "cl_fixed_offset (tl_columns L ! i) + cl_fixed_width (tl_columns L ! i)
      \<le> tl_varlen_payload_offset L"
    and "type_width (cl_type (tl_columns L ! i)) = cl_fixed_width (tl_columns L ! i)"
  using layout_wf_column[OF assms] layout_facts(1)[OF assms(1)] by (auto simp: type_width_def)

lemma field_width_varchar:
  "layout_wf L \<Longrightarrow> i < ColumnCount L \<Longrightarrow> cl_type (tl_columns L ! i) = VARCHAR \<Longrightarrow>
   cl_fixed_width (tl_columns L ! i) = 8"
  using field_bounds(3)[of L i] by (simp add: type_width_def)

lemma length_field_of:
  "layout_wf L \<Longrightarrow> i < ColumnCount L \<Longrightarrow> tl_varlen_payload_offset L \<le> length b \<Longrightarrow>
   length (field_of L b i) = cl_fixed_width (tl_columns L ! i)"
  using field_bounds[of L i] by (simp add: field_of_def)

lemma length_bitmap_of:
  "layout_wf L \<Longrightarrow> tl_varlen_payload_offset L \<le> length b \<Longrightarrow>
   length (bitmap_of L b) = NullBitmapSize L"
  using layout_facts[of L] by (simp add: bitmap_of_def)

lemma fields_disjoint:
  assumes "layout_wf L" and "i < ColumnCount L" and "j < ColumnCount L" and "i \<noteq> j"
  shows "cl_fixed_offset (tl_columns L ! i) + cl_fixed_width (tl_columns L ! i)
      \<le> cl_fixed_offset (tl_columns L ! j) \<or>
    cl_fixed_offset (tl_columns L ! j) + cl_fixed_width (tl_columns L ! j)
      \<le> cl_fixed_offset (tl_columns L ! i)"
  using layout_wf_disjoint[of L i j] layout_wf_disjoint[of L j i] assms
  by (cases i j rule: linorder_cases) auto

lemma varchar_fits: "ValueMatchesType VARCHAR v \<longleftrightarrow> (\<exists>bs. v = VarcharValue bs)"
  by (cases v) auto

lemma payload_not_varchar: "value_fits c v \<Longrightarrow> cl_type c \<noteq> VARCHAR \<Longrightarrow> payload v = []"
  by (cases v; cases "cl_type c") (auto simp: value_fits_def)

lemma fixed_fits:
  "value_fits c v \<Longrightarrow> cl_type c \<noteq> VARCHAR \<Longrightarrow> \<not> IsNullValue v \<Longrightarrow>
   scalar_ok (cl_type c) v \<and> value_image cur v = scalar_image v"
  by (cases v; cases "cl_type c") (auto simp: value_fits_def value_image_def)

section \<open>Encoding produces a representation\<close>

subsection \<open>The first loop\<close>

definition varlen_size :: "TupleValue \<Rightarrow> VarlenValueSize" where
  "varlen_size v = \<lparr>vs_length = length (payload v), vs_is_null = IsNullValue v\<rparr>"

definition varlen_sizes_of :: "PhysicalColumnLayout list \<Rightarrow> TupleValue list \<Rightarrow> VarlenValueSize list" where
  "varlen_sizes_of cols vs =
     map (varlen_size \<circ> snd) (filter (\<lambda>(c, v). cl_type c = VARCHAR) (zip cols vs))"

lemma check_values_Ok_iff:
  "i + length vs \<le> ColumnCount L \<Longrightarrow>
   check_values L i vs hn sz = Ok r \<longleftrightarrow>
     list_all2 value_fits (take (length vs) (drop i (tl_columns L))) vs \<and>
     r = (hn \<or> (\<exists>v \<in> set vs. IsNullValue v), sz @ varlen_sizes_of (drop i (tl_columns L)) vs)"
proof (induction vs arbitrary: i hn sz)
  case Nil
  then show ?case by (auto simp: varlen_sizes_of_def)
next
  case (Cons v vs)
  then have i: "i < length (tl_columns L)" by (simp add: ColumnCount_def)
  then have d: "drop i (tl_columns L) = tl_columns L ! i # drop (Suc i) (tl_columns L)"
    by (simp add: Cons_nth_drop_Suc)
  have col: "Column L i = Some (tl_columns L ! i)" using i by (simp add: Column_def)
  note IH = Cons.IH[of "Suc i"]
  show ?case
  proof (cases v)
    case (VarcharValue bs)
    then show ?thesis using Cons.prems i IH
      by (cases "cl_type (tl_columns L ! i)")
        (auto simp: d col value_fits_def varlen_sizes_of_def varlen_size_def)
  qed (use Cons.prems i IH in
      \<open>cases "cl_type (tl_columns L ! i)";
       auto simp: d col value_fits_def varlen_sizes_of_def varlen_size_def\<close>)+
qed

lemma length_varlen_sizes_of:
  "length vs = length cols \<Longrightarrow> length (varlen_sizes_of cols vs) = varlen_count cols"
proof (induction vs cols rule: list_induct2)
  case (Cons v vs c cs)
  then show ?case by (auto simp: varlen_sizes_of_def varlen_count_def)
qed (simp add: varlen_sizes_of_def varlen_count_def)

lemma payload_total_varlen_sizes:
  "list_all2 value_fits cols vs \<Longrightarrow>
   payload_total (varlen_sizes_of cols vs) = sum_list (map (length \<circ> payload) vs)"
proof (induction rule: list_all2_induct)
  case (Cons c cs v vs)
  then show ?case
    using payload_not_varchar[of c v]
    by (cases v) (auto simp: varlen_sizes_of_def payload_total_def varlen_size_def)
qed (simp add: varlen_sizes_of_def payload_total_def)

lemma values_fit_list_all2: "values_fit L vs \<longleftrightarrow> list_all2 value_fits (tl_columns L) vs"
  by (auto simp: values_fit_def list_all2_conv_all_nth ColumnCount_def)

lemma cursor_total: "length vs = ColumnCount L \<Longrightarrow>
   cursor L vs (ColumnCount L) =
     tl_varlen_payload_offset L + sum_list (map (length \<circ> payload) vs)"
  by (simp add: cursor_def)

subsection \<open>The second loop\<close>

text \<open>The loop's invariant before column \<open>i\<close>.\<close>

definition enc_inv ::
    "TuplePhysicalLayout \<Rightarrow> TupleHeader \<Rightarrow> TupleValue list \<Rightarrow> nat \<Rightarrow> byte list \<Rightarrow> bool" where
  "enc_inv L h vs i b \<longleftrightarrow>
     length b = cursor L vs (ColumnCount L) \<and> take 48 b = TupleHeader_image h \<and>
     (\<forall>j. i \<le> j \<and> j < 8 * NullBitmapSize L \<longrightarrow> \<not> null_bit (bitmap_of L b) j) \<and>
     (\<forall>k < i. column_repr L vs b k)"

lemma bitmap_of_put_above:
  "48 + NullBitmapSize L \<le> off \<Longrightarrow> off + length ys \<le> length b \<Longrightarrow>
   bitmap_of L (put off ys b) = bitmap_of L b"
  by (simp add: bitmap_of_def subspan_put_other)

lemma take_put_above: "m \<le> off \<Longrightarrow> off + length ys \<le> length b \<Longrightarrow> take m (put off ys b) = take m b"
  using subspan_put_other[of off ys b 0 m] by (simp add: subspan_0_take)

text \<open>A column's representation survives a write elsewhere.\<close>

lemma column_repr_cong:
  assumes "column_repr L vs b k"
    and "null_bit (bitmap_of L b') k = null_bit (bitmap_of L b) k"
    and "field_of L b' k = field_of L b k"
    and "subspan (cursor L vs k) (length (payload (vs ! k))) b' =
      subspan (cursor L vs k) (length (payload (vs ! k))) b"
  shows "column_repr L vs b' k"
  using assms by (simp add: column_repr_def)

lemma column_repr_put_field:
  assumes "column_repr L vs b k" and "k \<noteq> i" and "i < ColumnCount L" and "k < ColumnCount L"
    and "length ys = cl_fixed_width (tl_columns L ! i)"
    and wf: "layout_wf L" and len: "length b = cursor L vs (ColumnCount L)"
    and count: "length vs = ColumnCount L"
  shows "column_repr L vs (put (cl_fixed_offset (tl_columns L ! i)) ys b) k"
proof (rule column_repr_cong[OF assms(1)])
  note bi = field_bounds[OF wf assms(3)] and bk = field_bounds[OF wf assms(4)]
  note ge = cursor_ge[of L vs k] cursor_ge[of L vs "ColumnCount L"] cursor_end[OF assms(4) count]
  show "null_bit (bitmap_of L (put (cl_fixed_offset (tl_columns L ! i)) ys b)) k =
      null_bit (bitmap_of L b) k"
    using bi ge assms(5) len by (simp add: bitmap_of_put_above)
  show "field_of L (put (cl_fixed_offset (tl_columns L ! i)) ys b) k = field_of L b k"
    using bi bk ge assms(5) len fields_disjoint[OF wf assms(4,3,2)]
    by (simp add: field_of_def subspan_put_other)
  show "subspan (cursor L vs k) (length (payload (vs ! k)))
      (put (cl_fixed_offset (tl_columns L ! i)) ys b) =
      subspan (cursor L vs k) (length (payload (vs ! k))) b"
    using bi ge assms(5) len by (intro subspan_put_other) auto
qed

lemma column_repr_put_payload:
  assumes "column_repr L vs b k" and "k < i" and "i < ColumnCount L"
    and wf: "layout_wf L" and len: "length b = cursor L vs (ColumnCount L)"
    and count: "length vs = ColumnCount L"
  shows "column_repr L vs (put (cursor L vs i) (payload (vs ! i)) b) k"
proof (rule column_repr_cong[OF assms(1)])
  have k: "k < ColumnCount L" using assms by simp
  note ge = cursor_ge[of L vs i] cursor_end[OF assms(3) count] cursor_end[OF k count]
  show "null_bit (bitmap_of L (put (cursor L vs i) (payload (vs ! i)) b)) k =
      null_bit (bitmap_of L b) k"
    using layout_facts[OF wf] ge len by (simp add: bitmap_of_put_above)
  show "field_of L (put (cursor L vs i) (payload (vs ! i)) b) k = field_of L b k"
    using field_bounds[OF wf k] ge len by (simp add: field_of_def subspan_put_other)
  have "cursor L vs (Suc k) \<le> cursor L vs i"
    using assms(2) by (intro cursor_mono) simp
  then show "subspan (cursor L vs k) (length (payload (vs ! k)))
      (put (cursor L vs i) (payload (vs ! i)) b) =
      subspan (cursor L vs k) (length (payload (vs ! k))) b"
    using ge len k count by (intro subspan_put_other) (auto simp: cursor_Suc)
qed

lemma column_repr_put_bitmap:
  assumes "column_repr L vs b k" and "k < ColumnCount L" and "length bm = NullBitmapSize L"
    and "null_bit bm k = null_bit (bitmap_of L b) k"
    and wf: "layout_wf L" and len: "length b = cursor L vs (ColumnCount L)"
    and count: "length vs = ColumnCount L"
  shows "column_repr L vs (put 48 bm b) k"
proof (rule column_repr_cong[OF assms(1)])
  note ge = cursor_ge[of L vs k] cursor_end[OF assms(2) count] layout_facts[OF wf]
  show "null_bit (bitmap_of L (put 48 bm b)) k = null_bit (bitmap_of L b) k"
    using assms ge len by (simp add: bitmap_of_def subspan_put_eq)
  show "field_of L (put 48 bm b) k = field_of L b k"
    using field_bounds[OF wf assms(2)] ge len assms(3) by (simp add: field_of_def subspan_put_other)
  show "subspan (cursor L vs k) (length (payload (vs ! k))) (put 48 bm b) =
      subspan (cursor L vs k) (length (payload (vs ! k))) b"
    using ge len assms(3) by (intro subspan_put_other) auto
qed


text \<open>One step of the loop: the bitmap bit, the field, the payload.\<close>

lemma null_bit_default_step:
  assumes "layout_wf L" and "tl_varlen_payload_offset L \<le> length b" and "i < ColumnCount L"
  shows "SetNull (bitmap_of L b) (ColumnCount L) i =
      Ok ((bitmap_of L b)[i div 8 := (bitmap_of L b ! (i div 8)) OR NullBitMask i])"
    and "i div 8 < length (bitmap_of L b)"
  using assms layout_facts[of L] bitmap_index[OF assms(3)]
  by (simp_all add: SetNull_eq length_bitmap_of)

text \<open>The state once the bitmap bit of column \<open>i\<close> is right.\<close>

definition mid_inv ::
    "TuplePhysicalLayout \<Rightarrow> TupleHeader \<Rightarrow> TupleValue list \<Rightarrow> nat \<Rightarrow> byte list \<Rightarrow> bool" where
  "mid_inv L h vs i b \<longleftrightarrow>
     length b = cursor L vs (ColumnCount L) \<and> take 48 b = TupleHeader_image h \<and>
     (\<forall>j. Suc i \<le> j \<and> j < 8 * NullBitmapSize L \<longrightarrow> \<not> null_bit (bitmap_of L b) j) \<and>
     null_bit (bitmap_of L b) i = IsNullValue (vs ! i) \<and>
     (\<forall>k < i. column_repr L vs b k)"

lemma enc_inv_mid:
  assumes inv: "enc_inv L h vs i b" and i: "i < ColumnCount L" and wf: "layout_wf L"
    and count: "length vs = ColumnCount L"
  defines "bm \<equiv> (bitmap_of L b)[i div 8 := (bitmap_of L b ! (i div 8)) OR NullBitMask i]"
  shows "IsNullValue (vs ! i) \<Longrightarrow> mid_inv L h vs i (put 48 bm b)"
    and "\<not> IsNullValue (vs ! i) \<Longrightarrow> mid_inv L h vs i b"
proof -
  have V: "tl_varlen_payload_offset L \<le> length b"
    using inv cursor_ge[of L vs] by (simp add: enc_inv_def)
  note lb = length_bitmap_of[OF wf V] and fits = layout_facts[OF wf]
  have idx: "i div 8 < length (bitmap_of L b)"
    using null_bit_default_step(2)[OF wf V i] .
  then have "i < 8 * NullBitmapSize L" using lb by linarith
  then show "\<not> IsNullValue (vs ! i) \<Longrightarrow> mid_inv L h vs i b"
    using inv by (simp add: mid_inv_def enc_inv_def)
  have lbm: "length bm = NullBitmapSize L" using lb by (simp add: bm_def)
  have len: "length (put 48 bm b) = length b" using lbm fits V by simp
  have hd: "take 48 (put 48 bm b) = take 48 b" using lbm fits V by (intro take_put_above) auto
  have "bitmap_of L (put 48 bm b) = bm"
    using lbm fits V by (simp add: bitmap_of_def subspan_put_eq)
  then have bit: "null_bit (bitmap_of L (put 48 bm b)) j = (j = i \<or> null_bit (bitmap_of L b) j)" for j
    using idx by (simp add: bm_def null_bit_set)
  have repr: "\<forall>k < i. column_repr L vs (put 48 bm b) k"
    using inv i lbm idx wf count
    by (auto simp: enc_inv_def bm_def null_bit_set intro!: column_repr_put_bitmap)
  show "IsNullValue (vs ! i) \<Longrightarrow> mid_inv L h vs i (put 48 bm b)"
    using inv len hd bit repr by (simp add: mid_inv_def enc_inv_def)
qed

lemma put_nil [simp]: "put off [] xs = xs"
  by (simp add: put_def)

lemma mid_inv_finish:
  assumes inv: "mid_inv L h vs i b" and i: "i < ColumnCount L" and wf: "layout_wf L"
    and count: "length vs = ColumnCount L"
    and lf: "length f = cl_fixed_width (tl_columns L ! i)"
    and f: "if IsNullValue (vs ! i)
      then cl_type (tl_columns L ! i) = VARCHAR \<longrightarrow>
        f = VarcharDescriptor_image default_VarcharDescriptor
      else f = value_image (cursor L vs i) (vs ! i)"
  shows "enc_inv L h vs (Suc i)
    (put (cursor L vs i) (payload (vs ! i)) (put (cl_fixed_offset (tl_columns L ! i)) f b))"
    (is "enc_inv L h vs (Suc i) (put ?cur ?p ?b1)")
proof -
  have len: "length b = cursor L vs (ColumnCount L)" using inv by (simp add: mid_inv_def)
  note fb = field_bounds[OF wf i] and ge = cursor_ge[of L vs i] cursor_end[OF i count]
    and lay = layout_facts[OF wf]
  have len1: "length ?b1 = length b" using fb ge lf len by simp
  have len2: "length (put ?cur ?p ?b1) = length b" using len1 ge len by simp
  have hd: "take 48 (put ?cur ?p ?b1) = take 48 b"
    using fb ge lf len lay len1 by (simp add: take_put_above)
  have bm: "bitmap_of L (put ?cur ?p ?b1) = bitmap_of L b"
    using fb ge lf len lay len1 by (simp add: bitmap_of_put_above)
  have fld: "field_of L (put ?cur ?p ?b1) i = f"
    using fb ge lf len len1 by (simp add: field_of_def subspan_put_other subspan_put_eq)
  have pay: "subspan ?cur (length ?p) (put ?cur ?p ?b1) = ?p"
    using ge len len1 by (simp add: subspan_put_eq)
  have "column_repr L vs (put ?cur ?p ?b1) i"
    unfolding column_repr_def fld bm pay using inv f by (simp add: mid_inv_def)
  moreover have "column_repr L vs (put ?cur ?p ?b1) k" if k: "k < i" for k
  proof (rule column_repr_put_payload)
    show "column_repr L vs ?b1 k"
      by (rule column_repr_put_field) (use inv k i lf wf len count in \<open>auto simp: mid_inv_def\<close>)
  qed (use k i wf len1 len count in auto)
  ultimately show ?thesis
    using inv len2 hd bm by (auto simp: enc_inv_def mid_inv_def less_Suc_eq)
qed

lemma encode_values_step:
  assumes inv: "enc_inv L h vs i b" and i: "i < ColumnCount L" and wf: "layout_wf L"
    and fit: "values_fit L vs" and max: "cursor L vs (ColumnCount L) \<le> 8135"
  shows "\<exists>b'. enc_inv L h vs (Suc i) b' \<and>
     encode_values L i (drop i vs) b (cursor L vs i) =
     encode_values L (Suc i) (drop (Suc i) vs) b' (cursor L vs (Suc i))"
proof -
  define c where "c = tl_columns L ! i"
  define v where "v = vs ! i"
  define bm where "bm = (bitmap_of L b)[i div 8 := (bitmap_of L b ! (i div 8)) OR NullBitMask i]"
  have count: "length vs = ColumnCount L" and vfit: "value_fits c v"
    using fit i by (auto simp: values_fit_def c_def v_def)
  have d: "drop i vs = v # drop (Suc i) vs"
    using i count by (simp add: Cons_nth_drop_Suc v_def)
  have len: "length b = cursor L vs (ColumnCount L)" using inv by (simp add: enc_inv_def)
  have V: "tl_varlen_payload_offset L \<le> length b" using len cursor_ge[of L vs] by simp
  note fb = field_bounds[OF wf i, folded c_def]
  have cs: "cursor L vs (Suc i) = cursor L vs i + length (payload v)"
    using i count by (simp add: cursor_Suc v_def)
  have ce: "cursor L vs i + length (payload v) \<le> length b"
    using cursor_end[OF i count] len by (simp add: v_def)
  have setnull: "SetNull (subspan 48 (NullBitmapSize L) b) (ColumnCount L) i = Ok bm"
    using null_bit_default_step(1)[OF wf V i] by (simp add: bitmap_of_def bm_def)
  note mid = enc_inv_mid[OF inv i wf count, folded bm_def v_def]
  note finish = mid_inv_finish[OF _ i wf count, folded c_def v_def]
  have lf: "length (subspan (cl_fixed_offset c) (cl_fixed_width c) x) = cl_fixed_width c"
    if "length x = length b" for x
    using that fb V by simp
  show ?thesis
  proof (cases "IsNullValue v")
    case True
    then have v0: "payload v = []" by (cases v) auto
    have len1: "length (put 48 bm b) = length b"
      using mid(1)[OF True] len by (simp add: mid_inv_def)
    show ?thesis
    proof (cases "cl_type c = VARCHAR")
      case VC: True
      have w: "cl_fixed_width c = 8" using field_width_varchar[OF wf i] VC by (simp add: c_def)
      let ?f = "VarcharDescriptor_image default_VarcharDescriptor"
      have "enc_inv L h vs (Suc i) (put (cl_fixed_offset c) ?f (put 48 bm b))"
        using finish[OF mid(1)[OF True], of ?f] w True v0 by simp
      moreover have "encode_values L i (drop i vs) b (cursor L vs i) = encode_values L (Suc i)
          (drop (Suc i) vs) (put (cl_fixed_offset c) ?f (put 48 bm b)) (cursor L vs (Suc i))"
        using True VC w lf[OF len1] v0 cs setnull
        by (simp add: d EncodeVarcharDescriptor_eq flip: c_def)
      ultimately show ?thesis by blast
    next
      case False
      have "enc_inv L h vs (Suc i) (put 48 bm b)"
        using finish[OF mid(1)[OF True],
            of "subspan (cl_fixed_offset c) (cl_fixed_width c) (put 48 bm b)"]
          True False lf[OF len1] v0 fb V len1 by simp
      moreover have "encode_values L i (drop i vs) b (cursor L vs i) = encode_values L (Suc i)
          (drop (Suc i) vs) (put 48 bm b) (cursor L vs (Suc i))"
        using True False v0 cs setnull by (simp add: d flip: c_def)
      ultimately show ?thesis by blast
    qed
  next
    case nn: False
    let ?f = "value_image (cursor L vs i) v"
    let ?b = "put (cursor L vs i) (payload v) (put (cl_fixed_offset c) ?f b)"
    have "length ?f = cl_fixed_width c \<and>
        encode_values L i (drop i vs) b (cursor L vs i) =
        encode_values L (Suc i) (drop (Suc i) vs) ?b (cursor L vs (Suc i))"
    proof (cases "cl_type c = VARCHAR")
      case True
      then obtain bs where v: "v = VarcharValue bs"
        using vfit nn by (auto simp: value_fits_def varchar_fits)
      have w: "cl_fixed_width c = 8" using field_width_varchar[OF wf i] True by (simp add: c_def)
      have "length (put (cl_fixed_offset c) (VarcharDescriptor_image x) b) = length b" for x
        using w fb V by simp
      then show ?thesis
        using True w lf[of b] v cs ce len max
        by (simp add: d EncodeVarcharDescriptor_eq value_image_def flip: c_def)
    next
      case False
      note ok = fixed_fits[OF vfit False nn, of "cursor L vs i"]
      have "payload v = []" using payload_not_varchar[OF vfit False] .
      then show ?thesis
        using False nn lf[of b] ok cs fb length_scalar_image[of "cl_type c" v]
        by (simp add: d EncodeFixedScalar_eq flip: c_def)
    qed
    then show ?thesis using finish[OF mid(2)[OF nn], of ?f] nn by auto
  qed
qed

lemma encode_values_Ok:
  assumes "layout_wf L" and "values_fit L vs" and "cursor L vs (ColumnCount L) \<le> 8135"
    and "enc_inv L h vs i b" and "i \<le> ColumnCount L"
  shows "\<exists>b'. encode_values L i (drop i vs) b (cursor L vs i) =
      Ok (b', cursor L vs (ColumnCount L)) \<and> enc_inv L h vs (ColumnCount L) b'"
  using assms(4,5)
proof (induction "ColumnCount L - i" arbitrary: i b)
  case 0
  then show ?case using assms(2) by (simp add: values_fit_def)
next
  case (Suc m)
  then have i: "i < ColumnCount L" by simp
  obtain b1 where "enc_inv L h vs (Suc i) b1"
    and "encode_values L i (drop i vs) b (cursor L vs i) =
      encode_values L (Suc i) (drop (Suc i) vs) b1 (cursor L vs (Suc i))"
    using encode_values_step[OF Suc.prems(1) i assms(1,2,3)] by blast
  then show ?case using Suc.hyps(1)[of "Suc i" b1] Suc.hyps(2) i by simp
qed

lemma header_fits_encode_header:
  assumes "ValidateTupleHeader (encode_header L md nulls) = TH_NONE"
  shows "header_fits L (encode_header L md nulls) nulls"
proof -
  have "(1 :: 16 word) AND 2 = 0" "(3 :: 16 word) AND 2 = 2" "(3 :: 16 word) AND 1 = 1"
    "(2 :: 16 word) AND 1 = 0" "(1 :: 16 word) OR 2 = 3" by simp_all
  then show ?thesis
    using assms by (cases nulls; cases "HasVarlenColumns L")
      (simp_all add: header_fits_def encode_header_def TUPLE_FLAG_HAS_NULLS_def
        TUPLE_FLAG_HAS_VARLEN_def)
qed

lemma zeros_null_bit: "j < 8 * n \<Longrightarrow> \<not> null_bit (replicate n 0) j"
  by (simp add: null_bit_def less_mult_imp_div_less mult.commute)

lemma enc_inv_start:
  assumes wf: "layout_wf L" and h: "length (TupleHeader_image h) = 48"
    and T: "T = cursor L vs (ColumnCount L)"
  shows "enc_inv L h vs 0 (put 0 (TupleHeader_image h) (replicate T 0))"
proof -
  have V: "48 + NullBitmapSize L \<le> T"
    using T layout_facts(3)[OF wf] cursor_ge[of L vs "ColumnCount L"] by simp
  have bm: "bitmap_of L (put 0 (TupleHeader_image h) (replicate T 0)) =
      replicate (NullBitmapSize L) 0"
    using V by (simp add: bitmap_of_def put_def subspan_append_right subspan_def min_def)
  show ?thesis
    unfolding enc_inv_def bm
    using V T by (auto simp: put_def zeros_null_bit)
qed

lemma represents_of_enc_inv:
  assumes "enc_inv L h vs (ColumnCount L) b" and "values_fit L vs"
    and "cursor L vs (ColumnCount L) \<le> HEAP_PAGE_MAX_RAW_TUPLE_SIZE"
    and "header_fits L h (\<exists>v \<in> set vs. IsNullValue v)"
  shows "represents L h vs b"
  using assms by (simp add: represents_def enc_inv_def)

lemma EncodeTuple_eq:
  fixes L :: TuplePhysicalLayout and md :: TupleVersionMetadata
  assumes wf: "layout_wf L" and fit: "values_fit L vs"
  defines "h \<equiv> encode_header L md (\<exists>v \<in> set vs. IsNullValue v)"
  assumes size: "cursor L vs (ColumnCount L) \<le> HEAP_PAGE_MAX_RAW_TUPLE_SIZE"
    and ok: "ValidateTupleHeader h = TH_NONE"
  shows "\<exists>b. EncodeTuple L md vs = Ok b \<and> represents L h vs b"
proof -
  have count: "length vs = ColumnCount L" using fit by (simp add: values_fit_def)
  have all2: "list_all2 value_fits (tl_columns L) vs" using fit by (simp add: values_fit_list_all2)
  define sz where "sz = varlen_sizes_of (tl_columns L) vs"
  have check: "check_values L 0 vs False [] = Ok (\<exists>v \<in> set vs. IsNullValue v, sz)"
    using check_values_Ok_iff[of 0 vs L False "[]"] all2 count
    by (simp add: sz_def ColumnCount_def)
  have "length sz = tl_varlen_column_count L"
    using wf count by (simp add: sz_def length_varlen_sizes_of layout_wf_def ColumnCount_def)
  moreover have tot: "payload_total sz = sum_list (map (length \<circ> payload) vs)"
    using payload_total_varlen_sizes[OF all2] by (simp add: sz_def)
  ultimately have plan: "PlanTupleSize L sz = Ok \<lparr>sp_varlen_payload_size = payload_total sz,
      sp_total_size = cursor L vs (ColumnCount L)\<rparr>"
    using PlanTupleSize_Ok_iff[of L sz] layout_facts(4)[OF wf] size cursor_total[OF count]
    by simp
  have hdr: "EncodeTupleHeader (replicate 48 0) h = Some (TupleHeader_image h)"
    using ok by (simp add: EncodeTupleHeader_eq)
  let ?b0 = "put 0 (TupleHeader_image h) (replicate (cursor L vs (ColumnCount L)) 0)"
  have "enc_inv L h vs 0 ?b0" by (rule enc_inv_start[OF wf]) simp_all
  then obtain b where b: "encode_values L 0 vs ?b0 (tl_varlen_payload_offset L) =
      Ok (b, cursor L vs (ColumnCount L))" "enc_inv L h vs (ColumnCount L) b"
    using encode_values_Ok[OF wf fit, of h 0 ?b0] size by auto
  have "EncodeTuple L md vs = Ok b"
    using count check plan hdr b(1) by (simp add: EncodeTuple_def h_def)
  moreover have "represents L h vs b"
    using represents_of_enc_inv[OF b(2) fit size] header_fits_encode_header ok by (simp add: h_def)
  ultimately show ?thesis by blast
qed

lemma EncodeTuple_Ok_needs:
  assumes wf: "layout_wf L" and enc: "EncodeTuple L md vs = Ok b"
  shows "values_fit L vs" and "cursor L vs (ColumnCount L) \<le> HEAP_PAGE_MAX_RAW_TUPLE_SIZE"
    and "ValidateTupleHeader (encode_header L md (\<exists>v \<in> set vs. IsNullValue v)) = TH_NONE"
proof -
  from enc have count: "length vs = ColumnCount L"
    by (auto simp: EncodeTuple_def split: if_splits)
  from enc obtain nulls sz plan e where
    check: "check_values L 0 vs False [] = Ok (nulls, sz)"
    and plan: "PlanTupleSize L sz = Ok plan"
    and hdr: "EncodeTupleHeader (replicate 48 0) (encode_header L md nulls) = Some e"
    by (auto simp: EncodeTuple_def split: if_splits sum.splits option.splits prod.splits)
  have c: "list_all2 value_fits (tl_columns L) vs" "nulls = (\<exists>v \<in> set vs. IsNullValue v)"
    "sz = varlen_sizes_of (tl_columns L) vs"
    using check check_values_Ok_iff[of 0 vs L False "[]" "(nulls, sz)"] count
    by (simp_all add: ColumnCount_def)
  show fit: "values_fit L vs" using c(1) by (simp add: values_fit_list_all2)
  show "cursor L vs (ColumnCount L) \<le> HEAP_PAGE_MAX_RAW_TUPLE_SIZE"
    using plan PlanTupleSize_Ok_iff[of L sz plan] layout_facts(4)[OF wf] cursor_total[OF count]
      payload_total_varlen_sizes[OF c(1)] c(3) by simp
  show "ValidateTupleHeader (encode_header L md (\<exists>v \<in> set vs. IsNullValue v)) = TH_NONE"
    using hdr c(2) by (auto simp: EncodeTupleHeader_eq split: if_splits)
qed

lemma EncodeTuple_represents:
  assumes "layout_wf L" and "EncodeTuple L md vs = Ok b"
  shows "represents L (encode_header L md (\<exists>v \<in> set vs. IsNullValue v)) vs b"
  using EncodeTuple_eq[OF assms(1) EncodeTuple_Ok_needs[OF assms]] assms(2) by auto

end
