(* ===== verification/Tuple_Validate.thy ===== *)
theory Tuple_Validate
  imports Tuple_Repr
begin

text \<open>
  \<open>ValidateTuple\<close> accepts exactly the byte sequences that represent some values, and
  \<open>DecodeTupleValue\<close> returns those values.
\<close>

section \<open>The validation passes\<close>

definition descriptor_of :: "TuplePhysicalLayout \<Rightarrow> byte list \<Rightarrow> nat \<Rightarrow> VarcharDescriptor" where
  "descriptor_of L b i =
     \<lparr>vd_payload_offset = le_word (subspan 0 4 (field_of L b i)),
      vd_payload_length = le_word (subspan 4 4 (field_of L b i))\<rparr>"

text \<open>The payload bytes column \<open>i\<close> claims, and where they should start.\<close>

definition claimed_length :: "TuplePhysicalLayout \<Rightarrow> byte list \<Rightarrow> nat \<Rightarrow> nat" where
  "claimed_length L b i =
     (if cl_type (tl_columns L ! i) = VARCHAR \<and> \<not> null_bit (bitmap_of L b) i
      then unat (vd_payload_length (descriptor_of L b i)) else 0)"

definition claimed_start :: "TuplePhysicalLayout \<Rightarrow> byte list \<Rightarrow> nat \<Rightarrow> nat" where
  "claimed_start L b i =
     tl_varlen_payload_offset L + sum_list (map (claimed_length L b) [0..<i])"

definition varlen_ok :: "TuplePhysicalLayout \<Rightarrow> byte list \<Rightarrow> nat \<Rightarrow> bool" where
  "varlen_ok L b i \<longleftrightarrow>
     (cl_type (tl_columns L ! i) = VARCHAR \<longrightarrow>
       (if null_bit (bitmap_of L b) i then descriptor_of L b i = default_VarcharDescriptor
        else unat (vd_payload_offset (descriptor_of L b i)) = claimed_start L b i \<and>
          claimed_start L b (Suc i) \<le> length b))"

definition null_ok :: "TuplePhysicalLayout \<Rightarrow> byte list \<Rightarrow> nat \<Rightarrow> bool" where
  "null_ok L b i \<longleftrightarrow>
     (if null_bit (bitmap_of L b) i then cl_nullable (tl_columns L ! i)
      else cl_type (tl_columns L ! i) = BOOLEAN \<longrightarrow>
        (\<exists>v. DecodeFixedScalar BOOLEAN (field_of L b i) = Ok v))"

lemma DecodeVarcharDescriptor_field:
  "layout_wf L \<Longrightarrow> i < ColumnCount L \<Longrightarrow> tl_varlen_payload_offset L \<le> length b \<Longrightarrow>
   cl_type (tl_columns L ! i) = VARCHAR \<Longrightarrow>
   DecodeVarcharDescriptor (field_of L b i) = Ok (descriptor_of L b i)"
  by (simp add: DecodeVarcharDescriptor_eq length_field_of field_width_varchar descriptor_of_def)

lemma descriptor_of_iff:
  assumes "layout_wf L" and "i < ColumnCount L" and "tl_varlen_payload_offset L \<le> length b"
    and "cl_type (tl_columns L ! i) = VARCHAR"
  shows "descriptor_of L b i = d \<longleftrightarrow> field_of L b i = VarcharDescriptor_image d"
proof -
  have len: "length (field_of L b i) = 8"
    using assms by (simp add: length_field_of field_width_varchar)
  have "descriptor_of L b i = d \<longleftrightarrow> DecodeVarcharDescriptor (field_of L b i) = Ok d"
    using DecodeVarcharDescriptor_field[OF assms] by simp
  also have "\<dots> \<longleftrightarrow> field_of L b i = VarcharDescriptor_image d"
    using varchar_descriptor.decode_Some_iff[of "field_of L b i" d] len
    by (simp add: AsOptional_Some_iff)
  finally show ?thesis .
qed

lemma CheckedDescriptorEnd_eq:
  "CheckedDescriptorEnd d =
     (if unat (vd_payload_offset d) + unat (vd_payload_length d) < 4294967296
      then Some (vd_payload_offset d + vd_payload_length d) else None)"
proof -
  have "unat (0xFFFFFFFF - vd_payload_offset d) = 4294967295 - unat (vd_payload_offset d)"
    using unat_32_lt[of "vd_payload_offset d"]
    by (subst unat_sub) (auto simp: word_le_nat_alt)
  then show ?thesis
    using unat_32_lt[of "vd_payload_offset d"]
    by (auto simp: CheckedDescriptorEnd_def word_less_nat_alt)
qed

lemma CheckedDescriptorEnd_unat:
  "CheckedDescriptorEnd d = Some e \<Longrightarrow>
   unat e = unat (vd_payload_offset d) + unat (vd_payload_length d)"
  by (auto simp: CheckedDescriptorEnd_eq unat_word_ariths split: if_splits)

lemma CheckedDescriptorEnd_fits:
  assumes "unat (vd_payload_offset d) + unat (vd_payload_length d) < 4294967296"
  shows "\<exists>e. CheckedDescriptorEnd d = Some e \<and>
    unat e = unat (vd_payload_offset d) + unat (vd_payload_length d)"
proof -
  have "CheckedDescriptorEnd d = Some (vd_payload_offset d + vd_payload_length d)"
    using assms by (simp only: CheckedDescriptorEnd_eq if_True)
  then show ?thesis using CheckedDescriptorEnd_unat by blast
qed

lemma claimed_start_0 [simp]: "claimed_start L b 0 = tl_varlen_payload_offset L"
  by (simp add: claimed_start_def)

lemma claimed_start_Suc: "claimed_start L b (Suc i) = claimed_start L b i + claimed_length L b i"
  by (simp add: claimed_start_def)

lemma claimed_start_ge: "tl_varlen_payload_offset L \<le> claimed_start L b i"
  by (simp add: claimed_start_def)

lemma IsNull_bitmap_of:
  "layout_wf L \<Longrightarrow> tl_varlen_payload_offset L \<le> length b \<Longrightarrow> i < ColumnCount L \<Longrightarrow>
   IsNull (bitmap_of L b) (ColumnCount L) i = Ok (null_bit (bitmap_of L b) i)"
  using layout_facts[of L] by (simp add: IsNull_eq length_bitmap_of)

text \<open>One descriptor of the pass.\<close>

lemma varlen_pass_step:
  assumes wf: "layout_wf L" and i: "i < ColumnCount L"
    and V: "tl_varlen_payload_offset L \<le> length b" and max: "length b \<le> 8135"
  shows "varlen_pass L b (bitmap_of L b) i (drop i (tl_columns L)) (claimed_start L b i) = Ok e \<longleftrightarrow>
     varlen_ok L b i \<and>
     varlen_pass L b (bitmap_of L b) (Suc i) (drop (Suc i) (tl_columns L))
       (claimed_start L b (Suc i)) = Ok e"
proof -
  have d: "drop i (tl_columns L) = tl_columns L ! i # drop (Suc i) (tl_columns L)"
    using i by (simp add: Cons_nth_drop_Suc ColumnCount_def)
  show ?thesis
  proof (cases "cl_type (tl_columns L ! i) = VARCHAR")
    case False
    then show ?thesis by (simp add: d varlen_ok_def claimed_start_Suc claimed_length_def)
  next
    case True
    note dec = DecodeVarcharDescriptor_field[OF wf i V True] and nb = IsNull_bitmap_of[OF wf V i]
    show ?thesis
    proof (cases "null_bit (bitmap_of L b) i")
      case n: True
      then show ?thesis using True dec nb
        by (simp add: d varlen_ok_def claimed_start_Suc claimed_length_def flip: field_of_def)
    next
      case n: False
      define o' where "o' = unat (vd_payload_offset (descriptor_of L b i))"
      define l' where "l' = unat (vd_payload_length (descriptor_of L b i))"
      have suc: "claimed_start L b (Suc i) = claimed_start L b i + l'"
        using True n by (simp add: claimed_start_Suc claimed_length_def l'_def)
      show ?thesis
      proof (cases "o' = claimed_start L b i \<and> claimed_start L b (Suc i) \<le> length b")
        case ok: True
        then have "o' + l' < 4294967296" using suc max by simp
        then obtain e' where e': "CheckedDescriptorEnd (descriptor_of L b i) = Some e'"
          and "unat e' = o' + l'"
          using CheckedDescriptorEnd_fits[of "descriptor_of L b i", folded o'_def l'_def] by blast
        then show ?thesis
          using ok True n dec nb suc claimed_start_ge[of L b i]
          by (simp add: d varlen_ok_def flip: field_of_def o'_def)
      next
        case bad: False
        then have not_ok: "\<not> varlen_ok L b i"
          using True n by (simp add: varlen_ok_def o'_def)
        show ?thesis
        proof (cases "CheckedDescriptorEnd (descriptor_of L b i)")
          case None
          then show ?thesis using True n dec nb not_ok
            by (simp add: d flip: field_of_def)
        next
          case (Some e')
          have "unat e' = o' + l'" using CheckedDescriptorEnd_unat[OF Some] by (simp add: o'_def l'_def)
          then have "o' \<noteq> claimed_start L b i \<or> unat e' > length b" using bad suc by auto
          then show ?thesis using True n dec nb not_ok Some
            by (simp add: d flip: field_of_def o'_def)
        qed
      qed
    qed
  qed
qed

lemma all_from_split:
  "(i :: nat) < n \<Longrightarrow> (\<forall>k. i \<le> k \<and> k < n \<longrightarrow> P k) \<longleftrightarrow>
     P i \<and> (\<forall>k. Suc i \<le> k \<and> k < n \<longrightarrow> P k)"
  by (metis Suc_leD Suc_leI le_neq_implies_less order_refl)

lemma ex_from_split:
  "(i :: nat) < n \<Longrightarrow> (\<exists>k. i \<le> k \<and> k < n \<and> P k) \<longleftrightarrow>
     P i \<or> (\<exists>k. Suc i \<le> k \<and> k < n \<and> P k)"
  by (metis Suc_leD Suc_leI le_neq_implies_less order_refl)

lemma varlen_pass_Ok_iff:
  assumes wf: "layout_wf L" and V: "tl_varlen_payload_offset L \<le> length b"
    and max: "length b \<le> 8135" and "i \<le> ColumnCount L"
  shows "varlen_pass L b (bitmap_of L b) i (drop i (tl_columns L)) (claimed_start L b i) = Ok e \<longleftrightarrow>
     (\<forall>k. i \<le> k \<and> k < ColumnCount L \<longrightarrow> varlen_ok L b k) \<and> e = claimed_start L b (ColumnCount L)"
  using assms(4)
proof (induction "ColumnCount L - i" arbitrary: i)
  case 0
  then show ?case by (auto simp: ColumnCount_def)
next
  case (Suc m)
  then have i: "i < ColumnCount L" by simp
  have IH: "varlen_pass L b (bitmap_of L b) (Suc i) (drop (Suc i) (tl_columns L))
      (claimed_start L b (Suc i)) = Ok e \<longleftrightarrow>
      (\<forall>k. Suc i \<le> k \<and> k < ColumnCount L \<longrightarrow> varlen_ok L b k) \<and>
      e = claimed_start L b (ColumnCount L)"
    by (rule Suc.hyps(1)) (use Suc.hyps(2) i in linarith)+
  show ?case
    by (simp only: varlen_pass_step[OF wf i V max] IH all_from_split[OF i] conj_assoc)
qed

lemma null_pass_step:
  assumes wf: "layout_wf L" and i: "i < ColumnCount L"
    and V: "tl_varlen_payload_offset L \<le> length b"
  shows "null_pass L b (bitmap_of L b) i (drop i (tl_columns L)) hn = Ok r \<longleftrightarrow>
     null_ok L b i \<and>
     null_pass L b (bitmap_of L b) (Suc i) (drop (Suc i) (tl_columns L))
       (hn \<or> null_bit (bitmap_of L b) i) = Ok r"
proof -
  have d: "drop i (tl_columns L) = tl_columns L ! i # drop (Suc i) (tl_columns L)"
    using i by (simp add: Cons_nth_drop_Suc ColumnCount_def)
  show ?thesis
    using IsNull_bitmap_of[OF wf V i]
    by (cases "null_bit (bitmap_of L b) i")
      (auto simp: d null_ok_def simp flip: field_of_def split: sum.splits)
qed

lemma null_pass_Ok_iff:
  assumes wf: "layout_wf L" and V: "tl_varlen_payload_offset L \<le> length b" and "i \<le> ColumnCount L"
  shows "null_pass L b (bitmap_of L b) i (drop i (tl_columns L)) hn = Ok r \<longleftrightarrow>
     (\<forall>k. i \<le> k \<and> k < ColumnCount L \<longrightarrow> null_ok L b k) \<and>
     r = (hn \<or> (\<exists>k. i \<le> k \<and> k < ColumnCount L \<and> null_bit (bitmap_of L b) k))"
  using assms(3)
proof (induction "ColumnCount L - i" arbitrary: i hn)
  case 0
  then show ?case by (auto simp: ColumnCount_def)
next
  case (Suc m)
  then have i: "i < ColumnCount L" by simp
  have IH: "null_pass L b (bitmap_of L b) (Suc i) (drop (Suc i) (tl_columns L)) hn' = Ok r \<longleftrightarrow>
      (\<forall>k. Suc i \<le> k \<and> k < ColumnCount L \<longrightarrow> null_ok L b k) \<and>
      r = (hn' \<or> (\<exists>k. Suc i \<le> k \<and> k < ColumnCount L \<and> null_bit (bitmap_of L b) k))" for hn'
    by (rule Suc.hyps(1)) (use Suc.hyps(2) i in linarith)+
  show ?case
    by (simp only: null_pass_step[OF wf i V] IH all_from_split[OF i] ex_from_split[OF i]
        conj_assoc disj_assoc)
qed

section \<open>Validation is representability\<close>

lemma ValidateTuple_Ok_iff:
  assumes wf: "layout_wf L"
  shows "ValidateTuple L b = Ok h \<longleftrightarrow>
     tl_varlen_payload_offset L \<le> length b \<and> length b \<le> 8135 \<and> take 48 b = TupleHeader_image h \<and>
     header_fits L h (\<exists>k < ColumnCount L. null_bit (bitmap_of L b) k) \<and>
     (bitmap_of L b \<noteq> [] \<longrightarrow> last (bitmap_of L b) AND UnusedBitmapBitMask (ColumnCount L) = 0) \<and>
     (\<forall>k < ColumnCount L. null_ok L b k \<and> varlen_ok L b k) \<and>
     claimed_start L b (ColumnCount L) = length b"
proof (cases "tl_varlen_payload_offset L \<le> length b \<and> length b \<le> 8135")
  case True
  then have V: "tl_varlen_payload_offset L \<le> length b" and max: "length b \<le> 8135" by auto
  have np: "null_pass L b (bitmap_of L b) 0 (tl_columns L) False = Ok r \<longleftrightarrow>
      (\<forall>k < ColumnCount L. null_ok L b k) \<and> r = (\<exists>k < ColumnCount L. null_bit (bitmap_of L b) k)"
    for r using null_pass_Ok_iff[OF wf V, of 0 False r] by simp
  have vp: "varlen_pass L b (bitmap_of L b) 0 (tl_columns L) (tl_varlen_payload_offset L) = Ok e \<longleftrightarrow>
      (\<forall>k < ColumnCount L. varlen_ok L b k) \<and> e = claimed_start L b (ColumnCount L)"
    for e using varlen_pass_Ok_iff[OF wf V max, of 0 e] by simp
  have "48 \<le> length b" using layout_facts[OF wf] V by simp
  then have hd: "DecodeTupleHeader (take 48 b) = Ok h \<longleftrightarrow>
      ValidateTupleHeader h = TH_NONE \<and> take 48 b = TupleHeader_image h" for h
    using tuple_header.decode_Some_iff[of "take 48 b" h] by (auto simp: AsOptional_Some_iff)
  have "ValidateTuple L b = Ok h \<longleftrightarrow> DecodeTupleHeader (take 48 b) = Ok h \<and>
      th_schema_version h = tl_schema_version L \<and>
      th_null_bitmap_bytes h = tl_null_bitmap_bytes L \<and>
      (th_tuple_flags h AND TUPLE_FLAG_HAS_VARLEN \<noteq> 0) = HasVarlenColumns L \<and>
      (bitmap_of L b \<noteq> [] \<longrightarrow> last (bitmap_of L b) AND UnusedBitmapBitMask (ColumnCount L) = 0) \<and>
      null_pass L b (bitmap_of L b) 0 (tl_columns L) False =
        Ok (th_tuple_flags h AND TUPLE_FLAG_HAS_NULLS \<noteq> 0) \<and>
      varlen_pass L b (bitmap_of L b) 0 (tl_columns L) (tl_varlen_payload_offset L) = Ok (length b)"
    using V max unfolding bitmap_of_def
    by (auto simp: ValidateTuple_def MinimumTupleSize_def Let_def split: sum.splits if_splits)
  then show ?thesis unfolding np vp hd header_fits_def using V max by auto
next
  case False
  then show ?thesis by (auto simp: ValidateTuple_def MinimumTupleSize_def)
qed

lemma UnusedBitmapBitMask_bit:
  "bit (UnusedBitmapBitMask n) j \<longleftrightarrow> n mod 8 \<noteq> 0 \<and> n mod 8 \<le> j \<and> j < 8"
proof -
  have FF: "(0xFF :: 8 word) = mask 8" by (simp add: mask_eq_exp_minus_1)
  show ?thesis
    unfolding UnusedBitmapBitMask_def Let_def FF
    by (cases "n mod 8 = 0") (simp, simp only: if_False bit_push_bit_iff bit_mask_iff, auto)
qed

text \<open>The test of the last bitmap byte is the test of every bit no column owns.\<close>

lemma unused_bits:
  assumes "length bm = bitmap_bytes n"
  shows "(bm \<noteq> [] \<longrightarrow> last bm AND UnusedBitmapBitMask n = 0) \<longleftrightarrow>
     (\<forall>j. n \<le> j \<and> j < 8 * bitmap_bytes n \<longrightarrow> \<not> null_bit bm j)"
proof (cases "n mod 8 = 0")
  case True
  then have "UnusedBitmapBitMask n = 0" and "8 * bitmap_bytes n = n"
    using bitmap_bytes_eq[of n] by (auto simp: UnusedBitmapBitMask_def)
  then show ?thesis by auto
next
  case False
  define q where "q = n div 8"
  have n: "n = 8 * q + n mod 8" by (simp add: q_def)
  have m: "bitmap_bytes n = Suc q" using bitmap_bytes_eq[of n] False by (simp add: q_def)
  then have ne: "bm \<noteq> []" using assms by auto
  then have last: "last bm = bm ! q" using assms m by (simp add: last_conv_nth)
  have "last bm AND UnusedBitmapBitMask n = 0 \<longleftrightarrow>
      (\<forall>t. n mod 8 \<le> t \<and> t < 8 \<longrightarrow> \<not> bit (bm ! q) t)"
    using False unfolding last bit_eq_iff bit_and_iff UnusedBitmapBitMask_bit by auto
  also have "\<dots> \<longleftrightarrow> (\<forall>j. n \<le> j \<and> j < 8 * Suc q \<longrightarrow> \<not> null_bit bm j)"
  proof (intro iffI allI impI)
    fix j assume all: "\<forall>t. n mod 8 \<le> t \<and> t < 8 \<longrightarrow> \<not> bit (bm ! q) t" and "n \<le> j \<and> j < 8 * Suc q"
    then have j: "8 * q + n mod 8 \<le> j" "j < 8 * q + 8" using n by auto
    then have "j div 8 = q" by (intro div_nat_eqI) auto
    moreover from this have "n mod 8 \<le> j mod 8"
      using j div_mult_mod_eq[of j 8] by linarith
    ultimately show "\<not> null_bit bm j" using all by (simp add: null_bit_def)
  next
    fix t assume all: "\<forall>j. n \<le> j \<and> j < 8 * Suc q \<longrightarrow> \<not> null_bit bm j" and t: "n mod 8 \<le> t \<and> t < 8"
    then have "\<not> null_bit bm (8 * q + t)" using n by auto
    then show "\<not> bit (bm ! q) t" using t by (simp add: null_bit_def)
  qed
  finally show ?thesis using ne m by simp
qed

text \<open>From accepted bytes to the values they hold.\<close>

definition decoded_value :: "TuplePhysicalLayout \<Rightarrow> byte list \<Rightarrow> nat \<Rightarrow> TupleValue" where
  "decoded_value L b i =
     (if null_bit (bitmap_of L b) i then NullValue
      else if cl_type (tl_columns L ! i) = VARCHAR then
        VarcharValue (subspan (unat (vd_payload_offset (descriptor_of L b i)))
          (unat (vd_payload_length (descriptor_of L b i))) b)
      else (case DecodeFixedScalar (cl_type (tl_columns L ! i)) (field_of L b i) of
              Inl _ \<Rightarrow> NullValue | Inr v \<Rightarrow> v))"

lemma DecodeFixedScalar_total:
  "PhysicalTypeWidth t = Some w \<Longrightarrow> w \<le> length s \<Longrightarrow> t \<noteq> VARCHAR \<Longrightarrow> t \<noteq> BOOLEAN \<Longrightarrow>
   \<exists>v. DecodeFixedScalar t s = Ok v"
  by (cases t) (auto simp: DecodeFixedScalar_def decoded_or_too_small_def)

lemma decoded_scalar:
  assumes wf: "layout_wf L" and i: "i < ColumnCount L"
    and V: "tl_varlen_payload_offset L \<le> length b" and ok: "null_ok L b i"
    and nn: "\<not> null_bit (bitmap_of L b) i" and nv: "cl_type (tl_columns L ! i) \<noteq> VARCHAR"
  shows "scalar_ok (cl_type (tl_columns L ! i)) (decoded_value L b i)"
    and "field_of L b i = scalar_image (decoded_value L b i)"
proof -
  let ?t = "cl_type (tl_columns L ! i)"
  have len: "length (field_of L b i) = type_width ?t"
    using length_field_of[OF wf i V] field_bounds(3)[OF wf i] by simp
  obtain v where v: "DecodeFixedScalar ?t (field_of L b i) = Ok v"
    using DecodeFixedScalar_total[OF layout_wf_column(2)[OF wf i], of "field_of L b i"]
      ok nn nv length_field_of[OF wf i V] by (cases "?t = BOOLEAN") (auto simp: null_ok_def)
  then have "decoded_value L b i = v" using nn nv by (simp add: decoded_value_def)
  with v len show "scalar_ok ?t (decoded_value L b i)"
    "field_of L b i = scalar_image (decoded_value L b i)"
    by (simp_all add: DecodeFixedScalar_Some_iff)
qed

lemma IsNullValue_scalar_ok: "scalar_ok t v \<Longrightarrow> \<not> IsNullValue v"
  by (cases v) auto

lemma payload_scalar_ok: "scalar_ok t v \<Longrightarrow> payload v = []"
  by (cases v) auto

lemma decoded_value_null:
  assumes "layout_wf L" and "i < ColumnCount L" and "tl_varlen_payload_offset L \<le> length b"
    and "null_ok L b i"
  shows "IsNullValue (decoded_value L b i) = null_bit (bitmap_of L b) i"
  using decoded_scalar(1)[OF assms] IsNullValue_scalar_ok
  by (cases "null_bit (bitmap_of L b) i"; cases "cl_type (tl_columns L ! i) = VARCHAR")
    (auto simp: decoded_value_def)

lemma decoded_value_payload:
  assumes "layout_wf L" and "i < ColumnCount L" and "tl_varlen_payload_offset L \<le> length b"
    and "null_ok L b i" and "varlen_ok L b i"
  shows "length (payload (decoded_value L b i)) = claimed_length L b i"
proof (cases "cl_type (tl_columns L ! i) = VARCHAR \<and> \<not> null_bit (bitmap_of L b) i")
  case True
  then show ?thesis using assms(5)
    by (auto simp: varlen_ok_def decoded_value_def claimed_length_def claimed_start_Suc
        length_subspan_min)
next
  case False
  then show ?thesis
    using decoded_scalar(1)[OF assms(1-4)] payload_scalar_ok
    by (auto simp: claimed_length_def decoded_value_def)
qed

lemma cursor_claimed:
  assumes "\<And>k. k < n \<Longrightarrow> length (payload (vs ! k)) = claimed_length L b k" and "n \<le> length vs"
    and "i \<le> n"
  shows "cursor L vs i = claimed_start L b i"
  using assms(3)
proof (induction i)
  case (Suc i)
  then show ?case using assms(1)[of i] assms(2) by (simp add: cursor_Suc claimed_start_Suc)
qed simp

lemma decoded_column_repr:
  assumes wf: "layout_wf L" and i: "i < ColumnCount L"
    and V: "tl_varlen_payload_offset L \<le> length b" and ok: "null_ok L b i" "varlen_ok L b i"
    and v: "vs ! i = decoded_value L b i" and cur: "cursor L vs i = claimed_start L b i"
  shows "column_repr L vs b i" and "value_fits (tl_columns L ! i) (vs ! i)"
proof -
  note null = decoded_value_null[OF wf i V ok(1)]
  have "column_repr L vs b i \<and> value_fits (tl_columns L ! i) (vs ! i)"
  proof (cases "null_bit (bitmap_of L b) i")
    case True
    then have "vs ! i = NullValue" using v by (simp add: decoded_value_def)
    then show ?thesis
      using True ok descriptor_of_iff[OF wf i V]
      by (auto simp: column_repr_def varlen_ok_def null_ok_def value_fits_def subspan_def)
  next
    case nn: False
    show ?thesis
    proof (cases "cl_type (tl_columns L ! i) = VARCHAR")
      case True
      define d where "d = descriptor_of L b i"
      have d: "unat (vd_payload_offset d) = claimed_start L b i"
        "claimed_start L b i + unat (vd_payload_length d) \<le> length b"
        using ok(2) True nn
        by (auto simp: varlen_ok_def d_def claimed_start_Suc claimed_length_def)
      have vi: "vs ! i = VarcharValue (subspan (claimed_start L b i) (unat (vd_payload_length d)) b)"
        using v True nn d(1) by (simp add: decoded_value_def d_def)
      have "value_image (cursor L vs i) (vs ! i) = VarcharDescriptor_image d"
        using d by (cases d) (simp add: vi value_image_def cur flip: d(1))
      then show ?thesis
        using True nn d cur descriptor_of_iff[OF wf i V True, of d]
        by (simp add: column_repr_def vi value_fits_def d_def)
    next
      case False
      note dec = decoded_scalar[OF wf i V ok(1) nn False, folded v]
      have "payload (vs ! i) = []" "\<not> IsNullValue (vs ! i)"
        using dec(1) payload_scalar_ok IsNullValue_scalar_ok by blast+
      moreover have "value_image c (vs ! i) = scalar_image (vs ! i)" for c
        using dec(1) by (cases "vs ! i") (auto simp: value_image_def)
      ultimately show ?thesis
        using dec nn False by (simp add: column_repr_def value_fits_def scalar_ok_def subspan_def)
    qed
  qed
  then show "column_repr L vs b i" and "value_fits (tl_columns L ! i) (vs ! i)" by auto
qed

lemma ex_set_nth: "(\<exists>v \<in> set vs. P v) \<longleftrightarrow> (\<exists>k < length vs. P (vs ! k))"
  by (metis in_set_conv_nth)

lemma ex_less_cong: "(\<And>k. k < n \<Longrightarrow> P k = Q k) \<Longrightarrow> (\<exists>k < n. P k) = (\<exists>k < (n :: nat). Q k)"
  by auto

lemma ValidateTuple_represents:
  assumes wf: "layout_wf L" and "ValidateTuple L b = Ok h"
  shows "represents L h (map (decoded_value L b) [0..<ColumnCount L]) b"
proof -
  define vs where "vs = map (decoded_value L b) [0..<ColumnCount L]"
  note ok = assms(2)[unfolded ValidateTuple_Ok_iff[OF wf]]
  then have V: "tl_varlen_payload_offset L \<le> length b" by simp
  have vs: "vs ! k = decoded_value L b k" if "k < ColumnCount L" for k
    using that by (simp add: vs_def)
  have len: "length vs = ColumnCount L" by (simp add: vs_def)
  have cur: "cursor L vs k = claimed_start L b k" if "k \<le> ColumnCount L" for k
    by (rule cursor_claimed[of "ColumnCount L"])
      (use that len ok V wf in \<open>auto simp: vs intro!: decoded_value_payload\<close>)
  have col: "column_repr L vs b k \<and> value_fits (tl_columns L ! k) (vs ! k)"
    if "k < ColumnCount L" for k
    using decoded_column_repr[OF wf that V, of vs] ok that cur[of k] vs[OF that] by simp
  have nulls: "(\<exists>v \<in> set vs. IsNullValue v) = (\<exists>k < ColumnCount L. null_bit (bitmap_of L b) k)"
    unfolding ex_set_nth len
    by (rule ex_less_cong) (use decoded_value_null[OF wf _ V] ok vs in simp)
  have "values_fit L vs" using len col by (simp add: values_fit_def)
  moreover have "\<forall>j. ColumnCount L \<le> j \<and> j < 8 * NullBitmapSize L \<longrightarrow> \<not> null_bit (bitmap_of L b) j"
    using unused_bits[of "bitmap_of L b" "ColumnCount L"] ok length_bitmap_of[OF wf V]
      layout_facts(1)[OF wf] by simp
  ultimately have "represents L h vs b"
    using ok col cur[of "ColumnCount L"] nulls by (simp add: represents_def)
  then show ?thesis by (simp add: vs_def)
qed

section \<open>Every representation is accepted and read back\<close>

lemma represents_column:
  assumes wf: "layout_wf L" and r: "represents L h vs b" and i: "i < ColumnCount L"
  shows "tl_varlen_payload_offset L \<le> length b" and "column_repr L vs b i"
    and "null_bit (bitmap_of L b) i = IsNullValue (vs ! i)"
    and "value_fits (tl_columns L ! i) (vs ! i)"
    and "cursor L vs i + length (payload (vs ! i)) \<le> length b" and "length b \<le> 8135"
  using r i cursor_ge[of L vs "ColumnCount L"] cursor_end[OF i, of vs]
  by (auto simp: represents_def values_fit_def column_repr_def)

lemma represents_descriptor:
  assumes wf: "layout_wf L" and r: "represents L h vs b" and i: "i < ColumnCount L"
    and vc: "cl_type (tl_columns L ! i) = VARCHAR" and nn: "\<not> IsNullValue (vs ! i)"
  shows "vs ! i = VarcharValue (payload (vs ! i))"
    and "unat (vd_payload_offset (descriptor_of L b i)) = cursor L vs i"
    and "unat (vd_payload_length (descriptor_of L b i)) = length (payload (vs ! i))"
proof -
  note f = represents_column[OF wf r i]
  obtain bs where v: "vs ! i = VarcharValue bs"
    using f(4) nn vc by (auto simp: value_fits_def varchar_fits)
  then show "vs ! i = VarcharValue (payload (vs ! i))" by simp
  have "field_of L b i = VarcharDescriptor_image
      \<lparr>vd_payload_offset = of_nat (cursor L vs i), vd_payload_length = of_nat (length bs)\<rparr>"
    using f(2) nn by (simp add: column_repr_def v value_image_def)
  then have "descriptor_of L b i =
      \<lparr>vd_payload_offset = of_nat (cursor L vs i), vd_payload_length = of_nat (length bs)\<rparr>"
    by (simp add: descriptor_of_iff[OF wf i f(1) vc])
  then show "unat (vd_payload_offset (descriptor_of L b i)) = cursor L vs i"
    "unat (vd_payload_length (descriptor_of L b i)) = length (payload (vs ! i))"
    using f(5,6) v by (simp_all add: unat_of_nat_32)
qed

lemma represents_claimed:
  assumes wf: "layout_wf L" and r: "represents L h vs b"
  shows "i \<le> ColumnCount L \<Longrightarrow> cursor L vs i = claimed_start L b i"
proof (rule cursor_claimed[of "ColumnCount L"])
  fix k assume k: "k < ColumnCount L"
  note f = represents_column[OF wf r k]
  show "length (payload (vs ! k)) = claimed_length L b k"
  proof (cases "cl_type (tl_columns L ! k) = VARCHAR \<and> \<not> IsNullValue (vs ! k)")
    case True
    then show ?thesis using represents_descriptor(3)[OF wf r k] f(3) by (simp add: claimed_length_def)
  next
    case False
    then have "payload (vs ! k) = []"
      using payload_not_varchar[OF f(4)] by (cases "vs ! k") auto
    then show ?thesis using False f(3) by (auto simp: claimed_length_def)
  qed
qed (use r in \<open>simp_all add: represents_def values_fit_def\<close>)

lemma represents_scalar:
  assumes wf: "layout_wf L" and r: "represents L h vs b" and i: "i < ColumnCount L"
    and nv: "cl_type (tl_columns L ! i) \<noteq> VARCHAR" and nn: "\<not> IsNullValue (vs ! i)"
  shows "DecodeFixedScalar (cl_type (tl_columns L ! i)) (field_of L b i) = Ok (vs ! i)"
proof -
  note f = represents_column[OF wf r i]
  note ok = fixed_fits[OF f(4) nv nn]
  have "field_of L b i = scalar_image (vs ! i)"
    using f(2) nn ok by (simp add: column_repr_def)
  then show ?thesis
    using ok length_scalar_image[of "cl_type (tl_columns L ! i)" "vs ! i"]
    by (simp add: DecodeFixedScalar_Some_iff)
qed

lemma represents_ok:
  assumes wf: "layout_wf L" and r: "represents L h vs b" and i: "i < ColumnCount L"
  shows "null_ok L b i" and "varlen_ok L b i"
proof -
  note f = represents_column[OF wf r i]
  show "null_ok L b i"
    using f represents_scalar[OF wf r i] by (auto simp: null_ok_def value_fits_def)
  show "varlen_ok L b i"
  proof (cases "cl_type (tl_columns L ! i) = VARCHAR")
    case True
    show ?thesis
    proof (cases "IsNullValue (vs ! i)")
      case n: True
      then show ?thesis using f(2,3) True descriptor_of_iff[OF wf i f(1) True]
        by (simp add: varlen_ok_def column_repr_def)
    next
      case nn: False
      have "claimed_start L b (Suc i) = cursor L vs i + length (payload (vs ! i))"
        using represents_claimed[OF wf r] i True nn f(3) represents_descriptor(3)[OF wf r i True nn]
        by (simp add: claimed_start_Suc claimed_length_def)
      then show ?thesis
        using True nn f represents_descriptor(2)[OF wf r i True nn] represents_claimed[OF wf r] i
        by (simp add: varlen_ok_def)
    qed
  qed (simp add: varlen_ok_def)
qed

lemma represents_ValidateTuple:
  assumes wf: "layout_wf L" and r: "represents L h vs b"
  shows "ValidateTuple L b = Ok h"
proof -
  have V: "tl_varlen_payload_offset L \<le> length b" and max: "length b \<le> 8135"
    and len: "length vs = ColumnCount L"
    using r cursor_ge[of L vs "ColumnCount L"] by (auto simp: represents_def values_fit_def)
  have "(\<exists>v \<in> set vs. IsNullValue v) = (\<exists>k < ColumnCount L. null_bit (bitmap_of L b) k)"
    unfolding ex_set_nth len by (rule ex_less_cong) (use represents_column(3)[OF wf r] in simp)
  moreover have "bitmap_of L b \<noteq> [] \<longrightarrow> last (bitmap_of L b) AND UnusedBitmapBitMask (ColumnCount L) = 0"
    using unused_bits[of "bitmap_of L b" "ColumnCount L"] r length_bitmap_of[OF wf V]
      layout_facts(1)[OF wf] by (simp add: represents_def)
  ultimately show ?thesis
    unfolding ValidateTuple_Ok_iff[OF wf]
    using r V max represents_ok[OF wf r] represents_claimed[OF wf r, of "ColumnCount L"]
    by (simp add: represents_def)
qed

lemma represents_DecodeTupleValue:
  assumes wf: "layout_wf L" and r: "represents L h vs b" and i: "i < ColumnCount L"
  shows "DecodeTupleValue L b i = Ok (vs ! i)"
proof -
  note f = represents_column[OF wf r i]
  have nb: "IsNull (subspan 48 (NullBitmapSize L) b) (ColumnCount L) i = Ok (IsNullValue (vs ! i))"
    using IsNull_bitmap_of[OF wf f(1) i] f(3) by (simp add: bitmap_of_def)
  have null: "vs ! i = NullValue" if "IsNullValue (vs ! i)"
    using that by (cases "vs ! i") auto
  show ?thesis
    using i represents_ValidateTuple[OF wf r] nb null
      DecodeVarcharDescriptor_field[OF wf i f(1)] represents_descriptor[OF wf r i]
      represents_scalar[OF wf r i] f(2)
    by (cases "IsNullValue (vs ! i)"; cases "cl_type (tl_columns L ! i) = VARCHAR")
      (auto simp: DecodeTupleValue_def column_repr_def Let_def simp flip: field_of_def)
qed

lemma represents_inject:
  assumes wf: "layout_wf L" and r: "represents L h vs b" and r': "represents L h' ws b"
  shows "h = h'" and "vs = ws"
proof -
  show "h = h'" using represents_ValidateTuple[OF wf r] represents_ValidateTuple[OF wf r'] by simp
  show "vs = ws"
  proof (rule nth_equalityI)
    show len: "length vs = length ws" using r r' by (simp add: represents_def values_fit_def)
    fix i assume "i < length vs"
    then have i: "i < ColumnCount L" using r by (simp add: represents_def values_fit_def)
    show "vs ! i = ws ! i"
      using represents_DecodeTupleValue[OF wf r i] represents_DecodeTupleValue[OF wf r' i] by simp
  qed
qed

end
