(* ===== verification/Heap_Validate.thy ===== *)
theory Heap_Validate
  imports Tuple_Validate
begin

text \<open>
  Validation of a heap page: the data of \<open>src/src/storage/heap/heap_page.h\<close> and the passes
  \<open>HeapPage::ValidateWith\<close> of \<open>heap_page.cpp\<close> runs, in their order. The fixed arrays of
  \<open>SlotDirectory\<close> are lists of 1018 entries, its counted array \<open>retained_order\<close> is the
  list of its first \<open>retained_count\<close> entries, and a \<open>std::bitset\<close> over slots is the
  set of its set positions.
\<close>

datatype HeapPageValidationError =
    HV_NONE | COMMON_HEADER_DECODE_FAILED | WRONG_PAGE_TYPE | WRONG_PAGE_NUMBER | INVALID_PAGE_NUMBER
  | WRONG_HEADER_SIZE | UNSUPPORTED_FORMAT_VERSION | NONZERO_COMMON_FLAGS | NONZERO_COMMON_RESERVED
  | HEAP_HEADER_DECODE_FAILED | NONZERO_HEAP_RESERVED | LOWER_BEFORE_HEADER | UPPER_AFTER_PAGE
  | LOWER_AFTER_UPPER | SLOT_DIRECTORY_OUT_OF_BOUNDS | SLOT_COUNT_LOWER_MISMATCH | INVALID_SLOT_STATE
  | UNSUPPORTED_RESERVED_STATE | NONZERO_SLOT_AUX | EMPTY_NORMAL_TUPLE | NONCANONICAL_DEAD_SLOT
  | RETAINED_TUPLE_OUT_OF_BOUNDS | OVERLAPPING_TUPLE_RANGES | UNRESOLVED_SCHEMA_VERSION
  | INVALID_TUPLE | INVALID_TUPLE_TRANSACTION_FIELDS | INVALID_PREVIOUS_VERSION_POINTER
  | NONCANONICAL_UNUSED_SLOT | INVALID_FREE_SLOT_HEAD | INVALID_FREE_SLOT_LINK | FREE_SLOT_CYCLE
  | FREE_SLOT_MEMBERSHIP_MISMATCH

record HeapPageHeaders =
  hh_common :: CommonPageHeader
  hh_heap :: HeapPageHeader

record HeapPageValidationFailure =
  vf_code :: HeapPageValidationError
  vf_slot_id :: SlotId
  vf_other_slot_id :: SlotId
  vf_tuple_error :: TupleCodecError
  vf_tuple_header_error :: TupleHeaderDecodeError

text \<open>A failure with every member but the code and the slot at its default.\<close>

definition SlotFailureValue :: "HeapPageValidationError \<Rightarrow> SlotId \<Rightarrow> HeapPageValidationFailure" where
  "SlotFailureValue error slot_id =
     \<lparr>vf_code = error, vf_slot_id = slot_id, vf_other_slot_id = INVALID_SLOT_ID,
      vf_tuple_error = TC_NONE, vf_tuple_header_error = TH_NONE\<rparr>"

type_synonym HeapPageValidationStatus = "HeapPageValidationFailure status"

definition SlotFailure :: "HeapPageValidationError \<Rightarrow> SlotId \<Rightarrow> ('t, HeapPageValidationFailure) result" where
  "SlotFailure error slot_id = Unexpected (SlotFailureValue error slot_id)"

definition ValidationFailure :: "HeapPageValidationError \<Rightarrow> ('t, HeapPageValidationFailure) result" where
  "ValidationFailure error = Unexpected (SlotFailureValue error INVALID_SLOT_ID)"

section \<open>The schema history\<close>

type_synonym HeapTupleSchemaHistory = "TuplePhysicalLayout list"

fun find_layout :: "TuplePhysicalLayout list \<Rightarrow> SchemaVer \<Rightarrow> TuplePhysicalLayout option" where
  "find_layout [] schema_version = None"
| "find_layout (layout # layouts) schema_version =
     (if tl_schema_version layout = schema_version then Some layout
      else find_layout layouts schema_version)"

definition Resolve :: "HeapTupleSchemaHistory \<Rightarrow> SchemaVer \<Rightarrow> TuplePhysicalLayout option" where
  "Resolve layouts schema_version =
     (if schema_version = 0 then None else find_layout layouts schema_version)"

section \<open>One slot and one tuple\<close>

definition MAX_HEAP_PAGE_SLOT_COUNT :: nat where [layout, simp]:
  "MAX_HEAP_PAGE_SLOT_COUNT =
     (PAGE_SIZE - HEAP_PAGE_SLOT_DIRECTORY_OFFSET) div HEAP_PAGE_SLOT_ENTRY_ENCODED_SIZE"

definition IsValidHeapPageNumber :: "PageNo \<Rightarrow> bool" where
  "IsValidHeapPageNumber n = (n \<noteq> 0 \<and> n \<noteq> INVALID_PAGE_NO)"

definition ValidateSlotDescriptor :: "HeapSlotEntry \<Rightarrow> 16 word \<Rightarrow> HeapPageValidationError" where
  "ValidateSlotDescriptor e upper =
     (if se_state e = UNUSED then
        (if se_tuple_offset e \<noteq> 0 \<or> se_tuple_length e \<noteq> 0 then NONCANONICAL_UNUSED_SLOT else HV_NONE)
      else if se_state e = REDIRECT_RESERVED then UNSUPPORTED_RESERVED_STATE
      else if se_aux e \<noteq> 0 then NONZERO_SLOT_AUX
      else
        (let zero_offset = (se_tuple_offset e = 0); zero_length = (se_tuple_length e = 0);
             bounds =
               (if unat (se_tuple_offset e) < unat upper
                   \<or> unat (se_tuple_offset e) + unat (se_tuple_length e) > PAGE_SIZE
                then RETAINED_TUPLE_OUT_OF_BOUNDS else HV_NONE)
         in if se_state e = DEAD then
              (if zero_offset \<and> zero_length then HV_NONE
               else if zero_offset \<noteq> zero_length then NONCANONICAL_DEAD_SLOT else bounds)
            else if zero_length then EMPTY_NORMAL_TUPLE else bounds))"

record TupleCheck =
  tc_error :: HeapPageValidationError
  tc_tuple_error :: TupleCodecError
  tc_tuple_header_error :: TupleHeaderDecodeError

definition tuple_check :: "HeapPageValidationError \<Rightarrow> TupleCheck" where
  "tuple_check error =
     \<lparr>tc_error = error, tc_tuple_error = TC_NONE, tc_tuple_header_error = TH_NONE\<rparr>"

definition ValidateTupleForSlot ::
    "byte list \<Rightarrow> HeapTupleSchemaHistory \<Rightarrow> Rid \<Rightarrow> 16 word \<Rightarrow> TupleCheck" where
  "ValidateTupleForSlot tuple schema_history rid slot_count =
     (case DecodeTupleHeader tuple of
        Inl e \<Rightarrow> \<lparr>tc_error = INVALID_TUPLE, tc_tuple_error = MALFORMED_TUPLE,
                 tc_tuple_header_error = e\<rparr>
      | Inr header \<Rightarrow>
          (case Resolve schema_history (th_schema_version header) of
             None \<Rightarrow> tuple_check UNRESOLVED_SCHEMA_VERSION
           | Some layout \<Rightarrow>
               (case ValidateTuple layout tuple of
                  Inl e \<Rightarrow> \<lparr>tc_error = INVALID_TUPLE, tc_tuple_error = tf_code e,
                           tc_tuple_header_error = tf_header_error e\<rparr>
                | Inr _ \<Rightarrow>
                    (let xmin_valid = (th_xmin header \<noteq> INVALID_TXN_ID);
                         xmax_valid = (th_xmax header \<noteq> FROZEN_TXN_ID);
                         cmax_valid = (th_xmax header \<noteq> INVALID_TXN_ID \<or> th_cmax header = 0);
                         ordinary_page = (th_prev_page_no header \<noteq> 0);
                         same_page = (th_prev_page_no header = page_no (page rid));
                         self_reference = (same_page \<and> th_prev_slot header = slot rid);
                         same_page_out_of_range = (same_page \<and> th_prev_slot header \<ge> slot_count)
                     in if \<not> xmin_valid \<or> \<not> xmax_valid \<or> \<not> cmax_valid
                        then tuple_check INVALID_TUPLE_TRANSACTION_FIELDS
                        else if th_prev_page_no header \<noteq> INVALID_PAGE_NO
                          \<and> (\<not> ordinary_page \<or> self_reference \<or> same_page_out_of_range)
                        then tuple_check INVALID_PREVIOUS_VERSION_POINTER
                        else tuple_check HV_NONE))))"

section \<open>The headers\<close>

definition ValidateCommonHeader :: "CommonPageHeader \<Rightarrow> PageNo \<Rightarrow> HeapPageValidationError" where
  "ValidateCommonHeader header expected_page_no =
     (if ch_page_type header \<noteq> HEAP_DATA then WRONG_PAGE_TYPE
      else if ch_page_no header \<noteq> expected_page_no then WRONG_PAGE_NUMBER
      else if \<not> IsValidHeapPageNumber expected_page_no then INVALID_PAGE_NUMBER
      else if ch_header_size header \<noteq> of_nat HEAP_PAGE_TOTAL_HEADER_SIZE then WRONG_HEADER_SIZE
      else if ch_format_version header \<noteq> HEAP_PAGE_FORMAT_VERSION then UNSUPPORTED_FORMAT_VERSION
      else if ch_flags header \<noteq> 0 then NONZERO_COMMON_FLAGS
      else if ch_reserved16 header \<noteq> 0 then NONZERO_COMMON_RESERVED
      else HV_NONE)"

definition ValidateHeapHeaderGeometry :: "HeapPageHeader \<Rightarrow> HeapPageValidationError" where
  "ValidateHeapHeaderGeometry header =
     (let slot_directory_size = unat (hp_slot_count header) * HEAP_PAGE_SLOT_ENTRY_ENCODED_SIZE
      in if hp_reserved header \<noteq> 0 then NONZERO_HEAP_RESERVED
         else if unat (hp_lower header) < HEAP_PAGE_TOTAL_HEADER_SIZE then LOWER_BEFORE_HEADER
         else if unat (hp_upper header) > PAGE_SIZE then UPPER_AFTER_PAGE
         else if hp_lower header > hp_upper header then LOWER_AFTER_UPPER
         else if slot_directory_size > PAGE_SIZE - HEAP_PAGE_SLOT_DIRECTORY_OFFSET
           then SLOT_DIRECTORY_OUT_OF_BOUNDS
         else if unat (hp_lower header) \<noteq> HEAP_PAGE_SLOT_DIRECTORY_OFFSET + slot_directory_size
           then SLOT_COUNT_LOWER_MISMATCH
         else HV_NONE)"

section \<open>Pass 1: the slot directory\<close>

record SlotDirectory =
  sd_slot_count :: "16 word"
  sd_slots :: "HeapSlotEntry list"
  sd_retained_order :: "SlotId list"
  sd_unused_slots :: "SlotId set"

definition SlotDirectory_new :: "16 word \<Rightarrow> SlotDirectory" where
  "SlotDirectory_new slot_count =
     \<lparr>sd_slot_count = slot_count,
      sd_slots = replicate MAX_HEAP_PAGE_SLOT_COUNT default_HeapSlotEntry,
      sd_retained_order = [], sd_unused_slots = {}\<rparr>"

definition slot_bytes :: "byte list \<Rightarrow> nat \<Rightarrow> byte list" where
  "slot_bytes page_bytes index =
     subspan (HEAP_PAGE_SLOT_DIRECTORY_OFFSET + index * HEAP_PAGE_SLOT_ENTRY_ENCODED_SIZE)
       HEAP_PAGE_SLOT_ENTRY_ENCODED_SIZE page_bytes"

definition slot_decode_error :: "HeapSlotEntryDecodeError \<Rightarrow> HeapPageValidationError" where
  "slot_decode_error e =
     (if e = SLOT_INVALID_STATE then INVALID_SLOT_STATE else SLOT_DIRECTORY_OUT_OF_BOUNDS)"

text \<open>The loop, with \<open>n\<close> slots still to decode from \<open>index\<close> on.\<close>

fun decode_slots ::
    "byte list \<Rightarrow> 16 word \<Rightarrow> nat \<Rightarrow> nat \<Rightarrow> SlotDirectory \<Rightarrow>
     (SlotDirectory, HeapPageValidationFailure) result" where
  "decode_slots page_bytes upper 0 index directory = Ok directory"
| "decode_slots page_bytes upper (Suc n) index directory =
     (case DecodeHeapSlotEntry (slot_bytes page_bytes index) of
        Inl e \<Rightarrow> SlotFailure (slot_decode_error e) (of_nat index)
      | Inr e \<Rightarrow>
          (let directory = directory\<lparr>sd_slots := (sd_slots directory)[index := e]\<rparr>
           in if ValidateSlotDescriptor e upper \<noteq> HV_NONE
              then SlotFailure (ValidateSlotDescriptor e upper) (of_nat index)
              else decode_slots page_bytes upper n (index + 1)
                (if se_state e = UNUSED
                 then directory\<lparr>sd_unused_slots := insert (of_nat index) (sd_unused_slots directory)\<rparr>
                 else if se_tuple_length e \<noteq> 0
                 then directory\<lparr>sd_retained_order := sd_retained_order directory @ [of_nat index]\<rparr>
                 else directory)))"

definition DecodeSlotDirectory ::
    "byte list \<Rightarrow> 16 word \<Rightarrow> SlotDirectory \<Rightarrow> (SlotDirectory, HeapPageValidationFailure) result" where
  "DecodeSlotDirectory page_bytes upper directory =
     decode_slots page_bytes upper (unat (sd_slot_count directory)) 0 directory"

section \<open>Pass 2: disjoint ranges\<close>

text \<open>The sort's order is the lexicographic one on (offset, length, slot), whose keys are
  distinct, so that \<open>sort_key\<close> is the one possible result.\<close>

definition retained_key :: "HeapSlotEntry list \<Rightarrow> SlotId \<Rightarrow> 16 word \<times> 16 word \<times> SlotId" where
  "retained_key slots s =
     (se_tuple_offset (slots ! unat s), se_tuple_length (slots ! unat s), s)"

definition range_end :: "HeapSlotEntry \<Rightarrow> nat" where
  "range_end e = unat (se_tuple_offset e) + unat (se_tuple_length e)"

fun check_neighbours :: "HeapSlotEntry list \<Rightarrow> SlotId list \<Rightarrow> HeapPageValidationStatus" where
  "check_neighbours slots (previous # current # retained) =
     (if unat (se_tuple_offset (slots ! unat current)) < range_end (slots ! unat previous)
      then Unexpected ((SlotFailureValue OVERLAPPING_TUPLE_RANGES current)
             \<lparr>vf_other_slot_id := previous\<rparr>)
      else check_neighbours slots (current # retained))"
| "check_neighbours slots _ = Ok ()"

definition CheckRetainedRangesDisjoint :: "SlotDirectory \<Rightarrow> HeapPageValidationStatus" where
  "CheckRetainedRangesDisjoint directory =
     check_neighbours (sd_slots directory)
       (sort_key (retained_key (sd_slots directory)) (sd_retained_order directory))"

section \<open>Pass 3: the tuples\<close>

fun validate_retained ::
    "byte list \<Rightarrow> PageId \<Rightarrow> HeapTupleSchemaHistory \<Rightarrow> SlotDirectory \<Rightarrow> nat \<Rightarrow> nat \<Rightarrow>
     HeapPageValidationStatus" where
  "validate_retained page_bytes pid schema_history directory 0 index = Ok ()"
| "validate_retained page_bytes pid schema_history directory (Suc n) index =
     (let e = sd_slots directory ! index
      in if se_state e = UNUSED \<or> se_tuple_length e = 0
         then validate_retained page_bytes pid schema_history directory n (index + 1)
         else
           (let check = ValidateTupleForSlot
                  (subspan (unat (se_tuple_offset e)) (unat (se_tuple_length e)) page_bytes)
                  schema_history (Rid pid (of_nat index)) (sd_slot_count directory)
            in if tc_error check \<noteq> HV_NONE
               then Unexpected \<lparr>vf_code = tc_error check, vf_slot_id = of_nat index,
                      vf_other_slot_id = INVALID_SLOT_ID, vf_tuple_error = tc_tuple_error check,
                      vf_tuple_header_error = tc_tuple_header_error check\<rparr>
               else validate_retained page_bytes pid schema_history directory n (index + 1)))"

definition ValidateRetainedTuples ::
    "byte list \<Rightarrow> PageId \<Rightarrow> HeapTupleSchemaHistory \<Rightarrow> SlotDirectory \<Rightarrow> HeapPageValidationStatus" where
  "ValidateRetainedTuples page_bytes pid schema_history directory =
     validate_retained page_bytes pid schema_history directory (unat (sd_slot_count directory)) 0"

section \<open>Pass 4: the free-slot chain\<close>

definition is_unused :: "SlotDirectory \<Rightarrow> SlotId \<Rightarrow> bool" where
  "is_unused directory s = (s < sd_slot_count directory \<and> s \<in> sd_unused_slots directory)"

fun check_links :: "SlotDirectory \<Rightarrow> nat \<Rightarrow> nat \<Rightarrow> HeapPageValidationStatus" where
  "check_links directory 0 index = Ok ()"
| "check_links directory (Suc n) index =
     (if of_nat index \<notin> sd_unused_slots directory then check_links directory n (index + 1)
      else
        (let next_slot_id = se_aux (sd_slots directory ! index)
         in if next_slot_id \<noteq> INVALID_SLOT_ID \<and> \<not> is_unused directory next_slot_id
            then SlotFailure INVALID_FREE_SLOT_LINK (of_nat index)
            else check_links directory n (index + 1)))"

text \<open>The walk along the chain ends: each step visits a slot not visited before.\<close>

function walk_chain ::
    "HeapSlotEntry list \<Rightarrow> SlotId set \<Rightarrow> SlotId \<Rightarrow> (SlotId set, HeapPageValidationFailure) result" where
  "walk_chain slots visited current =
     (if current = INVALID_SLOT_ID then Ok visited
      else if current \<in> visited then SlotFailure FREE_SLOT_CYCLE current
      else walk_chain slots (insert current visited) (se_aux (slots ! unat current)))"
  by pat_completeness auto

termination
proof (relation "measure (\<lambda>(slots, visited, current). card (UNIV - visited))")
  fix slots :: "HeapSlotEntry list" and visited :: "SlotId set" and current :: SlotId
  assume "current \<notin> visited"
  then have "UNIV - insert current visited \<subset> UNIV - visited" by auto
  then have "card (UNIV - insert current visited) < card (UNIV - visited)"
    by (rule psubset_card_mono[rotated]) simp
  then show "((slots, insert current visited, se_aux (slots ! unat current)), slots, visited, current)
      \<in> measure (\<lambda>(slots, visited, current). card (UNIV - visited))" by simp
qed simp

declare walk_chain.simps [simp del]

fun check_membership :: "SlotDirectory \<Rightarrow> SlotId set \<Rightarrow> nat \<Rightarrow> nat \<Rightarrow> HeapPageValidationStatus" where
  "check_membership directory visited 0 index = Ok ()"
| "check_membership directory visited (Suc n) index =
     (if of_nat index \<in> sd_unused_slots directory \<and> of_nat index \<notin> visited
      then SlotFailure FREE_SLOT_MEMBERSHIP_MISMATCH (of_nat index)
      else check_membership directory visited n (index + 1))"

definition ValidateFreeSlotChain :: "SlotDirectory \<Rightarrow> SlotId \<Rightarrow> HeapPageValidationStatus" where
  "ValidateFreeSlotChain directory free_slot_head =
     (case check_links directory (unat (sd_slot_count directory)) 0 of
        Inl e \<Rightarrow> Unexpected e
      | Inr _ \<Rightarrow>
          if free_slot_head \<noteq> INVALID_SLOT_ID \<and> \<not> is_unused directory free_slot_head
          then SlotFailure INVALID_FREE_SLOT_HEAD free_slot_head
          else
            (case walk_chain (sd_slots directory) {} free_slot_head of
               Inl e \<Rightarrow> Unexpected e
             | Inr visited \<Rightarrow>
                 if visited \<noteq> sd_unused_slots directory
                 then check_membership directory visited (unat (sd_slot_count directory)) 0
                 else Ok ()))"

section \<open>The passes together\<close>

datatype TupleChecks = ALL_TUPLES | SKIP_TUPLES

definition HeapPage_Header :: "Page \<Rightarrow> HeapPageHeader option" where
  "HeapPage_Header p =
     DecodeHeapPageHeader
       (subspan HEAP_PAGE_HEADER_OFFSET HEAP_PAGE_HEADER_ENCODED_SIZE (Page_bytes p))"

definition ValidateWith ::
    "HeapTupleSchemaHistory \<Rightarrow> Page \<Rightarrow> TupleChecks \<Rightarrow>
     (HeapPageHeaders, HeapPageValidationFailure) result" where
  "ValidateWith schema_history p tuple_checks =
     (case Page_DecodeHeader p of
        None \<Rightarrow> ValidationFailure COMMON_HEADER_DECODE_FAILED
      | Some common_header \<Rightarrow>
          if ValidateCommonHeader common_header (page_no (Page_id p)) \<noteq> HV_NONE
          then ValidationFailure (ValidateCommonHeader common_header (page_no (Page_id p)))
          else
            (case HeapPage_Header p of
               None \<Rightarrow> ValidationFailure HEAP_HEADER_DECODE_FAILED
             | Some heap_header \<Rightarrow>
                 if ValidateHeapHeaderGeometry heap_header \<noteq> HV_NONE
                 then ValidationFailure (ValidateHeapHeaderGeometry heap_header)
                 else
                   (case DecodeSlotDirectory (Page_bytes p) (hp_upper heap_header)
                           (SlotDirectory_new (hp_slot_count heap_header)) of
                      Inl e \<Rightarrow> Unexpected e
                    | Inr directory \<Rightarrow>
                        (case CheckRetainedRangesDisjoint directory of
                           Inl e \<Rightarrow> Unexpected e
                         | Inr _ \<Rightarrow>
                             (case (if tuple_checks = ALL_TUPLES
                                    then ValidateRetainedTuples (Page_bytes p) (Page_id p)
                                           schema_history directory
                                    else Ok ()) of
                                Inl e \<Rightarrow> Unexpected e
                              | Inr _ \<Rightarrow>
                                  (case ValidateFreeSlotChain directory
                                          (hp_free_slot_head heap_header) of
                                     Inl e \<Rightarrow> Unexpected e
                                   | Inr _ \<Rightarrow> Ok \<lparr>hh_common = common_header,
                                                hh_heap = heap_header\<rparr>))))))"

definition Validate ::
    "HeapTupleSchemaHistory \<Rightarrow> Page \<Rightarrow> (HeapPageHeaders, HeapPageValidationFailure) result" where
  "Validate schema_history p = ValidateWith schema_history p ALL_TUPLES"

definition ValidateStructure ::
    "HeapTupleSchemaHistory \<Rightarrow> Page \<Rightarrow> (HeapPageHeaders, HeapPageValidationFailure) result" where
  "ValidateStructure schema_history p = ValidateWith schema_history p SKIP_TUPLES"

end
