(* ===== verification/Heap_Structure.thy ===== *)
theory Heap_Structure
  imports Heap_Validate
begin

text \<open>
  What a structurally valid heap page is, apart from the passes that check it:
  \<open>heap_structure\<close> says that both headers are right, that the directory decodes to entries
  which are each canonical and in bounds, that retained ranges are pairwise disjoint and that
  the free-slot chain is one path through exactly the unused slots. The lemmas show that the
  four passes of \<open>ValidateWith\<close> accept exactly such pages.
\<close>

definition retained :: "HeapSlotEntry \<Rightarrow> bool" where
  "retained e \<longleftrightarrow> se_state e \<noteq> UNUSED \<and> se_tuple_length e \<noteq> 0"

definition entry_ok :: "16 word \<Rightarrow> HeapSlotEntry \<Rightarrow> bool" where
  "entry_ok upper e \<longleftrightarrow> ValidateSlotDescriptor e upper = HV_NONE"

definition apart :: "HeapSlotEntry \<Rightarrow> HeapSlotEntry \<Rightarrow> bool" where
  "apart e f \<longleftrightarrow> range_end e \<le> unat (se_tuple_offset f) \<or> range_end f \<le> unat (se_tuple_offset e)"

definition disjoint_entries :: "HeapSlotEntry list \<Rightarrow> bool" where
  "disjoint_entries es \<longleftrightarrow>
     (\<forall>i < length es. \<forall>j < length es.
        i \<noteq> j \<longrightarrow> retained (es ! i) \<longrightarrow> retained (es ! j) \<longrightarrow> apart (es ! i) (es ! j))"

fun linked :: "HeapSlotEntry list \<Rightarrow> SlotId \<Rightarrow> SlotId list \<Rightarrow> bool" where
  "linked es head [] \<longleftrightarrow> head = INVALID_SLOT_ID"
| "linked es head (s # p) \<longleftrightarrow> head = s \<and> s \<noteq> INVALID_SLOT_ID \<and> linked es (se_aux (es ! unat s)) p"

definition unused_slots :: "HeapSlotEntry list \<Rightarrow> SlotId set" where
  "unused_slots es = of_nat ` {i. i < length es \<and> se_state (es ! i) = UNUSED}"

definition free_chain_ok :: "HeapSlotEntry list \<Rightarrow> SlotId \<Rightarrow> bool" where
  "free_chain_ok es head \<longleftrightarrow> (\<exists>p. linked es head p \<and> distinct p \<and> set p = unused_slots es)"

definition dir_entries :: "byte list \<Rightarrow> HeapSlotEntry list \<Rightarrow> bool" where
  "dir_entries b es \<longleftrightarrow> (\<forall>i < length es. DecodeHeapSlotEntry (slot_bytes b i) = Ok (es ! i))"

definition heap_structure :: "Page \<Rightarrow> HeapPageHeaders \<Rightarrow> HeapSlotEntry list \<Rightarrow> bool" where
  "heap_structure p hdrs es \<longleftrightarrow>
     Page_DecodeHeader p = Some (hh_common hdrs) \<and>
     ValidateCommonHeader (hh_common hdrs) (page_no (Page_id p)) = HV_NONE \<and>
     HeapPage_Header p = Some (hh_heap hdrs) \<and>
     ValidateHeapHeaderGeometry (hh_heap hdrs) = HV_NONE \<and>
     length es = unat (hp_slot_count (hh_heap hdrs)) \<and>
     dir_entries (Page_bytes p) es \<and>
     (\<forall>e \<in> set es. entry_ok (hp_upper (hh_heap hdrs)) e) \<and>
     disjoint_entries es \<and>
     free_chain_ok es (hp_free_slot_head (hh_heap hdrs))"

section \<open>Single checks\<close>

lemma ValidateHeapHeaderGeometry_iff:
  "ValidateHeapHeaderGeometry h = HV_NONE \<longleftrightarrow>
     hp_reserved h = 0 \<and> unat (hp_lower h) = 48 + 8 * unat (hp_slot_count h) \<and>
     unat (hp_lower h) \<le> unat (hp_upper h) \<and> unat (hp_upper h) \<le> 8192"
  by (auto simp: ValidateHeapHeaderGeometry_def Let_def not_less word_le_nat_alt word_less_nat_alt)

lemma ValidateCommonHeader_iff:
  "ValidateCommonHeader h n = HV_NONE \<longleftrightarrow>
     ch_page_type h = HEAP_DATA \<and> ch_page_no h = n \<and> IsValidHeapPageNumber n \<and>
     ch_header_size h = 48 \<and> ch_format_version h = 1 \<and> ch_flags h = 0 \<and> ch_reserved16 h = 0"
  by (auto simp: ValidateCommonHeader_def)

lemma entry_ok_state:
  "entry_ok upper e \<Longrightarrow> IsValidHeapSlotState (se_state e) \<Longrightarrow>
   se_state e = UNUSED \<or> se_state e = NORMAL \<or> se_state e = DEAD"
  by (cases "se_state e") (auto simp: entry_ok_def ValidateSlotDescriptor_def)

lemma entry_ok_unused:
  "se_state e = UNUSED \<Longrightarrow>
   entry_ok upper e \<longleftrightarrow> se_tuple_offset e = 0 \<and> se_tuple_length e = 0"
  by (auto simp: entry_ok_def ValidateSlotDescriptor_def)

lemma entry_ok_normal:
  "se_state e = NORMAL \<Longrightarrow>
   entry_ok upper e \<longleftrightarrow> se_aux e = 0 \<and> se_tuple_length e \<noteq> 0 \<and>
     unat upper \<le> unat (se_tuple_offset e) \<and> range_end e \<le> 8192"
  by (auto simp: entry_ok_def ValidateSlotDescriptor_def range_end_def Let_def)

lemma entry_ok_dead:
  "se_state e = DEAD \<Longrightarrow>
   entry_ok upper e \<longleftrightarrow> se_aux e = 0 \<and>
     (se_tuple_offset e = 0 \<and> se_tuple_length e = 0 \<or>
      se_tuple_offset e \<noteq> 0 \<and> se_tuple_length e \<noteq> 0 \<and>
      unat upper \<le> unat (se_tuple_offset e) \<and> range_end e \<le> 8192)"
  by (auto simp: entry_ok_def ValidateSlotDescriptor_def range_end_def Let_def)

lemma entry_ok_retained:
  assumes "entry_ok upper e" and "retained e"
  shows "unat upper \<le> unat (se_tuple_offset e)" and "range_end e \<le> 8192" and "se_aux e = 0"
  using assms
  by (cases "se_state e";
      auto simp: entry_ok_def ValidateSlotDescriptor_def range_end_def retained_def Let_def
        split: if_splits)+

section \<open>Pass 1\<close>

definition directory_of :: "16 word \<Rightarrow> HeapSlotEntry list \<Rightarrow> SlotDirectory" where
  "directory_of cnt es =
     \<lparr>sd_slot_count = cnt,
      sd_slots = es @ replicate (1018 - length es) default_HeapSlotEntry,
      sd_retained_order = map of_nat (filter (\<lambda>i. retained (es ! i)) [0..<length es]),
      sd_unused_slots = unused_slots es\<rparr>"

lemma directory_of_new: "SlotDirectory_new cnt = directory_of cnt []"
  by (simp add: SlotDirectory_new_def directory_of_def unused_slots_def)

lemma unused_slots_snoc:
  "unused_slots (es @ [e]) =
     (if se_state e = UNUSED then insert (of_nat (length es)) (unused_slots es)
      else unused_slots es)"
proof -
  have "{i. i < length (es @ [e]) \<and> se_state ((es @ [e]) ! i) = UNUSED} =
      {i. i < length es \<and> se_state (es ! i) = UNUSED} \<union>
      (if se_state e = UNUSED then {length es} else {})"
    by (auto simp: nth_append less_Suc_eq)
  then show ?thesis by (simp add: unused_slots_def)
qed

lemma filter_upt_snoc:
  "filter (\<lambda>i. P ((xs @ [x]) ! i)) [0..<length (xs @ [x])] =
     filter (\<lambda>i. P (xs ! i)) [0..<length xs] @ (if P x then [length xs] else [])"
proof -
  have "filter (\<lambda>i. P ((xs @ [x]) ! i)) [0..<length xs] = filter (\<lambda>i. P (xs ! i)) [0..<length xs]"
    by (rule filter_cong) (auto simp: nth_append)
  then show ?thesis by simp
qed

lemma directory_of_snoc:
  assumes "length es < 1018"
  shows "directory_of cnt (es @ [e]) =
    (let directory = (directory_of cnt es)\<lparr>sd_slots := (sd_slots (directory_of cnt es))[length es := e]\<rparr>
     in if se_state e = UNUSED
        then directory\<lparr>sd_unused_slots := insert (of_nat (length es)) (sd_unused_slots directory)\<rparr>
        else if se_tuple_length e \<noteq> 0
        then directory\<lparr>sd_retained_order := sd_retained_order directory @ [of_nat (length es)]\<rparr>
        else directory)"
proof -
  have "replicate (1018 - length es) default_HeapSlotEntry =
      default_HeapSlotEntry # replicate (1018 - length (es @ [e])) default_HeapSlotEntry"
    using assms by (simp add: Suc_diff_Suc flip: replicate_Suc)
  then have "(es @ replicate (1018 - length es) default_HeapSlotEntry)[length es := e] =
      (es @ [e]) @ replicate (1018 - length (es @ [e])) default_HeapSlotEntry"
    by simp
  moreover have "map of_nat (filter (\<lambda>i. retained ((es @ [e]) ! i)) [0..<length (es @ [e])]) =
      map of_nat (filter (\<lambda>i. retained (es ! i)) [0..<length es]) @
      (if retained e then [of_nat (length es)] else [])"
    unfolding filter_upt_snoc by simp
  ultimately show ?thesis
    unfolding directory_of_def unused_slots_snoc
    by (auto simp: retained_def Let_def)
qed

lemma ex_length_Suc:
  "(\<exists>es. length es = Suc n \<and> P es) \<longleftrightarrow> (\<exists>f es. length es = n \<and> P (f # es))"
  by (auto simp: length_Suc_conv)

lemma decode_slots_Ok_iff:
  "length pre + n \<le> 1018 \<Longrightarrow>
   decode_slots b upper n (length pre) (directory_of cnt pre) = Ok d \<longleftrightarrow>
     (\<exists>es. length es = n \<and> d = directory_of cnt (pre @ es) \<and>
       (\<forall>i < n. DecodeHeapSlotEntry (slot_bytes b (length pre + i)) = Ok (es ! i) \<and>
          entry_ok upper (es ! i)))"
proof (induction n arbitrary: pre)
  case 0
  then show ?case by auto
next
  case (Suc n)
  show ?case
  proof (cases "DecodeHeapSlotEntry (slot_bytes b (length pre))")
    case (Inl e)
    then show ?thesis by (auto simp: SlotFailure_def)
  next
    case (Inr e)
    have step: "decode_slots b upper (Suc n) (length pre) (directory_of cnt pre) = Ok d \<longleftrightarrow>
        entry_ok upper e \<and>
        decode_slots b upper n (length (pre @ [e])) (directory_of cnt (pre @ [e])) = Ok d"
      using Suc.prems directory_of_snoc[of pre cnt e]
      by (simp add: Inr entry_ok_def SlotFailure_def Let_def)
    let ?Q = "\<lambda>pre n es. \<forall>i < n. DecodeHeapSlotEntry (slot_bytes b (length pre + i)) = Ok (es ! i) \<and>
          entry_ok upper (es ! i)"
    have Q: "?Q pre (Suc n) (f # es) \<longleftrightarrow> f = e \<and> entry_ok upper e \<and> ?Q (pre @ [e]) n es" for f es
      by (simp only: All_less_Suc2) (auto simp: Inr)
    have "decode_slots b upper (Suc n) (length pre) (directory_of cnt pre) = Ok d \<longleftrightarrow>
        entry_ok upper e \<and>
        (\<exists>es. length es = n \<and> d = directory_of cnt ((pre @ [e]) @ es) \<and> ?Q (pre @ [e]) n es)"
      unfolding step by (subst Suc.IH) (use Suc.prems in simp_all)
    also have "\<dots> \<longleftrightarrow> (\<exists>f es. length es = n \<and> d = directory_of cnt (pre @ f # es) \<and>
        ?Q pre (Suc n) (f # es))"
      unfolding Q by (simp only: append_assoc append.simps) blast
    also have "\<dots> \<longleftrightarrow> (\<exists>es. length es = Suc n \<and> d = directory_of cnt (pre @ es) \<and> ?Q pre (Suc n) es)"
      by (simp only: ex_length_Suc)
    finally show ?thesis .
  qed
qed

lemma DecodeSlotDirectory_Ok_iff:
  assumes "unat cnt \<le> 1018"
  shows "DecodeSlotDirectory b upper (SlotDirectory_new cnt) = Ok d \<longleftrightarrow>
     (\<exists>es. length es = unat cnt \<and> d = directory_of cnt es \<and> dir_entries b es \<and>
       (\<forall>e \<in> set es. entry_ok upper e))"
proof -
  have "sd_slot_count (directory_of cnt []) = cnt" by (simp add: directory_of_def)
  then have "DecodeSlotDirectory b upper (SlotDirectory_new cnt) = Ok d \<longleftrightarrow>
      decode_slots b upper (unat cnt) (length ([] :: HeapSlotEntry list)) (directory_of cnt []) = Ok d"
    by (simp only: DecodeSlotDirectory_def directory_of_new list.size)
  also have "\<dots> \<longleftrightarrow> (\<exists>es. length es = unat cnt \<and> d = directory_of cnt es \<and>
      (\<forall>i < unat cnt. DecodeHeapSlotEntry (slot_bytes b i) = Ok (es ! i) \<and> entry_ok upper (es ! i)))"
    by (subst decode_slots_Ok_iff) (use assms in \<open>simp_all only: list.size add_0 append_Nil\<close>)
  also have "\<dots> \<longleftrightarrow> (\<exists>es. length es = unat cnt \<and> d = directory_of cnt es \<and> dir_entries b es \<and>
      (\<forall>e \<in> set es. entry_ok upper e))"
    by (rule ex_cong1) (auto simp: dir_entries_def all_set_conv_all_nth)
  finally show ?thesis .
qed

section \<open>Pass 2\<close>

definition before :: "HeapSlotEntry list \<Rightarrow> SlotId \<Rightarrow> SlotId \<Rightarrow> bool" where
  "before slots s t \<longleftrightarrow> range_end (slots ! unat s) \<le> unat (se_tuple_offset (slots ! unat t))"

lemma before_trans: "before slots s t \<Longrightarrow> before slots t u \<Longrightarrow> before slots s u"
  by (simp add: before_def range_end_def)

lemma check_neighbours_Ok_iff:
  "check_neighbours slots xs = Ok () \<longleftrightarrow> sorted_wrt (before slots) xs"
proof (induction slots xs rule: check_neighbours.induct)
  case (1 slots previous current xs)
  then show ?case
    using before_trans by (auto simp: before_def not_less)
qed simp_all

text \<open>Sorted by start, ranges of positive length are disjoint exactly when each ends before
  the next begins.\<close>

lemma sorted_before_iff:
  assumes "distinct xs" and "\<forall>s \<in> set xs. 0 < unat (se_tuple_length (slots ! unat s))"
  shows "sorted_wrt (before slots) (sort_key (retained_key slots) xs) \<longleftrightarrow>
     (\<forall>s \<in> set xs. \<forall>t \<in> set xs. s \<noteq> t \<longrightarrow> before slots s t \<or> before slots t s)"
    (is "?l \<longleftrightarrow> ?r")
proof -
  define ys where "ys = sort_key (retained_key slots) xs"
  have set: "set ys = set xs" and dist: "distinct ys" using assms(1) by (simp_all add: ys_def)
  have sorted: "sorted (map (retained_key slots) ys)" by (simp add: ys_def)
  have "?r" if "sorted_wrt (before slots) ys"
  proof (intro ballI impI)
    fix s t assume st: "s \<in> set xs" "t \<in> set xs" "s \<noteq> t"
    then obtain i j where ij: "i < length ys" "j < length ys" "ys ! i = s" "ys ! j = t" "i \<noteq> j"
      using set by (metis in_set_conv_nth)
    then show "before slots s t \<or> before slots t s"
      using that by (cases i j rule: linorder_cases) (auto simp: sorted_wrt_iff_nth_less)
  qed
  moreover have "sorted_wrt (before slots) ys" if r: "?r"
    unfolding sorted_wrt_iff_nth_less
  proof (intro allI impI)
    fix i j assume ij: "i < j" "j < length ys"
    let ?s = "ys ! i" and ?t = "ys ! j"
    have st: "?s \<in> set xs" "?t \<in> set xs" "?s \<noteq> ?t"
      using ij set dist by (auto simp: nth_eq_iff_index_eq simp flip: set)
    have "retained_key slots ?s \<le> retained_key slots ?t"
      using sorted ij by (auto simp: sorted_iff_nth_mono)
    then have "se_tuple_offset (slots ! unat ?s) \<le> se_tuple_offset (slots ! unat ?t)"
      by (auto simp: retained_key_def less_eq_prod_def)
    then have le: "unat (se_tuple_offset (slots ! unat ?s)) \<le> unat (se_tuple_offset (slots ! unat ?t))"
      by (simp add: word_le_nat_alt)
    have "\<not> before slots ?t ?s"
      using le assms(2) st by (auto simp: before_def range_end_def)
    then show "before slots ?s ?t" using r st by blast
  qed
  ultimately show ?thesis unfolding ys_def by blast
qed

lemma slot_id_unat: "i < 1018 \<Longrightarrow> unat (of_nat i :: SlotId) = i"
  by simp

lemma directory_slots_nth:
  "i < length es \<Longrightarrow> sd_slots (directory_of cnt es) ! i = es ! i"
  by (simp add: directory_of_def nth_append)

lemma slot_id_eq_iff: "i < 1018 \<Longrightarrow> j < 1018 \<Longrightarrow> (of_nat i :: SlotId) = of_nat j \<longleftrightarrow> i = j"
  by (metis slot_id_unat)

lemma CheckRetainedRangesDisjoint_Ok_iff:
  assumes n: "length es \<le> 1018"
  shows "CheckRetainedRangesDisjoint (directory_of cnt es) = Ok () \<longleftrightarrow> disjoint_entries es"
proof -
  define slots where "slots = sd_slots (directory_of cnt es)"
  define ids where "ids = filter (\<lambda>i. retained (es ! i)) [0..<length es]"
  have ids: "set ids = {i. i < length es \<and> retained (es ! i)}" by (auto simp: ids_def)
  have at: "slots ! unat (of_nat i :: SlotId) = es ! i" if "i \<in> set ids" for i
    using that n ids directory_slots_nth[of i es cnt] by (auto simp: slots_def)
  have ord: "sd_retained_order (directory_of cnt es) = map of_nat ids"
    by (simp add: directory_of_def ids_def)
  have inj: "inj_on (of_nat :: nat \<Rightarrow> SlotId) (set ids)"
    by (rule inj_onI) (use ids n in \<open>auto simp: slot_id_eq_iff\<close>)
  have "distinct (map of_nat ids :: SlotId list)"
    using inj by (simp add: distinct_map ids_def)
  moreover have "\<forall>s \<in> set (map of_nat ids :: SlotId list). 0 < unat (se_tuple_length (slots ! unat s))"
    using at ids by (auto simp: retained_def unat_gt_0)
  ultimately have "CheckRetainedRangesDisjoint (directory_of cnt es) = Ok () \<longleftrightarrow>
      (\<forall>s \<in> of_nat ` set ids. \<forall>t \<in> of_nat ` set ids. s \<noteq> t \<longrightarrow> before slots s t \<or> before slots t s)"
    by (simp add: CheckRetainedRangesDisjoint_def check_neighbours_Ok_iff ord sorted_before_iff
        flip: slots_def)
  also have "\<dots> \<longleftrightarrow> (\<forall>i \<in> set ids. \<forall>j \<in> set ids. i \<noteq> j \<longrightarrow> apart (es ! i) (es ! j))"
  proof -
    have "before slots (of_nat i) (of_nat j) \<or> before slots (of_nat j) (of_nat i) \<longleftrightarrow>
        apart (es ! i) (es ! j)" if "i \<in> set ids" "j \<in> set ids" for i j
      using at that by (simp add: before_def apart_def)
    moreover have "(of_nat i :: SlotId) \<noteq> of_nat j \<longleftrightarrow> i \<noteq> j" if "i \<in> set ids" "j \<in> set ids" for i j
      using inj_on_eq_iff[OF inj that] by simp
    ultimately show ?thesis by auto
  qed
  also have "\<dots> \<longleftrightarrow> disjoint_entries es" unfolding ids disjoint_entries_def by auto
  finally show ?thesis .
qed

section \<open>Pass 4\<close>

lemma walk_chain_Ok_iff:
  "walk_chain slots visited current = Ok v \<longleftrightarrow>
     (\<exists>p. linked slots current p \<and> distinct p \<and> set p \<inter> visited = {} \<and> v = visited \<union> set p)"
proof (induction slots visited current rule: walk_chain.induct)
  case (1 slots visited current)
  have path: "(\<exists>p. linked slots current p \<and> Q p) \<longleftrightarrow>
      (if current = INVALID_SLOT_ID then Q []
       else \<exists>p. linked slots (se_aux (slots ! unat current)) p \<and> Q (current # p))" for Q
  proof (intro iffI)
    assume "\<exists>p. linked slots current p \<and> Q p"
    then obtain p where "linked slots current p" "Q p" by blast
    then show "if current = INVALID_SLOT_ID then Q []
       else \<exists>p. linked slots (se_aux (slots ! unat current)) p \<and> Q (current # p)"
      by (cases p) auto
  next
    assume "if current = INVALID_SLOT_ID then Q []
       else \<exists>p. linked slots (se_aux (slots ! unat current)) p \<and> Q (current # p)"
    then show "\<exists>p. linked slots current p \<and> Q p"
      by (metis linked.simps)
  qed
  show ?case
  proof (cases "current = INVALID_SLOT_ID \<or> current \<in> visited")
    case True
    then show ?thesis unfolding path by (subst walk_chain.simps) (auto simp: SlotFailure_def)
  next
    case False
    then have "walk_chain slots visited current =
        walk_chain slots (insert current visited) (se_aux (slots ! unat current))"
      by (subst walk_chain.simps) simp
    also have "\<dots> = Ok v \<longleftrightarrow> (\<exists>p. linked slots (se_aux (slots ! unat current)) p \<and> distinct p \<and>
        set p \<inter> insert current visited = {} \<and> v = insert current visited \<union> set p)"
      by (rule 1) (use False in simp_all)
    also have "\<dots> \<longleftrightarrow> (\<exists>p. linked slots (se_aux (slots ! unat current)) p \<and> distinct (current # p) \<and>
        set (current # p) \<inter> visited = {} \<and> v = visited \<union> set (current # p))"
      by (rule ex_cong1) (use False in auto)
    finally show ?thesis unfolding path using False by simp
  qed
qed

lemma check_links_Ok_iff:
  "check_links directory n index = Ok () \<longleftrightarrow>
     (\<forall>i. index \<le> i \<and> i < index + n \<and> of_nat i \<in> sd_unused_slots directory \<longrightarrow>
        se_aux (sd_slots directory ! i) = INVALID_SLOT_ID \<or>
        is_unused directory (se_aux (sd_slots directory ! i)))"
proof (induction n arbitrary: index)
  case (Suc n)
  have split: "(\<forall>i. index \<le> i \<and> i < index + Suc n \<and> Q i \<longrightarrow> P i) \<longleftrightarrow>
      (Q index \<longrightarrow> P index) \<and> (\<forall>i. Suc index \<le> i \<and> i < Suc index + n \<and> Q i \<longrightarrow> P i)" for P Q
    using all_from_split[of index "index + Suc n" "\<lambda>i. Q i \<longrightarrow> P i"] by auto
  show ?case
    unfolding split using Suc[of "Suc index"] by (auto simp: SlotFailure_def Let_def)
qed auto

lemma check_membership_Ok_iff:
  "check_membership directory visited n index = Ok () \<longleftrightarrow>
     (\<forall>i. index \<le> i \<and> i < index + n \<and> of_nat i \<in> sd_unused_slots directory \<longrightarrow> of_nat i \<in> visited)"
proof (induction n arbitrary: index)
  case (Suc n)
  have split: "(\<forall>i. index \<le> i \<and> i < index + Suc n \<and> Q i \<longrightarrow> P i) \<longleftrightarrow>
      (Q index \<longrightarrow> P index) \<and> (\<forall>i. Suc index \<le> i \<and> i < Suc index + n \<and> Q i \<longrightarrow> P i)" for P Q
    using all_from_split[of index "index + Suc n" "\<lambda>i. Q i \<longrightarrow> P i"] by auto
  show ?case
    unfolding split using Suc[of "Suc index"] by (auto simp: SlotFailure_def)
qed auto

lemma mem_unused_slots:
  "length es \<le> 1018 \<Longrightarrow> s \<in> unused_slots es \<longleftrightarrow> unat s < length es \<and> se_state (es ! unat s) = UNUSED"
proof
  assume n: "length es \<le> 1018"
  show "s \<in> unused_slots es \<Longrightarrow> unat s < length es \<and> se_state (es ! unat s) = UNUSED"
    using n by (auto simp: unused_slots_def)
  assume "unat s < length es \<and> se_state (es ! unat s) = UNUSED"
  moreover have "s = of_nat (unat s)" by simp
  ultimately show "s \<in> unused_slots es" unfolding unused_slots_def by blast
qed

lemma linked_in:
  "linked slots head p \<Longrightarrow> head = INVALID_SLOT_ID \<or> head \<in> set p"
  by (cases p) auto

lemma linked_closed:
  "linked slots head p \<Longrightarrow> s \<in> set p \<Longrightarrow>
   se_aux (slots ! unat s) = INVALID_SLOT_ID \<or> se_aux (slots ! unat s) \<in> set p"
proof (induction p arbitrary: head)
  case (Cons t p)
  then show ?case using linked_in[of slots "se_aux (slots ! unat t)" p] by auto
qed simp

lemma linked_cong:
  "(\<And>s. s \<in> set p \<Longrightarrow> slots ! unat s = slots' ! unat s) \<Longrightarrow>
   linked slots head p = linked slots' head p"
  by (induction p arbitrary: head) auto

lemma ValidateFreeSlotChain_Ok_iff:
  assumes n: "length es = unat cnt" "unat cnt \<le> 1018"
  shows "ValidateFreeSlotChain (directory_of cnt es) head = Ok () \<longleftrightarrow> free_chain_ok es head"
    (is "?l \<longleftrightarrow> ?r")
proof -
  define d where "d = directory_of cnt es"
  have U: "sd_unused_slots d = unused_slots es" and C: "sd_slot_count d = cnt"
    by (simp_all add: d_def directory_of_def)
  have unused: "is_unused d s \<longleftrightarrow> s \<in> unused_slots es" for s
    using n mem_unused_slots[of es s] by (auto simp: is_unused_def U C word_less_nat_alt)
  have at: "sd_slots d ! unat s = es ! unat s" if "s \<in> unused_slots es" for s
    using that n mem_unused_slots[of es s] directory_slots_nth by (simp add: d_def)
  have all_slots: "(\<forall>i. 0 \<le> i \<and> i < 0 + unat cnt \<and> of_nat i \<in> unused_slots es \<longrightarrow> P (of_nat i)) \<longleftrightarrow>
      (\<forall>s \<in> unused_slots es. P s)" for P :: "SlotId \<Rightarrow> bool"
    using n by (auto simp: unused_slots_def)
  have links: "check_links d (unat cnt) 0 = Ok () \<longleftrightarrow>
      (\<forall>s \<in> unused_slots es. se_aux (es ! unat s) = INVALID_SLOT_ID \<or>
        se_aux (es ! unat s) \<in> unused_slots es)"
  proof -
    have "check_links d (unat cnt) 0 = Ok () \<longleftrightarrow>
        (\<forall>i. 0 \<le> i \<and> i < 0 + unat cnt \<and> of_nat i \<in> unused_slots es \<longrightarrow>
          (\<lambda>s :: SlotId. se_aux (es ! unat s) = INVALID_SLOT_ID \<or>
            se_aux (es ! unat s) \<in> unused_slots es) (of_nat i))"
      unfolding check_links_Ok_iff U unused
      using n directory_slots_nth by (auto simp: d_def)
    then show ?thesis by (rule trans[OF _ all_slots])
  qed
  have member: "check_membership d v (unat cnt) 0 = Ok () \<longleftrightarrow> unused_slots es \<subseteq> v" for v
    unfolding check_membership_Ok_iff U using all_slots[of "\<lambda>s. s \<in> v"] by auto
  have "?l \<longleftrightarrow> check_links d (unat cnt) 0 = Ok () \<and>
      (head = INVALID_SLOT_ID \<or> head \<in> unused_slots es) \<and>
      (\<exists>v. walk_chain (sd_slots d) {} head = Ok v \<and> unused_slots es \<subseteq> v)"
    unfolding member[symmetric]
    by (auto simp: ValidateFreeSlotChain_def SlotFailure_def U C unused member simp flip: d_def
        split: sum.splits if_splits)
  also have "\<dots> \<longleftrightarrow> check_links d (unat cnt) 0 = Ok () \<and>
      (head = INVALID_SLOT_ID \<or> head \<in> unused_slots es) \<and>
      (\<exists>p. linked (sd_slots d) head p \<and> distinct p \<and> unused_slots es \<subseteq> set p)"
    by (auto simp: walk_chain_Ok_iff)
  also have "\<dots> \<longleftrightarrow> ?r"
  proof
    assume a: "check_links d (unat cnt) 0 = Ok () \<and>
      (head = INVALID_SLOT_ID \<or> head \<in> unused_slots es) \<and>
      (\<exists>p. linked (sd_slots d) head p \<and> distinct p \<and> unused_slots es \<subseteq> set p)"
    then obtain p where p: "linked (sd_slots d) head p" "distinct p" "unused_slots es \<subseteq> set p" by blast
    have "linked (sd_slots d) h q \<Longrightarrow> h = INVALID_SLOT_ID \<or> h \<in> unused_slots es \<Longrightarrow>
        set q \<subseteq> unused_slots es" for h q
    proof (induction q arbitrary: h)
      case (Cons s q)
      then have s: "s \<in> unused_slots es" by auto
      then have "se_aux (sd_slots d ! unat s) = INVALID_SLOT_ID \<or>
          se_aux (sd_slots d ! unat s) \<in> unused_slots es"
        using a links at[OF s] by simp
      then show ?case using Cons s by auto
    qed simp
    then have "set p = unused_slots es" using p a by blast
    then show ?r
      using p linked_cong[of p "sd_slots d" es head] at unfolding free_chain_ok_def by blast
  next
    assume ?r
    then obtain p where p: "linked es head p" "distinct p" "set p = unused_slots es"
      by (auto simp: free_chain_ok_def)
    have "linked (sd_slots d) head p"
      using p linked_cong[of p "sd_slots d" es head] at by blast
    moreover have "check_links d (unat cnt) 0 = Ok ()"
      unfolding links using linked_closed[OF p(1)] p(3) by blast
    moreover have "head = INVALID_SLOT_ID \<or> head \<in> unused_slots es"
      using linked_in[OF p(1)] p(3) by blast
    ultimately show "check_links d (unat cnt) 0 = Ok () \<and>
      (head = INVALID_SLOT_ID \<or> head \<in> unused_slots es) \<and>
      (\<exists>p. linked (sd_slots d) head p \<and> distinct p \<and> unused_slots es \<subseteq> set p)"
      using p by blast
  qed
  finally show ?thesis .
qed

section \<open>All passes\<close>

definition tuples_ok :: "HeapTupleSchemaHistory \<Rightarrow> Page \<Rightarrow> HeapSlotEntry list \<Rightarrow> bool" where
  "tuples_ok H p es \<longleftrightarrow>
     (\<forall>i < length es. retained (es ! i) \<longrightarrow>
        tc_error (ValidateTupleForSlot
          (subspan (unat (se_tuple_offset (es ! i))) (unat (se_tuple_length (es ! i))) (Page_bytes p))
          H (Rid (Page_id p) (of_nat i)) (of_nat (length es))) = HV_NONE)"

lemma validate_retained_Ok_iff:
  "validate_retained b pid H d n index = Ok () \<longleftrightarrow>
     (\<forall>i. index \<le> i \<and> i < index + n \<longrightarrow> retained (sd_slots d ! i) \<longrightarrow>
        tc_error (ValidateTupleForSlot
          (subspan (unat (se_tuple_offset (sd_slots d ! i))) (unat (se_tuple_length (sd_slots d ! i))) b)
          H (Rid pid (of_nat i)) (sd_slot_count d)) = HV_NONE)"
proof (induction n arbitrary: index)
  case (Suc n)
  have split: "(\<forall>i. index \<le> i \<and> i < index + Suc n \<longrightarrow> P i) \<longleftrightarrow>
      P index \<and> (\<forall>i. Suc index \<le> i \<and> i < Suc index + n \<longrightarrow> P i)" for P
    using all_from_split[of index "index + Suc n" P] by auto
  show ?case
    unfolding split using Suc[of "Suc index"] by (simp add: retained_def Let_def)
qed auto

lemma ValidateRetainedTuples_Ok_iff:
  assumes "length es = unat cnt"
  shows "ValidateRetainedTuples (Page_bytes p) (Page_id p) H (directory_of cnt es) = Ok () \<longleftrightarrow>
    tuples_ok H p es"
  unfolding ValidateRetainedTuples_def validate_retained_Ok_iff
  using assms directory_slots_nth[of _ es cnt]
  by (simp add: tuples_ok_def directory_of_def[of cnt es, THEN arg_cong[of _ _ sd_slot_count], simplified])

lemma geometry_slot_count:
  "ValidateHeapHeaderGeometry h = HV_NONE \<Longrightarrow> unat (hp_slot_count h) \<le> 1018"
  by (auto simp: ValidateHeapHeaderGeometry_iff)

lemma ValidateWith_Ok_iff:
  "ValidateWith H p checks = Ok hdrs \<longleftrightarrow>
     (\<exists>es. heap_structure p hdrs es \<and> (checks = ALL_TUPLES \<longrightarrow> tuples_ok H p es))"
proof -
  define cnt where "cnt = hp_slot_count (hh_heap hdrs)"
  have "ValidateWith H p checks = Ok hdrs \<longleftrightarrow>
     Page_DecodeHeader p = Some (hh_common hdrs) \<and>
     ValidateCommonHeader (hh_common hdrs) (page_no (Page_id p)) = HV_NONE \<and>
     HeapPage_Header p = Some (hh_heap hdrs) \<and>
     ValidateHeapHeaderGeometry (hh_heap hdrs) = HV_NONE \<and>
     (\<exists>d. DecodeSlotDirectory (Page_bytes p) (hp_upper (hh_heap hdrs)) (SlotDirectory_new cnt) = Ok d \<and>
       CheckRetainedRangesDisjoint d = Ok () \<and>
       (checks = ALL_TUPLES \<longrightarrow>
         ValidateRetainedTuples (Page_bytes p) (Page_id p) H d = Ok ()) \<and>
       ValidateFreeSlotChain d (hp_free_slot_head (hh_heap hdrs)) = Ok ())"
    by (cases hdrs) (auto simp: ValidateWith_def ValidationFailure_def cnt_def
        split: option.splits sum.splits if_splits)
  also have "\<dots> \<longleftrightarrow> (\<exists>es. heap_structure p hdrs es \<and> (checks = ALL_TUPLES \<longrightarrow> tuples_ok H p es))"
  proof (cases "ValidateHeapHeaderGeometry (hh_heap hdrs) = HV_NONE")
    case True
    then have n: "unat cnt \<le> 1018" using geometry_slot_count by (simp add: cnt_def)
    show ?thesis
      unfolding DecodeSlotDirectory_Ok_iff[OF n] heap_structure_def cnt_def[symmetric]
      using n by (auto simp: CheckRetainedRangesDisjoint_Ok_iff ValidateRetainedTuples_Ok_iff
          ValidateFreeSlotChain_Ok_iff)
  qed (simp add: heap_structure_def)
  finally show ?thesis .
qed

lemma ValidateStructure_Ok_iff:
  "ValidateStructure H p = Ok hdrs \<longleftrightarrow> (\<exists>es. heap_structure p hdrs es)"
  by (simp add: ValidateStructure_def ValidateWith_Ok_iff)

lemma Validate_Ok_iff:
  "Validate H p = Ok hdrs \<longleftrightarrow> (\<exists>es. heap_structure p hdrs es \<and> tuples_ok H p es)"
  by (simp add: Validate_def ValidateWith_Ok_iff)

lemma dir_entries_unique:
  "dir_entries b es \<Longrightarrow> dir_entries b es' \<Longrightarrow> length es = length es' \<Longrightarrow> es = es'"
  by (rule nth_equalityI) (simp_all add: dir_entries_def)

lemma heap_structure_unique:
  "heap_structure p hdrs es \<Longrightarrow> heap_structure p hdrs' es' \<Longrightarrow> hdrs = hdrs' \<and> es = es'"
  by (cases hdrs; cases hdrs') (auto simp: heap_structure_def dest: dir_entries_unique)

end
