(* ===== verification/Heap_Page.thy ===== *)
theory Heap_Page
  imports Heap_Structure
begin

text \<open>
  The operations of \<open>HeapPage\<close> (\<open>src/src/storage/heap/heap_page.cpp\<close>) except
  compaction: \<open>Initialize\<close>, \<open>Insert\<close>, \<open>MarkDead\<close> and \<open>TupleBytes\<close>. An
  operation takes the page and returns its result with the page it leaves behind.
\<close>

datatype HeapPageInsertError =
  INSERT_PAGE_INVALID | INSERT_TUPLE_TOO_LARGE | INSERT_INVALID_TUPLE | INSUFFICIENT_SPACE
| SLOT_ID_EXHAUSTED

record HeapPageInsertFailure =
  if_code :: HeapPageInsertError
  if_page_error :: HeapPageValidationError
  if_tuple_error :: HeapPageValidationError

definition insert_failure :: "HeapPageInsertError \<Rightarrow> HeapPageInsertFailure" where
  "insert_failure code = \<lparr>if_code = code, if_page_error = HV_NONE, if_tuple_error = HV_NONE\<rparr>"

datatype HeapPageMarkDeadError =
  MARK_PAGE_INVALID | SLOT_OUT_OF_RANGE | MARK_INVALID_SLOT_STATE | ALREADY_DEAD

record HeapPageMarkDeadFailure =
  mf_code :: HeapPageMarkDeadError
  mf_page_error :: HeapPageValidationError

definition mark_failure :: "HeapPageMarkDeadError \<Rightarrow> HeapPageMarkDeadFailure" where
  "mark_failure code = \<lparr>mf_code = code, mf_page_error = HV_NONE\<rparr>"

datatype HeapPageInitializeError = INIT_INVALID_PAGE_NUMBER

section \<open>Operations\<close>

text \<open>\<open>None\<close> is the abort of the \<open>DBLUS_CHECK\<close>s inside.\<close>

definition HeapPage_Initialize ::
    "Page \<Rightarrow> Lsn \<Rightarrow> (HeapPageInitializeError status \<times> Page) option" where
  "HeapPage_Initialize p page_lsn =
     (if \<not> IsValidHeapPageNumber (page_no (Page_id p))
      then Some (Unexpected INIT_INVALID_PAGE_NUMBER, p)
      else do {
        p \<leftarrow> Page_Initialize p
          \<lparr>ch_page_type = HEAP_DATA, ch_format_version = HEAP_PAGE_FORMAT_VERSION, ch_flags = 0,
           ch_page_lsn = page_lsn, ch_checksum_crc32c = 0,
           ch_header_size = of_nat HEAP_PAGE_TOTAL_HEADER_SIZE, ch_reserved16 = 0,
           ch_page_no = page_no (Page_id p)\<rparr>;
        bs \<leftarrow> encode_at HEAP_PAGE_HEADER_OFFSET HEAP_PAGE_HEADER_ENCODED_SIZE
          (\<lambda>bs. EncodeHeapPageHeader bs default_HeapPageHeader) (Page_bytes p);
        Some (Ok (), p\<lparr>Page_bytes := bs\<rparr>)
      })"

definition HeapPage_Insert ::
    "HeapTupleSchemaHistory \<Rightarrow> Page \<Rightarrow> byte list \<Rightarrow> (Rid, HeapPageInsertFailure) result \<times> Page" where
  "HeapPage_Insert schema_history p tuple =
     (case ValidateStructure schema_history p of
        Inl e \<Rightarrow> (Unexpected \<lparr>if_code = INSERT_PAGE_INVALID, if_page_error = vf_code e,
                            if_tuple_error = HV_NONE\<rparr>, p)
      | Inr validation \<Rightarrow>
          if length tuple > 65535 \<or> length tuple > HEAP_PAGE_MAX_RAW_TUPLE_SIZE
          then (Unexpected (insert_failure INSERT_TUPLE_TOO_LARGE), p)
          else if unat (hp_slot_count (hh_heap validation)) = 65535
          then (Unexpected (insert_failure SLOT_ID_EXHAUSTED), p)
          else
            (let header = hh_heap validation;
                 new_slot_id = hp_slot_count header;
                 check = ValidateTupleForSlot tuple schema_history (Rid (Page_id p) new_slot_id)
                   (new_slot_id + 1)
             in if tc_error check \<noteq> HV_NONE
                then (Unexpected \<lparr>if_code = INSERT_INVALID_TUPLE, if_page_error = HV_NONE,
                               if_tuple_error = tc_error check\<rparr>, p)
                else if length tuple + HEAP_PAGE_SLOT_ENTRY_ENCODED_SIZE
                       > unat (hp_upper header) - unat (hp_lower header)
                then (Unexpected (insert_failure INSUFFICIENT_SPACE), p)
                else
                  (let slot_offset = unat (hp_lower header);
                       new_lower = slot_offset + HEAP_PAGE_SLOT_ENTRY_ENCODED_SIZE;
                       new_upper = unat (hp_upper header) - length tuple
                   in if new_lower > 65535 \<or> new_upper > 65535
                      then (Unexpected \<lparr>if_code = INSERT_PAGE_INVALID,
                              if_page_error = SLOT_DIRECTORY_OUT_OF_BOUNDS,
                              if_tuple_error = HV_NONE\<rparr>, p)
                      else
                        (let new_entry = \<lparr>se_tuple_offset = of_nat new_upper,
                               se_tuple_length = of_nat (length tuple), se_state = NORMAL,
                               se_aux = 0\<rparr>;
                             updated_header = header\<lparr>hp_slot_count := hp_slot_count header + 1,
                               hp_lower := of_nat new_lower, hp_upper := of_nat new_upper\<rparr>
                         in case (EncodeHeapSlotEntry
                                    (replicate HEAP_PAGE_SLOT_ENTRY_ENCODED_SIZE 0) new_entry,
                                  EncodeHeapPageHeader
                                    (replicate HEAP_PAGE_HEADER_ENCODED_SIZE 0) updated_header) of
                              (Some encoded_slot, Some encoded_header) \<Rightarrow>
                                (Ok (Rid (Page_id p) new_slot_id),
                                 p\<lparr>Page_bytes :=
                                     put HEAP_PAGE_HEADER_OFFSET encoded_header
                                       (put slot_offset encoded_slot
                                         (put new_upper tuple (Page_bytes p)))\<rparr>)
                            | _ \<Rightarrow> (Unexpected (insert_failure INSERT_PAGE_INVALID), p)))))"

definition HeapPage_MarkDead ::
    "HeapTupleSchemaHistory \<Rightarrow> Page \<Rightarrow> SlotId \<Rightarrow> HeapPageMarkDeadFailure status \<times> Page" where
  "HeapPage_MarkDead schema_history p slot_id =
     (case ValidateStructure schema_history p of
        Inl e \<Rightarrow> (Unexpected \<lparr>mf_code = MARK_PAGE_INVALID, mf_page_error = vf_code e\<rparr>, p)
      | Inr validation \<Rightarrow>
          if slot_id \<ge> hp_slot_count (hh_heap validation)
          then (Unexpected (mark_failure SLOT_OUT_OF_RANGE), p)
          else
            (case DecodeHeapSlotEntry (slot_bytes (Page_bytes p) (unat slot_id)) of
               Inl e \<Rightarrow> (Unexpected \<lparr>mf_code = MARK_PAGE_INVALID,
                                  mf_page_error = slot_decode_error e\<rparr>, p)
             | Inr e \<Rightarrow>
                 if se_state e = DEAD then (Unexpected (mark_failure ALREADY_DEAD), p)
                 else if se_state e = UNUSED \<or> se_state e = REDIRECT_RESERVED
                 then (Unexpected (mark_failure MARK_INVALID_SLOT_STATE), p)
                 else
                   (case EncodeHeapSlotEntry (replicate HEAP_PAGE_SLOT_ENTRY_ENCODED_SIZE 0)
                           (e\<lparr>se_state := DEAD\<rparr>) of
                      None \<Rightarrow> (Unexpected (mark_failure MARK_PAGE_INVALID), p)
                    | Some encoded_slot \<Rightarrow>
                        (Ok (), p\<lparr>Page_bytes :=
                           put (HEAP_PAGE_SLOT_DIRECTORY_OFFSET +
                                unat slot_id * HEAP_PAGE_SLOT_ENTRY_ENCODED_SIZE)
                             encoded_slot (Page_bytes p)\<rparr>))))"

definition HeapPage_TupleBytes ::
    "HeapTupleSchemaHistory \<Rightarrow> Page \<Rightarrow> SlotId \<Rightarrow> byte list option" where
  "HeapPage_TupleBytes schema_history p slot_id =
     (case ValidateStructure schema_history p of
        Inl _ \<Rightarrow> None
      | Inr validation \<Rightarrow>
          if slot_id \<ge> hp_slot_count (hh_heap validation) then None
          else
            (case DecodeHeapSlotEntry (slot_bytes (Page_bytes p) (unat slot_id)) of
               Inl _ \<Rightarrow> None
             | Inr e \<Rightarrow>
                 if se_state e \<noteq> NORMAL then None
                 else Some (subspan (unat (se_tuple_offset e)) (unat (se_tuple_length e))
                        (Page_bytes p))))"

section \<open>A heap page by its parts\<close>

text \<open>On a page of the right size, the decoders succeed on exactly the images.\<close>

lemma HeapPage_Header_iff:
  "Page_wf p \<Longrightarrow> HeapPage_Header p = Some h \<longleftrightarrow>
   subspan 32 16 (Page_bytes p) = HeapPageHeader_image h"
  by (simp add: HeapPage_Header_def heap_header.decode_Some_iff Page_wf_def)

lemma length_slot_bytes [simp]:
  "i < 1018 \<Longrightarrow> length b = 8192 \<Longrightarrow> length (slot_bytes b i) = 8"
  by (simp add: slot_bytes_def)

lemma DecodeHeapSlotEntry_iff:
  "i < 1018 \<Longrightarrow> length b = 8192 \<Longrightarrow>
   DecodeHeapSlotEntry (slot_bytes b i) = Ok e \<longleftrightarrow>
     slot_bytes b i = HeapSlotEntry_image e \<and> IsValidHeapSlotState (se_state e)"
  using slot_entry.decode_Some_iff[of "slot_bytes b i" e] by (auto simp: AsOptional_Some_iff)

lemma Page_DecodeHeader_cong:
  "Page_wf p \<Longrightarrow> Page_wf p' \<Longrightarrow> take 32 (Page_bytes p) = take 32 (Page_bytes p') \<Longrightarrow>
   Page_DecodeHeader p = Page_DecodeHeader p'"
  using common_header.decode_prefix[of "Page_bytes p"] common_header.decode_prefix[of "Page_bytes p'"]
  by (simp add: Page_DecodeHeader_def Page_wf_def)

lemma heap_structure_iff:
  assumes wf: "Page_wf p"
  shows "heap_structure p hdrs es \<longleftrightarrow>
     Page_DecodeHeader p = Some (hh_common hdrs) \<and>
     ValidateCommonHeader (hh_common hdrs) (page_no (Page_id p)) = HV_NONE \<and>
     subspan 32 16 (Page_bytes p) = HeapPageHeader_image (hh_heap hdrs) \<and>
     ValidateHeapHeaderGeometry (hh_heap hdrs) = HV_NONE \<and>
     length es = unat (hp_slot_count (hh_heap hdrs)) \<and>
     (\<forall>i < length es. slot_bytes (Page_bytes p) i = HeapSlotEntry_image (es ! i)) \<and>
     (\<forall>e \<in> set es. IsValidHeapSlotState (se_state e) \<and> entry_ok (hp_upper (hh_heap hdrs)) e) \<and>
     disjoint_entries es \<and>
     free_chain_ok es (hp_free_slot_head (hh_heap hdrs))"
proof -
  have "dir_entries (Page_bytes p) es \<longleftrightarrow>
      (\<forall>i < length es. slot_bytes (Page_bytes p) i = HeapSlotEntry_image (es ! i)) \<and>
      (\<forall>e \<in> set es. IsValidHeapSlotState (se_state e))"
    if "length es = unat (hp_slot_count (hh_heap hdrs))"
      and "ValidateHeapHeaderGeometry (hh_heap hdrs) = HV_NONE"
    using geometry_slot_count[OF that(2)] that(1) wf
    by (auto simp: dir_entries_def DecodeHeapSlotEntry_iff Page_wf_def all_set_conv_all_nth)
  then show ?thesis
    unfolding heap_structure_def HeapPage_Header_iff[OF wf] by blast
qed

text \<open>Bounds every structurally valid page has.\<close>

lemma heap_structure_bounds:
  assumes "heap_structure p hdrs es"
  shows "unat (hp_lower (hh_heap hdrs)) = 48 + 8 * length es"
    and "unat (hp_lower (hh_heap hdrs)) \<le> unat (hp_upper (hh_heap hdrs))"
    and "unat (hp_upper (hh_heap hdrs)) \<le> 8192"
    and "length es \<le> 1018"
    and "length es = unat (hp_slot_count (hh_heap hdrs))"
  using assms geometry_slot_count[of "hh_heap hdrs"]
  by (auto simp: heap_structure_def ValidateHeapHeaderGeometry_iff)

lemma heap_structure_retained:
  assumes "heap_structure p hdrs es" and "i < length es" and "retained (es ! i)"
  shows "unat (hp_upper (hh_heap hdrs)) \<le> unat (se_tuple_offset (es ! i))"
    and "range_end (es ! i) \<le> 8192"
    and "48 + 8 * length es \<le> unat (se_tuple_offset (es ! i))"
proof -
  have "entry_ok (hp_upper (hh_heap hdrs)) (es ! i)"
    using assms by (simp add: heap_structure_def)
  from entry_ok_retained[OF this assms(3)]
  show "unat (hp_upper (hh_heap hdrs)) \<le> unat (se_tuple_offset (es ! i))"
    "range_end (es ! i) \<le> 8192" by simp_all
  then show "48 + 8 * length es \<le> unat (se_tuple_offset (es ! i))"
    using heap_structure_bounds[OF assms(1)] by linarith
qed

section \<open>Reading a tuple\<close>

definition entry_bytes :: "byte list \<Rightarrow> HeapSlotEntry \<Rightarrow> byte list" where
  "entry_bytes b e = subspan (unat (se_tuple_offset e)) (unat (se_tuple_length e)) b"

lemma TupleBytes_eq:
  assumes "heap_structure p hdrs es"
  shows "HeapPage_TupleBytes H p s =
    (if unat s < length es \<and> se_state (es ! unat s) = NORMAL
     then Some (entry_bytes (Page_bytes p) (es ! unat s)) else None)"
proof -
  have "ValidateStructure H p = Ok hdrs" using assms ValidateStructure_Ok_iff by blast
  moreover have "DecodeHeapSlotEntry (slot_bytes (Page_bytes p) i) = Ok (es ! i)" if "i < length es" for i
    using assms that by (simp add: heap_structure_def dir_entries_def)
  ultimately show ?thesis
    using heap_structure_bounds(5)[OF assms]
    by (auto simp: HeapPage_TupleBytes_def entry_bytes_def word_le_nat_alt not_le)
qed

end
