(* ===== verification/Heap_Insert.thy ===== *)
theory Heap_Insert
  imports Heap_Page
begin

text \<open>
  Correctness of \<open>HeapPage::Initialize\<close>, \<open>Insert\<close> and \<open>MarkDead\<close>: each keeps
  the page valid, changes exactly the tuple it is about, and leaves the page alone when it
  reports an error.
\<close>

section \<open>Monotone facts\<close>

lemma entry_ok_mono:
  "entry_ok upper e \<Longrightarrow> unat upper' \<le> unat upper \<Longrightarrow> entry_ok upper' e"
  by (cases "se_state e")
    (auto simp: entry_ok_def ValidateSlotDescriptor_def Let_def split: if_splits)

lemma ValidateTupleForSlot_ok_iff:
  "tc_error (ValidateTupleForSlot t H rid n) = HV_NONE \<longleftrightarrow>
     (\<exists>h L. DecodeTupleHeader t = Ok h \<and> Resolve H (th_schema_version h) = Some L \<and>
        (\<exists>h'. ValidateTuple L t = Ok h') \<and>
        th_xmin h \<noteq> INVALID_TXN_ID \<and> th_xmax h \<noteq> FROZEN_TXN_ID \<and>
        (th_xmax h \<noteq> INVALID_TXN_ID \<or> th_cmax h = 0) \<and>
        (th_prev_page_no h = INVALID_PAGE_NO \<or>
         th_prev_page_no h \<noteq> 0 \<and>
         (th_prev_page_no h = page_no (page rid) \<longrightarrow>
            th_prev_slot h \<noteq> slot rid \<and> unat (th_prev_slot h) < unat n)))"
  by (auto simp: ValidateTupleForSlot_def tuple_check_def Let_def not_le not_less word_less_nat_alt
      word_le_nat_alt split: sum.splits option.splits)

lemma ValidateTupleForSlot_mono:
  "tc_error (ValidateTupleForSlot t H rid n) = HV_NONE \<Longrightarrow> unat n \<le> unat m \<Longrightarrow>
   tc_error (ValidateTupleForSlot t H rid m) = HV_NONE"
  unfolding ValidateTupleForSlot_ok_iff by (meson order_less_le_trans)

lemma ValidateTupleForSlot_length:
  "tc_error (ValidateTupleForSlot t H rid n) = HV_NONE \<Longrightarrow> 48 \<le> length t"
  unfolding ValidateTupleForSlot_ok_iff by (auto simp: DecodeTupleHeader_eq split: if_splits)

lemma free_chain_ok_cong:
  assumes "unused_slots es = unused_slots es'" and "length es \<le> 1018"
    and "\<And>i. i < length es \<Longrightarrow> se_state (es ! i) = UNUSED \<Longrightarrow> es' ! i = es ! i"
    and "free_chain_ok es head"
  shows "free_chain_ok es' head"
proof -
  obtain p where p: "linked es head p" "distinct p" "set p = unused_slots es"
    using assms(4) by (auto simp: free_chain_ok_def)
  have "linked es' head p"
    using p linked_cong[of p es es' head] assms(3) mem_unused_slots[OF assms(2)] by auto
  then show ?thesis using p assms(1) by (auto simp: free_chain_ok_def)
qed

lemma heap_structure_state:
  assumes "heap_structure p hdrs es" and "i < length es"
  shows "entry_ok (hp_upper (hh_heap hdrs)) (es ! i)"
    and "IsValidHeapSlotState (se_state (es ! i))"
    and "se_state (es ! i) = UNUSED \<or> se_state (es ! i) = NORMAL \<or> se_state (es ! i) = DEAD"
proof -
  show ok: "entry_ok (hp_upper (hh_heap hdrs)) (es ! i)"
    using assms by (simp add: heap_structure_def)
  have "DecodeHeapSlotEntry (slot_bytes (Page_bytes p) i) = Ok (es ! i)"
    using assms by (simp add: heap_structure_def dir_entries_def)
  then show v: "IsValidHeapSlotState (se_state (es ! i))"
    using slot_entry.decode_strict by (metis AsOptional_simps(1))
  show "se_state (es ! i) = UNUSED \<or> se_state (es ! i) = NORMAL \<or> se_state (es ! i) = DEAD"
    using entry_ok_state[OF ok v] .
qed

lemma heap_structure_normal:
  assumes "heap_structure p hdrs es" and "i < length es" and "se_state (es ! i) = NORMAL"
  shows "retained (es ! i)"
  using heap_structure_state(1)[OF assms(1,2)] assms(3) by (simp add: entry_ok_normal retained_def)

section \<open>Writes into a page\<close>

lemma slot_bytes_put_other:
  "i < 1018 \<Longrightarrow> length b = 8192 \<Longrightarrow> off + length ys \<le> 8192 \<Longrightarrow>
   off + length ys \<le> 48 + 8 * i \<or> 48 + 8 * i + 8 \<le> off \<Longrightarrow>
   slot_bytes (put off ys b) i = slot_bytes b i"
  unfolding slot_bytes_def by (rule subspan_put_other) auto

lemma slot_bytes_put_same:
  "i < 1018 \<Longrightarrow> length b = 8192 \<Longrightarrow> length ys = 8 \<Longrightarrow>
   slot_bytes (put (48 + 8 * i) ys b) i = ys"
  by (simp add: slot_bytes_def subspan_put_eq mult.commute)

lemma entry_bytes_put_other:
  "length b = 8192 \<Longrightarrow> off + length ys \<le> 8192 \<Longrightarrow> range_end e \<le> 8192 \<Longrightarrow>
   off + length ys \<le> unat (se_tuple_offset e) \<or> range_end e \<le> off \<Longrightarrow>
   entry_bytes (put off ys b) e = entry_bytes b e"
  unfolding entry_bytes_def by (rule subspan_put_other) (auto simp: range_end_def)

section \<open>Initialize\<close>

lemma zeros_subspan: "off + n \<le> m \<Longrightarrow> subspan off n (replicate m x) = replicate n x"
  by (simp add: subspan_def min_def)

lemma HeapPage_Initialize_ok:
  assumes wf: "Page_wf p" and n: "IsValidHeapPageNumber (page_no (Page_id p))"
  shows "\<exists>p' hdrs. HeapPage_Initialize p lsn = Some (Ok (), p') \<and> Page_wf p' \<and>
    Page_id p' = Page_id p \<and> heap_structure p' hdrs [] \<and>
    ch_page_lsn (hh_common hdrs) = lsn \<and> hh_heap hdrs = default_HeapPageHeader"
proof -
  define ch where "ch = \<lparr>ch_page_type = HEAP_DATA, ch_format_version = 1, ch_flags = 0,
    ch_page_lsn = lsn, ch_checksum_crc32c = 0, ch_header_size = 48, ch_reserved16 = 0,
    ch_page_no = page_no (Page_id p)\<rparr>"
  define b1 where "b1 = put 0 (CommonPageHeader_image ch) (replicate 8192 0)"
  define b2 where "b2 = put 32 (HeapPageHeader_image default_HeapPageHeader) b1"
  define p' where "p' = p\<lparr>Page_bytes := b2\<rparr>"
  have len: "length b1 = 8192" "length b2 = 8192" by (simp_all add: b1_def b2_def)
  have init: "HeapPage_Initialize p lsn = Some (Ok (), p')"
    using n wf len
    by (simp add: HeapPage_Initialize_def Page_Initialize_eq encode_at_def EncodeHeapPageHeader_eq
        p'_def b2_def b1_def ch_def)
  have "take 32 b2 = CommonPageHeader_image ch"
    using len subspan_put_other[of 32 "HeapPageHeader_image default_HeapPageHeader" b1 0 32]
      subspan_put_eq[of 32 "CommonPageHeader_image ch" 0 "replicate 8192 0"]
    by (simp add: b2_def b1_def subspan_0_take)
  then have dec: "Page_DecodeHeader p' = Some ch"
    using len by (simp add: Page_DecodeHeader_def p'_def common_header.decode_Some_iff ch_def)
  have "subspan 32 16 b2 = HeapPageHeader_image default_HeapPageHeader"
    using len by (simp add: b2_def subspan_put_eq)
  moreover have "ValidateHeapHeaderGeometry default_HeapPageHeader = HV_NONE"
    by (simp add: ValidateHeapHeaderGeometry_iff default_HeapPageHeader_def)
  moreover have "free_chain_ok [] INVALID_SLOT_ID"
    unfolding free_chain_ok_def by (rule exI[of _ "[]"]) (simp add: unused_slots_def)
  moreover have wf': "Page_wf p'" using len by (simp add: p'_def Page_wf_def)
  ultimately have "heap_structure p' \<lparr>hh_common = ch, hh_heap = default_HeapPageHeader\<rparr> []"
    using n dec unfolding heap_structure_iff[OF wf']
    by (simp add: ValidateCommonHeader_iff ch_def p'_def disjoint_entries_def
        default_HeapPageHeader_def)
  then show ?thesis
    using init wf' by (intro exI[of _ p'] exI[of _ "\<lparr>hh_common = ch, hh_heap = default_HeapPageHeader\<rparr>"])
      (simp add: p'_def ch_def)
qed

section \<open>Insert\<close>

definition insert_entry :: "HeapPageHeader \<Rightarrow> byte list \<Rightarrow> HeapSlotEntry" where
  "insert_entry hh t = \<lparr>se_tuple_offset = of_nat (unat (hp_upper hh) - length t),
     se_tuple_length = of_nat (length t), se_state = NORMAL, se_aux = 0\<rparr>"

definition insert_header :: "HeapPageHeader \<Rightarrow> byte list \<Rightarrow> HeapPageHeader" where
  "insert_header hh t = hh\<lparr>hp_slot_count := hp_slot_count hh + 1,
     hp_lower := of_nat (unat (hp_lower hh) + 8),
     hp_upper := of_nat (unat (hp_upper hh) - length t)\<rparr>"

definition insert_page :: "HeapPageHeader \<Rightarrow> byte list \<Rightarrow> Page \<Rightarrow> Page" where
  "insert_page hh t p = p\<lparr>Page_bytes :=
     put 32 (HeapPageHeader_image (insert_header hh t))
       (put (unat (hp_lower hh)) (HeapSlotEntry_image (insert_entry hh t))
         (put (unat (hp_upper hh) - length t) t (Page_bytes p)))\<rparr>"

text \<open>What \<open>Insert\<close> needs from its tuple, and what it then does.\<close>

definition insertable :: "HeapTupleSchemaHistory \<Rightarrow> Page \<Rightarrow> HeapPageHeaders \<Rightarrow> byte list \<Rightarrow> bool" where
  "insertable H p hdrs t \<longleftrightarrow> length t \<le> HEAP_PAGE_MAX_RAW_TUPLE_SIZE \<and>
     tc_error (ValidateTupleForSlot t H (Rid (Page_id p) (hp_slot_count (hh_heap hdrs)))
       (hp_slot_count (hh_heap hdrs) + 1)) = HV_NONE \<and>
     length t + 8 \<le> unat (hp_upper (hh_heap hdrs)) - unat (hp_lower (hh_heap hdrs))"

lemma Insert_Ok_iff:
  assumes s: "heap_structure p hdrs es"
  shows "HeapPage_Insert H p t = (Ok rid, p') \<longleftrightarrow>
     insertable H p hdrs t \<and> rid = Rid (Page_id p) (hp_slot_count (hh_heap hdrs)) \<and>
     p' = insert_page (hh_heap hdrs) t p"
proof -
  have v: "ValidateStructure H p = Ok hdrs" using s ValidateStructure_Ok_iff by blast
  have small: "unat (hp_lower (hh_heap hdrs)) + 8 \<le> 65535" "unat (hp_upper (hh_heap hdrs)) \<le> 65535"
    "unat (hp_slot_count (hh_heap hdrs)) \<noteq> 65535"
    using heap_structure_bounds[OF s] by auto
  show ?thesis
    using small by (auto simp: HeapPage_Insert_def v insertable_def insert_page_def insert_entry_def
        insert_header_def EncodeHeapSlotEntry_eq EncodeHeapPageHeader_eq Let_def)
qed

lemma Insert_error_frame: "HeapPage_Insert H p t = (Inl e, p') \<Longrightarrow> p' = p"
  by (auto simp: HeapPage_Insert_def Let_def split: sum.splits if_splits option.splits)

text \<open>The bytes of the page \<open>Insert\<close> leaves.\<close>

lemma insert_page_bytes:
  assumes wf: "Page_wf p" and s: "heap_structure p hdrs es" and ins: "insertable H p hdrs t"
  defines "b \<equiv> Page_bytes p" and "b' \<equiv> Page_bytes (insert_page (hh_heap hdrs) t p)"
    and "hh \<equiv> hh_heap hdrs"
  shows "length b' = 8192" and "take 32 b' = take 32 b"
    and "subspan 32 16 b' = HeapPageHeader_image (insert_header hh t)"
    and "i < length es \<Longrightarrow> slot_bytes b' i = slot_bytes b i"
    and "slot_bytes b' (length es) = HeapSlotEntry_image (insert_entry hh t)"
    and "subspan (unat (hp_upper hh) - length t) (length t) b' = t"
    and "unat (hp_upper hh) \<le> unat (se_tuple_offset e) \<Longrightarrow> range_end e \<le> 8192 \<Longrightarrow>
      entry_bytes b' e = entry_bytes b e"
    and "length es < 1018"
proof -
  note bd = heap_structure_bounds[OF s, folded hh_def]
  define nu where "nu = unat (hp_upper hh) - length t"
  have nu: "48 + 8 * length es + 8 \<le> nu" "nu + length t = unat (hp_upper hh)"
    using ins bd by (auto simp: insertable_def nu_def simp flip: hh_def)
  then show n: "length es < 1018" using bd(3) by linarith
  have len: "length b = 8192" using wf by (simp add: b_def Page_wf_def)
  define E where "E = HeapSlotEntry_image (insert_entry hh t)"
  define HI where "HI = HeapPageHeader_image (insert_header hh t)"
  have lE: "length E = 8" and lH: "length HI = 16" by (simp_all add: E_def HI_def)
  define b1 where "b1 = put nu t b"
  define b2 where "b2 = put (48 + 8 * length es) E b1"
  have b': "b' = put 32 HI b2"
    by (simp add: b'_def insert_page_def b2_def b1_def b_def nu_def HI_def E_def bd(1) hh_def[symmetric])
  have l1: "length b1 = 8192" using len nu bd(3) by (simp add: b1_def)
  have l2: "length b2 = 8192" using l1 lE n by (simp add: b2_def)
  show "length b' = 8192" using l2 lH by (simp add: b')
  show "take 32 b' = take 32 b"
    using l1 l2 len lE lH n nu bd(3) by (simp add: b' b2_def b1_def take_put_above)
  show "subspan 32 16 b' = HeapPageHeader_image (insert_header hh t)"
    using l2 lH by (simp add: b' subspan_put_eq flip: HI_def)
  show "slot_bytes b' i = slot_bytes b i" if "i < length es"
    using that l1 l2 len lE lH n nu bd(3) by (simp add: b' b2_def b1_def slot_bytes_put_other)
  show "slot_bytes b' (length es) = HeapSlotEntry_image (insert_entry hh t)"
    using l1 l2 lE lH n by (simp add: b' b2_def slot_bytes_put_other slot_bytes_put_same flip: E_def)
  show "subspan (unat (hp_upper hh) - length t) (length t) b' = t"
  proof -
    have "subspan nu (length t) b' = subspan nu (length t) b1"
      using l1 l2 lE lH n nu bd(3) by (simp add: b' b2_def subspan_put_other)
    also have "\<dots> = t" using len nu bd(3) by (simp add: b1_def subspan_put_eq)
    finally show ?thesis by (simp add: nu_def)
  qed
  show "entry_bytes b' e = entry_bytes b e"
    if "unat (hp_upper hh) \<le> unat (se_tuple_offset e)" "range_end e \<le> 8192"
    using that l1 l2 len lE lH n nu bd(3) by (simp add: b' b2_def b1_def entry_bytes_put_other)
qed

lemma unused_slots_snoc_used:
  "se_state e \<noteq> UNUSED \<Longrightarrow> unused_slots (es @ [e]) = unused_slots es"
  by (simp add: unused_slots_snoc)

lemma disjoint_entries_snoc:
  "disjoint_entries (es @ [e]) \<longleftrightarrow> disjoint_entries es \<and>
     (retained e \<longrightarrow> (\<forall>f \<in> set es. retained f \<longrightarrow> apart f e))"
proof -
  have sym: "apart f g \<longleftrightarrow> apart g f" for f g by (auto simp: apart_def)
  have "disjoint_entries (es @ [e]) \<longleftrightarrow> disjoint_entries es \<and>
      (\<forall>i < length es. retained (es ! i) \<longrightarrow> retained e \<longrightarrow> apart (es ! i) e)"
    unfolding disjoint_entries_def using sym
    by (simp add: All_less_Suc nth_append) blast
  then show ?thesis by (auto simp: all_set_conv_all_nth)
qed

lemma insert_heap_structure:
  assumes wf: "Page_wf p" and s: "heap_structure p hdrs es" and ins: "insertable H p hdrs t"
  defines "p' \<equiv> insert_page (hh_heap hdrs) t p"
    and "hdrs' \<equiv> \<lparr>hh_common = hh_common hdrs, hh_heap = insert_header (hh_heap hdrs) t\<rparr>"
    and "e \<equiv> insert_entry (hh_heap hdrs) t"
  shows "Page_wf p'" and "Page_id p' = Page_id p" and "heap_structure p' hdrs' (es @ [e])"
proof -
  define hh where "hh = hh_heap hdrs"
  note by' = insert_page_bytes[OF wf s ins, folded hh_def] and bd = heap_structure_bounds[OF s, folded hh_def]
  note s' = s[unfolded heap_structure_iff[OF wf], folded hh_def]
  show wf': "Page_wf p'" and id: "Page_id p' = Page_id p"
    using by'(1) by (simp_all add: p'_def Page_wf_def insert_page_def hh_def)
  have bytes: "Page_bytes p' = Page_bytes (insert_page hh t p)" by (simp add: p'_def hh_def)
  have t: "48 \<le> length t" "length t + 8 \<le> unat (hp_upper hh) - unat (hp_lower hh)"
    using ins ValidateTupleForSlot_length by (auto simp: insertable_def hh_def)
  define nu where "nu = unat (hp_upper hh) - length t"
  have nu: "nu + length t = unat (hp_upper hh)" "48 + 8 * length es + 8 \<le> nu" "nu \<le> 8192"
    using t bd by (auto simp: nu_def)
  have n: "length es < 1018" using by'(8) .
  have hdr: "unat (hp_slot_count (insert_header hh t)) = length es + 1"
    "unat (hp_lower (insert_header hh t)) = 48 + 8 * (length es + 1)"
    "unat (hp_upper (insert_header hh t)) = nu"
    "hp_free_slot_head (insert_header hh t) = hp_free_slot_head hh"
    "hp_reserved (insert_header hh t) = hp_reserved hh"
  proof -
    have "unat (hp_slot_count hh) = length es" using bd(5) by simp
    then show "unat (hp_slot_count (insert_header hh t)) = length es + 1"
      using n by (simp add: insert_header_def unat_word_ariths)
    show "unat (hp_lower (insert_header hh t)) = 48 + 8 * (length es + 1)"
    proof -
      have "hp_lower (insert_header hh t) = of_nat (48 + 8 * length es + 8)"
        by (simp add: insert_header_def bd(1))
      then show ?thesis using n unat_of_nat_16[of "48 + 8 * length es + 8"] by (simp only:) simp
    qed
    show "unat (hp_upper (insert_header hh t)) = nu"
      using nu(3) by (simp add: insert_header_def nu_def)
  qed (simp_all add: insert_header_def)
  have ent: "unat (se_tuple_offset e) = nu" "unat (se_tuple_length e) = length t"
    "se_state e = NORMAL" "se_aux e = 0"
  proof -
    show "unat (se_tuple_offset e) = nu"
      using nu(3) by (simp add: e_def insert_entry_def nu_def hh_def)
    have "length t < 65536" using nu bd(3) by linarith
    then show "unat (se_tuple_length e) = length t" by (simp add: e_def insert_entry_def)
  qed (simp_all add: e_def insert_entry_def)
  have ent_end: "range_end e = unat (hp_upper hh)" and ent_len: "se_tuple_length e \<noteq> 0"
    using ent nu t by (auto simp: range_end_def)
  have geo: "ValidateHeapHeaderGeometry (insert_header hh t) = HV_NONE"
    using s' hdr nu by (simp add: ValidateHeapHeaderGeometry_iff)
  have slots: "\<forall>i < length (es @ [e]). slot_bytes (Page_bytes p') i = HeapSlotEntry_image ((es @ [e]) ! i)"
    using s' by'(4,5) by (auto simp: bytes nth_append less_Suc_eq e_def hh_def)
  have ok: "\<forall>f \<in> set (es @ [e]). IsValidHeapSlotState (se_state f) \<and>
      entry_ok (hp_upper (insert_header hh t)) f"
    using s' hdr(3) nu ent ent_end ent_len entry_ok_normal[OF ent(3)] bd(3)
    by (auto intro: entry_ok_mono[of "hp_upper hh"])
  have "apart f e" if "f \<in> set es" "retained f" for f
    using heap_structure_retained(1)[OF s] that ent_end by (auto simp: apart_def in_set_conv_nth hh_def)
  then have disj: "disjoint_entries (es @ [e])" using s' by (simp add: disjoint_entries_snoc)
  have chain: "free_chain_ok (es @ [e]) (hp_free_slot_head hh)"
    by (rule free_chain_ok_cong[of es]) (use s' n ent in \<open>simp_all add: unused_slots_snoc nth_append\<close>)
  have "Page_DecodeHeader p' = Page_DecodeHeader p"
    by (rule Page_DecodeHeader_cong[OF wf' wf]) (simp add: bytes by'(2))
  then show "heap_structure p' hdrs' (es @ [e])"
    unfolding heap_structure_iff[OF wf']
    using s' geo slots ok disj chain hdr by'(3) id by (simp add: hdrs'_def bytes flip: hh_def)
qed

lemma insert_entry_bytes:
  assumes wf: "Page_wf p" and s: "heap_structure p hdrs es" and ins: "insertable H p hdrs t"
  defines "b' \<equiv> Page_bytes (insert_page (hh_heap hdrs) t p)"
  shows "entry_bytes b' (insert_entry (hh_heap hdrs) t) = t"
    and "i < length es \<Longrightarrow> retained (es ! i) \<Longrightarrow>
      entry_bytes b' (es ! i) = entry_bytes (Page_bytes p) (es ! i)"
proof -
  define hh where "hh = hh_heap hdrs"
  note by' = insert_page_bytes[OF wf s ins] and bd = heap_structure_bounds[OF s]
  have "length t + 8 \<le> unat (hp_upper hh) - unat (hp_lower hh)"
    using ins by (simp add: insertable_def hh_def)
  then have "unat (hp_upper hh) - length t < 65536" "length t < 65536"
    using bd(3) by (auto simp: hh_def)
  then have "unat (se_tuple_offset (insert_entry hh t)) = unat (hp_upper hh) - length t"
    "unat (se_tuple_length (insert_entry hh t)) = length t"
    unfolding insert_entry_def by simp_all
  then show "entry_bytes b' (insert_entry (hh_heap hdrs) t) = t"
    using by'(6) by (simp add: entry_bytes_def b'_def hh_def)
  show "entry_bytes b' (es ! i) = entry_bytes (Page_bytes p) (es ! i)"
    if "i < length es" "retained (es ! i)"
    unfolding b'_def by (rule by'(7)) (use heap_structure_retained[OF s that] in auto)
qed

lemma insert_tuples_ok:
  assumes wf: "Page_wf p" and s: "heap_structure p hdrs es" and ins: "insertable H p hdrs t"
    and tok: "tuples_ok H p es"
  shows "tuples_ok H (insert_page (hh_heap hdrs) t p) (es @ [insert_entry (hh_heap hdrs) t])"
    (is "tuples_ok H ?p' (es @ [?e])")
proof -
  have n: "length es < 1018" using insert_page_bytes(8)[OF wf s ins] .
  have id: "Page_id ?p' = Page_id p" using insert_heap_structure(2)[OF wf s ins] .
  have cnt: "hp_slot_count (hh_heap hdrs) = of_nat (length es)"
    using heap_structure_bounds(5)[OF s] by simp
  have new: "tc_error (ValidateTupleForSlot (entry_bytes (Page_bytes ?p') ?e) H
      (Rid (Page_id p) (of_nat (length es))) (of_nat (length es + 1))) = HV_NONE"
    using ins insert_entry_bytes(1)[OF wf s ins] by (simp add: insertable_def cnt add.commute)
  have old: "tc_error (ValidateTupleForSlot (entry_bytes (Page_bytes ?p') (es ! i)) H
      (Rid (Page_id p) (of_nat i)) (of_nat (length es + 1))) = HV_NONE"
    if i: "i < length es" "retained (es ! i)" for i
  proof (rule ValidateTupleForSlot_mono)
    show "tc_error (ValidateTupleForSlot (entry_bytes (Page_bytes ?p') (es ! i)) H
      (Rid (Page_id p) (of_nat i)) (of_nat (length es))) = HV_NONE"
      using tok i insert_entry_bytes(2)[OF wf s ins] by (simp add: tuples_ok_def entry_bytes_def)
    show "unat (of_nat (length es) :: 16 word) \<le> unat (of_nat (length es + 1) :: 16 word)"
      using n unat_of_nat_16[of "length es"] unat_of_nat_16[of "length es + 1"] by (simp only:)
  qed
  show ?thesis
    unfolding tuples_ok_def id
    using new old by (auto simp: nth_append less_Suc_eq entry_bytes_def)
qed

lemma Insert_preserves:
  assumes wf: "Page_wf p" and v: "ValidateStructure H p = Ok hdrs"
    and ins: "HeapPage_Insert H p t = (Ok rid, p')"
  shows "Page_wf p'" and "\<exists>hdrs'. ValidateStructure H p' = Ok hdrs'"
    and "Validate H p = Ok hdrs \<Longrightarrow> \<exists>hdrs'. Validate H p' = Ok hdrs'"
    and "rid = Rid (Page_id p) (hp_slot_count (hh_heap hdrs))"
    and "HeapPage_TupleBytes H p (slot rid) = None"
    and "HeapPage_TupleBytes H p' (slot rid) = Some t"
    and "s \<noteq> slot rid \<Longrightarrow> HeapPage_TupleBytes H p' s = HeapPage_TupleBytes H p s"
proof -
  obtain es where s: "heap_structure p hdrs es" using v ValidateStructure_Ok_iff by blast
  from ins have i: "insertable H p hdrs t"
    and r: "rid = Rid (Page_id p) (hp_slot_count (hh_heap hdrs))"
    and p': "p' = insert_page (hh_heap hdrs) t p"
    by (simp_all add: Insert_Ok_iff[OF s])
  let ?e = "insert_entry (hh_heap hdrs) t"
  note new = insert_heap_structure[OF wf s i, folded p']
  from new(1) show "Page_wf p'" .
  from new(3) show "\<exists>hdrs'. ValidateStructure H p' = Ok hdrs'" by (auto simp: ValidateStructure_Ok_iff)
  show "\<exists>hdrs'. Validate H p' = Ok hdrs'" if "Validate H p = Ok hdrs"
    using that new(3) insert_tuples_ok[OF wf s i, folded p'] heap_structure_unique[OF s]
    by (auto simp: Validate_Ok_iff)
  show "rid = Rid (Page_id p) (hp_slot_count (hh_heap hdrs))" by (rule r)
  have slot: "unat (slot rid) = length es" using heap_structure_bounds(5)[OF s] by (simp add: r)
  show "HeapPage_TupleBytes H p (slot rid) = None" using slot by (simp add: TupleBytes_eq[OF s])
  show "HeapPage_TupleBytes H p' (slot rid) = Some t"
    using slot insert_entry_bytes(1)[OF wf s i, folded p']
    by (simp add: TupleBytes_eq[OF new(3)] nth_append) (simp add: insert_entry_def)
  show "HeapPage_TupleBytes H p' s = HeapPage_TupleBytes H p s" if "s \<noteq> slot rid"
  proof -
    have "unat s \<noteq> length es" using that slot by (metis word_unat_eq_iff)
    then show ?thesis
      using heap_structure_normal[OF s] insert_entry_bytes(2)[OF wf s i, folded p']
      by (auto simp: TupleBytes_eq[OF s] TupleBytes_eq[OF new(3)] nth_append)
  qed
qed

section \<open>MarkDead\<close>

lemma MarkDead_Ok_iff:
  assumes s: "heap_structure p hdrs es"
  shows "HeapPage_MarkDead H p sl = (Ok (), p') \<longleftrightarrow>
     unat sl < length es \<and> se_state (es ! unat sl) = NORMAL \<and>
     p' = p\<lparr>Page_bytes := put (48 + 8 * unat sl)
       (HeapSlotEntry_image ((es ! unat sl)\<lparr>se_state := DEAD\<rparr>)) (Page_bytes p)\<rparr>"
proof (cases "unat sl < length es")
  case True
  have v: "ValidateStructure H p = Ok hdrs" using s ValidateStructure_Ok_iff by blast
  have d: "DecodeHeapSlotEntry (slot_bytes (Page_bytes p) (unat sl)) = Ok (es ! unat sl)"
    using s True by (simp add: heap_structure_def dir_entries_def)
  note st = heap_structure_state(3)[OF s True]
  show ?thesis
    using True heap_structure_bounds(5)[OF s] st
    by (auto simp: HeapPage_MarkDead_def v d EncodeHeapSlotEntry_eq word_le_nat_alt mult.commute)
next
  case False
  have v: "ValidateStructure H p = Ok hdrs" using s ValidateStructure_Ok_iff by blast
  show ?thesis using False heap_structure_bounds(5)[OF s]
    by (auto simp: HeapPage_MarkDead_def v word_le_nat_alt)
qed

lemma MarkDead_error_frame: "HeapPage_MarkDead H p s = (Inl e, p') \<Longrightarrow> p' = p"
  by (auto simp: HeapPage_MarkDead_def Let_def split: sum.splits if_splits option.splits)

lemma mark_dead_heap_structure:
  assumes wf: "Page_wf p" and s: "heap_structure p hdrs es"
    and i: "i < length es" and normal: "se_state (es ! i) = NORMAL"
  defines "e \<equiv> (es ! i)\<lparr>se_state := DEAD\<rparr>"
  defines "p' \<equiv> p\<lparr>Page_bytes := put (48 + 8 * i) (HeapSlotEntry_image e) (Page_bytes p)\<rparr>"
  shows "Page_wf p'" and "heap_structure p' hdrs (es[i := e])"
    and "f \<in> set es \<Longrightarrow> retained f \<Longrightarrow>
      entry_bytes (Page_bytes p') f = entry_bytes (Page_bytes p) f"
proof -
  note bd = heap_structure_bounds[OF s] and s' = s[unfolded heap_structure_iff[OF wf]]
  have len: "length (Page_bytes p) = 8192" using wf by (simp add: Page_wf_def)
  have i': "i < 1018" using i bd(4) by simp
  show wf': "Page_wf p'" using len i' by (simp add: p'_def Page_wf_def)
  have hd: "take 32 (Page_bytes p') = take 32 (Page_bytes p)"
    using len i' by (simp add: p'_def take_put_above)
  have hh: "subspan 32 16 (Page_bytes p') = subspan 32 16 (Page_bytes p)"
    using len i' by (simp add: p'_def subspan_put_other)
  have slots: "\<forall>j < length es. slot_bytes (Page_bytes p') j = HeapSlotEntry_image (es[i := e] ! j)"
  proof (intro allI impI)
    fix j assume j: "j < length es"
    show "slot_bytes (Page_bytes p') j = HeapSlotEntry_image (es[i := e] ! j)"
    proof (cases "j = i")
      case True
      then show ?thesis using len i' i by (simp add: p'_def slot_bytes_put_same)
    next
      case False
      then have "48 + 8 * i + 8 \<le> 48 + 8 * j \<or> 48 + 8 * j + 8 \<le> 48 + 8 * i" by linarith
      then show ?thesis using False len i' j bd(4) s'
        by (simp add: p'_def slot_bytes_put_other)
    qed
  qed
  have ret: "retained (es ! i)" using heap_structure_normal[OF s i normal] .
  have "entry_ok (hp_upper (hh_heap hdrs)) e"
  proof -
    have "se_tuple_offset (es ! i) \<noteq> 0"
      using heap_structure_retained(3)[OF s i ret] by auto
    then show ?thesis
      using heap_structure_state(1)[OF s i] entry_ok_normal[OF normal] entry_ok_dead[of e]
      by (auto simp: e_def range_end_def)
  qed
  then have ok: "\<forall>f \<in> set (es[i := e]). IsValidHeapSlotState (se_state f) \<and>
      entry_ok (hp_upper (hh_heap hdrs)) f"
    using s' set_update_subset_insert[of es i e] by (auto simp: e_def)
  have same: "retained (es[i := e] ! j) = retained (es ! j)"
    "se_tuple_offset (es[i := e] ! j) = se_tuple_offset (es ! j)"
    "range_end (es[i := e] ! j) = range_end (es ! j)" if "j < length es" for j
    using that i ret by (auto simp: nth_list_update e_def retained_def range_end_def)
  have disj: "disjoint_entries (es[i := e])"
    using s' same by (simp add: disjoint_entries_def apart_def)
  have chain: "free_chain_ok (es[i := e]) (hp_free_slot_head (hh_heap hdrs))"
  proof (rule free_chain_ok_cong[of es])
    have "se_state (es[i := e] ! j) = UNUSED \<longleftrightarrow> se_state (es ! j) = UNUSED" if "j < length es" for j
      using that i normal by (auto simp: nth_list_update e_def)
    then show "unused_slots es = unused_slots (es[i := e])"
      unfolding unused_slots_def by (metis (mono_tags, lifting) length_list_update)
    fix j assume "j < length es" and "se_state (es ! j) = UNUSED"
    then have "i \<noteq> j" using normal by auto
    then show "es[i := e] ! j = es ! j" by simp
  qed (use s' bd(4) in auto)
  have "Page_DecodeHeader p' = Page_DecodeHeader p"
    by (rule Page_DecodeHeader_cong[OF wf' wf hd])
  then show "heap_structure p' hdrs (es[i := e])"
    unfolding heap_structure_iff[OF wf'] using s' slots ok disj chain hh by (simp add: p'_def)
  show "entry_bytes (Page_bytes p') f = entry_bytes (Page_bytes p) f"
    if f: "f \<in> set es" "retained f" for f
  proof -
    obtain j where j: "j < length es" "f = es ! j" using f(1) by (auto simp: in_set_conv_nth)
    show ?thesis
      using heap_structure_retained[OF s j(1)] f(2) j i len i'
      by (simp add: p'_def) (rule entry_bytes_put_other, auto)
  qed
qed

lemma MarkDead_preserves:
  assumes wf: "Page_wf p" and v: "ValidateStructure H p = Ok hdrs"
    and mark: "HeapPage_MarkDead H p sl = (Ok (), p')"
  shows "Page_wf p'" and "ValidateStructure H p' = Ok hdrs"
    and "Validate H p = Ok hdrs \<Longrightarrow> Validate H p' = Ok hdrs"
    and "HeapPage_TupleBytes H p sl \<noteq> None" and "HeapPage_TupleBytes H p' sl = None"
    and "s \<noteq> sl \<Longrightarrow> HeapPage_TupleBytes H p' s = HeapPage_TupleBytes H p s"
proof -
  obtain es where s: "heap_structure p hdrs es" using v ValidateStructure_Ok_iff by blast
  from mark have i: "unat sl < length es" and normal: "se_state (es ! unat sl) = NORMAL"
    and p': "p' = p\<lparr>Page_bytes := put (48 + 8 * unat sl)
      (HeapSlotEntry_image ((es ! unat sl)\<lparr>se_state := DEAD\<rparr>)) (Page_bytes p)\<rparr>"
    by (simp_all add: MarkDead_Ok_iff[OF s])
  let ?e = "(es ! unat sl)\<lparr>se_state := DEAD\<rparr>"
  note new = mark_dead_heap_structure[OF wf s i normal, folded p']
  have id: "Page_id p' = Page_id p" by (simp add: p')
  from new(1) show "Page_wf p'" .
  from new(2) show "ValidateStructure H p' = Ok hdrs" by (auto simp: ValidateStructure_Ok_iff)
  show "Validate H p' = Ok hdrs" if "Validate H p = Ok hdrs"
  proof -
    have "tuples_ok H p es"
      using that heap_structure_unique[OF s] by (auto simp: Validate_Ok_iff)
    moreover have "retained (es[unat sl := ?e] ! j) \<Longrightarrow> j < length es \<Longrightarrow>
        retained (es ! j) \<and>
        entry_bytes (Page_bytes p') (es[unat sl := ?e] ! j) = entry_bytes (Page_bytes p) (es ! j)" for j
      using new(3)[of "es ! j"] heap_structure_normal[OF s i normal]
      by (cases "j = unat sl") (auto simp: nth_list_update entry_bytes_def retained_def)
    ultimately have "tuples_ok H p' (es[unat sl := ?e])"
      unfolding tuples_ok_def id by (simp add: entry_bytes_def)
    then show ?thesis using new(2) by (auto simp: Validate_Ok_iff)
  qed
  show "HeapPage_TupleBytes H p sl \<noteq> None" using i normal by (simp add: TupleBytes_eq[OF s])
  show "HeapPage_TupleBytes H p' sl = None" using i by (simp add: TupleBytes_eq[OF new(2)])
  show "HeapPage_TupleBytes H p' s = HeapPage_TupleBytes H p s" if "s \<noteq> sl"
  proof -
    have "unat s \<noteq> unat sl" using that by (metis word_unat_eq_iff)
    then show ?thesis
      using new(3) heap_structure_normal[OF s]
      by (auto simp: TupleBytes_eq[OF s] TupleBytes_eq[OF new(2)])
  qed
qed

end
