(* ===== verification/Heap_Compact.thy ===== *)
theory Heap_Compact
  imports Heap_Insert "HOL-Library.Multiset"
begin

text \<open>
  Compaction of a heap page: \<open>PlanCompaction\<close>, \<open>EncodeCompactedMetadata\<close>,
  \<open>ApplyCompaction\<close> and \<open>HeapPage::Compact\<close> of
  \<open>src/src/storage/heap/heap_page.cpp\<close>, as the debug build runs them: the outer
  \<open>None\<close> is the abort of \<open>DBLUS_ASSERT\<close>. \<open>std::size_t\<close> subtraction wraps.
\<close>

datatype HeapPageCompactError = COMPACT_PAGE_INVALID | UNSUPPORTED_SLOT_STATE

record HeapPageCompactFailure =
  cf_code :: HeapPageCompactError
  cf_page_error :: HeapPageValidationError
  cf_slot_id :: SlotId

record CompactionPlan =
  cp_slot_count :: "16 word"
  cp_planned_slots :: "HeapSlotEntry list"
  cp_source_offsets :: "16 word list"
  cp_source_lengths :: "16 word list"
  cp_live_order :: "SlotId list"
  cp_new_upper :: nat

definition CompactionPlan_new :: "16 word \<Rightarrow> CompactionPlan" where
  "CompactionPlan_new slot_count =
     \<lparr>cp_slot_count = slot_count,
      cp_planned_slots = replicate MAX_HEAP_PAGE_SLOT_COUNT default_HeapSlotEntry,
      cp_source_offsets = replicate MAX_HEAP_PAGE_SLOT_COUNT 0,
      cp_source_lengths = replicate MAX_HEAP_PAGE_SLOT_COUNT 0,
      cp_live_order = [], cp_new_upper = PAGE_SIZE\<rparr>"

definition size_sub :: "nat \<Rightarrow> nat \<Rightarrow> nat" where
  "size_sub a b = (if b \<le> a then a - b else a + 2 ^ 64 - b)"

text \<open>Reading the directory.\<close>

fun plan_slots ::
    "byte list \<Rightarrow> nat \<Rightarrow> nat \<Rightarrow> CompactionPlan \<Rightarrow> (CompactionPlan, HeapPageCompactFailure) result" where
  "plan_slots page_bytes 0 index plan = Ok plan"
| "plan_slots page_bytes (Suc n) index plan =
     (case DecodeHeapSlotEntry (slot_bytes page_bytes index) of
        Inl e \<Rightarrow> Unexpected \<lparr>cf_code = COMPACT_PAGE_INVALID, cf_page_error = slot_decode_error e,
                 cf_slot_id = of_nat index\<rparr>
      | Inr e \<Rightarrow>
          (let plan = plan\<lparr>cp_planned_slots := (cp_planned_slots plan)[index := e],
                 cp_source_offsets := (cp_source_offsets plan)[index := se_tuple_offset e],
                 cp_source_lengths := (cp_source_lengths plan)[index := se_tuple_length e]\<rparr>
           in if se_state e = NORMAL then
                plan_slots page_bytes n (index + 1)
                  (plan\<lparr>cp_live_order := cp_live_order plan @ [of_nat index]\<rparr>)
              else if se_state e = DEAD then
                plan_slots page_bytes n (index + 1)
                  (plan\<lparr>cp_planned_slots := (cp_planned_slots plan)
                     [index := e\<lparr>se_tuple_offset := 0, se_tuple_length := 0\<rparr>]\<rparr>)
              else if se_state e = UNUSED \<or> se_state e = REDIRECT_RESERVED then
                Unexpected \<lparr>cf_code = UNSUPPORTED_SLOT_STATE, cf_page_error = HV_NONE,
                  cf_slot_id = of_nat index\<rparr>
              else plan_slots page_bytes n (index + 1) plan))"

text \<open>Packing the live tuples against the page end, in descending source order.\<close>

definition live_key :: "CompactionPlan \<Rightarrow> SlotId \<Rightarrow> nat \<times> SlotId" where
  "live_key plan s = (65535 - unat (cp_source_offsets plan ! unat s), s)"

fun pack_live :: "SlotId list \<Rightarrow> CompactionPlan \<Rightarrow> CompactionPlan option" where
  "pack_live [] plan = Some plan"
| "pack_live (s # live) plan =
     (let new_upper = size_sub (cp_new_upper plan) (unat (cp_source_lengths plan ! unat s))
      in if \<not> new_upper \<ge> unat (cp_source_offsets plan ! unat s) then None
         else pack_live live (plan\<lparr>cp_new_upper := new_upper,
           cp_planned_slots := (cp_planned_slots plan)
             [unat s := (cp_planned_slots plan ! unat s)\<lparr>se_tuple_offset := of_nat new_upper\<rparr>]\<rparr>))"

definition PlanCompaction ::
    "byte list \<Rightarrow> 16 word \<Rightarrow> CompactionPlan \<Rightarrow> (CompactionPlan, HeapPageCompactFailure) result option" where
  "PlanCompaction page_bytes lower plan =
     (case plan_slots page_bytes (unat (cp_slot_count plan)) 0 plan of
        Inl e \<Rightarrow> Some (Unexpected e)
      | Inr plan \<Rightarrow>
          (let plan = plan\<lparr>cp_live_order := sort_key (live_key plan) (cp_live_order plan)\<rparr>
           in case pack_live (cp_live_order plan) (plan\<lparr>cp_new_upper := PAGE_SIZE\<rparr>) of
                None \<Rightarrow> None
              | Some plan \<Rightarrow>
                  if cp_new_upper plan < unat lower
                  then Some (Unexpected \<lparr>cf_code = COMPACT_PAGE_INVALID,
                         cf_page_error = LOWER_AFTER_UPPER, cf_slot_id = INVALID_SLOT_ID\<rparr>)
                  else Some (Ok plan)))"

fun encode_slots ::
    "CompactionPlan \<Rightarrow> nat \<Rightarrow> nat \<Rightarrow> byte list list \<Rightarrow>
     (byte list list, HeapPageCompactFailure) result" where
  "encode_slots plan 0 index encoded = Ok encoded"
| "encode_slots plan (Suc n) index encoded =
     (case EncodeHeapSlotEntry (encoded ! index) (cp_planned_slots plan ! index) of
        None \<Rightarrow> Unexpected \<lparr>cf_code = COMPACT_PAGE_INVALID, cf_page_error = HV_NONE,
                  cf_slot_id = of_nat index\<rparr>
      | Some bs \<Rightarrow> encode_slots plan n (index + 1) (encoded[index := bs]))"

definition EncodeCompactedMetadata ::
    "CompactionPlan \<Rightarrow> HeapPageHeader \<Rightarrow>
     (byte list list \<times> byte list, HeapPageCompactFailure) result" where
  "EncodeCompactedMetadata plan updated_header =
     (case encode_slots plan (unat (cp_slot_count plan)) 0
             (replicate MAX_HEAP_PAGE_SLOT_COUNT (replicate HEAP_PAGE_SLOT_ENTRY_ENCODED_SIZE 0)) of
        Inl e \<Rightarrow> Unexpected e
      | Inr encoded_slots \<Rightarrow>
          (case EncodeHeapPageHeader (replicate HEAP_PAGE_HEADER_ENCODED_SIZE 0) updated_header of
             None \<Rightarrow> Unexpected \<lparr>cf_code = COMPACT_PAGE_INVALID, cf_page_error = HV_NONE,
                       cf_slot_id = INVALID_SLOT_ID\<rparr>
           | Some encoded_header \<Rightarrow> Ok (encoded_slots, encoded_header)))"

text \<open>Writing: the tuples one by one, then the directory, then the header.\<close>

fun move_live :: "CompactionPlan \<Rightarrow> SlotId list \<Rightarrow> byte list \<Rightarrow> byte list" where
  "move_live plan [] page_bytes = page_bytes"
| "move_live plan (s # live) page_bytes =
     (let tuple_length = unat (cp_source_lengths plan ! unat s);
          destination = unat (se_tuple_offset (cp_planned_slots plan ! unat s));
          source = unat (cp_source_offsets plan ! unat s)
      in move_live plan live
           (if tuple_length > 0 \<and> destination \<noteq> source
            then put destination (subspan source tuple_length page_bytes) page_bytes
            else page_bytes))"

fun write_slots :: "byte list list \<Rightarrow> nat \<Rightarrow> nat \<Rightarrow> byte list \<Rightarrow> byte list" where
  "write_slots encoded 0 index page_bytes = page_bytes"
| "write_slots encoded (Suc n) index page_bytes =
     write_slots encoded n (index + 1)
       (put (HEAP_PAGE_SLOT_DIRECTORY_OFFSET + index * HEAP_PAGE_SLOT_ENTRY_ENCODED_SIZE)
          (encoded ! index) page_bytes)"

definition ApplyCompaction ::
    "byte list \<Rightarrow> CompactionPlan \<Rightarrow> byte list list \<Rightarrow> byte list \<Rightarrow> byte list" where
  "ApplyCompaction page_bytes plan encoded_slots encoded_header =
     put HEAP_PAGE_HEADER_OFFSET encoded_header
       (write_slots encoded_slots (unat (cp_slot_count plan)) 0
         (move_live plan (cp_live_order plan) page_bytes))"

definition HeapPage_Compact ::
    "HeapTupleSchemaHistory \<Rightarrow> Page \<Rightarrow> (HeapPageCompactFailure status \<times> Page) option" where
  "HeapPage_Compact schema_history p =
     (case ValidateStructure schema_history p of
        Inl e \<Rightarrow> Some (Unexpected \<lparr>cf_code = COMPACT_PAGE_INVALID, cf_page_error = vf_code e,
                       cf_slot_id = INVALID_SLOT_ID\<rparr>, p)
      | Inr validation \<Rightarrow>
          (let original_header = hh_heap validation
           in case PlanCompaction (Page_bytes p) (hp_lower original_header)
                     (CompactionPlan_new (hp_slot_count original_header)) of
                None \<Rightarrow> None
              | Some (Inl e) \<Rightarrow> Some (Unexpected e, p)
              | Some (Inr plan) \<Rightarrow>
                  (case EncodeCompactedMetadata plan
                          (original_header\<lparr>hp_upper := of_nat (cp_new_upper plan)\<rparr>) of
                     Inl e \<Rightarrow> Some (Unexpected e, p)
                   | Inr (encoded_slots, encoded_header) \<Rightarrow>
                       Some (Ok (), p\<lparr>Page_bytes :=
                         ApplyCompaction (Page_bytes p) plan encoded_slots encoded_header\<rparr>))))"

section \<open>Packing a set of ranges\<close>

text \<open>A move takes \<open>(source, length, destination)\<close>. Moves are packable below \<open>hi\<close>
  when they tile the bytes below \<open>hi\<close> downwards, every source lies below \<open>lim\<close> and
  the sources before it, and nothing moves down.\<close>

fun packable :: "nat \<Rightarrow> nat \<Rightarrow> (nat \<times> nat \<times> nat) list \<Rightarrow> bool" where
  "packable hi lim [] = True"
| "packable hi lim ((s, l, d) # ms) = (d + l = hi \<and> s + l \<le> lim \<and> s \<le> d \<and> packable d s ms)"

fun run_moves :: "(nat \<times> nat \<times> nat) list \<Rightarrow> byte list \<Rightarrow> byte list" where
  "run_moves [] b = b"
| "run_moves ((s, l, d) # ms) b = run_moves ms (put d (subspan s l b) b)"

definition moved :: "(nat \<times> nat \<times> nat) list \<Rightarrow> nat" where
  "moved ms = sum_list (map (\<lambda>(s, l, d). l) ms)"

lemma packable_moved: "packable hi lim ms \<Longrightarrow> lim \<le> hi \<Longrightarrow> moved ms \<le> hi"
  by (induction hi lim ms rule: packable.induct) (auto simp: moved_def)

lemma packable_dest:
  "packable hi lim ms \<Longrightarrow> lim \<le> hi \<Longrightarrow> (s, l, d) \<in> set ms \<Longrightarrow>
   hi - moved ms \<le> d \<and> d + l \<le> hi \<and> s + l \<le> lim"
proof (induction hi lim ms rule: packable.induct)
  case (2 hi lim s' l' d' ms)
  then show ?case using packable_moved[of d' s' ms] by (fastforce simp: moved_def)
qed simp

text \<open>The moves overlap, and a later source can lie where an earlier tuple was; none is
  overwritten before it has moved.\<close>

lemma run_moves_packable:
  "packable hi lim ms \<Longrightarrow> lim \<le> hi \<Longrightarrow> hi \<le> length b \<Longrightarrow>
   length (run_moves ms b) = length b \<and>
   (\<forall>i < length b. hi \<le> i \<or> i < hi - moved ms \<longrightarrow> run_moves ms b ! i = b ! i) \<and>
   (\<forall>(s, l, d) \<in> set ms. subspan d l (run_moves ms b) = subspan s l b)"
proof (induction hi lim ms arbitrary: b rule: packable.induct)
  case (2 hi lim s l d ms)
  define b1 where "b1 = put d (subspan s l b) b"
  have p: "d + l = hi" "s + l \<le> lim" "s \<le> d" "packable d s ms" using "2.prems" by auto
  have len: "length (subspan s l b) = l" "length b1 = length b"
    using p "2.prems" by (simp_all add: b1_def)
  note IH = "2.IH"[of b1]
  have m: "moved ((s, l, d) # ms) = l + moved ms" "moved ms \<le> d"
    using packable_moved[of d s ms] p by (simp_all add: moved_def)
  have IH': "length (run_moves ms b1) = length b"
    "\<And>i. i < length b \<Longrightarrow> d \<le> i \<or> i < d - moved ms \<Longrightarrow> run_moves ms b1 ! i = b1 ! i"
    "\<And>s' l' d'. (s', l', d') \<in> set ms \<Longrightarrow> subspan d' l' (run_moves ms b1) = subspan s' l' b1"
    using IH p len "2.prems" by auto
  have keep: "run_moves ms b1 ! i = b ! i" if "i < length b" "hi \<le> i \<or> i < hi - (l + moved ms)" for i
  proof -
    have "run_moves ms b1 ! i = b1 ! i" using that p(1) m by (intro IH'(2)) auto
    also have "\<dots> = b ! i" using that p len "2.prems" by (auto simp: b1_def nth_put)
    finally show ?thesis .
  qed
  have here: "subspan d l (run_moves ms b1) = subspan s l b"
  proof -
    have "subspan d l (run_moves ms b1) = subspan d l b1"
      by (rule region_eqI) (use IH' p len "2.prems" in auto)
    also have "\<dots> = subspan s l b" using p len "2.prems" by (simp add: b1_def subspan_put_eq)
    finally show ?thesis .
  qed
  have rest: "subspan d' l' (run_moves ms b1) = subspan s' l' b" if "(s', l', d') \<in> set ms" for s' l' d'
  proof -
    have "s' + l' \<le> s" using packable_dest[OF p(4) p(3) that] by simp
    then have "subspan s' l' b1 = subspan s' l' b"
      using p len "2.prems" by (simp add: b1_def subspan_put_other)
    then show ?thesis using IH'(3)[OF that] by simp
  qed
  show ?case using IH'(1) keep here rest by (auto simp: m(1) simp flip: b1_def)
qed simp

section \<open>The plan\<close>

definition reclaim :: "HeapSlotEntry \<Rightarrow> HeapSlotEntry" where
  "reclaim e = (if se_state e = DEAD then e\<lparr>se_tuple_offset := 0, se_tuple_length := 0\<rparr> else e)"

definition live_slots :: "HeapSlotEntry list \<Rightarrow> SlotId list" where
  "live_slots es = map of_nat (filter (\<lambda>i. se_state (es ! i) = NORMAL) [0..<length es])"

definition plan_of :: "16 word \<Rightarrow> HeapSlotEntry list \<Rightarrow> CompactionPlan" where
  "plan_of cnt es =
     \<lparr>cp_slot_count = cnt,
      cp_planned_slots = map reclaim es @ replicate (1018 - length es) default_HeapSlotEntry,
      cp_source_offsets = map se_tuple_offset es @ replicate (1018 - length es) 0,
      cp_source_lengths = map se_tuple_length es @ replicate (1018 - length es) 0,
      cp_live_order = live_slots es, cp_new_upper = 8192\<rparr>"

lemma plan_of_new: "CompactionPlan_new cnt = plan_of cnt []"
  by (simp add: CompactionPlan_new_def plan_of_def live_slots_def)

lemma update_at_length: "length xs = n \<Longrightarrow> (xs @ x # ys)[n := y] = xs @ y # ys"
  by auto

lemma padded_update:
  assumes "length xs = n" and "n < m"
  shows "(xs @ replicate (m - n) d)[n := x] = (xs @ [x]) @ replicate (m - Suc n) d"
proof -
  have "m - n = Suc (m - Suc n)" using assms(2) by simp
  then have "replicate (m - n) d = d # replicate (m - Suc n) d" by simp
  then show ?thesis using assms(1) by (simp add: update_at_length)
qed

lemma live_slots_snoc:
  "live_slots (es @ [e]) =
     live_slots es @ (if se_state e = NORMAL then [of_nat (length es)] else [])"
  unfolding live_slots_def using filter_upt_snoc[of "\<lambda>e. se_state e = NORMAL" es e] by simp

lemma plan_slots_step:
  assumes "DecodeHeapSlotEntry (slot_bytes b (length pre)) = Ok e" and "length pre < 1018"
    and "se_state e = NORMAL \<or> se_state e = DEAD"
  shows "plan_slots b (Suc n) (length pre) (plan_of cnt pre) =
    plan_slots b n (length (pre @ [e])) (plan_of cnt (pre @ [e]))"
  using assms padded_update[of "map reclaim pre" "length pre" 1018 default_HeapSlotEntry]
    padded_update[of "map se_tuple_offset pre" "length pre" 1018 0]
    padded_update[of "map se_tuple_length pre" "length pre" 1018 0]
  by (auto simp: plan_of_def live_slots_snoc reclaim_def Let_def update_at_length)

lemma plan_slots_Ok:
  "dir_entries b (pre @ es) \<Longrightarrow> length (pre @ es) \<le> 1018 \<Longrightarrow>
   \<forall>e \<in> set es. se_state e = NORMAL \<or> se_state e = DEAD \<Longrightarrow>
   plan_slots b (length es) (length pre) (plan_of cnt pre) = Ok (plan_of cnt (pre @ es))"
proof (induction es arbitrary: pre)
  case (Cons e es)
  have "DecodeHeapSlotEntry (slot_bytes b (length pre)) = Ok e"
    using Cons.prems(1) by (auto simp: dir_entries_def dest: spec[of _ "length pre"])
  then have "plan_slots b (Suc (length es)) (length pre) (plan_of cnt pre) =
      plan_slots b (length es) (length (pre @ [e])) (plan_of cnt (pre @ [e]))"
    by (rule plan_slots_step) (use Cons.prems in auto)
  then show ?case using Cons.IH[of "pre @ [e]"] Cons.prems by simp
qed simp

lemma plan_slots_unsupported:
  "dir_entries b (pre @ es) \<Longrightarrow> length (pre @ es) \<le> 1018 \<Longrightarrow>
   \<forall>e \<in> set es. se_state e = NORMAL \<or> se_state e = DEAD \<or> se_state e = UNUSED \<Longrightarrow>
   e \<in> set es \<Longrightarrow> se_state e = UNUSED \<Longrightarrow>
   \<exists>f. plan_slots b (length es) (length pre) (plan_of cnt pre) = Unexpected f \<and>
     cf_code f = UNSUPPORTED_SLOT_STATE"
proof (induction es arbitrary: pre)
  case (Cons f es)
  have d: "DecodeHeapSlotEntry (slot_bytes b (length pre)) = Ok f"
    using Cons.prems(1) by (auto simp: dir_entries_def dest: spec[of _ "length pre"])
  show ?case
  proof (cases "se_state f = UNUSED")
    case True
    then show ?thesis by (simp add: d)
  next
    case False
    then have "plan_slots b (Suc (length es)) (length pre) (plan_of cnt pre) =
        plan_slots b (length es) (length (pre @ [f])) (plan_of cnt (pre @ [f]))"
      using d Cons.prems by (intro plan_slots_step) auto
    then show ?thesis using Cons.IH[of "pre @ [f]"] Cons.prems False by auto
  qed
qed simp

section \<open>The destinations\<close>

fun dest_of :: "HeapSlotEntry list \<Rightarrow> nat \<Rightarrow> SlotId list \<Rightarrow> SlotId \<Rightarrow> nat" where
  "dest_of es hi [] x = 0"
| "dest_of es hi (s # ss) x =
     (let d = hi - unat (se_tuple_length (es ! unat s)) in if x = s then d else dest_of es d ss x)"

definition moves_of :: "HeapSlotEntry list \<Rightarrow> nat \<Rightarrow> SlotId list \<Rightarrow> (nat \<times> nat \<times> nat) list" where
  "moves_of es hi ss = map (\<lambda>s. (unat (se_tuple_offset (es ! unat s)),
     unat (se_tuple_length (es ! unat s)), dest_of es hi ss s)) ss"

lemma moves_of_Cons:
  assumes "distinct (s # ss)"
  shows "moves_of es hi (s # ss) =
    (unat (se_tuple_offset (es ! unat s)), unat (se_tuple_length (es ! unat s)),
     hi - unat (se_tuple_length (es ! unat s))) #
    moves_of es (hi - unat (se_tuple_length (es ! unat s))) ss"
proof -
  have "map (\<lambda>x. (unat (se_tuple_offset (es ! unat x)), unat (se_tuple_length (es ! unat x)),
      dest_of es hi (s # ss) x)) ss = moves_of es (hi - unat (se_tuple_length (es ! unat s))) ss"
    unfolding moves_of_def by (rule map_cong) (use assms in \<open>auto simp: Let_def\<close>)
  then show ?thesis by (simp add: moves_of_def Let_def)
qed

text \<open>Live slots in descending order: each ends before the previous one starts.\<close>

definition descending :: "HeapSlotEntry list \<Rightarrow> SlotId list \<Rightarrow> bool" where
  "descending es ss \<longleftrightarrow> distinct ss \<and>
     sorted_wrt (\<lambda>s t. range_end (es ! unat t) \<le> unat (se_tuple_offset (es ! unat s))) ss"

lemma moves_of_packable:
  "descending es ss \<Longrightarrow> \<forall>s \<in> set ss. range_end (es ! unat s) \<le> lim \<Longrightarrow> lim \<le> hi \<Longrightarrow>
   packable hi lim (moves_of es hi ss)"
proof (induction ss arbitrary: lim hi)
  case (Cons s ss)
  have d: "distinct (s # ss)" using Cons.prems(1) by (simp add: descending_def)
  have le: "unat (se_tuple_offset (es ! unat s)) + unat (se_tuple_length (es ! unat s)) \<le> lim"
    using Cons.prems(2) by (simp add: range_end_def)
  have "packable (hi - unat (se_tuple_length (es ! unat s))) (unat (se_tuple_offset (es ! unat s)))
      (moves_of es (hi - unat (se_tuple_length (es ! unat s))) ss)"
    by (rule Cons.IH) (use Cons.prems le in \<open>auto simp: descending_def\<close>)
  then show ?case using le Cons.prems(3) by (simp add: moves_of_Cons[OF d])
qed (simp add: moves_of_def)

lemma live_order_descending:
  assumes disj: "disjoint_entries es" and n: "length es \<le> 1018"
    and ret: "\<And>i. i < length es \<Longrightarrow> se_state (es ! i) = NORMAL \<Longrightarrow> retained (es ! i)"
  shows "descending es (sort_key (live_key (plan_of cnt es)) (live_slots es))"
proof -
  define ss where "ss = sort_key (live_key (plan_of cnt es)) (live_slots es)"
  have set: "set ss = of_nat ` {i. i < length es \<and> se_state (es ! i) = NORMAL}"
    by (auto simp: ss_def live_slots_def)
  have mem: "unat s < length es \<and> se_state (es ! unat s) = NORMAL" if "s \<in> set ss" for s
    using that n unfolding set by auto
  have "inj_on (of_nat :: nat \<Rightarrow> SlotId) {i. i < length es \<and> se_state (es ! i) = NORMAL}"
    by (rule inj_onI) (use n in \<open>auto simp: slot_id_eq_iff\<close>)
  then have dist: "distinct ss" by (simp add: ss_def live_slots_def distinct_map)
  have key: "live_key (plan_of cnt es) s = (65535 - unat (se_tuple_offset (es ! unat s)), s)"
    if "s \<in> set ss" for s
    using mem[OF that] by (simp add: live_key_def plan_of_def nth_append)
  have "range_end (es ! unat (ss ! j)) \<le> unat (se_tuple_offset (es ! unat (ss ! i)))"
    if ij: "i < j" "j < length ss" for i j
  proof -
    let ?s = "ss ! i" and ?t = "ss ! j"
    have st: "?s \<in> set ss" "?t \<in> set ss" "?s \<noteq> ?t" using ij dist by (auto simp: nth_eq_iff_index_eq)
    have "sorted (map (live_key (plan_of cnt es)) ss)" by (simp add: ss_def)
    then have "live_key (plan_of cnt es) ?s \<le> live_key (plan_of cnt es) ?t"
      using ij by (auto simp: sorted_iff_nth_mono)
    then have "65535 - unat (se_tuple_offset (es ! unat ?s)) \<le> 65535 - unat (se_tuple_offset (es ! unat ?t))"
      using key st by (auto simp: less_eq_prod_def)
    then have le: "unat (se_tuple_offset (es ! unat ?t)) \<le> unat (se_tuple_offset (es ! unat ?s))"
      using unat_16_le[of "se_tuple_offset (es ! unat ?t)"]
        unat_16_le[of "se_tuple_offset (es ! unat ?s)"] by linarith
    have "retained (es ! unat ?s)" "retained (es ! unat ?t)" using ret mem st by blast+
    moreover have "unat ?s \<noteq> unat ?t" using st(3) by (metis word_unat_eq_iff)
    ultimately have "apart (es ! unat ?s) (es ! unat ?t)" "se_tuple_length (es ! unat ?s) \<noteq> 0"
      using disj mem st by (auto simp: disjoint_entries_def retained_def)
    moreover from this have "0 < unat (se_tuple_length (es ! unat ?s))" by (simp add: unat_gt_0)
    ultimately show ?thesis using le by (auto simp: apart_def range_end_def)
  qed
  then show ?thesis
    using dist unfolding ss_def[symmetric] by (simp add: descending_def sorted_wrt_iff_nth_less)
qed

lemma pack_live_Some:
  "descending es ss \<Longrightarrow> \<forall>s \<in> set ss. range_end (es ! unat s) \<le> lim \<Longrightarrow> lim \<le> cp_new_upper plan \<Longrightarrow>
   \<forall>s \<in> set ss. cp_source_offsets plan ! unat s = se_tuple_offset (es ! unat s) \<and>
     cp_source_lengths plan ! unat s = se_tuple_length (es ! unat s) \<Longrightarrow>
   \<exists>pl. pack_live ss plan = Some (plan
       \<lparr>cp_new_upper := cp_new_upper plan - moved (moves_of es (cp_new_upper plan) ss),
        cp_planned_slots := pl\<rparr>) \<and>
     length pl = length (cp_planned_slots plan) \<and>
     (\<forall>x. unat x < length pl \<longrightarrow> pl ! unat x =
       (if x \<in> set ss
        then (cp_planned_slots plan ! unat x)
          \<lparr>se_tuple_offset := of_nat (dest_of es (cp_new_upper plan) ss x)\<rparr>
        else cp_planned_slots plan ! unat x))"
proof (induction ss arbitrary: lim plan)
  case Nil
  show ?case by (rule exI[of _ "cp_planned_slots plan"]) (simp add: moves_of_def moved_def)
next
  case (Cons s ss)
  have dist: "distinct (s # ss)" and desc: "descending es ss"
    using Cons.prems(1) by (auto simp: descending_def)
  define l where "l = unat (se_tuple_length (es ! unat s))"
  define d where "d = cp_new_upper plan - l"
  define plan1 where "plan1 = plan\<lparr>cp_new_upper := d, cp_planned_slots := (cp_planned_slots plan)
    [unat s := (cp_planned_slots plan ! unat s)\<lparr>se_tuple_offset := of_nat d\<rparr>]\<rparr>"
  have le: "unat (se_tuple_offset (es ! unat s)) + l \<le> lim"
    using Cons.prems(2) by (simp add: range_end_def l_def)
  have sub: "size_sub (cp_new_upper plan) (unat (cp_source_lengths plan ! unat s)) = d"
    using le Cons.prems(3,4) by (simp add: size_sub_def d_def l_def)
  have step: "pack_live (s # ss) plan = pack_live ss plan1"
  proof -
    have "unat (cp_source_offsets plan ! unat s) \<le> d"
      using le Cons.prems(3,4) by (simp add: d_def)
    then show ?thesis unfolding pack_live.simps Let_def sub plan1_def by simp
  qed
  have "\<exists>pl. pack_live ss plan1 = Some (plan1
       \<lparr>cp_new_upper := cp_new_upper plan1 - moved (moves_of es (cp_new_upper plan1) ss),
        cp_planned_slots := pl\<rparr>) \<and>
     length pl = length (cp_planned_slots plan1) \<and>
     (\<forall>x. unat x < length pl \<longrightarrow> pl ! unat x =
       (if x \<in> set ss
        then (cp_planned_slots plan1 ! unat x)
          \<lparr>se_tuple_offset := of_nat (dest_of es (cp_new_upper plan1) ss x)\<rparr>
        else cp_planned_slots plan1 ! unat x))"
    by (rule Cons.IH[of "unat (se_tuple_offset (es ! unat s))"])
      (use Cons.prems le desc in \<open>auto simp: plan1_def d_def descending_def\<close>)
  then obtain pl where pl: "pack_live ss plan1 = Some (plan1
       \<lparr>cp_new_upper := d - moved (moves_of es d ss), cp_planned_slots := pl\<rparr>)"
     "length pl = length (cp_planned_slots plan)"
     "\<And>x. unat x < length pl \<Longrightarrow> pl ! unat x =
       (if x \<in> set ss
        then (cp_planned_slots plan1 ! unat x)\<lparr>se_tuple_offset := of_nat (dest_of es d ss x)\<rparr>
        else cp_planned_slots plan1 ! unat x)"
    by (auto simp: plan1_def)
  have mv: "moved (moves_of es (cp_new_upper plan) (s # ss)) = l + moved (moves_of es d ss)"
    by (simp add: moves_of_Cons[OF dist] moved_def d_def l_def)
  have at: "cp_planned_slots plan1 ! unat x =
      (if x = s then (cp_planned_slots plan ! unat s)\<lparr>se_tuple_offset := of_nat d\<rparr>
       else cp_planned_slots plan ! unat x)" if "unat x < length pl" for x
  proof (cases "x = s")
    case False
    then have "unat s \<noteq> unat x" by (metis word_unat_eq_iff)
    then show ?thesis using False by (simp add: plan1_def)
  qed (use that pl(2) in \<open>simp add: plan1_def\<close>)
  have dest: "dest_of es (cp_new_upper plan) (s # ss) x = (if x = s then d else dest_of es d ss x)" for x
    by (simp add: d_def l_def Let_def)
  have "pl ! unat x =
       (if x \<in> set (s # ss)
        then (cp_planned_slots plan ! unat x)
          \<lparr>se_tuple_offset := of_nat (dest_of es (cp_new_upper plan) (s # ss) x)\<rparr>
        else cp_planned_slots plan ! unat x)" if "unat x < length pl" for x
    unfolding pl(3)[OF that] at[OF that] dest using dist by auto
  moreover have "pack_live (s # ss) plan = Some (plan
       \<lparr>cp_new_upper := cp_new_upper plan - moved (moves_of es (cp_new_upper plan) (s # ss)),
        cp_planned_slots := pl\<rparr>)"
    unfolding step mv pl(1) by (simp add: plan1_def d_def)
  ultimately show ?case using pl(2) by blast
qed

section \<open>Encoding and writing the directory\<close>

lemma encode_slots_Ok:
  "index + n \<le> length enc \<Longrightarrow> \<forall>bs \<in> set enc. length bs = 8 \<Longrightarrow>
   \<forall>i. index \<le> i \<and> i < index + n \<longrightarrow> IsValidHeapSlotState (se_state (cp_planned_slots plan ! i)) \<Longrightarrow>
   \<exists>enc'. encode_slots plan n index enc = Ok enc' \<and>
     (\<forall>i. i < index \<longrightarrow> enc' ! i = enc ! i) \<and>
     (\<forall>i. index \<le> i \<and> i < index + n \<longrightarrow>
        enc' ! i = HeapSlotEntry_image (cp_planned_slots plan ! i))"
proof (induction n arbitrary: index enc)
  case (Suc n)
  let ?e = "cp_planned_slots plan ! index"
  have len: "length (enc ! index) = 8" using Suc.prems by simp
  have enc: "EncodeHeapSlotEntry (enc ! index) ?e = Some (HeapSlotEntry_image ?e)"
    using Suc.prems(3) len by (simp add: EncodeHeapSlotEntry_eq)
  obtain enc' where e': "encode_slots plan n (index + 1) (enc[index := HeapSlotEntry_image ?e]) = Ok enc'"
    "\<forall>i. i < index + 1 \<longrightarrow> enc' ! i = enc[index := HeapSlotEntry_image ?e] ! i"
    "\<forall>i. index + 1 \<le> i \<and> i < index + 1 + n \<longrightarrow>
        enc' ! i = HeapSlotEntry_image (cp_planned_slots plan ! i)"
    using Suc.IH[of "index + 1" "enc[index := HeapSlotEntry_image ?e]"] Suc.prems
      set_update_subset_insert[of enc index "HeapSlotEntry_image ?e"] by fastforce
  have "enc' ! i = HeapSlotEntry_image (cp_planned_slots plan ! i)"
    if "index \<le> i \<and> i < index + Suc n" for i
    using that e'(2,3) Suc.prems(1) by (cases "i = index") auto
  moreover have "enc' ! i = enc ! i" if "i < index" for i using that e'(2) by simp
  ultimately show ?case using e'(1) by (simp add: enc)
qed auto

lemma write_slots_bytes:
  "index + n \<le> 1018 \<Longrightarrow> length b = 8192 \<Longrightarrow>
   \<forall>i. index \<le> i \<and> i < index + n \<longrightarrow> length (enc ! i) = 8 \<Longrightarrow>
   length (write_slots enc n index b) = 8192 \<and>
   (\<forall>i. i < index \<longrightarrow> slot_bytes (write_slots enc n index b) i = slot_bytes b i) \<and>
   (\<forall>i. index \<le> i \<and> i < index + n \<longrightarrow> slot_bytes (write_slots enc n index b) i = enc ! i) \<and>
   (\<forall>off m. off + m \<le> 48 + 8 * index \<or> 48 + 8 * (index + n) \<le> off \<longrightarrow> off + m \<le> 8192 \<longrightarrow>
      subspan off m (write_slots enc n index b) = subspan off m b)"
proof (induction n arbitrary: index b)
  case (Suc n)
  define b1 where "b1 = put (48 + 8 * index) (enc ! index) b"
  have l: "length (enc ! index) = 8" "length b1 = 8192" using Suc.prems by (auto simp: b1_def)
  have w: "write_slots enc (Suc n) index b = write_slots enc n (index + 1) b1"
    by (simp add: b1_def mult.commute)
  have IH: "length (write_slots enc n (index + 1) b1) = 8192"
   "\<And>i. i < index + 1 \<Longrightarrow> slot_bytes (write_slots enc n (index + 1) b1) i = slot_bytes b1 i"
   "\<And>i. index + 1 \<le> i \<Longrightarrow> i < index + 1 + n \<Longrightarrow>
      slot_bytes (write_slots enc n (index + 1) b1) i = enc ! i"
   "\<And>off m. off + m \<le> 48 + 8 * (index + 1) \<or> 48 + 8 * (index + 1 + n) \<le> off \<Longrightarrow> off + m \<le> 8192 \<Longrightarrow>
      subspan off m (write_slots enc n (index + 1) b1) = subspan off m b1"
    using Suc.IH[of "index + 1" b1] Suc.prems l by auto
  have "slot_bytes (write_slots enc n (index + 1) b1) i = enc ! i"
    if "index \<le> i" "i < index + Suc n" for i
  proof (cases "i = index")
    case True
    then show ?thesis using IH(2)[of index] l Suc.prems(1,2)
      by (simp add: b1_def slot_bytes_put_same)
  qed (use IH(3)[of i] that in auto)
  moreover have "slot_bytes (write_slots enc n (index + 1) b1) i = slot_bytes b i" if "i < index" for i
    using IH(2)[of i] that l Suc.prems(1,2) by (simp add: b1_def slot_bytes_put_other)
  moreover have "subspan off m (write_slots enc n (index + 1) b1) = subspan off m b"
    if "off + m \<le> 48 + 8 * index \<or> 48 + 8 * (index + Suc n) \<le> off" "off + m \<le> 8192" for off m
  proof -
    have "subspan off m (write_slots enc n (index + 1) b1) = subspan off m b1"
      using that by (intro IH(4)) auto
    also have "\<dots> = subspan off m b"
      unfolding b1_def by (rule subspan_put_other) (use that l Suc.prems(1,2) in auto)
    finally show ?thesis .
  qed
  ultimately show ?case unfolding w using IH(1) by auto
qed auto

lemma move_live_run:
  "\<forall>s \<in> set ss. unat (cp_source_offsets plan ! unat s) = O' s \<and>
     unat (cp_source_lengths plan ! unat s) = L' s \<and>
     unat (se_tuple_offset (cp_planned_slots plan ! unat s)) = D' s \<and>
     O' s + L' s \<le> length b \<and> D' s + L' s \<le> length b \<Longrightarrow>
   move_live plan ss b = run_moves (map (\<lambda>s. (O' s, L' s, D' s)) ss) b"
proof (induction ss arbitrary: b)
  case (Cons s ss)
  have f: "unat (cp_source_offsets plan ! unat s) = O' s"
    "unat (cp_source_lengths plan ! unat s) = L' s"
    "unat (se_tuple_offset (cp_planned_slots plan ! unat s)) = D' s"
    "O' s + L' s \<le> length b" "D' s + L' s \<le> length b" using Cons.prems by auto
  have "(if L' s > 0 \<and> D' s \<noteq> O' s then put (D' s) (subspan (O' s) (L' s) b) b else b) =
      put (D' s) (subspan (O' s) (L' s) b) b"
  proof (cases "L' s = 0")
    case True
    then show ?thesis by (simp add: subspan_def)
  next
    case False
    then show ?thesis using f(4) by simp
  qed
  moreover have "length (put (D' s) (subspan (O' s) (L' s) b) b) = length b"
    using f by simp
  ultimately show ?case
    using Cons.IH[of "put (D' s) (subspan (O' s) (L' s) b) b"] Cons.prems f by simp
qed simp

section \<open>The compacted page\<close>

definition live_order :: "HeapSlotEntry list \<Rightarrow> SlotId list" where
  "live_order es = sort_key (live_key (plan_of 0 es)) (live_slots es)"

definition compacted :: "HeapSlotEntry list \<Rightarrow> HeapSlotEntry list" where
  "compacted es =
     map (\<lambda>i. if se_state (es ! i) = NORMAL
       then (es ! i)\<lparr>se_tuple_offset := of_nat (dest_of es 8192 (live_order es) (of_nat i))\<rparr>
       else reclaim (es ! i)) [0..<length es]"

definition live_bytes :: "HeapSlotEntry list \<Rightarrow> nat" where
  "live_bytes es =
     sum_list (map (\<lambda>e. unat (se_tuple_length e)) (filter (\<lambda>e. se_state e = NORMAL) es))"

lemma set_live_order:
  "length es \<le> 1018 \<Longrightarrow> s \<in> set (live_order es) \<longleftrightarrow>
   unat s < length es \<and> se_state (es ! unat s) = NORMAL"
proof
  assume n: "length es \<le> 1018"
  show "s \<in> set (live_order es) \<Longrightarrow> unat s < length es \<and> se_state (es ! unat s) = NORMAL"
    using n by (auto simp: live_order_def live_slots_def)
  assume a: "unat s < length es \<and> se_state (es ! unat s) = NORMAL"
  have "s = of_nat (unat s)" by simp
  then show "s \<in> set (live_order es)"
    using a by (auto simp: live_order_def live_slots_def intro!: image_eqI[of s of_nat "unat s"])
qed

lemma live_order_key: "sort_key (live_key (plan_of cnt es)) (live_slots es) = live_order es"
proof -
  have "live_key (plan_of cnt es) = live_key (plan_of 0 es)"
    by (rule ext) (simp add: live_key_def plan_of_def)
  then show ?thesis by (simp add: live_order_def)
qed

lemma moved_live_bytes:
  assumes "length es \<le> 1018"
  shows "moved (moves_of es hi (live_order es)) = live_bytes es"
proof -
  have "moved (moves_of es hi (live_order es)) =
      sum_list (map (\<lambda>s. unat (se_tuple_length (es ! unat s))) (live_order es))"
    by (simp add: moved_def moves_of_def comp_def)
  also have "\<dots> = sum_mset (image_mset (\<lambda>s. unat (se_tuple_length (es ! unat s))) (mset (live_order es)))"
    by (simp flip: sum_mset_sum_list)
  also have "mset (live_order es) = mset (live_slots es)" by (simp add: live_order_def)
  also have "sum_mset (image_mset (\<lambda>s. unat (se_tuple_length (es ! unat s))) (mset (live_slots es))) =
      sum_list (map (\<lambda>s. unat (se_tuple_length (es ! unat s))) (live_slots es))"
    by (simp flip: sum_mset_sum_list)
  also have "map (\<lambda>s. unat (se_tuple_length (es ! unat s))) (live_slots es) =
      map (\<lambda>i. unat (se_tuple_length (es ! i))) (filter (\<lambda>i. se_state (es ! i) = NORMAL) [0..<length es])"
    unfolding live_slots_def map_map
    by (rule map_cong) (use assms in auto)
  also have "\<dots> = map (\<lambda>e. unat (se_tuple_length e)) (filter (\<lambda>e. se_state e = NORMAL) es)"
  proof -
    have "es = map (\<lambda>i. es ! i) [0..<length es]" by (simp add: map_nth)
    then have "filter (\<lambda>e. se_state e = NORMAL) es =
        map (\<lambda>i. es ! i) (filter (\<lambda>i. se_state (es ! i) = NORMAL) [0..<length es])"
      by (metis (no_types, lifting) comp_apply filter_cong filter_map)
    then show ?thesis by simp
  qed
  finally show ?thesis by (simp add: live_bytes_def)
qed

end
