(* ===== verification/Heap_Reclaim.thy ===== *)
theory Heap_Reclaim
  imports Heap_Compact
begin

text \<open>
  Correctness of \<open>HeapPage::Compact\<close>: on every valid page without unused slots it
  succeeds, no internal assertion fires, every normal slot keeps its tuple, the page stays
  valid, and all bytes of dead tuples become free space.
\<close>

lemma packable_lower:
  "packable hi lim ms \<Longrightarrow> \<forall>(s, l, d) \<in> set ms. u \<le> s \<Longrightarrow> u \<le> hi \<Longrightarrow> u \<le> hi - moved ms"
proof (induction hi lim ms rule: packable.induct)
  case (2 hi lim s l d ms)
  then show ?case by (auto simp: moved_def)
qed (simp add: moved_def)

text \<open>The setting of every lemma below: a valid page whose slots are all normal or dead.\<close>

definition compactable :: "Page \<Rightarrow> HeapPageHeaders \<Rightarrow> HeapSlotEntry list \<Rightarrow> bool" where
  "compactable p hdrs es \<longleftrightarrow> Page_wf p \<and> heap_structure p hdrs es \<and>
     (\<forall>e \<in> set es. se_state e = NORMAL \<or> se_state e = DEAD)"

lemma compactable_facts:
  assumes c: "compactable p hdrs es"
  shows "length es \<le> 1018"
    and "descending es (live_order es)"
    and "s \<in> set (live_order es) \<Longrightarrow> range_end (es ! unat s) \<le> 8192"
    and "s \<in> set (live_order es) \<Longrightarrow>
      unat (hp_upper (hh_heap hdrs)) \<le> unat (se_tuple_offset (es ! unat s))"
    and "packable 8192 8192 (moves_of es 8192 (live_order es))"
    and "unat (hp_upper (hh_heap hdrs)) \<le> 8192 - live_bytes es" and "live_bytes es \<le> 8192"
proof -
  have s: "heap_structure p hdrs es" using c by (simp add: compactable_def)
  show n: "length es \<le> 1018" using heap_structure_bounds(4)[OF s] .
  have mem: "unat s < length es \<and> retained (es ! unat s)" if "s \<in> set (live_order es)" for s
    using that set_live_order[OF n] heap_structure_normal[OF s] by blast
  show desc: "descending es (live_order es)"
    unfolding live_order_def using live_order_descending[OF _ n] s heap_structure_normal[OF s]
    by (simp add: heap_structure_def)
  show e: "range_end (es ! unat x) \<le> 8192" if "x \<in> set (live_order es)" for x
    using heap_structure_retained(2)[OF s] mem[OF that] by blast
  show u: "unat (hp_upper (hh_heap hdrs)) \<le> unat (se_tuple_offset (es ! unat x))"
    if "x \<in> set (live_order es)" for x
    using heap_structure_retained(1)[OF s] mem[OF that] by blast
  show pk: "packable 8192 8192 (moves_of es 8192 (live_order es))"
    by (rule moves_of_packable[OF desc]) (use e in auto)
  show "unat (hp_upper (hh_heap hdrs)) \<le> 8192 - live_bytes es"
    unfolding moved_live_bytes[OF n, of 8192, symmetric]
    by (rule packable_lower[OF pk]) (use u heap_structure_bounds(3)[OF s] in \<open>auto simp: moves_of_def\<close>)
  show "live_bytes es \<le> 8192"
    using packable_moved[OF pk] moved_live_bytes[OF n] by simp
qed

text \<open>Where a live tuple goes.\<close>

lemma dest_bounds:
  assumes c: "compactable p hdrs es" and x: "x \<in> set (live_order es)"
  defines "d \<equiv> dest_of es 8192 (live_order es) x" and "l \<equiv> unat (se_tuple_length (es ! unat x))"
  shows "8192 - live_bytes es \<le> d" and "d + l \<le> 8192"
    and "unat (of_nat d :: 16 word) = d"
proof -
  have "(unat (se_tuple_offset (es ! unat x)), l, d) \<in> set (moves_of es 8192 (live_order es))"
    using x by (simp add: moves_of_def d_def l_def)
  from packable_dest[OF compactable_facts(5)[OF c] order_refl this]
  show "8192 - live_bytes es \<le> d" "d + l \<le> 8192"
    by (simp_all add: moved_live_bytes[OF compactable_facts(1)[OF c]])
  then have "d < 65536" by linarith
  then show "unat (of_nat d :: 16 word) = d" by (rule unat_of_nat_16)
qed

lemma compacted_nth:
  "i < length es \<Longrightarrow> compacted es ! i =
     (if se_state (es ! i) = NORMAL
      then (es ! i)\<lparr>se_tuple_offset := of_nat (dest_of es 8192 (live_order es) (of_nat i))\<rparr>
      else reclaim (es ! i))"
  by (simp add: compacted_def)

lemma length_compacted [simp]: "length (compacted es) = length es"
  by (simp add: compacted_def)

lemma PlanCompaction_Ok:
  assumes c: "compactable p hdrs es"
  shows "\<exists>plan. PlanCompaction (Page_bytes p) (hp_lower (hh_heap hdrs))
      (CompactionPlan_new (hp_slot_count (hh_heap hdrs))) = Some (Ok plan) \<and>
    unat (cp_slot_count plan) = length es \<and> cp_new_upper plan = 8192 - live_bytes es \<and>
    cp_live_order plan = live_order es \<and>
    (\<forall>i < length es. cp_planned_slots plan ! i = compacted es ! i \<and>
       cp_source_offsets plan ! i = se_tuple_offset (es ! i) \<and>
       cp_source_lengths plan ! i = se_tuple_length (es ! i))"
proof -
  have s: "heap_structure p hdrs es" and live: "\<forall>e \<in> set es. se_state e = NORMAL \<or> se_state e = DEAD"
    using c by (auto simp: compactable_def)
  note f = compactable_facts[OF c] and bd = heap_structure_bounds[OF s]
  define cnt where "cnt = hp_slot_count (hh_heap hdrs)"
  define ss where "ss = live_order es"
  have "dir_entries (Page_bytes p) es" using s by (simp add: heap_structure_def)
  then have slots: "plan_slots (Page_bytes p) (unat cnt) 0 (plan_of cnt []) = Ok (plan_of cnt es)"
    using plan_slots_Ok[of "Page_bytes p" "[]" es cnt] f(1) live bd(5) by (simp add: cnt_def)
  define plan1 where "plan1 = (plan_of cnt es)\<lparr>cp_live_order := ss, cp_new_upper := 8192\<rparr>"
  have src: "cp_source_offsets plan1 ! i = se_tuple_offset (es ! i)"
    "cp_source_lengths plan1 ! i = se_tuple_length (es ! i)"
    "cp_planned_slots plan1 ! i = reclaim (es ! i)" if "i < length es" for i
    using that by (simp_all add: plan1_def plan_of_def nth_append)
  have mem: "s \<in> set ss \<longleftrightarrow> unat s < length es \<and> se_state (es ! unat s) = NORMAL" for s
    using set_live_order[OF f(1)] by (simp add: ss_def)
  have lp1: "length (cp_planned_slots plan1) = 1018" and nu1: "cp_new_upper plan1 = 8192"
    using f(1) by (simp_all add: plan1_def plan_of_def)
  have "\<exists>pl. pack_live ss plan1 = Some (plan1
       \<lparr>cp_new_upper := cp_new_upper plan1 - moved (moves_of es (cp_new_upper plan1) ss),
        cp_planned_slots := pl\<rparr>) \<and>
     length pl = length (cp_planned_slots plan1) \<and>
     (\<forall>x. unat x < length pl \<longrightarrow> pl ! unat x =
       (if x \<in> set ss
        then (cp_planned_slots plan1 ! unat x)
          \<lparr>se_tuple_offset := of_nat (dest_of es (cp_new_upper plan1) ss x)\<rparr>
        else cp_planned_slots plan1 ! unat x))"
    by (rule pack_live_Some[of es ss 8192])
      (use f(2,3) mem src nu1 in \<open>auto simp: ss_def\<close>)
  then obtain pl where pack: "pack_live ss plan1 =
      Some (plan1\<lparr>cp_new_upper := 8192 - live_bytes es, cp_planned_slots := pl\<rparr>)"
    and lpl: "length pl = 1018"
    and pl: "\<And>x. unat x < 1018 \<Longrightarrow> pl ! unat x =
       (if x \<in> set ss
        then (cp_planned_slots plan1 ! unat x)\<lparr>se_tuple_offset := of_nat (dest_of es 8192 ss x)\<rparr>
        else cp_planned_slots plan1 ! unat x)"
    by (auto simp: nu1 lp1 ss_def moved_live_bytes[OF f(1)])
  define plan where "plan = plan1\<lparr>cp_new_upper := 8192 - live_bytes es, cp_planned_slots := pl\<rparr>"
  have planned: "cp_planned_slots plan ! i = compacted es ! i" if i: "i < length es" for i
  proof -
    have u: "unat (of_nat i :: SlotId) = i" using i f(1) by simp
    show ?thesis
      using pl[of "of_nat i"] i f(1) src(3)[OF i] u mem[of "of_nat i"]
      by (simp add: plan_def compacted_nth ss_def) (simp add: reclaim_def)
  qed
  have "PlanCompaction (Page_bytes p) (hp_lower (hh_heap hdrs)) (CompactionPlan_new cnt) = Some (Ok plan)"
  proof -
    have "sort_key (live_key (plan_of cnt es)) (cp_live_order (plan_of cnt es)) = ss"
      by (simp add: ss_def live_order_key[symmetric, of es cnt] plan_of_def)
    moreover have "cp_slot_count (plan_of cnt []) = cnt" by (simp add: plan_of_def)
    moreover have "\<not> cp_new_upper plan < unat (hp_lower (hh_heap hdrs))"
      using f(6) bd(2) by (simp add: plan_def)
    ultimately show ?thesis
      unfolding PlanCompaction_def plan_of_new Let_def
      using slots pack by (simp add: plan1_def plan_def)
  qed
  moreover have "cp_slot_count plan = cnt" "cp_live_order plan = ss"
    by (simp_all add: plan_def plan1_def plan_of_def)
  ultimately show ?thesis
    using planned src bd(5) by (intro exI[of _ plan]) (simp add: plan_def cnt_def ss_def)
qed

text \<open>The entries after compaction are canonical, apart and within the new bounds.\<close>

lemma compacted_entries:
  assumes c: "compactable p hdrs es" and i: "i < length es" and upper: "unat u = 8192 - live_bytes es"
  shows "IsValidHeapSlotState (se_state (compacted es ! i))" and "entry_ok u (compacted es ! i)"
    and "se_state (compacted es ! i) = se_state (es ! i)"
    and "retained (compacted es ! i) \<longleftrightarrow> se_state (es ! i) = NORMAL"
proof -
  have s: "heap_structure p hdrs es" and st: "se_state (es ! i) = NORMAL \<or> se_state (es ! i) = DEAD"
    using c i by (auto simp: compactable_def)
  note ok = heap_structure_state(1)[OF s i]
  have x: "of_nat i \<in> set (live_order es)" "unat (of_nat i :: SlotId) = i" if "se_state (es ! i) = NORMAL"
    using that i compactable_facts(1)[OF c] set_live_order[of es "of_nat i"] by auto
  show state: "se_state (compacted es ! i) = se_state (es ! i)"
    using i by (simp add: compacted_nth reclaim_def)
  then show "IsValidHeapSlotState (se_state (compacted es ! i))" using st by auto
  have normal: "entry_ok u (compacted es ! i) \<and> retained (compacted es ! i)" if n: "se_state (es ! i) = NORMAL"
  proof -
    note d = dest_bounds[OF c x(1)[OF n]]
    show ?thesis
      using d n i ok upper entry_ok_normal[of "compacted es ! i" u] entry_ok_normal[OF n] x(2)[OF n]
      by (simp add: compacted_nth range_end_def retained_def)
  qed
  have dead: "entry_ok u (compacted es ! i) \<and> \<not> retained (compacted es ! i)" if n: "se_state (es ! i) = DEAD"
    using n i ok entry_ok_dead[of "compacted es ! i" u] entry_ok_dead[OF n]
    by (simp add: compacted_nth reclaim_def retained_def)
  show "entry_ok u (compacted es ! i)" using st normal dead by blast
  show "retained (compacted es ! i) \<longleftrightarrow> se_state (es ! i) = NORMAL" using st normal dead by fastforce
qed

text \<open>Destinations tile the bytes below the page end, so they are apart.\<close>

lemma packable_apart:
  "packable hi lim ms \<Longrightarrow> lim \<le> hi \<Longrightarrow> i < j \<Longrightarrow> j < length ms \<Longrightarrow>
   ms ! i = (s, l, d) \<Longrightarrow> ms ! j = (s', l', d') \<Longrightarrow> d' + l' \<le> d"
proof (induction hi lim ms arbitrary: i j rule: packable.induct)
  case (2 hi lim s0 l0 d0 ms)
  have p: "packable d0 s0 ms" "s0 \<le> d0" using "2.prems"(1) by auto
  obtain j' where j: "j = Suc j'" using "2.prems"(3) by (cases j) auto
  show ?case
  proof (cases i)
    case 0
    have "(s', l', d') \<in> set ms" using "2.prems"(4,6) j nth_mem[of j' ms] by simp
    then show ?thesis using packable_dest[OF p] 0 "2.prems"(5) by auto
  next
    case (Suc i')
    then show ?thesis using "2.IH"[OF p(1) p(2), of i' j'] "2.prems" j by simp
  qed
qed simp

lemma dest_apart:
  assumes c: "compactable p hdrs es" and xy: "x \<in> set (live_order es)" "y \<in> set (live_order es)" "x \<noteq> y"
  shows "dest_of es 8192 (live_order es) x + unat (se_tuple_length (es ! unat x))
      \<le> dest_of es 8192 (live_order es) y \<or>
    dest_of es 8192 (live_order es) y + unat (se_tuple_length (es ! unat y))
      \<le> dest_of es 8192 (live_order es) x"
proof -
  let ?ss = "live_order es"
  obtain i j where ij: "i < length ?ss" "j < length ?ss" "?ss ! i = x" "?ss ! j = y"
    using xy by (metis in_set_conv_nth)
  then have "i \<noteq> j" using xy(3) by auto
  have at: "moves_of es 8192 ?ss ! k = (unat (se_tuple_offset (es ! unat (?ss ! k))),
      unat (se_tuple_length (es ! unat (?ss ! k))), dest_of es 8192 ?ss (?ss ! k))"
    and len: "length (moves_of es 8192 ?ss) = length ?ss" if "k < length ?ss" for k
    using that by (simp_all add: moves_of_def)
  note ap = packable_apart[OF compactable_facts(5)[OF c] order_refl]
  from \<open>i \<noteq> j\<close> consider "i < j" | "j < i" by linarith
  then show ?thesis
  proof cases
    case 1
    then show ?thesis using ap[OF 1 _ at[OF ij(1)] at[OF ij(2)]] ij len[OF ij(1)] by auto
  next
    case 2
    then show ?thesis using ap[OF 2 _ at[OF ij(2)] at[OF ij(1)]] ij len[OF ij(1)] by auto
  qed
qed

lemma compacted_disjoint:
  assumes c: "compactable p hdrs es"
  shows "disjoint_entries (compacted es)"
  unfolding disjoint_entries_def length_compacted
proof (intro allI impI)
  fix i j assume ij: "i < length es" "j < length es" "i \<noteq> j"
    and ret: "retained (compacted es ! i)" "retained (compacted es ! j)"
  have "unat (of_nat (8192 - live_bytes es) :: 16 word) = 8192 - live_bytes es"
    by (rule unat_of_nat_16) simp
  note up = this
  have n: "se_state (es ! i) = NORMAL" "se_state (es ! j) = NORMAL"
    using ret compacted_entries(4)[OF c _ up] ij by auto
  have u: "unat (of_nat k :: SlotId) = k" if "k < length es" for k
    using that compactable_facts(1)[OF c] by simp
  have x: "of_nat i \<in> set (live_order es)" "of_nat j \<in> set (live_order es)"
    using n ij u set_live_order[OF compactable_facts(1)[OF c]] by auto
  have ne: "(of_nat i :: SlotId) \<noteq> of_nat j" using ij u by metis
  show "apart (compacted es ! i) (compacted es ! j)"
    using dest_apart[OF c x ne] dest_bounds(3)[OF c x(1)] dest_bounds(3)[OF c x(2)] n ij
    by (simp add: apart_def range_end_def compacted_nth u)
qed

lemma compactable_chain:
  assumes c: "compactable p hdrs es"
  shows "free_chain_ok (compacted es) (hp_free_slot_head (hh_heap hdrs))"
proof (rule free_chain_ok_cong[of es])
  have "unat (of_nat (8192 - live_bytes es) :: 16 word) = 8192 - live_bytes es"
    by (rule unat_of_nat_16) simp
  note st = compacted_entries(3)[OF c _ this]
  show "unused_slots es = unused_slots (compacted es)"
    unfolding unused_slots_def length_compacted using st by (metis (mono_tags, lifting))
  show "compacted es ! i = es ! i" if "i < length es" "se_state (es ! i) = UNUSED" for i
    using that by (simp add: compacted_nth reclaim_def)
qed (use c heap_structure_bounds(4) in \<open>auto simp: compactable_def heap_structure_def\<close>)

text \<open>The bytes \<open>ApplyCompaction\<close> leaves.\<close>

lemma Compact_bytes:
  assumes c: "compactable p hdrs es"
  defines "hh \<equiv> hh_heap hdrs"
  defines "hh' \<equiv> hh\<lparr>hp_upper := of_nat (8192 - live_bytes es)\<rparr>"
  shows "\<exists>b'. HeapPage_Compact H p = Some (Ok (), p\<lparr>Page_bytes := b'\<rparr>) \<and> length b' = 8192 \<and>
    take 32 b' = take 32 (Page_bytes p) \<and> subspan 32 16 b' = HeapPageHeader_image hh' \<and>
    (\<forall>i < length es. slot_bytes b' i = HeapSlotEntry_image (compacted es ! i)) \<and>
    (\<forall>i < length es. se_state (es ! i) = NORMAL \<longrightarrow>
       entry_bytes b' (compacted es ! i) = entry_bytes (Page_bytes p) (es ! i))"
proof -
  have s: "heap_structure p hdrs es" and wf: "Page_wf p" using c by (auto simp: compactable_def)
  note f = compactable_facts[OF c] and bd = heap_structure_bounds[OF s]
  define b where "b = Page_bytes p"
  define ss where "ss = live_order es"
  define n where "n = length es"
  have len: "length b = 8192" using wf by (simp add: b_def Page_wf_def)
  have up: "unat (of_nat (8192 - live_bytes es) :: 16 word) = 8192 - live_bytes es"
    by (rule unat_of_nat_16) simp
  obtain plan where plan: "PlanCompaction b (hp_lower hh) (CompactionPlan_new (hp_slot_count hh)) =
      Some (Ok plan)"
    and cnt: "unat (cp_slot_count plan) = n" and nu: "cp_new_upper plan = 8192 - live_bytes es"
    and order: "cp_live_order plan = ss"
    and at: "\<And>i. i < n \<Longrightarrow> cp_planned_slots plan ! i = compacted es ! i"
      "\<And>i. i < n \<Longrightarrow> cp_source_offsets plan ! i = se_tuple_offset (es ! i)"
      "\<And>i. i < n \<Longrightarrow> cp_source_lengths plan ! i = se_tuple_length (es ! i)"
    using PlanCompaction_Ok[OF c] unfolding b_def hh_def ss_def n_def by blast
  have "\<exists>enc. encode_slots plan n 0 (replicate 1018 (replicate 8 0)) = Ok enc \<and>
     (\<forall>i. i < 0 \<longrightarrow> enc ! i = replicate 1018 (replicate 8 0) ! i) \<and>
     (\<forall>i. 0 \<le> i \<and> i < 0 + n \<longrightarrow> enc ! i = HeapSlotEntry_image (cp_planned_slots plan ! i))"
    by (rule encode_slots_Ok) (use f(1) at(1) compacted_entries(1)[OF c _ up] in \<open>auto simp: n_def\<close>)
  then obtain enc where enc: "encode_slots plan n 0 (replicate 1018 (replicate 8 0)) = Ok enc"
    and enc_at: "\<And>i. i < n \<Longrightarrow> enc ! i = HeapSlotEntry_image (compacted es ! i)"
    using at(1) by auto
  define b1 where "b1 = move_live plan ss b"
  define b2 where "b2 = write_slots enc n 0 b1"
  define b' where "b' = put 32 (HeapPageHeader_image hh') b2"
  have compact: "HeapPage_Compact H p = Some (Ok (), p\<lparr>Page_bytes := b'\<rparr>)"
  proof -
    have "ValidateStructure H p = Ok hdrs" using s ValidateStructure_Ok_iff by blast
    then show ?thesis
      using plan enc by (simp add: HeapPage_Compact_def EncodeCompactedMetadata_def ApplyCompaction_def
          EncodeHeapPageHeader_eq cnt nu order b'_def b2_def b1_def Let_def
          flip: b_def hh_def hh'_def)
  qed
  have mem: "x \<in> set ss \<longleftrightarrow> unat x < n \<and> se_state (es ! unat x) = NORMAL" for x
    using set_live_order[OF f(1)] by (simp add: ss_def n_def)
  have "b1 = run_moves (map (\<lambda>x. (unat (se_tuple_offset (es ! unat x)),
      unat (se_tuple_length (es ! unat x)), dest_of es 8192 ss x)) ss) b"
    unfolding b1_def
  proof (rule move_live_run, intro ballI conjI)
    fix x assume x: "x \<in> set ss"
    then have i: "unat x < n" and st: "se_state (es ! unat x) = NORMAL" using mem by auto
    note d = dest_bounds[OF c x[unfolded ss_def]] and e = f(3)[OF x[unfolded ss_def]]
    show "unat (cp_source_offsets plan ! unat x) = unat (se_tuple_offset (es ! unat x))"
      "unat (cp_source_lengths plan ! unat x) = unat (se_tuple_length (es ! unat x))"
      using at i by simp_all
    show "unat (se_tuple_offset (cp_planned_slots plan ! unat x)) = dest_of es 8192 ss x"
      using at(1)[OF i] i st d(3) by (simp add: compacted_nth n_def ss_def)
    show "unat (se_tuple_offset (es ! unat x)) + unat (se_tuple_length (es ! unat x)) \<le> length b"
      using e len by (simp add: range_end_def)
    show "dest_of es 8192 ss x + unat (se_tuple_length (es ! unat x)) \<le> length b"
      using d(2) len by (simp add: ss_def)
  qed
  then have b1: "b1 = run_moves (moves_of es 8192 ss) b" by (simp add: moves_of_def)
  note run = run_moves_packable[OF f(5)[folded ss_def] order_refl, of b, folded b1,
      unfolded moved_live_bytes[OF f(1), folded ss_def]]
  have l1: "length b1 = 8192" using run len by simp
  have low: "subspan off m b1 = subspan off m b" if "off + m \<le> unat (hp_lower hh)" for off m
    by (rule region_eqI) (use run len that f(6) bd(2,3) in \<open>auto simp: hh_def\<close>)
  have pay: "subspan (dest_of es 8192 ss x) (unat (se_tuple_length (es ! unat x))) b1 =
      entry_bytes b (es ! unat x)" if "x \<in> set ss" for x
  proof -
    have "(unat (se_tuple_offset (es ! unat x)), unat (se_tuple_length (es ! unat x)),
        dest_of es 8192 ss x) \<in> set (moves_of es 8192 ss)"
      using that by (simp add: moves_of_def)
    then show ?thesis using run len by (fastforce simp: entry_bytes_def)
  qed
  have w: "length b2 = 8192"
    "\<And>i. i < n \<Longrightarrow> slot_bytes b2 i = HeapSlotEntry_image (compacted es ! i)"
    "\<And>off m. off + m \<le> 48 \<or> 48 + 8 * n \<le> off \<Longrightarrow> off + m \<le> 8192 \<Longrightarrow>
      subspan off m b2 = subspan off m b1"
    using write_slots_bytes[of 0 n b1 enc] l1 enc_at f(1) by (auto simp: b2_def n_def)
  have l': "length b' = 8192" using w(1) by (simp add: b'_def)
  have "take 32 b' = take 32 b"
    using w(1) w(3)[of 0 32] low[of 0 32] bd(1)
    by (simp add: b'_def take_put_above subspan_0_take hh_def)
  moreover have "subspan 32 16 b' = HeapPageHeader_image hh'"
    using w(1) by (simp add: b'_def subspan_put_eq)
  moreover have "slot_bytes b' i = HeapSlotEntry_image (compacted es ! i)" if "i < n" for i
    using that w(1,2) f(1) by (simp add: b'_def n_def slot_bytes_put_other)
  moreover have "entry_bytes b' (compacted es ! i) = entry_bytes b (es ! i)"
    if i: "i < n" and st: "se_state (es ! i) = NORMAL" for i
  proof -
    have u: "unat (of_nat i :: SlotId) = i" using i f(1) by (simp add: n_def)
    then have x: "of_nat i \<in> set ss" using mem i st by simp
    note d = dest_bounds[OF c x[unfolded ss_def], folded ss_def, unfolded u]
    have lo: "48 + 8 * n \<le> dest_of es 8192 ss (of_nat i)"
      using d(1) f(6) bd(1,2) by (simp add: n_def)
    have "entry_bytes b' (compacted es ! i) =
        subspan (dest_of es 8192 ss (of_nat i)) (unat (se_tuple_length (es ! i))) b'"
      using i st d(3) by (simp add: entry_bytes_def compacted_nth n_def ss_def)
    also have "\<dots> = subspan (dest_of es 8192 ss (of_nat i)) (unat (se_tuple_length (es ! i))) b2"
      unfolding b'_def by (rule subspan_put_other) (use lo d(2) w(1) in auto)
    also have "\<dots> = subspan (dest_of es 8192 ss (of_nat i)) (unat (se_tuple_length (es ! i))) b1"
      using lo d(2) by (intro w(3)) auto
    also have "\<dots> = entry_bytes b (es ! i)" using pay[OF x] u by simp
    finally show ?thesis .
  qed
  ultimately show ?thesis using compact l' by (auto simp: b_def n_def)
qed

lemma Compact_structure:
  assumes c: "compactable p hdrs es"
  defines "hdrs' \<equiv> hdrs\<lparr>hh_heap := (hh_heap hdrs)\<lparr>hp_upper := of_nat (8192 - live_bytes es)\<rparr>\<rparr>"
  shows "\<exists>p'. HeapPage_Compact H p = Some (Ok (), p') \<and> Page_wf p' \<and> Page_id p' = Page_id p \<and>
    heap_structure p' hdrs' (compacted es) \<and>
    (\<forall>i < length es. se_state (es ! i) = NORMAL \<longrightarrow>
       entry_bytes (Page_bytes p') (compacted es ! i) = entry_bytes (Page_bytes p) (es ! i))"
proof -
  have s: "heap_structure p hdrs es" and wf: "Page_wf p" using c by (auto simp: compactable_def)
  note s' = s[unfolded heap_structure_iff[OF wf]]
  obtain b' where b': "HeapPage_Compact H p = Some (Ok (), p\<lparr>Page_bytes := b'\<rparr>)" "length b' = 8192"
    "take 32 b' = take 32 (Page_bytes p)" "subspan 32 16 b' = HeapPageHeader_image (hh_heap hdrs')"
    "\<forall>i < length es. slot_bytes b' i = HeapSlotEntry_image (compacted es ! i)"
    "\<forall>i < length es. se_state (es ! i) = NORMAL \<longrightarrow>
       entry_bytes b' (compacted es ! i) = entry_bytes (Page_bytes p) (es ! i)"
  proof -
    have "hh_heap hdrs' = (hh_heap hdrs)\<lparr>hp_upper := of_nat (8192 - live_bytes es)\<rparr>"
      by (simp add: hdrs'_def)
    then show thesis using Compact_bytes[OF c, of H] that by (simp only:) blast
  qed
  define p' where "p' = p\<lparr>Page_bytes := b'\<rparr>"
  have wf': "Page_wf p'" using b'(2) by (simp add: p'_def Page_wf_def)
  have up: "unat (of_nat (8192 - live_bytes es) :: 16 word) = 8192 - live_bytes es"
    by (rule unat_of_nat_16) simp
  have "ValidateHeapHeaderGeometry (hh_heap hdrs') = HV_NONE"
    using s' compactable_facts(6)[OF c] up by (auto simp: ValidateHeapHeaderGeometry_iff hdrs'_def)
  moreover have "Page_DecodeHeader p' = Page_DecodeHeader p"
    by (rule Page_DecodeHeader_cong[OF wf' wf]) (simp add: p'_def b'(3))
  moreover have "\<forall>e \<in> set (compacted es). IsValidHeapSlotState (se_state e) \<and>
      entry_ok (hp_upper (hh_heap hdrs')) e"
    using compacted_entries(1,2)[OF c _ up] by (auto simp: in_set_conv_nth hdrs'_def)
  moreover have "disjoint_entries (compacted es)" by (rule compacted_disjoint[OF c])
  moreover have "free_chain_ok (compacted es) (hp_free_slot_head (hh_heap hdrs'))"
    using compactable_chain[OF c] by (simp add: hdrs'_def)
  ultimately have "heap_structure p' hdrs' (compacted es)"
    unfolding heap_structure_iff[OF wf'] using s' b'(4,5) by (simp add: p'_def hdrs'_def)
  then show ?thesis using b'(1,6) wf' by (intro exI[of _ p']) (simp add: p'_def)
qed

lemma heap_structure_states:
  assumes "heap_structure p hdrs es" and "e \<in> set es"
  shows "se_state e = UNUSED \<or> se_state e = NORMAL \<or> se_state e = DEAD"
proof -
  obtain i where "i < length es" "e = es ! i" using assms(2) by (auto simp: in_set_conv_nth)
  then show ?thesis using heap_structure_state(3)[OF assms(1)] by blast
qed

lemma Compact_unsupported:
  assumes s: "heap_structure p hdrs es" and e: "e \<in> set es" "se_state e = UNUSED"
  shows "\<exists>f. HeapPage_Compact H p = Some (Unexpected f, p) \<and> cf_code f = UNSUPPORTED_SLOT_STATE"
proof -
  have v: "ValidateStructure H p = Ok hdrs" using s ValidateStructure_Ok_iff by blast
  define cnt where "cnt = hp_slot_count (hh_heap hdrs)"
  have "\<forall>f \<in> set es. se_state f = NORMAL \<or> se_state f = DEAD \<or> se_state f = UNUSED"
    using heap_structure_states[OF s] by blast
  then obtain f where "plan_slots (Page_bytes p) (unat cnt) 0 (plan_of cnt []) = Unexpected f"
    "cf_code f = UNSUPPORTED_SLOT_STATE"
    using plan_slots_unsupported[of "Page_bytes p" "[]" es e cnt] s e heap_structure_bounds[OF s]
    by (auto simp: heap_structure_def cnt_def)
  moreover have "cp_slot_count (plan_of cnt []) = cnt" by (simp add: plan_of_def)
  ultimately show ?thesis
    by (simp add: HeapPage_Compact_def v PlanCompaction_def plan_of_new flip: cnt_def)
qed

lemma compactable_iff:
  assumes wf: "Page_wf p" and s: "heap_structure p hdrs es"
  shows "compactable p hdrs es \<longleftrightarrow> (\<forall>e \<in> set es. se_state e \<noteq> UNUSED)"
proof -
  have "(\<forall>e \<in> set es. se_state e = NORMAL \<or> se_state e = DEAD) \<longleftrightarrow>
      (\<forall>e \<in> set es. se_state e \<noteq> UNUSED)"
    by (rule ball_cong) (use heap_structure_states[OF s] in auto)
  then show ?thesis using assms by (simp add: compactable_def)
qed

lemma Compact_cases:
  assumes wf: "Page_wf p" and s: "heap_structure p hdrs es"
  shows "(\<exists>p'. HeapPage_Compact H p = Some (Ok (), p')) \<longleftrightarrow> (\<forall>e \<in> set es. se_state e \<noteq> UNUSED)"
  using Compact_structure[of p hdrs es H] Compact_unsupported[OF s] compactable_iff[OF wf s]
  by (metis (no_types, lifting) Inl_Inr_False option.inject prod.inject)

lemma Compact_no_abort:
  assumes wf: "Page_wf p"
  shows "\<exists>r p'. HeapPage_Compact H p = Some (r, p') \<and> (\<forall>f. r = Unexpected f \<longrightarrow> p' = p)"
proof (cases "ValidateStructure H p")
  case (Inl f)
  then show ?thesis by (simp add: HeapPage_Compact_def)
next
  case (Inr hdrs)
  then obtain es where s: "heap_structure p hdrs es" using ValidateStructure_Ok_iff by blast
  show ?thesis
  proof (cases "\<forall>e \<in> set es. se_state e \<noteq> UNUSED")
    case True
    then obtain p' where "HeapPage_Compact H p = Some (Ok (), p')" using Compact_cases[OF wf s] by blast
    then show ?thesis by simp
  next
    case False
    then obtain f where "HeapPage_Compact H p = Some (Unexpected f, p)"
      using Compact_unsupported[OF s] by blast
    then show ?thesis by simp
  qed
qed

lemma Compact_preserves:
  assumes wf: "Page_wf p" and s: "heap_structure p hdrs es"
    and comp: "HeapPage_Compact H p = Some (Ok (), p')"
  shows "Page_wf p'" and "Page_id p' = Page_id p"
    and "ValidateStructure H p' = Ok (hdrs\<lparr>hh_heap :=
      (hh_heap hdrs)\<lparr>hp_upper := of_nat (8192 - live_bytes es)\<rparr>\<rparr>)"
    and "Validate H p = Ok hdrs \<Longrightarrow> \<exists>hdrs'. Validate H p' = Ok hdrs'"
    and "HeapPage_TupleBytes H p' sl = HeapPage_TupleBytes H p sl"
proof -
  have c: "compactable p hdrs es"
    unfolding compactable_iff[OF wf s] using Compact_cases[OF wf s] comp by blast
  let ?h = "hdrs\<lparr>hh_heap := (hh_heap hdrs)\<lparr>hp_upper := of_nat (8192 - live_bytes es)\<rparr>\<rparr>"
  have new: "Page_wf p'" "Page_id p' = Page_id p" "heap_structure p' ?h (compacted es)"
    "\<And>i. i < length es \<Longrightarrow> se_state (es ! i) = NORMAL \<Longrightarrow>
      entry_bytes (Page_bytes p') (compacted es ! i) = entry_bytes (Page_bytes p) (es ! i)"
    using Compact_structure[OF c, of H] comp by auto
  have up: "unat (of_nat (8192 - live_bytes es) :: 16 word) = 8192 - live_bytes es"
    by (rule unat_of_nat_16) simp
  note ent = compacted_entries(3,4)[OF c _ up]
  show "Page_wf p'" "Page_id p' = Page_id p" using new(1,2) .
  show "ValidateStructure H p' = Ok ?h" using new(3) by (auto simp: ValidateStructure_Ok_iff)
  show "\<exists>hdrs'. Validate H p' = Ok hdrs'" if "Validate H p = Ok hdrs"
  proof -
    have "tuples_ok H p es" using that heap_structure_unique[OF s] by (auto simp: Validate_Ok_iff)
    then have "tuples_ok H p' (compacted es)"
      using ent new(2,4) heap_structure_normal[OF s] by (simp add: tuples_ok_def flip: entry_bytes_def)
    then show ?thesis using new(3) by (auto simp: Validate_Ok_iff)
  qed
  show "HeapPage_TupleBytes H p' sl = HeapPage_TupleBytes H p sl"
    using ent(1)[of "unat sl"] new(4)[of "unat sl"]
    by (auto simp: TupleBytes_eq[OF s] TupleBytes_eq[OF new(3)])
qed

end
