(* ===== verification/Heap_Store.thy ===== *)
theory Heap_Store
  imports Heap_Reclaim
begin

text \<open>
  What a heap page promises its clients: a store of tuples under slot numbers. The operations of
  \<open>HeapPage\<close> are the steps of a transition relation on pages, labelled with what the client
  sees; the abstract store is a map with the number of the next slot. Every run of the page from
  an initialised one is a run of the store.
\<close>

section \<open>The page as a transition system\<close>

datatype heap_event = Inserted Rid "byte list" | Deleted SlotId | Compacted | Refused

inductive heap_step :: "HeapTupleSchemaHistory \<Rightarrow> Page \<Rightarrow> heap_event \<Rightarrow> Page \<Rightarrow> bool"
  for H :: HeapTupleSchemaHistory where
  insert_ok: "HeapPage_Insert H p t = (Inr rid, p') \<Longrightarrow> heap_step H p (Inserted rid t) p'"
| insert_refused: "HeapPage_Insert H p t = (Inl e, p') \<Longrightarrow> heap_step H p Refused p'"
| delete_ok: "HeapPage_MarkDead H p s = (Inr (), p') \<Longrightarrow> heap_step H p (Deleted s) p'"
| delete_refused: "HeapPage_MarkDead H p s = (Inl e', p') \<Longrightarrow> heap_step H p Refused p'"
| compact_ok: "HeapPage_Compact H p = Some (Inr (), p') \<Longrightarrow> heap_step H p Compacted p'"
| compact_refused: "HeapPage_Compact H p = Some (Inl e'', p') \<Longrightarrow> heap_step H p Refused p'"

inductive_cases heap_step_Inserted [elim]: "heap_step H p (Inserted rid t) p'"
inductive_cases heap_step_Deleted [elim]: "heap_step H p (Deleted s) p'"
inductive_cases heap_step_Compacted [elim]: "heap_step H p Compacted p'"
inductive_cases heap_step_Refused [elim]: "heap_step H p Refused p'"

inductive heap_run :: "HeapTupleSchemaHistory \<Rightarrow> Page \<Rightarrow> heap_event list \<Rightarrow> Page \<Rightarrow> bool"
  for H :: HeapTupleSchemaHistory where
  run_nil: "heap_run H p [] p"
| run_snoc: "heap_run H p es p' \<Longrightarrow> heap_step H p' e p'' \<Longrightarrow> heap_run H p (es @ [e]) p''"

section \<open>The abstract store\<close>

record heap_store =
  hs_next :: nat
  hs_tuples :: "SlotId \<rightharpoonup> byte list"

fun store_step :: "heap_store \<Rightarrow> heap_event \<Rightarrow> heap_store option" where
  "store_step st (Inserted rid t) =
     (if unat (slot rid) = hs_next st \<and> slot rid \<notin> dom (hs_tuples st)
      then Some \<lparr>hs_next = hs_next st + 1, hs_tuples = (hs_tuples st)(slot rid \<mapsto> t)\<rparr> else None)"
| "store_step st (Deleted s) =
     (if s \<in> dom (hs_tuples st) then Some (st\<lparr>hs_tuples := (hs_tuples st)(s := None)\<rparr>) else None)"
| "store_step st Compacted = Some st"
| "store_step st Refused = Some st"

fun store_run :: "heap_store \<Rightarrow> heap_event list \<Rightarrow> heap_store option" where
  "store_run st [] = Some st"
| "store_run st (e # es) = (case store_step st e of None \<Rightarrow> None | Some st' \<Rightarrow> store_run st' es)"

definition empty_store :: heap_store where
  "empty_store = \<lparr>hs_next = 0, hs_tuples = Map.empty\<rparr>"

text \<open>The store a page stands for, and the invariant of a page.\<close>

definition page_store :: "HeapTupleSchemaHistory \<Rightarrow> Page \<Rightarrow> heap_store" where
  "page_store H p =
     \<lparr>hs_next = (case ValidateStructure H p of Inl _ \<Rightarrow> 0 | Inr h \<Rightarrow> unat (hp_slot_count (hh_heap h))),
      hs_tuples = HeapPage_TupleBytes H p\<rparr>"

definition page_inv :: "HeapTupleSchemaHistory \<Rightarrow> Page \<Rightarrow> bool" where
  "page_inv H p \<longleftrightarrow> Page_wf p \<and> (\<exists>hdrs. Validate H p = Ok hdrs)"

lemma page_invE:
  assumes "page_inv H p"
  obtains hdrs es where "Page_wf p" "Validate H p = Ok hdrs" "ValidateStructure H p = Ok hdrs"
    "heap_structure p hdrs es"
  using assms by (auto simp: page_inv_def Validate_Ok_iff ValidateStructure_Ok_iff)

lemma insert_slot_count:
  assumes wf: "Page_wf p" and v: "ValidateStructure H p = Ok hdrs"
    and ins: "HeapPage_Insert H p t = (Ok rid, p')" and v': "ValidateStructure H p' = Ok hdrs'"
  shows "unat (hp_slot_count (hh_heap hdrs')) = Suc (unat (hp_slot_count (hh_heap hdrs)))"
proof -
  obtain es where s: "heap_structure p hdrs es" using v by (auto simp: ValidateStructure_Ok_iff)
  obtain es' where s': "heap_structure p' hdrs' es'" using v' by (auto simp: ValidateStructure_Ok_iff)
  have i: "insertable H p hdrs t" and p': "p' = insert_page (hh_heap hdrs) t p"
    using ins by (auto simp: Insert_Ok_iff[OF s])
  have "es' = es @ [insert_entry (hh_heap hdrs) t]"
    using heap_structure_unique[OF s'] insert_heap_structure(3)[OF wf s i] p' by blast
  then show ?thesis using heap_structure_bounds(5)[OF s] heap_structure_bounds(5)[OF s'] by simp
qed

text \<open>One step of the page is one step of the store, and keeps the invariant.\<close>

lemma heap_step_simulates:
  assumes inv: "page_inv H p" and step: "heap_step H p e p'"
  shows "page_inv H p'" and "store_step (page_store H p) e = Some (page_store H p')"
    and "Page_id p' = Page_id p"
proof -
  obtain hdrs es where wf: "Page_wf p" and val: "Validate H p = Ok hdrs"
    and v: "ValidateStructure H p = Ok hdrs" and s: "heap_structure p hdrs es"
    using inv by (rule page_invE)
  have "page_inv H p' \<and> store_step (page_store H p) e = Some (page_store H p') \<and> Page_id p' = Page_id p"
    using step
  proof cases
    case (insert_ok t rid)
    note ins = Insert_preserves[OF wf v insert_ok(2)]
    obtain hdrs' where v': "ValidateStructure H p' = Ok hdrs'" using ins(2) by blast
    have "HeapPage_TupleBytes H p' = (HeapPage_TupleBytes H p)(slot rid \<mapsto> t)"
      using ins(6,7) by (auto simp: fun_eq_iff)
    moreover have "Page_id p' = Page_id p"
      using insert_ok(2) by (auto simp: Insert_Ok_iff[OF s] insert_page_def)
    ultimately show ?thesis
      using insert_ok(1) ins(1,3,4,5) val insert_slot_count[OF wf v insert_ok(2) v'] v v'
      by (auto simp: page_inv_def page_store_def)
  next
    case (delete_ok s)
    note mark = MarkDead_preserves[OF wf v delete_ok(2)]
    have "HeapPage_TupleBytes H p' = (HeapPage_TupleBytes H p)(s := None)"
      using mark(5,6) by (auto simp: fun_eq_iff)
    moreover have "Page_id p' = Page_id p"
      using delete_ok(2) by (auto simp: MarkDead_Ok_iff[OF \<open>heap_structure p hdrs es\<close>])
    ultimately show ?thesis using delete_ok(1) mark(1-4) val v by (auto simp: page_inv_def page_store_def)
  next
    case compact_ok
    note comp = Compact_preserves[OF wf s compact_ok(2)]
    have "HeapPage_TupleBytes H p' = HeapPage_TupleBytes H p" using comp(5) by (auto simp: fun_eq_iff)
    then show ?thesis using compact_ok(1) comp(1-4) val v by (auto simp: page_inv_def page_store_def)
  next
    case (compact_refused e)
    then have "p' = p" using Compact_no_abort[OF wf, of H] by auto
    then show ?thesis using compact_refused inv by simp
  qed (auto dest: Insert_error_frame MarkDead_error_frame simp: inv)
  then show "page_inv H p'" "store_step (page_store H p) e = Some (page_store H p')"
    "Page_id p' = Page_id p" by simp_all
qed

lemma store_run_append:
  "store_run st (es @ fs) = (case store_run st es of None \<Rightarrow> None | Some st' \<Rightarrow> store_run st' fs)"
  by (induction es arbitrary: st) (auto split: option.splits)

lemma heap_run_simulates:
  "heap_run H p es p' \<Longrightarrow> page_inv H p \<Longrightarrow>
   page_inv H p' \<and> store_run (page_store H p) es = Some (page_store H p') \<and> Page_id p' = Page_id p"
  by (induction rule: heap_run.induct) (auto simp: store_run_append heap_step_simulates)

lemma initialized_page_store:
  assumes wf: "Page_wf p" and ini: "HeapPage_Initialize p lsn = Some (Ok (), p')"
  shows "page_inv H p'" and "page_store H p' = empty_store" and "Page_id p' = Page_id p"
proof -
  have n: "IsValidHeapPageNumber (page_no (Page_id p))"
    using ini by (auto simp: HeapPage_Initialize_def split: if_splits)
  obtain hdrs where p': "Page_wf p'" "Page_id p' = Page_id p" and s: "heap_structure p' hdrs []"
    using HeapPage_Initialize_ok[OF wf n, of lsn] ini by auto
  have t: "tuples_ok H p' []" by (simp add: tuples_ok_def)
  have v: "Validate H p' = Ok hdrs" "ValidateStructure H p' = Ok hdrs"
    unfolding Validate_Ok_iff ValidateStructure_Ok_iff using s t by blast+
  then show "page_inv H p'" using p' by (auto simp: page_inv_def)
  have "HeapPage_TupleBytes H p' = Map.empty" by (simp add: fun_eq_iff TupleBytes_eq[OF s])
  then show "page_store H p' = empty_store"
    using heap_structure_bounds(5)[OF s] by (simp add: page_store_def empty_store_def v(2))
  show "Page_id p' = Page_id p" by (rule p'(2))
qed

section \<open>Row identifiers are never handed out twice\<close>

fun inserted_rids :: "heap_event list \<Rightarrow> Rid list" where
  "inserted_rids [] = []"
| "inserted_rids (Inserted rid t # es) = rid # inserted_rids es"
| "inserted_rids (_ # es) = inserted_rids es"

lemma store_run_Cons:
  "store_run st (e # es) = Some st' \<longleftrightarrow> (\<exists>st1. store_step st e = Some st1 \<and> store_run st1 es = Some st')"
  by (auto split: option.splits)

lemma store_step_next:
  "store_step st e = Some st' \<Longrightarrow> (\<forall>rid t. e \<noteq> Inserted rid t) \<Longrightarrow>
   hs_next st' = hs_next st \<and> inserted_rids (e # es) = inserted_rids es"
  by (cases e) (auto split: if_splits)

lemma store_run_next:
  "store_run st es = Some st' \<Longrightarrow>
   map (unat \<circ> slot) (inserted_rids es) = [hs_next st..<hs_next st'] \<and> hs_next st \<le> hs_next st'"
proof (induction es arbitrary: st)
  case (Cons e es)
  then obtain st1 where st1: "store_step st e = Some st1" "store_run st1 es = Some st'"
    by (auto simp: store_run_Cons simp del: store_run.simps)
  note ih = Cons.IH[OF st1(2)]
  show ?case
  proof (cases "\<exists>rid t. e = Inserted rid t")
    case True
    then show ?thesis using st1(1) ih by (auto simp: upt_conv_Cons split: if_splits)
  next
    case False
    then show ?thesis using store_step_next[OF st1(1)] ih by auto
  qed
qed simp

lemma store_run_distinct: "store_run st es = Some st' \<Longrightarrow> distinct (inserted_rids es)"
proof -
  assume "store_run st es = Some st'"
  then have "distinct (map (unat \<circ> slot) (inserted_rids es))" using store_run_next by auto
  then show ?thesis by (simp add: distinct_map)
qed

text \<open>The contents after a run: the latest event about a slot decides.\<close>

fun slot_after :: "heap_event list \<Rightarrow> SlotId \<Rightarrow> byte list option \<Rightarrow> byte list option" where
  "slot_after [] s x = x"
| "slot_after (Inserted rid t # es) s x = slot_after es s (if slot rid = s then Some t else x)"
| "slot_after (Deleted r # es) s x = slot_after es s (if r = s then None else x)"
| "slot_after (e # es) s x = slot_after es s x"

lemma store_step_tuples:
  "store_step st e = Some st' \<Longrightarrow> slot_after (e # es) s (hs_tuples st s) = slot_after es s (hs_tuples st' s)"
  by (cases e) (auto split: if_splits)

lemma store_run_tuples:
  "store_run st es = Some st' \<Longrightarrow> hs_tuples st' s = slot_after es s (hs_tuples st s)"
proof (induction es arbitrary: st)
  case (Cons e es)
  then obtain st1 where st1: "store_step st e = Some st1" "store_run st1 es = Some st'"
    by (auto simp: store_run_Cons simp del: store_run.simps)
  then show ?case using Cons.IH[OF st1(2)] store_step_tuples[OF st1(1)] by simp
qed simp

text \<open>A tuple stays under its slot until the slot is deleted.\<close>

lemma inserted_rids_append [simp]: "inserted_rids (es @ fs) = inserted_rids es @ inserted_rids fs"
  by (induction es rule: inserted_rids.induct) auto

lemma slot_after_append: "slot_after (es @ fs) s x = slot_after fs s (slot_after es s x)"
  by (induction es s x rule: slot_after.induct) auto

lemma slot_after_untouched:
  "Deleted s \<notin> set es \<Longrightarrow> s \<notin> slot ` set (inserted_rids es) \<Longrightarrow> slot_after es s x = x"
  by (induction es s x rule: slot_after.induct) auto

lemma store_run_distinct_slots:
  "store_run st es = Some st' \<Longrightarrow> distinct (map slot (inserted_rids es))"
proof -
  assume "store_run st es = Some st'"
  then have "distinct (map unat (map slot (inserted_rids es)))" using store_run_next by auto
  then show ?thesis unfolding distinct_map by blast
qed

lemma store_run_keeps:
  assumes "store_run st (earlier @ Inserted rid t # later) = Some st'" and "Deleted (slot rid) \<notin> set later"
  shows "hs_tuples st' (slot rid) = Some t"
proof -
  have "slot rid \<notin> slot ` set (inserted_rids later)" using store_run_distinct_slots[OF assms(1)] by auto
  then show ?thesis
    using store_run_tuples[OF assms(1), of "slot rid"] slot_after_untouched[OF assms(2)]
    by (simp add: slot_after_append)
qed

end
