(* ===== verification/Fsm_Page.thy ===== *)
theory Fsm_Page
  imports Heap_Page
begin

text \<open>
  The free-space map: \<open>src/src/storage/heap/fsm_page.h\<close> and \<open>fsm_page.cpp\<close>. A page
  of one-byte categories tells, for each heap page it maps, about how many bytes an insertion
  may use. Sizes are natural numbers, page numbers 64-bit words.
\<close>

definition FSM_PAGE_FORMAT_VERSION :: "16 word" where [layout, simp]: "FSM_PAGE_FORMAT_VERSION = 1"
definition FSM_PAGE_HEADER_OFFSET :: nat where [layout, simp]:
  "FSM_PAGE_HEADER_OFFSET = COMMON_PAGE_HEADER_ENCODED_SIZE"
definition FSM_PAGE_HEADER_ENCODED_SIZE :: nat where [layout, simp]: "FSM_PAGE_HEADER_ENCODED_SIZE = 16"
definition FSM_PAGE_TOTAL_HEADER_SIZE :: nat where [layout, simp]: "FSM_PAGE_TOTAL_HEADER_SIZE = 48"
definition FSM_PAGE_ENTRIES_OFFSET :: nat where [layout, simp]:
  "FSM_PAGE_ENTRIES_OFFSET = FSM_PAGE_TOTAL_HEADER_SIZE"
definition FSM_PAGE_ENTRY_CAPACITY :: nat where [layout, simp]:
  "FSM_PAGE_ENTRY_CAPACITY = PAGE_SIZE - FSM_PAGE_ENTRIES_OFFSET"
definition FSM_MAX_CONTIGUOUS_FREE_BYTES :: nat where [layout, simp]:
  "FSM_MAX_CONTIGUOUS_FREE_BYTES = PAGE_SIZE - HEAP_PAGE_TOTAL_HEADER_SIZE"
definition FSM_MAX_USABLE_INSERTION_BYTES :: nat where [layout, simp]:
  "FSM_MAX_USABLE_INSERTION_BYTES = HEAP_PAGE_MAX_RAW_TUPLE_SIZE"

definition FIRST_HEAP_PAGE_NO_OFFSET :: nat where [layout, simp]: "FIRST_HEAP_PAGE_NO_OFFSET = 0"
definition ENTRY_COUNT_OFFSET :: nat where [layout, simp]: "ENTRY_COUNT_OFFSET = 8"
definition RESERVED16_OFFSET :: nat where [layout, simp]: "RESERVED16_OFFSET = 10"
definition RESERVED32_OFFSET :: nat where [layout, simp]: "RESERVED32_OFFSET = 12"
definition FSM_CATEGORY_MAX :: nat where [layout, simp]: "FSM_CATEGORY_MAX = 255"

section \<open>Categories\<close>

definition FsmCategoryForFreeBytes :: "nat \<Rightarrow> 8 word" where
  "FsmCategoryForFreeBytes free_bytes =
     (let bounded_free_bytes = min free_bytes FSM_MAX_CONTIGUOUS_FREE_BYTES
      in if bounded_free_bytes \<le> HEAP_PAGE_SLOT_ENTRY_ENCODED_SIZE then 0
         else
           (let usable_bytes = min (bounded_free_bytes - HEAP_PAGE_SLOT_ENTRY_ENCODED_SIZE)
                  FSM_MAX_USABLE_INSERTION_BYTES
            in of_nat ((usable_bytes * FSM_CATEGORY_MAX) div FSM_MAX_USABLE_INSERTION_BYTES)))"

definition FsmCategoryMinimumUsableBytes :: "8 word \<Rightarrow> nat" where
  "FsmCategoryMinimumUsableBytes category =
     (let scaled = unat category * FSM_MAX_USABLE_INSERTION_BYTES
      in (scaled + FSM_CATEGORY_MAX - 1) div FSM_CATEGORY_MAX)"

datatype FsmTupleRequestError = FSM_TUPLE_TOO_LARGE

definition MinimumFsmCategoryForTupleBytes :: "nat \<Rightarrow> (8 word, FsmTupleRequestError) result" where
  "MinimumFsmCategoryForTupleBytes required_tuple_bytes =
     (if required_tuple_bytes > FSM_MAX_USABLE_INSERTION_BYTES then Unexpected FSM_TUPLE_TOO_LARGE
      else if required_tuple_bytes = 0 then Ok 0
      else Ok (of_nat (((required_tuple_bytes - 1) * FSM_CATEGORY_MAX)
                        div FSM_MAX_USABLE_INSERTION_BYTES + 1)))"

section \<open>Which FSM page and entry describe a heap page\<close>

record FsmEntryLocation =
  fl_fsm_page_no :: PageNo
  fl_entry_index :: "16 word"

datatype FsmPageMappingError = INVALID_HEAP_PAGE_NUMBER | MAPPING_OVERFLOW

definition FsmLocationForHeapPage ::
    "PageNo \<Rightarrow> (FsmEntryLocation, FsmPageMappingError) result" where
  "FsmLocationForHeapPage heap_page_no =
     (if heap_page_no = 0 \<or> heap_page_no = INVALID_PAGE_NO then Unexpected INVALID_HEAP_PAGE_NUMBER
      else
        (let heap_data_index = heap_page_no - 1;
             fsm_page_index = heap_data_index div of_nat FSM_PAGE_ENTRY_CAPACITY
         in if fsm_page_index = - 1 then Unexpected MAPPING_OVERFLOW
            else Ok \<lparr>fl_fsm_page_no = 1 + fsm_page_index,
                   fl_entry_index = ucast (heap_data_index mod of_nat FSM_PAGE_ENTRY_CAPACITY)\<rparr>))"

text \<open>The out-parameter is the value under \<open>Some\<close>, and only read on success.\<close>

definition FirstHeapPageForFsmPage :: "PageNo \<Rightarrow> PageNo option" where
  "FirstHeapPageForFsmPage fsm_page_no =
     (if fsm_page_no = 0 \<or> fsm_page_no = INVALID_PAGE_NO then None
      else
        (let fsm_page_index = fsm_page_no - 1
         in if fsm_page_index > (- 1 - 1) div of_nat FSM_PAGE_ENTRY_CAPACITY then None
            else
              (let first_heap_page_no = 1 + fsm_page_index * of_nat FSM_PAGE_ENTRY_CAPACITY
               in if first_heap_page_no \<noteq> INVALID_PAGE_NO then Some first_heap_page_no else None)))"

section \<open>The FSM page header\<close>

record FsmPageHeader =
  fh_first_heap_page_no :: PageNo
  fh_entry_count :: "16 word"
  fh_reserved16 :: "16 word"
  fh_reserved32 :: "32 word"

definition InitializedRangeFits :: "FsmPageHeader \<Rightarrow> bool" where
  "InitializedRangeFits header =
     (if fh_entry_count header = 0 then True
      else
        (let final_entry_offset = (ucast (fh_entry_count header) - 1 :: PageNo)
         in fh_first_heap_page_no header \<le> (- 1 - 1) - final_entry_offset))"

definition EncodeFsmPageHeader :: "byte list \<Rightarrow> FsmPageHeader \<Rightarrow> byte list option" where
  "EncodeFsmPageHeader destination header =
     (if length destination < FSM_PAGE_HEADER_ENCODED_SIZE then None
      else do {
        e \<leftarrow> encode_field FIRST_HEAP_PAGE_NO_OFFSET (fh_first_heap_page_no header)
               (replicate FSM_PAGE_HEADER_ENCODED_SIZE 0);
        e \<leftarrow> encode_field ENTRY_COUNT_OFFSET (fh_entry_count header) e;
        e \<leftarrow> encode_field RESERVED16_OFFSET (fh_reserved16 header) e;
        e \<leftarrow> encode_field RESERVED32_OFFSET (fh_reserved32 header) e;
        Some (put 0 e destination)
      })"

definition DecodeFsmPageHeader :: "byte list \<Rightarrow> FsmPageHeader option" where
  "DecodeFsmPageHeader source =
     (if length source < FSM_PAGE_HEADER_ENCODED_SIZE then None
      else do {
        first_heap_page_no \<leftarrow> decode_field FIRST_HEAP_PAGE_NO_OFFSET source;
        entry_count \<leftarrow> decode_field ENTRY_COUNT_OFFSET source;
        reserved16 \<leftarrow> decode_field RESERVED16_OFFSET source;
        reserved32 \<leftarrow> decode_field RESERVED32_OFFSET source;
        Some \<lparr>fh_first_heap_page_no = first_heap_page_no, fh_entry_count = entry_count,
          fh_reserved16 = reserved16, fh_reserved32 = reserved32\<rparr>
      })"

definition FsmPageHeader_image :: "FsmPageHeader \<Rightarrow> byte list" where
  "FsmPageHeader_image h =
     le_bytes (fh_first_heap_page_no h) @ le_bytes (fh_entry_count h) @
     le_bytes (fh_reserved16 h) @ le_bytes (fh_reserved32 h)"

lemma length_FsmPageHeader_image [simp]: "length (FsmPageHeader_image h) = 16"
  by (simp add: FsmPageHeader_image_def)

lemma EncodeFsmPageHeader_eq:
  "EncodeFsmPageHeader d h =
     (if 16 \<le> length d then Some (put 0 (FsmPageHeader_image h) d) else None)"
  by (simp add: EncodeFsmPageHeader_def FsmPageHeader_image_def put_put_adjacent)

lemma DecodeFsmPageHeader_eq:
  "DecodeFsmPageHeader s =
     (if length s < 16 then None
      else Some \<lparr>fh_first_heap_page_no = le_word (subspan 0 8 s),
        fh_entry_count = le_word (subspan 8 2 s), fh_reserved16 = le_word (subspan 10 2 s),
        fh_reserved32 = le_word (subspan 12 4 s)\<rparr>)"
  by (simp add: DecodeFsmPageHeader_def)

interpretation fsm_header: strict_codec 16 "\<lambda>_. True" FsmPageHeader_image
    EncodeFsmPageHeader DecodeFsmPageHeader
proof unfold_locales
  show "DecodeFsmPageHeader (FsmPageHeader_image h) = Some h" for h
    by (simp add: DecodeFsmPageHeader_eq FsmPageHeader_image_def subspan_append_right)
  show "True \<and> FsmPageHeader_image h = take 16 s" if "DecodeFsmPageHeader s = Some h" for s h
    using that
    by (auto simp: DecodeFsmPageHeader_eq FsmPageHeader_image_def subspan_0_take take_parts
        simp flip: append_assoc split: if_splits)
qed (auto simp: EncodeFsmPageHeader_eq DecodeFsmPageHeader_eq)

section \<open>The FSM page\<close>

datatype FsmPageInitializeError =
  INVALID_FSM_PAGE_NUMBER | HEAP_PAGE_RANGE_OVERFLOW | INIT_ENTRY_COUNT_OUT_OF_RANGE

record FsmPageInitialization =
  fi_entry_count :: "16 word"
  fi_page_lsn :: Lsn

datatype FsmPageValidationError =
    FV_NONE | FV_COMMON_HEADER_DECODE_FAILED | FV_WRONG_PAGE_TYPE | FV_WRONG_PAGE_NUMBER
  | FV_WRONG_HEADER_SIZE | FV_UNSUPPORTED_FORMAT_VERSION | FV_NONZERO_COMMON_FLAGS
  | FV_NONZERO_COMMON_RESERVED | FSM_HEADER_DECODE_FAILED | FV_INVALID_FSM_PAGE_NUMBER
  | FIRST_HEAP_PAGE_OVERFLOW | FIRST_HEAP_PAGE_MISMATCH | ENTRY_COUNT_OUT_OF_RANGE
  | INITIALIZED_HEAP_RANGE_OVERFLOW | NONZERO_UNINITIALIZED_ENTRY | NONZERO_FSM_RESERVED

record FsmPageHeaders =
  fp_common :: CommonPageHeader
  fp_fsm :: FsmPageHeader

record FsmPageValidationFailure =
  fv_code :: FsmPageValidationError
  fv_entry_index :: nat

definition FsmValidationFailure ::
    "FsmPageValidationError \<Rightarrow> nat \<Rightarrow> (FsmPageHeaders, FsmPageValidationFailure) result" where
  "FsmValidationFailure error entry_index =
     Unexpected \<lparr>fv_code = error, fv_entry_index = entry_index\<rparr>"

text \<open>\<open>None\<close> is the abort of \<open>DBLUS_CHECK\<close>.\<close>

definition FsmPage_Initialize ::
    "Page \<Rightarrow> FsmPageInitialization \<Rightarrow> (FsmPageInitializeError status \<times> Page) option" where
  "FsmPage_Initialize p initialization =
     (if page_no (Page_id p) = 0 \<or> page_no (Page_id p) = INVALID_PAGE_NO
      then Some (Unexpected INVALID_FSM_PAGE_NUMBER, p)
      else
        (case FirstHeapPageForFsmPage (page_no (Page_id p)) of
           None \<Rightarrow> Some (Unexpected HEAP_PAGE_RANGE_OVERFLOW, p)
         | Some first_heap_page_no \<Rightarrow>
             if unat (fi_entry_count initialization) > FSM_PAGE_ENTRY_CAPACITY
             then Some (Unexpected INIT_ENTRY_COUNT_OUT_OF_RANGE, p)
             else
               (let common_header = \<lparr>ch_page_type = FSM_DATA,
                      ch_format_version = FSM_PAGE_FORMAT_VERSION, ch_flags = 0,
                      ch_page_lsn = fi_page_lsn initialization, ch_checksum_crc32c = 0,
                      ch_header_size = of_nat FSM_PAGE_TOTAL_HEADER_SIZE, ch_reserved16 = 0,
                      ch_page_no = page_no (Page_id p)\<rparr>;
                    header = \<lparr>fh_first_heap_page_no = first_heap_page_no,
                      fh_entry_count = fi_entry_count initialization, fh_reserved16 = 0,
                      fh_reserved32 = 0\<rparr>
                in if \<not> InitializedRangeFits header
                   then Some (Unexpected HEAP_PAGE_RANGE_OVERFLOW, p)
                   else do {
                     encoded_common_header \<leftarrow> EncodeCommonPageHeader
                       (replicate COMMON_PAGE_HEADER_ENCODED_SIZE 0) common_header;
                     encoded_fsm_header \<leftarrow> EncodeFsmPageHeader
                       (replicate FSM_PAGE_HEADER_ENCODED_SIZE 0) header;
                     Some (Ok (), p\<lparr>Page_bytes :=
                       put FSM_PAGE_HEADER_OFFSET encoded_fsm_header
                         (put 0 encoded_common_header
                           (replicate (length (Page_bytes p)) 0))\<rparr>)
                   })))"

definition FsmPage_Header :: "Page \<Rightarrow> FsmPageHeader option" where
  "FsmPage_Header p =
     DecodeFsmPageHeader (subspan FSM_PAGE_HEADER_OFFSET FSM_PAGE_HEADER_ENCODED_SIZE (Page_bytes p))"

text \<open>The loop over the entries past the initialised ones, with \<open>n\<close> of them to go.\<close>

fun first_nonzero :: "byte list \<Rightarrow> nat \<Rightarrow> nat \<Rightarrow> nat option" where
  "first_nonzero entries 0 index = None"
| "first_nonzero entries (Suc n) index =
     (if entries ! index \<noteq> 0 then Some index else first_nonzero entries n (index + 1))"

definition FsmPage_Validate :: "Page \<Rightarrow> (FsmPageHeaders, FsmPageValidationFailure) result" where
  "FsmPage_Validate p =
     (case Page_DecodeHeader p of
        None \<Rightarrow> FsmValidationFailure FV_COMMON_HEADER_DECODE_FAILED 0
      | Some common_header \<Rightarrow>
          if ch_page_type common_header \<noteq> FSM_DATA then FsmValidationFailure FV_WRONG_PAGE_TYPE 0
          else if ch_page_no common_header \<noteq> page_no (Page_id p)
            then FsmValidationFailure FV_WRONG_PAGE_NUMBER 0
          else if ch_header_size common_header \<noteq> of_nat FSM_PAGE_TOTAL_HEADER_SIZE
            then FsmValidationFailure FV_WRONG_HEADER_SIZE 0
          else if ch_format_version common_header \<noteq> FSM_PAGE_FORMAT_VERSION
            then FsmValidationFailure FV_UNSUPPORTED_FORMAT_VERSION 0
          else if ch_flags common_header \<noteq> 0 then FsmValidationFailure FV_NONZERO_COMMON_FLAGS 0
          else if ch_reserved16 common_header \<noteq> 0
            then FsmValidationFailure FV_NONZERO_COMMON_RESERVED 0
          else
            (case FsmPage_Header p of
               None \<Rightarrow> FsmValidationFailure FSM_HEADER_DECODE_FAILED 0
             | Some header \<Rightarrow>
                 if fh_reserved16 header \<noteq> 0 \<or> fh_reserved32 header \<noteq> 0
                 then FsmValidationFailure NONZERO_FSM_RESERVED 0
                 else if page_no (Page_id p) = 0 \<or> page_no (Page_id p) = INVALID_PAGE_NO
                 then FsmValidationFailure FV_INVALID_FSM_PAGE_NUMBER 0
                 else
                   (case FirstHeapPageForFsmPage (page_no (Page_id p)) of
                      None \<Rightarrow> FsmValidationFailure FIRST_HEAP_PAGE_OVERFLOW 0
                    | Some expected_first_heap_page_no \<Rightarrow>
                        if fh_first_heap_page_no header \<noteq> expected_first_heap_page_no
                        then FsmValidationFailure FIRST_HEAP_PAGE_MISMATCH 0
                        else if unat (fh_entry_count header) > FSM_PAGE_ENTRY_CAPACITY
                        then FsmValidationFailure ENTRY_COUNT_OUT_OF_RANGE 0
                        else if \<not> InitializedRangeFits header
                        then FsmValidationFailure INITIALIZED_HEAP_RANGE_OVERFLOW 0
                        else
                          (case first_nonzero
                                  (subspan FSM_PAGE_ENTRIES_OFFSET FSM_PAGE_ENTRY_CAPACITY (Page_bytes p))
                                  (FSM_PAGE_ENTRY_CAPACITY - unat (fh_entry_count header))
                                  (unat (fh_entry_count header)) of
                             Some index \<Rightarrow> FsmValidationFailure NONZERO_UNINITIALIZED_ENTRY index
                           | None \<Rightarrow> Ok \<lparr>fp_common = common_header, fp_fsm = header\<rparr>))))"

datatype FsmPageEntryError = FSM_PAGE_INVALID | ENTRY_OUT_OF_RANGE

record FsmPageEntryFailure =
  fe_code :: FsmPageEntryError
  fe_page_error :: FsmPageValidationError

definition FsmPage_Category :: "Page \<Rightarrow> nat \<Rightarrow> (8 word, FsmPageEntryFailure) result" where
  "FsmPage_Category p entry_index =
     (case FsmPage_Validate p of
        Inl e \<Rightarrow> Unexpected \<lparr>fe_code = FSM_PAGE_INVALID, fe_page_error = fv_code e\<rparr>
      | Inr validation \<Rightarrow>
          if entry_index \<ge> unat (fh_entry_count (fp_fsm validation))
          then Unexpected \<lparr>fe_code = ENTRY_OUT_OF_RANGE, fe_page_error = FV_NONE\<rparr>
          else Ok (Page_bytes p ! (FSM_PAGE_ENTRIES_OFFSET + entry_index)))"

definition FsmPage_SetCategory ::
    "Page \<Rightarrow> nat \<Rightarrow> 8 word \<Rightarrow> FsmPageEntryFailure status \<times> Page" where
  "FsmPage_SetCategory p entry_index category =
     (case FsmPage_Validate p of
        Inl e \<Rightarrow> (Unexpected \<lparr>fe_code = FSM_PAGE_INVALID, fe_page_error = fv_code e\<rparr>, p)
      | Inr validation \<Rightarrow>
          if entry_index \<ge> unat (fh_entry_count (fp_fsm validation))
          then (Unexpected \<lparr>fe_code = ENTRY_OUT_OF_RANGE, fe_page_error = FV_NONE\<rparr>, p)
          else (Ok (), p\<lparr>Page_bytes :=
                  (Page_bytes p)[FSM_PAGE_ENTRIES_OFFSET + entry_index := category]\<rparr>))"

section \<open>Categories are safe and as small as possible\<close>

lemma FsmCategoryForFreeBytes_eq:
  "unat (FsmCategoryForFreeBytes free) =
     (if free \<le> 8 then 0 else (min (free - 8) 8135 * 255) div 8135)"
proof -
  have le: "(min x 8135 * 255) div 8135 \<le> 255" for x :: nat
    using div_le_mono[of "min x 8135 * 255" "8135 * 255" 8135] by simp
  have m: "min (min free 8144 - 8) 8135 = min (free - 8) 8135" by linarith
  have "unat (of_nat ((min (free - 8) 8135 * 255) div 8135) :: 8 word) =
      (min (free - 8) 8135 * 255) div 8135"
    by (rule unat_of_nat_8) (use le[of "free - 8"] in linarith)
  then show ?thesis
    unfolding FsmCategoryForFreeBytes_def Let_def by (simp add: m)
qed

lemma MinimumFsmCategory_Ok_iff:
  "MinimumFsmCategoryForTupleBytes r = Ok c \<longleftrightarrow>
     r \<le> 8135 \<and> unat c = (if r = 0 then 0 else ((r - 1) * 255) div 8135 + 1)"
proof (cases "r = 0 \<or> r > 8135")
  case False
  have "r - 1 \<le> 8134" using False by linarith
  then have "((r - 1) * 255) div 8135 \<le> (8134 * 255) div 8135" by (intro div_le_mono mult_le_mono1)
  also have "\<dots> \<le> 254" by simp
  finally have "((r - 1) * 255) div 8135 \<le> 254" .
  then have u: "unat (of_nat (((r - 1) * 255) div 8135 + 1) :: 8 word) = ((r - 1) * 255) div 8135 + 1"
    by (intro unat_of_nat_8) linarith
  have "MinimumFsmCategoryForTupleBytes r = Ok c \<longleftrightarrow> c = of_nat (((r - 1) * 255) div 8135 + 1)"
    using False by (auto simp: MinimumFsmCategoryForTupleBytes_def)
  also have "\<dots> \<longleftrightarrow> unat c = ((r - 1) * 255) div 8135 + 1"
    using u by (metis word_unat_eq_iff)
  finally show ?thesis using False by simp
qed (auto simp: MinimumFsmCategoryForTupleBytes_def unat_eq_0)

text \<open>A page whose recorded category reaches the request's minimum has room for the tuple and
  its slot.\<close>

lemma category_sound:
  assumes "MinimumFsmCategoryForTupleBytes r = Ok m" and "m \<le> FsmCategoryForFreeBytes free" and "0 < r"
  shows "r + 8 \<le> free"
proof -
  have m: "unat m = ((r - 1) * 255) div 8135 + 1" "r \<le> 8135"
    using assms(1,3) by (simp_all add: MinimumFsmCategory_Ok_iff)
  have le: "unat m \<le> unat (FsmCategoryForFreeBytes free)"
    using assms(2) by (simp add: word_le_nat_alt)
  then have f: "8 < free" using m by (simp add: FsmCategoryForFreeBytes_eq split: if_splits)
  show ?thesis
  proof (rule ccontr)
    assume "\<not> ?thesis"
    then have "min (free - 8) 8135 \<le> r - 1" using f m(2) by linarith
    then have "(min (free - 8) 8135 * 255) div 8135 \<le> ((r - 1) * 255) div 8135"
      by (intro div_le_mono mult_le_mono1)
    then show False using le m(1) f by (simp add: FsmCategoryForFreeBytes_eq)
  qed
qed

lemma FsmCategoryMinimumUsableBytes_le_iff:
  "FsmCategoryMinimumUsableBytes c \<le> n \<longleftrightarrow> unat c * 8135 \<le> n * 255"
proof -
  have "FsmCategoryMinimumUsableBytes c = (unat c * 8135 + 254) div 255"
    by (simp add: FsmCategoryMinimumUsableBytes_def)
  then have "FsmCategoryMinimumUsableBytes c \<le> n \<longleftrightarrow> (unat c * 8135 + 254) div 255 < n + 1"
    by linarith
  also have "\<dots> \<longleftrightarrow> unat c * 8135 + 254 < (n + 1) * 255"
    by (rule div_less_iff_less_mult) simp
  also have "\<dots> \<longleftrightarrow> unat c * 8135 \<le> n * 255" by (simp add: algebra_simps) linarith
  finally show ?thesis .
qed

text \<open>The represented lower bound of a page's category never exceeds its usable bytes.\<close>

lemma category_lower_bound:
  "FsmCategoryMinimumUsableBytes (FsmCategoryForFreeBytes free) \<le> free - 8"
proof (cases "free \<le> 8")
  case True
  then have "unat (FsmCategoryForFreeBytes free) = 0" by (simp add: FsmCategoryForFreeBytes_eq)
  then show ?thesis unfolding FsmCategoryMinimumUsableBytes_le_iff by simp
next
  case False
  let ?u = "min (free - 8) 8135"
  have "(?u * 255) div 8135 * 8135 \<le> ?u * 255" by (rule div_times_less_eq_dividend)
  also have "\<dots> \<le> (free - 8) * 255" by (intro mult_le_mono1) simp
  finally show ?thesis
    unfolding FsmCategoryMinimumUsableBytes_le_iff using False by (simp add: FsmCategoryForFreeBytes_eq)
qed

text \<open>The minimum category is the least one whose lower bound satisfies the request.\<close>

lemma minimum_category_least:
  assumes "MinimumFsmCategoryForTupleBytes r = Ok m"
  shows "r \<le> FsmCategoryMinimumUsableBytes c \<longleftrightarrow> m \<le> c"
proof (cases "r = 0")
  case True
  then have "m = 0" using assms by (simp add: MinimumFsmCategory_Ok_iff unat_eq_0)
  then show ?thesis using True by simp
next
  case False
  have m: "unat m = ((r - 1) * 255) div 8135 + 1" using assms False by (simp add: MinimumFsmCategory_Ok_iff)
  have "r \<le> FsmCategoryMinimumUsableBytes c \<longleftrightarrow> \<not> FsmCategoryMinimumUsableBytes c \<le> r - 1"
    using False by linarith
  also have "\<dots> \<longleftrightarrow> (r - 1) * 255 < unat c * 8135"
    unfolding FsmCategoryMinimumUsableBytes_le_iff by linarith
  also have "\<dots> \<longleftrightarrow> ((r - 1) * 255) div 8135 < unat c"
    by (rule div_less_iff_less_mult[symmetric]) simp
  also have "\<dots> \<longleftrightarrow> m \<le> c" using m by (simp add: word_le_nat_alt Suc_le_eq)
  finally show ?thesis .
qed

section \<open>The mapping of heap pages to entries\<close>

lemma unat_max_64: "unat (- 1 :: 64 word) = 18446744073709551615"
  by (simp add: unsigned_minus_1_eq_mask mask_eq_exp_minus_1)

lemma unat_max_1_64: "unat (- 1 - 1 :: 64 word) = 18446744073709551614"
proof -
  have "unat (- 1 - 1 :: 64 word) = unat (- 1 :: 64 word) - unat (1 :: 64 word)"
    by (rule unat_sub) simp
  then show ?thesis by (simp add: unat_max_64)
qed

lemma unat_1_plus_64: "unat w < 18446744073709551615 \<Longrightarrow> unat (1 + w :: 64 word) = Suc (unat w)"
  by (simp add: unat_word_ariths)

lemma FsmLocation_Ok:
  assumes "FsmLocationForHeapPage n = Ok loc"
  shows "n \<noteq> 0" and "n \<noteq> INVALID_PAGE_NO"
    and "unat (fl_fsm_page_no loc) = 1 + (unat n - 1) div 8144"
    and "unat (fl_entry_index loc) = (unat n - 1) mod 8144"
proof -
  have n: "n \<noteq> 0" "n \<noteq> INVALID_PAGE_NO" using assms by (auto simp: FsmLocationForHeapPage_def split: if_splits)
  then show "n \<noteq> 0" "n \<noteq> INVALID_PAGE_NO" .
  have loc: "loc = \<lparr>fl_fsm_page_no = 1 + (n - 1) div 8144, fl_entry_index = ucast ((n - 1) mod 8144)\<rparr>"
    using assms n by (auto simp: FsmLocationForHeapPage_def Let_def split: if_splits)
  have u: "unat (n - 1) = unat n - 1" using n(1) by (simp add: unat_minus_one)
  have d: "unat ((n - 1) div 8144) = (unat n - 1) div 8144" by (simp add: unat_div_distrib u)
  have "(unat n - 1) div 8144 \<le> unat n - 1" by (rule div_le_dividend)
  moreover have "(unat n - 1) div 8144 \<le> 18446744073709551615 div 8144"
    by (rule div_le_mono) (use unat_64_lt[of n] in linarith)
  ultimately have "1 + (unat n - 1) div 8144 < 18446744073709551616" by simp
  then show "unat (fl_fsm_page_no loc) = 1 + (unat n - 1) div 8144"
    by (simp add: loc unat_1_plus_64 d)
  have "unat ((n - 1) mod 8144) = (unat n - 1) mod 8144" by (simp add: unat_mod_distrib u)
  moreover have "(unat n - 1) mod 8144 < 65536"
    using mod_less_divisor[of 8144 "unat n - 1"] by linarith
  ultimately show "unat (fl_entry_index loc) = (unat n - 1) mod 8144"
    by (simp add: loc unsigned_ucast_eq take_bit_eq_mod)
qed

lemma FsmLocation_total:
  assumes "n \<noteq> 0" and "n \<noteq> INVALID_PAGE_NO"
  shows "\<exists>loc. FsmLocationForHeapPage n = Ok loc"
proof -
  have "unat ((n - 1) div 8144) = unat (n - 1) div 8144" by (simp add: unat_div_distrib)
  also have "\<dots> \<le> 18446744073709551615 div 8144"
    by (rule div_le_mono) (use unat_64_lt[of "n - 1"] in linarith)
  finally have "(n - 1) div 8144 \<noteq> - 1" using unat_max_64 by auto
  then show ?thesis using assms by (simp add: FsmLocationForHeapPage_def Let_def)
qed

text \<open>The two directions of the mapping agree.\<close>

lemma FirstHeapPage_of_location:
  assumes "FsmLocationForHeapPage n = Ok loc"
  shows "\<exists>first. FirstHeapPageForFsmPage (fl_fsm_page_no loc) = Some first \<and>
    unat n = unat first + unat (fl_entry_index loc) \<and> unat (fl_entry_index loc) < 8144"
proof -
  note l = FsmLocation_Ok[OF assms]
  define q where "q = (unat n - 1) div 8144"
  have n0: "unat n \<noteq> 0" using l(1) by (simp add: unat_eq_0)
  have nM: "unat n \<noteq> 18446744073709551615"
    using l(2) unat_INVALID_PAGE_NO by (metis word_unat_eq_iff)
  have q: "q * 8144 + (unat n - 1) mod 8144 = unat n - 1" by (simp add: q_def)
  then have qle: "q * 8144 \<le> unat n - 1" by linarith
  have f: "unat (fl_fsm_page_no loc) = 1 + q" using l(3) by (simp add: q_def)
  have bound: "unat n < 18446744073709551615" using nM unat_64_lt[of n] by linarith
  have i: "unat (fl_fsm_page_no loc - 1) = q"
  proof -
    have "fl_fsm_page_no loc \<noteq> 0" using f by auto
    then show ?thesis using f by (simp add: unat_minus_one)
  qed
  have le: "unat (fl_fsm_page_no loc - 1) \<le> unat ((- 1 - 1) div 8144 :: 64 word)"
  proof -
    have "q \<le> (unat n - 1) div 8144" by (simp add: q_def)
    also have "\<dots> \<le> 18446744073709551614 div 8144" by (rule div_le_mono) (use bound in linarith)
    finally show ?thesis unfolding i unat_div_distrib unat_max_1_64 by simp
  qed
  define first where "first = 1 + (fl_fsm_page_no loc - 1) * 8144"
  have "unat ((fl_fsm_page_no loc - 1) * 8144) = q * 8144"
  proof -
    have "q * 8144 < 18446744073709551616" using qle bound by linarith
    then show ?thesis using unat_word_ariths(2)[of "fl_fsm_page_no loc - 1" 8144] by (simp only: i) simp
  qed
  then have uf: "unat first = Suc (q * 8144)"
    unfolding first_def using qle bound by (subst unat_1_plus_64) linarith+
  have ne: "fl_fsm_page_no loc \<noteq> 0" "fl_fsm_page_no loc \<noteq> INVALID_PAGE_NO" "first \<noteq> INVALID_PAGE_NO"
  proof -
    show "fl_fsm_page_no loc \<noteq> 0" using f by auto
    have "1 + q \<noteq> 18446744073709551615" using qle bound by linarith
    then show "fl_fsm_page_no loc \<noteq> INVALID_PAGE_NO" using f unat_INVALID_PAGE_NO by auto
    have "Suc (q * 8144) \<noteq> 18446744073709551615" using qle bound n0 by linarith
    then show "first \<noteq> INVALID_PAGE_NO" using uf unat_INVALID_PAGE_NO by auto
  qed
  have "FirstHeapPageForFsmPage (fl_fsm_page_no loc) = Some first"
    using ne le unfolding first_def
    by (simp add: FirstHeapPageForFsmPage_def Let_def word_less_nat_alt)
  moreover have "unat n = unat first + unat (fl_entry_index loc)"
    using uf l(4) q n0 by simp
  moreover have "unat (fl_entry_index loc) < 8144" using l(4) by simp
  ultimately show ?thesis by blast
qed

lemma FsmLocation_inject:
  assumes "FsmLocationForHeapPage n = Ok loc" and "FsmLocationForHeapPage m = Ok loc"
  shows "n = m"
proof -
  obtain first where "FirstHeapPageForFsmPage (fl_fsm_page_no loc) = Some first"
    and n: "unat n = unat first + unat (fl_entry_index loc)"
    using FirstHeapPage_of_location[OF assms(1)] by blast
  moreover obtain first' where "FirstHeapPageForFsmPage (fl_fsm_page_no loc) = Some first'"
    and m: "unat m = unat first' + unat (fl_entry_index loc)"
    using FirstHeapPage_of_location[OF assms(2)] by blast
  ultimately show ?thesis by (metis option.inject word_unat_eq_iff)
qed

section \<open>The page's operations\<close>

lemma first_nonzero_None_iff:
  "first_nonzero es n i = None \<longleftrightarrow> (\<forall>j. i \<le> j \<and> j < i + n \<longrightarrow> es ! j = 0)"
proof (induction n arbitrary: i)
  case (Suc n)
  have "(\<forall>j. i \<le> j \<and> j < i + Suc n \<longrightarrow> es ! j = 0) \<longleftrightarrow>
      es ! i = 0 \<and> (\<forall>j. Suc i \<le> j \<and> j < Suc i + n \<longrightarrow> es ! j = 0)"
    using all_from_split[of i "i + Suc n" "\<lambda>j. es ! j = 0"] by simp
  then show ?case using Suc[of "Suc i"] by simp
qed auto

definition fsm_headers_ok :: "Page \<Rightarrow> FsmPageHeaders \<Rightarrow> bool" where
  "fsm_headers_ok p h \<longleftrightarrow>
     Page_DecodeHeader p = Some (fp_common h) \<and> ch_page_type (fp_common h) = FSM_DATA \<and>
     ch_page_no (fp_common h) = page_no (Page_id p) \<and> ch_header_size (fp_common h) = 48 \<and>
     ch_format_version (fp_common h) = 1 \<and> ch_flags (fp_common h) = 0 \<and>
     ch_reserved16 (fp_common h) = 0 \<and> FsmPage_Header p = Some (fp_fsm h) \<and>
     fh_reserved16 (fp_fsm h) = 0 \<and> fh_reserved32 (fp_fsm h) = 0 \<and>
     FirstHeapPageForFsmPage (page_no (Page_id p)) = Some (fh_first_heap_page_no (fp_fsm h)) \<and>
     unat (fh_entry_count (fp_fsm h)) \<le> 8144 \<and> InitializedRangeFits (fp_fsm h)"

lemma FsmPage_Validate_Ok_iff:
  assumes "Page_wf p"
  shows "FsmPage_Validate p = Ok h \<longleftrightarrow> fsm_headers_ok p h \<and>
     (\<forall>j. unat (fh_entry_count (fp_fsm h)) \<le> j \<and> j < 8144 \<longrightarrow> Page_bytes p ! (48 + j) = 0)"
proof -
  have first: "first_nonzero (subspan 48 8144 (Page_bytes p)) (8144 - c) c = None \<longleftrightarrow>
      (\<forall>j. c \<le> j \<and> j < 8144 \<longrightarrow> Page_bytes p ! (48 + j) = 0)" if "c \<le> 8144" for c
    using that assms by (auto simp: first_nonzero_None_iff Page_wf_def)
  have no: "page_no (Page_id p) \<noteq> 0 \<and> page_no (Page_id p) \<noteq> INVALID_PAGE_NO"
    if "FirstHeapPageForFsmPage (page_no (Page_id p)) = Some f" for f
    using that by (auto simp: FirstHeapPageForFsmPage_def split: if_splits)
  have "FsmPage_Validate p = Ok h \<longleftrightarrow> fsm_headers_ok p h \<and>
      first_nonzero (subspan 48 8144 (Page_bytes p)) (8144 - unat (fh_entry_count (fp_fsm h)))
        (unat (fh_entry_count (fp_fsm h))) = None"
  proof (cases "Page_DecodeHeader p")
    case None
    then show ?thesis by (simp add: FsmPage_Validate_def FsmValidationFailure_def fsm_headers_ok_def)
  next
    case ch: (Some ch)
    show ?thesis
    proof (cases "FsmPage_Header p")
      case None
      then show ?thesis
        by (simp add: ch FsmPage_Validate_def FsmValidationFailure_def fsm_headers_ok_def)
    next
      case fh: (Some fh)
      show ?thesis
      proof (cases "FirstHeapPageForFsmPage (page_no (Page_id p))")
        case None
        then show ?thesis
          by (simp add: ch fh FsmPage_Validate_def FsmValidationFailure_def fsm_headers_ok_def)
      next
        case (Some f)
        have last: "(case z of None \<Rightarrow> Inr r | Some i \<Rightarrow> Inl (g i)) = Inr v \<longleftrightarrow> z = None \<and> v = r"
          for z :: "nat option" and r v and g :: "nat \<Rightarrow> FsmPageValidationFailure"
          by (auto split: option.splits)
        show ?thesis
          unfolding FsmPage_Validate_def FsmValidationFailure_def fsm_headers_ok_def ch fh Some
            option.case guard_Ok_iff last
          using no[OF Some] by (cases h) (auto simp: Some not_less)
      qed
    qed
  qed
  then show ?thesis using first by (auto simp: fsm_headers_ok_def)
qed

lemma FsmPage_Header_cong:
  "subspan 32 16 (Page_bytes p) = subspan 32 16 (Page_bytes p') \<Longrightarrow> FsmPage_Header p = FsmPage_Header p'"
  by (simp add: FsmPage_Header_def)

text \<open>Initializing gives a valid page whose initialised entries are all zero.\<close>

lemma FsmPage_Initialize_valid:
  assumes wf: "Page_wf p" and ini: "FsmPage_Initialize p i = Some (Ok (), p')"
  shows "Page_wf p'" and "\<exists>h. FsmPage_Validate p' = Ok h \<and> fh_entry_count (fp_fsm h) = fi_entry_count i"
    and "j < unat (fi_entry_count i) \<Longrightarrow> FsmPage_Category p' j = Ok 0"
proof -
  define ch where "ch = \<lparr>ch_page_type = FSM_DATA, ch_format_version = 1, ch_flags = 0,
    ch_page_lsn = fi_page_lsn i, ch_checksum_crc32c = 0, ch_header_size = 48, ch_reserved16 = 0,
    ch_page_no = page_no (Page_id p)\<rparr>"
  obtain first where first: "FirstHeapPageForFsmPage (page_no (Page_id p)) = Some first"
    and cnt: "unat (fi_entry_count i) \<le> 8144"
    using ini by (auto simp: FsmPage_Initialize_def Let_def split: if_splits option.splits)
  define fh where "fh = \<lparr>fh_first_heap_page_no = first, fh_entry_count = fi_entry_count i,
    fh_reserved16 = 0, fh_reserved32 = 0\<rparr>"
  have fits: "InitializedRangeFits fh"
    and p': "p' = p\<lparr>Page_bytes := put 32 (FsmPageHeader_image fh)
      (put 0 (CommonPageHeader_image ch) (replicate 8192 0))\<rparr>"
    using ini first cnt wf
    by (auto simp: FsmPage_Initialize_def Let_def EncodeCommonPageHeader_eq EncodeFsmPageHeader_eq
        ch_def fh_def Page_wf_def split: if_splits)
  show wf': "Page_wf p'" by (simp add: p' Page_wf_def)
  have "take 32 (Page_bytes p') = CommonPageHeader_image ch"
    using subspan_put_other[of 32 "FsmPageHeader_image fh"
        "put 0 (CommonPageHeader_image ch) (replicate 8192 0)" 0 32]
      subspan_put_eq[of 32 "CommonPageHeader_image ch" 0 "replicate 8192 0"]
    by (simp add: p' subspan_0_take)
  then have dec: "Page_DecodeHeader p' = Some ch"
    using wf' by (simp add: Page_DecodeHeader_def common_header.decode_Some_iff Page_wf_def ch_def)
  have hdr: "FsmPage_Header p' = Some fh"
    by (simp add: FsmPage_Header_def p' subspan_put_eq fsm_header.decode_Some_iff)
  have zero: "Page_bytes p' ! (48 + j) = 0" if "j < 8144" for j
    using that by (simp add: p' nth_put)
  have v: "FsmPage_Validate p' = Ok \<lparr>fp_common = ch, fp_fsm = fh\<rparr>"
    unfolding FsmPage_Validate_Ok_iff[OF wf'] fsm_headers_ok_def
    using dec hdr first cnt fits zero by (simp add: ch_def fh_def p')
  then show "\<exists>h. FsmPage_Validate p' = Ok h \<and> fh_entry_count (fp_fsm h) = fi_entry_count i"
    by (auto simp: fh_def)
  show "FsmPage_Category p' j = Ok 0" if "j < unat (fi_entry_count i)"
    using that v zero[of j] cnt by (simp add: FsmPage_Category_def fh_def)
qed

lemma FsmPage_SetCategory_Ok:
  assumes wf: "Page_wf p" and set: "FsmPage_SetCategory p i c = (Ok (), p')"
  shows "Page_wf p'" and "FsmPage_Validate p' = FsmPage_Validate p"
    and "FsmPage_Category p' i = Ok c"
    and "j \<noteq> i \<Longrightarrow> FsmPage_Category p' j = FsmPage_Category p j"
proof -
  from set obtain h where v: "FsmPage_Validate p = Ok h" and i: "i < unat (fh_entry_count (fp_fsm h))"
    and p': "p' = p\<lparr>Page_bytes := (Page_bytes p)[48 + i := c]\<rparr>"
    by (auto simp: FsmPage_SetCategory_def split: sum.splits if_splits)
  note v' = v[unfolded FsmPage_Validate_Ok_iff[OF wf]]
  have len: "length (Page_bytes p) = 8192" using wf by (simp add: Page_wf_def)
  have i': "i < 8144" using i v' by (simp add: fsm_headers_ok_def)
  show wf': "Page_wf p'" using wf by (simp add: p' Page_wf_def)
  have "take 32 (Page_bytes p') = take 32 (Page_bytes p)"
    by (simp add: p' take_update_cancel)
  then have "Page_DecodeHeader p' = Page_DecodeHeader p" by (rule Page_DecodeHeader_cong[OF wf' wf])
  moreover have "FsmPage_Header p' = FsmPage_Header p"
    by (rule FsmPage_Header_cong) (rule region_eqI, use len in \<open>auto simp: p'\<close>)
  ultimately have "fsm_headers_ok p' h"
    using v' by (simp add: fsm_headers_ok_def p')
  moreover have "Page_bytes p' ! (48 + j) = 0"
    if "unat (fh_entry_count (fp_fsm h)) \<le> j \<and> j < 8144" for j
    using that v' i by (auto simp: p')
  ultimately have val: "FsmPage_Validate p' = Ok h"
    unfolding FsmPage_Validate_Ok_iff[OF wf'] by blast
  then show "FsmPage_Validate p' = FsmPage_Validate p" using v by simp
  show "FsmPage_Category p' i = Ok c"
    using val i i' len by (simp add: FsmPage_Category_def p')
  show "FsmPage_Category p' j = FsmPage_Category p j" if "j \<noteq> i"
    using that val v by (simp add: FsmPage_Category_def p')
qed

lemma FsmPage_SetCategory_frame: "FsmPage_SetCategory p i c = (Inl e, p') \<Longrightarrow> p' = p"
  by (auto simp: FsmPage_SetCategory_def split: sum.splits if_splits)

end
