(* ===== verification/Fsm_Index.thy ===== *)
theory Fsm_Index
  imports Fsm_Page
begin

text \<open>
  The in-memory candidate index: \<open>src/src/storage/heap/fsm_candidate_index.h\<close> and
  \<open>fsm_candidate_index.cpp\<close>. The 256 ordered sets are a list of sets whose
  \<open>begin()\<close> is the minimum, the hash map is a partial map. \<open>None\<close> is the abort of
  a debug-build \<open>DBLUS_ASSERT\<close>. \<open>FsmCandidateIndex_Upsert\<close> is the operation while memory lasts,
  \<open>FsmCandidateIndex_Upsert_within\<close> is the operation with allocations that may fail.

  The locale \<open>candidate_index\<close> is the contract an inserter relies on: a map from pages to
  categories that can be asked for a page with room.
\<close>

datatype FsmCandidateIndexError = CI_INVALID_PAGE_NUMBER | TUPLE_REQUEST_TOO_LARGE

definition CATEGORY_COUNT :: nat where [layout, simp]: "CATEGORY_COUNT = 256"

record FsmCandidateIndex =
  ci_buckets :: "PageNo set list"
  ci_page_categories :: "PageNo \<Rightarrow> (8 word) option"

definition FsmCandidateIndex_new :: FsmCandidateIndex where
  "FsmCandidateIndex_new =
     \<lparr>ci_buckets = replicate CATEGORY_COUNT {}, ci_page_categories = Map.empty\<rparr>"

section \<open>Operations\<close>

definition FsmCandidateIndex_Upsert ::
    "FsmCandidateIndex \<Rightarrow> PageNo \<Rightarrow> 8 word \<Rightarrow>
     (FsmCandidateIndexError status \<times> FsmCandidateIndex) option" where
  "FsmCandidateIndex_Upsert index p category =
     (if \<not> IsValidHeapPageNumber p then Some (Unexpected CI_INVALID_PAGE_NUMBER, index)
      else
        (let buckets = ci_buckets index; bucket = buckets ! unat category
         in case ci_page_categories index p of
              None \<Rightarrow>
                if p \<in> bucket then None
                else Some (Ok (), \<lparr>ci_buckets = buckets[unat category := insert p bucket],
                       ci_page_categories = (ci_page_categories index)(p \<mapsto> category)\<rparr>)
            | Some existing \<Rightarrow>
                if existing = category then (if p \<notin> bucket then None else Some (Ok (), index))
                else if p \<in> bucket then None
                else
                  (let buckets = buckets[unat category := insert p bucket]
                   in if p \<notin> buckets ! unat existing then None
                      else Some (Ok (),
                        \<lparr>ci_buckets = buckets[unat existing := buckets ! unat existing - {p}],
                         ci_page_categories = (ci_page_categories index)(p \<mapsto> category)\<rparr>))))"

text \<open>The two allocations: a node of the hash map, a node of the bucket's set. Either one may throw
  \<open>std::bad_alloc\<close>, which the container survives unchanged; the status is then \<open>None\<close>. The handler takes the
  new page out of the map again.\<close>

definition FsmCandidateIndex_Upsert_within ::
    "bool \<Rightarrow> bool \<Rightarrow> FsmCandidateIndex \<Rightarrow> PageNo \<Rightarrow> 8 word \<Rightarrow>
     (FsmCandidateIndexError status option \<times> FsmCandidateIndex) option" where
  "FsmCandidateIndex_Upsert_within map_room bucket_room index p category =
     (if \<not> IsValidHeapPageNumber p then Some (Some (Unexpected CI_INVALID_PAGE_NUMBER), index)
      else
        (let buckets = ci_buckets index; bucket = buckets ! unat category
         in case ci_page_categories index p of
              None \<Rightarrow>
                if \<not> map_room then Some (None, index)
                else
                  (let index = index\<lparr>ci_page_categories := (ci_page_categories index)(p \<mapsto> category)\<rparr>
                   in if \<not> bucket_room
                      then Some (None, index\<lparr>ci_page_categories := (ci_page_categories index)(p := None)\<rparr>)
                      else if p \<in> bucket then None
                      else Some (Some (Ok ()), index\<lparr>ci_buckets := buckets[unat category := insert p bucket]\<rparr>))
            | Some existing \<Rightarrow>
                if existing = category then (if p \<notin> bucket then None else Some (Some (Ok ()), index))
                else if \<not> bucket_room then Some (None, index)
                else if p \<in> bucket then None
                else
                  (let buckets = buckets[unat category := insert p bucket]
                   in if p \<notin> buckets ! unat existing then None
                      else Some (Some (Ok ()),
                        \<lparr>ci_buckets = buckets[unat existing := buckets ! unat existing - {p}],
                         ci_page_categories = (ci_page_categories index)(p \<mapsto> category)\<rparr>))))"

lemma Upsert_within_cases:
  assumes "FsmCandidateIndex_Upsert_within map_room bucket_room ix p c = Some (status, ix')"
  shows "case status of None \<Rightarrow> ix' = ix \<and> \<not> (map_room \<and> bucket_room) | Some st \<Rightarrow> FsmCandidateIndex_Upsert ix p c = Some (st, ix')"
  using assms
  by (auto simp: FsmCandidateIndex_Upsert_within_def FsmCandidateIndex_Upsert_def Let_def fun_upd_idem
      split: if_splits option.splits)

lemma Upsert_within_returns:
  "FsmCandidateIndex_Upsert ix p c \<noteq> None \<Longrightarrow> FsmCandidateIndex_Upsert_within map_room bucket_room ix p c \<noteq> None"
  by (auto simp: FsmCandidateIndex_Upsert_within_def FsmCandidateIndex_Upsert_def Let_def split: if_splits option.splits)

definition FsmCandidateIndex_Remove ::
    "FsmCandidateIndex \<Rightarrow> PageNo \<Rightarrow> (FsmCandidateIndexError status \<times> FsmCandidateIndex) option" where
  "FsmCandidateIndex_Remove index p =
     (if \<not> IsValidHeapPageNumber p then Some (Unexpected CI_INVALID_PAGE_NUMBER, index)
      else
        (case ci_page_categories index p of
           None \<Rightarrow> Some (Ok (), index)
         | Some existing \<Rightarrow>
             (let bucket = ci_buckets index ! unat existing
              in if p \<notin> bucket then None
                 else Some (Ok (), \<lparr>ci_buckets = (ci_buckets index)[unat existing := bucket - {p}],
                        ci_page_categories = (ci_page_categories index)(p := None)\<rparr>))))"

text \<open>The loop over the categories, \<open>n\<close> of them to go from \<open>category\<close> on.\<close>

fun find_bucket :: "PageNo set list \<Rightarrow> nat \<Rightarrow> nat \<Rightarrow> PageNo option" where
  "find_bucket buckets 0 category = None"
| "find_bucket buckets (Suc n) category =
     (if buckets ! category \<noteq> {} then Some (Min (buckets ! category))
      else find_bucket buckets n (category + 1))"

definition FsmCandidateIndex_FindCandidate ::
    "FsmCandidateIndex \<Rightarrow> nat \<Rightarrow> (PageNo option, FsmCandidateIndexError) result" where
  "FsmCandidateIndex_FindCandidate index required_tuple_bytes =
     (case MinimumFsmCategoryForTupleBytes required_tuple_bytes of
        Inl _ \<Rightarrow> Unexpected TUPLE_REQUEST_TOO_LARGE
      | Inr minimum_category \<Rightarrow>
          Ok (find_bucket (ci_buckets index) (CATEGORY_COUNT - unat minimum_category)
                (unat minimum_category)))"

definition FsmCandidateIndex_Clear :: "FsmCandidateIndex \<Rightarrow> FsmCandidateIndex" where
  "FsmCandidateIndex_Clear index =
     index\<lparr>ci_buckets := map (\<lambda>_. {}) (ci_buckets index), ci_page_categories := Map.empty\<rparr>"

definition FsmCandidateIndex_Size :: "FsmCandidateIndex \<Rightarrow> nat" where
  "FsmCandidateIndex_Size index = card (dom (ci_page_categories index))"

section \<open>The map and the buckets agree\<close>

definition index_inv :: "FsmCandidateIndex \<Rightarrow> bool" where
  "index_inv ix \<longleftrightarrow>
     length (ci_buckets ix) = 256 \<and> finite (dom (ci_page_categories ix)) \<and>
     (\<forall>p \<in> dom (ci_page_categories ix). IsValidHeapPageNumber p) \<and>
     (\<forall>c. ci_buckets ix ! unat c = {p. ci_page_categories ix p = Some c})"

lemma unat_8_lt [simp]: "unat (c :: 8 word) < 256"
proof -
  have "unat c < 2 ^ LENGTH(8)" by (rule unsigned_less)
  then show ?thesis by simp
qed

lemma index_inv_new: "index_inv FsmCandidateIndex_new"
  by (simp add: index_inv_def FsmCandidateIndex_new_def)

lemma index_inv_Clear:
  "index_inv ix \<Longrightarrow> index_inv (FsmCandidateIndex_Clear ix) \<and>
   ci_page_categories (FsmCandidateIndex_Clear ix) = Map.empty"
  by (simp add: index_inv_def FsmCandidateIndex_Clear_def)

lemma unat_ne: "(c :: 'a::len word) \<noteq> d \<Longrightarrow> unat c \<noteq> unat d"
  by (metis word_unat_eq_iff)

lemma Upsert_ok:
  assumes inv: "index_inv ix" and p: "IsValidHeapPageNumber p"
  shows "\<exists>ix'. FsmCandidateIndex_Upsert ix p c = Some (Ok (), ix') \<and> index_inv ix' \<and>
    ci_page_categories ix' = (ci_page_categories ix)(p \<mapsto> c)"
proof -
  let ?m = "ci_page_categories ix" and ?b = "ci_buckets ix"
  have len: "length ?b = 256" and fin: "finite (dom ?m)"
    and val: "\<And>q d. ?m q = Some d \<Longrightarrow> IsValidHeapPageNumber q"
    and bk: "\<And>d. ?b ! unat d = {q. ?m q = Some d}"
    using inv by (auto simp: index_inv_def dom_def)
  have ok: "index_inv \<lparr>ci_buckets = b', ci_page_categories = ?m(p \<mapsto> c)\<rparr>"
    if "length b' = 256" "\<And>d. b' ! unat d = {q. (?m(p \<mapsto> c)) q = Some d}" for b'
    using that fin val p by (auto simp: index_inv_def split: if_splits)
  show ?thesis
  proof (cases "?m p")
    case None
    have "p \<notin> ?b ! unat c" using None by (simp add: bk)
    moreover have "index_inv \<lparr>ci_buckets = ?b[unat c := insert p (?b ! unat c)],
        ci_page_categories = ?m(p \<mapsto> c)\<rparr>"
    proof (rule ok)
      fix d show "?b[unat c := insert p (?b ! unat c)] ! unat d = {q. (?m(p \<mapsto> c)) q = Some d}"
        using None len unat_ne[of c d] by (cases "c = d") (auto simp: bk)
    qed (simp add: len)
    ultimately show ?thesis using p None by (simp add: FsmCandidateIndex_Upsert_def Let_def)
  next
    case (Some e)
    show ?thesis
    proof (cases "e = c")
      case True
      then have "?m(p \<mapsto> c) = ?m" using Some by auto
      then show ?thesis using True Some p inv by (simp add: FsmCandidateIndex_Upsert_def Let_def bk)
    next
      case False
      let ?b1 = "?b[unat c := insert p (?b ! unat c)]"
      have at: "?b1 ! unat e = ?b ! unat e" using unat_ne[OF False] by simp
      have "p \<notin> ?b ! unat c" using Some False by (simp add: bk)
      moreover have "p \<in> ?b1 ! unat e" unfolding at using Some by (simp add: bk)
      moreover have "index_inv \<lparr>ci_buckets = ?b1[unat e := ?b1 ! unat e - {p}],
          ci_page_categories = ?m(p \<mapsto> c)\<rparr>"
      proof (rule ok)
        fix d show "?b1[unat e := ?b1 ! unat e - {p}] ! unat d = {q. (?m(p \<mapsto> c)) q = Some d}"
          using Some len False unat_ne[of c d] unat_ne[of e d] unat_ne[OF False]
          by (cases "c = d"; cases "e = d") (auto simp: bk)
      qed (simp add: len)
      ultimately show ?thesis using p Some False by (simp add: FsmCandidateIndex_Upsert_def Let_def)
    qed
  qed
qed

lemma Remove_ok:
  assumes inv: "index_inv ix" and p: "IsValidHeapPageNumber p"
  shows "\<exists>ix'. FsmCandidateIndex_Remove ix p = Some (Ok (), ix') \<and> index_inv ix' \<and>
    ci_page_categories ix' = (ci_page_categories ix)(p := None)"
proof -
  let ?m = "ci_page_categories ix" and ?b = "ci_buckets ix"
  have len: "length ?b = 256" and fin: "finite (dom ?m)"
    and val: "\<And>q d. ?m q = Some d \<Longrightarrow> IsValidHeapPageNumber q"
    and bk: "\<And>d. ?b ! unat d = {q. ?m q = Some d}"
    using inv by (auto simp: index_inv_def dom_def)
  show ?thesis
  proof (cases "?m p")
    case None
    then have "?m(p := None) = ?m" by auto
    then show ?thesis using None p inv by (simp add: FsmCandidateIndex_Remove_def)
  next
    case (Some e)
    have "index_inv \<lparr>ci_buckets = ?b[unat e := ?b ! unat e - {p}], ci_page_categories = ?m(p := None)\<rparr>"
    proof -
      have "?b[unat e := ?b ! unat e - {p}] ! unat d = {q. (?m(p := None)) q = Some d}" for d
        using Some len unat_ne[of e d] by (cases "e = d") (auto simp: bk)
      then show ?thesis using len fin val by (auto simp: index_inv_def dom_def intro: finite_subset[of _ "dom ?m"])
    qed
    then show ?thesis using Some p by (simp add: FsmCandidateIndex_Remove_def Let_def bk)
  qed
qed

lemma find_bucket_Some:
  "find_bucket bs n c = Some p \<Longrightarrow>
   \<exists>d. c \<le> d \<and> d < c + n \<and> bs ! d \<noteq> {} \<and> p = Min (bs ! d) \<and> (\<forall>e. c \<le> e \<and> e < d \<longrightarrow> bs ! e = {})"
proof (induction n arbitrary: c)
  case (Suc n)
  show ?case
  proof (cases "bs ! c = {}")
    case True
    then have "find_bucket bs n (Suc c) = Some p" using Suc.prems by simp
    from Suc.IH[OF this] obtain d where d: "Suc c \<le> d" "d < Suc c + n" "bs ! d \<noteq> {}"
      "p = Min (bs ! d)" "\<forall>e. Suc c \<le> e \<and> e < d \<longrightarrow> bs ! e = {}" by blast
    have "bs ! e = {}" if "c \<le> e \<and> e < d" for e
      using that d(5) True by (cases "e = c") auto
    then show ?thesis using d by (intro exI[of _ d]) simp
  qed (use Suc.prems in auto)
qed simp

lemma find_bucket_None:
  "find_bucket bs n c = None \<longleftrightarrow> (\<forall>d. c \<le> d \<and> d < c + n \<longrightarrow> bs ! d = {})"
proof (induction n arbitrary: c)
  case (Suc n)
  have "(\<forall>d. c \<le> d \<and> d < c + Suc n \<longrightarrow> bs ! d = {}) \<longleftrightarrow>
      bs ! c = {} \<and> (\<forall>d. Suc c \<le> d \<and> d < Suc c + n \<longrightarrow> bs ! d = {})"
    using all_from_split[of c "c + Suc n" "\<lambda>d. bs ! d = {}"] by simp
  then show ?case using Suc[of "Suc c"] by simp
qed auto

lemma unat_cases_256: "(\<And>c :: 8 word. P (unat c)) \<Longrightarrow> d < 256 \<Longrightarrow> P d"
  by (metis unat_of_nat_8)

text \<open>What a search returns: the lowest page of the least sufficient category in use.\<close>

lemma FindCandidate_Some:
  assumes inv: "index_inv ix" and find: "FsmCandidateIndex_FindCandidate ix r = Ok (Some p)"
  shows "\<exists>m c. MinimumFsmCategoryForTupleBytes r = Ok m \<and> m \<le> c \<and>
    ci_page_categories ix p = Some c \<and>
    (\<forall>q d. ci_page_categories ix q = Some d \<and> m \<le> d \<longrightarrow> c \<le> d \<and> (d = c \<longrightarrow> p \<le> q))"
proof -
  from find obtain m where m: "MinimumFsmCategoryForTupleBytes r = Ok m"
    and b: "find_bucket (ci_buckets ix) (256 - unat m) (unat m) = Some p"
    by (auto simp: FsmCandidateIndex_FindCandidate_def split: sum.splits)
  obtain d where d: "unat m \<le> d" "d < 256" "ci_buckets ix ! d \<noteq> {}" "p = Min (ci_buckets ix ! d)"
    "\<forall>e. unat m \<le> e \<and> e < d \<longrightarrow> ci_buckets ix ! e = {}"
    using find_bucket_Some[OF b] unat_8_lt[of m] by auto
  define c where "c = (of_nat d :: 8 word)"
  have uc: "unat c = d" using d(2) by (simp add: c_def unat_of_nat_8)
  have bk: "\<And>e. ci_buckets ix ! unat e = {q. ci_page_categories ix q = Some e}"
    and fin: "finite (dom (ci_page_categories ix))" using inv by (auto simp: index_inv_def)
  have finb: "finite (ci_buckets ix ! d)"
    using bk[of c] uc fin by (auto intro: finite_subset[of _ "dom (ci_page_categories ix)"])
  have p: "ci_page_categories ix p = Some c" and low: "\<And>q. ci_page_categories ix q = Some c \<Longrightarrow> p \<le> q"
    using Min_in[OF finb d(3)] Min_le[OF finb] bk[of c] uc d(4) by auto
  moreover have "c \<le> e" if q: "ci_page_categories ix q = Some e" "m \<le> e" for q e
  proof (rule ccontr)
    assume "\<not> c \<le> e"
    then have "unat e < d" using uc by (simp add: word_le_nat_alt)
    moreover have "unat m \<le> unat e" using q(2) by (simp add: word_le_nat_alt)
    ultimately show False using d(5) bk[of e] q(1) by auto
  qed
  moreover have "m \<le> c" using d(1) uc by (simp add: word_le_nat_alt)
  ultimately show ?thesis using m by blast
qed

lemma FindCandidate_None:
  assumes inv: "index_inv ix" and find: "FsmCandidateIndex_FindCandidate ix r = Ok None"
  shows "\<exists>m. MinimumFsmCategoryForTupleBytes r = Ok m \<and>
    (\<forall>q d. ci_page_categories ix q = Some d \<longrightarrow> d < m)"
proof -
  from find obtain m where m: "MinimumFsmCategoryForTupleBytes r = Ok m"
    and b: "find_bucket (ci_buckets ix) (256 - unat m) (unat m) = None"
    by (auto simp: FsmCandidateIndex_FindCandidate_def split: sum.splits)
  have "d < m" if "ci_page_categories ix q = Some d" for q d
  proof (rule ccontr)
    assume "\<not> d < m"
    then have "unat m \<le> unat d" by (simp add: not_less word_le_nat_alt)
    then have "ci_buckets ix ! unat d = {}"
      using b unat_8_lt[of d] by (simp add: find_bucket_None)
    then show False using that inv by (auto simp: index_inv_def)
  qed
  then show ?thesis using m by blast
qed

section \<open>The contract\<close>

locale candidate_index =
  fixes inv :: "'i \<Rightarrow> bool"
    and categories :: "'i \<Rightarrow> PageNo \<Rightarrow> (8 word) option"
    and upsert :: "'i \<Rightarrow> PageNo \<Rightarrow> 8 word \<Rightarrow> 'i option"
    and remove :: "'i \<Rightarrow> PageNo \<Rightarrow> 'i option"
    and find :: "'i \<Rightarrow> nat \<Rightarrow> PageNo option"
  assumes upsert_valid: "inv i \<Longrightarrow> IsValidHeapPageNumber p \<Longrightarrow>
      \<exists>i'. upsert i p c = Some i' \<and> inv i' \<and> categories i' = (categories i)(p \<mapsto> c)"
    and remove_valid: "inv i \<Longrightarrow> IsValidHeapPageNumber p \<Longrightarrow>
      \<exists>i'. remove i p = Some i' \<and> inv i' \<and> categories i' = (categories i)(p := None)"
    and find_enough: "inv i \<Longrightarrow> find i r = Some p \<Longrightarrow>
      \<exists>m c. MinimumFsmCategoryForTupleBytes r = Ok m \<and> m \<le> c \<and> categories i p = Some c"
    and find_nothing: "inv i \<Longrightarrow> find i r = None \<Longrightarrow> MinimumFsmCategoryForTupleBytes r = Ok m \<Longrightarrow>
      categories i p = Some c \<Longrightarrow> c < m"
begin

text \<open>Recording the free bytes of a list of pages.\<close>

primrec track :: "'i \<Rightarrow> (PageNo \<times> nat) list \<Rightarrow> 'i option" where
  "track i [] = Some i"
| "track i (pf # ps) =
     Option.bind (upsert i (fst pf) (FsmCategoryForFreeBytes (snd pf))) (\<lambda>i'. track i' ps)"

lemma track_categories:
  "inv i \<Longrightarrow> \<forall>(p, free) \<in> set ps. IsValidHeapPageNumber p \<Longrightarrow>
   \<exists>i'. track i ps = Some i' \<and> inv i' \<and>
     categories i' = categories i ++ map_of (rev (map (\<lambda>(p, free). (p, FsmCategoryForFreeBytes free)) ps))"
proof (induction ps arbitrary: i)
  case (Cons pf ps)
  obtain p free where pf: "pf = (p, free)" by (cases pf)
  obtain i1 where i1: "upsert i p (FsmCategoryForFreeBytes free) = Some i1" "inv i1"
    "categories i1 = (categories i)(p \<mapsto> FsmCategoryForFreeBytes free)"
    using upsert_valid Cons.prems by (fastforce simp: pf)
  obtain i' where "track i1 ps = Some i'" "inv i'"
    "categories i' = categories i1 ++ map_of (rev (map (\<lambda>(p, free). (p, FsmCategoryForFreeBytes free)) ps))"
    using Cons.IH[OF i1(2)] Cons.prems(2) by auto
  then show ?case using i1 by (simp add: pf map_add_def fun_eq_iff split: option.splits)
qed simp

text \<open>A page that a search returns has the room the request needs, if its recorded category is
  that of its free bytes.\<close>

lemma find_has_room:
  assumes "inv i" and "find i r = Some p" and "0 < r"
    and "categories i p = Some (FsmCategoryForFreeBytes free)"
  shows "r + 8 \<le> free"
  using find_enough[OF assms(1,2)] assms(3,4) category_sound by auto

text \<open>No page with room for the represented request is missed.\<close>

lemma find_misses_nothing:
  assumes "inv i" and "find i r = None" and "r \<le> 8135" and "categories i p = Some c"
  shows "FsmCategoryMinimumUsableBytes c < r"
proof -
  obtain m where m: "MinimumFsmCategoryForTupleBytes r = Ok m"
    using assms(3) by (cases "r = 0") (auto simp: MinimumFsmCategoryForTupleBytes_def)
  have "\<not> m \<le> c" using find_nothing[OF assms(1,2) m assms(4)] by simp
  then show ?thesis using minimum_category_least[OF m, of c] by linarith
qed

lemma removed_not_found:
  assumes "inv i" and "IsValidHeapPageNumber p" and "remove i p = Some i'"
  shows "find i' r \<noteq> Some p"
proof
  assume f: "find i' r = Some p"
  obtain i'' where "remove i p = Some i''" "inv i''" "categories i'' = (categories i)(p := None)"
    using remove_valid[OF assms(1,2)] by blast
  then show False using find_enough[OF _ f] assms(3) by fastforce
qed

end

definition upserted :: "FsmCandidateIndex \<Rightarrow> PageNo \<Rightarrow> 8 word \<Rightarrow> FsmCandidateIndex option" where
  "upserted ix p c =
     (case FsmCandidateIndex_Upsert ix p c of Some (Inr _, ix') \<Rightarrow> Some ix' | _ \<Rightarrow> None)"

definition removed :: "FsmCandidateIndex \<Rightarrow> PageNo \<Rightarrow> FsmCandidateIndex option" where
  "removed ix p =
     (case FsmCandidateIndex_Remove ix p of Some (Inr _, ix') \<Rightarrow> Some ix' | _ \<Rightarrow> None)"

definition found :: "FsmCandidateIndex \<Rightarrow> nat \<Rightarrow> PageNo option" where
  "found ix r = (case FsmCandidateIndex_FindCandidate ix r of Inr (Some p) \<Rightarrow> Some p | _ \<Rightarrow> None)"

interpretation fsm_index: candidate_index index_inv ci_page_categories upserted removed found
proof unfold_locales
  fix ix p c assume "index_inv ix" "IsValidHeapPageNumber p"
  then show "\<exists>i'. upserted ix p c = Some i' \<and> index_inv i' \<and>
      ci_page_categories i' = (ci_page_categories ix)(p \<mapsto> c)"
    using Upsert_ok[of ix p c] by (auto simp: upserted_def)
next
  fix ix p assume "index_inv ix" "IsValidHeapPageNumber p"
  then show "\<exists>i'. removed ix p = Some i' \<and> index_inv i' \<and>
      ci_page_categories i' = (ci_page_categories ix)(p := None)"
    using Remove_ok[of ix p] by (auto simp: removed_def)
next
  fix ix r p assume "index_inv ix" "found ix r = Some p"
  then show "\<exists>m c. MinimumFsmCategoryForTupleBytes r = Ok m \<and> m \<le> c \<and>
      ci_page_categories ix p = Some c"
    using FindCandidate_Some[of ix r p] by (auto simp: found_def split: sum.splits option.splits)
next
  fix ix r m p c
  assume "index_inv ix" "found ix r = None" "MinimumFsmCategoryForTupleBytes r = Ok m"
    "ci_page_categories ix p = Some c"
  moreover from this have "FsmCandidateIndex_FindCandidate ix r = Ok None"
    by (auto simp: found_def FsmCandidateIndex_FindCandidate_def split: option.splits)
  ultimately show "c < m" using FindCandidate_None by fastforce
qed

end
