(* ===== verification/Clock.thy ===== *)
theory Clock
  imports Common_Types
begin

text \<open>
  The CLOCK replacement policy: \<open>src/src/storage/buffer/clock_replacer.h\<close> and
  \<open>clock_replacer.cpp\<close>. The eligibility predicate is the callback the buffer pool passes;
  it only reads. \<open>None\<close> from \<open>ClockReplacer_new\<close> is the abort of \<open>DBLUS_CHECK\<close>.
\<close>

type_synonym FrameId = "32 word"

record ClockReplacer =
  cr_referenced :: "8 word list"
  cr_hand :: nat
  cr_last_pass_visits :: nat

definition ClockReplacer_new :: "nat \<Rightarrow> ClockReplacer option" where
  "ClockReplacer_new frame_count =
     (if frame_count > 0
      then Some \<lparr>cr_referenced = replicate frame_count 0, cr_hand = 0, cr_last_pass_visits = 0\<rparr>
      else None)"

definition SetReferenced :: "ClockReplacer \<Rightarrow> FrameId \<Rightarrow> ClockReplacer" where
  "SetReferenced c frame_id = c\<lparr>cr_referenced := (cr_referenced c)[unat frame_id := 1]\<rparr>"

definition ClearReferenced :: "ClockReplacer \<Rightarrow> FrameId \<Rightarrow> ClockReplacer" where
  "ClearReferenced c frame_id = c\<lparr>cr_referenced := (cr_referenced c)[unat frame_id := 0]\<rparr>"

definition IsReferenced :: "ClockReplacer \<Rightarrow> FrameId \<Rightarrow> bool" where
  "IsReferenced c frame_id = (cr_referenced c ! unat frame_id \<noteq> 0)"

text \<open>The loop of \<open>FindCandidate\<close>, with \<open>n\<close> steps to go.\<close>

fun clock_loop :: "(FrameId \<Rightarrow> bool) \<Rightarrow> nat \<Rightarrow> ClockReplacer \<Rightarrow> FrameId option \<times> ClockReplacer" where
  "clock_loop eligible 0 c = (None, c)"
| "clock_loop eligible (Suc n) c =
     (let frame_id = of_nat (cr_hand c);
          c = c\<lparr>cr_hand := (cr_hand c + 1) mod length (cr_referenced c),
                cr_last_pass_visits := cr_last_pass_visits c + 1\<rparr>
      in if \<not> eligible frame_id then clock_loop eligible n c
         else if cr_referenced c ! unat frame_id \<noteq> 0
         then clock_loop eligible n (c\<lparr>cr_referenced := (cr_referenced c)[unat frame_id := 0]\<rparr>)
         else (Some frame_id, c))"

definition FindCandidate ::
    "(FrameId \<Rightarrow> bool) \<Rightarrow> ClockReplacer \<Rightarrow> FrameId option \<times> ClockReplacer" where
  "FindCandidate eligible c =
     clock_loop eligible (2 * length (cr_referenced c)) (c\<lparr>cr_last_pass_visits := 0\<rparr>)"

section \<open>One rotation\<close>

text \<open>The clock's type invariant, for a pool whose frames have 32-bit numbers.\<close>

definition clock_inv :: "ClockReplacer \<Rightarrow> bool" where
  "clock_inv c \<longleftrightarrow> cr_hand c < length (cr_referenced c) \<and> length (cr_referenced c) \<le> 4294967296"

text \<open>The frame visited in step \<open>i\<close>, and the reference bits after the first \<open>j\<close> visits.\<close>

definition visit :: "ClockReplacer \<Rightarrow> nat \<Rightarrow> nat" where
  "visit c i = (cr_hand c + i) mod length (cr_referenced c)"

definition cleared :: "(FrameId \<Rightarrow> bool) \<Rightarrow> ClockReplacer \<Rightarrow> nat \<Rightarrow> 8 word list" where
  "cleared eligible c j =
     map (\<lambda>x. if (\<exists>i < j. visit c i = x) \<and> eligible (of_nat x) then 0 else cr_referenced c ! x)
       [0..<length (cr_referenced c)]"

definition ready :: "(FrameId \<Rightarrow> bool) \<Rightarrow> ClockReplacer \<Rightarrow> nat \<Rightarrow> bool" where
  "ready eligible c x \<longleftrightarrow> eligible (of_nat x) \<and> cr_referenced c ! x = 0"

lemma visit_lt: "clock_inv c \<Longrightarrow> visit c i < length (cr_referenced c)"
  by (auto simp: clock_inv_def visit_def intro: mod_less_divisor)

lemma visit_inject:
  assumes "clock_inv c" and "visit c i = visit c j" and "i < length (cr_referenced c)"
    and "j < length (cr_referenced c)"
  shows "i = j"
proof -
  have *: "a = b" if le: "a \<le> b" and "visit c a = visit c b" and "b < length (cr_referenced c)" for a b
  proof -
    have "(cr_hand c + a) mod length (cr_referenced c) = (cr_hand c + b) mod length (cr_referenced c)"
      using that by (simp add: visit_def)
    then have "length (cr_referenced c) dvd (cr_hand c + b) - (cr_hand c + a)"
      using le mod_eq_dvd_iff_nat[of "cr_hand c + a" "cr_hand c + b" "length (cr_referenced c)"] by simp
    then have "length (cr_referenced c) dvd b - a" using le by simp
    then show ?thesis using that by (auto dest: dvd_imp_le)
  qed
  show ?thesis using *[of i j] *[of j i] assms by (cases "i \<le> j") auto
qed

lemma visit_surj:
  assumes "clock_inv c" and "x < length (cr_referenced c)"
  shows "\<exists>i < length (cr_referenced c). visit c i = x"
proof -
  let ?n = "length (cr_referenced c)"
  have "visit c ` {..<?n} = {..<?n}"
  proof (rule endo_inj_surj)
    show "visit c ` {..<?n} \<subseteq> {..<?n}" using visit_lt[OF assms(1)] by auto
    show "inj_on (visit c) {..<?n}" by (rule inj_onI) (use visit_inject[OF assms(1)] in auto)
  qed simp
  then show ?thesis using assms(2) by (metis (no_types, lifting) image_iff lessThan_iff)
qed

lemma unat_frame: "clock_inv c \<Longrightarrow> x < length (cr_referenced c) \<Longrightarrow> unat (of_nat x :: FrameId) = x"
  by (rule unat_of_nat_32) (auto simp: clock_inv_def)

lemma cleared_0: "cleared e c 0 = cr_referenced c"
  by (simp add: cleared_def map_nth)

lemma length_cleared [simp]: "length (cleared e c j) = length (cr_referenced c)"
  by (simp add: cleared_def)

lemma clock_make:
  "c\<lparr>cr_hand := h, cr_last_pass_visits := v\<rparr> =
     \<lparr>cr_referenced = cr_referenced c, cr_hand = h, cr_last_pass_visits = v\<rparr>"
  "c\<lparr>cr_hand := h, cr_last_pass_visits := v, cr_referenced := b\<rparr> =
     \<lparr>cr_referenced = b, cr_hand = h, cr_last_pass_visits = v\<rparr>"
  by simp_all

text \<open>Within one rotation every frame is seen once, so the loop stops at the first ready one.\<close>

lemma clock_loop_rotation:
  "clock_inv c \<Longrightarrow> k \<le> length (cr_referenced c) \<Longrightarrow>
   (\<exists>j < k. ready e c (visit c j) \<and> (\<forall>i < j. \<not> ready e c (visit c i)) \<and>
      clock_loop e k c = (Some (of_nat (visit c j)),
        \<lparr>cr_referenced = cleared e c j, cr_hand = visit c (Suc j),
         cr_last_pass_visits = cr_last_pass_visits c + Suc j\<rparr>)) \<or>
   (\<forall>i < k. \<not> ready e c (visit c i)) \<and>
      clock_loop e k c = (None,
        \<lparr>cr_referenced = cleared e c k, cr_hand = visit c k,
         cr_last_pass_visits = cr_last_pass_visits c + k\<rparr>)"
proof (induction k arbitrary: c)
  case 0
  then show ?case by (cases c) (simp add: cleared_0 visit_def clock_inv_def)
next
  case (Suc k)
  let ?n = "length (cr_referenced c)" and ?h = "cr_hand c"
  have inv: "clock_inv c" and h: "?h < ?n" and v0: "visit c 0 = ?h"
    using Suc.prems by (auto simp: clock_inv_def visit_def)
  have uh: "unat (of_nat ?h :: FrameId) = ?h" using unat_frame[OF inv h] .
  show ?case
  proof (cases "ready e c ?h")
    case True
    then have "clock_loop e (Suc k) c = (Some (of_nat ?h), \<lparr>cr_referenced = cr_referenced c,
        cr_hand = visit c 1, cr_last_pass_visits = cr_last_pass_visits c + 1\<rparr>)"
      using uh by (simp add: ready_def visit_def Let_def)
    then show ?thesis using True v0 by (intro disjI1 exI[of _ 0]) (simp add: cleared_0)
  next
    case False
    define bits where "bits = (if e (of_nat ?h) then (cr_referenced c)[?h := 0] else cr_referenced c)"
    define c1 where "c1 = \<lparr>cr_referenced = bits, cr_hand = visit c 1,
      cr_last_pass_visits = cr_last_pass_visits c + 1\<rparr>"
    have len: "length bits = ?n" by (simp add: bits_def)
    have step: "clock_loop e (Suc k) c = clock_loop e k c1"
      using False h uh by (auto simp: ready_def bits_def c1_def visit_def Let_def clock_make)
    have inv1: "clock_inv c1" using inv len visit_lt[OF inv, of 1] by (simp add: clock_inv_def c1_def)
    have vis: "visit c1 i = visit c (Suc i)" for i
      using len by (simp add: visit_def c1_def mod_add_left_eq)
    have other: "visit c (Suc i) \<noteq> ?h" if "Suc i < ?n" for i
    proof
      assume "visit c (Suc i) = ?h"
      then have eq: "visit c (Suc i) = visit c 0" using v0 by simp
      have "0 < ?n" using h by linarith
      from visit_inject[OF inv eq that this] have "Suc i = 0" .
      then show False by simp
    qed
    have rdy: "ready e c1 (visit c1 i) \<longleftrightarrow> ready e c (visit c (Suc i))" if "i < k" for i
      unfolding vis using other[of i] that Suc.prems(2) by (simp add: ready_def c1_def bits_def)
    have clr: "cleared e c1 j = cleared e c (Suc j)" for j
    proof (rule nth_equalityI)
      fix x assume "x < length (cleared e c1 j)"
      then have x: "x < ?n" using len by (simp add: c1_def)
      have "(\<exists>i < Suc j. visit c i = x) \<longleftrightarrow> x = ?h \<or> (\<exists>i < j. visit c1 i = x)"
        unfolding vis using v0 by (auto simp: less_Suc_eq_0_disj)
      moreover have "cleared e c1 j ! x = (if (\<exists>i < j. visit c1 i = x) \<and> e (of_nat x) then 0 else bits ! x)"
        using x len by (auto simp: cleared_def c1_def)
      moreover have "cleared e c (Suc j) ! x =
          (if (\<exists>i < Suc j. visit c i = x) \<and> e (of_nat x) then 0 else cr_referenced c ! x)"
        using x by (auto simp: cleared_def)
      moreover have "bits ! x = (if x = ?h \<and> e (of_nat x) then 0 else cr_referenced c ! x)"
        using x h by (auto simp: bits_def nth_list_update)
      ultimately show "cleared e c1 j ! x = cleared e c (Suc j) ! x" by auto
    qed (simp add: c1_def len)
    have all: "(\<forall>i < Suc j. \<not> ready e c (visit c i)) \<longleftrightarrow> (\<forall>i < j. \<not> ready e c1 (visit c1 i))"
      if "j \<le> k" for j
      using False v0 rdy that by (auto simp: less_Suc_eq_0_disj)
    from Suc.IH[OF inv1] Suc.prems(2) len
    consider j where "j < k" "ready e c1 (visit c1 j)" "\<forall>i < j. \<not> ready e c1 (visit c1 i)"
        "clock_loop e k c1 = (Some (of_nat (visit c1 j)),
        \<lparr>cr_referenced = cleared e c1 j, cr_hand = visit c1 (Suc j),
         cr_last_pass_visits = cr_last_pass_visits c1 + Suc j\<rparr>)"
      | "\<forall>i < k. \<not> ready e c1 (visit c1 i)"
        "clock_loop e k c1 = (None,
        \<lparr>cr_referenced = cleared e c1 k, cr_hand = visit c1 k,
         cr_last_pass_visits = cr_last_pass_visits c1 + k\<rparr>)"
      by (auto simp: c1_def)
    then show ?thesis
    proof cases
      case (1 j)
      have "ready e c (visit c (Suc j))" "\<forall>i < Suc j. \<not> ready e c (visit c i)"
        using 1(1,2,3) rdy[of j] all[of j] by auto
      moreover have "clock_loop e (Suc k) c = (Some (of_nat (visit c (Suc j))),
        \<lparr>cr_referenced = cleared e c (Suc j), cr_hand = visit c (Suc (Suc j)),
         cr_last_pass_visits = cr_last_pass_visits c + Suc (Suc j)\<rparr>)"
        unfolding step 1(4) vis clr by (simp add: c1_def)
      ultimately show ?thesis using 1(1) by (intro disjI1 exI[of _ "Suc j"]) simp
    next
      case 2
      have "\<forall>i < Suc k. \<not> ready e c (visit c i)" using 2(1) all[of k] by simp
      moreover have "clock_loop e (Suc k) c = (None,
        \<lparr>cr_referenced = cleared e c (Suc k), cr_hand = visit c (Suc k),
         cr_last_pass_visits = cr_last_pass_visits c + Suc k\<rparr>)"
        unfolding step 2(2) vis clr by (simp add: c1_def)
      ultimately show ?thesis by blast
    qed
  qed
qed

section \<open>Two rotations\<close>

lemma clock_loop_add:
  "clock_loop e (a + b) c =
     (case clock_loop e a c of (None, c') \<Rightarrow> clock_loop e b c' | (Some f, c') \<Rightarrow> (Some f, c'))"
  by (induction a arbitrary: c) (auto simp: Let_def split: prod.splits option.splits)

text \<open>After a rotation that found nothing the bits of all eligible frames are clear.\<close>

lemma cleared_all:
  assumes "clock_inv c" and "x < length (cr_referenced c)"
  shows "cleared e c (length (cr_referenced c)) ! x = (if e (of_nat x) then 0 else cr_referenced c ! x)"
  using visit_surj[OF assms] assms(2) by (auto simp: cleared_def)

lemma cleared_again:
  assumes "\<And>x. x < length (cr_referenced c) \<Longrightarrow> e (of_nat x) \<Longrightarrow> cr_referenced c ! x = 0"
  shows "cleared e c j = cr_referenced c"
  using assms by (intro nth_equalityI) (simp_all add: cleared_def)

lemma no_ready_iff:
  assumes "clock_inv c"
  shows "(\<forall>i < length (cr_referenced c). \<not> ready e c (visit c i)) \<longleftrightarrow>
    (\<forall>x < length (cr_referenced c). \<not> ready e c x)"
  using visit_surj[OF assms] visit_lt[OF assms] by metis

text \<open>A complete attempt: the first ready frame in clock order; else the first eligible one, which
  has then lost its second chance; else nothing.\<close>

lemma clock_pass_first:
  assumes inv: "clock_inv c" and j: "j < length (cr_referenced c)" and r: "ready e c (visit c j)"
    and least: "\<forall>i < j. \<not> ready e c (visit c i)"
  shows "FindCandidate e c = (Some (of_nat (visit c j)),
    \<lparr>cr_referenced = cleared e c j, cr_hand = visit c (Suc j), cr_last_pass_visits = Suc j\<rparr>)"
proof -
  let ?n = "length (cr_referenced c)"
  define c0 where "c0 = c\<lparr>cr_last_pass_visits := 0\<rparr>"
  have same: "clock_inv c0" "ready e c0 = ready e c" "visit c0 = visit c" "cleared e c0 = cleared e c"
    "length (cr_referenced c0) = ?n" "cr_last_pass_visits c0 = 0"
    using inv by (auto simp: c0_def clock_inv_def ready_def visit_def cleared_def fun_eq_iff)
  from clock_loop_rotation[OF same(1), of ?n e] j r
  obtain k where k: "k < ?n" "ready e c (visit c k)" "\<forall>i < k. \<not> ready e c (visit c i)"
    "clock_loop e ?n c0 = (Some (of_nat (visit c k)),
    \<lparr>cr_referenced = cleared e c k, cr_hand = visit c (Suc k), cr_last_pass_visits = Suc k\<rparr>)"
    unfolding same by auto
  have "k = j" using k(2,3) r least by (metis nat_neq_iff)
  then show ?thesis using k(4) by (simp add: FindCandidate_def c0_def[symmetric] mult_2 clock_loop_add)
qed

lemma clock_pass_second:
  assumes inv: "clock_inv c" and none: "\<forall>x < length (cr_referenced c). \<not> ready e c x"
  defines "n \<equiv> length (cr_referenced c)"
  shows "(\<exists>j < n. e (of_nat (visit c j)) \<and> (\<forall>i < j. \<not> e (of_nat (visit c i))) \<and>
      FindCandidate e c = (Some (of_nat (visit c j)),
        \<lparr>cr_referenced = cleared e c n, cr_hand = visit c (Suc j), cr_last_pass_visits = n + Suc j\<rparr>)) \<or>
    (\<forall>x < n. \<not> e (of_nat x)) \<and>
      FindCandidate e c = (None, c\<lparr>cr_last_pass_visits := 2 * n\<rparr>)"
proof -
  define c0 where "c0 = c\<lparr>cr_last_pass_visits := 0\<rparr>"
  have same: "clock_inv c0" "ready e c0 = ready e c" "visit c0 = visit c" "cleared e c0 = cleared e c"
    "length (cr_referenced c0) = n" "cr_last_pass_visits c0 = 0"
    using inv by (auto simp: c0_def clock_inv_def ready_def visit_def cleared_def fun_eq_iff n_def)
  define c1 where "c1 = \<lparr>cr_referenced = cleared e c n, cr_hand = visit c n, cr_last_pass_visits = n\<rparr>"
  have one: "clock_loop e n c0 = (None, c1)"
    using clock_loop_rotation[OF same(1), of n e] none visit_lt[OF inv]
    unfolding same c1_def n_def by auto
  have whole: "FindCandidate e c = clock_loop e n c1"
    unfolding FindCandidate_def c0_def[symmetric] n_def[symmetric] mult_2 clock_loop_add one by simp
  have hand: "visit c n = cr_hand c" using inv by (simp add: visit_def clock_inv_def n_def)
  have len1: "length (cr_referenced c1) = n" by (simp add: c1_def n_def)
  have inv1: "clock_inv c1" using inv hand by (simp add: clock_inv_def c1_def n_def)
  have vis1: "visit c1 = visit c" using len1 hand by (simp add: visit_def c1_def n_def fun_eq_iff)
  have clr: "cr_referenced c1 ! x = 0" if "x < n" "e (of_nat x)" for x
    using that cleared_all[OF inv, of x e] by (simp add: c1_def n_def)
  have rdy: "ready e c1 (visit c i) \<longleftrightarrow> e (of_nat (visit c i))" for i
    using clr visit_lt[OF inv, of i] by (auto simp: ready_def n_def)
  have again: "cleared e c1 k = cleared e c n" for k
    using cleared_again[of c1 e k] clr len1 by (simp add: c1_def)
  from clock_loop_rotation[OF inv1, of n e]
  have rot: "(\<exists>j < n. e (of_nat (visit c j)) \<and> (\<forall>i < j. \<not> e (of_nat (visit c i))) \<and>
      clock_loop e n c1 = (Some (of_nat (visit c j)),
        \<lparr>cr_referenced = cleared e c n, cr_hand = visit c (Suc j), cr_last_pass_visits = n + Suc j\<rparr>)) \<or>
    (\<forall>i < n. \<not> e (of_nat (visit c i))) \<and>
      clock_loop e n c1 = (None, \<lparr>cr_referenced = cleared e c n, cr_hand = visit c n,
        cr_last_pass_visits = n + n\<rparr>)"
    unfolding len1 vis1 rdy again by (simp add: c1_def)
  have all: "(\<forall>i < n. \<not> e (of_nat (visit c i))) \<longleftrightarrow> (\<forall>x < n. \<not> e (of_nat x))"
    using visit_surj[OF inv] visit_lt[OF inv] unfolding n_def by metis
  have keep: "cleared e c n = cr_referenced c" if "\<forall>x < n. \<not> e (of_nat x)"
    using cleared_again[of c e n] that by (simp add: n_def)
  show ?thesis unfolding whole using rot all keep hand by (auto simp: mult_2)
qed

section \<open>What a pass promises\<close>

lemma clock_pass_cases:
  assumes inv: "clock_inv c"
  obtains (first) j where "j < length (cr_referenced c)" "ready e c (visit c j)"
      "FindCandidate e c = (Some (of_nat (visit c j)), \<lparr>cr_referenced = cleared e c j,
        cr_hand = visit c (Suc j), cr_last_pass_visits = Suc j\<rparr>)"
  | (second) j where "j < length (cr_referenced c)" "e (of_nat (visit c j))"
      "\<forall>x < length (cr_referenced c). \<not> ready e c x"
      "FindCandidate e c = (Some (of_nat (visit c j)), \<lparr>cr_referenced = cleared e c (length (cr_referenced c)),
        cr_hand = visit c (Suc j), cr_last_pass_visits = length (cr_referenced c) + Suc j\<rparr>)"
  | (nothing) "\<forall>x < length (cr_referenced c). \<not> e (of_nat x)"
      "FindCandidate e c = (None, c\<lparr>cr_last_pass_visits := 2 * length (cr_referenced c)\<rparr>)"
proof (cases "\<forall>x < length (cr_referenced c). \<not> ready e c x")
  case True
  from clock_pass_second[OF inv this] show thesis
  proof (elim disjE exE conjE)
    fix j assume "j < length (cr_referenced c)" "e (of_nat (visit c j))"
      "FindCandidate e c = (Some (of_nat (visit c j)), \<lparr>cr_referenced = cleared e c (length (cr_referenced c)),
        cr_hand = visit c (Suc j), cr_last_pass_visits = length (cr_referenced c) + Suc j\<rparr>)"
    then show thesis using second True by blast
  next
    assume "\<forall>x < length (cr_referenced c). \<not> e (of_nat x)"
      "FindCandidate e c = (None, c\<lparr>cr_last_pass_visits := 2 * length (cr_referenced c)\<rparr>)"
    then show thesis by (rule nothing)
  qed
next
  case False
  then have "\<exists>j. j < length (cr_referenced c) \<and> ready e c (visit c j)" using no_ready_iff[OF inv] by blast
  then obtain j where j: "j < length (cr_referenced c)" "ready e c (visit c j)"
    "\<forall>i < j. \<not> (i < length (cr_referenced c) \<and> ready e c (visit c i))"
    using exists_least_iff[of "\<lambda>j. j < length (cr_referenced c) \<and> ready e c (visit c j)"] by blast
  then have "\<forall>i < j. \<not> ready e c (visit c i)" by auto
  from first[OF j(1,2) clock_pass_first[OF inv j(1,2) this]] show thesis .
qed

lemma clock_pass_None_iff:
  assumes inv: "clock_inv c"
  shows "fst (FindCandidate e c) = None \<longleftrightarrow> (\<forall>x < length (cr_referenced c). \<not> e (of_nat x))"
  using inv
proof (cases rule: clock_pass_cases[where e = e])
  case (first j)
  then show ?thesis using visit_lt[OF inv, of j] by (auto simp: ready_def)
next
  case (second j)
  then show ?thesis using visit_lt[OF inv, of j] by auto
qed auto

text \<open>The victim is eligible and one of the pool's frames; it was unreferenced unless every
  eligible frame was referenced (the second chance); its own bit is clear afterwards; the hand
  stands behind it; and the pass visited at most two rotations of frames.\<close>

lemma clock_pass_victim:
  assumes inv: "clock_inv c" and some: "FindCandidate e c = (Some f, c')"
  shows "unat f < length (cr_referenced c)" and "e f"
    and "\<not> IsReferenced c f \<or> (\<forall>x < length (cr_referenced c). e (of_nat x) \<longrightarrow> IsReferenced c (of_nat x))"
    and "\<not> IsReferenced c' f"
    and "cr_hand c' = (unat f + 1) mod length (cr_referenced c)"
    and "cr_last_pass_visits c' \<le> 2 * length (cr_referenced c)"
    and "length (cr_referenced c') = length (cr_referenced c)"
    and "clock_inv c'"
proof -
  have hand: "visit c (Suc j) = (visit c j + 1) mod length (cr_referenced c)" for j
    by (simp add: visit_def mod_Suc_eq)
  have fr: "unat (of_nat (visit c j) :: FrameId) = visit c j" for j
    by (rule unat_frame[OF inv visit_lt[OF inv]])
  have ref: "IsReferenced c (of_nat x) \<longleftrightarrow> cr_referenced c ! x \<noteq> 0" if "x < length (cr_referenced c)" for x
    using unat_frame[OF inv that] by (simp add: IsReferenced_def)
  have pos: "0 < length (cr_referenced c)" using inv by (auto simp: clock_inv_def)
  have "unat f < length (cr_referenced c) \<and> e f
    \<and> (\<not> IsReferenced c f \<or> (\<forall>x < length (cr_referenced c). e (of_nat x) \<longrightarrow> IsReferenced c (of_nat x)))
    \<and> \<not> IsReferenced c' f \<and> cr_hand c' = (unat f + 1) mod length (cr_referenced c)
    \<and> cr_last_pass_visits c' \<le> 2 * length (cr_referenced c)
    \<and> length (cr_referenced c') = length (cr_referenced c)"
    using inv
  proof (cases rule: clock_pass_cases[where e = e])
    case (first j)
    then have f: "f = of_nat (visit c j)" and c': "c' = \<lparr>cr_referenced = cleared e c j,
        cr_hand = visit c (Suc j), cr_last_pass_visits = Suc j\<rparr>" using some by auto
    show ?thesis using first visit_lt[OF inv, of j] hand[of j] fr[of j] ref[of "visit c j"]
      unfolding f c' by (simp add: ready_def IsReferenced_def cleared_def)
  next
    case (second j)
    then have f: "f = of_nat (visit c j)" and c': "c' = \<lparr>cr_referenced = cleared e c (length (cr_referenced c)),
        cr_hand = visit c (Suc j), cr_last_pass_visits = length (cr_referenced c) + Suc j\<rparr>" using some by auto
    have "\<forall>x < length (cr_referenced c). e (of_nat x) \<longrightarrow> IsReferenced c (of_nat x)"
      using second(3) ref by (auto simp: ready_def)
    then show ?thesis using second visit_lt[OF inv, of j] hand[of j] fr[of j]
        cleared_all[OF inv, of "visit c j" e]
      unfolding f c' by (simp add: IsReferenced_def)
  next
    case nothing
    then show ?thesis using some by simp
  qed
  then show "unat f < length (cr_referenced c)" "e f"
    "\<not> IsReferenced c f \<or> (\<forall>x < length (cr_referenced c). e (of_nat x) \<longrightarrow> IsReferenced c (of_nat x))"
    "\<not> IsReferenced c' f" "cr_hand c' = (unat f + 1) mod length (cr_referenced c)"
    "cr_last_pass_visits c' \<le> 2 * length (cr_referenced c)"
    "length (cr_referenced c') = length (cr_referenced c)" "clock_inv c'"
    using inv pos by (auto simp: clock_inv_def)
qed

text \<open>A pass takes a reference bit only from an eligible frame, and sets none.\<close>

lemma clock_pass_bits:
  assumes inv: "clock_inv c" and x: "x < length (cr_referenced c)"
  shows "cr_referenced (snd (FindCandidate e c)) ! x \<in> {0, cr_referenced c ! x}"
    and "\<not> e (of_nat x) \<Longrightarrow> cr_referenced (snd (FindCandidate e c)) ! x = cr_referenced c ! x"
  by (insert inv, cases rule: clock_pass_cases[where e = e]; use x in \<open>auto simp: cleared_def\<close>)+

text \<open>The invariant holds of a new clock and is kept by every operation.\<close>

lemma clock_inv_new:
  assumes "ClockReplacer_new n = Some c" and "n \<le> 4294967296"
  shows "clock_inv c"
  using assms by (auto simp: ClockReplacer_new_def clock_inv_def split: if_splits)

lemma clock_inv_SetReferenced [simp]: "clock_inv (SetReferenced c f) = clock_inv c"
  by (simp add: clock_inv_def SetReferenced_def)

lemma clock_inv_ClearReferenced [simp]: "clock_inv (ClearReferenced c f) = clock_inv c"
  by (simp add: clock_inv_def ClearReferenced_def)

lemma clock_inv_FindCandidate: "clock_inv c \<Longrightarrow> clock_inv (snd (FindCandidate e c))"
proof (cases "FindCandidate e c")
  case (Pair r c')
  assume inv: "clock_inv c"
  then show ?thesis
  proof (cases r)
    case None
    then show ?thesis using inv Pair
      by (cases rule: clock_pass_cases[OF inv, where e = e]) (auto simp: clock_inv_def)
  next
    case (Some f)
    then show ?thesis using clock_pass_victim(8)[OF inv, of e f c'] Pair by simp
  qed
qed

lemma IsReferenced_SetReferenced:
  assumes "unat f < length (cr_referenced c)"
  shows "IsReferenced (SetReferenced c f) g \<longleftrightarrow> g = f \<or> IsReferenced c g"
  using assms by (cases "g = f") (auto simp: IsReferenced_def SetReferenced_def nth_list_update word_unat_eq_iff)

lemma IsReferenced_ClearReferenced:
  assumes "unat f < length (cr_referenced c)"
  shows "IsReferenced (ClearReferenced c f) g \<longleftrightarrow> g \<noteq> f \<and> IsReferenced c g"
  using assms by (cases "g = f") (auto simp: IsReferenced_def ClearReferenced_def nth_list_update word_unat_eq_iff)

end
