(* ===== verification/Sample_Table.thy ===== *)
theory Sample_Table
  imports Heap_Reclaim Fsm_Index Clock
begin

text \<open>
  One concrete table on which the properties are exercised: a schema of an \<open>INT32\<close>, a nullable
  \<open>VARCHAR\<close> and a nullable \<open>BOOLEAN\<close> column, a tuple of it, and the heap page that results
  from initialising page 3 of file 1, inserting that tuple and deleting it again.
\<close>

section \<open>The tuple\<close>

definition sample_specs :: "PhysicalColumnSpec list" where
  "sample_specs = [\<lparr>cs_type = INT32, cs_nullable = False\<rparr>, \<lparr>cs_type = VARCHAR, cs_nullable = True\<rparr>,
     \<lparr>cs_type = BOOLEAN, cs_nullable = True\<rparr>]"

definition sample_layout :: TuplePhysicalLayout where
  "sample_layout =
     \<lparr>tl_schema_version = 1,
      tl_columns =
        [\<lparr>cl_type = INT32, cl_nullable = False, cl_fixed_offset = 49, cl_fixed_width = 4,
          cl_null_bit_index = 0\<rparr>,
         \<lparr>cl_type = VARCHAR, cl_nullable = True, cl_fixed_offset = 53, cl_fixed_width = 8,
          cl_null_bit_index = 1\<rparr>,
         \<lparr>cl_type = BOOLEAN, cl_nullable = True, cl_fixed_offset = 61, cl_fixed_width = 1,
          cl_null_bit_index = 2\<rparr>],
      tl_null_bitmap_bytes = 1, tl_fixed_area_offset = 49, tl_fixed_area_size = 13,
      tl_varlen_payload_offset = 62, tl_varlen_column_count = 1, tl_has_nullable_columns = True\<rparr>"

definition sample_values :: "TupleValue list" where
  "sample_values = [Int32Value 7, VarcharValue [0x68, 0x69], NullValue]"

definition sample_metadata :: TupleVersionMetadata where
  "sample_metadata = \<lparr>vm_xmin = 5, vm_xmax = 0, vm_cmin = 1, vm_cmax = 0,
     vm_prev_page_no = INVALID_PAGE_NO, vm_prev_slot = INVALID_SLOT_ID\<rparr>"

definition sample_header :: TupleHeader where
  "sample_header = encode_header sample_layout sample_metadata True"

definition sample_tuple :: "byte list" where
  "sample_tuple =
     (case EncodeTuple sample_layout sample_metadata sample_values of Inl _ \<Rightarrow> [] | Inr b \<Rightarrow> b)"

lemma sample_build: "BuildTuplePhysicalLayout sample_specs 1 = Ok sample_layout"
  by (simp add: BuildTuplePhysicalLayout_def NullBitmapBytes_def sample_specs_def sample_layout_def
      CheckedAdd_def SIZE_MAX_def default_TuplePhysicalLayout_def)

lemma sample_layout_wf: "layout_wf sample_layout"
  by (rule BuildTuplePhysicalLayout_layout(1)[OF sample_build])

lemma sample_columns: "ColumnCount sample_layout = 3"
  by (simp add: ColumnCount_def sample_layout_def)

lemma sample_values_fit: "values_fit sample_layout sample_values"
  by (simp add: values_fit_def value_fits_def ColumnCount_def sample_layout_def sample_values_def
      less_Suc_eq numeral_3_eq_3)

lemma sample_nulls: "(\<exists>v \<in> set sample_values. IsNullValue v) = True"
  by (simp add: sample_values_def)

lemma sample_size: "cursor sample_layout sample_values (ColumnCount sample_layout) = 64"
  by (simp add: cursor_def sample_layout_def sample_values_def ColumnCount_def)

lemma sample_header_valid: "ValidateTupleHeader sample_header = TH_NONE"
  by code_simp

lemma sample_encode: "EncodeTuple sample_layout sample_metadata sample_values = Ok sample_tuple"
  and sample_represents: "represents sample_layout sample_header sample_values sample_tuple"
proof -
  obtain b where b: "EncodeTuple sample_layout sample_metadata sample_values = Ok b"
    "represents sample_layout sample_header sample_values b"
    using EncodeTuple_eq[OF sample_layout_wf sample_values_fit, of sample_metadata]
      sample_header_valid sample_size by (auto simp: sample_nulls sample_header_def)
  then have "sample_tuple = b" by (simp add: sample_tuple_def)
  then show "EncodeTuple sample_layout sample_metadata sample_values = Ok sample_tuple"
    "represents sample_layout sample_header sample_values sample_tuple" using b by simp_all
qed

lemma sample_tuple_length: "length sample_tuple = 64"
  using sample_represents sample_size by (simp add: represents_def)

lemma sample_tuple_header: "DecodeTupleHeader sample_tuple = Ok sample_header"
proof -
  have "take 48 sample_tuple = TupleHeader_image sample_header"
    using sample_represents by (simp add: represents_def)
  then have "AsOptional (DecodeTupleHeader sample_tuple) = Some sample_header"
    using sample_header_valid sample_tuple_length by (simp add: tuple_header.decode_Some_iff)
  then show ?thesis by (simp add: AsOptional_Some_iff)
qed

section \<open>The page\<close>

definition sample_history :: HeapTupleSchemaHistory where
  "sample_history = [sample_layout]"

definition sample_blank :: Page where
  "sample_blank = Page_new (PageId 1 3)"

definition sample_empty :: Page where
  "sample_empty = snd (the (HeapPage_Initialize sample_blank 0))"

definition sample_page :: Page where
  "sample_page = snd (HeapPage_Insert sample_history sample_empty sample_tuple)"

definition sample_dead :: Page where
  "sample_dead = snd (HeapPage_MarkDead sample_history sample_page 0)"

definition sample_hdrs :: HeapPageHeaders where
  "sample_hdrs = the (AsOptional (ValidateStructure sample_history sample_page))"

lemma sample_page_number: "IsValidHeapPageNumber (page_no (Page_id sample_blank))"
  by (simp add: IsValidHeapPageNumber_def sample_blank_def Page_new_def INVALID_PAGE_NO_def)

lemma sample_blank_wf: "Page_wf sample_blank"
  by (simp add: sample_blank_def)

lemma sample_initialize: "HeapPage_Initialize sample_blank 0 = Some (Ok (), sample_empty)"
  and sample_empty_wf: "Page_wf sample_empty"
  and sample_empty_id: "Page_id sample_empty = PageId 1 3"
  and sample_empty_structure: "\<exists>hdrs. heap_structure sample_empty hdrs [] \<and>
    hh_heap hdrs = default_HeapPageHeader"
proof -
  obtain p hdrs where p: "HeapPage_Initialize sample_blank 0 = Some (Ok (), p)" "Page_wf p"
    "Page_id p = Page_id sample_blank" "heap_structure p hdrs []" "hh_heap hdrs = default_HeapPageHeader"
    using HeapPage_Initialize_ok[OF sample_blank_wf sample_page_number, of 0] by blast
  have "sample_empty = p" using p(1) by (simp add: sample_empty_def)
  then show "HeapPage_Initialize sample_blank 0 = Some (Ok (), sample_empty)" "Page_wf sample_empty"
    "Page_id sample_empty = PageId 1 3"
    "\<exists>hdrs. heap_structure sample_empty hdrs [] \<and> hh_heap hdrs = default_HeapPageHeader"
    using p by (auto simp: sample_blank_def Page_new_def)
qed

lemma sample_tuple_check:
  "tc_error (ValidateTupleForSlot sample_tuple sample_history rid n) = HV_NONE"
proof -
  have "th_schema_version sample_header = 1" "th_xmin sample_header = 5" "th_xmax sample_header = 0"
    "th_cmax sample_header = 0" "th_prev_page_no sample_header = INVALID_PAGE_NO"
    by (simp_all add: sample_header_def encode_header_def sample_layout_def sample_metadata_def)
  moreover have "Resolve sample_history 1 = Some sample_layout"
    by (simp add: Resolve_def sample_history_def sample_layout_def)
  ultimately show ?thesis
    using sample_tuple_header represents_ValidateTuple[OF sample_layout_wf sample_represents]
    by (simp add: ValidateTupleForSlot_ok_iff)
qed

lemma sample_insertable:
  assumes "hh_heap hdrs = default_HeapPageHeader"
  shows "insertable sample_history sample_empty hdrs sample_tuple"
  using assms by (simp add: insertable_def sample_tuple_length sample_tuple_check default_HeapPageHeader_def)

lemma sample_insert:
  "HeapPage_Insert sample_history sample_empty sample_tuple = (Ok (Rid (PageId 1 3) 0), sample_page)"
proof -
  obtain hdrs where s: "heap_structure sample_empty hdrs []" "hh_heap hdrs = default_HeapPageHeader"
    using sample_empty_structure by blast
  have "HeapPage_Insert sample_history sample_empty sample_tuple =
      (Ok (Rid (PageId 1 3) 0), insert_page (hh_heap hdrs) sample_tuple sample_empty)"
    using sample_insertable[OF s(2)] s(2) sample_empty_id
    by (subst Insert_Ok_iff[OF s(1)]) (simp add: default_HeapPageHeader_def)
  then show ?thesis by (simp add: sample_page_def)
qed

lemma sample_empty_valid: "\<exists>hdrs. Validate sample_history sample_empty = Ok hdrs"
proof -
  obtain hdrs where "heap_structure sample_empty hdrs []" using sample_empty_structure by blast
  moreover have "tuples_ok sample_history sample_empty []" by (simp add: tuples_ok_def)
  ultimately show ?thesis unfolding Validate_Ok_iff by blast
qed

lemma sample_empty_structure_valid: "\<exists>hdrs. ValidateStructure sample_history sample_empty = Ok hdrs"
  using sample_empty_structure by (auto simp: ValidateStructure_Ok_iff)

lemma sample_page_wf: "Page_wf sample_page"
  and sample_page_valid: "ValidateStructure sample_history sample_page = Ok sample_hdrs"
  and sample_page_fully_valid: "\<exists>hdrs. Validate sample_history sample_page = Ok hdrs"
  and sample_page_tuple: "HeapPage_TupleBytes sample_history sample_page 0 = Some sample_tuple"
proof -
  obtain hdrs where v: "Validate sample_history sample_empty = Ok hdrs" using sample_empty_valid by blast
  then have vs: "ValidateStructure sample_history sample_empty = Ok hdrs"
    by (auto simp: Validate_Ok_iff ValidateStructure_Ok_iff)
  note ins = Insert_preserves[OF sample_empty_wf vs sample_insert]
  from ins(2) show "ValidateStructure sample_history sample_page = Ok sample_hdrs"
    by (auto simp: sample_hdrs_def)
  from ins(1) show "Page_wf sample_page" .
  from ins(3)[OF v] show "\<exists>hdrs. Validate sample_history sample_page = Ok hdrs" .
  from ins(6) show "HeapPage_TupleBytes sample_history sample_page 0 = Some sample_tuple" by simp
qed

lemma sample_page_structure: "\<exists>e. heap_structure sample_page sample_hdrs [e] \<and> se_state e = NORMAL"
proof -
  obtain hdrs where s: "heap_structure sample_empty hdrs []" "hh_heap hdrs = default_HeapPageHeader"
    using sample_empty_structure by blast
  have p: "sample_page = insert_page (hh_heap hdrs) sample_tuple sample_empty"
    using sample_insert by (simp add: Insert_Ok_iff[OF s(1)])
  note ins = insert_heap_structure(3)[OF sample_empty_wf s(1) sample_insertable[OF s(2)]]
  obtain es where es: "heap_structure sample_page sample_hdrs es"
    using sample_page_valid by (auto simp: ValidateStructure_Ok_iff)
  have "es = [] @ [insert_entry (hh_heap hdrs) sample_tuple]"
    using heap_structure_unique[OF es] ins p by auto
  then show ?thesis using es by (auto simp: insert_entry_def)
qed

lemma sample_mark: "HeapPage_MarkDead sample_history sample_page 0 = (Ok (), sample_dead)"
proof -
  obtain e where e: "heap_structure sample_page sample_hdrs [e]" "se_state e = NORMAL"
    using sample_page_structure by blast
  have "\<exists>p'. HeapPage_MarkDead sample_history sample_page 0 = (Ok (), p')"
    using e(2) by (simp add: MarkDead_Ok_iff[OF e(1)])
  then show ?thesis by (auto simp: sample_dead_def)
qed

end
