(* ===== verification/Heap_Properties.thy ===== *)
theory Heap_Properties
  imports Heap_Store Sample_Table
begin

text \<open>
  The properties of a heap page: what each operation of \<open>heap_page.cpp\<close> does on success and
  on every failure, what its validator accepts, and what a whole run of operations amounts to.
  Each property that has hypotheses is followed by an instance on the pages of \<open>Sample_Table\<close>.
\<close>

section \<open>Runs\<close>

text \<open>C9: refinement. Any run of insertions, deletions and compactions, successful or refused, on a
  freshly initialised heap page behaves as a map from slot numbers to tuples with a counter of the
  next slot: the page it ends in validates completely, and its readable tuples are exactly those of
  the map after the same events.\<close>

theorem heap_page_refines_store:
  assumes "Page_wf p" and "HeapPage_Initialize p lsn = Some (Ok (), p0)" and "heap_run H p0 es p'"
  shows "\<exists>st hdrs. store_run empty_store es = Some st \<and> Page_wf p' \<and> Validate H p' = Ok hdrs \<and>
    hs_next st = unat (hp_slot_count (hh_heap hdrs)) \<and>
    (\<forall>s. HeapPage_TupleBytes H p' s = hs_tuples st s)"
proof -
  note ini = initialized_page_store(1,2)[OF assms(1,2), of H]
  have run: "page_inv H p'" "store_run empty_store es = Some (page_store H p')"
    using heap_run_simulates[OF assms(3) ini(1)] ini(2) by simp_all
  from run(1) obtain hdrs where "Page_wf p'" "Validate H p' = Ok hdrs" "ValidateStructure H p' = Ok hdrs"
    by (rule page_invE)
  then show ?thesis using run(2) by (auto simp: page_store_def)
qed

lemma sample_heap_run:
  "heap_run sample_history sample_empty [Inserted (Rid (PageId 1 3) 0) sample_tuple, Deleted 0] sample_dead"
  using run_snoc[OF run_snoc[OF run_nil insert_ok[OF sample_insert]] delete_ok[OF sample_mark]] by simp

theorem heap_page_refines_store_witness:
  "HeapPage_TupleBytes sample_history sample_dead 0 = None"
  using heap_page_refines_store[OF sample_blank_wf sample_initialize sample_heap_run]
  by (auto simp: empty_store_def)

lemma heap_step_rid: "heap_step H p (Inserted rid t) p' \<Longrightarrow> page_inv H p \<Longrightarrow> page rid = Page_id p"
  by (auto elim!: heap_step_Inserted page_invE dest: Insert_preserves(4))

lemma heap_run_page:
  "heap_run H p es p' \<Longrightarrow> page_inv H p \<Longrightarrow> rid \<in> set (inserted_rids es) \<Longrightarrow> page rid = Page_id p"
proof (induction arbitrary: rid rule: heap_run.induct)
  case (run_snoc p es p' e p'')
  note before = heap_run_simulates[OF run_snoc.hyps(1) run_snoc.prems(1)]
  show ?case
  proof (cases "rid \<in> set (inserted_rids es)")
    case True
    then show ?thesis using run_snoc.IH run_snoc.prems(1) by blast
  next
    case False
    then have "\<exists>t. e = Inserted rid t" using run_snoc.prems(2) by (cases e) auto
    then show ?thesis using heap_step_rid run_snoc.hyps(2) before by metis
  qed
qed simp

text \<open>C10: safety. In a run on a freshly initialised page, whatever is deleted, compacted and refused in between,
  every row identifier handed out names this page, the slots are handed out in ascending order from zero with
  none left out, and so no row identifier is handed out twice, not even after its row was deleted.\<close>

theorem rid_never_reused:
  assumes "Page_wf p" and "HeapPage_Initialize p lsn = Some (Ok (), p0)" and "heap_run H p0 es p'"
  shows "distinct (inserted_rids es) \<and> (\<forall>rid \<in> set (inserted_rids es). page rid = Page_id p) \<and>
    map (unat \<circ> slot) (inserted_rids es) = [0..<length (inserted_rids es)]"
proof -
  note ini = initialized_page_store(1,2)[OF assms(1,2), of H] initialized_page_store(3)[OF assms(1,2)]
  have run: "store_run empty_store es = Some (page_store H p')" using heap_run_simulates[OF assms(3) ini(1)] ini(2) by simp
  have slots: "map (unat \<circ> slot) (inserted_rids es) = [0..<hs_next (page_store H p')]"
    using store_run_next[OF run] by (simp add: empty_store_def)
  then have "length (inserted_rids es) = hs_next (page_store H p')" by (metis diff_zero length_map length_upt)
  then show ?thesis using store_run_distinct[OF run] heap_run_page[OF assms(3) ini(1)] ini(3) slots by simp
qed

text \<open>The sample row inserted again after its deletion gets the next slot.\<close>

lemma sample_reinsert: "\<exists>p'. HeapPage_Insert sample_history sample_dead sample_tuple = (Ok (Rid (PageId 1 3) 1), p')"
proof -
  obtain hdrs where s: "heap_structure sample_empty hdrs []" "hh_heap hdrs = default_HeapPageHeader"
    using sample_empty_structure by blast
  let ?hdrs = "\<lparr>hh_common = hh_common hdrs, hh_heap = insert_header default_HeapPageHeader sample_tuple\<rparr>"
  have page: "sample_page = insert_page default_HeapPageHeader sample_tuple sample_empty"
    using sample_insert by (simp add: Insert_Ok_iff[OF s(1)] s(2))
  note new = insert_heap_structure[OF sample_empty_wf s(1) sample_insertable[OF s(2)], unfolded s(2), folded page]
  have "ValidateStructure sample_history sample_page = Ok ?hdrs" using new(3) ValidateStructure_Ok_iff by blast
  from MarkDead_preserves(2)[OF sample_page_wf this sample_mark]
  obtain es where dead: "heap_structure sample_dead ?hdrs es" by (auto simp: ValidateStructure_Ok_iff)
  obtain e where "heap_structure sample_page sample_hdrs [e]" using sample_page_structure by blast
  then have "Page_id sample_dead = Page_id sample_page" using sample_mark
    by (subst (asm) MarkDead_Ok_iff) (auto dest: arg_cong[where f = Page_id])
  then have "Page_id sample_dead = PageId 1 3" using new(2) sample_empty_id by simp
  then show ?thesis
    by (auto simp: Insert_Ok_iff[OF dead] insertable_def sample_tuple_length sample_tuple_check insert_header_def
        default_HeapPageHeader_def)
qed

theorem rid_never_reused_witness:
  "\<exists>p'. heap_run sample_history sample_empty [Inserted (Rid (PageId 1 3) 0) sample_tuple, Deleted 0,
      Inserted (Rid (PageId 1 3) 1) sample_tuple] p' \<and>
    map (unat \<circ> slot) [Rid (PageId 1 3) 0, Rid (PageId 1 3) 1] = [0..<2] \<and>
    (\<forall>rid \<in> {Rid (PageId 1 3) 0, Rid (PageId 1 3) 1}. page rid = Page_id sample_blank)"
proof -
  obtain p' where "HeapPage_Insert sample_history sample_dead sample_tuple = (Ok (Rid (PageId 1 3) 1), p')"
    using sample_reinsert by blast
  from run_snoc[OF sample_heap_run insert_ok[OF this]]
  have run: "heap_run sample_history sample_empty [Inserted (Rid (PageId 1 3) 0) sample_tuple, Deleted 0,
      Inserted (Rid (PageId 1 3) 1) sample_tuple] p'" by simp
  from rid_never_reused[OF sample_blank_wf sample_initialize this] run show ?thesis by (auto simp: numeral_2_eq_2)
qed

section \<open>Insertion\<close>

text \<open>C21: functional. An insertion that succeeds keeps the page valid with all its tuples, hands out a
  row identifier of this page that named nothing before, and changes what is read at that
  identifier only: there, the inserted bytes.\<close>

theorem insert_correct:
  assumes "Page_wf p" and "Validate H p = Ok hdrs" and "HeapPage_Insert H p t = (Ok rid, p')"
  shows "Page_wf p' \<and> (\<exists>hdrs'. Validate H p' = Ok hdrs') \<and> page rid = Page_id p \<and>
    HeapPage_TupleBytes H p (slot rid) = None \<and>
    HeapPage_TupleBytes H p' = (HeapPage_TupleBytes H p)(slot rid \<mapsto> t)"
proof -
  have v: "ValidateStructure H p = Ok hdrs"
    using assms(2) by (auto simp: Validate_Ok_iff ValidateStructure_Ok_iff)
  note ins = Insert_preserves[OF assms(1) v assms(3)]
  have "HeapPage_TupleBytes H p' = (HeapPage_TupleBytes H p)(slot rid \<mapsto> t)"
    using ins(6,7) by (auto simp: fun_eq_iff)
  then show ?thesis using ins(1,3,4,5) assms(2) by auto
qed

theorem insert_correct_witness: "HeapPage_TupleBytes sample_history sample_page 0 = Some sample_tuple"
proof -
  obtain hdrs where "Validate sample_history sample_empty = Ok hdrs" using sample_empty_valid by blast
  from insert_correct[OF sample_empty_wf this sample_insert] show ?thesis by simp
qed

text \<open>C31: error. On a structurally valid page an insertion is refused for exactly three reasons, tested in
  this order: the tuple is longer than 8135 bytes, it is not a valid tuple for the new slot, or the
  gap between directory and tuples is smaller than the tuple and a slot entry. The page is then
  unchanged. The other failures of the code (slot numbers exhausted, offsets past 16 bits, encoding
  failed) never happen.\<close>

theorem insert_outcome:
  assumes "ValidateStructure H p = Ok hdrs"
  shows "fst (HeapPage_Insert H p t) =
    (let n = hp_slot_count (hh_heap hdrs);
         check = ValidateTupleForSlot t H (Rid (Page_id p) n) (n + 1)
     in if length t > 8135 then Unexpected (insert_failure INSERT_TUPLE_TOO_LARGE)
        else if tc_error check \<noteq> HV_NONE
        then Unexpected \<lparr>if_code = INSERT_INVALID_TUPLE, if_page_error = HV_NONE,
                         if_tuple_error = tc_error check\<rparr>
        else if length t + 8 + unat (hp_lower (hh_heap hdrs)) > unat (hp_upper (hh_heap hdrs))
        then Unexpected (insert_failure INSUFFICIENT_SPACE)
        else Ok (Rid (Page_id p) n)) \<and>
    (\<forall>e. fst (HeapPage_Insert H p t) = Unexpected e \<longrightarrow> snd (HeapPage_Insert H p t) = p)"
proof -
  obtain es where s: "heap_structure p hdrs es" using assms by (auto simp: ValidateStructure_Ok_iff)
  have small: "unat (hp_lower (hh_heap hdrs)) + 8 \<le> 65535" "unat (hp_upper (hh_heap hdrs)) \<le> 65535"
    "unat (hp_slot_count (hh_heap hdrs)) \<noteq> 65535"
    "unat (hp_lower (hh_heap hdrs)) \<le> unat (hp_upper (hh_heap hdrs))"
    using heap_structure_bounds[OF s] by auto
  have frame: "snd (HeapPage_Insert H p t) = p" if "fst (HeapPage_Insert H p t) = Inl e" for e
    using Insert_error_frame[of H p t e "snd (HeapPage_Insert H p t)"] that
    by (metis prod.collapse)
  show ?thesis using small frame
    by (auto simp: HeapPage_Insert_def assms Let_def EncodeHeapSlotEntry_eq EncodeHeapPageHeader_eq)
qed

theorem insert_outcome_witness:
  "fst (HeapPage_Insert sample_history sample_page (replicate 9000 0)) =
     Unexpected (insert_failure INSERT_TUPLE_TOO_LARGE)"
  using conjunct1[OF insert_outcome[OF sample_page_valid, of "replicate 9000 0"]]
  by (simp add: Let_def)

section \<open>Deletion\<close>

text \<open>Marking a slot dead makes exactly that tuple unreadable and keeps the page valid
  with its headers; it succeeds exactly when the slot holds a readable tuple, and otherwise leaves
  the page as it was.\<close>

lemma mark_dead_correct:
  assumes "Page_wf p" and "Validate H p = Ok hdrs"
  shows "case HeapPage_MarkDead H p s of
      (Inr _, p') \<Rightarrow> HeapPage_TupleBytes H p s \<noteq> None \<and> Page_wf p' \<and> Validate H p' = Ok hdrs \<and>
        HeapPage_TupleBytes H p' = (HeapPage_TupleBytes H p)(s := None)
    | (Inl e, p') \<Rightarrow> HeapPage_TupleBytes H p s = None \<and> p' = p"
proof -
  have v: "ValidateStructure H p = Ok hdrs"
    using assms(2) by (auto simp: Validate_Ok_iff ValidateStructure_Ok_iff)
  then obtain es where st: "heap_structure p hdrs es" by (auto simp: ValidateStructure_Ok_iff)
  obtain r p' where m: "HeapPage_MarkDead H p s = (r, p')" by fastforce
  show ?thesis
  proof (cases r)
    case (Inr u)
    then have "HeapPage_MarkDead H p s = (Ok (), p')" using m by simp
    note mark = MarkDead_preserves[OF assms(1) v this]
    have "HeapPage_TupleBytes H p' = (HeapPage_TupleBytes H p)(s := None)"
      using mark(5,6) by (auto simp: fun_eq_iff)
    then show ?thesis using m Inr mark(1,3,4) assms(2) by simp
  next
    case (Inl e)
    have "\<not> (unat s < length es \<and> se_state (es ! unat s) = NORMAL)"
      using m Inl MarkDead_Ok_iff[OF st, of H s] by auto
    then show ?thesis using m Inl MarkDead_error_frame[of H p s e p'] by (auto simp: TupleBytes_eq[OF st])
  qed
qed

lemma mark_dead_correct_sample: "HeapPage_TupleBytes sample_history sample_dead 0 = None"
proof -
  obtain hdrs where "Validate sample_history sample_page = Ok hdrs" using sample_page_fully_valid by blast
  from mark_dead_correct[OF sample_page_wf this, of 0] show ?thesis by (simp add: sample_mark)
qed

section \<open>Compaction\<close>

text \<open>C20: functional. A compaction that succeeds changes no readable tuple, keeps the page valid, and
  leaves as free space everything but the headers, the directory and the bytes of the live tuples.\<close>

theorem compact_correct:
  assumes "Page_wf p" and "heap_structure p hdrs es" and "tuples_ok H p es"
    and "HeapPage_Compact H p = Some (Ok (), p')"
  shows "Page_wf p' \<and> Page_id p' = Page_id p \<and>
    (\<exists>hdrs'. Validate H p' = Ok hdrs' \<and> hp_lower (hh_heap hdrs') = hp_lower (hh_heap hdrs) \<and>
       hp_upper (hh_heap hdrs') = of_nat (8192 - live_bytes es)) \<and>
    HeapPage_TupleBytes H p' = HeapPage_TupleBytes H p"
proof -
  have v: "Validate H p = Ok hdrs" using assms(2,3) unfolding Validate_Ok_iff by blast
  note comp = Compact_preserves[OF assms(1,2,4)]
  obtain hdrs' where v': "Validate H p' = Ok hdrs'" using comp(4)[OF v] by blast
  then have "ValidateStructure H p' = Ok hdrs'" by (auto simp: Validate_Ok_iff ValidateStructure_Ok_iff)
  then show ?thesis using comp(1,2,3,5) v' by (auto simp: fun_eq_iff)
qed

text \<open>Compacting a page of the right size never runs into the assertion that a live tuple
  moves towards the end of the page only, and whatever its result, a failure leaves the page
  unchanged.\<close>

lemma compact_total:
  assumes "Page_wf p"
  shows "\<exists>r p'. HeapPage_Compact H p = Some (r, p') \<and> (\<forall>f. r = Unexpected f \<longrightarrow> p' = p)"
  using assms by (rule Compact_no_abort)

lemma compact_total_sample: "\<exists>r p'. HeapPage_Compact sample_history sample_page = Some (r, p')"
  using compact_total[OF sample_page_wf, of sample_history] by blast

text \<open>On a structurally valid page compaction succeeds exactly when no slot is unused;
  unused slots are refused as unsupported.\<close>

lemma compact_succeeds_iff:
  assumes "Page_wf p" and "heap_structure p hdrs es"
  shows "(if \<exists>e \<in> set es. se_state e = UNUSED
    then \<exists>f. HeapPage_Compact H p = Some (Unexpected f, p) \<and> cf_code f = UNSUPPORTED_SLOT_STATE
    else \<exists>p'. HeapPage_Compact H p = Some (Ok (), p'))"
  using Compact_unsupported[OF assms(2)] Compact_cases[OF assms, of H] by auto

lemma sample_compact: "\<exists>p'. HeapPage_Compact sample_history sample_page = Some (Ok (), p')"
proof -
  obtain e where e: "heap_structure sample_page sample_hdrs [e]" "se_state e = NORMAL"
    using sample_page_structure by blast
  show ?thesis using e(2) by (simp add: Compact_cases[OF sample_page_wf e(1)])
qed

lemma compact_succeeds_iff_sample:
  "\<exists>p'. HeapPage_Compact sample_history sample_page = Some (Ok (), p')"
proof -
  obtain e where e: "heap_structure sample_page sample_hdrs [e]" "se_state e = NORMAL"
    using sample_page_structure by blast
  show ?thesis using compact_succeeds_iff[OF sample_page_wf e(1), of sample_history] e(2) by simp
qed

lemma sample_tuples_ok:
  assumes "heap_structure sample_page sample_hdrs es"
  shows "tuples_ok sample_history sample_page es"
proof -
  obtain hdrs where "Validate sample_history sample_page = Ok hdrs" using sample_page_fully_valid by blast
  then obtain es' where es': "heap_structure sample_page hdrs es'" "tuples_ok sample_history sample_page es'"
    by (auto simp: Validate_Ok_iff)
  have "es = es'" using heap_structure_unique[OF assms es'(1)] by simp
  then show ?thesis using es'(2) by simp
qed

theorem compact_correct_witness:
  "\<exists>p'. HeapPage_Compact sample_history sample_page = Some (Ok (), p') \<and>
     HeapPage_TupleBytes sample_history p' 0 = Some sample_tuple"
proof -
  obtain e where e: "heap_structure sample_page sample_hdrs [e]" using sample_page_structure by blast
  obtain p' where p': "HeapPage_Compact sample_history sample_page = Some (Ok (), p')"
    using sample_compact by blast
  from compact_correct[OF sample_page_wf e sample_tuples_ok[OF e] p'] p' sample_page_tuple
  show ?thesis by auto
qed

text \<open>C32: bounds. Compaction reclaims all it can: afterwards a valid tuple can be inserted exactly when
  headers, directory with one more entry, live tuples and the new tuple fit into 8192 bytes.\<close>

theorem compact_then_insert:
  assumes "Page_wf p" and "heap_structure p hdrs es" and "HeapPage_Compact H p = Some (Ok (), p')"
    and "length t \<le> 8135"
    and "tc_error (ValidateTupleForSlot t H (Rid (Page_id p) (hp_slot_count (hh_heap hdrs)))
      (hp_slot_count (hh_heap hdrs) + 1)) = HV_NONE"
  shows "(\<exists>rid p''. HeapPage_Insert H p' t = (Ok rid, p'')) \<longleftrightarrow>
    48 + 8 * (length es + 1) + live_bytes es + length t \<le> 8192"
proof -
  have c: "compactable p hdrs es"
    using assms(1-3) Compact_cases[OF assms(1,2), of H] compactable_iff[OF assms(1,2)] by auto
  note live = compactable_facts(6,7)[OF c]
  note bd = heap_structure_bounds[OF assms(2)]
  define hdrs' where
    "hdrs' = hdrs\<lparr>hh_heap := (hh_heap hdrs)\<lparr>hp_upper := of_nat (8192 - live_bytes es)\<rparr>\<rparr>"
  have p': "heap_structure p' hdrs' (compacted es)" "Page_id p' = Page_id p"
    using Compact_structure[OF c, of H] assms(3) by (auto simp: hdrs'_def)
  have "unat (of_nat (8192 - live_bytes es) :: 16 word) = 8192 - live_bytes es"
    by (rule unat_of_nat_16) simp
  then have "insertable H p' hdrs' t \<longleftrightarrow> length t + 8 \<le> 8192 - live_bytes es - (48 + 8 * length es)"
    using assms(4,5) bd(1) p'(2) by (simp add: insertable_def hdrs'_def)
  moreover have "live_bytes es + (48 + 8 * length es) \<le> 8192" using live bd(1,2) by linarith
  ultimately have "insertable H p' hdrs' t \<longleftrightarrow> 48 + 8 * (length es + 1) + live_bytes es + length t \<le> 8192"
    by auto
  then show ?thesis by (simp add: Insert_Ok_iff[OF p'(1)])
qed

theorem compact_then_insert_witness:
  "\<exists>p'. HeapPage_Compact sample_history sample_page = Some (Ok (), p') \<and>
     (\<exists>es. heap_structure sample_page sample_hdrs es \<and>
       ((\<exists>rid p''. HeapPage_Insert sample_history p' sample_tuple = (Ok rid, p'')) \<longleftrightarrow>
         live_bytes es \<le> 8064))"
proof -
  obtain e where e: "heap_structure sample_page sample_hdrs [e]" using sample_page_structure by blast
  obtain p' where p': "HeapPage_Compact sample_history sample_page = Some (Ok (), p')"
    using sample_compact by blast
  have "length sample_tuple \<le> 8135" by (simp add: sample_tuple_length)
  from compact_then_insert[OF sample_page_wf e p' this sample_tuple_check] p' e show ?thesis
    by (auto simp: sample_tuple_length)
qed

section \<open>Validation and initialisation\<close>

text \<open>C29: equivalence. Complete validation, with its passes over the directory, the sorted ranges, the
  tuples and the free-slot chain, accepts exactly the pages whose directory has a reading as a list
  of entries such that every entry is canonical, retained ranges are pairwise disjoint, the free
  list visits every unused slot once and nothing else, and every retained tuple is valid. The
  reading is unique.\<close>

theorem validate_spec:
  "(Validate H p = Ok hdrs \<longleftrightarrow> (\<exists>es. heap_structure p hdrs es \<and> tuples_ok H p es)) \<and>
   (ValidateStructure H p = Ok hdrs \<longleftrightarrow> (\<exists>es. heap_structure p hdrs es)) \<and>
   (\<forall>es es'. heap_structure p hdrs es \<and> heap_structure p hdrs es' \<longrightarrow> es = es')"
  using Validate_Ok_iff ValidateStructure_Ok_iff heap_structure_unique by blast

theorem validate_spec_witness:
  "\<exists>es. heap_structure sample_page sample_hdrs es \<and>
     (\<forall>es'. heap_structure sample_page sample_hdrs es' \<longrightarrow> es' = es)"
  using validate_spec[of sample_history sample_page sample_hdrs] sample_page_valid by blast

text \<open>Initialising a page of the right size whose number is neither 0 nor the invalid
  one makes it an empty heap page: valid under every schema history, with the given LSN, no tuple
  readable, and its free space the whole page after the headers; every other number is refused
  without touching the page.\<close>

lemma initialize_correct:
  assumes "Page_wf p"
  shows "if page_no (Page_id p) \<noteq> 0 \<and> page_no (Page_id p) \<noteq> INVALID_PAGE_NO
    then \<exists>p' hdrs. HeapPage_Initialize p lsn = Some (Ok (), p') \<and> Page_wf p' \<and>
      Page_id p' = Page_id p \<and> Validate H p' = Ok hdrs \<and> ch_page_lsn (hh_common hdrs) = lsn \<and>
      hp_lower (hh_heap hdrs) = 48 \<and> hp_upper (hh_heap hdrs) = 8192 \<and>
      HeapPage_TupleBytes H p' = Map.empty
    else HeapPage_Initialize p lsn = Some (Unexpected INIT_INVALID_PAGE_NUMBER, p)"
proof (cases "IsValidHeapPageNumber (page_no (Page_id p))")
  case True
  obtain p' hdrs where p': "HeapPage_Initialize p lsn = Some (Ok (), p')" "Page_wf p'"
    "Page_id p' = Page_id p" "heap_structure p' hdrs []" "ch_page_lsn (hh_common hdrs) = lsn"
    "hh_heap hdrs = default_HeapPageHeader"
    using HeapPage_Initialize_ok[OF assms True, of lsn] by blast
  have "tuples_ok H p' []" by (simp add: tuples_ok_def)
  then have "Validate H p' = Ok hdrs" using p'(4) unfolding Validate_Ok_iff by blast
  moreover have "HeapPage_TupleBytes H p' = Map.empty" by (simp add: fun_eq_iff TupleBytes_eq[OF p'(4)])
  ultimately show ?thesis using p' True
    by (auto simp: IsValidHeapPageNumber_def default_HeapPageHeader_def)
qed (auto simp: HeapPage_Initialize_def IsValidHeapPageNumber_def)

end
