(* ===== verification/Tuple_Properties.thy ===== *)
theory Tuple_Properties
  imports Sample_Table
begin

text \<open>
  The properties of the tuple layer: layouts (\<open>tuple_layout.cpp\<close>), the tuple codec
  (\<open>tuple_codec.cpp\<close>), the null bitmap and the scalar codecs, with instances on the tuple of
  \<open>Sample_Table\<close>.
\<close>

section \<open>Round trips\<close>

lemma built_column_count:
  "BuildTuplePhysicalLayout specs ver = Ok L \<Longrightarrow> ColumnCount L = length specs"
  using arg_cong[OF BuildTuplePhysicalLayout_layout(3), of specs ver L length] by (simp add: ColumnCount_def)

lemma represents_reads_back:
  assumes "layout_wf L" and "represents L h vs b"
  shows "map (DecodeTupleValue L b) [0..<ColumnCount L] = map Ok vs"
proof (rule nth_equalityI)
  show len: "length (map (DecodeTupleValue L b) [0..<ColumnCount L]) = length (map Ok vs)"
    using assms(2) by (simp add: represents_def values_fit_def)
  fix i assume "i < length (map (DecodeTupleValue L b) [0..<ColumnCount L])"
  then show "map (DecodeTupleValue L b) [0..<ColumnCount L] ! i = map Ok vs ! i"
    using represents_DecodeTupleValue[OF assms, of i] len by simp
qed

lemma encoded_reads_back:
  assumes "BuildTuplePhysicalLayout specs ver = Ok L" and "EncodeTuple L md vs = Ok b"
  shows "map (DecodeTupleValue L b) [0..<length specs] = map Ok vs"
proof -
  note wf = BuildTuplePhysicalLayout_layout(1)[OF assms(1)]
  show ?thesis
    using represents_reads_back[OF wf EncodeTuple_represents[OF wf assms(2)]]
    by (simp add: built_column_count[OF assms(1)])
qed

text \<open>C25: roundtrip. What the encoder wrote under a built layout, the decoder reads back: the header is
  the one given, and every column decodes to the value encoded, nulls and texts included.\<close>

theorem tuple_roundtrip:
  assumes "BuildTuplePhysicalLayout specs ver = Ok L" and "EncodeTuple L md vs = Ok b"
  shows "ValidateTuple L b = Ok (encode_header L md (\<exists>v \<in> set vs. IsNullValue v)) \<and>
    map (DecodeTupleValue L b) [0..<length specs] = map Ok vs"
proof -
  note wf = BuildTuplePhysicalLayout_layout(1)[OF assms(1)]
  show ?thesis
    using represents_ValidateTuple[OF wf EncodeTuple_represents[OF wf assms(2)]]
      encoded_reads_back[OF assms] by simp
qed

theorem tuple_roundtrip_witness:
  "DecodeTupleValue sample_layout sample_tuple 1 = Ok (VarcharValue [0x68, 0x69]) \<and>
   DecodeTupleValue sample_layout sample_tuple 2 = Ok NullValue"
  using tuple_roundtrip[OF sample_build sample_encode]
  by (simp add: sample_specs_def sample_values_def numeral_3_eq_3 numeral_2_eq_2 upt_conv_Cons)

text \<open>C34: functional. Encoding under a layout succeeds exactly when there is one value per column of the
  column's type (or a null where allowed), header, bitmap, fixed area and texts together take at
  most 8135 bytes, and the version header is valid; the result then has exactly that size.\<close>

theorem encode_outcome:
  assumes "layout_wf L"
  shows "((\<exists>b. EncodeTuple L md vs = Ok b) \<longleftrightarrow>
      values_fit L vs \<and>
      tl_varlen_payload_offset L + sum_list (map (length \<circ> payload) vs) \<le> 8135 \<and>
      ValidateTupleHeader (encode_header L md (\<exists>v \<in> set vs. IsNullValue v)) = TH_NONE) \<and>
    (\<forall>b. EncodeTuple L md vs = Ok b \<longrightarrow>
      length b = tl_varlen_payload_offset L + sum_list (map (length \<circ> payload) vs))"
    (is "(?l \<longleftrightarrow> ?fit \<and> ?size \<and> ?hdr) \<and> _")
proof (intro conjI allI impI iffI)
  have total: "values_fit L vs \<Longrightarrow> cursor L vs (ColumnCount L) =
      tl_varlen_payload_offset L + sum_list (map (length \<circ> payload) vs)"
    by (simp add: cursor_total values_fit_def)
  {
    assume ?l
    then obtain b where "EncodeTuple L md vs = Ok b" by blast
    from EncodeTuple_Ok_needs[OF assms this] show ?fit ?size ?hdr using total by simp_all
  }
  show ?l if "?fit \<and> ?size \<and> ?hdr" using that EncodeTuple_eq[OF assms, of vs md] total by auto
  show "length b = tl_varlen_payload_offset L + sum_list (map (length \<circ> payload) vs)"
    if "EncodeTuple L md vs = Ok b" for b
    using EncodeTuple_represents[OF assms that] total by (auto simp: represents_def)
qed

theorem encode_outcome_witness:
  "\<not> (\<exists>b. EncodeTuple sample_layout sample_metadata [Int32Value 7, NullValue] = Ok b) \<and>
   length sample_tuple = 64"
proof -
  have "\<not> values_fit sample_layout [Int32Value 7, NullValue]"
    by (simp add: values_fit_def sample_columns)
  moreover have "tl_varlen_payload_offset sample_layout + sum_list (map (length \<circ> payload) sample_values) = 64"
    by (simp add: sample_layout_def sample_values_def)
  ultimately show ?thesis
    using encode_outcome[OF sample_layout_wf, of sample_metadata "[Int32Value 7, NullValue]"]
      encode_outcome[OF sample_layout_wf, of sample_metadata sample_values] sample_encode
    by auto
qed

section \<open>Validation\<close>

text \<open>C30: equivalence. The validator accepts a byte string exactly when it represents some list of
  column values under the layout: the bitmap marks exactly the nulls and has no stray bit, every
  fixed field is the image of its value, and the texts follow one another without gap or trailing
  byte. The values are then unique, and are what the decoder returns.\<close>

theorem validate_tuple_spec:
  assumes "layout_wf L"
  shows "(ValidateTuple L b = Ok h \<longleftrightarrow> (\<exists>vs. represents L h vs b)) \<and>
    (\<forall>vs. represents L h vs b \<longrightarrow> map (DecodeTupleValue L b) [0..<ColumnCount L] = map Ok vs)"
  using ValidateTuple_represents[OF assms] represents_ValidateTuple[OF assms]
    represents_reads_back[OF assms] by blast

theorem validate_tuple_spec_witness:
  "ValidateTuple sample_layout sample_tuple = Ok sample_header"
  using validate_tuple_spec[OF sample_layout_wf, of sample_tuple sample_header] sample_represents by blast

text \<open>Valid tuples are self-delimiting: no byte string is valid under a layout when a longer
  one beginning with it is, so a stored length that is too long or too short is always noticed.\<close>

lemma tuples_self_delimiting:
  assumes "layout_wf L" and "ValidateTuple L b = Ok h" and "ValidateTuple L (b @ c) = Ok h'"
  shows "c = []"
proof -
  note v = assms(2)[unfolded ValidateTuple_Ok_iff[OF assms(1)]]
  note v' = assms(3)[unfolded ValidateTuple_Ok_iff[OF assms(1)]]
  have V: "tl_varlen_payload_offset L \<le> length b" using v by blast
  have "48 + NullBitmapSize L \<le> length b" using layout_facts(3)[OF assms(1)] V by linarith
  then have bm: "bitmap_of L (b @ c) = bitmap_of L b" by (simp add: bitmap_of_def subspan_def)
  have fld: "field_of L (b @ c) i = field_of L b i" if "i < ColumnCount L" for i
    using field_bounds(2)[OF assms(1) that] V by (simp add: field_of_def subspan_def)
  have "claimed_length L (b @ c) i = claimed_length L b i" if "i < ColumnCount L" for i
    using fld[OF that] by (simp add: claimed_length_def descriptor_of_def bm)
  then have "map (claimed_length L (b @ c)) [0..<ColumnCount L] = map (claimed_length L b) [0..<ColumnCount L]"
    by simp
  from arg_cong[OF this, of sum_list]
  have "claimed_start L (b @ c) (ColumnCount L) = claimed_start L b (ColumnCount L)"
    unfolding claimed_start_def by (rule arg_cong)
  then have "length (b @ c) = length b" using v v' by (metis (no_types, lifting))
  then show ?thesis by simp
qed

lemma tuples_self_delimiting_sample:
  "\<not> (\<exists>h. ValidateTuple sample_layout (sample_tuple @ [0]) = Ok h)"
  using tuples_self_delimiting[OF sample_layout_wf
      represents_ValidateTuple[OF sample_layout_wf sample_represents], of "[0]"]
  by blast

section \<open>Layouts\<close>

text \<open>A layout that was built keeps the column types and nullability of the specification and
  places the fixed fields in column order behind header and bitmap, disjoint, each of its type's
  width, all before the text area, which starts within 8135 bytes.\<close>

lemma layout_built:
  assumes "BuildTuplePhysicalLayout specs ver = Ok L"
  shows "map cl_type (tl_columns L) = map cs_type specs \<and>
    map cl_nullable (tl_columns L) = map cs_nullable specs \<and> tl_schema_version L = ver \<and>
    tl_varlen_payload_offset L \<le> 8135 \<and>
    (\<forall>i < length specs. let c = tl_columns L ! i in
       PhysicalTypeWidth (cl_type c) = Some (cl_fixed_width c) \<and>
       48 + NullBitmapSize L \<le> cl_fixed_offset c \<and>
       cl_fixed_offset c + cl_fixed_width c \<le> tl_varlen_payload_offset L \<and>
       (\<forall>j < i. cl_fixed_offset (tl_columns L ! j) + cl_fixed_width (tl_columns L ! j)
          \<le> cl_fixed_offset c)) \<and>
    length specs \<le> 8 * NullBitmapSize L"
proof -
  note L = BuildTuplePhysicalLayout_layout[OF assms]
  have n: "length specs = ColumnCount L" by (rule built_column_count[OF assms, symmetric])
  have bits: "n \<le> 8 * bitmap_bytes n" for n by (simp add: bitmap_bytes_def)
  show ?thesis
    using L layout_facts(1,4)[OF L(1)] field_bounds(1,2)[OF L(1)] layout_wf_column(2)[OF L(1)]
      layout_wf_disjoint[OF L(1)] bits[of "ColumnCount L"]
    by (simp add: n Let_def)
qed

lemma layout_built_sample: "tl_varlen_payload_offset sample_layout \<le> 8135"
  using layout_built[OF sample_build] by blast

section \<open>Null bitmap and scalars\<close>

text \<open>On a bitmap long enough for its columns, setting or clearing the null bit of a
  column changes the answer for that column only.\<close>

lemma null_bitmap_set_clear:
  assumes "bitmap_bytes n \<le> 65535" and "bitmap_bytes n \<le> length b" and "i < n"
  shows "(\<exists>b'. SetNull b n i = Ok b' \<and> length b' = length b \<and>
      (\<forall>j. IsNull b' n j = (if j = i then Ok True else IsNull b n j))) \<and>
    (\<exists>b'. ClearNull b n i = Ok b' \<and> length b' = length b \<and>
      (\<forall>j. IsNull b' n j = (if j = i then Ok False else IsNull b n j)))"
proof -
  have idx: "i div 8 < length b" using bitmap_index[OF assms(3)] assms(2) by linarith
  have out: "IsNull b' n j = IsNull b n j" if "length b' = length b" "n \<le> j" for b' j
    using that by (simp add: IsNull_def ValidateBitmapAccess_def split: option.splits)
  have eq: "IsNull b' n j = (if j = i then Ok v else IsNull b n j)"
    if "length b' = length b" "\<And>j. null_bit b' j = (if j = i then v else null_bit b j)" for b' v j
    using that assms out[OF that(1), of j] by (cases "j < n") (auto simp: IsNull_eq)
  have "SetNull b n i = Ok (b[i div 8 := (b ! (i div 8)) OR NullBitMask i])"
    "ClearNull b n i = Ok (b[i div 8 := (b ! (i div 8)) AND NOT (NullBitMask i)])"
    using SetNull_eq[OF assms] ClearNull_eq[OF assms] by simp_all
  moreover have "IsNull (b[i div 8 := (b ! (i div 8)) OR NullBitMask i]) n j =
      (if j = i then Ok True else IsNull b n j)" for j
    by (rule eq) (use null_bit_set[OF idx] in auto)
  moreover have "IsNull (b[i div 8 := (b ! (i div 8)) AND NOT (NullBitMask i)]) n j =
      (if j = i then Ok False else IsNull b n j)" for j
    by (rule eq) (use null_bit_clear[OF idx] in auto)
  ultimately show ?thesis by auto
qed

text \<open>A fixed-width value of its column's type is written to the first bytes of any field
  that is wide enough, nothing else is touched, and it is read back; and what the decoder accepts is
  the encoding of what it returns, so a boolean byte other than 0 and 1 is refused.\<close>

lemma scalar_roundtrip:
  assumes "scalar_ok t v"
  shows "(type_width t \<le> length d \<longrightarrow> (\<exists>d'. EncodeFixedScalar d t v = Ok d' \<and>
      length d' = length d \<and> drop (type_width t) d' = drop (type_width t) d \<and>
      DecodeFixedScalar t d' = Ok v)) \<and>
    (\<forall>s. DecodeFixedScalar t s = Ok v \<longrightarrow> EncodeFixedScalar s t v = Ok s)"
proof (intro conjI allI impI)
  assume w: "type_width t \<le> length d"
  define d' where "d' = put 0 (scalar_image v) d"
  have e: "EncodeFixedScalar d t v = Ok d'" using w assms by (simp add: EncodeFixedScalar_eq d'_def)
  then have "AsOptional (EncodeFixedScalar d t v) = Some d'" by simp
  from scalar.encode_length[OF this] scalar.encode_frame[OF this] scalar.decode_encode[OF this] e
  show "\<exists>d'. EncodeFixedScalar d t v = Ok d' \<and> length d' = length d \<and>
      drop (type_width t) d' = drop (type_width t) d \<and> DecodeFixedScalar t d' = Ok v"
    by (auto simp: AsOptional_Some_iff)
next
  fix s assume "DecodeFixedScalar t s = Ok v"
  then have "AsOptional (DecodeFixedScalar t s) = Some v" by simp
  from scalar.encode_decode[OF this] show "EncodeFixedScalar s t v = Ok s"
    by (simp add: AsOptional_Some_iff)
qed

end
