(* ===== verification/Format_Properties.thy ===== *)
theory Format_Properties
  imports Sample_Table
begin

text \<open>
  The properties of the persistent formats: the fixed-width codecs of headers, slot entries and
  identifiers, and the page checksum.
\<close>

section \<open>Codecs\<close>

text \<open>A tuple header that encodes is read back from the bytes written, the rest of the
  destination stays as it was, and the decoder accepts only encodings of valid headers.\<close>

lemma tuple_header_codec:
  "(EncodeTupleHeader d h = Some d' \<longrightarrow> length d' = length d \<and> drop 48 d' = drop 48 d \<and>
      DecodeTupleHeader d' = Ok h) \<and>
   (DecodeTupleHeader s = Ok h \<longrightarrow> EncodeTupleHeader s h = Some s \<and> ValidateTupleHeader h = TH_NONE)"
proof (intro conjI impI)
  assume e: "EncodeTupleHeader d h = Some d'"
  show "length d' = length d" "drop 48 d' = drop 48 d"
    using tuple_header.encode_length[OF e] tuple_header.encode_frame[OF e] by simp_all
  show "DecodeTupleHeader d' = Ok h" using tuple_header.decode_encode[OF e] by (simp add: AsOptional_Some_iff)
next
  assume "DecodeTupleHeader s = Ok h"
  then have d: "AsOptional (DecodeTupleHeader s) = Some h" by simp
  show "EncodeTupleHeader s h = Some s" "ValidateTupleHeader h = TH_NONE"
    using tuple_header.encode_decode[OF d] d tuple_header.decode_Some_iff[of s h] by simp_all
qed

text \<open>Heap page headers, slot entries, row identifiers and common page headers survive
  encoding, and what is decoded is what stands in the bytes; a slot entry with an unnamed state does
  not encode, and a row identifier with nonzero reserved bytes does not decode.\<close>

lemma page_codecs:
  "(EncodeHeapPageHeader d hh = Some d' \<longrightarrow> DecodeHeapPageHeader d' = Some hh \<and> drop 16 d' = drop 16 d) \<and>
   (EncodeHeapSlotEntry d e = Some d' \<longrightarrow> DecodeHeapSlotEntry d' = Ok e \<and> drop 8 d' = drop 8 d) \<and>
   (EncodeRid d r = Some d' \<longrightarrow> DecodeRid d' = Some r \<and> drop 16 d' = drop 16 d) \<and>
   (DecodeHeapSlotEntry s = Ok e \<longrightarrow> EncodeHeapSlotEntry s e = Some s) \<and>
   (DecodeRid s = Some r \<longrightarrow> EncodeRid s r = Some s) \<and>
   (DecodeHeapPageHeader s = Some hh \<longrightarrow> EncodeHeapPageHeader s hh = Some s) \<and>
   (DecodeCommonPageHeader s = Some ch \<longrightarrow> EncodeCommonPageHeader s ch = Some s)"
proof (intro conjI impI)
  assume "DecodeHeapSlotEntry s = Ok e"
  then have "AsOptional (DecodeHeapSlotEntry s) = Some e" by simp
  from slot_entry.encode_decode[OF this] show "EncodeHeapSlotEntry s e = Some s" .
next
  assume "DecodeCommonPageHeader s = Some ch"
  from common_header.encode_decode[OF this] show "EncodeCommonPageHeader s ch = Some s"
    by (simp split: if_splits)
next
  assume "EncodeHeapSlotEntry d e = Some d'"
  from slot_entry.decode_encode[OF this] show "DecodeHeapSlotEntry d' = Ok e"
    by (simp add: AsOptional_Some_iff)
qed (auto dest: heap_header.decode_encode heap_header.encode_frame slot_entry.encode_frame
    rid.decode_encode rid.encode_frame rid.encode_decode heap_header.encode_decode)

section \<open>The page checksum\<close>

text \<open>A page whose checksum was finalised verifies, and finalising touches the four
  checksum bytes only.\<close>

lemma checksum_accepts:
  assumes "length bs = 8192"
  shows "VerifyPageChecksum (FinalizePageChecksum bs) \<and>
    take 16 (FinalizePageChecksum bs) = take 16 bs \<and> drop 20 (FinalizePageChecksum bs) = drop 20 bs"
proof -
  have "subspan 0 16 (FinalizePageChecksum bs) = subspan 0 16 bs"
    "subspan 20 8172 (FinalizePageChecksum bs) = subspan 20 8172 bs"
    using FinalizePageChecksum_other[OF assms] by simp_all
  then show ?thesis using assms by (simp add: VerifyPageChecksum_Finalize subspan_def)
qed

text \<open>C35: safety. Verification notices every corruption of at most four adjacent bytes of a page, in the
  checksum field or anywhere outside it.\<close>

theorem checksum_detects:
  assumes "length bs = 8192" and "VerifyPageChecksum bs"
    and "length w \<le> 4" and "off + length w \<le> 8192"
    and "off + length w \<le> 16 \<or> 20 \<le> off \<or> (16 \<le> off \<and> off + length w \<le> 20)"
    and "subspan off (length w) bs \<noteq> w"
  shows "\<not> VerifyPageChecksum (put off w bs)"
proof
  assume v: "VerifyPageChecksum (put off w bs)"
  have len: "length (put off w bs) = 8192" using assms(1,4) by simp
  have old: "subspan 16 4 bs = le_bytes (ComputePageChecksum bs)"
    using assms(1,2) by (simp add: VerifyPageChecksum_eq)
  have new: "subspan 16 4 (put off w bs) = le_bytes (ComputePageChecksum (put off w bs))"
    using v len by (simp add: VerifyPageChecksum_eq)
  define u where "u = subspan off (length w) bs"
  have u: "length u = length w" "put off u bs = bs" using assms(1,4) by (simp_all add: u_def)
  show False
  proof (cases "16 \<le> off \<and> off + length w \<le> 20")
    case True
    define f where "f = put (off - 16) w (subspan 16 4 bs)"
    have "off - 16 + length w \<le> length (subspan 16 4 bs)" using True assms(1) by auto
    then have f: "length f = 4" using assms(1) by (simp add: f_def)
    have "put off w bs = put 16 f bs"
      by (rule region_eqI) (use True assms(1,4) f in \<open>auto simp: nth_put f_def\<close>)
    then have "subspan 16 4 (put off w bs) = subspan 16 4 bs"
      using new old ComputePageChecksum_field[OF assms(1) f] by simp
    then have "subspan (off - 16) (length w) (subspan 16 4 (put off w bs)) =
        subspan (off - 16) (length w) (subspan 16 4 bs)" by simp
    moreover have "subspan (off - 16) (length w) (subspan 16 4 xs) = subspan off (length w) xs"
      if "length xs = 8192" for xs :: "byte list"
      using True that subspan_subspan[of "off - 16" "length w" 4 16 xs] by auto
    ultimately have "w = u"
      using subspan_put_same[of off w bs] assms(1,4) len by (simp add: u_def)
    then show False using assms(6) by (simp add: u_def)
  next
    case False
    then have at: "off + length w \<le> 16 \<or> 20 \<le> off \<and> off + length w \<le> 8192" using assms(4,5) by auto
    have "subspan 16 4 (put off w bs) = subspan 16 4 bs"
      by (rule subspan_put_other) (use at assms(1,4) in auto)
    then have "le_bytes (ComputePageChecksum (put off w bs)) = le_bytes (ComputePageChecksum bs)"
      using old new by simp
    then have "ComputePageChecksum (put off u bs) = ComputePageChecksum (put off w bs)"
      using u(2) by (metis le_word_le_bytes_simps(3))
    from ComputePageChecksum_window[OF assms(1) u(1) assms(3) at this] have "u = w" .
    then show False using assms(6) by (simp add: u_def)
  qed
qed

theorem checksum_detects_witness:
  "\<not> VerifyPageChecksum (put 100 [8] (FinalizePageChecksum (replicate 8192 7)))"
proof -
  let ?p = "FinalizePageChecksum (replicate 8192 7)"
  have l: "length ?p = 8192" by simp
  have v: "VerifyPageChecksum ?p" by (rule VerifyPageChecksum_Finalize) simp
  have "subspan 100 1 ?p = subspan 100 1 (replicate 8192 7)"
    by (rule FinalizePageChecksum_other) simp_all
  then have "subspan 100 (length [8 :: byte]) ?p \<noteq> [8]" by (simp add: subspan_def)
  from checksum_detects[OF l v _ _ _ this] show ?thesis by simp
qed

end
