(* ===== verification/Space_Properties.thy ===== *)
theory Space_Properties
  imports Sample_Table
begin

text \<open>
  The properties of the free-space map (\<open>fsm_page.cpp\<close>), the candidate index
  (\<open>fsm_candidate_index.cpp\<close>) and the CLOCK replacer (\<open>clock_replacer.h\<close>).
\<close>

section \<open>Free-space categories\<close>

text \<open>C39: bounds. The one-byte category of a page never promises more than the page has: a page whose
  category reaches the one computed for a tuple has room for the tuple and its slot entry. The
  category computed for a tuple is the least that promises so much.\<close>

theorem category_promises:
  assumes "MinimumFsmCategoryForTupleBytes r = Ok m" and "0 < r"
  shows "(m \<le> FsmCategoryForFreeBytes free \<longrightarrow> r + 8 \<le> free) \<and>
    FsmCategoryMinimumUsableBytes (FsmCategoryForFreeBytes free) \<le> free - 8 \<and>
    (\<forall>c. r \<le> FsmCategoryMinimumUsableBytes c \<longleftrightarrow> m \<le> c)"
  using category_sound[OF assms(1) _ assms(2)] category_lower_bound minimum_category_least[OF assms(1)]
  by blast

theorem category_promises_witness:
  "\<exists>m. MinimumFsmCategoryForTupleBytes 100 = Ok m \<and> 100 \<le> FsmCategoryMinimumUsableBytes m"
proof -
  obtain m where m: "MinimumFsmCategoryForTupleBytes 100 = Ok m"
    by (simp add: MinimumFsmCategoryForTupleBytes_def)
  from category_promises[OF m] m show ?thesis by auto
qed

text \<open>Every heap page number but 0 and the invalid one has exactly one entry in the
  free-space map, found by division by 8144, no two pages share an entry, and the first page of the
  map page and the entry's index lead back to the page, without wrap-around.\<close>

lemma fsm_location:
  assumes "n \<noteq> 0" and "n \<noteq> INVALID_PAGE_NO"
  shows "\<exists>loc first. FsmLocationForHeapPage n = Ok loc \<and>
    unat (fl_fsm_page_no loc) = 1 + (unat n - 1) div 8144 \<and> unat (fl_entry_index loc) < 8144 \<and>
    FirstHeapPageForFsmPage (fl_fsm_page_no loc) = Some first \<and>
    unat n = unat first + unat (fl_entry_index loc) \<and>
    (\<forall>m. FsmLocationForHeapPage m = Ok loc \<longrightarrow> m = n)"
proof -
  obtain loc where loc: "FsmLocationForHeapPage n = Ok loc" using FsmLocation_total[OF assms] by blast
  from FirstHeapPage_of_location[OF loc] obtain first where
    "FirstHeapPageForFsmPage (fl_fsm_page_no loc) = Some first"
    "unat n = unat first + unat (fl_entry_index loc)" "unat (fl_entry_index loc) < 8144" by blast
  then show ?thesis using loc FsmLocation_Ok(3)[OF loc] FsmLocation_inject[OF _ loc] by blast
qed

text \<open>C40: functional. Setting a category on a free-space map page succeeds exactly when the page
  validates and the entry is initialised; then that entry reads back the category, every other
  entry and the validation result stay; on failure the page is unchanged.\<close>

theorem fsm_set_category:
  assumes "Page_wf p"
  shows "case FsmPage_SetCategory p i c of
      (Inr _, p') \<Rightarrow> (\<exists>h. FsmPage_Validate p = Ok h \<and> i < unat (fh_entry_count (fp_fsm h))) \<and>
        Page_wf p' \<and> FsmPage_Validate p' = FsmPage_Validate p \<and>
        (\<forall>j. FsmPage_Category p' j = (if j = i then Ok c else FsmPage_Category p j))
    | (Inl e, p') \<Rightarrow> p' = p \<and>
        \<not> (\<exists>h. FsmPage_Validate p = Ok h \<and> i < unat (fh_entry_count (fp_fsm h)))"
proof -
  obtain r p' where s: "FsmPage_SetCategory p i c = (r, p')" by fastforce
  have iff: "(\<exists>u. r = Inr u) \<longleftrightarrow> (\<exists>h. FsmPage_Validate p = Ok h \<and> i < unat (fh_entry_count (fp_fsm h)))"
    using s by (auto simp: FsmPage_SetCategory_def split: sum.splits if_splits)
  show ?thesis
  proof (cases r)
    case (Inl e)
    then show ?thesis using s iff FsmPage_SetCategory_frame[of p i c e p'] by simp
  next
    case (Inr u)
    then have "FsmPage_SetCategory p i c = (Ok (), p')" using s by simp
    from FsmPage_SetCategory_Ok[OF assms this] show ?thesis using s Inr iff by simp
  qed
qed

definition sample_fsm :: Page where
  "sample_fsm = snd (the (FsmPage_Initialize (Page_new (PageId 2 1)) \<lparr>fi_entry_count = 5, fi_page_lsn = 0\<rparr>))"

lemma sample_fsm_init:
  "FsmPage_Initialize (Page_new (PageId 2 1)) \<lparr>fi_entry_count = 5, fi_page_lsn = 0\<rparr> = Some (Ok (), sample_fsm)"
proof -
  have "\<exists>p'. FsmPage_Initialize (Page_new (PageId 2 1)) \<lparr>fi_entry_count = 5, fi_page_lsn = 0\<rparr> =
      Some (Ok (), p')"
    by (simp add: FsmPage_Initialize_def FirstHeapPageForFsmPage_def INVALID_PAGE_NO_def Page_new_def
        Page_Initialize_eq[OF Page_new_wf, unfolded Page_new_def] EncodeFsmPageHeader_eq EncodeCommonPageHeader_eq encode_at_def
        InitializedRangeFits_def word_le_nat_alt unat_max_1_64)
  then show ?thesis by (auto simp: sample_fsm_def)
qed

theorem fsm_set_category_witness:
  "\<exists>p'. FsmPage_SetCategory sample_fsm 3 9 = (Ok (), p') \<and> FsmPage_Category p' 3 = Ok 9"
proof -
  note ini = FsmPage_Initialize_valid[OF Page_new_wf sample_fsm_init]
  obtain h where h: "FsmPage_Validate sample_fsm = Ok h" "fh_entry_count (fp_fsm h) = 5"
    using ini(2) by auto
  obtain r p' where s: "FsmPage_SetCategory sample_fsm 3 9 = (r, p')" by fastforce
  from fsm_set_category[OF ini(1), of 3 9] h s show ?thesis
    by (cases r) auto
qed

section \<open>The candidate index\<close>

text \<open>C38: refinement. On an index whose buckets agree with its map, upserting and removing a valid page
  never run into an assertion, keep the agreement, and act as the update of a map from pages to
  categories; invalid page numbers are refused without a change. The empty index agrees. An upsert that
  runs out of memory at either of its two allocations leaves the index as it was, and one that does not does the
  same as with memory to spare.\<close>

theorem index_refines_map:
  assumes "index_inv ix"
  shows "index_inv FsmCandidateIndex_new \<and>
    (\<exists>status ix'. FsmCandidateIndex_Upsert_within map_room bucket_room ix p c = Some (status, ix') \<and>
       (case status of None \<Rightarrow> ix' = ix \<and> \<not> (map_room \<and> bucket_room)
        | Some st \<Rightarrow> FsmCandidateIndex_Upsert ix p c = Some (st, ix'))) \<and>
    (if IsValidHeapPageNumber p
     then (\<exists>ix'. FsmCandidateIndex_Upsert ix p c = Some (Ok (), ix') \<and> index_inv ix' \<and>
             ci_page_categories ix' = (ci_page_categories ix)(p \<mapsto> c)) \<and>
          (\<exists>ix'. FsmCandidateIndex_Remove ix p = Some (Ok (), ix') \<and> index_inv ix' \<and>
             ci_page_categories ix' = (ci_page_categories ix)(p := None))
     else FsmCandidateIndex_Upsert ix p c = Some (Unexpected CI_INVALID_PAGE_NUMBER, ix) \<and>
          FsmCandidateIndex_Remove ix p = Some (Unexpected CI_INVALID_PAGE_NUMBER, ix))"
proof -
  have "FsmCandidateIndex_Upsert ix p c \<noteq> None"
    using Upsert_ok[OF assms, of p c] by (cases "IsValidHeapPageNumber p") (auto simp: FsmCandidateIndex_Upsert_def)
  from Upsert_within_returns[OF this] obtain status ix' where
    "FsmCandidateIndex_Upsert_within map_room bucket_room ix p c = Some (status, ix')" by fastforce
  then show ?thesis using Upsert_within_cases Upsert_ok[OF assms, of p c] Remove_ok[OF assms, of p] index_inv_new
    by (simp add: FsmCandidateIndex_Upsert_def FsmCandidateIndex_Remove_def)
qed

theorem index_refines_map_witness:
  "\<exists>ix'. FsmCandidateIndex_Upsert FsmCandidateIndex_new 3 200 = Some (Ok (), ix') \<and>
     ci_page_categories ix' 3 = Some 200"
proof -
  have "IsValidHeapPageNumber 3" by (simp add: IsValidHeapPageNumber_def INVALID_PAGE_NO_def)
  then obtain ix' where "FsmCandidateIndex_Upsert FsmCandidateIndex_new 3 200 = Some (Ok (), ix')"
    "ci_page_categories ix' = (ci_page_categories FsmCandidateIndex_new)(3 \<mapsto> 200)"
    using index_refines_map[where p = 3 and c = 200 and map_room = True and bucket_room = True, OF index_inv_new]
    unfolding if_P[OF \<open>IsValidHeapPageNumber 3\<close>] by blast
  then show ?thesis by simp
qed

text \<open>C37: functional. A search for a tuple size answers with a best fit: a page of the least sufficient
  category, and of those the lowest page number; it answers that there is none only if every
  tracked category is too small; and it refuses exactly the sizes above 8135.\<close>

theorem find_candidate_best_fit:
  assumes "index_inv ix"
  shows "case FsmCandidateIndex_FindCandidate ix r of
      Inl e \<Rightarrow> r > 8135 \<and> e = TUPLE_REQUEST_TOO_LARGE
    | Inr None \<Rightarrow> (\<exists>m. MinimumFsmCategoryForTupleBytes r = Ok m \<and>
        (\<forall>q d. ci_page_categories ix q = Some d \<longrightarrow> d < m))
    | Inr (Some p) \<Rightarrow> (\<exists>m c. MinimumFsmCategoryForTupleBytes r = Ok m \<and> m \<le> c \<and>
        ci_page_categories ix p = Some c \<and>
        (\<forall>q d. ci_page_categories ix q = Some d \<and> m \<le> d \<longrightarrow> c \<le> d \<and> (d = c \<longrightarrow> p \<le> q)))"
proof (cases "FsmCandidateIndex_FindCandidate ix r")
  case (Inl e)
  then show ?thesis
    by (auto simp: FsmCandidateIndex_FindCandidate_def MinimumFsmCategoryForTupleBytes_def
        split: sum.splits if_splits)
next
  case (Inr q)
  then show ?thesis using FindCandidate_Some[OF assms, of r] FindCandidate_None[OF assms, of r]
    by (cases q) auto
qed

theorem find_candidate_best_fit_witness:
  "\<exists>r. FsmCandidateIndex_FindCandidate FsmCandidateIndex_new 100 = r \<and> (\<forall>p. r \<noteq> Ok (Some p))"
  using find_candidate_best_fit[OF index_inv_new, of 100]
  by (auto simp: FsmCandidateIndex_new_def split: sum.splits option.splits)

section \<open>Page replacement\<close>

text \<open>C36: functional. One CLOCK pass returns nothing exactly when no frame is eligible. A returned victim
  is an eligible frame of the pool; it was unreferenced unless every eligible frame was referenced;
  its reference bit is clear afterwards, the hand stands behind it, and at most two rotations of
  frames were visited. The pass sets no reference bit and clears those of eligible frames only.\<close>

theorem clock_pass:
  assumes "clock_inv c"
  shows "(case FindCandidate e c of
      (None, c') \<Rightarrow> \<forall>x < length (cr_referenced c). \<not> e (of_nat x)
    | (Some f, c') \<Rightarrow> unat f < length (cr_referenced c) \<and> e f \<and>
        (\<not> IsReferenced c f \<or>
          (\<forall>x < length (cr_referenced c). e (of_nat x) \<longrightarrow> IsReferenced c (of_nat x))) \<and>
        \<not> IsReferenced c' f \<and> cr_hand c' = (unat f + 1) mod length (cr_referenced c) \<and>
        cr_last_pass_visits c' \<le> 2 * length (cr_referenced c)) \<and>
    clock_inv (snd (FindCandidate e c)) \<and>
    (\<forall>x < length (cr_referenced c). cr_referenced (snd (FindCandidate e c)) ! x \<in>
       (if e (of_nat x) then {0, cr_referenced c ! x} else {cr_referenced c ! x}))"
proof (intro conjI)
  obtain r c' where f: "FindCandidate e c = (r, c')" by fastforce
  show "case FindCandidate e c of
      (None, c') \<Rightarrow> \<forall>x < length (cr_referenced c). \<not> e (of_nat x)
    | (Some f, c') \<Rightarrow> unat f < length (cr_referenced c) \<and> e f \<and>
        (\<not> IsReferenced c f \<or>
          (\<forall>x < length (cr_referenced c). e (of_nat x) \<longrightarrow> IsReferenced c (of_nat x))) \<and>
        \<not> IsReferenced c' f \<and> cr_hand c' = (unat f + 1) mod length (cr_referenced c) \<and>
        cr_last_pass_visits c' \<le> 2 * length (cr_referenced c)"
    using clock_pass_victim(1-6)[OF assms, of e] clock_pass_None_iff[OF assms, of e] f
    by (cases r) auto
  show "clock_inv (snd (FindCandidate e c))" by (rule clock_inv_FindCandidate[OF assms])
  show "\<forall>x < length (cr_referenced c). cr_referenced (snd (FindCandidate e c)) ! x \<in>
       (if e (of_nat x) then {0, cr_referenced c ! x} else {cr_referenced c ! x})"
    using clock_pass_bits[OF assms, of _ e] by auto
qed

definition sample_clock :: ClockReplacer where
  "sample_clock = \<lparr>cr_referenced = [1, 0, 1], cr_hand = 0, cr_last_pass_visits = 0\<rparr>"

theorem clock_pass_witness:
  "\<exists>f c'. FindCandidate (\<lambda>_. True) sample_clock = (Some f, c') \<and> \<not> IsReferenced c' f"
proof -
  have inv: "clock_inv sample_clock" by (simp add: clock_inv_def sample_clock_def)
  obtain r c' where f: "FindCandidate (\<lambda>_. True) sample_clock = (r, c')" by fastforce
  from clock_pass[OF inv, of "\<lambda>_. True"] f show ?thesis
    by (cases r) (auto simp: sample_clock_def)
qed

end
