(* ===== verification/Posix.thy ===== *)
theory Posix
  imports Page
begin

text \<open>
  The operating system as \<open>src/src/storage/disk/disk_manager.cpp\<close> sees it. The kernel is not
  part of the repository: its calls are a parameter, the record \<open>posix\<close> over an arbitrary
  kernel state \<open>'k\<close>. A negative return value with \<open>errno = e\<close> is \<open>Unexpected e\<close>. What the
  storage code relies on is the locale \<open>posix_kernel\<close>: every call, described on a view of the
  kernel state (names, file contents, open descriptors), does what its manual page says, may fail,
  may be interrupted, and may transfer fewer bytes than asked; and no call is interrupted forever.
\<close>

section \<open>The calls\<close>

datatype OpenFlag = O_RDWR | O_CREAT | O_EXCL | O_CLOEXEC

definition EINTR :: int where "EINTR = 4"
definition EIO :: int where "EIO = 5"

record 'k posix =
  sys_open :: "string \<Rightarrow> OpenFlag list \<Rightarrow> 32 word \<Rightarrow> 'k \<Rightarrow> (int, int) result \<times> 'k"
  sys_fstat :: "int \<Rightarrow> 'k \<Rightarrow> (int, int) result \<times> 'k"
  sys_ftruncate :: "int \<Rightarrow> int \<Rightarrow> 'k \<Rightarrow> (unit, int) result \<times> 'k"
  sys_fdatasync :: "int \<Rightarrow> 'k \<Rightarrow> (unit, int) result \<times> 'k"
  sys_close :: "int \<Rightarrow> 'k \<Rightarrow> (unit, int) result \<times> 'k"
  sys_pread :: "int \<Rightarrow> nat \<Rightarrow> int \<Rightarrow> 'k \<Rightarrow> (byte list, int) result \<times> 'k"
  sys_pwrite :: "int \<Rightarrow> byte list \<Rightarrow> int \<Rightarrow> 'k \<Rightarrow> (nat, int) result \<times> 'k"

text \<open>The loop \<open>do result = call(); while (result < 0 && errno == EINTR)\<close>, which returns only
  when the kernel stops interrupting it.\<close>

partial_function (option) retry ::
    "('k \<Rightarrow> ('a, int) result \<times> 'k) \<Rightarrow> 'k \<Rightarrow> (('a, int) result \<times> 'k) option" where
  "retry call k =
     (case call k of
        (Unexpected e, k') \<Rightarrow> if e = EINTR then retry call k' else Some (Unexpected e, k')
      | (Ok v, k') \<Rightarrow> Some (Ok v, k'))"

section \<open>The view of the kernel state\<close>

record os_view =
  ov_names :: "string \<rightharpoonup> nat"
  ov_data :: "nat \<rightharpoonup> byte list"
  ov_fds :: "int \<rightharpoonup> nat"

text \<open>The contents behind an open descriptor, and a write or a change of length there.\<close>

definition fd_data :: "os_view \<Rightarrow> int \<Rightarrow> byte list option" where
  "fd_data v fd = Option.bind (ov_fds v fd) (ov_data v)"

definition set_fd_data :: "int \<Rightarrow> byte list \<Rightarrow> os_view \<Rightarrow> os_view" where
  "set_fd_data fd d v =
     (case ov_fds v fd of None \<Rightarrow> v | Some i \<Rightarrow> v\<lparr>ov_data := (ov_data v)(i \<mapsto> d)\<rparr>)"

definition write_at :: "nat \<Rightarrow> byte list \<Rightarrow> byte list \<Rightarrow> byte list" where
  "write_at off bs d = take off d @ replicate (off - length d) 0 @ bs @ drop (off + length bs) d"

definition resize :: "nat \<Rightarrow> byte list \<Rightarrow> byte list" where
  "resize n d = take n d @ replicate (n - length d) 0"

lemma length_resize [simp]: "length (resize n d) = n"
  by (simp add: resize_def)

section \<open>The manual pages\<close>

definition create_law :: "string \<Rightarrow> os_view \<Rightarrow> (int, int) result \<Rightarrow> os_view \<Rightarrow> bool" where
  "create_law path v r v' =
     (case r of
        Unexpected e \<Rightarrow> v' = v
      | Ok fd \<Rightarrow>
          0 \<le> fd \<and> ov_fds v fd = None \<and> ov_names v path = None \<and>
          (\<exists>i. ov_data v i = None \<and>
            v' = v\<lparr>ov_names := (ov_names v)(path \<mapsto> i), ov_data := (ov_data v)(i \<mapsto> []),
              ov_fds := (ov_fds v)(fd \<mapsto> i)\<rparr>))"

definition open_law :: "string \<Rightarrow> os_view \<Rightarrow> (int, int) result \<Rightarrow> os_view \<Rightarrow> bool" where
  "open_law path v r v' =
     (case r of
        Unexpected e \<Rightarrow> v' = v
      | Ok fd \<Rightarrow>
          0 \<le> fd \<and> ov_fds v fd = None \<and>
          (\<exists>i. ov_names v path = Some i \<and> v' = v\<lparr>ov_fds := (ov_fds v)(fd \<mapsto> i)\<rparr>))"

definition fstat_law :: "int \<Rightarrow> os_view \<Rightarrow> (int, int) result \<Rightarrow> os_view \<Rightarrow> bool" where
  "fstat_law fd v r v' =
     (v' = v \<and>
      (case r of Unexpected e \<Rightarrow> True
       | Ok st_size \<Rightarrow> st_size < 2 ^ 63 \<and> (\<forall>d. fd_data v fd = Some d \<longrightarrow> st_size = int (length d))))"

definition ftruncate_law :: "int \<Rightarrow> int \<Rightarrow> os_view \<Rightarrow> (unit, int) result \<Rightarrow> os_view \<Rightarrow> bool" where
  "ftruncate_law fd new_size v r v' =
     (case r of Unexpected e \<Rightarrow> v' = v
      | Ok _ \<Rightarrow>
          (\<forall>d. fd_data v fd = Some d \<and> 0 \<le> new_size \<longrightarrow> v' = set_fd_data fd (resize (nat new_size) d) v))"

definition close_law :: "int \<Rightarrow> os_view \<Rightarrow> (unit, int) result \<Rightarrow> os_view \<Rightarrow> bool" where
  "close_law fd v r v' = (v' = v\<lparr>ov_fds := (ov_fds v)(fd := None)\<rparr>)"

definition pread_law ::
    "int \<Rightarrow> nat \<Rightarrow> int \<Rightarrow> os_view \<Rightarrow> (byte list, int) result \<Rightarrow> os_view \<Rightarrow> bool" where
  "pread_law fd n off v r v' =
     (v' = v \<and>
      (case r of Unexpected e \<Rightarrow> True
       | Ok bs \<Rightarrow>
           length bs \<le> n \<and>
           (\<forall>d. fd_data v fd = Some d \<and> 0 \<le> off \<longrightarrow>
             bs = take (length bs) (drop (nat off) d) \<and>
             (bs = [] \<longrightarrow> n = 0 \<or> length d \<le> nat off))))"

text \<open>\<open>st_size\<close> has type \<open>off_t\<close>. An interrupted \<open>pwrite\<close> has written nothing; one that failed otherwise
  may have left any bytes in the range it was writing, which stay unspecified, and nowhere else.\<close>

definition pwrite_law ::
    "int \<Rightarrow> byte list \<Rightarrow> int \<Rightarrow> os_view \<Rightarrow> (nat, int) result \<Rightarrow> os_view \<Rightarrow> bool" where
  "pwrite_law fd bs off v r v' =
     (case r of
        Unexpected e \<Rightarrow> v' = v \<or> e \<noteq> EINTR \<and> (\<exists>d'. v' = set_fd_data fd d' v \<and>
          (\<forall>d. fd_data v fd = Some d \<and> 0 \<le> off \<and> nat off + length bs \<le> length d \<longrightarrow>
            (\<exists>junk. length junk = length bs \<and> d' = write_at (nat off) junk d)))
      | Ok n \<Rightarrow>
          n \<le> length bs \<and>
          (\<forall>d. fd_data v fd = Some d \<and> 0 \<le> off \<longrightarrow>
            v' = set_fd_data fd (write_at (nat off) (take n bs) d) v))"

locale posix_kernel =
  fixes os :: "'k posix"
    and view :: "'k \<Rightarrow> os_view"
    and patience :: "'k \<Rightarrow> nat"
  assumes create_kernel: "sys_open os path [O_RDWR, O_CREAT, O_EXCL, O_CLOEXEC] mode k = (r, k') \<Longrightarrow>
      create_law path (view k) r (view k')"
    and open_kernel: "sys_open os path [O_RDWR, O_CLOEXEC] mode k = (r, k') \<Longrightarrow>
      open_law path (view k) r (view k')"
    and fstat_kernel: "sys_fstat os fd k = (st, k') \<Longrightarrow> fstat_law fd (view k) st (view k')"
    and ftruncate_kernel: "sys_ftruncate os fd len k = (u, k') \<Longrightarrow>
      ftruncate_law fd len (view k) u (view k')"
    and fdatasync_kernel: "sys_fdatasync os fd k = (u, k') \<Longrightarrow> view k' = view k"
    and close_kernel: "sys_close os fd k = (u, k') \<Longrightarrow> close_law fd (view k) u (view k')"
    and pread_kernel: "sys_pread os fd n off k = (bs, k') \<Longrightarrow> pread_law fd n off (view k) bs (view k')"
    and pwrite_kernel: "sys_pwrite os fd data off k = (m, k') \<Longrightarrow>
      pwrite_law fd data off (view k) m (view k')"
    and open_patience: "sys_open os path flags mode k = (Unexpected EINTR, k') \<Longrightarrow>
      patience k' < patience k"
    and fstat_patience: "sys_fstat os fd k = (Unexpected EINTR, k') \<Longrightarrow> patience k' < patience k"
    and ftruncate_patience: "sys_ftruncate os fd len k = (Unexpected EINTR, k') \<Longrightarrow>
      patience k' < patience k"
    and fdatasync_patience: "sys_fdatasync os fd k = (Unexpected EINTR, k') \<Longrightarrow>
      patience k' < patience k"
    and pread_patience: "sys_pread os fd n off k = (Unexpected EINTR, k') \<Longrightarrow> patience k' < patience k"
    and pwrite_patience: "sys_pwrite os fd data off k = (Unexpected EINTR, k') \<Longrightarrow>
      patience k' < patience k"

section \<open>Retrying\<close>

lemma retry_returns:
  assumes "\<And>k k'. call k = (Unexpected EINTR, k') \<Longrightarrow> m k' < (m k :: nat)"
  shows "\<exists>r k'. retry call k = Some (r, k')"
proof (induction "m k" arbitrary: k rule: less_induct)
  case less
  then show ?case
    using assms[of k] by (subst retry.simps) (auto split: prod.splits sum.splits)
qed

text \<open>A retried call behaves like one call made in a state with the same view.\<close>

lemma retry_law:
  assumes "retry call k = Some (r, k')"
    and call: "\<And>k r k'. call k = (r, k') \<Longrightarrow> L (view k) r (view k')"
    and interrupted: "\<And>v v'. L v (Unexpected EINTR) v' \<Longrightarrow> v' = v"
  shows "L (view k) r (view k')"
proof -
  have "L (view k) (fst p) (view (snd p))" if "retry call k = Some p" for p
  proof (rule retry.raw_induct[where P = "\<lambda>c k p. c = call \<longrightarrow> L (view k) (fst p) (view (snd p))", OF _ that, THEN mp, OF _ refl],
      rule impI)
    fix rec c k p
    assume IH: "\<And>c k p. rec c k = Some p \<Longrightarrow> c = call \<longrightarrow> L (view k) (fst p) (view (snd p))"
      and c: "c = call"
      and step: "(case c k of
        (Unexpected e, k') \<Rightarrow> if e = EINTR then rec c k' else Some (Unexpected e, k')
      | (Ok v, k') \<Rightarrow> Some (Ok v, k')) = Some p"
    obtain r k' where r: "call k = (r, k')" by (cases "call k")
    note law = call[OF r]
    show "L (view k) (fst p) (view (snd p))"
    proof (cases "r = Unexpected EINTR")
      case True
      with law interrupted have "view k' = view k" by blast
      moreover have "rec c k' = Some p" using step r True c by simp
      ultimately show ?thesis using IH c by metis
    next
      case False
      then have "p = (r, k')" using step r c by (auto split: sum.splits if_splits)
      with law show ?thesis by simp
    qed
  qed
  with assms(1) show ?thesis by fastforce
qed

end
