(* ===== verification/Disk_Manager.thy ===== *)
theory Disk_Manager
  imports Posix
begin

text \<open>
  \<open>src/src/storage/disk/disk_manager.h\<close> and \<open>disk_manager.cpp\<close>: the registry from \<open>FileId\<close> to an
  open descriptor and its path, and the page-granular operations over the kernel of \<open>Posix\<close>.
  An operation takes the registry and the kernel state and returns its status with the new ones;
  the outer \<open>option\<close> is \<open>None\<close> exactly when a retry or transfer loop never ends. \<open>off_t\<close> is
  a signed 64-bit integer, an \<open>int\<close> here: the bounds below keep every offset in its range.
\<close>

datatype DiskOperation =
    CREATE_FILE | OPEN_FILE | CLOSE_FILE | LOOKUP_FILE | FILE_SIZE | READ_PAGE | WRITE_PAGE
  | EXTEND_FILE | SYNC_FILE

datatype DiskErrorCode =
    DISK_NONE | INVALID_FILE_IDENTIFIER | DUPLICATE_FILE_ID | FILE_NOT_REGISTERED
  | FILE_SIZE_NOT_PAGE_ALIGNED | OFFSET_OVERFLOW | PAGE_NOT_FOUND | SHORT_READ | SYSTEM_ERROR

record DiskError =
  de_code :: DiskErrorCode
  de_operation :: DiskOperation
  de_file_id :: FileId
  de_page_no :: PageNo
  de_path :: string
  de_system_error :: int
  de_message :: string

definition default_DiskError :: DiskError where
  "default_DiskError =
     \<lparr>de_code = DISK_NONE, de_operation = LOOKUP_FILE, de_file_id = INVALID_FILE_ID,
      de_page_no = INVALID_PAGE_NO, de_path = [], de_system_error = 0, de_message = []\<rparr>"

text \<open>\<open>MakeError\<close> with its default arguments \<open>system_error = 0\<close> and
  \<open>page_no = INVALID_PAGE_NO\<close> written out at the calls.\<close>

definition MakeError :: "DiskErrorCode \<Rightarrow> DiskOperation \<Rightarrow> FileId \<Rightarrow> string \<Rightarrow> string \<Rightarrow> int \<Rightarrow>
    PageNo \<Rightarrow> DiskError" where
  "MakeError code operation fid path message system_error pno =
     \<lparr>de_code = code, de_operation = operation, de_file_id = fid, de_page_no = pno,
      de_path = path, de_system_error = system_error, de_message = message\<rparr>"

type_synonym DiskStatus = "(unit, DiskError) result"

section \<open>Kernel calls\<close>

definition PAGE_FILE_MODE :: "32 word" where "PAGE_FILE_MODE = 0x1B0"

text \<open>The C string of a path ends at its first NUL.\<close>

definition c_str :: "string \<Rightarrow> string" where
  "c_str path = takeWhile (\<lambda>c. c \<noteq> CHR 0x00) path"

definition OpenWithRetry ::
    "'k posix \<Rightarrow> string \<Rightarrow> OpenFlag list \<Rightarrow> 32 word \<Rightarrow> 'k \<Rightarrow> ((int, int) result \<times> 'k) option" where
  "OpenWithRetry os path flags mode = retry (sys_open os (c_str path) flags mode)"

definition FstatWithRetry :: "'k posix \<Rightarrow> int \<Rightarrow> 'k \<Rightarrow> ((int, int) result \<times> 'k) option" where
  "FstatWithRetry os descriptor = retry (sys_fstat os descriptor)"

definition FtruncateWithRetry :: "'k posix \<Rightarrow> int \<Rightarrow> int \<Rightarrow> 'k \<Rightarrow> ((unit, int) result \<times> 'k) option" where
  "FtruncateWithRetry os descriptor new_size = retry (sys_ftruncate os descriptor new_size)"

definition FdatasyncWithRetry :: "'k posix \<Rightarrow> int \<Rightarrow> 'k \<Rightarrow> ((unit, int) result \<times> 'k) option" where
  "FdatasyncWithRetry os descriptor = retry (sys_fdatasync os descriptor)"

text \<open>\<open>CloseDescriptor\<close> returns 0 or \<open>errno\<close>, without retrying.\<close>

definition CloseDescriptor :: "'k posix \<Rightarrow> int \<Rightarrow> 'k \<Rightarrow> int \<times> 'k" where
  "CloseDescriptor os descriptor k =
     (case sys_close os descriptor k of
        (Ok _, k) \<Rightarrow> (0, k)
      | (Unexpected e, k) \<Rightarrow> (e, k))"

definition max_off_t :: "64 word" where "max_off_t = 0x7FFFFFFFFFFFFFFF"

definition max_full_page_no :: PageNo where
  "max_full_page_no = max_off_t div of_nat PAGE_SIZE - 1"

definition PageOffset :: "PageId \<Rightarrow> string \<Rightarrow> DiskOperation \<Rightarrow> (int, DiskError) result" where
  "PageOffset page_id path operation =
     (if page_no page_id > max_full_page_no
      then Unexpected (MakeError OFFSET_OVERFLOW operation (file_id page_id) path
             ''page offset exceeds POSIX off_t range'' 0 (page_no page_id))
      else Ok (sint (page_no page_id * of_nat PAGE_SIZE)))"

section \<open>Registry entries\<close>

text \<open>A moved-from or closed entry has the descriptor \<open>-1\<close>; the destructor and the
  move assignment close only an owned descriptor.\<close>

record FileEntry =
  fe_descriptor :: int
  fe_path :: string

definition FileEntry_destroy :: "'k posix \<Rightarrow> FileEntry \<Rightarrow> 'k \<Rightarrow> 'k" where
  "FileEntry_destroy os e k =
     (if fe_descriptor e \<ge> 0 then snd (CloseDescriptor os (fe_descriptor e) k) else k)"

definition FileEntry_move :: "FileEntry \<Rightarrow> FileEntry \<times> FileEntry" where
  "FileEntry_move other = (other, \<lparr>fe_descriptor = - 1, fe_path = []\<rparr>)"

definition FileEntry_move_assign ::
    "'k posix \<Rightarrow> FileEntry \<Rightarrow> FileEntry \<Rightarrow> 'k \<Rightarrow> FileEntry \<times> FileEntry \<times> 'k" where
  "FileEntry_move_assign os this other k =
     (let k = (if fe_descriptor this \<ge> 0 then snd (CloseDescriptor os (fe_descriptor this) k) else k)
      in (other, \<lparr>fe_descriptor = - 1, fe_path = []\<rparr>, k))"

record DiskManager =
  dm_files :: "FileId \<rightharpoonup> FileEntry"

definition DiskManager_new :: DiskManager where
  "DiskManager_new = \<lparr>dm_files = Map.empty\<rparr>"

definition FindFile :: "DiskManager \<Rightarrow> FileId \<Rightarrow> FileEntry option" where
  "FindFile dm fid = dm_files dm fid"

text \<open>\<open>files_.emplace(file_id, FileEntry{descriptor, path})\<close>: the temporary is moved into the
  map and destroyed without its descriptor.\<close>

definition emplace_file :: "'k posix \<Rightarrow> FileId \<Rightarrow> int \<Rightarrow> string \<Rightarrow> DiskManager \<Rightarrow> 'k \<Rightarrow> DiskManager \<times> 'k" where
  "emplace_file os fid descriptor path dm k =
     (let (stored, moved_from) = FileEntry_move \<lparr>fe_descriptor = descriptor, fe_path = path\<rparr>
      in (dm\<lparr>dm_files := (dm_files dm)(fid \<mapsto> stored)\<rparr>, FileEntry_destroy os moved_from k))"

section \<open>Lifecycle\<close>

definition CreateFile :: "'k posix \<Rightarrow> FileId \<Rightarrow> string \<Rightarrow> DiskManager \<Rightarrow> 'k \<Rightarrow>
    (DiskStatus \<times> DiskManager \<times> 'k) option" where
  "CreateFile os fid path dm k =
     (if fid = INVALID_FILE_ID
      then Some (Unexpected (MakeError INVALID_FILE_IDENTIFIER CREATE_FILE fid path
             ''cannot register INVALID_FILE_ID'' 0 INVALID_PAGE_NO), dm, k)
      else if dm_files dm fid \<noteq> None
      then Some (Unexpected (MakeError DUPLICATE_FILE_ID CREATE_FILE fid path
             ''FileId is already registered'' 0 INVALID_PAGE_NO), dm, k)
      else do {
        (descriptor, k) \<leftarrow> OpenWithRetry os path [O_RDWR, O_CREAT, O_EXCL, O_CLOEXEC] PAGE_FILE_MODE k;
        (case descriptor of
           Unexpected system_error \<Rightarrow>
             Some (Unexpected (MakeError SYSTEM_ERROR CREATE_FILE fid path
               ''open(O_CREAT|O_EXCL) failed'' system_error INVALID_PAGE_NO), dm, k)
         | Ok descriptor \<Rightarrow> Some (Ok (), emplace_file os fid descriptor path dm k))
      })"

text \<open>\<open>status.st_size < 0 || status.st_size % PAGE_SIZE != 0\<close>.\<close>

definition size_unaligned :: "int \<Rightarrow> bool" where
  "size_unaligned st_size = (st_size < 0 \<or> st_size mod int PAGE_SIZE \<noteq> 0)"

definition OpenFile :: "'k posix \<Rightarrow> FileId \<Rightarrow> string \<Rightarrow> DiskManager \<Rightarrow> 'k \<Rightarrow>
    (DiskStatus \<times> DiskManager \<times> 'k) option" where
  "OpenFile os fid path dm k =
     (if fid = INVALID_FILE_ID
      then Some (Unexpected (MakeError INVALID_FILE_IDENTIFIER OPEN_FILE fid path
             ''cannot register INVALID_FILE_ID'' 0 INVALID_PAGE_NO), dm, k)
      else if dm_files dm fid \<noteq> None
      then Some (Unexpected (MakeError DUPLICATE_FILE_ID OPEN_FILE fid path
             ''FileId is already registered'' 0 INVALID_PAGE_NO), dm, k)
      else do {
        (descriptor, k) \<leftarrow> OpenWithRetry os path [O_RDWR, O_CLOEXEC] PAGE_FILE_MODE k;
        (case descriptor of
           Unexpected system_error \<Rightarrow>
             Some (Unexpected (MakeError SYSTEM_ERROR OPEN_FILE fid path
               ''open existing file failed'' system_error INVALID_PAGE_NO), dm, k)
         | Ok descriptor \<Rightarrow> do {
             (status, k) \<leftarrow> FstatWithRetry os descriptor k;
             (case status of
                Unexpected system_error \<Rightarrow>
                  Some (Unexpected (MakeError SYSTEM_ERROR OPEN_FILE fid path
                    ''fstat failed while opening file'' system_error INVALID_PAGE_NO), dm,
                    snd (CloseDescriptor os descriptor k))
              | Ok st_size \<Rightarrow>
                  if size_unaligned st_size
                  then Some (Unexpected (MakeError FILE_SIZE_NOT_PAGE_ALIGNED OPEN_FILE fid path
                         ''page file size is not a multiple of PAGE_SIZE'' 0 INVALID_PAGE_NO), dm,
                         snd (CloseDescriptor os descriptor k))
                  else Some (Ok (), emplace_file os fid descriptor path dm k))
           })
      })"

definition CloseFile :: "'k posix \<Rightarrow> FileId \<Rightarrow> DiskManager \<Rightarrow> 'k \<Rightarrow> DiskStatus \<times> DiskManager \<times> 'k" where
  "CloseFile os fid dm k =
     (case dm_files dm fid of
        None \<Rightarrow>
          (Unexpected (MakeError FILE_NOT_REGISTERED CLOSE_FILE fid []
             ''FileId is not registered'' 0 INVALID_PAGE_NO), dm, k)
      | Some entry \<Rightarrow>
          (let (close_error, k) = CloseDescriptor os (fe_descriptor entry) k;
               k = FileEntry_destroy os (entry\<lparr>fe_descriptor := - 1\<rparr>) k;
               dm = dm\<lparr>dm_files := (dm_files dm)(fid := None)\<rparr>
           in if close_error \<noteq> 0
              then (Unexpected (MakeError SYSTEM_ERROR CLOSE_FILE fid (fe_path entry)
                      ''close failed'' close_error INVALID_PAGE_NO), dm, k)
              else (Ok (), dm, k)))"

section \<open>Page operations\<close>

definition FileSize :: "'k posix \<Rightarrow> FileId \<Rightarrow> DiskManager \<Rightarrow> 'k \<Rightarrow>
    ((64 word, DiskError) result \<times> 'k) option" where
  "FileSize os fid dm k =
     (case FindFile dm fid of
        None \<Rightarrow>
          Some (Unexpected (MakeError FILE_NOT_REGISTERED FILE_SIZE fid []
            ''FileId is not registered'' 0 INVALID_PAGE_NO), k)
      | Some file \<Rightarrow> do {
          (status, k) \<leftarrow> FstatWithRetry os (fe_descriptor file) k;
          (case status of
             Unexpected system_error \<Rightarrow>
               Some (Unexpected (MakeError SYSTEM_ERROR FILE_SIZE fid (fe_path file)
                 ''fstat failed'' system_error INVALID_PAGE_NO), k)
           | Ok st_size \<Rightarrow>
               if size_unaligned st_size
               then Some (Unexpected (MakeError FILE_SIZE_NOT_PAGE_ALIGNED FILE_SIZE fid (fe_path file)
                      ''page file size is not a multiple of PAGE_SIZE'' 0 INVALID_PAGE_NO), k)
               else Some (Ok (of_int st_size), k))
        })"

definition PageCount :: "'k posix \<Rightarrow> FileId \<Rightarrow> DiskManager \<Rightarrow> 'k \<Rightarrow>
    ((PageNo, DiskError) result \<times> 'k) option" where
  "PageCount os fid dm k = do {
     (file_size, k) \<leftarrow> FileSize os fid dm k;
     (case file_size of
        Unexpected e \<Rightarrow> Some (Unexpected e, k)
      | Ok bytes \<Rightarrow> Some (Ok (bytes div of_nat PAGE_SIZE), k))
   }"

text \<open>The transfer loop of \<open>ReadPage\<close>: \<open>buffer\<close> is the local \<open>page\<close>.\<close>

partial_function (option) ReadPage_loop :: "'k posix \<Rightarrow> PageId \<Rightarrow> FileEntry \<Rightarrow> int \<Rightarrow> nat \<Rightarrow>
    byte list \<Rightarrow> 'k \<Rightarrow> ((byte list, DiskError) result \<times> 'k) option" where
  "ReadPage_loop os page_id file offset transferred buffer k =
     (if transferred < PAGE_SIZE then
        (case sys_pread os (fe_descriptor file) (PAGE_SIZE - transferred) (offset + int transferred) k of
           (Unexpected system_error, k) \<Rightarrow>
             if system_error = EINTR then ReadPage_loop os page_id file offset transferred buffer k
             else Some (Unexpected (MakeError SYSTEM_ERROR READ_PAGE (file_id page_id) (fe_path file)
                    ''pread failed'' system_error (page_no page_id)), k)
         | (Ok bytes, k) \<Rightarrow>
             if bytes = [] then
               Some (Unexpected (MakeError (if transferred = 0 then PAGE_NOT_FOUND else SHORT_READ)
                 READ_PAGE (file_id page_id) (fe_path file)
                 (if transferred = 0 then ''page does not exist'' else ''pread reached EOF mid-page'')
                 0 (page_no page_id)), k)
             else ReadPage_loop os page_id file offset (transferred + length bytes)
                    (put transferred bytes buffer) k)
      else Some (Ok buffer, k))"

definition ReadPage :: "'k posix \<Rightarrow> PageId \<Rightarrow> byte list \<Rightarrow> DiskManager \<Rightarrow> 'k \<Rightarrow>
    (DiskStatus \<times> byte list \<times> 'k) option" where
  "ReadPage os page_id output dm k =
     (case FindFile dm (file_id page_id) of
        None \<Rightarrow>
          Some (Unexpected (MakeError FILE_NOT_REGISTERED READ_PAGE (file_id page_id) []
            ''FileId is not registered'' 0 (page_no page_id)), output, k)
      | Some file \<Rightarrow>
          (case PageOffset page_id (fe_path file) READ_PAGE of
             Unexpected e \<Rightarrow> Some (Unexpected e, output, k)
           | Ok offset \<Rightarrow> do {
               (r, k) \<leftarrow> ReadPage_loop os page_id file offset 0 (replicate PAGE_SIZE 0) k;
               (case r of
                  Unexpected e \<Rightarrow> Some (Unexpected e, output, k)
                | Ok buffer \<Rightarrow> Some (Ok (), buffer, k))
             }))"

partial_function (option) WritePage_loop :: "'k posix \<Rightarrow> PageId \<Rightarrow> FileEntry \<Rightarrow> int \<Rightarrow> nat \<Rightarrow>
    byte list \<Rightarrow> 'k \<Rightarrow> (DiskStatus \<times> 'k) option" where
  "WritePage_loop os page_id file offset transferred data k =
     (if transferred < PAGE_SIZE then
        (case sys_pwrite os (fe_descriptor file) (drop transferred data) (offset + int transferred) k of
           (Unexpected system_error, k) \<Rightarrow>
             if system_error = EINTR then WritePage_loop os page_id file offset transferred data k
             else Some (Unexpected (MakeError SYSTEM_ERROR WRITE_PAGE (file_id page_id) (fe_path file)
                    ''pwrite failed'' system_error (page_no page_id)), k)
         | (Ok written, k) \<Rightarrow>
             if written = 0 then
               Some (Unexpected (MakeError SYSTEM_ERROR WRITE_PAGE (file_id page_id) (fe_path file)
                 ''pwrite made no progress'' EIO (page_no page_id)), k)
             else WritePage_loop os page_id file offset (transferred + written) data k)
      else Some (Ok (), k))"

definition WritePage :: "'k posix \<Rightarrow> PageId \<Rightarrow> byte list \<Rightarrow> DiskManager \<Rightarrow> 'k \<Rightarrow>
    (DiskStatus \<times> 'k) option" where
  "WritePage os page_id data dm k =
     (case FindFile dm (file_id page_id) of
        None \<Rightarrow>
          Some (Unexpected (MakeError FILE_NOT_REGISTERED WRITE_PAGE (file_id page_id) []
            ''FileId is not registered'' 0 (page_no page_id)), k)
      | Some file \<Rightarrow>
          (case PageOffset page_id (fe_path file) WRITE_PAGE of
             Unexpected e \<Rightarrow> Some (Unexpected e, k)
           | Ok offset \<Rightarrow> do {
               (page_count, k) \<leftarrow> PageCount os (file_id page_id) dm k;
               (case page_count of
                  Unexpected e \<Rightarrow>
                    Some (Unexpected (e\<lparr>de_operation := WRITE_PAGE, de_page_no := page_no page_id\<rparr>), k)
                | Ok page_count \<Rightarrow>
                    if page_no page_id \<ge> page_count
                    then Some (Unexpected (MakeError PAGE_NOT_FOUND WRITE_PAGE (file_id page_id)
                           (fe_path file) ''page does not exist; extend the file first'' 0
                           (page_no page_id)), k)
                    else WritePage_loop os page_id file offset 0 data k)
             }))"

definition ExtendFile :: "'k posix \<Rightarrow> FileId \<Rightarrow> DiskManager \<Rightarrow> 'k \<Rightarrow>
    ((PageNo, DiskError) result \<times> 'k) option" where
  "ExtendFile os fid dm k =
     (case FindFile dm fid of
        None \<Rightarrow>
          Some (Unexpected (MakeError FILE_NOT_REGISTERED EXTEND_FILE fid []
            ''FileId is not registered'' 0 INVALID_PAGE_NO), k)
      | Some file \<Rightarrow> do {
          (page_count, k) \<leftarrow> PageCount os fid dm k;
          (case page_count of
             Unexpected e \<Rightarrow> Some (Unexpected (e\<lparr>de_operation := EXTEND_FILE\<rparr>), k)
           | Ok page_count \<Rightarrow>
               if page_count > max_off_t div of_nat PAGE_SIZE - 1
               then Some (Unexpected (MakeError OFFSET_OVERFLOW EXTEND_FILE fid (fe_path file)
                      ''extended file size exceeds POSIX off_t range'' 0 INVALID_PAGE_NO), k)
               else do {
                 (truncated, k) \<leftarrow> FtruncateWithRetry os (fe_descriptor file)
                   (sint ((page_count + 1) * of_nat PAGE_SIZE)) k;
                 (case truncated of
                    Unexpected system_error \<Rightarrow>
                      Some (Unexpected (MakeError SYSTEM_ERROR EXTEND_FILE fid (fe_path file)
                        ''ftruncate failed'' system_error INVALID_PAGE_NO), k)
                  | Ok _ \<Rightarrow> Some (Ok page_count, k))
               })
        })"

definition SyncFile :: "'k posix \<Rightarrow> FileId \<Rightarrow> DiskManager \<Rightarrow> 'k \<Rightarrow> (DiskStatus \<times> 'k) option" where
  "SyncFile os fid dm k =
     (case FindFile dm fid of
        None \<Rightarrow>
          Some (Unexpected (MakeError FILE_NOT_REGISTERED SYNC_FILE fid []
            ''FileId is not registered'' 0 INVALID_PAGE_NO), k)
      | Some file \<Rightarrow> do {
          (synced, k) \<leftarrow> FdatasyncWithRetry os (fe_descriptor file) k;
          (case synced of
             Unexpected system_error \<Rightarrow>
               Some (Unexpected (MakeError SYSTEM_ERROR SYNC_FILE fid (fe_path file)
                 ''fdatasync failed'' system_error INVALID_PAGE_NO), k)
           | Ok _ \<Rightarrow> Some (Ok (), k))
        })"

end
