(* ===== verification/Disk_Kernel.thy ===== *)
theory Disk_Kernel
  imports Disk_Manager
begin

text \<open>
  What the wrappers and transfer loops of the disk manager do to the view of the kernel state:
  they always return, a retried call obeys the law of a single call, the read loop delivers the
  bytes at its offset, and the write loop replaces them.
\<close>

section \<open>Offsets\<close>

lemma max_full_page_no_value: "max_full_page_no = 1125899906842622"
  unfolding max_full_page_no_def max_off_t_def PAGE_SIZE_def by code_simp

lemma page_offset_value:
  assumes "(n :: PageNo) \<le> 1125899906842623"
  shows "unat (n * 8192) = unat n * 8192" and "sint (n * 8192) = int (unat n * 8192)"
proof -
  have n: "unat n \<le> 1125899906842623"
    using assms by (simp add: word_le_nat_alt)
  then have "unat n * unat (8192 :: 64 word) < 2 ^ LENGTH(64)" by simp
  then show u: "unat (n * 8192) = unat n * 8192"
    by (simp add: unat_word_ariths)
  have nat: "uint (n * 8192) = int (unat n * 8192)"
    using u by (metis of_nat_unat)
  from n have "unat n * 8192 < 2 ^ 63" by simp
  then have "int (unat n * 8192) < int (2 ^ 63)" by (simp only: of_nat_less_iff)
  with nat have "uint (n * 8192) < 2 ^ 63" by (simp only: of_nat_power of_nat_numeral)
  then have "signed_take_bit 63 (uint (n * 8192)) = uint (n * 8192)"
    by (intro signed_take_bit_int_eq_self) (simp_all add: order_trans[OF _ uint_ge_0])
  then show "sint (n * 8192) = int (unat n * 8192)"
    using nat by (simp only: sint_uint) simp
qed

lemma PageOffset_Ok_iff:
  "PageOffset pid path op = Ok off \<longleftrightarrow>
     unat (page_no pid) \<le> 1125899906842622 \<and> off = int (unat (page_no pid) * 8192)"
  using page_offset_value(2)[of "page_no pid"]
  by (auto simp: PageOffset_def max_full_page_no_value word_less_nat_alt word_le_nat_alt)

section \<open>Contents\<close>

lemma fd_data_set_same: "fd_data v fd = Some d' \<Longrightarrow> fd_data (set_fd_data fd d v) fd = Some d"
  by (cases "ov_fds v fd") (auto simp: fd_data_def set_fd_data_def)

lemma set_fd_data_twice: "set_fd_data fd e (set_fd_data fd d v) = set_fd_data fd e v"
  by (auto simp: set_fd_data_def split: option.splits)

lemma set_fd_data_view [simp]:
  "ov_fds (set_fd_data fd d v) = ov_fds v" "ov_names (set_fd_data fd d v) = ov_names v"
  by (auto simp: set_fd_data_def split: option.splits)

lemma set_fd_data_id: "fd_data v fd = Some d \<Longrightarrow> set_fd_data fd d v = v"
  by (cases v) (auto simp: fd_data_def set_fd_data_def map_upd_triv split: option.splits)

lemma write_at_put: "off + length bs \<le> length d \<Longrightarrow> write_at off bs d = put off bs d"
  by (simp add: write_at_def put_def)

lemma put_step:
  assumes "off + t + length (drop t data) \<le> length d" and "t + n \<le> length data"
  shows "put (off + t + n) (drop (t + n) data) (put (off + t) (take n (drop t data)) d) =
    put (off + t) (drop t data) d"
proof -
  have "take n (drop t data) @ drop (t + n) data = drop t data"
    using append_take_drop_id[of n "drop t data"] by (simp add: add.commute)
  moreover have "length (take n (drop t data)) = n" using assms by simp
  ultimately show ?thesis
    using assms put_put_adjacent[of "off + t + n" "off + t" "take n (drop t data)" "drop (t + n) data" d]
    by simp
qed

text \<open>What a page read at byte \<open>off\<close> of the contents \<open>d\<close> may answer.\<close>

definition read_outcome :: "nat \<Rightarrow> byte list \<Rightarrow> (byte list, DiskError) result \<Rightarrow> bool" where
  "read_outcome off d r =
     (case r of
        Ok bs \<Rightarrow> off + 8192 \<le> length d \<and> bs = subspan off 8192 d
      | Unexpected e \<Rightarrow>
          de_code e = SYSTEM_ERROR \<or> de_code e = PAGE_NOT_FOUND \<and> length d \<le> off \<or>
          de_code e = SHORT_READ \<and> off < length d \<and> length d < off + 8192)"

definition write_outcome ::
    "nat \<Rightarrow> byte list \<Rightarrow> int \<Rightarrow> byte list \<Rightarrow> os_view \<Rightarrow> DiskStatus \<Rightarrow> os_view \<Rightarrow> bool" where
  "write_outcome off bs fd d v r v' =
     (case r of
        Ok _ \<Rightarrow> v' = set_fd_data fd (put off bs d) v
      | Unexpected e \<Rightarrow> de_code e = SYSTEM_ERROR \<and> (\<exists>junk. length junk = length bs \<and> v' = set_fd_data fd (put off junk d) v))"

lemma write_outcome_unchanged:
  assumes "fd_data v fd = Some d" and "off + length bs \<le> length d" and "de_code e = SYSTEM_ERROR"
  shows "write_outcome off bs fd d v (Unexpected e) v"
proof -
  have "put off (subspan off (length bs) d) d = d"
    using assms(2) by (simp add: put_def subspan_def take_drop add.commute) (metis append_take_drop_id drop_drop add.commute take_drop)
  then show ?thesis using assms set_fd_data_id[OF assms(1)] length_subspan[OF assms(2)]
    by (auto simp: write_outcome_def intro!: exI[of _ "subspan off (length bs) d"])
qed

section \<open>Under the laws of the kernel\<close>

context posix_kernel
begin

lemma OpenWithRetry_returns: "\<exists>r k'. OpenWithRetry os path flags mode k = Some (r, k')"
  unfolding OpenWithRetry_def by (rule retry_returns[where m = patience]) (rule open_patience)

lemma FstatWithRetry_returns: "\<exists>r k'. FstatWithRetry os fd k = Some (r, k')"
  unfolding FstatWithRetry_def by (rule retry_returns[where m = patience]) (rule fstat_patience)

lemma FtruncateWithRetry_returns: "\<exists>r k'. FtruncateWithRetry os fd len k = Some (r, k')"
  unfolding FtruncateWithRetry_def
  by (rule retry_returns[where m = patience]) (rule ftruncate_patience)

lemma FdatasyncWithRetry_returns: "\<exists>r k'. FdatasyncWithRetry os fd k = Some (r, k')"
  unfolding FdatasyncWithRetry_def
  by (rule retry_returns[where m = patience]) (rule fdatasync_patience)

lemma create_retry:
  "OpenWithRetry os path [O_RDWR, O_CREAT, O_EXCL, O_CLOEXEC] mode k = Some (r, k') \<Longrightarrow>
   create_law (c_str path) (view k) r (view k')"
  unfolding OpenWithRetry_def
  by (erule retry_law[where view = view and L = "create_law (c_str path)"])
    (erule create_kernel, simp add: create_law_def)

lemma open_retry:
  "OpenWithRetry os path [O_RDWR, O_CLOEXEC] mode k = Some (r, k') \<Longrightarrow>
   open_law (c_str path) (view k) r (view k')"
  unfolding OpenWithRetry_def
  by (erule retry_law[where view = view and L = "open_law (c_str path)"])
    (erule open_kernel, simp add: open_law_def)

lemma fstat_retry:
  "FstatWithRetry os fd k = Some (r, k') \<Longrightarrow> fstat_law fd (view k) r (view k')"
  unfolding FstatWithRetry_def
  by (erule retry_law[where view = view and L = "fstat_law fd"]) (erule fstat_kernel, simp add: fstat_law_def)

lemma ftruncate_retry:
  "FtruncateWithRetry os fd len k = Some (r, k') \<Longrightarrow> ftruncate_law fd len (view k) r (view k')"
  unfolding FtruncateWithRetry_def
  by (erule retry_law[where view = view and L = "ftruncate_law fd len"])
    (erule ftruncate_kernel, simp add: ftruncate_law_def)

lemma fdatasync_retry: "FdatasyncWithRetry os fd k = Some (r, k') \<Longrightarrow> view k' = view k"
  unfolding FdatasyncWithRetry_def
  by (erule retry_law[where view = view and L = "\<lambda>v r v'. v' = v"]) (erule fdatasync_kernel, simp)

lemma close_descriptor:
  "CloseDescriptor os fd k = (e, k') \<Longrightarrow> view k' = (view k)\<lparr>ov_fds := (ov_fds (view k))(fd := None)\<rparr>"
  using close_kernel
  by (auto simp: CloseDescriptor_def close_law_def split: prod.splits sum.splits)

text \<open>The transfer loops.\<close>

lemma read_loop_induct:
  assumes "\<And>t buffer k.
      (\<And>k'. t < 8192 \<Longrightarrow> sys_pread os fd (8192 - t) (off + int t) k = (Unexpected EINTR, k') \<Longrightarrow>
        P t buffer k') \<Longrightarrow>
      (\<And>bs k'. t < 8192 \<Longrightarrow> sys_pread os fd (8192 - t) (off + int t) k = (Ok bs, k') \<Longrightarrow> bs \<noteq> [] \<Longrightarrow>
        P (t + length bs) (put t bs buffer) k') \<Longrightarrow> P t buffer k"
  shows "P t buffer k"
proof (induction "(t, buffer, k)" arbitrary: t buffer k
    rule: wf_induct_rule[OF wf_measures[of "[\<lambda>(t, _, _). 8192 - t, \<lambda>(_, _, k). patience k]"]])
  case (1 t buffer k)
  show ?case
    by (rule assms; rule 1) (auto dest: pread_patience simp flip: length_greater_0_conv)
qed

lemma write_loop_induct:
  assumes "\<And>t k.
      (\<And>k'. t < 8192 \<Longrightarrow> sys_pwrite os fd (drop t data) (off + int t) k = (Unexpected EINTR, k') \<Longrightarrow>
        P t k') \<Longrightarrow>
      (\<And>n k'. t < 8192 \<Longrightarrow> sys_pwrite os fd (drop t data) (off + int t) k = (Ok n, k') \<Longrightarrow> n \<noteq> 0 \<Longrightarrow>
        P (t + n) k') \<Longrightarrow> P t k"
  shows "P t k"
proof (induction "(t, k)" arbitrary: t k
    rule: wf_induct_rule[OF wf_measures[of "[\<lambda>(t, _). 8192 - t, \<lambda>(_, k). patience k]"]])
  case (1 t k)
  show ?case
    by (rule assms; rule 1) (auto dest: pwrite_patience)
qed

text \<open>The read loop leaves the view alone and either has the 8192 bytes at the offset or says
  why not.\<close>

lemma ReadPage_loop_spec:
  "\<exists>r k'. ReadPage_loop os pid file (int off) t buffer k = Some (r, k') \<and> view k' = view k \<and>
    (\<forall>d. fd_data (view k) (fe_descriptor file) = Some d \<longrightarrow> length buffer = 8192 \<longrightarrow> t \<le> 8192 \<longrightarrow>
      t = 0 \<or> off + t \<le> length d \<longrightarrow> take t buffer = subspan off t d \<longrightarrow> read_outcome off d r)"
proof (induction t buffer k
    rule: read_loop_induct[where fd = "fe_descriptor file" and off = "int off"])
  case (1 t buffer k)
  note interrupted = 1(1) and transferred = 1(2)
  obtain r k' where call:
    "sys_pread os (fe_descriptor file) (8192 - t) (int off + int t) k = (r, k')"
    by (cases "sys_pread os (fe_descriptor file) (8192 - t) (int off + int t) k")
  note law = pread_kernel[OF call]
  show ?case
  proof (cases "t < 8192")
    case False
    then show ?thesis by (subst ReadPage_loop.simps) (auto simp: read_outcome_def)
  next
    case t: True
    consider "r = Unexpected EINTR" | e where "r = Unexpected e" "e \<noteq> EINTR" | "r = Ok []"
      | bs where "r = Ok bs" "bs \<noteq> []" by (cases r) auto
    then show ?thesis
    proof cases
      case 1
      with interrupted[OF t, of k'] law show ?thesis
        by (subst ReadPage_loop.simps) (simp add: call t pread_law_def)
    next
      case 2
      then show ?thesis using law t
        by (subst ReadPage_loop.simps)
         (simp add: call pread_law_def read_outcome_def MakeError_def)
    next
      case 3
      then show ?thesis using law t
        by (subst ReadPage_loop.simps)
         (auto simp add: call pread_law_def read_outcome_def MakeError_def nat_add_distrib)
    next
      case 4
      obtain r' k'' where loop: "ReadPage_loop os pid file (int off) (t + length bs) (put t bs buffer) k' =
          Some (r', k'')" and view: "view k'' = view k'"
        and outcome: "\<And>d. fd_data (view k') (fe_descriptor file) = Some d \<Longrightarrow>
          length (put t bs buffer) = 8192 \<Longrightarrow> t + length bs \<le> 8192 \<Longrightarrow>
          t + length bs = 0 \<or> off + (t + length bs) \<le> length d \<Longrightarrow>
          take (t + length bs) (put t bs buffer) = subspan off (t + length bs) d \<Longrightarrow>
          read_outcome off d r'"
        using transferred[OF t, of bs k'] call 4 by blast
      have same: "view k' = view k" and short: "length bs \<le> 8192 - t"
        and bytes: "\<And>d. fd_data (view k) (fe_descriptor file) = Some d \<Longrightarrow>
          bs = subspan (off + t) (length bs) d"
        using law 4 by (auto simp: pread_law_def subspan_def nat_add_distrib)
      have "read_outcome off d r'"
        if d: "fd_data (view k) (fe_descriptor file) = Some d" and "length buffer = 8192"
          and "take t buffer = subspan off t d" for d
      proof (rule outcome)
        have in_file: "off + t + length bs \<le> length d"
        proof -
          have "length bs \<le> length d - (off + t)"
            using arg_cong[OF bytes[OF d], of length] by (simp add: length_subspan_min)
          with 4 show ?thesis by (cases bs) auto
        qed
        then show "t + length bs = 0 \<or> off + (t + length bs) \<le> length d" by simp
        show "take (t + length bs) (put t bs buffer) = subspan off (t + length bs) d"
          using that t short bytes[OF d] in_file
          by (simp add: put_def take_add subspan_join[symmetric])
      qed (use that same d short t in auto)
      with loop view same show ?thesis
        by (subst ReadPage_loop.simps) (simp add: call t 4)
    qed
  qed
qed

text \<open>The write loop puts the rest of the page at its place, or fails with a system error after
  having touched at most this one file.\<close>

lemma WritePage_loop_spec:
  "\<exists>r k'. WritePage_loop os pid file (int off) t data k = Some (r, k') \<and>
    (\<forall>d. fd_data (view k) (fe_descriptor file) = Some d \<longrightarrow> length data = 8192 \<longrightarrow> t \<le> 8192 \<longrightarrow>
      off + 8192 \<le> length d \<longrightarrow>
      write_outcome (off + t) (drop t data) (fe_descriptor file) d (view k) r (view k'))"
proof (induction t k
    rule: write_loop_induct[where fd = "fe_descriptor file" and off = "int off" and data = data])
  case (1 t k)
  note interrupted = 1(1) and transferred = 1(2)
  obtain r k' where call:
    "sys_pwrite os (fe_descriptor file) (drop t data) (int off + int t) k = (r, k')"
    by (cases "sys_pwrite os (fe_descriptor file) (drop t data) (int off + int t) k")
  note law = pwrite_kernel[OF call]
  show ?case
  proof (cases "t < 8192")
    case False
    then show ?thesis
      by (subst WritePage_loop.simps) (auto simp: write_outcome_def put_def set_fd_data_id)
  next
    case t: True
    consider "r = Unexpected EINTR" | e where "r = Unexpected e" "e \<noteq> EINTR" | "r = Ok 0"
      | n where "r = Ok n" "n \<noteq> 0" by (cases r) auto
    then show ?thesis
    proof cases
      case 1
      with interrupted[OF t, of k'] law show ?thesis
        by (subst WritePage_loop.simps) (simp add: call t pwrite_law_def)
    next
      case (2 e)
      have "write_outcome (off + t) (drop t data) (fe_descriptor file) d (view k) (Unexpected err) (view k')"
        if d: "fd_data (view k) (fe_descriptor file) = Some d" and fits: "length data = 8192" "off + 8192 \<le> length d"
          and err: "de_code err = SYSTEM_ERROR" for d err
      proof (cases "view k' = view k")
        case True
        then show ?thesis using write_outcome_unchanged[OF d _ err] that t by simp
      next
        case False
        have pos: "0 \<le> int off + int t" "nat (int off + int t) = off + t" by (simp_all add: nat_add_distrib)
        have "off + t + length (drop t data) \<le> length d" using fits t by simp
        then have "\<exists>d'. view k' = set_fd_data (fe_descriptor file) d' (view k) \<and>
            (\<exists>junk. length junk = length (drop t data) \<and> d' = write_at (off + t) junk d)"
          using law[unfolded 2(1) pwrite_law_def sum.simps(5) pos(2)]
        proof (elim disjE conjE exE)
          fix d' assume d': "view k' = set_fd_data (fe_descriptor file) d' (view k)"
            and "\<forall>d. fd_data (view k) (fe_descriptor file) = Some d \<and> 0 \<le> int off + int t \<and>
              off + t + length (drop t data) \<le> length d \<longrightarrow>
              (\<exists>junk. length junk = length (drop t data) \<and> d' = write_at (off + t) junk d)"
            and "off + t + length (drop t data) \<le> length d"
          then have "\<exists>junk. length junk = length (drop t data) \<and> d' = write_at (off + t) junk d" using d pos(1) by blast
          with d' show ?thesis by blast
        qed (use False in blast)
        then show ?thesis using fits err t by (auto simp: write_outcome_def write_at_put)
      qed
      then show ?thesis using 2 t
        by (subst WritePage_loop.simps) (simp add: call MakeError_def)
    next
      case 3
      have "write_outcome (off + t) (drop t data) (fe_descriptor file) d (view k) (Unexpected err) (view k')"
        if d: "fd_data (view k) (fe_descriptor file) = Some d" and fits: "length data = 8192" "off + 8192 \<le> length d"
          and err: "de_code err = SYSTEM_ERROR" for d err
      proof -
        have "view k' = view k"
          using law 3 that t set_fd_data_id[OF d] by (auto simp: pwrite_law_def nat_add_distrib write_at_def)
        then show ?thesis using write_outcome_unchanged[OF d _ err] that t by simp
      qed
      then show ?thesis using 3 t
        by (subst WritePage_loop.simps) (simp add: call MakeError_def)
    next
      case 4
      obtain r' k'' where loop: "WritePage_loop os pid file (int off) (t + n) data k' = Some (r', k'')"
        and outcome: "\<And>d. fd_data (view k') (fe_descriptor file) = Some d \<Longrightarrow> length data = 8192 \<Longrightarrow>
          t + n \<le> 8192 \<Longrightarrow> off + 8192 \<le> length d \<Longrightarrow>
          write_outcome (off + (t + n)) (drop (t + n) data) (fe_descriptor file) d (view k') r' (view k'')"
        using transferred[OF t, of n k'] call 4 by blast
      have "write_outcome (off + t) (drop t data) (fe_descriptor file) d (view k) r' (view k'')"
        if d: "fd_data (view k) (fe_descriptor file) = Some d" and data: "length data = 8192"
          and fits: "off + 8192 \<le> length d" for d
      proof -
        let ?d = "put (off + t) (take n (drop t data)) d"
        have n: "n \<le> 8192 - t" and k': "view k' = set_fd_data (fe_descriptor file) ?d (view k)"
          using law 4 d t data fits
          by (auto simp: pwrite_law_def nat_add_distrib write_at_put)
        have "write_outcome (off + (t + n)) (drop (t + n) data) (fe_descriptor file) ?d (view k') r' (view k'')"
          by (rule outcome) (use d data fits n t k' fd_data_set_same in auto)
        then consider "r' = Ok ()" "view k'' = set_fd_data (fe_descriptor file) (put (off + (t + n)) (drop (t + n) data) ?d) (view k')"
          | e junk where "r' = Unexpected e" "de_code e = SYSTEM_ERROR" "length junk = 8192 - (t + n)"
            "view k'' = set_fd_data (fe_descriptor file) (put (off + (t + n)) junk ?d) (view k')"
          using data by (cases r') (auto simp: write_outcome_def)
        then show ?thesis
        proof cases
          case 1
          then show ?thesis using put_step[of off t data d n] data fits n t
            by (simp add: write_outcome_def k' set_fd_data_twice add.assoc)
        next
          case (2 e junk)
          have len: "length (take n (drop t data)) = n" using data n by simp
          have "put (off + (t + n)) junk ?d = put (off + t) (take n (drop t data) @ junk) d"
            using put_put_adjacent[of "off + (t + n)" "off + t" "take n (drop t data)" junk d] len 2(3) fits n t
            by (simp add: add.assoc)
          then show ?thesis using 2 len n data
            by (auto simp: write_outcome_def k' set_fd_data_twice intro!: exI[of _ "take n (drop t data) @ junk"])
        qed
      qed
      with loop show ?thesis
        by (subst WritePage_loop.simps) (simp add: call t 4)
    qed
  qed
qed

end

end
