(* ===== verification/Disk_Spec.thy ===== *)
theory Disk_Spec
  imports Disk_Kernel
begin

text \<open>
  What the operations of the disk manager promise, stated on the pages of the registered files:
  the registry invariant \<open>disk_ok\<close>, the page \<open>disk_page\<close> a \<open>PageId\<close> denotes, and one
  specification per operation.
\<close>

definition file_data :: "DiskManager \<Rightarrow> os_view \<Rightarrow> FileId \<Rightarrow> byte list option" where
  "file_data dm v fid = Option.bind (dm_files dm fid) (\<lambda>e. fd_data v (fe_descriptor e))"

definition file_inode :: "DiskManager \<Rightarrow> os_view \<Rightarrow> FileId \<Rightarrow> nat option" where
  "file_inode dm v fid = Option.bind (dm_files dm fid) (\<lambda>e. ov_fds v (fe_descriptor e))"

definition page_at :: "byte list \<Rightarrow> nat \<Rightarrow> byte list option" where
  "page_at d n = (if n * 8192 + 8192 \<le> length d then Some (subspan (n * 8192) 8192 d) else None)"

definition disk_page :: "DiskManager \<Rightarrow> os_view \<Rightarrow> PageId \<Rightarrow> byte list option" where
  "disk_page dm v pid = Option.bind (file_data dm v (file_id pid)) (\<lambda>d. page_at d (unat (page_no pid)))"

definition view_ok :: "os_view \<Rightarrow> bool" where
  "view_ok v = ((\<forall>fd i. ov_fds v fd = Some i \<longrightarrow> ov_data v i \<noteq> None) \<and>
    (\<forall>path i. ov_names v path = Some i \<longrightarrow> ov_data v i \<noteq> None))"

definition disk_ok :: "DiskManager \<Rightarrow> os_view \<Rightarrow> bool" where
  "disk_ok dm v =
     (view_ok v \<and> dm_files dm INVALID_FILE_ID = None \<and>
      (\<forall>fid e. dm_files dm fid = Some e \<longrightarrow>
        0 \<le> fe_descriptor e \<and> ov_fds v (fe_descriptor e) \<noteq> None) \<and>
      (\<forall>fid e fid' e'. dm_files dm fid = Some e \<longrightarrow> dm_files dm fid' = Some e' \<longrightarrow>
        fe_descriptor e = fe_descriptor e' \<longrightarrow> fid = fid'))"

section \<open>Pages of a byte sequence\<close>

lemma page_at_put:
  assumes "n * 8192 + 8192 \<le> length d" and "length data = 8192"
  shows "page_at (put (n * 8192) data d) m = (if m = n then Some data else page_at d m)"
proof -
  have len: "length (put (n * 8192) data d) = length d"
    by (rule length_put) (use assms in linarith)
  show ?thesis
  proof (cases "m = n")
    case True
    have "subspan (n * 8192) 8192 (put (n * 8192) data d) = data"
      by (rule subspan_put_eq) (use assms in linarith)+
    with True assms(1) show ?thesis unfolding page_at_def len
      by (simp only: if_True refl simp_thms)
  next
    case False
    have "subspan (m * 8192) 8192 (put (n * 8192) data d) = subspan (m * 8192) 8192 d"
      if "m * 8192 + 8192 \<le> length d"
    proof (rule subspan_put_other)
      from False have "m + 1 \<le> n \<or> n + 1 \<le> m" by arith
      then show "m * 8192 + 8192 \<le> n * 8192 \<or> n * 8192 + length data \<le> m * 8192"
        unfolding assms(2) by arith
    qed (use assms that in linarith)+
    then show ?thesis using False unfolding page_at_def len by (simp only: if_False cong: if_cong)
  qed
qed

lemma page_at_grow:
  assumes "length d = n * 8192"
  shows "page_at (resize (length d + 8192) d) m =
    (if m = n then Some (replicate 8192 0) else page_at d m)"
proof -
  have "m < n \<or> m = n \<or> n < m" by arith
  with assms show ?thesis
    by (auto simp: page_at_def resize_def subspan_append_right)
qed

lemma view_ok_set [simp]: "view_ok v \<Longrightarrow> view_ok (set_fd_data fd d v)"
  by (auto simp: view_ok_def set_fd_data_def split: option.splits)

lemma disk_ok_set [simp]: "disk_ok dm v \<Longrightarrow> disk_ok dm (set_fd_data fd d v)"
  by (simp add: disk_ok_def)

lemma disk_ok_file: "disk_ok dm v \<Longrightarrow> dm_files dm fid = Some e \<Longrightarrow>
    0 \<le> fe_descriptor e \<and> (\<exists>d. fd_data v (fe_descriptor e) = Some d \<and> file_data dm v fid = Some d)"
  by (fastforce simp: disk_ok_def view_ok_def fd_data_def file_data_def)

text \<open>Changing one file changes the pages of the file ids that share it, and no others.\<close>

lemma fd_data_set:
  assumes "fd_data v fd = Some d0"
  shows "fd_data (set_fd_data fd d v) fd' = (if ov_fds v fd' = ov_fds v fd then Some d else fd_data v fd')"
  using assms by (cases "ov_fds v fd") (auto simp: fd_data_def set_fd_data_def split: Option.bind_splits)

lemma file_data_set:
  assumes "dm_files dm fid = Some e" and "fd_data v (fe_descriptor e) = Some d0"
  shows "file_data dm (set_fd_data (fe_descriptor e) d v) fid' =
    (if file_inode dm v fid' = file_inode dm v fid then Some d else file_data dm v fid')"
  using assms fd_data_set[OF assms(2), of d]
  by (cases "dm_files dm fid'") (auto simp: file_data_def file_inode_def fd_data_def[of v])

lemma file_inode_set [simp]: "file_inode dm (set_fd_data fd d v) = file_inode dm v"
  by (simp add: file_inode_def fun_eq_iff)

lemma same_inode_data:
  "file_inode dm v fid' = file_inode dm v fid \<Longrightarrow> file_data dm v fid \<noteq> None \<Longrightarrow>
   file_data dm v fid' = file_data dm v fid"
  by (auto simp: file_data_def file_inode_def fd_data_def split: Option.bind_splits)

text \<open>A page write, seen on the files.\<close>

definition page_written :: "PageId \<Rightarrow> byte list \<Rightarrow> DiskManager \<Rightarrow> os_view \<Rightarrow> os_view \<Rightarrow> bool" where
  "page_written pid data dm v v' =
     (\<exists>e d. dm_files dm (file_id pid) = Some e \<and> fd_data v (fe_descriptor e) = Some d \<and>
       unat (page_no pid) * 8192 + 8192 \<le> length d \<and>
       v' = set_fd_data (fe_descriptor e) (put (unat (page_no pid) * 8192) data d) v)"

text \<open>A file that grew by one page of zeros.\<close>

definition file_extended :: "FileId \<Rightarrow> PageNo \<Rightarrow> DiskManager \<Rightarrow> os_view \<Rightarrow> os_view \<Rightarrow> bool" where
  "file_extended fid n dm v v' =
     (\<exists>e d. dm_files dm fid = Some e \<and> fd_data v (fe_descriptor e) = Some d \<and>
       length d = unat n * 8192 \<and> unat n < 1125899906842623 \<and>
       v' = set_fd_data (fe_descriptor e) (resize (length d + 8192) d) v)"

text \<open>A page whose bytes an unsuccessful write may have changed: no other page of the file has changed.\<close>

definition page_torn :: "PageId \<Rightarrow> DiskManager \<Rightarrow> os_view \<Rightarrow> os_view \<Rightarrow> bool" where
  "page_torn pid dm v v' = (\<exists>junk. length junk = 8192 \<and> page_written pid junk dm v v')"

text \<open>A file id that became registered, with the contents \<open>d\<close>, and one that was released.\<close>

definition file_registered :: "FileId \<Rightarrow> string \<Rightarrow> byte list \<Rightarrow> DiskManager \<Rightarrow> os_view \<Rightarrow> DiskManager \<Rightarrow>
    os_view \<Rightarrow> bool" where
  "file_registered fid path d dm v dm' v' =
     (fid \<noteq> INVALID_FILE_ID \<and> dm_files dm fid = None \<and>
      (\<exists>fd. 0 \<le> fd \<and> ov_fds v fd = None \<and>
        dm' = dm\<lparr>dm_files := (dm_files dm)(fid \<mapsto> \<lparr>fe_descriptor = fd, fe_path = path\<rparr>)\<rparr> \<and>
        fd_data v' fd = Some d \<and> (\<exists>i. ov_fds v' = (ov_fds v)(fd \<mapsto> i) \<and>
          ov_names v' = (ov_names v)(c_str path \<mapsto> i) \<and>
          (\<forall>i'. ov_data v i' \<noteq> None \<longrightarrow> ov_data v' i' = ov_data v i') \<and> (view_ok v \<longrightarrow> view_ok v'))))"

definition file_closed :: "FileId \<Rightarrow> DiskManager \<Rightarrow> os_view \<Rightarrow> DiskManager \<Rightarrow> os_view \<Rightarrow> bool" where
  "file_closed fid dm v dm' v' =
     (\<exists>e. dm_files dm fid = Some e \<and> dm' = dm\<lparr>dm_files := (dm_files dm)(fid := None)\<rparr> \<and>
       v' = v\<lparr>ov_fds := (ov_fds v)(fe_descriptor e := None)\<rparr>)"

lemma emplace_file_eq [simp]:
  "emplace_file os fid fd path dm k =
     (dm\<lparr>dm_files := (dm_files dm)(fid \<mapsto> \<lparr>fe_descriptor = fd, fe_path = path\<rparr>)\<rparr>, k)"
  by (simp add: emplace_file_def FileEntry_move_def FileEntry_destroy_def)

section \<open>Specifications\<close>

context posix_kernel
begin

lemma FileSize_spec:
  "\<exists>r k'. FileSize os fid dm k = Some (r, k') \<and> view k' = view k \<and>
    (\<forall>n. r = Ok n \<longrightarrow> disk_ok dm (view k) \<longrightarrow>
      (\<exists>d. file_data dm (view k) fid = Some d \<and> length d = unat n \<and> 8192 dvd length d \<and> length d < 2 ^ 63))"
proof (cases "FindFile dm fid")
  case None
  then show ?thesis by (simp add: FileSize_def)
next
  case (Some f)
  then have reg: "dm_files dm fid = Some f" by (simp add: FindFile_def)
  obtain r k' where call: "FstatWithRetry os (fe_descriptor f) k = Some (r, k')"
    using FstatWithRetry_returns by blast
  note law = fstat_retry[OF call]
  show ?thesis
  proof (cases r)
    case (Inl e)
    then show ?thesis using law by (simp add: FileSize_def Some call fstat_law_def)
  next
    case (Inr st)
    show ?thesis
    proof (cases "size_unaligned st")
      case True
      then show ?thesis using law Inr by (simp add: FileSize_def Some call fstat_law_def)
    next
      case False
      have "\<exists>d. file_data dm (view k) fid = Some d \<and> length d = unat (of_int st :: 64 word) \<and>
          8192 dvd length d \<and> length d < 2 ^ 63" if "disk_ok dm (view k)"
      proof -
        from disk_ok_file[OF that reg] obtain d where d: "fd_data (view k) (fe_descriptor f) = Some d"
          "file_data dm (view k) fid = Some d" by blast
        with law Inr have st: "st = int (length d)" and "st < 2 ^ 63" by (auto simp: fstat_law_def)
        then have bound: "length d < 2 ^ 63" by (metis of_nat_less_iff of_nat_numeral of_nat_power)
        moreover from this have "unat (of_nat (length d) :: 64 word) = length d"
          by (intro unat_of_nat_64) simp
        moreover from False st have "8192 dvd length d"
          by (simp add: size_unaligned_def flip: of_nat_mod) presburger
        ultimately show ?thesis using d st by simp
      qed
      then show ?thesis using law Inr False by (simp add: FileSize_def Some call fstat_law_def)
    qed
  qed
qed

lemma PageCount_spec:
  "\<exists>r k'. PageCount os fid dm k = Some (r, k') \<and> view k' = view k \<and>
    (\<forall>n. r = Ok n \<longrightarrow> disk_ok dm (view k) \<longrightarrow>
      (\<exists>d. file_data dm (view k) fid = Some d \<and> length d = unat n * 8192 \<and> unat n < 2 ^ 50))"
proof -
  obtain r k' where call: "FileSize os fid dm k = Some (r, k')" and view: "view k' = view k"
    and size: "\<And>n. r = Ok n \<Longrightarrow> disk_ok dm (view k) \<Longrightarrow>
      \<exists>d. file_data dm (view k) fid = Some d \<and> length d = unat n \<and> 8192 dvd length d \<and> length d < 2 ^ 63"
    using FileSize_spec by blast
  show ?thesis
  proof (cases r)
    case (Inl e)
    then show ?thesis by (simp add: PageCount_def call view)
  next
    case (Inr n)
    have "\<exists>d. file_data dm (view k) fid = Some d \<and> length d = unat (n div 8192) * 8192 \<and>
        unat (n div 8192) < 2 ^ 50" if "disk_ok dm (view k)"
    proof -
      from size[OF Inr that] obtain d where d: "file_data dm (view k) fid = Some d" "length d = unat n"
        "8192 dvd length d" "length d < 2 ^ 63" by blast
      have "unat (n div 8192) = length d div 8192" by (simp add: d(2) unat_div)
      with d show ?thesis by auto
    qed
    then show ?thesis by (simp add: PageCount_def call view Inr)
  qed
qed

lemma ReadPage_spec:
  "\<exists>r out k'. ReadPage os pid output dm k = Some (r, out, k') \<and> view k' = view k \<and>
    (\<forall>e. r = Unexpected e \<longrightarrow> out = output) \<and>
    (disk_ok dm (view k) \<longrightarrow>
      (\<forall>u. r = Ok u \<longrightarrow> disk_page dm (view k) pid = Some out) \<and>
      (\<forall>e. r = Unexpected e \<and> (de_code e = PAGE_NOT_FOUND \<or> de_code e = SHORT_READ) \<longrightarrow>
        disk_page dm (view k) pid = None))"
proof (cases "FindFile dm (file_id pid)")
  case None
  then show ?thesis by (simp add: ReadPage_def MakeError_def)
next
  case (Some f)
  then have reg: "dm_files dm (file_id pid) = Some f" by (simp add: FindFile_def)
  show ?thesis
  proof (cases "PageOffset pid (fe_path f) READ_PAGE")
    case (Inl e)
    then have "de_code e = OFFSET_OVERFLOW" by (auto simp: PageOffset_def MakeError_def split: if_splits)
    with Inl show ?thesis by (simp add: ReadPage_def Some)
  next
    case (Inr off)
    then have off: "off = int (unat (page_no pid) * 8192)" by (simp add: PageOffset_Ok_iff)
    obtain r k' where loop: "ReadPage_loop os pid f (int (unat (page_no pid) * 8192)) 0 (replicate 8192 0) k =
        Some (r, k')" and view: "view k' = view k"
      and outcome: "\<And>d. fd_data (view k) (fe_descriptor f) = Some d \<Longrightarrow>
        read_outcome (unat (page_no pid) * 8192) d r"
      using ReadPage_loop_spec[of pid f "unat (page_no pid) * 8192" 0 "replicate 8192 0" k]
      by (auto simp: subspan_def)
    have contents: "\<exists>d. file_data dm (view k) (file_id pid) = Some d \<and>
        read_outcome (unat (page_no pid) * 8192) d r" if "disk_ok dm (view k)"
      using disk_ok_file[OF that reg] outcome by blast
    show ?thesis
    proof (cases r)
      case (Inl e)
      with contents show ?thesis
        by (simp add: ReadPage_def Some Inr off loop view del: of_nat_mult)
          (fastforce simp: read_outcome_def disk_page_def page_at_def)
    next
      case (Inr bs)
      with contents show ?thesis
        by (simp add: ReadPage_def Some \<open>PageOffset pid (fe_path f) READ_PAGE = Ok off\<close> off loop view
            del: of_nat_mult)
          (fastforce simp: read_outcome_def disk_page_def page_at_def)
    qed
  qed
qed

lemma WritePage_spec:
  "\<exists>r k'. WritePage os pid data dm k = Some (r, k') \<and>
    (disk_ok dm (view k) \<longrightarrow> length data = 8192 \<longrightarrow>
      (case r of
         Ok _ \<Rightarrow> page_written pid data dm (view k) (view k')
       | Unexpected e \<Rightarrow> view k' = view k \<or>
           de_code e = SYSTEM_ERROR \<and> page_torn pid dm (view k) (view k')))"
proof (cases "FindFile dm (file_id pid)")
  case None
  then show ?thesis by (simp add: WritePage_def)
next
  case (Some f)
  then have reg: "dm_files dm (file_id pid) = Some f" by (simp add: FindFile_def)
  show ?thesis
  proof (cases "PageOffset pid (fe_path f) WRITE_PAGE")
    case (Inl e)
    then show ?thesis by (simp add: WritePage_def Some)
  next
    case offset: (Inr off)
    then have off: "off = int (unat (page_no pid) * 8192)" by (simp add: PageOffset_Ok_iff)
    obtain c k1 where count: "PageCount os (file_id pid) dm k = Some (c, k1)" and view1: "view k1 = view k"
      and pages: "\<And>n. c = Ok n \<Longrightarrow> disk_ok dm (view k) \<Longrightarrow>
        \<exists>d. file_data dm (view k) (file_id pid) = Some d \<and> length d = unat n * 8192"
      using PageCount_spec by blast
    show ?thesis
    proof (cases "\<exists>n. c = Ok n \<and> page_no pid < n")
      case False
      then show ?thesis
        by (cases c) (auto simp: WritePage_def Some offset count view1 not_less)
    next
      case True
      then obtain n where c: "c = Ok n" and lt: "unat (page_no pid) < unat n"
        by (auto simp: word_less_nat_alt)
      obtain r k' where loop: "WritePage_loop os pid f (int (unat (page_no pid) * 8192)) 0 data k1 = Some (r, k')"
        and outcome: "\<And>d. fd_data (view k1) (fe_descriptor f) = Some d \<Longrightarrow> length data = 8192 \<Longrightarrow>
          unat (page_no pid) * 8192 + 8192 \<le> length d \<Longrightarrow>
          write_outcome (unat (page_no pid) * 8192) data (fe_descriptor f) d (view k1) r (view k')"
        using WritePage_loop_spec[of pid f "unat (page_no pid) * 8192" 0 data k1] by auto
      have fits: "\<exists>d. fd_data (view k) (fe_descriptor f) = Some d \<and> unat (page_no pid) * 8192 + 8192 \<le> length d"
        if "disk_ok dm (view k)"
        using pages[OF c that] disk_ok_file[OF that reg] lt by auto
      then have "case r of
         Ok _ \<Rightarrow> page_written pid data dm (view k) (view k')
       | Unexpected e \<Rightarrow> view k' = view k \<or>
           de_code e = SYSTEM_ERROR \<and> page_torn pid dm (view k) (view k')"
        if "disk_ok dm (view k)" and "length data = 8192"
      proof -
        from fits[OF that(1)] obtain d where d: "fd_data (view k) (fe_descriptor f) = Some d"
            "unat (page_no pid) * 8192 + 8192 \<le> length d" by blast
        then show ?thesis using outcome[unfolded view1, OF d(1) that(2) d(2)] reg that(2)
          by (cases r) (auto simp: write_outcome_def page_written_def page_torn_def)
      qed
      moreover have "WritePage os pid data dm k = Some (r, k')"
        using lt by (simp add: WritePage_def Some offset off count c loop word_less_nat_alt word_le_nat_alt
            del: of_nat_mult)
      ultimately show ?thesis by blast
    qed
  qed
qed

lemma ExtendFile_spec:
  "\<exists>r k'. ExtendFile os fid dm k = Some (r, k') \<and>
    (disk_ok dm (view k) \<longrightarrow>
      (case r of
         Ok n \<Rightarrow> file_extended fid n dm (view k) (view k')
       | Unexpected e \<Rightarrow> view k' = view k))"
proof (cases "FindFile dm fid")
  case None
  then show ?thesis by (simp add: ExtendFile_def)
next
  case (Some f)
  then have reg: "dm_files dm fid = Some f" by (simp add: FindFile_def)
  obtain c k1 where count: "PageCount os fid dm k = Some (c, k1)" and view1: "view k1 = view k"
    and pages: "\<And>n. c = Ok n \<Longrightarrow> disk_ok dm (view k) \<Longrightarrow>
      \<exists>d. file_data dm (view k) fid = Some d \<and> length d = unat n * 8192"
    using PageCount_spec by blast
  have limit: "max_off_t div of_nat PAGE_SIZE - 1 = 1125899906842622"
    using max_full_page_no_value by (simp add: max_full_page_no_def)
  show ?thesis
  proof (cases "\<exists>n. c = Ok n \<and> n \<le> 1125899906842622")
    case False
    then show ?thesis
      by (cases c) (auto simp: ExtendFile_def Some count view1 limit not_le simp del: PAGE_SIZE_def)
  next
    case True
    then obtain n where c: "c = Ok n" and n: "unat n \<le> 1125899906842622" and small: "n \<le> 1125899906842622"
      by (auto simp: word_le_nat_alt)
    have succ: "unat (n + 1) = unat n + 1"
      using n by (simp add: unat_word_ariths)
    then have size: "sint ((n + 1) * 8192) = int ((unat n + 1) * 8192)"
      using n page_offset_value(2)[of "n + 1"] by (simp add: word_le_nat_alt)
    obtain r k' where call:
      "FtruncateWithRetry os (fe_descriptor f) (sint ((n + 1) * of_nat PAGE_SIZE)) k1 = Some (r, k')"
      using FtruncateWithRetry_returns by blast
    have ext: "ExtendFile os fid dm k =
        Some (case r of Unexpected e \<Rightarrow> Unexpected (MakeError SYSTEM_ERROR EXTEND_FILE fid (fe_path f)
          ''ftruncate failed'' e INVALID_PAGE_NO) | Ok _ \<Rightarrow> Ok n, k')"
      using small
      by (simp add: ExtendFile_def Some count c limit call leD del: PAGE_SIZE_def split: sum.splits)
    have law: "ftruncate_law (fe_descriptor f) (int ((unat n + 1) * 8192)) (view k1) r (view k')"
      using ftruncate_retry[OF call] size by (simp only: PAGE_SIZE_def of_nat_numeral)
    have "case r of Ok _ \<Rightarrow> file_extended fid n dm (view k) (view k') | Unexpected e \<Rightarrow> view k' = view k"
      if "disk_ok dm (view k)"
    proof -
      from disk_ok_file[OF that reg] pages[OF c that] obtain d
        where d: "fd_data (view k) (fe_descriptor f) = Some d" "length d = unat n * 8192" by auto
      then have grown: "(unat n + 1) * 8192 = length d + 8192" by simp
      show ?thesis
        using law[unfolded grown] d reg n
        by (cases r) (auto simp: ftruncate_law_def file_extended_def view1
            simp del: of_nat_mult of_nat_add)
    qed
    with ext show ?thesis by (auto split: sum.splits)
  qed
qed

lemma create_registers:
  assumes "create_law (c_str path) v (Ok fd) v'" and "fid \<noteq> INVALID_FILE_ID" and "dm_files dm fid = None"
  shows "file_registered fid path [] dm v
    (dm\<lparr>dm_files := (dm_files dm)(fid \<mapsto> \<lparr>fe_descriptor = fd, fe_path = path\<rparr>)\<rparr>) v'"
proof -
  from assms(1) obtain i where i: "0 \<le> fd" "ov_fds v fd = None" "ov_data v i = None"
    and v': "v' = v\<lparr>ov_names := (ov_names v)(c_str path \<mapsto> i), ov_data := (ov_data v)(i \<mapsto> []),
      ov_fds := (ov_fds v)(fd \<mapsto> i)\<rparr>" by (auto simp: create_law_def)
  then have "fd_data v' fd = Some []" by (simp add: fd_data_def)
  moreover have "view_ok v \<longrightarrow> view_ok v'" by (auto simp: v' view_ok_def)
  moreover have "\<forall>i'. ov_data v i' \<noteq> None \<longrightarrow> ov_data v' i' = ov_data v i'" using i by (auto simp: v')
  ultimately show ?thesis
    unfolding file_registered_def using assms i
    by (intro conjI exI[of _ fd] exI[of _ i]) (simp_all add: v')
qed

lemma CreateFile_spec:
  "\<exists>r dm' k'. CreateFile os fid path dm k = Some (r, dm', k') \<and>
    (case r of
       Ok _ \<Rightarrow> file_registered fid path [] dm (view k) dm' (view k')
     | Unexpected e \<Rightarrow> dm' = dm \<and> view k' = view k)"
proof (cases "fid = INVALID_FILE_ID \<or> dm_files dm fid \<noteq> None")
  case True
  then show ?thesis by (auto simp: CreateFile_def)
next
  case False
  obtain r k' where call:
    "OpenWithRetry os path [O_RDWR, O_CREAT, O_EXCL, O_CLOEXEC] PAGE_FILE_MODE k = Some (r, k')"
    using OpenWithRetry_returns by blast
  from create_retry[OF call] create_registers[of path "view k" _ "view k'" fid dm] False
  show ?thesis
    by (cases r) (auto simp: CreateFile_def call create_law_def[of _ _ "Unexpected _"])
qed

lemma open_registers:
  assumes "open_law (c_str path) v (Ok fd) v'" and "fid \<noteq> INVALID_FILE_ID" and "dm_files dm fid = None"
    and "fd_data v' fd = Some d"
  shows "file_registered fid path d dm v
    (dm\<lparr>dm_files := (dm_files dm)(fid \<mapsto> \<lparr>fe_descriptor = fd, fe_path = path\<rparr>)\<rparr>) v'"
proof -
  from assms(1) obtain i where i: "0 \<le> fd" "ov_fds v fd = None" "ov_names v (c_str path) = Some i"
    and v': "v' = v\<lparr>ov_fds := (ov_fds v)(fd \<mapsto> i)\<rparr>" by (auto simp: open_law_def)
  moreover have "view_ok v \<longrightarrow> view_ok v'" using i by (auto simp: v' view_ok_def)
  ultimately show ?thesis
    unfolding file_registered_def using assms
    by (intro conjI exI[of _ fd] exI[of _ i]) (simp_all add: v' map_upd_triv)
qed

lemma open_close_view:
  "open_law path v (Ok fd) v' \<Longrightarrow> v'\<lparr>ov_fds := (ov_fds v')(fd := None)\<rparr> = v"
  by (auto simp: open_law_def fun_upd_idem)

lemma OpenFile_spec:
  "\<exists>r dm' k'. OpenFile os fid path dm k = Some (r, dm', k') \<and>
    (case r of
       Ok _ \<Rightarrow> view_ok (view k) \<longrightarrow>
         ov_names (view k') = ov_names (view k) \<and> ov_data (view k') = ov_data (view k) \<and>
         (\<exists>d. 8192 dvd length d \<and> file_registered fid path d dm (view k) dm' (view k'))
     | Unexpected e \<Rightarrow> dm' = dm \<and> view k' = view k)"
proof (cases "fid = INVALID_FILE_ID \<or> dm_files dm fid \<noteq> None")
  case True
  then show ?thesis by (auto simp: OpenFile_def)
next
  case False
  obtain r k1 where call: "OpenWithRetry os path [O_RDWR, O_CLOEXEC] PAGE_FILE_MODE k = Some (r, k1)"
    using OpenWithRetry_returns by blast
  note law = open_retry[OF call]
  show ?thesis
  proof (cases r)
    case (Inl e)
    then show ?thesis using law False by (auto simp: OpenFile_def call open_law_def)
  next
    case r: (Inr fd)
    obtain st k2 where stat: "FstatWithRetry os fd k1 = Some (st, k2)"
      using FstatWithRetry_returns by blast
    note fstat = fstat_retry[OF stat]
    have view2: "view k2 = view k1" using fstat by (simp add: fstat_law_def)
    have closed: "view (snd (CloseDescriptor os fd k2)) = view k"
      using close_descriptor[of fd k2] open_close_view[OF law[unfolded r]] view2
      by (metis prod.collapse)
    show ?thesis
    proof (cases st)
      case (Inl e)
      then show ?thesis using False closed by (auto simp: OpenFile_def call r stat)
    next
      case (Inr n)
      show ?thesis
      proof (cases "size_unaligned n")
        case True
        then show ?thesis using False closed Inr by (auto simp: OpenFile_def call r stat)
      next
        case aligned: False
        have "\<exists>d. 8192 dvd length d \<and> file_registered fid path d dm (view k)
            (dm\<lparr>dm_files := (dm_files dm)(fid \<mapsto> \<lparr>fe_descriptor = fd, fe_path = path\<rparr>)\<rparr>) (view k2)"
          if ok: "view_ok (view k)"
        proof -
          from law r ok obtain d where d: "fd_data (view k1) fd = Some d"
            by (fastforce simp: open_law_def view_ok_def fd_data_def)
          with fstat Inr have "n = int (length d)" by (simp add: fstat_law_def)
          with aligned have "8192 dvd length d"
            by (simp add: size_unaligned_def flip: of_nat_mod) presburger
          with d law r False view2 show ?thesis by (auto intro!: open_registers)
        qed
        moreover have "ov_names (view k2) = ov_names (view k)" "ov_data (view k2) = ov_data (view k)"
          using law view2 by (auto simp: r open_law_def)
        ultimately show ?thesis using False aligned Inr by (auto simp: OpenFile_def call r stat)
      qed
    qed
  qed
qed

lemma CloseFile_spec:
  "CloseFile os fid dm k = (r, dm', k') \<Longrightarrow>
    (if dm_files dm fid = None then dm' = dm \<and> k' = k \<and> (\<exists>e. r = Unexpected e)
     else file_closed fid dm (view k) dm' (view k'))"
  using close_descriptor
  by (cases "dm_files dm fid")
    (auto simp: CloseFile_def file_closed_def FileEntry_destroy_def Let_def split: prod.splits if_splits)

lemma SyncFile_spec: "\<exists>r k'. SyncFile os fid dm k = Some (r, k') \<and> view k' = view k"
proof (cases "FindFile dm fid")
  case None
  then show ?thesis by (simp add: SyncFile_def)
next
  case (Some f)
  obtain r k' where "FdatasyncWithRetry os (fe_descriptor f) k = Some (r, k')"
    using FdatasyncWithRetry_returns by blast
  with fdatasync_retry[OF this] show ?thesis
    by (cases r) (auto simp: SyncFile_def Some)
qed

end

end
