(* ===== verification/Sample_Kernel.thy ===== *)
theory Sample_Kernel
  imports Posix
begin

text \<open>
  A concrete kernel that satisfies \<open>posix_kernel\<close>: files and descriptors in memory, and a script
  of disturbances, consumed one per call, that interrupts calls, makes them fail, or cuts their
  transfers short. It is what the witnesses of the file layer run on.
\<close>

datatype disturbance = INTERRUPT | FAIL int | SHORT nat | QUIET

record sample_kernel =
  sk_view :: os_view
  sk_next :: nat
  sk_script :: "disturbance list"

definition sk_patience :: "sample_kernel \<Rightarrow> nat" where
  "sk_patience k = length (sk_script k)"

definition disturbed :: "((nat \<Rightarrow> nat) \<Rightarrow> sample_kernel \<Rightarrow> ('a, int) result \<times> sample_kernel) \<Rightarrow>
    sample_kernel \<Rightarrow> ('a, int) result \<times> sample_kernel" where
  "disturbed f k =
     (case sk_script k of
        [] \<Rightarrow> f id k
      | INTERRUPT # s \<Rightarrow> (Unexpected EINTR, k\<lparr>sk_script := s\<rparr>)
      | FAIL e # s \<Rightarrow> (Unexpected (if e = EINTR then EIO else e), k\<lparr>sk_script := s\<rparr>)
      | SHORT n # s \<Rightarrow> f (min (Suc n)) (k\<lparr>sk_script := s\<rparr>)
      | QUIET # s \<Rightarrow> f id (k\<lparr>sk_script := s\<rparr>))"

definition sk_create :: "string \<Rightarrow> sample_kernel \<Rightarrow> (int, int) result \<times> sample_kernel" where
  "sk_create path k =
     (let v = sk_view k; i = sk_next k
      in if ov_names v path \<noteq> None then (Unexpected 17, k)
         else if ov_data v i \<noteq> None \<or> ov_fds v (int i) \<noteq> None then (Unexpected 24, k)
         else (Ok (int i),
               k\<lparr>sk_view := v\<lparr>ov_names := (ov_names v)(path \<mapsto> i), ov_data := (ov_data v)(i \<mapsto> []),
                   ov_fds := (ov_fds v)(int i \<mapsto> i)\<rparr>, sk_next := Suc i\<rparr>))"

definition sk_open :: "string \<Rightarrow> sample_kernel \<Rightarrow> (int, int) result \<times> sample_kernel" where
  "sk_open path k =
     (let v = sk_view k; fd = int (sk_next k)
      in case ov_names v path of
           None \<Rightarrow> (Unexpected 2, k)
         | Some i \<Rightarrow>
             if ov_fds v fd \<noteq> None then (Unexpected 24, k)
             else (Ok fd, k\<lparr>sk_view := v\<lparr>ov_fds := (ov_fds v)(fd \<mapsto> i)\<rparr>, sk_next := Suc (sk_next k)\<rparr>))"

definition sk_update :: "int \<Rightarrow> (byte list \<Rightarrow> 'a) \<Rightarrow> (byte list \<Rightarrow> byte list) \<Rightarrow> sample_kernel \<Rightarrow>
    ('a, int) result \<times> sample_kernel" where
  "sk_update fd result change k =
     (case fd_data (sk_view k) fd of
        None \<Rightarrow> (Unexpected 9, k)
      | Some d \<Rightarrow> (Ok (result d), k\<lparr>sk_view := set_fd_data fd (change d) (sk_view k)\<rparr>))"

definition sk_fstat :: "int \<Rightarrow> sample_kernel \<Rightarrow> (int, int) result \<times> sample_kernel" where
  "sk_fstat fd k =
     (case fd_data (sk_view k) fd of
        None \<Rightarrow> (Unexpected 9, k)
      | Some d \<Rightarrow> if length d < 2 ^ 63 then (Ok (int (length d)), k) else (Unexpected 75, k))"

definition sample_os :: "sample_kernel posix" where
  "sample_os =
     \<lparr>sys_open = (\<lambda>path flags mode. disturbed (\<lambda>_.
        if O_CREAT \<in> set flags then sk_create path else sk_open path)),
      sys_fstat = (\<lambda>fd. disturbed (\<lambda>_. sk_fstat fd)),
      sys_ftruncate = (\<lambda>fd new_size. disturbed (\<lambda>_.
        if new_size < 0 then Pair (Unexpected 22)
        else sk_update fd (\<lambda>_. ()) (resize (nat new_size)))),
      sys_fdatasync = (\<lambda>fd. disturbed (\<lambda>_. sk_update fd (\<lambda>_. ()) id)),
      sys_close = (\<lambda>fd k. disturbed (\<lambda>_. Pair (Ok ()))
        (k\<lparr>sk_view := (sk_view k)\<lparr>ov_fds := (ov_fds (sk_view k))(fd := None)\<rparr>\<rparr>)),
      sys_pread = (\<lambda>fd n off. disturbed (\<lambda>cap.
        if off < 0 then Pair (Unexpected 22)
        else sk_update fd (\<lambda>d. take (cap n) (drop (nat off) d)) id)),
      sys_pwrite = (\<lambda>fd bs off. disturbed (\<lambda>cap.
        if off < 0 then Pair (Unexpected 22)
        else sk_update fd (\<lambda>_. min (length bs) (cap (length bs)))
          (write_at (nat off) (take (cap (length bs)) bs))))\<rparr>"

lemma errno_values [simp]:
  "EIO \<noteq> EINTR" "2 \<noteq> EINTR" "9 \<noteq> EINTR" "17 \<noteq> EINTR" "22 \<noteq> EINTR" "24 \<noteq> EINTR" "75 \<noteq> EINTR"
  by (simp_all add: EINTR_def EIO_def)

lemma sample_calls:
  "sys_open sample_os path flags mode = disturbed (\<lambda>_. if O_CREAT \<in> set flags then sk_create path else sk_open path)"
  "sys_fstat sample_os fd = disturbed (\<lambda>_. sk_fstat fd)"
  "sys_ftruncate sample_os fd new_size = disturbed (\<lambda>_. if new_size < 0 then Pair (Unexpected 22)
     else sk_update fd (\<lambda>_. ()) (resize (nat new_size)))"
  "sys_fdatasync sample_os fd = disturbed (\<lambda>_. sk_update fd (\<lambda>_. ()) id)"
  "sys_close sample_os fd k = disturbed (\<lambda>_. Pair (Ok ()))
     (k\<lparr>sk_view := (sk_view k)\<lparr>ov_fds := (ov_fds (sk_view k))(fd := None)\<rparr>\<rparr>)"
  "sys_pread sample_os fd n off = disturbed (\<lambda>cap. if off < 0 then Pair (Unexpected 22)
     else sk_update fd (\<lambda>d. take (cap n) (drop (nat off) d)) id)"
  "sys_pwrite sample_os fd bs off = disturbed (\<lambda>cap. if off < 0 then Pair (Unexpected 22)
     else sk_update fd (\<lambda>_. min (length bs) (cap (length bs))) (write_at (nat off) (take (cap (length bs)) bs)))"
  by (simp_all add: sample_os_def)

lemma set_fd_data_same: "fd_data v fd = Some d \<Longrightarrow> set_fd_data fd d v = v"
  by (cases v) (auto simp: fd_data_def set_fd_data_def map_upd_triv split: option.splits)

text \<open>A law that holds of the undisturbed call, of an interruption and of a failure holds of the
  disturbed call.\<close>

lemma disturbed_cases:
  assumes "disturbed f k = (r, k')"
    and "\<And>cap s. cap = id \<or> (\<exists>n. cap = min (Suc n)) \<Longrightarrow> f cap (k\<lparr>sk_script := s\<rparr>) = (r, k') \<Longrightarrow> P"
    and "\<And>e s. r = Unexpected e \<Longrightarrow> k' = k\<lparr>sk_script := s\<rparr> \<Longrightarrow> P"
  shows P
proof -
  have "k\<lparr>sk_script := sk_script k\<rparr> = k" by simp
  then show P
    using assms(1) assms(2)[of id "sk_script k"] assms(2)[of id "tl (sk_script k)"]
      assms(2)[of "min (Suc _)" "tl (sk_script k)"] assms(3)
    by (auto simp: disturbed_def split: list.splits disturbance.splits)
qed

lemma sk_update_cases:
  assumes "sk_update fd f g k = (r, k')"
  obtains (closed) "fd_data (sk_view k) fd = None" and "r = Unexpected 9" and "k' = k"
  | (found) d where "fd_data (sk_view k) fd = Some d" and "r = Ok (f d)"
      and "k' = k\<lparr>sk_view := set_fd_data fd (g d) (sk_view k)\<rparr>"
  using assms by (auto simp: sk_update_def split: option.splits)

lemma disturbed_interrupted:
  assumes "disturbed f k = (Unexpected EINTR, k')"
    and "\<And>cap k k'. f cap k \<noteq> (Unexpected EINTR, k')"
  shows "sk_patience k' < sk_patience k"
  using assms
  by (auto simp: disturbed_def sk_patience_def split: list.splits disturbance.splits if_splits)

lemma sk_never_interrupts [simp]:
  "sk_create path k \<noteq> (Unexpected EINTR, k')" "sk_open path k \<noteq> (Unexpected EINTR, k')"
  "sk_update fd f g k \<noteq> (Unexpected EINTR, k')" "sk_fstat fd k \<noteq> (Unexpected EINTR, k')"
  by (auto simp: sk_fstat_def sk_create_def sk_open_def sk_update_def Let_def split: option.splits if_splits)

interpretation sample: posix_kernel sample_os sk_view sk_patience
proof unfold_locales
  fix path mode k r k'
  assume "sys_open sample_os path [O_RDWR, O_CREAT, O_EXCL, O_CLOEXEC] mode k = (r, k')"
  then have "disturbed (\<lambda>_. sk_create path) k = (r, k')" by (simp add: sample_os_def)
  then show "create_law path (sk_view k) r (sk_view k')"
    by (rule disturbed_cases)
      (auto simp: create_law_def sk_create_def Let_def split: if_splits)
next
  fix path mode k r k'
  assume "sys_open sample_os path [O_RDWR, O_CLOEXEC] mode k = (r, k')"
  then have "disturbed (\<lambda>_. sk_open path) k = (r, k')" by (simp add: sample_os_def)
  then show "open_law path (sk_view k) r (sk_view k')"
    by (rule disturbed_cases)
      (auto simp: open_law_def sk_open_def Let_def split: if_splits option.splits)
next
  fix fd k st k'
  assume "sys_fstat sample_os fd k = (st, k')"
  then have "disturbed (\<lambda>_. sk_fstat fd) k = (st, k')" by (simp add: sample_os_def)
  then show "fstat_law fd (sk_view k) st (sk_view k')"
    by (rule disturbed_cases)
      (auto simp: fstat_law_def sk_fstat_def split: option.splits if_splits)
next
  fix fd len k u k'
  assume "sys_ftruncate sample_os fd len k = (u, k')"
  then have "disturbed (\<lambda>_. if len < 0 then Pair (Unexpected 22)
      else sk_update fd (\<lambda>_. ()) (resize (nat len))) k = (u, k')"
    by (simp add: sample_os_def)
  then show "ftruncate_law fd len (sk_view k) u (sk_view k')"
    by (rule disturbed_cases)
      (auto simp: ftruncate_law_def split: if_splits elim!: sk_update_cases)
next
  fix fd k u k'
  assume "sys_fdatasync sample_os fd k = (u, k')"
  then have "disturbed (\<lambda>_. sk_update fd (\<lambda>_. ()) id) k = (u, k')" by (simp add: sample_os_def)
  then show "sk_view k' = sk_view k"
    by (rule disturbed_cases) (auto simp: set_fd_data_same elim!: sk_update_cases)
next
  fix fd k u k'
  assume "sys_close sample_os fd k = (u, k')"
  then have "disturbed (\<lambda>_. Pair (Ok ()))
      (k\<lparr>sk_view := (sk_view k)\<lparr>ov_fds := (ov_fds (sk_view k))(fd := None)\<rparr>\<rparr>) = (u, k')"
    by (simp add: sample_os_def)
  then show "close_law fd (sk_view k) u (sk_view k')"
    by (rule disturbed_cases) (auto simp: close_law_def)
next
  fix fd n off k bs k'
  assume "sys_pread sample_os fd n off k = (bs, k')"
  then have "disturbed (\<lambda>cap. if off < 0 then Pair (Unexpected 22)
      else sk_update fd (\<lambda>d. take (cap n) (drop (nat off) d)) id) k = (bs, k')"
    by (simp add: sample_os_def)
  then show "pread_law fd n off (sk_view k) bs (sk_view k')"
    by (rule disturbed_cases)
      (auto simp: pread_law_def set_fd_data_same min_def split: if_splits elim!: sk_update_cases)
next
  fix fd data off k m k'
  assume "sys_pwrite sample_os fd data off k = (m, k')"
  then have "disturbed (\<lambda>cap. if off < 0 then Pair (Unexpected 22)
      else sk_update fd (\<lambda>_. min (length data) (cap (length data)))
          (write_at (nat off) (take (cap (length data)) data))) k = (m, k')"
    by (simp add: sample_os_def)
  then show "pwrite_law fd data off (sk_view k) m (sk_view k')"
    by (rule disturbed_cases)
      (auto simp: pwrite_law_def min_def split: if_splits elim!: sk_update_cases)
qed (auto simp: sample_os_def split: if_splits
    intro!: disturbed_interrupted)

end
