(* ===== verification/Disk_Store.thy ===== *)
theory Disk_Store
  imports Disk_Spec Sample_Kernel
begin

text \<open>
  The disk manager as a store of pages: what each effect of \<open>Disk_Spec\<close> does to the page a
  \<open>PageId\<close> denotes, the step relation of all its operations, and the registry invariant along
  every run.
\<close>

section \<open>Effects on pages\<close>

lemma disk_page_written:
  assumes "page_written pid data dm v v'" and "length data = 8192"
  shows "disk_page dm v' qid =
    (if file_inode dm v (file_id qid) = file_inode dm v (file_id pid) \<and> page_no qid = page_no pid
     then Some data else disk_page dm v qid)"
proof -
  from assms obtain e d where e: "dm_files dm (file_id pid) = Some e"
    and d: "fd_data v (fe_descriptor e) = Some d"
    and fits: "unat (page_no pid) * 8192 + 8192 \<le> length d"
    and v': "v' = set_fd_data (fe_descriptor e) (put (unat (page_no pid) * 8192) data d) v"
    by (auto simp: page_written_def)
  have old: "file_data dm v (file_id pid) = Some d" by (simp add: file_data_def e d)
  show ?thesis
  proof (cases "file_inode dm v (file_id qid) = file_inode dm v (file_id pid)")
    case True
    with old same_inode_data[OF True] have "file_data dm v (file_id qid) = Some d" by simp
    then show ?thesis
      using True page_at_put[OF fits assms(2)]
      by (simp add: disk_page_def v' file_data_set[OF e d] unsigned_word_eqI word_unat_eq_iff)
  next
    case False
    then show ?thesis by (simp add: disk_page_def v' file_data_set[OF e d])
  qed
qed

lemma disk_page_extended:
  assumes "file_extended fid n dm v v'"
  shows "disk_page dm v' qid =
    (if file_inode dm v (file_id qid) = file_inode dm v fid \<and> page_no qid = n
     then Some (replicate 8192 0) else disk_page dm v qid)"
proof -
  from assms obtain e d where e: "dm_files dm fid = Some e"
    and d: "fd_data v (fe_descriptor e) = Some d" and len: "length d = unat n * 8192"
    and v': "v' = set_fd_data (fe_descriptor e) (resize (length d + 8192) d) v"
    by (auto simp: file_extended_def)
  have old: "file_data dm v fid = Some d" by (simp add: file_data_def e d)
  show ?thesis
  proof (cases "file_inode dm v (file_id qid) = file_inode dm v fid")
    case True
    with old same_inode_data[OF True] have "file_data dm v (file_id qid) = Some d" by simp
    then show ?thesis
      using True page_at_grow[OF len]
      by (simp add: disk_page_def v' file_data_set[OF e d] word_unat_eq_iff del: replicate.simps)
  next
    case False
    then show ?thesis by (simp add: disk_page_def v' file_data_set[OF e d])
  qed
qed

lemma file_registered_ok: "file_registered fid path d dm v dm' v' \<Longrightarrow> disk_ok dm v \<Longrightarrow> disk_ok dm' v'"
  unfolding file_registered_def disk_ok_def
  by (auto split: if_splits) (metis option.distinct(1))+

lemma file_closed_ok: "file_closed fid dm v dm' v' \<Longrightarrow> disk_ok dm v \<Longrightarrow> disk_ok dm' v'"
  unfolding file_closed_def disk_ok_def view_ok_def by (auto split: if_splits)

section \<open>Runs\<close>

inductive disk_step :: "'k posix \<Rightarrow> DiskManager \<times> 'k \<Rightarrow> DiskManager \<times> 'k \<Rightarrow> bool" for os where
  create: "CreateFile os fid path dm k = Some (r, dm', k') \<Longrightarrow> disk_step os (dm, k) (dm', k')"
| opened: "OpenFile os fid path dm k = Some (r, dm', k') \<Longrightarrow> disk_step os (dm, k) (dm', k')"
| close: "CloseFile os fid dm k = (r, dm', k') \<Longrightarrow> disk_step os (dm, k) (dm', k')"
| count: "PageCount os fid dm k = Some (r, k') \<Longrightarrow> disk_step os (dm, k) (dm, k')"
| read: "ReadPage os pid dst dm k = Some (r, out, k') \<Longrightarrow> disk_step os (dm, k) (dm, k')"
| written: "WritePage os pid data dm k = Some (r, k') \<Longrightarrow> length data = 8192 \<Longrightarrow>
    disk_step os (dm, k) (dm, k')"
| extend: "ExtendFile os fid dm k = Some (r, k') \<Longrightarrow> disk_step os (dm, k) (dm, k')"
| sync: "SyncFile os fid dm k = Some (r, k') \<Longrightarrow> disk_step os (dm, k) (dm, k')"

inductive disk_run :: "'k posix \<Rightarrow> DiskManager \<times> 'k \<Rightarrow> DiskManager \<times> 'k \<Rightarrow> bool" for os where
  refl: "disk_run os s s"
| step: "disk_run os s t \<Longrightarrow> disk_step os t u \<Longrightarrow> disk_run os s u"

context posix_kernel
begin

lemma disk_step_ok:
  "disk_step os s t \<Longrightarrow> disk_ok (fst s) (view (snd s)) \<Longrightarrow> disk_ok (fst t) (view (snd t))"
proof (induction rule: disk_step.induct)
  case (create fid path dm k r dm' k')
  with CreateFile_spec[of fid path dm k] show ?case
    by (auto split: sum.splits intro: file_registered_ok)
next
  case (opened fid path dm k r dm' k')
  with OpenFile_spec[of fid path dm k] show ?case
    by (auto simp: disk_ok_def[of dm] split: sum.splits intro: file_registered_ok)
next
  case (close fid dm k r dm' k')
  with CloseFile_spec[OF close(1)] show ?case
    by (auto split: if_splits intro: file_closed_ok)
next
  case (count fid dm k r k')
  with PageCount_spec[of fid dm k] show ?case by auto
next
  case (read pid dst dm k r out k')
  with ReadPage_spec[of pid dst dm k] show ?case by auto
next
  case (written pid data dm k r k')
  with WritePage_spec[of pid data dm k] show ?case
    by (auto simp: page_written_def page_torn_def split: sum.splits)
next
  case (extend fid dm k r k')
  with ExtendFile_spec[of fid dm k] show ?case
    by (auto simp: file_extended_def split: sum.splits)
next
  case (sync fid dm k r k')
  with SyncFile_spec[of fid dm k] show ?case by auto
qed

lemma disk_run_ok:
  "disk_run os s t \<Longrightarrow> disk_ok (fst s) (view (snd s)) \<Longrightarrow> disk_ok (fst t) (view (snd t))"
  by (induction rule: disk_run.induct) (auto dest: disk_step_ok)

end

lemma disk_ok_new: "view_ok v \<Longrightarrow> disk_ok DiskManager_new v"
  by (simp add: disk_ok_def DiskManager_new_def)

end
