(* ===== verification/File_Superblock.thy ===== *)
theory File_Superblock
  imports Page
begin

text \<open>
  Page zero of a managed file: \<open>src/src/storage/file/file_superblock.h\<close> and
  \<open>file_superblock.cpp\<close>. The codec fills a whole page: common header, magic, kind, page size,
  identities, zeros to the end, and a checksum over the page with the checksum field zeroed.
\<close>

definition FILE_SUPERBLOCK_MAGIC :: "byte list" where
  "FILE_SUPERBLOCK_MAGIC = [0x44, 0x42, 0x4C, 0x55, 0x53, 0x42, 0x4C, 0x53]"

definition FILE_SUPERBLOCK_FORMAT_VERSION :: "16 word" where [layout, simp]:
  "FILE_SUPERBLOCK_FORMAT_VERSION = 1"
definition FILE_SUPERBLOCK_HEADER_SIZE :: "16 word" where [layout, simp]:
  "FILE_SUPERBLOCK_HEADER_SIZE = 72"

definition SB_MAGIC_OFFSET :: nat where [layout, simp]: "SB_MAGIC_OFFSET = COMMON_PAGE_HEADER_ENCODED_SIZE"
definition SB_FILE_KIND_OFFSET :: nat where [layout, simp]: "SB_FILE_KIND_OFFSET = 40"
definition SB_RESERVED16_OFFSET :: nat where [layout, simp]: "SB_RESERVED16_OFFSET = 42"
definition SB_PAGE_SIZE_OFFSET :: nat where [layout, simp]: "SB_PAGE_SIZE_OFFSET = 44"
definition SB_FILE_ID_OFFSET :: nat where [layout, simp]: "SB_FILE_ID_OFFSET = 48"
definition SB_RESERVED32_OFFSET :: nat where [layout, simp]: "SB_RESERVED32_OFFSET = 52"
definition SB_OBJECT_ID_OFFSET :: nat where [layout, simp]: "SB_OBJECT_ID_OFFSET = 56"
definition SB_CREATION_EPOCH_OFFSET :: nat where [layout, simp]: "SB_CREATION_EPOCH_OFFSET = 64"
definition SB_TRAILING_RESERVED_OFFSET :: nat where [layout, simp]: "SB_TRAILING_RESERVED_OFFSET = 72"

datatype FileKind = HEAP | BTREE | FSM | CATALOG | UNNAMED_FILE_KIND "16 word"

fun FileKind_value :: "FileKind \<Rightarrow> 16 word" where
  "FileKind_value HEAP = 1"
| "FileKind_value BTREE = 2"
| "FileKind_value FSM = 3"
| "FileKind_value CATALOG = 4"
| "FileKind_value (UNNAMED_FILE_KIND w) = w"

definition FileKind_cast :: "16 word \<Rightarrow> FileKind" where
  "FileKind_cast w =
     (if w = 1 then HEAP else if w = 2 then BTREE else if w = 3 then FSM
      else if w = 4 then CATALOG else UNNAMED_FILE_KIND w)"

record FileSuperblock =
  fs_file_kind :: FileKind
  fs_file_id :: FileId
  fs_page_lsn :: Lsn
  fs_object_id :: "64 word"
  fs_creation_epoch :: "64 word"

datatype FileSuperblockDecodeError =
    SB_NONE | SB_BUFFER_TOO_SMALL | CHECKSUM_MISMATCH | SB_WRONG_PAGE_TYPE
  | SB_UNSUPPORTED_FORMAT_VERSION | SB_WRONG_HEADER_SIZE | SB_WRONG_PAGE_NUMBER | MAGIC_MISMATCH
  | INVALID_FILE_KIND | UNSUPPORTED_FILE_KIND | WRONG_PAGE_SIZE | NONZERO_FLAGS
  | NONZERO_RESERVED_BYTES

fun IsRecognizedFileKind :: "FileKind \<Rightarrow> bool" where
  "IsRecognizedFileKind HEAP = True"
| "IsRecognizedFileKind BTREE = True"
| "IsRecognizedFileKind FSM = True"
| "IsRecognizedFileKind CATALOG = True"
| "IsRecognizedFileKind (UNNAMED_FILE_KIND w) = False"

fun IsSupportedGenericFileKind :: "FileKind \<Rightarrow> bool" where
  "IsSupportedGenericFileKind HEAP = True"
| "IsSupportedGenericFileKind BTREE = False"
| "IsSupportedGenericFileKind FSM = True"
| "IsSupportedGenericFileKind CATALOG = True"
| "IsSupportedGenericFileKind (UNNAMED_FILE_KIND w) = False"

definition ContainsNonzeroByte :: "byte list \<Rightarrow> bool" where
  "ContainsNonzeroByte bytes = list_ex (\<lambda>b. b \<noteq> 0) bytes"

definition ComputeFileSuperblockChecksum :: "byte list \<Rightarrow> (32 word) option" where
  "ComputeFileSuperblockChecksum page_bytes =
     (if length page_bytes < PAGE_SIZE then None
      else Some (Crc32c (put CH_CHECKSUM_OFFSET (replicate 4 0) (take PAGE_SIZE page_bytes))))"

definition superblock_header :: "FileSuperblock \<Rightarrow> CommonPageHeader" where
  "superblock_header superblock =
     \<lparr>ch_page_type = SUPERBLOCK, ch_format_version = FILE_SUPERBLOCK_FORMAT_VERSION, ch_flags = 0,
      ch_page_lsn = fs_page_lsn superblock, ch_checksum_crc32c = 0,
      ch_header_size = FILE_SUPERBLOCK_HEADER_SIZE, ch_reserved16 = 0, ch_page_no = 0\<rparr>"

definition EncodeFileSuperblock :: "byte list \<Rightarrow> FileSuperblock \<Rightarrow> byte list option" where
  "EncodeFileSuperblock destination superblock =
     (if length destination < PAGE_SIZE \<or> \<not> IsSupportedGenericFileKind (fs_file_kind superblock)
      then None
      else do {
        p \<leftarrow> EncodeCommonPageHeader (replicate PAGE_SIZE 0) (superblock_header superblock);
        p \<leftarrow> Some (put SB_MAGIC_OFFSET FILE_SUPERBLOCK_MAGIC p);
        p \<leftarrow> encode_field SB_FILE_KIND_OFFSET (FileKind_value (fs_file_kind superblock)) p;
        p \<leftarrow> encode_field SB_PAGE_SIZE_OFFSET (of_nat PAGE_SIZE :: 32 word) p;
        p \<leftarrow> encode_field SB_FILE_ID_OFFSET (fs_file_id superblock) p;
        p \<leftarrow> encode_field SB_OBJECT_ID_OFFSET (fs_object_id superblock) p;
        p \<leftarrow> encode_field SB_CREATION_EPOCH_OFFSET (fs_creation_epoch superblock) p;
        checksum \<leftarrow> ComputeFileSuperblockChecksum p;
        p \<leftarrow> encode_field CH_CHECKSUM_OFFSET checksum p;
        Some (put 0 p destination)
      })"

definition DecodeFileSuperblock ::
    "byte list \<Rightarrow> (FileSuperblock, FileSuperblockDecodeError) result" where
  "DecodeFileSuperblock source =
     (if length source < PAGE_SIZE then Unexpected SB_BUFFER_TOO_SMALL
      else
        (let p = take PAGE_SIZE source
         in case (decode_field CH_CHECKSUM_OFFSET p, ComputeFileSuperblockChecksum p) of
              (Some stored_checksum, Some computed_checksum) \<Rightarrow>
                if stored_checksum \<noteq> computed_checksum then Unexpected CHECKSUM_MISMATCH
                else
                  (case DecodeCommonPageHeader (take COMMON_PAGE_HEADER_ENCODED_SIZE p) of
                     None \<Rightarrow> Unexpected SB_BUFFER_TOO_SMALL
                   | Some common_header \<Rightarrow>
                       if ch_page_type common_header \<noteq> SUPERBLOCK then Unexpected SB_WRONG_PAGE_TYPE
                       else if ch_format_version common_header \<noteq> FILE_SUPERBLOCK_FORMAT_VERSION
                       then Unexpected SB_UNSUPPORTED_FORMAT_VERSION
                       else if ch_page_no common_header \<noteq> 0 then Unexpected SB_WRONG_PAGE_NUMBER
                       else if FILE_SUPERBLOCK_MAGIC \<noteq> subspan SB_MAGIC_OFFSET (length FILE_SUPERBLOCK_MAGIC) p
                       then Unexpected MAGIC_MISMATCH
                       else
                         (case decode_field SB_FILE_KIND_OFFSET p of
                            None \<Rightarrow> Unexpected SB_BUFFER_TOO_SMALL
                          | Some raw_file_kind \<Rightarrow>
                              (let file_kind = FileKind_cast raw_file_kind
                               in if \<not> IsRecognizedFileKind file_kind then Unexpected INVALID_FILE_KIND
                                  else if \<not> IsSupportedGenericFileKind file_kind
                                  then Unexpected UNSUPPORTED_FILE_KIND
                                  else if ch_header_size common_header \<noteq> FILE_SUPERBLOCK_HEADER_SIZE
                                  then Unexpected SB_WRONG_HEADER_SIZE
                                  else
                                    (case decode_field SB_PAGE_SIZE_OFFSET p of
                                       None \<Rightarrow> Unexpected SB_BUFFER_TOO_SMALL
                                     | Some persisted_page_size \<Rightarrow>
                                         if persisted_page_size \<noteq> (of_nat PAGE_SIZE :: 32 word)
                                         then Unexpected WRONG_PAGE_SIZE
                                         else if ch_flags common_header \<noteq> 0 then Unexpected NONZERO_FLAGS
                                         else if ch_reserved16 common_header \<noteq> 0
                                           \<or> ContainsNonzeroByte (subspan SB_RESERVED16_OFFSET 2 p)
                                           \<or> ContainsNonzeroByte (subspan SB_RESERVED32_OFFSET 4 p)
                                           \<or> ContainsNonzeroByte (drop SB_TRAILING_RESERVED_OFFSET p)
                                         then Unexpected NONZERO_RESERVED_BYTES
                                         else
                                           (case (decode_field SB_FILE_ID_OFFSET p,
                                                  decode_field SB_OBJECT_ID_OFFSET p,
                                                  decode_field SB_CREATION_EPOCH_OFFSET p) of
                                              (Some fid, Some object_id, Some creation_epoch) \<Rightarrow>
                                                Ok \<lparr>fs_file_kind = file_kind, fs_file_id = fid,
                                                    fs_page_lsn = ch_page_lsn common_header,
                                                    fs_object_id = object_id,
                                                    fs_creation_epoch = creation_epoch\<rparr>
                                            | _ \<Rightarrow> Unexpected SB_BUFFER_TOO_SMALL)))))
            | _ \<Rightarrow> Unexpected CHECKSUM_MISMATCH))"

section \<open>The image of a superblock\<close>

definition superblock_body :: "FileSuperblock \<Rightarrow> byte list" where
  "superblock_body sb =
     FILE_SUPERBLOCK_MAGIC @ le_bytes (FileKind_value (fs_file_kind sb)) @ replicate 2 0 @
     le_bytes (8192 :: 32 word) @ le_bytes (fs_file_id sb) @ replicate 4 0 @
     le_bytes (fs_object_id sb) @ le_bytes (fs_creation_epoch sb) @ replicate 8120 0"

definition superblock_page :: "FileSuperblock \<Rightarrow> 32 word \<Rightarrow> byte list" where
  "superblock_page sb c =
     CommonPageHeader_image (superblock_header sb\<lparr>ch_checksum_crc32c := c\<rparr>) @ superblock_body sb"

definition FileSuperblock_image :: "FileSuperblock \<Rightarrow> byte list" where
  "FileSuperblock_image sb = superblock_page sb (ComputePageChecksum (superblock_page sb 0))"

lemma length_magic [simp]: "length FILE_SUPERBLOCK_MAGIC = 8"
  by (simp add: FILE_SUPERBLOCK_MAGIC_def)

lemma length_superblock_body [simp]: "length (superblock_body sb) = 8160"
  by (simp add: superblock_body_def)

lemma length_superblock_page [simp]: "length (superblock_page sb c) = 8192"
  by (simp add: superblock_page_def)

lemma superblock_page_checksum:
  "put 16 (le_bytes c) (superblock_page sb c') = superblock_page sb c"
proof -
  define A where "A = le_bytes (PageType_value SUPERBLOCK) @ le_bytes (1 :: 16 word) @
    le_bytes (0 :: 32 word) @ le_bytes (fs_page_lsn sb)"
  define C where "C = le_bytes (72 :: 16 word) @ le_bytes (0 :: 16 word) @ le_bytes (0 :: PageNo) @
    superblock_body sb"
  have "superblock_page sb x = A @ le_bytes x @ C" for x
    by (simp add: superblock_page_def CommonPageHeader_image_def superblock_header_def A_def C_def)
  moreover have "length A = 16" by (simp add: A_def)
  ultimately show ?thesis by (simp add: put_replace)
qed

lemma ComputeFileSuperblockChecksum_eq:
  "length p = 8192 \<Longrightarrow> ComputeFileSuperblockChecksum p = Some (ComputePageChecksum p)"
  by (simp add: ComputeFileSuperblockChecksum_def ComputePageChecksum_def)

lemma ComputePageChecksum_superblock:
  "ComputePageChecksum (superblock_page sb c) = ComputePageChecksum (superblock_page sb 0)"
  using ComputePageChecksum_field[of "superblock_page sb 0" "le_bytes c"]
  by (simp add: superblock_page_checksum)

lemma superblock_fields:
  assumes "length h = 32" and "length m = 8" and "length k = 2" and "length s = 4"
    and "length f = 4" and "length ob = 8" and "length ep = 8"
  shows "put 64 ep (put 56 ob (put 48 f (put 44 s (put 40 k (put 32 m (put 0 h
      (replicate 8192 (0 :: byte)))))))) =
    h @ m @ k @ replicate 2 0 @ s @ f @ replicate 4 0 @ ob @ ep @ replicate 8120 0"
proof -
  have "put 0 h (replicate 8192 (0 :: byte)) = h @ replicate 8160 0"
    using assms put_zeros[of "[]" 0 h 8192 0] by simp
  moreover have "put 32 m (h @ replicate 8160 0) = h @ m @ replicate 8152 0"
    using assms put_zeros[of h 32 m 8160 0] by simp
  moreover have "put 40 k (h @ m @ replicate 8152 0) = h @ m @ k @ replicate 8150 0"
    using assms put_zeros[of "h @ m" 40 k 8152 0] by simp
  moreover have "put 44 s (h @ m @ k @ replicate 8150 0) =
      h @ m @ k @ replicate 2 0 @ s @ replicate 8144 0"
    using assms put_zeros[of "h @ m @ k" 44 s 8150 0] by simp
  moreover have "put 48 f (h @ m @ k @ replicate 2 0 @ s @ replicate 8144 0) =
      h @ m @ k @ replicate 2 0 @ s @ f @ replicate 8140 0"
    using assms put_zeros[of "h @ m @ k @ replicate 2 0 @ s" 48 f 8144 0] by simp
  moreover have "put 56 ob (h @ m @ k @ replicate 2 0 @ s @ f @ replicate 8140 0) =
      h @ m @ k @ replicate 2 0 @ s @ f @ replicate 4 0 @ ob @ replicate 8128 0"
    using assms put_zeros[of "h @ m @ k @ replicate 2 0 @ s @ f" 56 ob 8140 0] by simp
  moreover have "put 64 ep (h @ m @ k @ replicate 2 0 @ s @ f @ replicate 4 0 @ ob @ replicate 8128 0) =
      h @ m @ k @ replicate 2 0 @ s @ f @ replicate 4 0 @ ob @ ep @ replicate 8120 0"
    using assms put_zeros[of "h @ m @ k @ replicate 2 0 @ s @ f @ replicate 4 0 @ ob" 64 ep 8128 0]
    by simp
  ultimately show ?thesis by (simp only:)
qed

lemma EncodeFileSuperblock_eq:
  "EncodeFileSuperblock d sb =
     (if 8192 \<le> length d \<and> IsSupportedGenericFileKind (fs_file_kind sb)
      then Some (put 0 (FileSuperblock_image sb) d) else None)"
proof -
  have h: "CommonPageHeader_image (superblock_header sb\<lparr>ch_checksum_crc32c := 0\<rparr>) =
      CommonPageHeader_image (superblock_header sb)"
    by (simp add: superblock_header_def)
  have fields: "put 64 (le_bytes (fs_creation_epoch sb)) (put 56 (le_bytes (fs_object_id sb))
      (put 48 (le_bytes (fs_file_id sb)) (put 44 (le_bytes (8192 :: 32 word))
      (put 40 (le_bytes (FileKind_value (fs_file_kind sb))) (put 32 FILE_SUPERBLOCK_MAGIC
      (put 0 (CommonPageHeader_image (superblock_header sb)) (replicate 8192 0))))))) =
      superblock_page sb 0"
    by (simp add: superblock_fields superblock_page_def superblock_body_def h)
  show ?thesis
    by (auto simp: EncodeFileSuperblock_def EncodeCommonPageHeader_eq fields
        ComputeFileSuperblockChecksum_eq superblock_page_checksum FileSuperblock_image_def)
qed

lemma length_FileSuperblock_image [simp]: "length (FileSuperblock_image sb) = 8192"
  by (simp add: FileSuperblock_image_def)

section \<open>What the decoder accepts\<close>

lemma FileKind_cast_value [simp]:
  "IsRecognizedFileKind k \<Longrightarrow> FileKind_cast (FileKind_value k) = k"
  by (cases k) (auto simp: FileKind_cast_def)

lemma FileKind_value_cast [simp]: "FileKind_value (FileKind_cast w) = w"
  by (simp add: FileKind_cast_def)

lemma supported_recognized [simp]: "IsSupportedGenericFileKind k \<Longrightarrow> IsRecognizedFileKind k"
  by (cases k) auto

lemma not_ContainsNonzeroByte:
  "\<not> ContainsNonzeroByte bytes \<longleftrightarrow> bytes = replicate (length bytes) 0"
  by (induction bytes) (auto simp: ContainsNonzeroByte_def)

lemma drop_split: "drop off xs = subspan off n xs @ drop (off + n) xs"
  by (simp add: subspan_def add.commute flip: drop_drop)

lemma superblock_parts:
  assumes "length p = 8192"
  shows "p = subspan 0 32 p @ subspan 32 8 p @ subspan 40 2 p @ subspan 42 2 p @ subspan 44 4 p @
    subspan 48 4 p @ subspan 52 4 p @ subspan 56 8 p @ subspan 64 8 p @ drop 72 p"
  using drop_split[of 0 p 32] drop_split[of 32 p 8] drop_split[of 40 p 2] drop_split[of 42 p 2]
    drop_split[of 44 p 4] drop_split[of 48 p 4] drop_split[of 52 p 4] drop_split[of 56 p 8]
    drop_split[of 64 p 8] by simp

lemma superblock_page_parts:
  "subspan 0 32 (superblock_page sb c) = CommonPageHeader_image (superblock_header sb\<lparr>ch_checksum_crc32c := c\<rparr>)"
  "subspan 16 4 (superblock_page sb c) = le_bytes c"
  "subspan 32 8 (superblock_page sb c) = FILE_SUPERBLOCK_MAGIC"
  "subspan 40 2 (superblock_page sb c) = le_bytes (FileKind_value (fs_file_kind sb))"
  "subspan 42 2 (superblock_page sb c) = replicate 2 0"
  "subspan 44 4 (superblock_page sb c) = le_bytes (8192 :: 32 word)"
  "subspan 48 4 (superblock_page sb c) = le_bytes (fs_file_id sb)"
  "subspan 52 4 (superblock_page sb c) = replicate 4 0"
  "subspan 56 8 (superblock_page sb c) = le_bytes (fs_object_id sb)"
  "subspan 64 8 (superblock_page sb c) = le_bytes (fs_creation_epoch sb)"
  "drop 72 (superblock_page sb c) = replicate 8120 0"
proof -
  show "subspan 0 32 (superblock_page sb c) =
      CommonPageHeader_image (superblock_header sb\<lparr>ch_checksum_crc32c := c\<rparr>)"
    by (simp add: superblock_page_def subspan_0_take)
qed (simp_all add: superblock_page_def superblock_body_def CommonPageHeader_image_def
    subspan_append_right)

lemma le_bytes_eq_iff:
  "le_bytes (v16 :: 16 word) = le_bytes w16 \<longleftrightarrow> v16 = w16"
  "le_bytes (v32 :: 32 word) = le_bytes w32 \<longleftrightarrow> v32 = w32"
  "le_bytes (v64 :: 64 word) = le_bytes w64 \<longleftrightarrow> v64 = w64"
  by (metis le_word_le_bytes_simps)+

lemma DecodeFileSuperblock_prefix:
  "8192 \<le> length s \<Longrightarrow> DecodeFileSuperblock s = DecodeFileSuperblock (take 8192 s)"
  by (simp add: DecodeFileSuperblock_def min_def)

lemma Decode_superblock_Ok_iff:
  assumes "length p = 8192" and "DecodeCommonPageHeader (take 32 p) = Some h"
  shows "DecodeFileSuperblock p = Ok sb \<longleftrightarrow>
    subspan 16 4 p = le_bytes (ComputePageChecksum p) \<and>
    h = superblock_header sb\<lparr>ch_checksum_crc32c := ch_checksum_crc32c h\<rparr> \<and>
    subspan 32 8 p = FILE_SUPERBLOCK_MAGIC \<and>
    IsSupportedGenericFileKind (fs_file_kind sb) \<and>
    subspan 40 2 p = le_bytes (FileKind_value (fs_file_kind sb)) \<and>
    subspan 42 2 p = replicate 2 0 \<and> subspan 44 4 p = le_bytes (8192 :: 32 word) \<and>
    subspan 48 4 p = le_bytes (fs_file_id sb) \<and> subspan 52 4 p = replicate 4 0 \<and>
    subspan 56 8 p = le_bytes (fs_object_id sb) \<and>
    subspan 64 8 p = le_bytes (fs_creation_epoch sb) \<and> drop 72 p = replicate 8120 0"
    (is "_ = ?rhs")
proof -
  have kind: "FileKind_cast (le_word (subspan 40 2 p)) = k \<and>
      IsSupportedGenericFileKind (FileKind_cast (le_word (subspan 40 2 p))) \<longleftrightarrow>
      subspan 40 2 p = le_bytes (FileKind_value k) \<and> IsSupportedGenericFileKind k" for k
    using assms(1) by (auto simp: le_bytes_le_word_simps)
  have "DecodeFileSuperblock p = Ok sb \<longleftrightarrow>
    subspan 16 4 p = le_bytes (ComputePageChecksum p) \<and>
    (ch_page_type h = SUPERBLOCK \<and> ch_format_version h = 1 \<and> ch_page_no h = 0 \<and>
      ch_header_size h = 72 \<and> ch_flags h = 0 \<and> ch_reserved16 h = 0) \<and>
    subspan 32 8 p = FILE_SUPERBLOCK_MAGIC \<and>
    IsSupportedGenericFileKind (FileKind_cast (le_word (subspan 40 2 p))) \<and>
    subspan 42 2 p = replicate 2 0 \<and> subspan 44 4 p = le_bytes (8192 :: 32 word) \<and>
    subspan 52 4 p = replicate 4 0 \<and> drop 72 p = replicate 8120 0 \<and>
    \<lparr>fs_file_kind = FileKind_cast (le_word (subspan 40 2 p)),
      fs_file_id = le_word (subspan 48 4 p), fs_page_lsn = ch_page_lsn h,
      fs_object_id = le_word (subspan 56 8 p), fs_creation_epoch = le_word (subspan 64 8 p)\<rparr> = sb"
    using assms
    by (simp add: DecodeFileSuperblock_def guard_Ok_iff Let_def ComputeFileSuperblockChecksum_eq
        not_ContainsNonzeroByte le_word_eq_iff) auto
  also have "\<dots> \<longleftrightarrow> ?rhs"
  proof -
    have "\<lparr>fs_file_kind = FileKind_cast (le_word (subspan 40 2 p)),
        fs_file_id = le_word (subspan 48 4 p), fs_page_lsn = ch_page_lsn h,
        fs_object_id = le_word (subspan 56 8 p), fs_creation_epoch = le_word (subspan 64 8 p)\<rparr> = sb \<longleftrightarrow>
      FileKind_cast (le_word (subspan 40 2 p)) = fs_file_kind sb \<and> ch_page_lsn h = fs_page_lsn sb \<and>
      subspan 48 4 p = le_bytes (fs_file_id sb) \<and> subspan 56 8 p = le_bytes (fs_object_id sb) \<and>
      subspan 64 8 p = le_bytes (fs_creation_epoch sb)"
      using assms(1) by (cases sb) (auto simp: le_word_eq_iff[symmetric])
    moreover have "h = superblock_header sb\<lparr>ch_checksum_crc32c := ch_checksum_crc32c h\<rparr> \<longleftrightarrow>
        ch_page_type h = SUPERBLOCK \<and> ch_format_version h = 1 \<and> ch_page_no h = 0 \<and>
        ch_header_size h = 72 \<and> ch_flags h = 0 \<and> ch_reserved16 h = 0 \<and>
        ch_page_lsn h = fs_page_lsn sb"
      by (cases h) (auto simp: superblock_header_def)
    ultimately show ?thesis using kind[of "fs_file_kind sb"] by metis
  qed
  finally show ?thesis .
qed

lemma Decode_superblock_image:
  assumes "IsSupportedGenericFileKind (fs_file_kind sb)"
  shows "DecodeFileSuperblock (FileSuperblock_image sb) = Ok sb"
proof -
  let ?c = "ComputePageChecksum (superblock_page sb 0)"
  have "DecodeCommonPageHeader (take 32 (superblock_page sb ?c)) =
      Some (superblock_header sb\<lparr>ch_checksum_crc32c := ?c\<rparr>)"
    using superblock_page_parts(1)[of sb ?c]
    by (simp add: common_header.decode_Some_iff subspan_0_take superblock_header_def)
  from Decode_superblock_Ok_iff[OF length_superblock_page this, of sb] assms show ?thesis
    unfolding FileSuperblock_image_def
    by (simp add: superblock_page_parts ComputePageChecksum_superblock[of sb ?c])
qed

lemma Decode_superblock_strict:
  assumes "DecodeFileSuperblock s = Ok sb"
  shows "8192 \<le> length s \<and> IsSupportedGenericFileKind (fs_file_kind sb) \<and>
    take 8192 s = FileSuperblock_image sb"
proof -
  from assms have len: "8192 \<le> length s"
    by (auto simp: DecodeFileSuperblock_def guard_Ok_iff)
  define p where "p = take 8192 s"
  have p: "length p = 8192" and dec: "DecodeFileSuperblock p = Ok sb"
    using assms len DecodeFileSuperblock_prefix[of s] by (simp_all add: p_def)
  then obtain h where hdr: "DecodeCommonPageHeader (take 32 p) = Some h"
    by (simp add: DecodeCommonPageHeader_eq)
  note parts = dec[unfolded Decode_superblock_Ok_iff[OF p hdr]]
  from hdr p have image: "subspan 0 32 p = CommonPageHeader_image h"
    by (simp add: common_header.decode_Some_iff subspan_0_take)
  have "subspan 16 4 p = subspan 16 4 (subspan 0 32 p)" by (simp add: subspan_def drop_take)
  with image parts have "ch_checksum_crc32c h = ComputePageChecksum p"
    by (simp add: CommonPageHeader_image_def subspan_append_right le_bytes_eq_iff)
  with image parts have "subspan 0 32 p =
      CommonPageHeader_image (superblock_header sb\<lparr>ch_checksum_crc32c := ComputePageChecksum p\<rparr>)"
    by metis
  with superblock_parts[OF p] parts have page: "p = superblock_page sb (ComputePageChecksum p)"
    by (simp add: superblock_page_def superblock_body_def)
  then have "ComputePageChecksum p = ComputePageChecksum (superblock_page sb 0)"
    using ComputePageChecksum_superblock by metis
  with page have "p = FileSuperblock_image sb"
    unfolding FileSuperblock_image_def by metis
  with parts len show ?thesis by (simp add: p_def)
qed

lemma DecodeFileSuperblock_Ok_iff:
  "DecodeFileSuperblock s = Ok sb \<longleftrightarrow>
     8192 \<le> length s \<and> IsSupportedGenericFileKind (fs_file_kind sb) \<and>
     take 8192 s = FileSuperblock_image sb"
  using Decode_superblock_strict Decode_superblock_image DecodeFileSuperblock_prefix by metis

interpretation file_superblock: strict_codec 8192 "\<lambda>sb. IsSupportedGenericFileKind (fs_file_kind sb)"
    FileSuperblock_image EncodeFileSuperblock
    "\<lambda>s. case DecodeFileSuperblock s of Ok sb \<Rightarrow> Some sb | Unexpected _ \<Rightarrow> None"
proof unfold_locales
  show "(case DecodeFileSuperblock s of Ok sb \<Rightarrow> Some sb | Unexpected _ \<Rightarrow> None) =
      (case DecodeFileSuperblock (take 8192 s) of Ok sb \<Rightarrow> Some sb | Unexpected _ \<Rightarrow> None)"
    if "8192 \<le> length s" for s
    using that by (simp flip: DecodeFileSuperblock_prefix)
next
  show "(case DecodeFileSuperblock s of Ok sb \<Rightarrow> Some sb | Unexpected _ \<Rightarrow> None) = None"
    if "length s < 8192" for s
    using that by (simp add: DecodeFileSuperblock_def)
next
  fix s sb
  assume "(case DecodeFileSuperblock s of Ok sb \<Rightarrow> Some sb | Unexpected _ \<Rightarrow> None) = Some sb"
  then show "IsSupportedGenericFileKind (fs_file_kind sb) \<and> FileSuperblock_image sb = take 8192 s"
    by (auto dest: Decode_superblock_strict split: sum.splits)
qed (simp_all add: EncodeFileSuperblock_eq Decode_superblock_image)

end
