(* ===== verification/Page_File.thy ===== *)
theory Page_File
  imports Disk_Store File_Superblock
begin

text \<open>
  \<open>src/src/storage/file/page_file.h\<close> and \<open>page_file.cpp\<close>: the controller of one registered file.
  The \<open>DiskManager\<close> is caller-owned state, passed along; the pointer \<open>disk_manager_\<close> is the
  flag \<open>pf_attached\<close>, false only after a move or a release.
\<close>

datatype PageFileOperation = CREATE | OPEN | ALLOCATE_PAGE

datatype PageFileErrorCode =
    DISK_ERROR | SUPERBLOCK_ENCODING_FAILED | SUPERBLOCK_INVALID | FILE_ID_MISMATCH
  | FILE_KIND_MISMATCH | OBJECT_ID_MISMATCH | UNEXPECTED_INITIAL_PAGE_COUNT | MISSING_SUPERBLOCK
  | UNEXPECTED_SUPERBLOCK_PAGE_NUMBER | DATA_PAGE_ZERO_ALLOCATED | NOT_OPEN

record PageFileError =
  pe_code :: PageFileErrorCode
  pe_operation :: PageFileOperation
  pe_disk_error :: DiskError
  pe_superblock_error :: FileSuperblockDecodeError
  pe_expected_file_id :: FileId
  pe_actual_file_id :: FileId
  pe_expected_file_kind :: FileKind
  pe_actual_file_kind :: FileKind
  pe_expected_object_id :: "64 word"
  pe_actual_object_id :: "64 word"
  pe_actual_page_count :: PageNo
  pe_actual_page_no :: PageNo

definition PageFileError_default :: "PageFileErrorCode \<Rightarrow> PageFileOperation \<Rightarrow> PageFileError" where
  "PageFileError_default code operation =
     \<lparr>pe_code = code, pe_operation = operation, pe_disk_error = default_DiskError,
      pe_superblock_error = SB_NONE, pe_expected_file_id = INVALID_FILE_ID,
      pe_actual_file_id = INVALID_FILE_ID, pe_expected_file_kind = HEAP,
      pe_actual_file_kind = HEAP, pe_expected_object_id = 0, pe_actual_object_id = 0,
      pe_actual_page_count = 0, pe_actual_page_no = INVALID_PAGE_NO\<rparr>"

definition DiskFailure :: "PageFileOperation \<Rightarrow> DiskError \<Rightarrow> PageFileError" where
  "DiskFailure operation disk_error =
     (PageFileError_default DISK_ERROR operation)\<lparr>pe_disk_error := disk_error\<rparr>"

record PageFile =
  pf_attached :: bool
  pf_superblock :: FileSuperblock

type_synonym 'k page_file_result = "((PageFile, PageFileError) result \<times> DiskManager \<times> 'k) option"

definition CleanupRegistration :: "'k posix \<Rightarrow> FileId \<Rightarrow> DiskManager \<Rightarrow> 'k \<Rightarrow> DiskManager \<times> 'k" where
  "CleanupRegistration os fid dm k = snd (CloseFile os fid dm k)"

text \<open>\<open>CleanupRegistration(...); return Failure(error);\<close>\<close>

definition fail_registered :: "'k posix \<Rightarrow> FileId \<Rightarrow> PageFileError \<Rightarrow> DiskManager \<Rightarrow> 'k \<Rightarrow>
    'k page_file_result" where
  "fail_registered os fid error dm k = Some (Unexpected error, CleanupRegistration os fid dm k)"

definition PageFile_Create :: "'k posix \<Rightarrow> string \<Rightarrow> FileSuperblock \<Rightarrow> DiskManager \<Rightarrow> 'k \<Rightarrow>
    'k page_file_result" where
  "PageFile_Create os path superblock dm k = do {
     (create, dm, k) \<leftarrow> CreateFile os (fs_file_id superblock) path dm k;
     (case create of
        Unexpected e \<Rightarrow> Some (Unexpected (DiskFailure CREATE e), dm, k)
      | Ok _ \<Rightarrow> do {
     (page_count, k) \<leftarrow> PageCount os (fs_file_id superblock) dm k;
     (case page_count of
        Unexpected e \<Rightarrow> fail_registered os (fs_file_id superblock) (DiskFailure CREATE e) dm k
      | Ok page_count \<Rightarrow>
     if page_count \<noteq> 0
     then fail_registered os (fs_file_id superblock)
            ((PageFileError_default UNEXPECTED_INITIAL_PAGE_COUNT CREATE)
              \<lparr>pe_actual_page_count := page_count\<rparr>) dm k
     else do {
     (extended, k) \<leftarrow> ExtendFile os (fs_file_id superblock) dm k;
     (case extended of
        Unexpected e \<Rightarrow> fail_registered os (fs_file_id superblock) (DiskFailure CREATE e) dm k
      | Ok extended \<Rightarrow>
     if extended \<noteq> 0
     then fail_registered os (fs_file_id superblock)
            ((PageFileError_default UNEXPECTED_SUPERBLOCK_PAGE_NUMBER CREATE)
              \<lparr>pe_actual_page_no := extended\<rparr>) dm k
     else
     (let superblock_page = Page_new (PageId (fs_file_id superblock) 0)
      in case EncodeFileSuperblock (Page_bytes superblock_page) superblock of
        None \<Rightarrow> fail_registered os (fs_file_id superblock)
                  (PageFileError_default SUPERBLOCK_ENCODING_FAILED CREATE) dm k
      | Some bytes \<Rightarrow> do {
     (written, k) \<leftarrow> WritePage os (Page_id superblock_page) bytes dm k;
     (case written of
        Unexpected e \<Rightarrow> fail_registered os (fs_file_id superblock) (DiskFailure CREATE e) dm k
      | Ok _ \<Rightarrow> do {
     (synced, k) \<leftarrow> SyncFile os (fs_file_id superblock) dm k;
     (case synced of
        Unexpected e \<Rightarrow> fail_registered os (fs_file_id superblock) (DiskFailure CREATE e) dm k
      | Ok _ \<Rightarrow> Some (Ok \<lparr>pf_attached = True, pf_superblock = superblock\<rparr>, dm, k))
     }) }))
     }) }) }"

definition PageFile_Open :: "'k posix \<Rightarrow> string \<Rightarrow> FileId \<Rightarrow> FileKind \<Rightarrow> (64 word) option \<Rightarrow>
    DiskManager \<Rightarrow> 'k \<Rightarrow> 'k page_file_result" where
  "PageFile_Open os path expected_file_id expected_file_kind expected_object_id dm k = do {
     (opened, dm, k) \<leftarrow> OpenFile os expected_file_id path dm k;
     (case opened of
        Unexpected e \<Rightarrow> Some (Unexpected (DiskFailure OPEN e), dm, k)
      | Ok _ \<Rightarrow> do {
     (page_count, k) \<leftarrow> PageCount os expected_file_id dm k;
     (case page_count of
        Unexpected e \<Rightarrow> fail_registered os expected_file_id (DiskFailure OPEN e) dm k
      | Ok page_count \<Rightarrow>
     if page_count = 0
     then fail_registered os expected_file_id
            ((PageFileError_default MISSING_SUPERBLOCK OPEN)\<lparr>pe_actual_page_count := 0\<rparr>) dm k
     else
     (let superblock_page = Page_new (PageId expected_file_id 0)
      in do {
     (read, bytes, k) \<leftarrow> ReadPage os (Page_id superblock_page) (Page_bytes superblock_page) dm k;
     (case read of
        Unexpected e \<Rightarrow> fail_registered os expected_file_id (DiskFailure OPEN e) dm k
      | Ok _ \<Rightarrow>
     (case DecodeFileSuperblock bytes of
        Unexpected e \<Rightarrow> fail_registered os expected_file_id
            ((PageFileError_default SUPERBLOCK_INVALID OPEN)\<lparr>pe_superblock_error := e\<rparr>) dm k
      | Ok superblock \<Rightarrow>
     if fs_file_id superblock \<noteq> expected_file_id
     then fail_registered os expected_file_id
            ((PageFileError_default FILE_ID_MISMATCH OPEN)
              \<lparr>pe_expected_file_id := expected_file_id, pe_actual_file_id := fs_file_id superblock\<rparr>) dm k
     else if fs_file_kind superblock \<noteq> expected_file_kind
     then fail_registered os expected_file_id
            ((PageFileError_default FILE_KIND_MISMATCH OPEN)
              \<lparr>pe_expected_file_kind := expected_file_kind,
               pe_actual_file_kind := fs_file_kind superblock\<rparr>) dm k
     else
     (case expected_object_id of
        Some object_id \<Rightarrow>
          if fs_object_id superblock \<noteq> object_id
          then fail_registered os expected_file_id
                 ((PageFileError_default OBJECT_ID_MISMATCH OPEN)
                   \<lparr>pe_expected_object_id := object_id,
                    pe_actual_object_id := fs_object_id superblock\<rparr>) dm k
          else Some (Ok \<lparr>pf_attached = True, pf_superblock = superblock\<rparr>, dm, k)
      | None \<Rightarrow> Some (Ok \<lparr>pf_attached = True, pf_superblock = superblock\<rparr>, dm, k))))
     })) }) }"

definition Superblock :: "PageFile \<Rightarrow> FileSuperblock" where
  "Superblock pf = pf_superblock pf"

definition AllocatePage :: "'k posix \<Rightarrow> PageFile \<Rightarrow> DiskManager \<Rightarrow> 'k \<Rightarrow>
    ((PageId, PageFileError) result \<times> 'k) option" where
  "AllocatePage os pf dm k =
     (if \<not> pf_attached pf then Some (Unexpected (PageFileError_default NOT_OPEN ALLOCATE_PAGE), k)
      else do {
        (extended, k) \<leftarrow> ExtendFile os (fs_file_id (pf_superblock pf)) dm k;
        (case extended of
           Unexpected e \<Rightarrow> Some (Unexpected (DiskFailure ALLOCATE_PAGE e), k)
         | Ok extended \<Rightarrow>
             if extended = 0
             then Some (Unexpected ((PageFileError_default DATA_PAGE_ZERO_ALLOCATED ALLOCATE_PAGE)
                    \<lparr>pe_actual_page_no := extended\<rparr>), k)
             else Some (Ok (PageId (fs_file_id (pf_superblock pf)) extended), k))
      })"

definition PageFile_Release :: "'k posix \<Rightarrow> PageFile \<Rightarrow> DiskManager \<Rightarrow> 'k \<Rightarrow>
    PageFile \<times> DiskManager \<times> 'k" where
  "PageFile_Release os pf dm k =
     (if pf_attached pf
      then (pf\<lparr>pf_attached := False\<rparr>, snd (CloseFile os (fs_file_id (pf_superblock pf)) dm k))
      else (pf, dm, k))"

definition PageFile_destroy :: "'k posix \<Rightarrow> PageFile \<Rightarrow> DiskManager \<Rightarrow> 'k \<Rightarrow> DiskManager \<times> 'k" where
  "PageFile_destroy os pf dm k = snd (PageFile_Release os pf dm k)"

definition PageFile_move :: "PageFile \<Rightarrow> PageFile \<times> PageFile" where
  "PageFile_move other =
     (\<lparr>pf_attached = pf_attached other, pf_superblock = pf_superblock other\<rparr>,
      other\<lparr>pf_attached := False\<rparr>)"

text \<open>Move assignment between two distinct objects; self-assignment does nothing.\<close>

definition PageFile_move_assign :: "'k posix \<Rightarrow> PageFile \<Rightarrow> PageFile \<Rightarrow> DiskManager \<Rightarrow> 'k \<Rightarrow>
    PageFile \<times> PageFile \<times> DiskManager \<times> 'k" where
  "PageFile_move_assign os this other dm k =
     (let (this, dm, k) = PageFile_Release os this dm k
      in (this\<lparr>pf_attached := pf_attached other, pf_superblock := pf_superblock other\<rparr>,
          other\<lparr>pf_attached := False\<rparr>, dm, k))"

end
