(* ===== verification/Page_File_Spec.thy ===== *)
theory Page_File_Spec
  imports Page_File
begin

text \<open>
  What creating, opening and extending a page file promises: every outcome returns, a failure
  leaves the registry and the open descriptors exactly as they were, a created file holds exactly
  its superblock page, and an opened file is one whose page zero is the superblock asked for.
\<close>

lemma registered_then_closed:
  assumes "file_registered fid path d dm v dm1 v1" and "file_closed fid dm1 v2 dm' v'"
    and "ov_fds v2 = ov_fds v1"
  shows "dm' = dm \<and> ov_fds v' = ov_fds v \<and> ov_data v' = ov_data v2 \<and> ov_names v' = ov_names v2"
  using assms by (cases dm) (auto simp: file_registered_def file_closed_def fun_upd_idem)

lemma file_registered_data: "file_registered fid path d dm v dm' v' \<Longrightarrow>
    file_data dm' v' fid = Some d \<and> dm_files dm' fid \<noteq> None"
  by (auto simp: file_registered_def file_data_def)

definition superblock_stored :: "string \<Rightarrow> FileSuperblock \<Rightarrow> os_view \<Rightarrow> bool" where
  "superblock_stored path sb v =
     (\<exists>i. ov_names v (c_str path) = Some i \<and> ov_data v i = Some (FileSuperblock_image sb))"

text \<open>The outcome of \<open>Create\<close>.\<close>

definition create_outcome :: "string \<Rightarrow> FileSuperblock \<Rightarrow> DiskManager \<Rightarrow> os_view \<Rightarrow>
    (PageFile, PageFileError) result \<Rightarrow> DiskManager \<Rightarrow> os_view \<Rightarrow> bool" where
  "create_outcome path sb dm v r dm' v' =
     (case r of
        Unexpected e \<Rightarrow> dm' = dm \<and> ov_fds v' = ov_fds v
      | Ok pf \<Rightarrow>
          pf = \<lparr>pf_attached = True, pf_superblock = sb\<rparr> \<and>
          IsSupportedGenericFileKind (fs_file_kind sb) \<and> disk_ok dm' v' \<and>
          file_data dm' v' (fs_file_id sb) = Some (FileSuperblock_image sb) \<and>
          superblock_stored path sb v' \<and> dm_files dm (fs_file_id sb) = None \<and>
          (\<exists>fd. ov_fds v fd = None \<and>
            dm' = dm\<lparr>dm_files := (dm_files dm)(fs_file_id sb \<mapsto> \<lparr>fe_descriptor = fd, fe_path = path\<rparr>)\<rparr> \<and>
            v'\<lparr>ov_fds := (ov_fds v')(fd := None)\<rparr>  = v'\<lparr>ov_fds := ov_fds v\<rparr>))"

text \<open>The outcome of \<open>Open\<close>: it never changes names or contents; a failure leaves everything
  as it was, and a file holding the encoding of the superblock asked for fails only with a disk
  error.\<close>

definition asked_for :: "FileId \<Rightarrow> FileKind \<Rightarrow> (64 word) option \<Rightarrow> FileSuperblock \<Rightarrow> bool" where
  "asked_for fid kind obj sb =
     (fs_file_id sb = fid \<and> fs_file_kind sb = kind \<and> (obj = None \<or> obj = Some (fs_object_id sb)))"

definition open_outcome :: "string \<Rightarrow> FileId \<Rightarrow> FileKind \<Rightarrow> (64 word) option \<Rightarrow> DiskManager \<Rightarrow> os_view \<Rightarrow>
    (PageFile, PageFileError) result \<Rightarrow> DiskManager \<Rightarrow> os_view \<Rightarrow> bool" where
  "open_outcome path fid kind obj dm v r dm' v' =
     (case r of
        Unexpected e \<Rightarrow>
          dm' = dm \<and> v' = v \<and>
          (pe_code e = DISK_ERROR \<or>
           (\<forall>sb. superblock_stored path sb v \<and> IsSupportedGenericFileKind (fs_file_kind sb) \<longrightarrow>
             \<not> asked_for fid kind obj sb))
      | Ok pf \<Rightarrow>
          pf_attached pf \<and> asked_for fid kind obj (pf_superblock pf) \<and>
          IsSupportedGenericFileKind (fs_file_kind (pf_superblock pf)) \<and> disk_ok dm' v' \<and>
          ov_names v' = ov_names v \<and> ov_data v' = ov_data v \<and>
          (\<exists>e. dm' = dm\<lparr>dm_files := (dm_files dm)(fid \<mapsto> e)\<rparr>) \<and>
          disk_page dm' v' (PageId fid 0) = Some (FileSuperblock_image (pf_superblock pf)) \<and>
          (\<forall>sb. superblock_stored path sb v \<longrightarrow>
            FileSuperblock_image sb = FileSuperblock_image (pf_superblock pf)))"

context posix_kernel
begin

lemma fail_registered_spec:
  assumes "dm_files dm fid \<noteq> None"
  shows "\<exists>dm' k'. fail_registered os fid error dm k = Some (Unexpected error, dm', k') \<and>
    file_closed fid dm (view k) dm' (view k')"
proof -
  obtain r dm' k' where "CloseFile os fid dm k = (r, dm', k')" by (cases "CloseFile os fid dm k")
  with CloseFile_spec[OF this] assms show ?thesis
    by (simp add: fail_registered_def CleanupRegistration_def)
qed

lemma PageFile_Create_spec:
  assumes ok: "disk_ok dm (view k)"
  shows "\<exists>r dm' k'. PageFile_Create os path sb dm k = Some (r, dm', k') \<and>
    create_outcome path sb dm (view k) r dm' (view k')"
proof -
  let ?fid = "fs_file_id sb"
  obtain r1 dm1 k1 where create: "CreateFile os ?fid path dm k = Some (r1, dm1, k1)"
    and reg: "case r1 of
       Ok _ \<Rightarrow> file_registered ?fid path [] dm (view k) dm1 (view k1)
     | Unexpected e \<Rightarrow> dm1 = dm \<and> view k1 = view k"
    using CreateFile_spec by blast
  show ?thesis
  proof (cases r1)
    case (Inl e)
    with reg show ?thesis by (simp add: PageFile_Create_def create create_outcome_def)
  next
    case r1: (Inr u)
    with reg have reg: "file_registered ?fid path [] dm (view k) dm1 (view k1)" by simp
    then have ok1: "disk_ok dm1 (view k1)" using ok by (rule file_registered_ok)
    have cleanup: "\<exists>r dm' k'. fail_registered os ?fid error dm1 k2 = Some (r, dm', k') \<and>
        create_outcome path sb dm (view k) r dm' (view k')" if "ov_fds (view k2) = ov_fds (view k1)" for k2 error
      using fail_registered_spec[of dm1 ?fid error k2] file_registered_data[OF reg]
        registered_then_closed[OF reg _ that]
      by (fastforce simp: create_outcome_def)
    obtain r2 k2 where count: "PageCount os ?fid dm1 k1 = Some (r2, k2)" and v2: "view k2 = view k1"
      using PageCount_spec by blast
    obtain r3 k3 where extend: "ExtendFile os ?fid dm1 k2 = Some (r3, k3)"
      and ext: "case r3 of Ok n \<Rightarrow> file_extended ?fid n dm1 (view k2) (view k3) | Unexpected e \<Rightarrow> view k3 = view k2"
      using ExtendFile_spec[of ?fid dm1 k2] ok1 v2 by auto
    have v3: "ov_fds (view k3) = ov_fds (view k1)"
      using ext v2 by (auto simp: file_extended_def split: sum.splits)
    have ok3: "disk_ok dm1 (view k3)"
      using ext v2 ok1 by (auto simp: file_extended_def split: sum.splits)
    let ?image = "FileSuperblock_image sb"
    obtain r4 k4 where written: "WritePage os (PageId ?fid 0) ?image dm1 k3 = Some (r4, k4)"
      and wr: "case r4 of
         Ok _ \<Rightarrow> page_written (PageId ?fid 0) ?image dm1 (view k3) (view k4)
       | Unexpected e \<Rightarrow> view k4 = view k3 \<or>
           de_code e = SYSTEM_ERROR \<and> page_torn (PageId ?fid 0) dm1 (view k3) (view k4)"
      using WritePage_spec[of "PageId ?fid 0" ?image dm1 k3, unfolded PageId.sel] ok3
        length_FileSuperblock_image by blast
    have v4: "ov_fds (view k4) = ov_fds (view k1)"
      using wr v3 by (auto simp: page_written_def page_torn_def split: sum.splits)
    obtain r5 k5 where sync: "SyncFile os ?fid dm1 k4 = Some (r5, k5)" and v5: "view k5 = view k4"
      using SyncFile_spec by blast
    show ?thesis
    proof (cases "r2 = Ok 0 \<and> r3 = Ok 0 \<and> IsSupportedGenericFileKind (fs_file_kind sb) \<and> r4 = Ok () \<and> r5 = Ok ()")
      case True
      then have run: "PageFile_Create os path sb dm k =
          Some (Ok \<lparr>pf_attached = True, pf_superblock = sb\<rparr>, dm1, k5)"
        by (simp add: PageFile_Create_def create r1 count extend written sync Page_new_def
            EncodeFileSuperblock_eq)
      from reg obtain fd i where fd: "ov_fds (view k) fd = None" and free: "dm_files dm ?fid = None"
        and dm1: "dm1 = dm\<lparr>dm_files := (dm_files dm)(?fid \<mapsto> \<lparr>fe_descriptor = fd, fe_path = path\<rparr>)\<rparr>"
        and empty: "fd_data (view k1) fd = Some []" and fds1: "ov_fds (view k1) = (ov_fds (view k))(fd \<mapsto> i)"
        and names1: "ov_names (view k1) (c_str path) = Some i"
        by (auto simp: file_registered_def)
      have view3: "view k3 = set_fd_data fd (resize 8192 []) (view k1)"
        using ext True v2 by (auto simp: file_extended_def dm1 empty)
      have view5: "view k5 = set_fd_data fd ?image (view k1)"
        using wr True v5 empty
        by (auto simp: page_written_def dm1 view3 fd_data_set_same set_fd_data_twice)
      have stored: "fd_data (view k5) fd = Some ?image"
        using empty by (simp add: view5 fd_data_set_same)
      have "create_outcome path sb dm (view k) (Ok \<lparr>pf_attached = True, pf_superblock = sb\<rparr>) dm1 (view k5)"
        unfolding create_outcome_def sum.case
      proof (intro conjI exI[of _ fd])
        show "disk_ok dm1 (view k5)" using ok1 by (simp add: view5)
        show "file_data dm1 (view k5) ?fid = Some ?image" by (simp add: file_data_def dm1 stored)
        show "superblock_stored path sb (view k5)"
          using stored names1 by (auto simp: superblock_stored_def view5 fd_data_def fds1)
        show "(view k5)\<lparr>ov_fds := (ov_fds (view k5))(fd := None)\<rparr> = (view k5)\<lparr>ov_fds := ov_fds (view k)\<rparr>"
          using fd by (simp add: view5 fds1 fun_upd_idem)
      qed (use True dm1 fd free in auto)
      with run show ?thesis by blast
    next
      case False
      then show ?thesis
        using cleanup[of k2] cleanup[of k3] cleanup[of k4] cleanup[of k5] v2 v3 v4 v5
        by (cases r2; cases r3; cases r4; cases r5)
          (auto simp: PageFile_Create_def create r1 count extend written sync Page_new_def
            EncodeFileSuperblock_eq Let_def split: if_splits)
    qed
  qed
qed

lemma registered_contents:
  assumes "file_registered fid path d dm v dm' v'" and "ov_names v' = ov_names v"
    and "ov_data v' = ov_data v" and "superblock_stored path sb v"
  shows "d = FileSuperblock_image sb"
proof -
  from assms(1) obtain fd i where fd: "fd_data v' fd = Some d" "ov_fds v' = (ov_fds v)(fd \<mapsto> i)"
    and "ov_names v' = (ov_names v)(c_str path \<mapsto> i)" by (auto simp: file_registered_def)
  then have "ov_names v (c_str path) = Some i" using assms(2) by (metis fun_upd_same)
  with assms(3,4) fd show ?thesis by (simp add: superblock_stored_def fd_data_def)
qed

lemma PageFile_Open_spec:
  assumes ok: "disk_ok dm (view k)"
  shows "\<exists>r dm' k'. PageFile_Open os path fid kind obj dm k = Some (r, dm', k') \<and>
    open_outcome path fid kind obj dm (view k) r dm' (view k')"
proof -
  have vok: "view_ok (view k)" using ok by (simp add: disk_ok_def)
  obtain r1 dm1 k1 where opened: "OpenFile os fid path dm k = Some (r1, dm1, k1)"
    and reg: "case r1 of
       Ok _ \<Rightarrow> view_ok (view k) \<longrightarrow>
         ov_names (view k1) = ov_names (view k) \<and> ov_data (view k1) = ov_data (view k) \<and>
         (\<exists>d. 8192 dvd length d \<and> file_registered fid path d dm (view k) dm1 (view k1))
     | Unexpected e \<Rightarrow> dm1 = dm \<and> view k1 = view k"
    using OpenFile_spec by blast
  show ?thesis
  proof (cases r1)
    case (Inl e)
    with reg show ?thesis
      by (simp add: PageFile_Open_def opened open_outcome_def DiskFailure_def PageFileError_default_def)
  next
    case r1: (Inr u)
    with reg vok obtain d where same: "ov_names (view k1) = ov_names (view k)" "ov_data (view k1) = ov_data (view k)"
      and reg: "file_registered fid path d dm (view k) dm1 (view k1)" and "8192 dvd length d" by auto
    then have ok1: "disk_ok dm1 (view k1)" using ok by (auto intro: file_registered_ok)
    have contents: "file_data dm1 (view k1) fid = Some d"
      using file_registered_data[OF reg] by blast
    have stored: "superblock_stored path sb (view k) \<Longrightarrow> d = FileSuperblock_image sb" for sb
      by (rule registered_contents[OF reg same])
    have cleanup: "\<exists>r dm' k'. fail_registered os fid error dm1 k2 = Some (r, dm', k') \<and>
        open_outcome path fid kind obj dm (view k) r dm' (view k')"
      if "view k2 = view k1"
        and "pe_code error = DISK_ERROR \<or> (\<forall>sb. superblock_stored path sb (view k) \<and>
          IsSupportedGenericFileKind (fs_file_kind sb) \<longrightarrow> \<not> asked_for fid kind obj sb)" for k2 error
    proof -
      obtain dm' k' where "fail_registered os fid error dm1 k2 = Some (Unexpected error, dm', k')"
        and "file_closed fid dm1 (view k2) dm' (view k')"
        using fail_registered_spec[of dm1 fid error k2] file_registered_data[OF reg] by blast
      moreover from registered_then_closed[OF reg this(2)] same that(1)
      have "dm' = dm \<and> view k' = view k" by (cases "view k'", cases "view k") auto
      ultimately show ?thesis using that(2) by (auto simp: open_outcome_def)
    qed
    obtain r2 k2 where count: "PageCount os fid dm1 k1 = Some (r2, k2)" and v2: "view k2 = view k1"
      and pages: "\<And>n. r2 = Ok n \<Longrightarrow> length d = unat n * 8192"
      using PageCount_spec[of fid dm1 k1] ok1 contents by auto
    obtain r3 bytes k3 where read: "ReadPage os (PageId fid 0) (replicate 8192 0) dm1 k2 = Some (r3, bytes, k3)"
      and v3: "view k3 = view k1"
      and page0: "\<And>u. r3 = Ok u \<Longrightarrow> disk_page dm1 (view k1) (PageId fid 0) = Some bytes"
      using ReadPage_spec[of "PageId fid 0" "replicate 8192 0" dm1 k2] ok1 v2 by auto
    have zero: "\<not> superblock_stored path sb (view k)" if "r2 = Ok 0" for sb
    proof
      assume "superblock_stored path sb (view k)"
      with stored have "length d = 8192" by simp
      with pages[OF that] show False by simp
    qed
    have bytes: "r3 = Ok u \<Longrightarrow> length bytes = 8192 \<and>
        (superblock_stored path sb (view k) \<longrightarrow> bytes = FileSuperblock_image sb)" for sb u
      using page0[of u] stored[of sb] by (auto simp: disk_page_def contents page_at_def split: if_splits)
    show ?thesis
    proof (cases "(\<exists>n. r2 = Ok n \<and> n \<noteq> 0) \<and> r3 = Ok () \<and> (\<exists>sb. DecodeFileSuperblock bytes = Ok sb \<and> asked_for fid kind obj sb)")
      case True
      then obtain n sb where n: "r2 = Ok n" "n \<noteq> 0" and r3: "r3 = Ok ()"
        and decoded: "DecodeFileSuperblock bytes = Ok sb" and asked: "asked_for fid kind obj sb" by blast
      have run: "PageFile_Open os path fid kind obj dm k =
          Some (Ok \<lparr>pf_attached = True, pf_superblock = sb\<rparr>, dm1, k3)"
        using n r3 decoded asked
        by (auto simp: PageFile_Open_def opened r1 count read Page_new_def Let_def asked_for_def
            split: option.splits)
      have image: "bytes = FileSuperblock_image sb" "IsSupportedGenericFileKind (fs_file_kind sb)"
        using decoded bytes[OF r3] by (auto simp: DecodeFileSuperblock_Ok_iff)
      have unique: "superblock_stored path sb' (view k) \<Longrightarrow> FileSuperblock_image sb' = FileSuperblock_image sb" for sb'
        using bytes[OF r3, of sb'] image by simp
      have "open_outcome path fid kind obj dm (view k) (Ok \<lparr>pf_attached = True, pf_superblock = sb\<rparr>) dm1 (view k3)"
        using ok1 same asked image page0[OF r3] unique reg
        by (auto simp: open_outcome_def v3 file_registered_def)
      with run show ?thesis by blast
    next
      case False
      have rejected: "pe_code error = DISK_ERROR \<or> (\<forall>sb. superblock_stored path sb (view k) \<and>
          IsSupportedGenericFileKind (fs_file_kind sb) \<longrightarrow> \<not> asked_for fid kind obj sb)"
        if "r3 = Ok ()" "\<And>sb. DecodeFileSuperblock bytes = Ok sb \<Longrightarrow> \<not> asked_for fid kind obj sb" for error
        using that(2) bytes[OF that(1)] Decode_superblock_image by metis
      show ?thesis
      proof (cases "\<exists>n. r2 = Ok n \<and> n \<noteq> 0 \<and> r3 = Ok ()")
        case True
        then obtain n where n: "r2 = Ok n" "n \<noteq> 0" and r3: "r3 = Ok ()" by blast
        with False have "DecodeFileSuperblock bytes = Ok sb \<Longrightarrow> \<not> asked_for fid kind obj sb" for sb
          by blast
        from cleanup[OF v3 rejected[OF r3 this]] this show ?thesis
          by (cases "DecodeFileSuperblock bytes")
            (auto simp: PageFile_Open_def opened r1 count read n r3 Page_new_def Let_def asked_for_def
              split: option.splits)
      next
        case False
        then show ?thesis
          using cleanup[OF v2] cleanup[OF v3] zero
          by (cases r2; cases r3)
            (auto simp: PageFile_Open_def opened r1 count read Page_new_def Let_def DiskFailure_def
              PageFileError_default_def)
      qed
    qed
  qed
qed

text \<open>Allocation: the new page is the one after the last, it reads as zeros, no other page changes,
  and it is never page zero.\<close>

lemma AllocatePage_spec:
  assumes ok: "disk_ok dm (view k)" and attached: "pf_attached pf"
  shows "\<exists>r k'. AllocatePage os pf dm k = Some (r, k') \<and>
    (case r of
       Ok pid \<Rightarrow> file_id pid = fs_file_id (pf_superblock pf) \<and> page_no pid \<noteq> 0 \<and>
         file_extended (file_id pid) (page_no pid) dm (view k) (view k')
     | Unexpected e \<Rightarrow> pe_code e = DISK_ERROR \<and> view k' = view k \<or>
         pe_code e = DATA_PAGE_ZERO_ALLOCATED \<and> file_data dm (view k) (fs_file_id (pf_superblock pf)) = Some [] \<and>
         file_extended (fs_file_id (pf_superblock pf)) 0 dm (view k) (view k'))"
proof -
  let ?fid = "fs_file_id (pf_superblock pf)"
  obtain r k' where extend: "ExtendFile os ?fid dm k = Some (r, k')"
    and ext: "case r of Ok n \<Rightarrow> file_extended ?fid n dm (view k) (view k') | Unexpected e \<Rightarrow> view k' = view k"
    using ExtendFile_spec[of ?fid dm k] ok by auto
  show ?thesis
  proof (cases r)
    case (Inl e)
    with ext show ?thesis
      by (simp add: AllocatePage_def attached extend DiskFailure_def PageFileError_default_def)
  next
    case (Inr n)
    with ext show ?thesis
      by (cases "n = 0")
        (auto simp: AllocatePage_def attached extend PageFileError_default_def file_extended_def file_data_def)
  qed
qed

lemma PageFile_Release_spec:
  assumes "PageFile_Release os pf dm k = (pf', dm', k')" and "dm_files dm (fs_file_id (pf_superblock pf)) \<noteq> None"
    and "pf_attached pf"
  shows "\<not> pf_attached pf' \<and> pf_superblock pf' = pf_superblock pf \<and>
    file_closed (fs_file_id (pf_superblock pf)) dm (view k) dm' (view k')"
proof -
  obtain r dm1 k1 where "CloseFile os (fs_file_id (pf_superblock pf)) dm k = (r, dm1, k1)"
    by (cases "CloseFile os (fs_file_id (pf_superblock pf)) dm k")
  with CloseFile_spec[OF this] assms show ?thesis by (auto simp: PageFile_Release_def)
qed

end

lemma file_extended_fresh:
  "file_extended fid n dm v v' \<Longrightarrow> file_id pid = fid \<Longrightarrow> page_no pid = n \<Longrightarrow> disk_page dm v pid = None"
  by (auto simp: file_extended_def disk_page_def file_data_def page_at_def)

lemma file_extended_length:
  "file_extended fid n dm v v' \<Longrightarrow> \<exists>d. file_data dm v fid = Some d \<and> length d = unat n * 8192"
  by (auto simp: file_extended_def file_data_def)

lemma file_closed_keeps:
  "file_closed fid dm v dm' v' \<Longrightarrow> ov_names v' = ov_names v \<and> ov_data v' = ov_data v \<and>
    dm_files dm' fid = None"
  by (auto simp: file_closed_def)

lemma superblock_stored_cong:
  "ov_names v' = ov_names v \<Longrightarrow> ov_data v' = ov_data v \<Longrightarrow>
   superblock_stored path sb v' = superblock_stored path sb v"
  by (simp add: superblock_stored_def)

lemma FileSuperblock_image_inject:
  assumes "IsSupportedGenericFileKind (fs_file_kind sb)" and "IsSupportedGenericFileKind (fs_file_kind sb')"
    and "FileSuperblock_image sb = FileSuperblock_image sb'"
  shows "sb = sb'"
  using assms by (rule file_superblock.image_inject)

end
