(* ===== verification/Sample_Files.thy ===== *)
theory Sample_Files
  imports Page_File_Spec
begin

text \<open>
  Concrete runs of the disk manager and the page file on the sample kernel, for the witnesses: an
  open file of two zero pages under a script of interruptions and short transfers, and a file
  created from nothing.
\<close>

definition two_pages :: os_view where
  "two_pages = \<lparr>ov_names = [''t'' \<mapsto> 0], ov_data = [0 \<mapsto> replicate 16384 0], ov_fds = [3 \<mapsto> 0]\<rparr>"

definition sample_dm :: DiskManager where
  "sample_dm = \<lparr>dm_files = [7 \<mapsto> \<lparr>fe_descriptor = 3, fe_path = ''t''\<rparr>]\<rparr>"

definition rough_kernel :: "disturbance list \<Rightarrow> sample_kernel" where
  "rough_kernel script = \<lparr>sk_view = two_pages, sk_next = 4, sk_script = script\<rparr>"

definition empty_view :: os_view where
  "empty_view = \<lparr>ov_names = Map.empty, ov_data = Map.empty, ov_fds = Map.empty\<rparr>"

definition blank_kernel :: "disturbance list \<Rightarrow> sample_kernel" where
  "blank_kernel script = \<lparr>sk_view = empty_view, sk_next = 3, sk_script = script\<rparr>"

definition ones :: "byte list" where "ones = replicate 8192 1"

lemma rough_view [simp]: "sk_view (rough_kernel s) = two_pages"
  by (simp add: rough_kernel_def)

lemma blank_view [simp]: "sk_view (blank_kernel s) = empty_view"
  by (simp add: blank_kernel_def)

lemma sample_disk_ok: "disk_ok sample_dm two_pages"
  by (auto simp: disk_ok_def view_ok_def sample_dm_def two_pages_def split: if_splits)

lemma empty_disk_ok: "disk_ok DiskManager_new empty_view"
  by (auto simp: disk_ok_def view_ok_def DiskManager_new_def empty_view_def)

lemmas sample_run = retry.simps sample_calls disturbed_def sk_fstat_def sk_update_def fd_data_def
  set_fd_data_def EINTR_def EIO_def size_unaligned_def FstatWithRetry_def FtruncateWithRetry_def
  FdatasyncWithRetry_def OpenWithRetry_def CloseDescriptor_def PageOffset_def max_full_page_no_value
  FindFile_def PageCount_def FileSize_def

text \<open>A page write through an interrupted \<open>fstat\<close>, an interrupted and a cut \<open>pwrite\<close>.\<close>

lemma sample_write:
  "\<exists>k'. WritePage sample_os (PageId 7 1) ones sample_dm
      (rough_kernel [INTERRUPT, QUIET, INTERRUPT, SHORT 100]) = Some (Ok (), k')"
  by (simp add: WritePage_def sample_run WritePage_loop.simps sample_dm_def rough_kernel_def
      two_pages_def ones_def word_le_nat_alt)

lemma sample_open:
  "\<exists>k'. OpenFile sample_os 7 ''t'' DiskManager_new (rough_kernel []) =
    Some (Ok (), DiskManager_new\<lparr>dm_files := [7 \<mapsto> \<lparr>fe_descriptor = 4, fe_path = ''t''\<rparr>]\<rparr>, k')"
  by (simp add: OpenFile_def sample_run sk_open_def Let_def rough_kernel_def two_pages_def c_str_def
      DiskManager_new_def)

lemma sample_extend:
  "\<exists>k'. ExtendFile sample_os 7 sample_dm (rough_kernel [QUIET, INTERRUPT]) = Some (Ok 2, k')"
  by (simp add: ExtendFile_def sample_run sample_dm_def rough_kernel_def two_pages_def max_off_t_def
      word_le_nat_alt word_less_nat_alt)

definition sample_superblock :: FileSuperblock where
  "sample_superblock =
     \<lparr>fs_file_kind = HEAP, fs_file_id = 7, fs_page_lsn = 0, fs_object_id = 11, fs_creation_epoch = 2\<rparr>"

text \<open>Creating a file, interrupted once at every call that is retried.\<close>

lemma sample_create:
  "\<exists>pf dm' k'. PageFile_Create sample_os ''t'' sample_superblock DiskManager_new
      (blank_kernel [INTERRUPT, QUIET, QUIET, INTERRUPT]) = Some (Ok pf, dm', k')"
  by (simp add: PageFile_Create_def CreateFile_def sample_run ExtendFile_def WritePage_def
      WritePage_loop.simps SyncFile_def DiskManager_new_def blank_kernel_def empty_view_def
      sk_create_def sample_superblock_def c_str_def Page_new_def EncodeFileSuperblock_eq Let_def max_off_t_def)

text \<open>Creating a file on a full device: \<open>ftruncate\<close> fails with \<open>ENOSPC\<close>.\<close>

lemma sample_create_fails:
  "\<exists>e dm' k'. PageFile_Create sample_os ''t'' sample_superblock DiskManager_new
      (blank_kernel [QUIET, QUIET, QUIET, FAIL 28]) = Some (Unexpected e, dm', k')"
  by (simp add: PageFile_Create_def CreateFile_def sample_run ExtendFile_def 
      DiskManager_new_def blank_kernel_def empty_view_def fail_registered_def CleanupRegistration_def
      sk_create_def sample_superblock_def c_str_def max_off_t_def)

end
