(* ===== verification/File_Properties.thy ===== *)
theory File_Properties
  imports Sample_Files
begin

text \<open>
  The properties of the file layer: the superblock codec (\<open>file_superblock.cpp\<close>), the disk manager
  (\<open>disk_manager.cpp\<close>) and the page file (\<open>page_file.cpp\<close>). They hold for every kernel that
  satisfies \<open>posix_kernel\<close>; the witnesses run on the sample kernel.
\<close>

section \<open>The superblock\<close>

text \<open>The superblock codec is strict: what the encoder writes decodes to the superblock
  and leaves the bytes past the page alone, and whatever the decoder accepts is, byte for byte, the
  encoding of its answer, so no two pages decode to one superblock.\<close>

lemma superblock_roundtrip:
  "(\<forall>d'. EncodeFileSuperblock d sb = Some d' \<longrightarrow>
      DecodeFileSuperblock d' = Ok sb \<and> length d' = length d \<and> drop 8192 d' = drop 8192 d) \<and>
   (DecodeFileSuperblock s = Ok sb \<longrightarrow> EncodeFileSuperblock s sb = Some s)"
proof -
  have "DecodeFileSuperblock d' = Ok sb" if "EncodeFileSuperblock d sb = Some d'" for d'
    using file_superblock.decode_encode[OF that] by (auto split: sum.splits)
  moreover have "EncodeFileSuperblock s sb = Some s" if "DecodeFileSuperblock s = Ok sb"
    using that by (intro file_superblock.encode_decode) simp
  ultimately show ?thesis
    using file_superblock.encode_length file_superblock.encode_frame by blast
qed

lemma superblock_roundtrip_sample:
  "\<exists>page. EncodeFileSuperblock (replicate 8192 0) sample_superblock = Some page \<and>
     DecodeFileSuperblock page = Ok sample_superblock \<and>
     EncodeFileSuperblock page sample_superblock = Some page"
proof -
  obtain page where page: "EncodeFileSuperblock (replicate 8192 0) sample_superblock = Some page"
    by (simp add: EncodeFileSuperblock_eq sample_superblock_def)
  with superblock_roundtrip[of "replicate 8192 0" sample_superblock page] show ?thesis by blast
qed

section \<open>The disk manager\<close>

text \<open>C22: functional. After a page was written, a read of any page of any registered file either fails
  and leaves the caller's buffer as it was, or delivers the bytes written, if the page is the one
  written (under whatever file id), and the bytes it had before, if it is another page; and the page
  written is not reported missing. The kernel may interrupt calls and cut transfers short.\<close>

theorem write_then_read:
  assumes "posix_kernel os view patience" and "disk_ok dm (view k)" and "length data = 8192"
    and "WritePage os pid data dm k = Some (Ok (), k1)"
  shows "\<exists>r out k2. ReadPage os qid buffer dm k1 = Some (r, out, k2) \<and>
    (let same = file_inode dm (view k) (file_id qid) = file_inode dm (view k) (file_id pid) \<and>
       page_no qid = page_no pid
     in case r of
          Ok _ \<Rightarrow> Some out = (if same then Some data else disk_page dm (view k) qid)
        | Unexpected e \<Rightarrow> out = buffer \<and> (same \<longrightarrow> de_code e \<noteq> PAGE_NOT_FOUND \<and> de_code e \<noteq> SHORT_READ))"
proof -
  note kernel = assms(1)
  have written: "page_written pid data dm (view k) (view k1)"
    using posix_kernel.WritePage_spec[OF kernel, of pid data dm k] assms(2-4) by auto
  then have ok: "disk_ok dm (view k1)" using assms(2) by (auto simp: page_written_def)
  from posix_kernel.ReadPage_spec[OF kernel, of qid buffer dm k1] obtain r out k2 where
    read: "ReadPage os qid buffer dm k1 = Some (r, out, k2)"
    and "\<forall>e. r = Unexpected e \<longrightarrow> out = buffer"
    and "\<forall>u. r = Ok u \<longrightarrow> disk_page dm (view k1) qid = Some out"
    and "\<forall>e. r = Unexpected e \<and> (de_code e = PAGE_NOT_FOUND \<or> de_code e = SHORT_READ) \<longrightarrow>
        disk_page dm (view k1) qid = None"
    using ok by blast
  then show ?thesis
    using disk_page_written[OF written assms(3), of qid] by (auto simp: Let_def split: sum.splits)
qed

theorem write_then_read_witness:
  "\<exists>k1 r out k2. WritePage sample_os (PageId 7 1) ones sample_dm
      (rough_kernel [INTERRUPT, QUIET, INTERRUPT, SHORT 100]) = Some (Ok (), k1) \<and>
    ReadPage sample_os (PageId 7 1) [] sample_dm k1 = Some (r, out, k2) \<and>
    (r = Ok () \<longrightarrow> out = ones)"
proof -
  obtain k1 where w: "WritePage sample_os (PageId 7 1) ones sample_dm
      (rough_kernel [INTERRUPT, QUIET, INTERRUPT, SHORT 100]) = Some (Ok (), k1)"
    using sample_write by blast
  have "length ones = 8192" by (simp add: ones_def)
  from write_then_read[OF sample.posix_kernel_axioms _ this w, of "PageId 7 1" "[]"] w show ?thesis
    by (auto simp: sample_disk_ok Let_def)
qed

text \<open>C27: invariant. In every state the disk manager can reach from an empty registry, whatever its
  operations answered, no file is registered under the invalid id, every registered file has an
  open descriptor of its own, and no two ids share a descriptor.\<close>

theorem registry_invariant:
  assumes "posix_kernel os view patience" and "view_ok (view k0)"
    and "disk_run os (DiskManager_new, k0) (dm, k)"
  shows "dm_files dm INVALID_FILE_ID = None \<and>
    (\<forall>fid e. dm_files dm fid = Some e \<longrightarrow> 0 \<le> fe_descriptor e \<and> file_data dm (view k) fid \<noteq> None) \<and>
    (\<forall>fid e fid' e'. dm_files dm fid = Some e \<longrightarrow> dm_files dm fid' = Some e' \<longrightarrow>
      fe_descriptor e = fe_descriptor e' \<longrightarrow> fid = fid')"
proof -
  have ok: "disk_ok dm (view k)"
    using posix_kernel.disk_run_ok[OF assms(1,3)] disk_ok_new[OF assms(2)] by simp
  have "0 \<le> fe_descriptor e \<and> file_data dm (view k) fid \<noteq> None" if "dm_files dm fid = Some e" for fid e
    using disk_ok_file[OF ok that] by auto
  then show ?thesis using ok unfolding disk_ok_def by blast
qed

theorem registry_invariant_witness:
  "\<exists>k e. disk_run sample_os (DiskManager_new, rough_kernel [])
      (DiskManager_new\<lparr>dm_files := [7 \<mapsto> e]\<rparr>, k) \<and> 0 \<le> fe_descriptor e"
proof -
  let ?e = "\<lparr>fe_descriptor = 4, fe_path = ''t''\<rparr>"
  obtain k where "OpenFile sample_os 7 ''t'' DiskManager_new (rough_kernel []) =
      Some (Ok (), DiskManager_new\<lparr>dm_files := [7 \<mapsto> ?e]\<rparr>, k)"
    using sample_open by blast
  then have run: "disk_run sample_os (DiskManager_new, rough_kernel [])
      (DiskManager_new\<lparr>dm_files := [7 \<mapsto> ?e]\<rparr>, k)"
    by (intro disk_run.step[OF disk_run.refl] disk_step.opened)
  have "view_ok (sk_view (rough_kernel []))" using sample_disk_ok by (simp add: disk_ok_def)
  note conjunct1[OF conjunct2[OF registry_invariant[OF sample.posix_kernel_axioms this run]],
      THEN spec[where x = 7], THEN spec[where x = ?e]]
  then have "0 \<le> fe_descriptor ?e" by simp
  with run show ?thesis by blast
qed

text \<open>C33: termination. Every operation of the disk manager and of the page file returns, however often
  the kernel interrupts its calls and however short it cuts the transfers.\<close>

theorem file_operations_return:
  assumes "posix_kernel os view patience" and "disk_ok dm (view k)"
  shows "CreateFile os fid path dm k \<noteq> None \<and> OpenFile os fid path dm k \<noteq> None \<and>
    PageCount os fid dm k \<noteq> None \<and> ReadPage os pid buffer dm k \<noteq> None \<and>
    WritePage os pid data dm k \<noteq> None \<and> ExtendFile os fid dm k \<noteq> None \<and>
    SyncFile os fid dm k \<noteq> None \<and> PageFile_Create os path sb dm k \<noteq> None \<and>
    PageFile_Open os path fid kind obj dm k \<noteq> None \<and> AllocatePage os pf dm k \<noteq> None"
proof -
  note kernel = assms(1)
  have "AllocatePage os pf dm k \<noteq> None"
    using posix_kernel.AllocatePage_spec[OF kernel assms(2), of pf] by (cases "pf_attached pf") (auto simp: AllocatePage_def)
  moreover have "CreateFile os fid path dm k \<noteq> None" "OpenFile os fid path dm k \<noteq> None"
    using posix_kernel.CreateFile_spec[OF kernel] posix_kernel.OpenFile_spec[OF kernel]
    by (metis option.distinct(1))+
  moreover have "PageCount os fid dm k \<noteq> None" "SyncFile os fid dm k \<noteq> None"
    "ReadPage os pid buffer dm k \<noteq> None"
    using posix_kernel.PageCount_spec[OF kernel] posix_kernel.SyncFile_spec[OF kernel]
      posix_kernel.ReadPage_spec[OF kernel] by (metis option.distinct(1))+
  moreover have "WritePage os pid data dm k \<noteq> None" "ExtendFile os fid dm k \<noteq> None"
    using posix_kernel.WritePage_spec[OF kernel] posix_kernel.ExtendFile_spec[OF kernel]
    by (metis option.distinct(1))+
  moreover have "PageFile_Create os path sb dm k \<noteq> None" "PageFile_Open os path fid kind obj dm k \<noteq> None"
    using posix_kernel.PageFile_Create_spec[OF kernel assms(2)]
      posix_kernel.PageFile_Open_spec[OF kernel assms(2)] by (metis option.distinct(1))+
  ultimately show ?thesis by blast
qed

theorem file_operations_return_witness:
  "ReadPage sample_os (PageId 7 0) [] sample_dm
     (rough_kernel [INTERRUPT, SHORT 3, INTERRUPT, SHORT 5, INTERRUPT]) \<noteq> None"
  using file_operations_return[OF sample.posix_kernel_axioms, of sample_dm
      "rough_kernel [INTERRUPT, SHORT 3, INTERRUPT, SHORT 5, INTERRUPT]"]
  by (simp add: sample_disk_ok)

section \<open>The page file\<close>

text \<open>C23: roundtrip. A file created with a superblock and released is opened again, under its id and
  kind and with or without its object id, with exactly that superblock, unless the kernel fails: the
  validation of the superblock and the identity checks never reject it.\<close>

theorem created_file_opens:
  assumes "posix_kernel os view patience" and "disk_ok dm (view k)"
    and "PageFile_Create os path sb dm k = Some (Ok pf, dm1, k1)"
    and "PageFile_Release os pf dm1 k1 = (pf1, dm2, k2)"
    and "obj = None \<or> obj = Some (fs_object_id sb)"
  shows "dm2 = dm \<and> (\<exists>r dm3 k3.
    PageFile_Open os path (fs_file_id sb) (fs_file_kind sb) obj dm2 k2 = Some (r, dm3, k3) \<and>
    (case r of Ok pf' \<Rightarrow> Superblock pf' = sb | Unexpected e \<Rightarrow> pe_code e = DISK_ERROR))"
proof -
  note kernel = assms(1)
  have made: "create_outcome path sb dm (view k) (Ok pf) dm1 (view k1)"
    using posix_kernel.PageFile_Create_spec[OF kernel assms(2), of path sb] assms(3) by auto
  then have pf: "pf = \<lparr>pf_attached = True, pf_superblock = sb\<rparr>" and ok1: "disk_ok dm1 (view k1)"
    and sup: "IsSupportedGenericFileKind (fs_file_kind sb)" and stored: "superblock_stored path sb (view k1)"
    and reg: "dm_files dm1 (fs_file_id sb) \<noteq> None" and free: "dm_files dm (fs_file_id sb) = None"
    by (auto simp: create_outcome_def)
  have closed: "file_closed (fs_file_id sb) dm1 (view k1) dm2 (view k2)"
    using posix_kernel.PageFile_Release_spec[OF kernel assms(4)] reg by (simp add: pf)
  then have dm2: "dm2 = dm"
    using made free by (cases dm) (auto simp: file_closed_def create_outcome_def fun_upd_idem)
  have ok2: "disk_ok dm2 (view k2)" by (rule file_closed_ok[OF closed ok1])
  have still: "superblock_stored path sb (view k2)"
    using stored file_closed_keeps[OF closed] by (simp add: superblock_stored_def)
  from posix_kernel.PageFile_Open_spec[OF kernel ok2, of path "fs_file_id sb" "fs_file_kind sb" obj] obtain r dm3 k3 where
    "PageFile_Open os path (fs_file_id sb) (fs_file_kind sb) obj dm2 k2 = Some (r, dm3, k3)"
    and "open_outcome path (fs_file_id sb) (fs_file_kind sb) obj dm2 (view k2) r dm3 (view k3)" by blast
  moreover from this(2) still sup assms(5)
  have "case r of Ok pf' \<Rightarrow> Superblock pf' = sb | Unexpected e \<Rightarrow> pe_code e = DISK_ERROR"
    by (auto simp: open_outcome_def asked_for_def Superblock_def split: sum.splits
        dest: FileSuperblock_image_inject)
  ultimately show ?thesis using dm2 by blast
qed

theorem created_file_opens_witness:
  "\<exists>pf dm1 k1 r dm3 k3. PageFile_Create sample_os ''t'' sample_superblock DiskManager_new
      (blank_kernel [INTERRUPT, QUIET, QUIET, INTERRUPT]) = Some (Ok pf, dm1, k1) \<and>
    PageFile_Open sample_os ''t'' 7 HEAP (Some 11) DiskManager_new
      (snd (snd (PageFile_Release sample_os pf dm1 k1))) = Some (r, dm3, k3) \<and>
    (case r of Ok pf' \<Rightarrow> Superblock pf' = sample_superblock | Unexpected e \<Rightarrow> pe_code e = DISK_ERROR)"
proof -
  obtain pf dm1 k1 where made: "PageFile_Create sample_os ''t'' sample_superblock DiskManager_new
      (blank_kernel [INTERRUPT, QUIET, QUIET, INTERRUPT]) = Some (Ok pf, dm1, k1)"
    using sample_create by blast
  obtain pf1 dm2 k2 where rel: "PageFile_Release sample_os pf dm1 k1 = (pf1, dm2, k2)"
    by (cases "PageFile_Release sample_os pf dm1 k1")
  have "Some 11 = None \<or> Some 11 = Some (fs_object_id sample_superblock)"
    by (simp add: sample_superblock_def)
  from created_file_opens[OF sample.posix_kernel_axioms _ made rel this] made rel show ?thesis
    by (auto simp: empty_disk_ok sample_superblock_def)
qed

text \<open>C26: error. A \<open>Create\<close> or \<open>Open\<close> that fails, at whichever of its steps, leaves the registry
  exactly as it was and no descriptor open that was not open before; a failed \<open>Open\<close> has changed
  nothing at all.\<close>

theorem failure_leaves_nothing_registered:
  assumes "posix_kernel os view patience" and "disk_ok dm (view k)"
  shows "(\<forall>e dm' k'. PageFile_Create os path sb dm k = Some (Unexpected e, dm', k') \<longrightarrow>
      dm' = dm \<and> ov_fds (view k') = ov_fds (view k)) \<and>
    (\<forall>e dm' k'. PageFile_Open os path fid kind obj dm k = Some (Unexpected e, dm', k') \<longrightarrow>
      dm' = dm \<and> view k' = view k)"
  using posix_kernel.PageFile_Create_spec[OF assms, of path sb]
    posix_kernel.PageFile_Open_spec[OF assms, of path fid kind obj]
  by (auto simp: create_outcome_def open_outcome_def)

theorem failure_leaves_nothing_registered_witness:
  "\<exists>e k'. PageFile_Create sample_os ''t'' sample_superblock DiskManager_new
      (blank_kernel [QUIET, QUIET, QUIET, FAIL 28]) = Some (Unexpected e, DiskManager_new, k') \<and>
    ov_fds (sk_view k') = Map.empty"
proof -
  obtain e dm' k' where made: "PageFile_Create sample_os ''t'' sample_superblock DiskManager_new
      (blank_kernel [QUIET, QUIET, QUIET, FAIL 28]) = Some (Unexpected e, dm', k')"
    using sample_create_fails by blast
  have "dm' = DiskManager_new \<and> ov_fds (sk_view k') = Map.empty"
    using failure_leaves_nothing_registered[OF sample.posix_kernel_axioms, of DiskManager_new
        "blank_kernel [QUIET, QUIET, QUIET, FAIL 28]" "''t''" sample_superblock] made
    by (auto simp: empty_disk_ok) (simp add: empty_view_def)
  with made show ?thesis by blast
qed

text \<open>C28: safety. Page allocation hands out the page after the last one: it is never page zero, it did
  not exist before, it reads as zeros, and no other page of any file changes. Without a registration
  it answers \<open>NOT_OPEN\<close> and touches nothing. With one it fails in two ways only: with \<open>DISK_ERROR\<close>, no file
  changed; or with \<open>DATA_PAGE_ZERO_ALLOCATED\<close>, only when the file had no page at all, not even its
  superblock, and then the file has a zeroed page zero and no other page changed.\<close>

theorem allocate_page_fresh:
  assumes "posix_kernel os view patience" and "disk_ok dm (view k)"
    and "AllocatePage os pf dm k = Some (r, k')"
  shows "case r of
    Ok pid \<Rightarrow> pf_attached pf \<and> page_no pid \<noteq> 0 \<and> file_id pid = fs_file_id (Superblock pf) \<and>
      (\<exists>d. file_data dm (view k) (file_id pid) = Some d \<and> length d = unat (page_no pid) * 8192) \<and>
      disk_page dm (view k) pid = None \<and>
      (\<forall>qid. disk_page dm (view k') qid =
        (if file_inode dm (view k) (file_id qid) = file_inode dm (view k) (file_id pid) \<and>
            page_no qid = page_no pid
         then Some (replicate 8192 0) else disk_page dm (view k) qid))
  | Unexpected e \<Rightarrow>
      if \<not> pf_attached pf then pe_code e = NOT_OPEN \<and> k' = k
      else if pe_code e = DATA_PAGE_ZERO_ALLOCATED
      then file_data dm (view k) (fs_file_id (Superblock pf)) = Some [] \<and>
        (\<forall>qid. disk_page dm (view k') qid =
          (if file_inode dm (view k) (file_id qid) = file_inode dm (view k) (fs_file_id (Superblock pf)) \<and>
              page_no qid = 0
           then Some (replicate 8192 0) else disk_page dm (view k) qid))
      else pe_code e = DISK_ERROR \<and> view k' = view k"
proof (cases "pf_attached pf")
  case False
  then show ?thesis using assms(3) by (auto simp: AllocatePage_def PageFileError_default_def)
next
  case True
  from posix_kernel.AllocatePage_spec[OF assms(1,2) True] assms(3) True show ?thesis
    by (cases r) (auto simp: Superblock_def disk_page_extended intro: file_extended_fresh file_extended_length)
qed

theorem allocate_page_fresh_witness:
  "\<exists>k'. AllocatePage sample_os \<lparr>pf_attached = True, pf_superblock = sample_superblock\<rparr> sample_dm
      (rough_kernel [QUIET, INTERRUPT]) = Some (Ok (PageId 7 2), k') \<and>
    disk_page sample_dm (sk_view k') (PageId 7 2) = Some (replicate 8192 0)"
proof -
  obtain k' where k': "AllocatePage sample_os \<lparr>pf_attached = True, pf_superblock = sample_superblock\<rparr>
      sample_dm (rough_kernel [QUIET, INTERRUPT]) = Some (Ok (PageId 7 2), k')"
    using sample_extend by (auto simp: AllocatePage_def sample_superblock_def)
  from allocate_page_fresh[OF sample.posix_kernel_axioms _ k'] k' show ?thesis
    by (auto simp: sample_disk_ok)
qed

end
