(* ===== verification/Page_Io.thy ===== *)
theory Page_Io
  imports Disk_Store
begin

text \<open>
  \<open>src/src/storage/buffer/page_io.h\<close>: the raw page operations the buffer pool calls, an abstract
  class whose production implementation forwards to the disk manager. The record is the vtable
  over a device state \<open>'d\<close>; an operation that never returns is \<open>None\<close>.
\<close>

record 'd page_io =
  io_ReadPage :: "PageId \<Rightarrow> byte list \<Rightarrow> 'd \<Rightarrow> (DiskStatus \<times> byte list \<times> 'd) option"
  io_WritePage :: "PageId \<Rightarrow> byte list \<Rightarrow> 'd \<Rightarrow> (DiskStatus \<times> 'd) option"
  io_SyncFile :: "FileId \<Rightarrow> 'd \<Rightarrow> (DiskStatus \<times> 'd) option"
  io_PageCount :: "FileId \<Rightarrow> 'd \<Rightarrow> ((PageNo, DiskError) result \<times> 'd) option"
  io_ExtendFile :: "FileId \<Rightarrow> 'd \<Rightarrow> ((PageNo, DiskError) result \<times> 'd) option"

text \<open>\<open>DiskPageIo\<close>: the device state is the disk manager with its kernel.\<close>

definition DiskPageIo :: "'k posix \<Rightarrow> (DiskManager \<times> 'k) page_io" where
  "DiskPageIo os =
     \<lparr>io_ReadPage = (\<lambda>pid bytes (dm, k).
        map_option (\<lambda>(r, out, k). (r, out, (dm, k))) (ReadPage os pid bytes dm k)),
      io_WritePage = (\<lambda>pid bytes (dm, k).
        map_option (\<lambda>(r, k). (r, (dm, k))) (WritePage os pid bytes dm k)),
      io_SyncFile = (\<lambda>fid (dm, k). map_option (\<lambda>(r, k). (r, (dm, k))) (SyncFile os fid dm k)),
      io_PageCount = (\<lambda>fid (dm, k). map_option (\<lambda>(r, k). (r, (dm, k))) (PageCount os fid dm k)),
      io_ExtendFile = (\<lambda>fid (dm, k). map_option (\<lambda>(r, k). (r, (dm, k))) (ExtendFile os fid dm k))\<rparr>"

end
