(* ===== verification/Buffer_Pool.thy ===== *)
theory Buffer_Pool
  imports Page_Io Clock "HOL-Library.AList"
begin

text \<open>
  The state and the critical sections of the buffer pool: \<open>buffer_frame.h\<close>, \<open>buffer_error.h\<close>,
  \<open>buffer_pool.h\<close> and \<open>buffer_pool.cpp\<close> under \<open>src/src/storage/buffer/\<close>. One pool mutex protects
  everything here but the page bytes; the functions of this theory run with it held. Where the code
  releases it (device transfers, validation, latch waits, condition-variable waits, and every
  \<open>Notify\<close>, which releases it when an observer is installed) a critical section ends, and the
  calling thread's position is a \<open>Task\<close>.
\<close>

section \<open>Errors\<close>

datatype BufferErrorCode =
    FILE_OR_PAGE_NOT_FOUND | RAW_IO_FAILURE | CORRUPT_PAGE | UNSUPPORTED_PAGE_FORMAT
  | NO_REPLACEABLE_FRAME | FILE_RETIRED_OR_CLOSING | PIN_COUNT_OVERFLOW | BUFFERPOOL_QUIESCING
  | INTERNAL_INVARIANT_FAILURE

datatype BufferOperation = REGISTER_FILE | RETIRE_FILE | FETCH_PAGE | NEW_PAGE | FLUSH_PAGE | SHUTDOWN

record BufferError =
  be_code :: BufferErrorCode
  be_operation :: BufferOperation
  be_page_id :: PageId
  be_disk_error :: "DiskError option"
  be_message :: string

type_synonym BufferStatus = "(unit, BufferError) result"

definition buffer_error ::
    "BufferErrorCode \<Rightarrow> BufferOperation \<Rightarrow> PageId \<Rightarrow> string \<Rightarrow> DiskError option \<Rightarrow> BufferError" where
  "buffer_error code operation page_id message disk_error =
     \<lparr>be_code = code, be_operation = operation, be_page_id = page_id, be_disk_error = disk_error,
      be_message = message\<rparr>"

definition default_BufferError :: BufferError where
  "default_BufferError = buffer_error INTERNAL_INVARIANT_FAILURE FETCH_PAGE default_PageId [] None"

definition ReadErrorCode :: "DiskError \<Rightarrow> BufferErrorCode" where
  "ReadErrorCode e = (if de_code e = PAGE_NOT_FOUND then FILE_OR_PAGE_NOT_FOUND else RAW_IO_FAILURE)"

section \<open>State\<close>

datatype FrameState = FREE | LOADING | RESIDENT | EVICTING
datatype FrameIoState = IO_NONE | READ_IN_PROGRESS | WRITEBACK_IN_PROGRESS
datatype PageTableEntryState = PT_LOAD_INTENT | PT_LOADING | PT_RESIDENT | PT_EVICTING
datatype PageValidationOutcome = VALID | CORRUPT | UNSUPPORTED_FORMAT
datatype RetireDisposition = FLUSH_DIRTY | DISCARD_DIRTY
datatype FileState = ACTIVE | RETIRING
datatype LatchMode = SHARED | EXCLUSIVE

text \<open>The callbacks of a file's owner and of a page's creator. A validator only reads.\<close>

type_synonym PageValidator = "Page \<Rightarrow> PageValidationOutcome"
type_synonym PageInitializer = "PageId \<Rightarrow> byte list \<Rightarrow> bool \<times> byte list"

text \<open>The page latch \<open>std::shared_mutex\<close> is the number of shared holders and the exclusive flag.\<close>

record BufferFrame =
  bf_page :: Page
  bf_state :: FrameState
  bf_io_state :: FrameIoState
  bf_pin_count :: "32 word"
  bf_dirty :: bool
  bf_modification_generation :: "64 word"
  bf_binding_epoch :: "64 word"
  bf_readers :: nat
  bf_writer :: bool

definition BufferFrame_new :: BufferFrame where
  "BufferFrame_new =
     \<lparr>bf_page = Page_new default_PageId, bf_state = FREE, bf_io_state = IO_NONE, bf_pin_count = 0,
      bf_dirty = False, bf_modification_generation = 0, bf_binding_epoch = 0, bf_readers = 0,
      bf_writer = False\<rparr>"

record PoolFileEntry =
  fe_state :: FileState
  fe_validator :: PageValidator
  fe_published_page_count :: PageNo
  fe_new_page_in_progress :: bool

text \<open>A load operation is shared by its loader and the joined fetches; \<open>std::shared_ptr\<close> to it is
  its index in \<open>bp_loads\<close>.\<close>

record LoadOperation =
  lo_claims :: "32 word"
  lo_done :: bool
  lo_frame_id :: "FrameId option"
  lo_error :: BufferError

record PageTableEntry =
  pt_state :: PageTableEntryState
  pt_frame_id :: FrameId
  pt_load :: "nat option"

text \<open>The hash maps are association lists with distinct keys; their order stands for the map's
  unspecified iteration order.\<close>

record BufferPool =
  bp_max_pin_count :: "32 word"
  bp_frames :: "BufferFrame list"
  bp_free_list :: "FrameId list"
  bp_replacer :: ClockReplacer
  bp_page_table :: "(PageId \<times> PageTableEntry) list"
  bp_files :: "(FileId \<times> PoolFileEntry) list"
  bp_quiescing :: bool
  bp_loads :: "LoadOperation list"

definition BufferPool_new :: "nat \<Rightarrow> 32 word \<Rightarrow> BufferPool option" where
  "BufferPool_new frame_count max_pin_count =
     (if frame_count > 0 then
        map_option (\<lambda>replacer.
          \<lparr>bp_max_pin_count = max max_pin_count 1,
           bp_frames = replicate frame_count BufferFrame_new,
           bp_free_list = map of_nat (rev [0..<frame_count]),
           bp_replacer = replacer, bp_page_table = [], bp_files = [], bp_quiescing = False,
           bp_loads = []\<rparr>) (ClockReplacer_new frame_count)
      else None)"

definition bp_frame :: "BufferPool \<Rightarrow> FrameId \<Rightarrow> BufferFrame" where
  "bp_frame p f = bp_frames p ! unat f"

definition set_frame :: "FrameId \<Rightarrow> (BufferFrame \<Rightarrow> BufferFrame) \<Rightarrow> BufferPool \<Rightarrow> BufferPool" where
  "set_frame f change p = p\<lparr>bp_frames := (bp_frames p)[unat f := change (bp_frame p f)]\<rparr>"

definition find_entry :: "BufferPool \<Rightarrow> PageId \<Rightarrow> PageTableEntry option" where
  "find_entry p pid = map_of (bp_page_table p) pid"

definition put_entry :: "PageId \<Rightarrow> PageTableEntry \<Rightarrow> BufferPool \<Rightarrow> BufferPool" where
  "put_entry pid e p = p\<lparr>bp_page_table := AList.update pid e (bp_page_table p)\<rparr>"

definition erase_entry :: "PageId \<Rightarrow> BufferPool \<Rightarrow> BufferPool" where
  "erase_entry pid p = p\<lparr>bp_page_table := AList.delete pid (bp_page_table p)\<rparr>"

definition find_file :: "BufferPool \<Rightarrow> FileId \<Rightarrow> PoolFileEntry option" where
  "find_file p fid = map_of (bp_files p) fid"

definition put_file :: "FileId \<Rightarrow> PoolFileEntry \<Rightarrow> BufferPool \<Rightarrow> BufferPool" where
  "put_file fid e p = p\<lparr>bp_files := AList.update fid e (bp_files p)\<rparr>"

definition set_load :: "nat \<Rightarrow> (LoadOperation \<Rightarrow> LoadOperation) \<Rightarrow> BufferPool \<Rightarrow> BufferPool" where
  "set_load l change p = p\<lparr>bp_loads := (bp_loads p)[l := change (bp_loads p ! l)]\<rparr>"

section \<open>Small operations\<close>

definition CheckFetchableLocked :: "BufferPool \<Rightarrow> PageId \<Rightarrow> BufferStatus" where
  "CheckFetchableLocked p page_id =
     (let fail = (\<lambda>code message. Unexpected (buffer_error code FETCH_PAGE page_id message None))
      in if bp_quiescing p then fail BUFFERPOOL_QUIESCING ''BufferPool is quiescing''
         else (case find_file p (file_id page_id) of
             None \<Rightarrow> fail FILE_OR_PAGE_NOT_FOUND ''FileId is not registered with this BufferPool''
           | Some entry \<Rightarrow>
               if fe_state entry \<noteq> ACTIVE then fail FILE_RETIRED_OR_CLOSING ''file is retiring''
               else if page_no page_id = 0 \<or> page_no page_id \<ge> fe_published_page_count entry
               then fail FILE_OR_PAGE_NOT_FOUND ''page is not a published data page''
               else Ok ()))"

definition PinResidentLocked ::
    "FrameId \<Rightarrow> PageId \<Rightarrow> BufferPool \<Rightarrow> (FrameId, BufferError) result \<times> BufferPool" where
  "PinResidentLocked f page_id p =
     (if bf_pin_count (bp_frame p f) \<ge> bp_max_pin_count p
      then (Unexpected (buffer_error PIN_COUNT_OVERFLOW FETCH_PAGE page_id
              ''pin count is at its maximum'' None), p)
      else (Ok f, (set_frame f (\<lambda>fr. fr\<lparr>bf_pin_count := bf_pin_count fr + 1\<rparr>) p)
              \<lparr>bp_replacer := SetReferenced (bp_replacer p) f\<rparr>))"

definition IsVictimEligible :: "BufferPool \<Rightarrow> FrameId \<Rightarrow> bool" where
  "IsVictimEligible p f =
     (let fr = bp_frame p f
      in if bf_state fr \<noteq> RESIDENT \<or> bf_pin_count fr \<noteq> 0 \<or> bf_io_state fr \<noteq> IO_NONE then False
         else (case find_file p (file_id (Page_id (bf_page fr))) of
             None \<Rightarrow> False
           | Some entry \<Rightarrow> fe_state entry = ACTIVE))"

text \<open>The debug build also fills the bytes with \<open>0xDB\<close>; the model is the release build.\<close>

definition ResetFrame :: "FrameId \<Rightarrow> BufferPool \<Rightarrow> BufferPool" where
  "ResetFrame f p =
     (set_frame f (\<lambda>fr. fr\<lparr>bf_page := Page_new default_PageId, bf_state := FREE,
        bf_io_state := IO_NONE, bf_pin_count := 0, bf_dirty := False\<rparr>) p)
       \<lparr>bp_replacer := ClearReferenced (bp_replacer p) f\<rparr>"

text \<open>Its assertion that the frame is free holds in every run (\<open>assertions_hold\<close>).\<close>

definition ReleaseFrameToFreeList :: "FrameId \<Rightarrow> BufferPool \<Rightarrow> BufferPool" where
  "ReleaseFrameToFreeList f p = p\<lparr>bp_free_list := bp_free_list p @ [f]\<rparr>"

definition bind_frame :: "FrameId \<Rightarrow> PageId \<Rightarrow> FrameIoState \<Rightarrow> BufferPool \<Rightarrow> BufferPool" where
  "bind_frame f page_id io_state =
     set_frame f (\<lambda>fr. fr\<lparr>bf_binding_epoch := bf_binding_epoch fr + 1, bf_page := Page_new page_id,
       bf_state := LOADING, bf_io_state := io_state, bf_dirty := False\<rparr>)"

text \<open>\<open>files_.at\<close> throws where the file is not registered: the outer \<open>None\<close>.\<close>

definition LoadFailureLocked ::
    "BufferPool \<Rightarrow> PageId \<Rightarrow> DiskStatus \<Rightarrow> PageValidationOutcome \<Rightarrow> BufferError option option" where
  "LoadFailureLocked p page_id read outcome =
     (case read of
        Unexpected e \<Rightarrow>
          Some (Some (buffer_error (ReadErrorCode e) FETCH_PAGE page_id ''page read failed'' (Some e)))
      | Ok _ \<Rightarrow>
          if outcome = CORRUPT
          then Some (Some (buffer_error CORRUPT_PAGE FETCH_PAGE page_id ''page failed validation'' None))
          else if outcome = UNSUPPORTED_FORMAT
          then Some (Some (buffer_error UNSUPPORTED_PAGE_FORMAT FETCH_PAGE page_id
                 ''page uses an unsupported format'' None))
          else (case find_file p (file_id page_id) of
              None \<Rightarrow> None
            | Some entry \<Rightarrow>
                if fe_state entry \<noteq> ACTIVE
                then Some (Some (buffer_error FILE_RETIRED_OR_CLOSING FETCH_PAGE page_id
                       ''file began retiring during load'' None))
                else Some None))"

definition PublishLoadLocked :: "PageId \<Rightarrow> FrameId \<Rightarrow> nat \<Rightarrow> BufferPool \<Rightarrow> BufferPool option" where
  "PublishLoadLocked page_id f l p =
     (let p = set_frame f (\<lambda>fr. fr\<lparr>bf_state := RESIDENT, bf_io_state := IO_NONE,
            bf_pin_count := lo_claims (bp_loads p ! l)\<rparr>) p;
          p = p\<lparr>bp_replacer := SetReferenced (bp_replacer p) f\<rparr>
      in map_option (\<lambda>published.
           set_load l (\<lambda>load. load\<lparr>lo_frame_id := Some f, lo_done := True\<rparr>)
             (put_entry page_id (published\<lparr>pt_state := PT_RESIDENT, pt_load := None\<rparr>) p))
         (find_entry p page_id))"

definition ValidateLoadedPage :: "Page \<Rightarrow> PageValidator \<Rightarrow> bool \<Rightarrow> PageValidationOutcome" where
  "ValidateLoadedPage loaded validator verify_checksum =
     (if verify_checksum \<and> \<not> VerifyPageChecksum (Page_bytes loaded) then CORRUPT
      else (case DecodeCommonPageHeader (Page_bytes loaded) of
          None \<Rightarrow> CORRUPT
        | Some header \<Rightarrow>
            if ch_page_no header \<noteq> page_no (Page_id loaded) then CORRUPT else validator loaded))"

end
