(* ===== verification/Pool_Tasks.thy ===== *)
theory Pool_Tasks
  imports Buffer_Pool
begin

text \<open>
  The public operations of the buffer pool as tasks. A \<open>Task\<close> is the position of one call at a point
  where the pool mutex is free, with the locals it still needs; \<open>advance\<close> runs it to its next such
  point. The sections between two points are single functions: a loop that keeps the mutex
  (\<open>continue\<close>) is part of its section, a call that finds nothing to wait for runs on.

  An observer is taken to be installed, so every \<open>Notify\<close> is such a point. Without one the mutex
  is kept there, which is the case in which no other task moves in between; the two places that test
  for an observer only re-examine the state.
\<close>

record Guard =
  g_frame_id :: FrameId
  g_mode :: LatchMode
  g_page_id :: PageId
  g_binding_epoch :: "64 word"
  g_unpublished :: bool

text \<open>Why a frame is being acquired, and what follows: a load for a fetch, or a new page.\<close>

datatype Purpose =
    For_Load PageId nat LatchMode
  | For_New FileId PageInitializer

text \<open>A flush in progress: the pages still to flush, the first failure, and what follows.\<close>

datatype After_Flush = Return_Status | Close_File FileId

record Flush_Job =
  fj_pages :: "PageId list"
  fj_failure :: BufferStatus
  fj_operation :: BufferOperation
  fj_after :: After_Flush

text \<open>The points of \<open>AcquireFrame\<close>, \<open>LoadPage\<close>, \<open>NewPage\<close> and the flush loops at which the mutex is free.\<close>

datatype Acquire_Point =
    Acquiring
  | Candidate FrameId PageId
  | Reserved FrameId PageId
  | Evict_Write FrameId PageId "byte list"
  | Evict_Sync FrameId PageId
  | Evict_Done FrameId PageId BufferStatus

datatype Load_Point = Load_Read | Load_Validate | Load_Done DiskStatus PageValidationOutcome

datatype New_Point =
    New_Count PageNo
  | New_Extend
  | New_Bind "(PageNo, DiskError) result"
  | New_Build PageId PageValidator
  | New_Done PageId bool PageValidationOutcome

datatype Flush_Point =
    Flush_Next
  | Copy_Image FrameId PageId "64 word"
  | Write_Image FrameId PageId "64 word" "64 word" "byte list"
  | Sync_Image FrameId PageId "64 word" "64 word"
  | Reconcile FrameId PageId "64 word" "64 word" BufferStatus

datatype Task =
    Returned BufferStatus
  | Returned_Guard "(Guard, BufferError) result"
  | Thrown
  | Pin PageId LatchMode bool
  | Join PageId nat LatchMode
  | Acquire Purpose Acquire_Point
  | Load PageId nat LatchMode FrameId PageValidator Load_Point
  | New_Page FileId PageInitializer
  | Create FileId PageInitializer FrameId New_Point
  | Latch FrameId LatchMode
  | Unpin FrameId
  | Flush_Page PageId
  | Flush_File FileId
  | Flush_All
  | Flushing Flush_Job Flush_Point
  | Register FileId PageValidator
  | Register_Counted FileId PageValidator "(PageNo, DiskError) result"
  | Retire FileId RetireDisposition
  | Drain FileId RetireDisposition
  | Shutdown
  | Shutdown_Drain

section \<open>Acquiring a frame\<close>

definition fail_guard :: "BufferError \<Rightarrow> Task" where
  "fail_guard e = Returned_Guard (Unexpected e)"

text \<open>\<open>finish\<close> of \<open>NewPage\<close>. The reference to the file entry it writes through stays valid: a retirement waits for
  the end of the creation, so in every run the entry is there (the right \<open>Creation\<close> of the account says so).\<close>

definition finish_new :: "FileId \<Rightarrow> BufferPool \<Rightarrow> BufferPool" where
  "finish_new fid p =
     (case find_file p fid of
        None \<Rightarrow> p
      | Some entry \<Rightarrow> put_file fid (entry\<lparr>fe_new_page_in_progress := False\<rparr>) p)"

text \<open>\<open>fail\<close> of \<open>LoadPage\<close>: every joined fetch receives the error.\<close>

definition fail_load :: "PageId \<Rightarrow> nat \<Rightarrow> BufferError \<Rightarrow> BufferPool \<Rightarrow> Task \<times> BufferPool" where
  "fail_load page_id l e p =
     (let e = e\<lparr>be_operation := FETCH_PAGE\<rparr>
      in (fail_guard e,
          set_load l (\<lambda>load. load\<lparr>lo_error := e, lo_done := True\<rparr>) (erase_entry page_id p)))"

fun acquire_failed :: "Purpose \<Rightarrow> BufferError \<Rightarrow> BufferPool \<Rightarrow> Task \<times> BufferPool" where
  "acquire_failed (For_Load page_id l mode) e p = fail_load page_id l e p"
| "acquire_failed (For_New fid initializer) e p =
     (fail_guard (e\<lparr>be_operation := NEW_PAGE\<rparr>), finish_new fid p)"

text \<open>The acquired frame is bound in the same section for a load; a new page first reserves its
  number on the device.\<close>

fun acquired :: "Purpose \<Rightarrow> FrameId \<Rightarrow> BufferPool \<Rightarrow> Task \<times> BufferPool" where
  "acquired (For_Load page_id l mode) f p =
     (let p = bind_frame f page_id READ_IN_PROGRESS p
      in case find_entry p page_id of
           None \<Rightarrow> (Thrown, p)
         | Some entry \<Rightarrow>
             (let p = put_entry page_id (entry\<lparr>pt_state := PT_LOADING, pt_frame_id := f\<rparr>) p
              in case find_file p (file_id page_id) of
                   None \<Rightarrow> (Thrown, p)
                 | Some file_entry \<Rightarrow> (Load page_id l mode f (fe_validator file_entry) Load_Read, p)))"
| "acquired (For_New fid initializer) f p =
     (case find_file p fid of
        None \<Rightarrow> (Thrown, p)
      | Some file_entry \<Rightarrow> (Create fid initializer f (New_Count (fe_published_page_count file_entry)), p))"

fun purpose_page :: "Purpose \<Rightarrow> PageId" where
  "purpose_page (For_Load page_id l mode) = page_id"
| "purpose_page (For_New fid initializer) = PageId fid INVALID_PAGE_NO"

fun purpose_operation :: "Purpose \<Rightarrow> BufferOperation" where
  "purpose_operation (For_Load page_id l mode) = FETCH_PAGE"
| "purpose_operation (For_New fid initializer) = NEW_PAGE"

definition reserve_victim :: "Purpose \<Rightarrow> FrameId \<Rightarrow> PageId \<Rightarrow> BufferPool \<Rightarrow> Task \<times> BufferPool" where
  "reserve_victim purpose f victim p =
     (let p = set_frame f (\<lambda>fr. fr\<lparr>bf_state := EVICTING\<rparr>) p
      in case find_entry p victim of
           None \<Rightarrow> (Thrown, p)
         | Some entry \<Rightarrow> (Acquire purpose (Reserved f victim), put_entry victim (entry\<lparr>pt_state := PT_EVICTING\<rparr>) p))"

text \<open>One iteration of the loop of \<open>AcquireFrame\<close>.\<close>

definition acquire_pass :: "Purpose \<Rightarrow> bool \<Rightarrow> BufferPool \<Rightarrow> Task \<times> BufferPool" where
  "acquire_pass purpose candidate_notified p =
     (if bp_free_list p \<noteq> []
      then acquired purpose (last (bp_free_list p)) (p\<lparr>bp_free_list := butlast (bp_free_list p)\<rparr>)
      else
        (let (candidate, replacer) = FindCandidate (IsVictimEligible p) (bp_replacer p);
             p = p\<lparr>bp_replacer := replacer\<rparr>
         in case candidate of
              None \<Rightarrow>
                acquire_failed purpose (buffer_error NO_REPLACEABLE_FRAME (purpose_operation purpose)
                  (purpose_page purpose) ''no frame is free or replaceable'' None) p
            | Some f \<Rightarrow>
                (let victim = Page_id (bf_page (bp_frame p f))
                 in if \<not> candidate_notified then (Acquire purpose (Candidate f victim), p)
                    else reserve_victim purpose f victim p)))"

text \<open>The final recheck after the observer saw the candidate.\<close>

definition recheck_candidate :: "Purpose \<Rightarrow> FrameId \<Rightarrow> PageId \<Rightarrow> BufferPool \<Rightarrow> Task \<times> BufferPool" where
  "recheck_candidate purpose f victim p =
     (if \<not> IsVictimEligible p f \<or> Page_id (bf_page (bp_frame p f)) \<noteq> victim
      then acquire_pass purpose True p
      else if bp_free_list p \<noteq> [] then acquire_pass purpose True p
      else reserve_victim purpose f victim p)"

definition finish_eviction :: "Purpose \<Rightarrow> FrameId \<Rightarrow> PageId \<Rightarrow> BufferPool \<Rightarrow> Task \<times> BufferPool" where
  "finish_eviction purpose f victim p = acquired purpose f (ResetFrame f (erase_entry victim p))"

text \<open>After \<open>VICTIM_RESERVED\<close>: a clean page is dropped, a dirty one copied for writing.\<close>

definition start_eviction :: "Purpose \<Rightarrow> FrameId \<Rightarrow> PageId \<Rightarrow> BufferPool \<Rightarrow> Task \<times> BufferPool" where
  "start_eviction purpose f victim p =
     (if bf_dirty (bp_frame p f)
      then (Acquire purpose (Evict_Write f victim (Page_bytes (bf_page (bp_frame p f)))),
            set_frame f (\<lambda>fr. fr\<lparr>bf_io_state := WRITEBACK_IN_PROGRESS\<rparr>) p)
      else finish_eviction purpose f victim p)"

definition end_eviction ::
    "Purpose \<Rightarrow> FrameId \<Rightarrow> PageId \<Rightarrow> BufferStatus \<Rightarrow> BufferPool \<Rightarrow> Task \<times> BufferPool" where
  "end_eviction purpose f victim written p =
     (let p = set_frame f (\<lambda>fr. fr\<lparr>bf_io_state := IO_NONE\<rparr>) p
      in case written of
           Ok _ \<Rightarrow> finish_eviction purpose f victim p
         | Unexpected e \<Rightarrow>
             (let p = set_frame f (\<lambda>fr. fr\<lparr>bf_state := RESIDENT\<rparr>) p
              in case find_entry p victim of
                   None \<Rightarrow> (Thrown, p)
                 | Some entry \<Rightarrow>
                     acquire_failed purpose
                       (e\<lparr>be_message := ''eviction writeback failed: '' @ be_message e\<rparr>)
                       (put_entry victim (entry\<lparr>pt_state := PT_RESIDENT\<rparr>) p)))"

section \<open>Fetch\<close>

text \<open>\<open>LoadPage\<close> up to \<open>LOAD_INTENT_INSTALLED\<close>, and \<open>JoinLoad\<close> up to its wait.\<close>

definition LoadPage :: "PageId \<Rightarrow> LatchMode \<Rightarrow> BufferPool \<Rightarrow> Task \<times> BufferPool" where
  "LoadPage page_id mode p =
     (let l = length (bp_loads p);
          load = \<lparr>lo_claims = 1, lo_done = False, lo_frame_id = None, lo_error = default_BufferError\<rparr>
      in (Acquire (For_Load page_id l mode) Acquiring,
          put_entry page_id \<lparr>pt_state = PT_LOAD_INTENT, pt_frame_id = 0, pt_load = Some l\<rparr>
            (p\<lparr>bp_loads := bp_loads p @ [load]\<rparr>)))"

definition JoinLoad :: "PageId \<Rightarrow> LatchMode \<Rightarrow> nat option \<Rightarrow> BufferPool \<Rightarrow> Task \<times> BufferPool" where
  "JoinLoad page_id mode load p =
     (case load of
        None \<Rightarrow>
          (fail_guard (buffer_error FILE_OR_PAGE_NOT_FOUND FETCH_PAGE page_id
             ''page is not a published data page'' None), p)
      | Some l \<Rightarrow>
          if lo_claims (bp_loads p ! l) \<ge> bp_max_pin_count p
          then (fail_guard (buffer_error PIN_COUNT_OVERFLOW FETCH_PAGE page_id
                  ''too many pending fetch claims'' None), p)
          else (Join page_id l mode, set_load l (\<lambda>load. load\<lparr>lo_claims := lo_claims load + 1\<rparr>) p))"

text \<open>One iteration of the loop of \<open>PinPage\<close>; \<open>None\<close> while it waits for an eviction to end. The
  flag says whether the observer has been told of the hit.\<close>

definition pin_page :: "PageId \<Rightarrow> LatchMode \<Rightarrow> bool \<Rightarrow> BufferPool \<Rightarrow> (Task \<times> BufferPool) option" where
  "pin_page page_id mode hit_notified p =
     (case CheckFetchableLocked p page_id of
        Unexpected e \<Rightarrow> Some (fail_guard e, p)
      | Ok _ \<Rightarrow>
          (case find_entry p page_id of
             None \<Rightarrow> Some (LoadPage page_id mode p)
           | Some entry \<Rightarrow>
               (case pt_state entry of
                  PT_RESIDENT \<Rightarrow>
                    if \<not> hit_notified then Some (Pin page_id mode True, p)
                    else (case PinResidentLocked (pt_frame_id entry) page_id p of
                        (Unexpected e, p) \<Rightarrow> Some (fail_guard e, p)
                      | (Ok f, p) \<Rightarrow> Some (Latch f mode, p))
                | PT_EVICTING \<Rightarrow> None
                | _ \<Rightarrow> Some (JoinLoad page_id mode (pt_load entry) p))))"

text \<open>The wait of \<open>JoinLoad\<close>: publication turned the claim into a pin, or the error is shared.\<close>

definition join_load :: "nat \<Rightarrow> LatchMode \<Rightarrow> BufferPool \<Rightarrow> (Task \<times> BufferPool) option" where
  "join_load l mode p =
     (let load = bp_loads p ! l
      in if \<not> lo_done load then None
         else (case lo_frame_id load of
             Some f \<Rightarrow> Some (Latch f mode, p)
           | None \<Rightarrow> Some (fail_guard (lo_error load), p)))"

definition finish_load :: "PageId \<Rightarrow> nat \<Rightarrow> LatchMode \<Rightarrow> FrameId \<Rightarrow> DiskStatus \<Rightarrow> PageValidationOutcome \<Rightarrow>
    BufferPool \<Rightarrow> Task \<times> BufferPool" where
  "finish_load page_id l mode f read outcome p =
     (case LoadFailureLocked p page_id read outcome of
        None \<Rightarrow> (Thrown, p)
      | Some (Some e) \<Rightarrow> fail_load page_id l e (ReleaseFrameToFreeList f (ResetFrame f p))
      | Some None \<Rightarrow>
          (case PublishLoadLocked page_id f l p of
             None \<Rightarrow> (Thrown, p)
           | Some p \<Rightarrow> (Latch f mode, p)))"

section \<open>New pages\<close>

text \<open>One iteration of the loop of \<open>WaitForNewPageTurn\<close>; \<open>None\<close> while another creation runs.\<close>

definition WaitForNewPageTurn :: "FileId \<Rightarrow> BufferPool \<Rightarrow> BufferStatus option" where
  "WaitForNewPageTurn fid p =
     (let fail = (\<lambda>code message.
            Some (Unexpected (buffer_error code NEW_PAGE (PageId fid INVALID_PAGE_NO) message None)))
      in if bp_quiescing p then fail BUFFERPOOL_QUIESCING ''BufferPool is quiescing''
         else (case find_file p fid of
             None \<Rightarrow> fail FILE_OR_PAGE_NOT_FOUND ''FileId is not registered with this BufferPool''
           | Some entry \<Rightarrow>
               if fe_state entry \<noteq> ACTIVE then fail FILE_RETIRED_OR_CLOSING ''file is retiring''
               else if fe_new_page_in_progress entry then None
               else Some (Ok ())))"

text \<open>The start of \<open>NewPage\<close>. An empty \<open>std::function\<close> as initializer is one that answers false.\<close>

definition new_page ::
    "FileId \<Rightarrow> PageInitializer \<Rightarrow> BufferPool \<Rightarrow> (Task \<times> BufferPool) option" where
  "new_page fid initializer p =
     (case WaitForNewPageTurn fid p of
        None \<Rightarrow> None
      | Some (Unexpected e) \<Rightarrow> Some (fail_guard e, p)
      | Some (Ok _) \<Rightarrow>
          (case find_file p fid of
             None \<Rightarrow> Some (Thrown, p)
           | Some entry \<Rightarrow> Some (acquire_pass (For_New fid initializer) False
                 (put_file fid (entry\<lparr>fe_new_page_in_progress := True\<rparr>) p))))"

text \<open>\<open>ReserveNewPageNo\<close>, device call by device call.\<close>

definition new_page_counted :: "PageNo \<Rightarrow> (PageNo, DiskError) result \<Rightarrow> New_Point" where
  "new_page_counted published physical =
     (case physical of
        Unexpected e \<Rightarrow> New_Bind (Unexpected e)
      | Ok n \<Rightarrow> if n > published then New_Bind (Ok published) else New_Extend)"

definition bind_new_page :: "FileId \<Rightarrow> PageInitializer \<Rightarrow> FrameId \<Rightarrow> (PageNo, DiskError) result \<Rightarrow>
    BufferPool \<Rightarrow> Task \<times> BufferPool" where
  "bind_new_page fid initializer f reserved p =
     (case find_file p fid of
        None \<Rightarrow> (Thrown, p)
      | Some entry \<Rightarrow>
          (case reserved of
             Unexpected e \<Rightarrow>
               (fail_guard (buffer_error RAW_IO_FAILURE NEW_PAGE (PageId fid INVALID_PAGE_NO)
                  ''file extension failed'' (Some e)), finish_new fid (ReleaseFrameToFreeList f p))
           | Ok n \<Rightarrow>
               if n = 0 \<or> n \<noteq> fe_published_page_count entry
               then (fail_guard (buffer_error INTERNAL_INVARIANT_FAILURE NEW_PAGE (PageId fid n)
                       ''extension did not return the next page after the published bound'' None),
                     finish_new fid (ReleaseFrameToFreeList f p))
               else
                 (let page_id = PageId fid n;
                      p = bind_frame f page_id IO_NONE p;
                      p = (if find_entry p page_id = None
                           then put_entry page_id \<lparr>pt_state = PT_LOADING, pt_frame_id = f, pt_load = None\<rparr> p
                           else p)
                  in (Create fid initializer f (New_Build page_id (fe_validator entry)), p))))"

definition publish_new_page :: "FileId \<Rightarrow> FrameId \<Rightarrow> PageId \<Rightarrow> bool \<Rightarrow> PageValidationOutcome \<Rightarrow>
    BufferPool \<Rightarrow> Task \<times> BufferPool" where
  "publish_new_page fid f page_id built outcome p =
     (case find_file p fid of
        None \<Rightarrow> (Thrown, p)
      | Some entry \<Rightarrow>
          if \<not> built \<or> outcome \<noteq> VALID \<or> fe_state entry \<noteq> ACTIVE
          then
            (let retiring = fe_state entry \<noteq> ACTIVE
             in (fail_guard (buffer_error (if retiring then FILE_RETIRED_OR_CLOSING else INTERNAL_INVARIANT_FAILURE)
                   NEW_PAGE page_id
                   (if retiring then ''file began retiring during page creation''
                    else ''page initializer did not produce a valid page'') None),
                 finish_new fid (ReleaseFrameToFreeList f (ResetFrame f (erase_entry page_id p)))))
          else
            (let p = put_file fid (entry\<lparr>fe_published_page_count := page_no page_id + 1\<rparr>) p;
                 p = set_frame f (\<lambda>fr. fr\<lparr>bf_state := RESIDENT, bf_pin_count := 1, bf_dirty := True,
                       bf_modification_generation := bf_modification_generation fr + 1\<rparr>) p;
                 p = p\<lparr>bp_replacer := SetReferenced (bp_replacer p) f\<rparr>
             in case find_entry p page_id of
                  None \<Rightarrow> (Thrown, p)
                | Some e \<Rightarrow>
                    (Latch f EXCLUSIVE, finish_new fid (put_entry page_id (e\<lparr>pt_state := PT_RESIDENT\<rparr>) p))))"

section \<open>Flushing\<close>

text \<open>\<open>FlushMatching\<close> visits the pages found dirty in order; with nothing left to wait for, the next
  page is looked at in the same section.\<close>

definition dirty_pages :: "(PageId \<Rightarrow> bool) \<Rightarrow> BufferPool \<Rightarrow> PageId list" where
  "dirty_pages selected p =
     sort (map fst (filter (\<lambda>(pid, e). selected pid \<and> pt_state e = PT_RESIDENT \<and>
       bf_dirty (bp_frame p (pt_frame_id e))) (bp_page_table p)))"

definition close_page :: "PageId \<times> PageTableEntry \<Rightarrow> BufferPool \<Rightarrow> BufferPool" where
  "close_page item p =
     ReleaseFrameToFreeList (pt_frame_id (snd item))
       (ResetFrame (pt_frame_id (snd item)) (erase_entry (fst item) p))"

definition close_file :: "FileId \<Rightarrow> BufferPool \<Rightarrow> BufferPool" where
  "close_file fid p =
     (let p = fold close_page (filter (\<lambda>(pid, e). file_id pid = fid) (bp_page_table p)) p
      in p\<lparr>bp_files := AList.delete fid (bp_files p)\<rparr>)"

definition end_flush :: "BufferStatus \<Rightarrow> After_Flush \<Rightarrow> BufferPool \<Rightarrow> Task \<times> BufferPool" where
  "end_flush failure after p =
     (case after of
        Return_Status \<Rightarrow> (Returned failure, p)
      | Close_File fid \<Rightarrow>
          (case failure of
             Unexpected e \<Rightarrow> (Returned (Unexpected e), p)
           | Ok _ \<Rightarrow> (Returned (Ok ()), close_file fid p)))"

text \<open>\<open>FlushPageLocked\<close> for each page: its loop is left when the page is not resident or clean, waits
  for an eviction or another writeback, or starts a writeback.\<close>

fun flush_pages :: "PageId list \<Rightarrow> BufferStatus \<Rightarrow> BufferOperation \<Rightarrow> After_Flush \<Rightarrow> BufferPool \<Rightarrow>
    Task \<times> BufferPool" where
  "flush_pages [] failure operation after p = end_flush failure after p"
| "flush_pages (page_id # rest) failure operation after p =
     (let job = \<lparr>fj_pages = page_id # rest, fj_failure = failure, fj_operation = operation,
                 fj_after = after\<rparr>
      in case find_entry p page_id of
           None \<Rightarrow> flush_pages rest failure operation after p
         | Some entry \<Rightarrow>
             (case pt_state entry of
                PT_EVICTING \<Rightarrow> (Flushing job Flush_Next, p)
              | PT_RESIDENT \<Rightarrow>
                  (let f = pt_frame_id entry; fr = bp_frame p f
                   in if \<not> bf_dirty fr then flush_pages rest failure operation after p
                      else if bf_io_state fr \<noteq> IO_NONE then (Flushing job Flush_Next, p)
                      else (Flushing job (Copy_Image f (Page_id (bf_page fr)) (bf_binding_epoch fr)),
                            set_frame f (\<lambda>fr. fr\<lparr>bf_io_state := WRITEBACK_IN_PROGRESS\<rparr>) p))
              | _ \<Rightarrow> flush_pages rest failure operation after p))"

definition flush_next :: "Flush_Job \<Rightarrow> BufferPool \<Rightarrow> Task \<times> BufferPool" where
  "flush_next job p = flush_pages (fj_pages job) (fj_failure job) (fj_operation job) (fj_after job) p"

text \<open>The end of \<open>WritebackResident\<close>: clean only if the residency still holds the copied generation.
  A page whose writeback succeeded is looked at again; after a failure the next page follows.\<close>

definition reconcile :: "Flush_Job \<Rightarrow> FrameId \<Rightarrow> PageId \<Rightarrow> 64 word \<Rightarrow> 64 word \<Rightarrow> BufferStatus \<Rightarrow>
    BufferPool \<Rightarrow> Task \<times> BufferPool" where
  "reconcile job f page_id epoch generation written p =
     (let p = set_frame f (\<lambda>fr. fr\<lparr>bf_io_state := IO_NONE\<rparr>) p;
          fr = bp_frame p f;
          p = (if written = Ok () \<and> Page_id (bf_page fr) = page_id \<and> bf_binding_epoch fr = epoch \<and>
                  bf_modification_generation fr = generation
               then set_frame f (\<lambda>fr. fr\<lparr>bf_dirty := False\<rparr>) p else p)
      in case written of
           Ok _ \<Rightarrow> flush_next job p
         | Unexpected e \<Rightarrow>
             flush_next (job\<lparr>fj_pages := tl (fj_pages job),
               fj_failure := (case fj_failure job of Ok _ \<Rightarrow> Unexpected e | Unexpected e' \<Rightarrow> Unexpected e')\<rparr>) p)"

definition flush_page :: "PageId \<Rightarrow> BufferPool \<Rightarrow> Task \<times> BufferPool" where
  "flush_page page_id p = flush_pages [page_id] (Ok ()) FLUSH_PAGE Return_Status p"

definition flush_all :: "BufferPool \<Rightarrow> Task \<times> BufferPool" where
  "flush_all p = flush_pages (dirty_pages (\<lambda>_. True) p) (Ok ()) FLUSH_PAGE Return_Status p"

declare flush_page_def [simp] flush_all_def [simp]

definition flush_file :: "FileId \<Rightarrow> BufferPool \<Rightarrow> Task \<times> BufferPool" where
  "flush_file fid p =
     (if find_file p fid = None
      then (Returned (Unexpected (buffer_error FILE_OR_PAGE_NOT_FOUND FLUSH_PAGE (PageId fid INVALID_PAGE_NO)
              ''FileId is not registered with this BufferPool'' None)), p)
      else flush_pages (dirty_pages (\<lambda>pid. file_id pid = fid) p) (Ok ()) FLUSH_PAGE Return_Status p)"

section \<open>Registering, retiring, shutting down\<close>

definition register_counted :: "FileId \<Rightarrow> PageValidator \<Rightarrow> (PageNo, DiskError) result \<Rightarrow> BufferPool \<Rightarrow>
    BufferStatus \<times> BufferPool" where
  "register_counted fid validator page_count p =
     (let fail = (\<lambda>code message disk_error.
            (Unexpected (buffer_error code REGISTER_FILE (PageId fid INVALID_PAGE_NO) message disk_error), p))
      in case page_count of
           Unexpected e \<Rightarrow> fail (ReadErrorCode e) ''cannot determine the file's page count'' (Some e)
         | Ok n \<Rightarrow>
             if bp_quiescing p then fail BUFFERPOOL_QUIESCING ''BufferPool is quiescing'' None
             else if find_file p fid \<noteq> None
             then fail INTERNAL_INVARIANT_FAILURE ''FileId is already registered with this BufferPool'' None
             else (Ok (), put_file fid \<lparr>fe_state = ACTIVE, fe_validator = validator,
                    fe_published_page_count = n, fe_new_page_in_progress = False\<rparr> p))"

text \<open>The drain of \<open>RetireFile\<close>: \<open>None\<close> while it waits. Its predicate looks the file up with
  \<open>files_.at\<close>, which throws if the registration is gone.\<close>

definition file_drained :: "FileId \<Rightarrow> BufferPool \<Rightarrow> bool" where
  "file_drained fid p =
     list_all (\<lambda>(pid, e). file_id pid \<noteq> fid \<or> pt_state e = PT_RESIDENT \<and>
       bf_pin_count (bp_frame p (pt_frame_id e)) = 0 \<and>
       bf_io_state (bp_frame p (pt_frame_id e)) = IO_NONE) (bp_page_table p)"

definition drain_file :: "FileId \<Rightarrow> RetireDisposition \<Rightarrow> BufferPool \<Rightarrow> (Task \<times> BufferPool) option" where
  "drain_file fid disposition p =
     (case find_file p fid of
        None \<Rightarrow> Some (Thrown, p)
      | Some entry \<Rightarrow>
          if fe_new_page_in_progress entry \<or> \<not> file_drained fid p then None
          else if disposition = FLUSH_DIRTY
          then Some (flush_pages (dirty_pages (\<lambda>pid. file_id pid = fid) p) (Ok ()) RETIRE_FILE (Close_File fid) p)
          else Some (Returned (Ok ()), close_file fid p))"

definition retire_file :: "FileId \<Rightarrow> RetireDisposition \<Rightarrow> BufferPool \<Rightarrow> Task \<times> BufferPool" where
  "retire_file fid disposition p =
     (case find_file p fid of
        None \<Rightarrow>
          (Returned (Unexpected (buffer_error FILE_OR_PAGE_NOT_FOUND RETIRE_FILE (PageId fid INVALID_PAGE_NO)
             ''FileId is not registered with this BufferPool'' None)), p)
      | Some entry \<Rightarrow>
          if fe_state entry = ACTIVE
          then (Drain fid disposition, put_file fid (entry\<lparr>fe_state := RETIRING\<rparr>) p)
          else (case drain_file fid disposition p of
              None \<Rightarrow> (Drain fid disposition, p)
            | Some r \<Rightarrow> r))"

definition pool_drained :: "BufferPool \<Rightarrow> bool" where
  "pool_drained p =
     (list_all (\<lambda>fr. bf_pin_count fr = 0 \<and> bf_io_state fr = IO_NONE) (bp_frames p) \<and>
      list_all (\<lambda>(pid, e). pt_state e = PT_RESIDENT) (bp_page_table p) \<and>
      list_all (\<lambda>(fid, e). \<not> fe_new_page_in_progress e) (bp_files p))"

definition drain_pool :: "BufferPool \<Rightarrow> (Task \<times> BufferPool) option" where
  "drain_pool p =
     (if pool_drained p
      then Some (flush_pages (dirty_pages (\<lambda>_. True) p) (Ok ()) SHUTDOWN Return_Status p)
      else None)"

definition shutdown :: "BufferPool \<Rightarrow> Task \<times> BufferPool" where
  "shutdown p =
     (let p = p\<lparr>bp_quiescing := True\<rparr>
      in case drain_pool p of None \<Rightarrow> (Shutdown_Drain, p) | Some r \<Rightarrow> r)"

text \<open>The destructor: in the debug build, \<open>None\<close> while a frame is pinned.\<close>

definition BufferPool_destroy :: "bool \<Rightarrow> BufferPool \<Rightarrow> unit option" where
  "BufferPool_destroy debug p =
     (if debug \<and> \<not> list_all (\<lambda>fr. bf_pin_count fr = 0) (bp_frames p) then None else Some ())"

definition FreeFrameCount :: "BufferPool \<Rightarrow> nat" where
  "FreeFrameCount p = length (bp_free_list p)"

end
