(* ===== verification/Pool_System.thy ===== *)
theory Pool_System
  imports Pool_Tasks
begin

text \<open>
  Page guards (\<open>page_guard.h\<close>, \<open>page_guard.cpp\<close>), the device transfers, and the concurrent system:
  any number of calls in progress, the guards their callers hold, and the steps they interleave.
\<close>

section \<open>Guards\<close>

text \<open>\<open>MakeGuard\<close> waits for the page latch; \<open>None\<close> while it is taken.\<close>

definition MakeGuard :: "FrameId \<Rightarrow> LatchMode \<Rightarrow> BufferPool \<Rightarrow> (Guard \<times> BufferPool) option" where
  "MakeGuard f mode p =
     (let fr = bp_frame p f;
          guard = \<lparr>g_frame_id = f, g_mode = mode, g_page_id = Page_id (bf_page fr),
                   g_binding_epoch = bf_binding_epoch fr, g_unpublished = False\<rparr>
      in if bf_writer fr \<or> mode = EXCLUSIVE \<and> bf_readers fr \<noteq> 0 then None
         else Some (guard, set_frame f (\<lambda>fr. if mode = SHARED
                then fr\<lparr>bf_readers := bf_readers fr + 1\<rparr> else fr\<lparr>bf_writer := True\<rparr>) p))"

text \<open>\<open>ReleaseLatchAndPin\<close> releases the latch first; the pin follows as the task \<open>Unpin\<close>.\<close>

definition ReleaseLatch :: "Guard \<Rightarrow> BufferPool \<Rightarrow> BufferPool" where
  "ReleaseLatch guard =
     set_frame (g_frame_id guard) (\<lambda>fr. if g_mode guard = SHARED
       then fr\<lparr>bf_readers := bf_readers fr - 1\<rparr> else fr\<lparr>bf_writer := False\<rparr>)"

definition unpin_frame :: "FrameId \<Rightarrow> BufferPool \<Rightarrow> BufferPool" where
  "unpin_frame f p =
     (if bf_pin_count (bp_frame p f) = 0 then p
      else set_frame f (\<lambda>fr. fr\<lparr>bf_pin_count := bf_pin_count fr - 1\<rparr>) p)"

definition PublishMutation :: "FrameId \<Rightarrow> BufferPool \<Rightarrow> BufferPool" where
  "PublishMutation f =
     set_frame f (\<lambda>fr. fr\<lparr>bf_modification_generation := bf_modification_generation fr + 1,
       bf_dirty := True\<rparr>)"

text \<open>The bytes of the frame's page, as a transfer into it or a holder of the exclusive latch sets
  them.\<close>

definition set_bytes :: "FrameId \<Rightarrow> byte list \<Rightarrow> BufferPool \<Rightarrow> BufferPool" where
  "set_bytes f bytes = set_frame f (\<lambda>fr. fr\<lparr>bf_page := (bf_page fr)\<lparr>Page_bytes := bytes\<rparr>\<rparr>)"

section \<open>Device transfers\<close>

text \<open>\<open>WriteStableImage\<close>: the two device calls, with what each continues with. Only an error of the synchronization
  matters here: what of the written bytes survives a power failure is not part of the device's state.\<close>

definition write_stable_image :: "'d page_io \<Rightarrow> PageId \<Rightarrow> byte list \<Rightarrow> BufferOperation \<Rightarrow>
    (BufferStatus \<Rightarrow> Task) \<Rightarrow> Task \<Rightarrow> 'd \<Rightarrow> (Task \<times> 'd) option" where
  "write_stable_image io page_id img operation failed written d =
     map_option (\<lambda>(status, d).
       (case status of
          Unexpected e \<Rightarrow>
            failed (Unexpected (buffer_error RAW_IO_FAILURE operation page_id ''page write failed'' (Some e)))
        | Ok _ \<Rightarrow> written, d))
       (io_WritePage io page_id (FinalizePageChecksum img) d)"

definition sync_stable_image :: "'d page_io \<Rightarrow> PageId \<Rightarrow> BufferOperation \<Rightarrow>
    (BufferStatus \<Rightarrow> Task) \<Rightarrow> 'd \<Rightarrow> (Task \<times> 'd) option" where
  "sync_stable_image io page_id operation finished d =
     map_option (\<lambda>(status, d).
       (case status of
          Unexpected e \<Rightarrow>
            finished (Unexpected (buffer_error RAW_IO_FAILURE operation page_id
              ''page file synchronization failed'' (Some e)))
        | Ok _ \<Rightarrow> finished (Ok ()), d))
       (io_SyncFile io (file_id page_id) d)"

definition with_pool :: "BufferPool \<Rightarrow> (Task \<times> 'd) option \<Rightarrow> (Task \<times> BufferPool \<times> 'd) option" where
  "with_pool p r = map_option (\<lambda>(t, d). (t, p, d)) r"

definition with_device :: "'d \<Rightarrow> (Task \<times> BufferPool) option \<Rightarrow> (Task \<times> BufferPool \<times> 'd) option" where
  "with_device d r = map_option (\<lambda>(t, p). (t, p, d)) r"

section \<open>One step of a task\<close>

fun advance_acquire :: "'d page_io \<Rightarrow> Purpose \<Rightarrow> Acquire_Point \<Rightarrow> BufferPool \<Rightarrow> 'd \<Rightarrow>
    (Task \<times> BufferPool \<times> 'd) option" where
  "advance_acquire io purpose Acquiring p d = with_device d (Some (acquire_pass purpose False p))"
| "advance_acquire io purpose (Candidate f victim) p d =
     with_device d (Some (recheck_candidate purpose f victim p))"
| "advance_acquire io purpose (Reserved f victim) p d =
     with_device d (Some (start_eviction purpose f victim p))"
| "advance_acquire io purpose (Evict_Write f victim img) p d =
     with_pool p (write_stable_image io victim img (purpose_operation purpose)
       (\<lambda>status. Acquire purpose (Evict_Done f victim status)) (Acquire purpose (Evict_Sync f victim)) d)"
| "advance_acquire io purpose (Evict_Sync f victim) p d =
     with_pool p (sync_stable_image io victim (purpose_operation purpose)
       (\<lambda>status. Acquire purpose (Evict_Done f victim status)) d)"
| "advance_acquire io purpose (Evict_Done f victim status) p d =
     with_device d (Some (end_eviction purpose f victim status p))"

fun advance_load :: "'d page_io \<Rightarrow> PageId \<Rightarrow> nat \<Rightarrow> LatchMode \<Rightarrow> FrameId \<Rightarrow> PageValidator \<Rightarrow> Load_Point \<Rightarrow>
    BufferPool \<Rightarrow> 'd \<Rightarrow> (Task \<times> BufferPool \<times> 'd) option" where
  "advance_load io page_id l mode f validator Load_Read p d =
     map_option (\<lambda>(read, bytes, d).
       (Load page_id l mode f validator
          (case read of Ok _ \<Rightarrow> Load_Validate | Unexpected e \<Rightarrow> Load_Done read VALID),
        set_bytes f bytes p, d))
       (io_ReadPage io page_id (Page_bytes (bf_page (bp_frame p f))) d)"
| "advance_load io page_id l mode f validator Load_Validate p d =
     Some (Load page_id l mode f validator
       (Load_Done (Ok ()) (ValidateLoadedPage (bf_page (bp_frame p f)) validator True)), p, d)"
| "advance_load io page_id l mode f validator (Load_Done read outcome) p d =
     with_device d (Some (finish_load page_id l mode f read outcome p))"

fun advance_create :: "'d page_io \<Rightarrow> FileId \<Rightarrow> PageInitializer \<Rightarrow> FrameId \<Rightarrow> New_Point \<Rightarrow> BufferPool \<Rightarrow> 'd \<Rightarrow>
    (Task \<times> BufferPool \<times> 'd) option" where
  "advance_create io fid initializer f (New_Count published) p d =
     map_option (\<lambda>(physical, d). (Create fid initializer f (new_page_counted published physical), p, d))
       (io_PageCount io fid d)"
| "advance_create io fid initializer f New_Extend p d =
     map_option (\<lambda>(extended, d). (Create fid initializer f (New_Bind extended), p, d))
       (io_ExtendFile io fid d)"
| "advance_create io fid initializer f (New_Bind reserved) p d =
     with_device d (Some (bind_new_page fid initializer f reserved p))"
| "advance_create io fid initializer f (New_Build page_id validator) p d =
     (let (built, bytes) = initializer page_id (Page_bytes (bf_page (bp_frame p f)));
          p = set_bytes f bytes p;
          outcome = (if built then ValidateLoadedPage (bf_page (bp_frame p f)) validator False else CORRUPT)
      in Some (Create fid initializer f (New_Done page_id built outcome), p, d))"
| "advance_create io fid initializer f (New_Done page_id built outcome) p d =
     with_device d (Some (publish_new_page fid f page_id built outcome p))"

text \<open>The bytes are copied under the shared latch, so not while a writer holds it.\<close>

fun advance_flush :: "'d page_io \<Rightarrow> Flush_Job \<Rightarrow> Flush_Point \<Rightarrow> BufferPool \<Rightarrow> 'd \<Rightarrow>
    (Task \<times> BufferPool \<times> 'd) option" where
  "advance_flush io job Flush_Next p d = with_device d (Some (flush_next job p))"
| "advance_flush io job (Copy_Image f page_id epoch) p d =
     (let fr = bp_frame p f
      in if bf_writer fr then None
         else Some (Flushing job (Write_Image f page_id epoch (bf_modification_generation fr)
                (Page_bytes (bf_page fr))), p, d))"
| "advance_flush io job (Write_Image f page_id epoch generation img) p d =
     with_pool p (write_stable_image io page_id img (fj_operation job)
       (\<lambda>status. Flushing job (Reconcile f page_id epoch generation status))
       (Flushing job (Sync_Image f page_id epoch generation)) d)"
| "advance_flush io job (Sync_Image f page_id epoch generation) p d =
     with_pool p (sync_stable_image io page_id (fj_operation job)
       (\<lambda>status. Flushing job (Reconcile f page_id epoch generation status)) d)"
| "advance_flush io job (Reconcile f page_id epoch generation status) p d =
     with_device d (Some (reconcile job f page_id epoch generation status p))"

text \<open>\<open>RegisterFile\<close> up to the device call. A validator is never an empty \<open>std::function\<close>.\<close>

definition RegisterFile :: "'d page_io \<Rightarrow> FileId \<Rightarrow> PageValidator \<Rightarrow> BufferPool \<Rightarrow> 'd \<Rightarrow>
    (Task \<times> BufferPool \<times> 'd) option" where
  "RegisterFile io fid validator p d =
     (if fid = INVALID_FILE_ID
      then Some (Returned (Unexpected (buffer_error FILE_OR_PAGE_NOT_FOUND REGISTER_FILE
             (PageId fid INVALID_PAGE_NO) ''invalid FileId'' None)), p, d)
      else map_option (\<lambda>(page_count, d). (Register_Counted fid validator page_count, p, d))
             (io_PageCount io fid d))"

declare RegisterFile_def [simp]

fun advance :: "'d page_io \<Rightarrow> Task \<Rightarrow> BufferPool \<Rightarrow> 'd \<Rightarrow> (Task \<times> BufferPool \<times> 'd) option" where
  "advance io (Pin page_id mode hit_notified) p d = with_device d (pin_page page_id mode hit_notified p)"
| "advance io (Join page_id l mode) p d = with_device d (join_load l mode p)"
| "advance io (Acquire purpose point) p d = advance_acquire io purpose point p d"
| "advance io (Load page_id l mode f validator point) p d = advance_load io page_id l mode f validator point p d"
| "advance io (New_Page fid initializer) p d = with_device d (new_page fid initializer p)"
| "advance io (Create fid initializer f point) p d = advance_create io fid initializer f point p d"
| "advance io (Latch f mode) p d =
     map_option (\<lambda>(guard, p). (Returned_Guard (Ok guard), p, d)) (MakeGuard f mode p)"
| "advance io (Unpin f) p d = Some (Returned (Ok ()), unpin_frame f p, d)"
| "advance io (Flush_Page page_id) p d =
     with_device d (Some (flush_page page_id p))"
| "advance io (Flush_File fid) p d = with_device d (Some (flush_file fid p))"
| "advance io Flush_All p d = with_device d (Some (flush_all p))"
| "advance io (Flushing job point) p d = advance_flush io job point p d"
| "advance io (Register fid validator) p d = RegisterFile io fid validator p d"
| "advance io (Register_Counted fid validator page_count) p d =
     (let (status, p) = register_counted fid validator page_count p in Some (Returned status, p, d))"
| "advance io (Retire fid disposition) p d = with_device d (Some (retire_file fid disposition p))"
| "advance io (Drain fid disposition) p d = with_device d (drain_file fid disposition p)"
| "advance io Shutdown p d = with_device d (Some (shutdown p))"
| "advance io Shutdown_Drain p d = with_device d (drain_pool p)"
| "advance io _ p d = None"

section \<open>The system\<close>

record 'd system =
  sy_pool :: BufferPool
  sy_device :: 'd
  sy_tasks :: "Task list"
  sy_guards :: "Guard list"

fun is_call :: "Task \<Rightarrow> bool" where
  "is_call (Pin page_id mode hit_notified) = (\<not> hit_notified)"
| "is_call (New_Page fid initializer) = True"
| "is_call (Flush_Page page_id) = True"
| "is_call (Flush_File fid) = True"
| "is_call Flush_All = True"
| "is_call (Register fid validator) = True"
| "is_call (Retire fid disposition) = True"
| "is_call Shutdown = True"
| "is_call _ = False"

text \<open>The holder of a write guard may change the bytes; it must publish the change with \<open>MarkDirty\<close>
  before it releases the guard (\<open>page_guard.h\<close>), which the debug build checks. \<open>PublishMutation\<close>
  asserts that the generation does not wrap.\<close>

inductive system_step :: "'d page_io \<Rightarrow> 'd system \<Rightarrow> 'd system \<Rightarrow> bool" for io where
  call: "is_call t \<Longrightarrow> system_step io s (s\<lparr>sy_tasks := sy_tasks s @ [t]\<rparr>)"
| task: "i < length (sy_tasks s) \<Longrightarrow>
    advance io (sy_tasks s ! i) (sy_pool s) (sy_device s) = Some (t, p, d) \<Longrightarrow>
    system_step io s (s\<lparr>sy_pool := p, sy_device := d, sy_tasks := (sy_tasks s)[i := t]\<rparr>)"
| take_guard: "i < length (sy_tasks s) \<Longrightarrow> sy_tasks s ! i = Returned_Guard (Ok g) \<Longrightarrow>
    system_step io s (s\<lparr>sy_tasks := (sy_tasks s)[i := Returned (Ok ())], sy_guards := g # sy_guards s\<rparr>)"
| mutate: "j < length (sy_guards s) \<Longrightarrow> g_mode (sy_guards s ! j) = EXCLUSIVE \<Longrightarrow> length bytes = 8192 \<Longrightarrow>
    system_step io s (s\<lparr>sy_pool := set_bytes (g_frame_id (sy_guards s ! j)) bytes (sy_pool s),
      sy_guards := (sy_guards s)[j := (sy_guards s ! j)\<lparr>g_unpublished := True\<rparr>]\<rparr>)"
| mark_dirty: "j < length (sy_guards s) \<Longrightarrow> g_mode (sy_guards s ! j) = EXCLUSIVE \<Longrightarrow>
    bf_modification_generation (bp_frame (sy_pool s) (g_frame_id (sy_guards s ! j))) \<noteq> - 1 \<Longrightarrow>
    system_step io s (s\<lparr>sy_pool := PublishMutation (g_frame_id (sy_guards s ! j)) (sy_pool s),
      sy_guards := (sy_guards s)[j := (sy_guards s ! j)\<lparr>g_unpublished := False\<rparr>]\<rparr>)"
| release: "sy_guards s = gs @ g # gs' \<Longrightarrow> \<not> g_unpublished g \<Longrightarrow>
    system_step io s (s\<lparr>sy_pool := ReleaseLatch g (sy_pool s), sy_guards := gs @ gs',
      sy_tasks := sy_tasks s @ [Unpin (g_frame_id g)]\<rparr>)"

text \<open>A run whose states all keep the callers' discipline \<open>P\<close>.\<close>

inductive system_run :: "'d page_io \<Rightarrow> ('d system \<Rightarrow> bool) \<Rightarrow> 'd system \<Rightarrow> 'd system \<Rightarrow> bool" for io P s where
  run_start: "P s \<Longrightarrow> system_run io P s s"
| run_more: "system_run io P s t \<Longrightarrow> system_step io t u \<Longrightarrow> P u \<Longrightarrow> system_run io P s u"

definition system_start :: "BufferPool \<Rightarrow> 'd \<Rightarrow> 'd system" where
  "system_start p d = \<lparr>sy_pool = p, sy_device = d, sy_tasks = [], sy_guards = []\<rparr>"

end
