(* ===== verification/Pool_Rights.thy ===== *)
theory Pool_Rights
  imports Pool_System "HOL-Library.Multiset"
begin

text \<open>
  Who owns what in the pool. A call in progress holds rights: to a frame that is not resident, to a
  page-table entry that is not resident, to a load it must complete, to a pin, to a writeback.
  \<open>pool_ok p R\<close> says that the state of the pool is accounted for, right by right, by the multiset
  \<open>R\<close> of all rights held; a lemma per change of the pool moves rights along with it, whatever the
  rest of them is.
\<close>

section \<open>Rights\<close>

datatype right =
    Own_Frame FrameId FrameState FrameIoState PageId
  | Own_Entry PageId PageTableEntry
  | Own_Load nat PageId
  | Claim nat
  | Pinned FrameId
  | Holding Guard
  | Writeback FrameId PageId "64 word"
  | Creation FileId "PageId option"
  | Retiring FileId
  | Draining FileId
  | Closing FileId "PageId set" bool
  | Seen FrameId
  | Impossible

fun owns_frame :: "FrameId \<Rightarrow> right \<Rightarrow> bool" where
  "owns_frame f (Own_Frame f' st io pid) = (f' = f)"
| "owns_frame f _ = False"

fun owns_entry :: "PageId \<Rightarrow> right \<Rightarrow> bool" where
  "owns_entry pid (Own_Entry pid' e) = (pid' = pid)"
| "owns_entry pid _ = False"

fun owns_load :: "nat \<Rightarrow> right \<Rightarrow> bool" where
  "owns_load l (Own_Load l' pid) = (l' = l)"
| "owns_load l _ = False"

fun claims :: "nat \<Rightarrow> right \<Rightarrow> bool" where
  "claims l (Claim l') = (l' = l)"
| "claims l (Own_Load l' pid) = (l' = l)"
| "claims l _ = False"

fun pins :: "BufferPool \<Rightarrow> FrameId \<Rightarrow> right \<Rightarrow> bool" where
  "pins p f (Pinned f') = (f' = f)"
| "pins p f (Holding g) = (g_frame_id g = f)"
| "pins p f (Claim l) = (lo_done (bp_loads p ! l) \<and> lo_frame_id (bp_loads p ! l) = Some f)"
| "pins p f _ = False"

fun holds :: "LatchMode \<Rightarrow> FrameId \<Rightarrow> right \<Rightarrow> bool" where
  "holds mode f (Holding g) = (g_frame_id g = f \<and> g_mode g = mode)"
| "holds mode f _ = False"

fun writes_back :: "FrameId \<Rightarrow> right \<Rightarrow> bool" where
  "writes_back f (Writeback f' pid epoch) = (f' = f)"
| "writes_back f _ = False"

fun creates :: "FileId \<Rightarrow> right \<Rightarrow> bool" where
  "creates fid (Creation fid' pid) = (fid' = fid)"
| "creates fid _ = False"

fun retires :: "FileId \<Rightarrow> right \<Rightarrow> bool" where
  "retires fid (Retiring fid') = (fid' = fid)"
| "retires fid (Draining fid') = (fid' = fid)"
| "retires fid (Closing fid' pages clean) = (fid' = fid)"
| "retires fid _ = False"

abbreviation frame_ids :: "BufferPool \<Rightarrow> FrameId set" where
  "frame_ids p \<equiv> {f. unat f < length (bp_frames p)}"

definition registered :: "BufferPool \<Rightarrow> FileId \<Rightarrow> FileState \<Rightarrow> bool \<Rightarrow> bool" where
  "registered p fid st creating \<longleftrightarrow>
     (\<exists>fe. find_file p fid = Some fe \<and> fe_state fe = st \<and> fe_new_page_in_progress fe = creating)"

text \<open>A file about to be closed: only resident pages, nobody uses them, the dirty ones are still to flush.\<close>

definition closing_ok :: "BufferPool \<Rightarrow> FileId \<Rightarrow> PageId set \<Rightarrow> bool \<Rightarrow> bool" where
  "closing_ok p fid pages clean \<longleftrightarrow> registered p fid RETIRING False \<and>
     (\<forall>pid e. find_entry p pid = Some e \<and> file_id pid = fid \<longrightarrow>
        pt_state e = PT_RESIDENT \<and> bf_pin_count (bp_frame p (pt_frame_id e)) = 0 \<and>
        (clean \<and> bf_dirty (bp_frame p (pt_frame_id e)) \<longrightarrow> pid \<in> pages))"

fun right_ok :: "BufferPool \<Rightarrow> right \<Rightarrow> bool" where
  "right_ok p (Own_Frame f st io pid) =
     (f \<in> frame_ids p \<and> st \<noteq> RESIDENT \<and> bf_state (bp_frame p f) = st \<and> bf_io_state (bp_frame p f) = io \<and>
      Page_id (bf_page (bp_frame p f)) = pid)"
| "right_ok p (Own_Entry pid e) = (find_entry p pid = Some e \<and> pt_state e \<noteq> PT_RESIDENT)"
| "right_ok p (Own_Load l pid) =
     (l < length (bp_loads p) \<and> \<not> lo_done (bp_loads p ! l) \<and> lo_frame_id (bp_loads p ! l) = None)"
| "right_ok p (Claim l) = (l < length (bp_loads p))"
| "right_ok p (Pinned f) = (f \<in> frame_ids p)"
| "right_ok p (Holding g) =
     (g_frame_id g \<in> frame_ids p \<and> Page_id (bf_page (bp_frame p (g_frame_id g))) = g_page_id g \<and>
      bf_binding_epoch (bp_frame p (g_frame_id g)) = g_binding_epoch g)"
| "right_ok p (Writeback f pid epoch) =
     (f \<in> frame_ids p \<and> Page_id (bf_page (bp_frame p f)) = pid \<and> bf_binding_epoch (bp_frame p f) = epoch)"
| "right_ok p (Creation fid pid) =
     (\<exists>fe. find_file p fid = Some fe \<and> fe_new_page_in_progress fe \<and>
        (\<forall>pid'. pid = Some pid' \<longrightarrow> file_id pid' = fid \<and> page_no pid' \<noteq> 0 \<and>
           (fe_published_page_count fe = page_no pid' \<or> fe_published_page_count fe = page_no pid' + 1)))"
| "right_ok p (Retiring fid) = True"
| "right_ok p (Draining fid) = (registered p fid RETIRING True \<or> registered p fid RETIRING False)"
| "right_ok p (Closing fid pages clean) = closing_ok p fid pages clean"
| "right_ok p (Seen f) = (f \<in> frame_ids p)"
| "right_ok p Impossible = False"

section \<open>The accounts\<close>

abbreviation held :: "(right \<Rightarrow> bool) \<Rightarrow> right multiset \<Rightarrow> nat" where
  "held P R \<equiv> size (filter_mset P R)"

text \<open>The combinations of states the frame's declaration lists.\<close>

definition legal_frame :: "BufferFrame \<Rightarrow> bool" where
  "legal_frame fr \<longleftrightarrow>
     (case bf_state fr of
        FREE \<Rightarrow> bf_io_state fr = IO_NONE \<and> \<not> bf_dirty fr \<and> Page_id (bf_page fr) = default_PageId
      | LOADING \<Rightarrow> bf_io_state fr \<noteq> WRITEBACK_IN_PROGRESS \<and> \<not> bf_dirty fr
      | _ \<Rightarrow> bf_io_state fr \<noteq> READ_IN_PROGRESS) \<and>
     (bf_io_state fr = WRITEBACK_IN_PROGRESS \<longrightarrow> bf_dirty fr) \<and>
     (bf_pin_count fr \<noteq> 0 \<longrightarrow> bf_state fr = RESIDENT) \<and>
     (bf_writer fr \<longrightarrow> bf_readers fr = 0)"

definition shape_ok :: "BufferPool \<Rightarrow> bool" where
  "shape_ok p \<longleftrightarrow> clock_inv (bp_replacer p) \<and>
     length (cr_referenced (bp_replacer p)) = length (bp_frames p) \<and>
     distinct (map fst (bp_page_table p)) \<and> distinct (map fst (bp_files p)) \<and>
     set (bp_free_list p) \<subseteq> frame_ids p"

definition frame_ok :: "BufferPool \<Rightarrow> right multiset \<Rightarrow> FrameId \<Rightarrow> bool" where
  "frame_ok p R f \<longleftrightarrow>
     (let fr = bp_frame p f
      in legal_frame fr \<and>
         count (mset (bp_free_list p)) f + held (owns_frame f) R + of_bool (bf_state fr = RESIDENT) = 1 \<and>
         (f \<in> set (bp_free_list p) \<longrightarrow> bf_state fr = FREE) \<and>
         held (writes_back f) R = of_bool (bf_state fr = RESIDENT \<and> bf_io_state fr = WRITEBACK_IN_PROGRESS) \<and>
         unat (bf_pin_count fr) = held (pins p f) R \<and>
         bf_readers fr = held (holds SHARED f) R \<and>
         of_bool (bf_writer fr) = held (holds EXCLUSIVE f) R \<and>
         (bf_state fr = RESIDENT \<longrightarrow> find_entry p (Page_id (bf_page fr)) =
            Some \<lparr>pt_state = PT_RESIDENT, pt_frame_id = f, pt_load = None\<rparr>))"

definition entry_ok :: "BufferPool \<Rightarrow> right multiset \<Rightarrow> PageId \<Rightarrow> bool" where
  "entry_ok p R pid \<longleftrightarrow>
     (case find_entry p pid of
        None \<Rightarrow> held (owns_entry pid) R = 0
      | Some e \<Rightarrow>
          held (owns_entry pid) R = of_bool (pt_state e \<noteq> PT_RESIDENT) \<and>
          (pt_state e = PT_RESIDENT \<longrightarrow> pt_frame_id e \<in> frame_ids p \<and>
             bf_state (bp_frame p (pt_frame_id e)) = RESIDENT \<and>
             Page_id (bf_page (bp_frame p (pt_frame_id e))) = pid \<and> pt_load e = None) \<and>
          (\<forall>l. pt_load e = Some l \<longrightarrow> Own_Load l pid \<in># R) \<and>
          (\<exists>fe. find_file p (file_id pid) = Some fe \<and>
             (if pt_state e = PT_LOADING \<and> pt_load e = None then Creation (file_id pid) (Some pid) \<in># R
              else page_no pid < fe_published_page_count fe \<or> fe_published_page_count fe = 0)))"

definition load_ok :: "BufferPool \<Rightarrow> right multiset \<Rightarrow> nat \<Rightarrow> bool" where
  "load_ok p R l \<longleftrightarrow>
     (let load = bp_loads p ! l
      in held (owns_load l) R = of_bool (\<not> lo_done load) \<and>
         (\<not> lo_done load \<longrightarrow> unat (lo_claims load) = held (claims l) R) \<and>
         (\<forall>f. lo_frame_id load = Some f \<longrightarrow> f \<in> frame_ids p))"

definition file_ok :: "BufferPool \<Rightarrow> right multiset \<Rightarrow> FileId \<Rightarrow> bool" where
  "file_ok p R fid \<longleftrightarrow> held (retires fid) R \<le> 1 \<and>
     held (creates fid) R =
       (case find_file p fid of None \<Rightarrow> 0 | Some fe \<Rightarrow> of_bool (fe_new_page_in_progress fe))"

definition pool_ok :: "BufferPool \<Rightarrow> right multiset \<Rightarrow> bool" where
  "pool_ok p R \<longleftrightarrow> shape_ok p \<and> (\<forall>f \<in> frame_ids p. frame_ok p R f) \<and> (\<forall>pid. entry_ok p R pid) \<and>
     (\<forall>l < length (bp_loads p). load_ok p R l) \<and> (\<forall>fid. file_ok p R fid) \<and> (\<forall>r \<in># R. right_ok p r)"

section \<open>Reading the pool after a change\<close>

lemma held_zero: "held P R = 0 \<longleftrightarrow> (\<forall>r \<in># R. \<not> P r)"
  by (induction R) auto

lemma held_nonzero: "r \<in># R \<Longrightarrow> P r \<Longrightarrow> held P R \<noteq> 0"
  by auto

lemma bp_frame_set_frame:
  assumes "f \<in> frame_ids p"
  shows "bp_frame (set_frame f c p) f' = (if f' = f then c (bp_frame p f) else bp_frame p f')"
  using assms by (auto simp: bp_frame_def set_frame_def nth_list_update dest: word_unat_eq_iff[THEN iffD2])

lemma pool_set_frame [simp]:
  "length (bp_frames (set_frame f c p)) = length (bp_frames p)"
  "bp_free_list (set_frame f c p) = bp_free_list p" "bp_replacer (set_frame f c p) = bp_replacer p"
  "bp_page_table (set_frame f c p) = bp_page_table p" "bp_files (set_frame f c p) = bp_files p"
  "bp_loads (set_frame f c p) = bp_loads p" "bp_max_pin_count (set_frame f c p) = bp_max_pin_count p"
  "bp_quiescing (set_frame f c p) = bp_quiescing p"
  by (simp_all add: set_frame_def)

lemma pool_put_entry [simp]:
  "bp_frames (put_entry pid e p) = bp_frames p" "bp_free_list (put_entry pid e p) = bp_free_list p"
  "bp_replacer (put_entry pid e p) = bp_replacer p" "bp_files (put_entry pid e p) = bp_files p"
  "bp_loads (put_entry pid e p) = bp_loads p"
  by (simp_all add: put_entry_def)

lemma pool_erase_entry [simp]:
  "bp_frames (erase_entry pid p) = bp_frames p" "bp_free_list (erase_entry pid p) = bp_free_list p"
  "bp_replacer (erase_entry pid p) = bp_replacer p" "bp_files (erase_entry pid p) = bp_files p"
  "bp_loads (erase_entry pid p) = bp_loads p"
  by (simp_all add: erase_entry_def)

lemma pool_put_file [simp]:
  "bp_frames (put_file fid fe p) = bp_frames p" "bp_free_list (put_file fid fe p) = bp_free_list p"
  "bp_replacer (put_file fid fe p) = bp_replacer p" "bp_page_table (put_file fid fe p) = bp_page_table p"
  "bp_loads (put_file fid fe p) = bp_loads p"
  by (simp_all add: put_file_def)

lemma pool_set_load [simp]:
  "bp_frames (set_load l c p) = bp_frames p" "bp_free_list (set_load l c p) = bp_free_list p"
  "bp_replacer (set_load l c p) = bp_replacer p" "bp_page_table (set_load l c p) = bp_page_table p"
  "bp_files (set_load l c p) = bp_files p" "length (bp_loads (set_load l c p)) = length (bp_loads p)"
  by (simp_all add: set_load_def)

lemma find_entry_change [simp]:
  "find_entry (put_entry pid e p) pid' = (if pid' = pid then Some e else find_entry p pid')"
  "find_entry (set_frame f c p) pid' = find_entry p pid'"
  "find_entry (put_file fid fe p) pid' = find_entry p pid'"
  "find_entry (set_load l lc p) pid' = find_entry p pid'"
  by (simp_all add: find_entry_def put_entry_def update_conv')

lemma find_entry_erase [simp]:
  "find_entry (erase_entry pid p) pid' = (if pid' = pid then None else find_entry p pid')"
  by (simp add: find_entry_def erase_entry_def delete_conv')

lemma find_file_change [simp]:
  "find_file (put_file fid fe p) fid' = (if fid' = fid then Some fe else find_file p fid')"
  "find_file (set_frame f c p) fid' = find_file p fid'"
  "find_file (put_entry pid e p) fid' = find_file p fid'"
  "find_file (erase_entry pid p) fid' = find_file p fid'"
  "find_file (set_load l lc p) fid' = find_file p fid'"
  by (simp_all add: find_file_def put_file_def update_conv')

lemma bp_frame_change [simp]:
  "bp_frame (put_entry pid e p) = bp_frame p" "bp_frame (erase_entry pid p) = bp_frame p"
  "bp_frame (put_file fid fe p) = bp_frame p" "bp_frame (set_load l lc p) = bp_frame p"
  by (simp_all add: bp_frame_def fun_eq_iff)

lemma pool_extra [simp]:
  "find_entry (p\<lparr>bp_replacer := c\<rparr>) = find_entry p" "find_entry (p\<lparr>bp_free_list := fl\<rparr>) = find_entry p"
  "find_entry (p\<lparr>bp_quiescing := q\<rparr>) = find_entry p" "find_entry (p\<lparr>bp_loads := ls\<rparr>) = find_entry p"
  "find_file (p\<lparr>bp_replacer := c\<rparr>) = find_file p" "find_file (p\<lparr>bp_free_list := fl\<rparr>) = find_file p"
  "find_file (p\<lparr>bp_quiescing := q\<rparr>) = find_file p" "find_file (p\<lparr>bp_loads := ls\<rparr>) = find_file p"
  "bp_frame (p\<lparr>bp_replacer := c\<rparr>) = bp_frame p" "bp_frame (p\<lparr>bp_free_list := fl\<rparr>) = bp_frame p"
  "bp_frame (p\<lparr>bp_quiescing := q\<rparr>) = bp_frame p" "bp_frame (p\<lparr>bp_loads := ls\<rparr>) = bp_frame p"
  by (simp_all add: find_entry_def find_file_def bp_frame_def fun_eq_iff)

lemma pins_loads: "bp_loads p' = bp_loads p \<Longrightarrow> pins p' = pins p"
proof (intro ext)
  fix f r assume "bp_loads p' = bp_loads p"
  then show "pins p' f r = pins p f r" by (cases r) auto
qed

lemma registered_files: "find_file p' = find_file p \<Longrightarrow> registered p' = registered p"
  by (simp add: registered_def fun_eq_iff)

lemma find_entry_mem: "shape_ok p \<Longrightarrow> find_entry p pid = Some e \<longleftrightarrow> (pid, e) \<in> set (bp_page_table p)"
  by (simp add: find_entry_def shape_ok_def map_of_eq_Some_iff)

section \<open>What an accounted pool knows of a right\<close>

lemma pool_okD:
  assumes "pool_ok p R"
  shows "shape_ok p" "f \<in> frame_ids p \<Longrightarrow> frame_ok p R f" "entry_ok p R pid"
    "l < length (bp_loads p) \<Longrightarrow> load_ok p R l" "file_ok p R fid" "r \<in># R \<Longrightarrow> right_ok p r"
  using assms by (auto simp: pool_ok_def)

lemma pool_okI:
  assumes "shape_ok p" "\<And>f. f \<in> frame_ids p \<Longrightarrow> frame_ok p R f" "\<And>pid. entry_ok p R pid"
    "\<And>l. l < length (bp_loads p) \<Longrightarrow> load_ok p R l" "\<And>fid. file_ok p R fid" "\<And>r. r \<in># R \<Longrightarrow> right_ok p r"
  shows "pool_ok p R"
  using assms by (simp add: pool_ok_def)

lemma pinned_resident:
  assumes "pool_ok p R" and "f \<in> frame_ids p" and "r \<in># R" and "pins p f r"
  shows "bf_state (bp_frame p f) = RESIDENT" and "bf_pin_count (bp_frame p f) \<noteq> 0"
proof -
  have "held (pins p f) R \<noteq> 0" using assms(3,4) by auto
  then show n: "bf_pin_count (bp_frame p f) \<noteq> 0"
    using pool_okD(2)[OF assms(1,2)] by (auto simp: frame_ok_def Let_def)
  then show "bf_state (bp_frame p f) = RESIDENT"
    using pool_okD(2)[OF assms(1,2)] by (auto simp: frame_ok_def Let_def legal_frame_def)
qed

lemma guard_resident:
  assumes "pool_ok p R" and "Holding g \<in># R"
  shows "bf_state (bp_frame p (g_frame_id g)) = RESIDENT" and "bf_pin_count (bp_frame p (g_frame_id g)) \<noteq> 0"
    and "g_frame_id g \<in> frame_ids p"
  using pinned_resident[OF assms(1) _ assms(2)] pool_okD(6)[OF assms] by auto

lemma writeback_resident:
  assumes "pool_ok p R" and "Writeback f pid epoch \<in># R"
  shows "bf_state (bp_frame p f) = RESIDENT" and "bf_io_state (bp_frame p f) = WRITEBACK_IN_PROGRESS"
    and "f \<in> frame_ids p"
proof -
  show f: "f \<in> frame_ids p" using pool_okD(6)[OF assms] by simp
  have "held (writes_back f) R \<noteq> 0" by (rule held_nonzero[OF assms(2)]) simp
  then show "bf_state (bp_frame p f) = RESIDENT" and "bf_io_state (bp_frame p f) = WRITEBACK_IN_PROGRESS"
    using pool_okD(2)[OF assms(1) f] by (auto simp: frame_ok_def Let_def of_bool_def split: if_splits)
qed

lemma resident_entry:
  assumes "pool_ok p R" and "find_entry p pid = Some e" and "pt_state e = PT_RESIDENT"
  shows "pt_frame_id e \<in> frame_ids p" and "bf_state (bp_frame p (pt_frame_id e)) = RESIDENT"
    and "Page_id (bf_page (bp_frame p (pt_frame_id e))) = pid" and "pt_load e = None"
  using pool_okD(3)[OF assms(1), of pid] assms(2,3) by (auto simp: entry_ok_def)

lemma resident_frame:
  assumes "pool_ok p R" and "f \<in> frame_ids p" and "bf_state (bp_frame p f) = RESIDENT"
  shows "find_entry p (Page_id (bf_page (bp_frame p f))) =
      Some \<lparr>pt_state = PT_RESIDENT, pt_frame_id = f, pt_load = None\<rparr>"
    and "f \<notin> set (bp_free_list p)" and "r \<in># R \<Longrightarrow> \<not> owns_frame f r"
  using pool_okD(2)[OF assms(1,2)] assms(3) by (auto simp: frame_ok_def Let_def held_zero)

lemma owned_frame:
  assumes "pool_ok p (add_mset (Own_Frame f st io pid) M)"
  shows "f \<in> frame_ids p" and "bf_state (bp_frame p f) = st" and "st \<noteq> RESIDENT" and "f \<notin> set (bp_free_list p)"
    and "r \<in># M \<Longrightarrow> \<not> owns_frame f r \<and> \<not> writes_back f r \<and> \<not> pins p f r"
    and "bf_io_state (bp_frame p f) = io" and "Page_id (bf_page (bp_frame p f)) = pid"
    and "bf_pin_count (bp_frame p f) = 0" and "bf_readers (bp_frame p f) = 0" and "\<not> bf_writer (bp_frame p f)"
proof -
  show f: "f \<in> frame_ids p" and st: "bf_state (bp_frame p f) = st" "st \<noteq> RESIDENT"
    and "bf_io_state (bp_frame p f) = io" "Page_id (bf_page (bp_frame p f)) = pid"
    using pool_okD(6)[OF assms] by force+
  have ok: "frame_ok p (add_mset (Own_Frame f st io pid) M) f" using pool_okD(2)[OF assms f] .
  then show pin: "bf_pin_count (bp_frame p f) = 0" using st by (auto simp: frame_ok_def Let_def legal_frame_def)
  show "f \<notin> set (bp_free_list p)" using ok by (auto simp: frame_ok_def Let_def)
  have z: "held (owns_frame f) M = 0" "held (writes_back f) M = 0" "held (pins p f) M = 0"
    using ok st pin by (auto simp: frame_ok_def Let_def)
  then show "\<not> owns_frame f r \<and> \<not> writes_back f r \<and> \<not> pins p f r" if "r \<in># M" for r
    using that by (simp add: held_zero)
  have "\<not> holds mode f r" if "r \<in># M" for mode r
    using that z(3) by (cases r) (auto simp: held_zero)
  then have "held (holds mode f) M = 0" for mode by (simp add: held_zero)
  note h = this[of SHARED] this[of EXCLUSIVE]
  have "bf_readers (bp_frame p f) = held (holds SHARED f) M"
    and "of_bool (bf_writer (bp_frame p f)) = held (holds EXCLUSIVE f) M"
    using ok by (simp_all add: frame_ok_def Let_def)
  then show "bf_readers (bp_frame p f) = 0" and "\<not> bf_writer (bp_frame p f)"
    unfolding h by (simp_all split: if_splits)
qed

lemma owned_entry:
  assumes "pool_ok p (add_mset (Own_Entry pid e) M)"
  shows "find_entry p pid = Some e" and "pt_state e \<noteq> PT_RESIDENT" and "r \<in># M \<Longrightarrow> \<not> owns_entry pid r"
    and "r \<in># M \<Longrightarrow> r = Closing fid pages clean \<Longrightarrow> fid \<noteq> file_id pid"
proof -
  show e: "find_entry p pid = Some e" "pt_state e \<noteq> PT_RESIDENT" using pool_okD(6)[OF assms] by force+
  show "\<not> owns_entry pid r" if "r \<in># M"
    using pool_okD(3)[OF assms, of pid] e that by (auto simp: entry_ok_def held_zero)
  show "fid \<noteq> file_id pid" if "r \<in># M" "r = Closing fid pages clean"
  proof
    assume f: "fid = file_id pid"
    have "r \<in># add_mset (Own_Entry pid e) M" using that by simp
    from pool_okD(6)[OF assms this] show False using that(2) e f by (auto simp: closing_ok_def)
  qed
qed

end
