(* ===== verification/Pool_Moves.thy ===== *)
theory Pool_Moves
  imports Pool_Rights
begin

text \<open>
  The changes the pool's critical sections are made of, each with the rights it consumes and yields.
\<close>

lemmas account_defs = frame_ok_def entry_ok_def load_ok_def file_ok_def Let_def

section \<open>Frames\<close>

lemma right_ok_set_frame:
  assumes "right_ok p r" and "f \<in> frame_ids p" and "\<not> owns_frame f r"
    and "writes_back f r \<or> (\<exists>g. r = Holding g \<and> g_frame_id g = f) \<Longrightarrow>
      Page_id (bf_page (c (bp_frame p f))) = Page_id (bf_page (bp_frame p f)) \<and>
      bf_binding_epoch (c (bp_frame p f)) = bf_binding_epoch (bp_frame p f)"
    and "\<And>fid pages clean pid e. r = Closing fid pages clean \<Longrightarrow> find_entry p pid = Some e \<Longrightarrow> file_id pid = fid \<Longrightarrow>
      pt_frame_id e = f \<Longrightarrow> pt_state e = PT_RESIDENT \<Longrightarrow> bf_pin_count (bp_frame p f) = 0 \<Longrightarrow>
      (clean \<Longrightarrow> bf_dirty (bp_frame p f) \<Longrightarrow> pid \<in> pages) \<Longrightarrow>
      bf_pin_count (c (bp_frame p f)) = 0 \<and> (clean \<and> bf_dirty (c (bp_frame p f)) \<longrightarrow> pid \<in> pages)"
  shows "right_ok (set_frame f c p) r"
proof (cases r)
  case (Closing fid pages clean)
  then have ok: "closing_ok p fid pages clean" using assms(1) by simp
  have "pt_state e = PT_RESIDENT \<and> bf_pin_count (bp_frame (set_frame f c p) (pt_frame_id e)) = 0 \<and>
      (clean \<and> bf_dirty (bp_frame (set_frame f c p) (pt_frame_id e)) \<longrightarrow> pid \<in> pages)"
    if "find_entry p pid = Some e" "file_id pid = fid" for pid e
    using ok that assms(5)[OF Closing that] assms(2)
    by (auto simp: closing_ok_def bp_frame_set_frame)
  with ok show ?thesis unfolding Closing right_ok.simps closing_ok_def registered_def find_entry_change find_file_change
    by blast
qed (use assms in \<open>auto simp: bp_frame_set_frame registered_def\<close>)

lemma set_owned_frame:
  assumes ok: "pool_ok p (add_mset (Own_Frame f st io pid) M)"
    and c: "legal_frame (c (bp_frame p f))" "bf_state (c (bp_frame p f)) \<noteq> RESIDENT"
      "bf_pin_count (c (bp_frame p f)) = 0" "bf_readers (c (bp_frame p f)) = bf_readers (bp_frame p f)"
      "bf_writer (c (bp_frame p f)) = bf_writer (bp_frame p f)"
    and res: "st' = bf_state (c (bp_frame p f))" "io' = bf_io_state (c (bp_frame p f))"
      "pid' = Page_id (bf_page (c (bp_frame p f)))"
  shows "pool_ok (set_frame f c p) (add_mset (Own_Frame f st' io' pid') M)"
proof (rule pool_okI)
  note own = owned_frame[OF ok]
  note fr = bp_frame_set_frame[OF own(1)]
  show "shape_ok (set_frame f c p)" using pool_okD(1)[OF ok] by (simp add: shape_ok_def)
  show "frame_ok (set_frame f c p) (add_mset (Own_Frame f st' io' pid') M) f'"
    if "f' \<in> frame_ids (set_frame f c p)" for f'
  proof (cases "f' = f")
    case True
    then show ?thesis using pool_okD(2)[OF ok own(1)] own(2,3,4,8,9,10) c
      by (simp add: frame_ok_def Let_def fr pins_loads[of "set_frame f c p" p])
  next
    case False
    then show ?thesis using pool_okD(2)[OF ok, of f'] that
      by (simp add: frame_ok_def Let_def fr pins_loads[of "set_frame f c p" p])
  qed
  show "entry_ok (set_frame f c p) (add_mset (Own_Frame f st' io' pid') M) pid" for pid
    using pool_okD(3)[OF ok, of pid] own(2,3) by (auto simp: entry_ok_def fr split: option.splits)
  show "load_ok (set_frame f c p) (add_mset (Own_Frame f st' io' pid') M) l"
    if "l < length (bp_loads (set_frame f c p))" for l
    using pool_okD(4)[OF ok, of l] that by (simp add: load_ok_def)
  show "file_ok (set_frame f c p) (add_mset (Own_Frame f st' io' pid') M) fid" for fid
    using pool_okD(5)[OF ok, of fid] by (simp add: file_ok_def)
  show "right_ok (set_frame f c p) r" if "r \<in># add_mset (Own_Frame f st' io' pid') M" for r
  proof (cases "r = Own_Frame f st' io' pid'")
    case True
    then show ?thesis using c(2) res own(1) by (simp add: fr)
  next
    case False
    then have r: "r \<in># M" using that by simp
    then have old: "right_ok p r" using pool_okD(6)[OF ok] by simp
    show ?thesis
    proof (rule right_ok_set_frame[OF old own(1)])
      show "\<not> owns_frame f r" using own(5)[OF r] by simp
      show "Page_id (bf_page (c (bp_frame p f))) = Page_id (bf_page (bp_frame p f)) \<and>
          bf_binding_epoch (c (bp_frame p f)) = bf_binding_epoch (bp_frame p f)"
        if "writes_back f r \<or> (\<exists>g. r = Holding g \<and> g_frame_id g = f)" using own(5)[OF r] that by auto
    next
      fix fid pages clean pid e
      assume "find_entry p pid = Some e" "pt_frame_id e = f" "pt_state e = PT_RESIDENT"
      then have "bf_state (bp_frame p f) = RESIDENT" using resident_entry(2)[OF ok] by blast
      then show "bf_pin_count (c (bp_frame p f)) = 0 \<and> (clean \<and> bf_dirty (c (bp_frame p f)) \<longrightarrow> pid \<in> pages)"
        using own(2,3) by simp
    qed
  qed
qed

text \<open>A resident frame stays bound; the rights that change are about it alone.\<close>

fun on_frame :: "FrameId \<Rightarrow> right \<Rightarrow> bool" where
  "on_frame f (Pinned f') = (f' = f)"
| "on_frame f (Holding g) = (g_frame_id g = f)"
| "on_frame f (Writeback f' pid epoch) = (f' = f)"
| "on_frame f _ = False"

lemma on_frame_not:
  assumes "on_frame f r"
  shows "\<not> owns_frame f' r" "\<not> owns_entry pid r" "\<not> owns_load l r" "\<not> claims l r" "\<not> creates fid r"
    "\<not> retires fid r" "f' \<noteq> f \<Longrightarrow> \<not> pins p f' r" "f' \<noteq> f \<Longrightarrow> \<not> writes_back f' r" "f' \<noteq> f \<Longrightarrow> \<not> holds mode f' r"
    "r \<noteq> Own_Load l pid" "r \<noteq> Creation fid x"
  using assms by (cases r; auto)+

lemma held_off: "(\<And>r. r \<in># A \<Longrightarrow> \<not> P r) \<Longrightarrow> held P (A + M) = held P M"
  by (simp add: held_zero)

lemma set_resident_frame:
  assumes okR: "pool_ok p R" and R: "R = A + M" "R' = B + M" and f: "f \<in> frame_ids p"
    and st: "bf_state (bp_frame p f) = RESIDENT" "bf_state (c (bp_frame p f)) = RESIDENT"
    and same: "Page_id (bf_page (c (bp_frame p f))) = Page_id (bf_page (bp_frame p f))"
      "bf_binding_epoch (c (bp_frame p f)) = bf_binding_epoch (bp_frame p f)"
    and on: "\<And>r. r \<in># A \<Longrightarrow> on_frame f r" "\<And>r. r \<in># B \<Longrightarrow> on_frame f r"
    and new: "frame_ok (set_frame f c p) (B + M) f" "\<And>r. r \<in># B \<Longrightarrow> right_ok (set_frame f c p) r"
    and closing: "\<And>fid pages clean pid. Closing fid pages clean \<in># M \<Longrightarrow> file_id (Page_id (bf_page (bp_frame p f))) = fid \<Longrightarrow>
      bf_pin_count (bp_frame p f) = 0 \<Longrightarrow>
      bf_pin_count (c (bp_frame p f)) = 0 \<and> (bf_dirty (c (bp_frame p f)) \<longrightarrow> bf_dirty (bp_frame p f))"
  shows "pool_ok (set_frame f c p) R'"
  unfolding R(2)
proof (rule pool_okI)
  note ok = okR[unfolded R(1)]
  note fr = bp_frame_set_frame[OF f]
  have off: "held P (A + M) = held P (B + M)" if "\<And>r. on_frame f r \<Longrightarrow> \<not> P r" for P
    using held_off[of A P M] held_off[of B P M] on that by metis
  have mem: "r \<in># A + M \<longleftrightarrow> r \<in># B + M" if "\<not> on_frame f r" for r using on that by auto
  show "shape_ok (set_frame f c p)" using pool_okD(1)[OF ok] by (simp add: shape_ok_def)
  show "frame_ok (set_frame f c p) (B + M) f'" if "f' \<in> frame_ids (set_frame f c p)" for f'
  proof (cases "f' = f")
    case False
    have "frame_ok p (A + M) f'" using pool_okD(2)[OF ok, of f'] that by simp
    then show ?thesis using False off[of "owns_frame f'"] off[of "writes_back f'"] off[of "pins p f'"]
        off[of "holds SHARED f'"] off[of "holds EXCLUSIVE f'"]
      by (simp add: frame_ok_def Let_def fr on_frame_not pins_loads[of "set_frame f c p" p] del: filter_union_mset)
  qed (use new(1) in simp)
  show "entry_ok (set_frame f c p) (B + M) pid" for pid
    using pool_okD(3)[OF ok, of pid] off[of "owns_entry pid"] mem[of "Creation (file_id pid) (Some pid)"]
      mem[of "Own_Load l pid" for l] same st
    by (auto simp: entry_ok_def fr on_frame_not simp del: filter_union_mset split: option.splits)
  show "load_ok (set_frame f c p) (B + M) l" if "l < length (bp_loads (set_frame f c p))" for l
    using pool_okD(4)[OF ok, of l] that off[of "owns_load l"] off[of "claims l"]
    by (simp add: load_ok_def on_frame_not Let_def del: filter_union_mset)
  show "file_ok (set_frame f c p) (B + M) fid" for fid
    using pool_okD(5)[OF ok, of fid] off[of "retires fid"] off[of "creates fid"]
    by (simp add: file_ok_def on_frame_not del: filter_union_mset)
  show "right_ok (set_frame f c p) r" if "r \<in># B + M" for r
  proof (cases "r \<in># B")
    case False
    then have r: "r \<in># M" using that by simp
    then have old: "right_ok p r" using pool_okD(6)[OF ok] by simp
    show ?thesis
    proof (rule right_ok_set_frame[OF old f])
      show "\<not> owns_frame f r" using resident_frame(3)[OF ok f st(1), of r] r by simp
    next
      fix fid pages clean pid e
      assume a: "r = Closing fid pages clean" "find_entry p pid = Some e" "file_id pid = fid" "pt_frame_id e = f"
        "pt_state e = PT_RESIDENT" "bf_pin_count (bp_frame p f) = 0"
        "clean \<Longrightarrow> bf_dirty (bp_frame p f) \<Longrightarrow> pid \<in> pages"
      then have "Page_id (bf_page (bp_frame p f)) = pid" using resident_entry(3)[OF ok a(2,5)] by simp
      then show "bf_pin_count (c (bp_frame p f)) = 0 \<and> (clean \<and> bf_dirty (c (bp_frame p f)) \<longrightarrow> pid \<in> pages)"
        using closing[of fid pages clean] r a by auto
    qed (use same in simp)
  qed (use new(2) in simp)
qed

text \<open>The changes of a resident frame. \<open>resident_facts\<close> is what its account says.\<close>

lemma resident_facts:
  assumes "pool_ok p R" and "f \<in> frame_ids p" and "bf_state (bp_frame p f) = RESIDENT"
  shows "frame_ok p R f" "legal_frame (bp_frame p f)"
    "held (writes_back f) R = of_bool (bf_io_state (bp_frame p f) = WRITEBACK_IN_PROGRESS)"
    "unat (bf_pin_count (bp_frame p f)) = held (pins p f) R"
  using pool_okD(2)[OF assms(1,2)] assms(3) by (simp_all add: frame_ok_def Let_def)

lemmas resident_simps = frame_ok_def Let_def bp_frame_set_frame legal_frame_def pins_loads[OF pool_set_frame(6)]

lemma pin_frame:
  assumes ok: "pool_ok p M" and f: "f \<in> frame_ids p" and st: "bf_state (bp_frame p f) = RESIDENT"
    and active: "registered p (file_id (Page_id (bf_page (bp_frame p f)))) ACTIVE creating"
    and room: "bf_pin_count (bp_frame p f) \<noteq> - 1"
  shows "pool_ok (set_frame f (\<lambda>fr. fr\<lparr>bf_pin_count := bf_pin_count fr + 1\<rparr>) p) (add_mset (Pinned f) M)"
proof (rule set_resident_frame[OF ok, where A="{#}" and B="{#Pinned f#}"])
  have "unat (bf_pin_count (bp_frame p f) + 1) = Suc (unat (bf_pin_count (bp_frame p f)))"
    using room by (metis add.commute eq_neg_iff_add_eq_0 unatSuc)
  then show "frame_ok (set_frame f (\<lambda>fr. fr\<lparr>bf_pin_count := bf_pin_count fr + 1\<rparr>) p) ({#Pinned f#} + M) f"
    using resident_facts[OF ok f st] st f by (simp add: resident_simps)
next
  fix fid pages clean pid
  assume "Closing fid pages clean \<in># M" "file_id (Page_id (bf_page (bp_frame p f))) = fid"
  then show "bf_pin_count ((bp_frame p f)\<lparr>bf_pin_count := bf_pin_count (bp_frame p f) + 1\<rparr>) = 0 \<and>
      (bf_dirty ((bp_frame p f)\<lparr>bf_pin_count := bf_pin_count (bp_frame p f) + 1\<rparr>) \<longrightarrow> bf_dirty (bp_frame p f))"
    using active pool_okD(6)[OF ok] by (fastforce simp: closing_ok_def registered_def)
qed (use f st in auto)

lemma unpin_pinned:
  assumes ok: "pool_ok p (add_mset (Pinned f) M)"
  shows "pool_ok (unpin_frame f p) M"
proof -
  have f: "f \<in> frame_ids p" using pool_okD(6)[OF ok, of "Pinned f"] by simp
  have st: "bf_state (bp_frame p f) = RESIDENT" "bf_pin_count (bp_frame p f) \<noteq> 0"
    using pinned_resident[OF ok f, of "Pinned f"] by simp_all
  have n: "unat (bf_pin_count (bp_frame p f) - 1) = unat (bf_pin_count (bp_frame p f)) - 1"
    using st(2) by (simp add: unat_minus_one)
  have "pool_ok (set_frame f (\<lambda>fr. fr\<lparr>bf_pin_count := bf_pin_count fr - 1\<rparr>) p) M"
  proof (rule set_resident_frame[OF ok, where A="{#Pinned f#}" and B="{#}"])
    show "frame_ok (set_frame f (\<lambda>fr. fr\<lparr>bf_pin_count := bf_pin_count fr - 1\<rparr>) p) ({#} + M) f"
      using resident_facts[OF ok f st(1)] st f n by (simp add: resident_simps)
  qed (use f st in auto)
  then show ?thesis using st(2) by (simp add: unpin_frame_def)
qed

lemma latch_frame:
  assumes ok: "pool_ok p (add_mset (Pinned f) M)" and g: "MakeGuard f mode p = Some (g, p')"
  shows "pool_ok p' (add_mset (Holding g) M)"
proof -
  have f: "f \<in> frame_ids p" using pool_okD(6)[OF ok, of "Pinned f"] by simp
  have st: "bf_state (bp_frame p f) = RESIDENT" "bf_pin_count (bp_frame p f) \<noteq> 0"
    using pinned_resident[OF ok f, of "Pinned f"] by simp_all
  define c where "c = (\<lambda>fr :: BufferFrame. if mode = SHARED then fr\<lparr>bf_readers := bf_readers fr + 1\<rparr> else fr\<lparr>bf_writer := True\<rparr>)"
  have g': "p' = set_frame f c p" "g_frame_id g = f" "g_mode g = mode"
    "g_page_id g = Page_id (bf_page (bp_frame p f))" "g_binding_epoch g = bf_binding_epoch (bp_frame p f)"
    "\<not> bf_writer (bp_frame p f)" "mode = EXCLUSIVE \<Longrightarrow> bf_readers (bp_frame p f) = 0"
    using g by (auto simp: MakeGuard_def Let_def c_def split: if_splits)
  show ?thesis unfolding g'(1)
  proof (rule set_resident_frame[OF ok, where A="{#Pinned f#}" and B="{#Holding g#}"])
    show "frame_ok (set_frame f c p) ({#Holding g#} + M) f"
      using resident_facts[OF ok f st(1)] st f g' by (cases mode; simp add: resident_simps c_def)
  qed (use f st g' in \<open>auto simp: c_def bp_frame_set_frame\<close>)
qed

lemma unlatch_frame:
  assumes ok: "pool_ok p (add_mset (Holding g) M)"
  shows "pool_ok (ReleaseLatch g p) (add_mset (Pinned (g_frame_id g)) M)"
  unfolding ReleaseLatch_def
proof (rule set_resident_frame[OF ok, where A="{#Holding g#}" and B="{#Pinned (g_frame_id g)#}"])
  have st: "bf_state (bp_frame p (g_frame_id g)) = RESIDENT" "bf_pin_count (bp_frame p (g_frame_id g)) \<noteq> 0"
    "g_frame_id g \<in> frame_ids p"
    using guard_resident[OF ok, of g] by simp_all
  then show "g_frame_id g \<in> frame_ids p" "bf_state (bp_frame p (g_frame_id g)) = RESIDENT"
    "bf_state (if g_mode g = SHARED then (bp_frame p (g_frame_id g))\<lparr>bf_readers := bf_readers (bp_frame p (g_frame_id g)) - 1\<rparr>
       else (bp_frame p (g_frame_id g))\<lparr>bf_writer := False\<rparr>) = RESIDENT" by simp_all
  show "frame_ok (set_frame (g_frame_id g) (\<lambda>fr. if g_mode g = SHARED then fr\<lparr>bf_readers := bf_readers fr - 1\<rparr>
      else fr\<lparr>bf_writer := False\<rparr>) p) ({#Pinned (g_frame_id g)#} + M) (g_frame_id g)"
    using resident_facts[OF ok st(3,1)] st by (cases "g_mode g"; cases "bf_writer (bp_frame p (g_frame_id g))";
        simp add: resident_simps split: if_splits)
qed (use guard_resident[OF ok, of g] in \<open>auto simp: bp_frame_set_frame\<close>)

text \<open>A guard's holder changes bytes and publishes.\<close>

lemma guard_frame:
  assumes ok: "pool_ok p (add_mset (Holding g) M)"
    and g': "g_frame_id g' = g_frame_id g" "g_mode g' = g_mode g" "g_page_id g' = g_page_id g"
      "g_binding_epoch g' = g_binding_epoch g"
    and c: "bf_state (c fr) = bf_state fr" "bf_io_state (c fr) = bf_io_state fr"
      "Page_id (bf_page (c fr)) = Page_id (bf_page fr)" "bf_binding_epoch (c fr) = bf_binding_epoch fr"
      "bf_pin_count (c fr) = bf_pin_count fr" "bf_readers (c fr) = bf_readers fr" "bf_writer (c fr) = bf_writer fr"
      "bf_dirty fr \<Longrightarrow> bf_dirty (c fr)"
    and fr: "fr = bp_frame p (g_frame_id g)"
  shows "pool_ok (set_frame (g_frame_id g) c p) (add_mset (Holding g') M)"
proof (rule set_resident_frame[OF ok, where A="{#Holding g#}" and B="{#Holding g'#}"])
  have st: "bf_state (bp_frame p (g_frame_id g)) = RESIDENT" "bf_pin_count (bp_frame p (g_frame_id g)) \<noteq> 0"
    "g_frame_id g \<in> frame_ids p"
    using guard_resident[OF ok, of g] by simp_all
  then show "g_frame_id g \<in> frame_ids p" "bf_state (bp_frame p (g_frame_id g)) = RESIDENT"
    "bf_state (c (bp_frame p (g_frame_id g))) = RESIDENT" using c(1) fr by simp_all
  show "frame_ok (set_frame (g_frame_id g) c p) ({#Holding g'#} + M) (g_frame_id g)"
    using resident_facts[OF ok st(3,1)] st g' c unfolding fr by (simp add: resident_simps)
  show "right_ok (set_frame (g_frame_id g) c p) r" if "r \<in># {#Holding g'#}" for r
    using that pool_okD(6)[OF ok, of "Holding g"] g' c unfolding fr by (simp add: bp_frame_set_frame)
qed (use guard_resident[OF ok, of g] c g' fr in auto)

text \<open>A writeback is reserved, and ends; the frame may become clean.\<close>

lemma start_writeback:
  assumes ok: "pool_ok p M" and f: "f \<in> frame_ids p" and st: "bf_state (bp_frame p f) = RESIDENT"
    and d: "bf_dirty (bp_frame p f)" "bf_io_state (bp_frame p f) = IO_NONE"
      "pid = Page_id (bf_page (bp_frame p f))" "epoch = bf_binding_epoch (bp_frame p f)"
  shows "pool_ok (set_frame f (\<lambda>fr. fr\<lparr>bf_io_state := WRITEBACK_IN_PROGRESS\<rparr>) p)
    (add_mset (Writeback f pid epoch) M)"
proof (rule set_resident_frame[OF ok, where A="{#}" and B="{#Writeback f pid epoch#}"])
  show "frame_ok (set_frame f (\<lambda>fr. fr\<lparr>bf_io_state := WRITEBACK_IN_PROGRESS\<rparr>) p) ({#Writeback f pid epoch#} + M) f"
    using resident_facts[OF ok f st] st f d by (simp add: resident_simps)
qed (use f st d in \<open>auto simp: bp_frame_set_frame\<close>)

lemma end_writeback:
  assumes ok: "pool_ok p (add_mset (Writeback f pid epoch) M)"
  shows "pool_ok (set_frame f (\<lambda>fr. fr\<lparr>bf_io_state := IO_NONE\<rparr>) p) M"
proof (rule set_resident_frame[OF ok, where A="{#Writeback f pid epoch#}" and B="{#}"])
  have w: "f \<in> frame_ids p" "bf_state (bp_frame p f) = RESIDENT" "bf_io_state (bp_frame p f) = WRITEBACK_IN_PROGRESS"
    using writeback_resident[OF ok, of f pid epoch] by simp_all
  then show "f \<in> frame_ids p" "bf_state (bp_frame p f) = RESIDENT"
    "bf_state ((bp_frame p f)\<lparr>bf_io_state := IO_NONE\<rparr>) = RESIDENT" by simp_all
  show "frame_ok (set_frame f (\<lambda>fr. fr\<lparr>bf_io_state := IO_NONE\<rparr>) p) ({#} + M) f"
    using resident_facts[OF ok w(1,2)] w by (simp add: resident_simps)
qed auto

lemma mark_clean:
  assumes ok: "pool_ok p M" and f: "f \<in> frame_ids p" and st: "bf_state (bp_frame p f) = RESIDENT"
    and io: "bf_io_state (bp_frame p f) = IO_NONE"
  shows "pool_ok (set_frame f (\<lambda>fr. fr\<lparr>bf_dirty := False\<rparr>) p) M"
proof (rule set_resident_frame[OF ok, where A="{#}" and B="{#}"])
  show "frame_ok (set_frame f (\<lambda>fr. fr\<lparr>bf_dirty := False\<rparr>) p) ({#} + M) f"
    using resident_facts[OF ok f st] st f io by (simp add: resident_simps)
qed (use f st in auto)

end
