(* ===== verification/Pool_Table.thy ===== *)
theory Pool_Table
  imports Pool_Moves
begin

text \<open>
  The changes of the free list, the page table, the loads and the file registry, each with the
  rights it consumes and yields.
\<close>

lemma pins_change [simp]:
  "pins (set_frame f c p) = pins p" "pins (put_entry pid e p) = pins p" "pins (erase_entry pid p) = pins p"
  "pins (put_file fid fe p) = pins p" "pins (p\<lparr>bp_free_list := fl\<rparr>) = pins p" "pins (p\<lparr>bp_replacer := cr\<rparr>) = pins p"
  by (rule pins_loads; simp)+

section \<open>Free frames\<close>

lemma right_ok_same:
  assumes "right_ok p r" and "find_entry p' = find_entry p" and "find_file p' = find_file p" and "bp_frame p' = bp_frame p"
    and "length (bp_frames p') = length (bp_frames p)" and "bp_loads p' = bp_loads p"
  shows "right_ok p' r"
  using assms by (cases r) (auto simp: registered_def closing_ok_def)

lemma pool_same:
  assumes ok: "pool_ok p M" and same: "find_entry p' = find_entry p" "find_file p' = find_file p" "bp_frame p' = bp_frame p"
    "length (bp_frames p') = length (bp_frames p)" "bp_loads p' = bp_loads p" "bp_free_list p' = bp_free_list p"
    and shape: "shape_ok p'"
  shows "pool_ok p' M"
proof (rule pool_okI)
  note accounts = account_defs same pins_loads[OF same(5)]
  show "frame_ok p' M f" if "f \<in> frame_ids p'" for f
    using pool_okD(2)[OF ok, of f] that unfolding accounts by simp
  show "entry_ok p' M pid" for pid using pool_okD(3)[OF ok, of pid] unfolding entry_ok_def same .
  show "load_ok p' M l" if "l < length (bp_loads p')" for l
    using pool_okD(4)[OF ok, of l] that unfolding load_ok_def same by simp
  show "file_ok p' M fid" for fid using pool_okD(5)[OF ok, of fid] unfolding file_ok_def same .
  show "right_ok p' r" if "r \<in># M" for r by (rule right_ok_same[OF pool_okD(6)[OF ok that] same(1-5)])
qed (rule shape)

lemma set_replacer:
  assumes ok: "pool_ok p M" and "clock_inv c" and "length (cr_referenced c) = length (bp_frames p)"
  shows "pool_ok (p\<lparr>bp_replacer := c\<rparr>) M"
  by (rule pool_same[OF ok]) (use assms pool_okD(1)[OF ok] in \<open>simp_all add: shape_ok_def\<close>)

lemma set_quiescing: "pool_ok p M \<Longrightarrow> pool_ok (p\<lparr>bp_quiescing := q\<rparr>) M"
  by (rule pool_same[of p M]) (use pool_okD(1)[of p M] in \<open>auto simp: shape_ok_def\<close>)

lemma count_butlast: "xs \<noteq> [] \<Longrightarrow> count (mset xs) a = count (mset (butlast xs)) a + of_bool (a = last xs)"
  by (induction xs rule: rev_induct) auto

lemma take_free:
  assumes ok: "pool_ok p M" and ne: "bp_free_list p \<noteq> []"
  shows "pool_ok (p\<lparr>bp_free_list := butlast (bp_free_list p)\<rparr>)
    (add_mset (Own_Frame (last (bp_free_list p)) FREE IO_NONE default_PageId) M)"
proof (rule pool_okI)
  let ?f = "last (bp_free_list p)" and ?p = "p\<lparr>bp_free_list := butlast (bp_free_list p)\<rparr>"
  note count = count_butlast[OF ne]
  have mem: "f \<in> set (bp_free_list p)" if "f \<in> set (butlast (bp_free_list p))" for f
    using that by (rule in_set_butlastD)
  show "shape_ok ?p" using pool_okD(1)[OF ok] mem by (auto simp: shape_ok_def)
  show "frame_ok ?p (add_mset (Own_Frame ?f FREE IO_NONE default_PageId) M) f" if "f \<in> frame_ids ?p" for f
    using pool_okD(2)[OF ok, of f] that count[of f] mem
    by (auto simp: frame_ok_def Let_def split: if_splits)
  show "entry_ok ?p (add_mset (Own_Frame ?f FREE IO_NONE default_PageId) M) pid" for pid
    using pool_okD(3)[OF ok, of pid] by (auto simp: entry_ok_def split: option.splits)
  show "load_ok ?p (add_mset (Own_Frame ?f FREE IO_NONE default_PageId) M) l" if "l < length (bp_loads ?p)" for l
    using pool_okD(4)[OF ok, of l] that by (simp add: load_ok_def)
  show "file_ok ?p (add_mset (Own_Frame ?f FREE IO_NONE default_PageId) M) fid" for fid
    using pool_okD(5)[OF ok, of fid] by (simp add: file_ok_def)
  show "right_ok ?p r" if r: "r \<in># add_mset (Own_Frame ?f FREE IO_NONE default_PageId) M" for r
  proof (cases "r \<in># M")
    case True
    then show ?thesis using right_ok_same[OF pool_okD(6)[OF ok True], of ?p] by simp
  next
    case False
    have f: "?f \<in> frame_ids p" using pool_okD(1)[OF ok] ne last_in_set by (fastforce simp: shape_ok_def)
    then show ?thesis using False r pool_okD(2)[OF ok f] ne by (auto simp: frame_ok_def Let_def legal_frame_def)
  qed
qed

lemma give_free:
  assumes ok: "pool_ok p (add_mset (Own_Frame f FREE io pid) M)"
  shows "pool_ok (ReleaseFrameToFreeList f p) M"
proof (rule pool_okI)
  let ?p = "ReleaseFrameToFreeList f p"
  note own = owned_frame[OF ok]
  have p: "find_entry ?p = find_entry p" "find_file ?p = find_file p" "bp_frame ?p = bp_frame p"
    "bp_frames ?p = bp_frames p" "bp_loads ?p = bp_loads p" "bp_free_list ?p = bp_free_list p @ [f]"
    by (simp_all add: ReleaseFrameToFreeList_def)
  show "shape_ok ?p" using pool_okD(1)[OF ok] own(1) by (simp add: shape_ok_def ReleaseFrameToFreeList_def)
  show "frame_ok ?p M f'" if "f' \<in> frame_ids ?p" for f'
    using pool_okD(2)[OF ok, of f'] that own(2)
    by (auto simp: frame_ok_def Let_def p pins_loads[OF p(5)] split: if_splits)
  show "entry_ok ?p M pid" for pid
    using pool_okD(3)[OF ok, of pid] by (auto simp: entry_ok_def p split: option.splits)
  show "load_ok ?p M l" if "l < length (bp_loads ?p)" for l
    using pool_okD(4)[OF ok, of l] that by (simp add: load_ok_def p)
  show "file_ok ?p M fid" for fid using pool_okD(5)[OF ok, of fid] by (simp add: file_ok_def p)
  show "right_ok ?p r" if "r \<in># M" for r
    by (rule right_ok_same[OF pool_okD(6)[OF ok]]) (use that p in auto)
qed

section \<open>Page-table entries\<close>

definition entry_place :: "BufferPool \<Rightarrow> right multiset \<Rightarrow> PageId \<Rightarrow> PageTableEntry \<Rightarrow> bool" where
  "entry_place p M pid e \<longleftrightarrow> (\<forall>l. pt_load e = Some l \<longrightarrow> Own_Load l pid \<in># M) \<and>
     (\<exists>fe. find_file p (file_id pid) = Some fe \<and>
        (if pt_state e = PT_LOADING \<and> pt_load e = None then Creation (file_id pid) (Some pid) \<in># M
         else page_no pid < fe_published_page_count fe \<or> fe_published_page_count fe = 0))"

lemma entry_place_ok: "pool_ok p M \<Longrightarrow> find_entry p pid = Some e \<Longrightarrow> entry_place p M pid e"
  using pool_okD(3)[of p M pid] by (auto simp: entry_ok_def entry_place_def)

lemma entry_placeI:
  assumes "find_file p (file_id pid) = Some fe"
    and "page_no pid < fe_published_page_count fe \<or> fe_published_page_count fe = 0"
    and "pt_state e \<noteq> PT_LOADING \<or> pt_load e \<noteq> None" and "\<And>l. pt_load e = Some l \<Longrightarrow> Own_Load l pid \<in># M"
  shows "entry_place p M pid e"
  using assms by (auto simp: entry_place_def)

lemma right_ok_entry:
  assumes "right_ok p r" and "\<not> owns_entry pid r" and "\<And>pages clean. r \<noteq> Closing (file_id pid) pages clean"
    and "\<And>pid'. pid' \<noteq> pid \<Longrightarrow> find_entry p' pid' = find_entry p pid'"
    and "find_file p' = find_file p" "bp_frame p' = bp_frame p" "length (bp_frames p') = length (bp_frames p)"
      "bp_loads p' = bp_loads p"
  shows "right_ok p' r"
proof (cases r)
  case (Closing fid pages clean)
  then have "fid \<noteq> file_id pid" using assms(3) by auto
  then have "find_entry p' pid' = find_entry p pid'" if "file_id pid' = fid" for pid'
    using assms(4)[of pid'] that by auto
  then show ?thesis using Closing assms(1,5,6) by (auto simp: closing_ok_def registered_def)
qed (use assms in \<open>auto simp: registered_def\<close>)

lemma distinct_put_entry [simp]: "distinct (map fst (bp_page_table p)) \<Longrightarrow> distinct (map fst (bp_page_table (put_entry pid e p)))"
  by (simp add: put_entry_def distinct_update)

lemma distinct_erase_entry [simp]: "distinct (map fst (bp_page_table p)) \<Longrightarrow> distinct (map fst (bp_page_table (erase_entry pid p)))"
  by (simp add: erase_entry_def distinct_delete)

lemma shape_entry [simp]:
  "shape_ok p \<Longrightarrow> shape_ok (put_entry pid e p)" "shape_ok p \<Longrightarrow> shape_ok (erase_entry pid p)"
  by (simp_all add: shape_ok_def)

lemma put_new_entry:
  assumes ok: "pool_ok p M" and new: "find_entry p pid = None" and e: "pt_state e \<noteq> PT_RESIDENT"
    and place: "entry_place p M pid e" and closing: "\<And>pages clean. Closing (file_id pid) pages clean \<notin># M"
  shows "pool_ok (put_entry pid e p) (add_mset (Own_Entry pid e) M)"
proof (rule pool_okI)
  let ?p = "put_entry pid e p"
  have none: "\<not> owns_entry pid r" if "r \<in># M" for r
    using pool_okD(3)[OF ok, of pid] new that by (simp add: entry_ok_def held_zero)
  show "shape_ok ?p" using pool_okD(1)[OF ok] by simp
  show "frame_ok ?p (add_mset (Own_Entry pid e) M) f" if "f \<in> frame_ids ?p" for f
    using pool_okD(2)[OF ok, of f] that new by (auto simp: frame_ok_def Let_def)
  show "entry_ok ?p (add_mset (Own_Entry pid e) M) pid'" for pid'
    using pool_okD(3)[OF ok, of pid'] place e new by (auto simp: entry_ok_def entry_place_def split: option.splits)
  show "load_ok ?p (add_mset (Own_Entry pid e) M) l" if "l < length (bp_loads ?p)" for l
    using pool_okD(4)[OF ok, of l] that by (simp add: load_ok_def)
  show "file_ok ?p (add_mset (Own_Entry pid e) M) fid" for fid
    using pool_okD(5)[OF ok, of fid] by (simp add: file_ok_def)
  show "right_ok ?p r" if "r \<in># add_mset (Own_Entry pid e) M" for r
  proof (cases "r \<in># M")
    case True
    show ?thesis
      by (rule right_ok_entry[OF pool_okD(6)[OF ok True] none[OF True]]) (use closing True in auto)
  qed (use that e in simp)
qed

lemma change_entry:
  assumes ok: "pool_ok p (add_mset (Own_Entry pid e0) M)" and e: "pt_state e \<noteq> PT_RESIDENT"
    and place: "entry_place p M pid e"
  shows "pool_ok (put_entry pid e p) (add_mset (Own_Entry pid e) M)"
proof (rule pool_okI)
  let ?p = "put_entry pid e p"
  note own = owned_entry[OF ok]
  show "shape_ok ?p" using pool_okD(1)[OF ok] by simp
  show "frame_ok ?p (add_mset (Own_Entry pid e) M) f" if "f \<in> frame_ids ?p" for f
    using pool_okD(2)[OF ok, of f] that own(1,2) by (auto simp: frame_ok_def Let_def)
  show "entry_ok ?p (add_mset (Own_Entry pid e) M) pid'" for pid'
    using pool_okD(3)[OF ok, of pid'] place e own(1,2)
    by (auto simp: entry_ok_def entry_place_def split: option.splits)
  show "load_ok ?p (add_mset (Own_Entry pid e) M) l" if "l < length (bp_loads ?p)" for l
    using pool_okD(4)[OF ok, of l] that by (simp add: load_ok_def)
  show "file_ok ?p (add_mset (Own_Entry pid e) M) fid" for fid
    using pool_okD(5)[OF ok, of fid] by (simp add: file_ok_def)
  show "right_ok ?p r" if "r \<in># add_mset (Own_Entry pid e) M" for r
  proof (cases "r \<in># M")
    case True
    have old: "right_ok p r" using pool_okD(6)[OF ok] True by simp
    show ?thesis
      by (rule right_ok_entry[OF old own(3)[OF True]]) (use own(4)[OF True] in auto)
  qed (use that e in simp)
qed

lemma erase_owned_entry:
  assumes ok: "pool_ok p (add_mset (Own_Entry pid e) M)"
  shows "pool_ok (erase_entry pid p) M"
proof (rule pool_okI)
  let ?p = "erase_entry pid p"
  note own = owned_entry[OF ok]
  show "shape_ok ?p" using pool_okD(1)[OF ok] by simp
  show "frame_ok ?p M f" if "f \<in> frame_ids ?p" for f
    using pool_okD(2)[OF ok, of f] that own(1,2) by (auto simp: frame_ok_def Let_def)
  show "entry_ok ?p M pid'" for pid'
    using pool_okD(3)[OF ok, of pid'] own(1,2,3) by (auto simp: entry_ok_def held_zero split: option.splits)
  show "load_ok ?p M l" if "l < length (bp_loads ?p)" for l
    using pool_okD(4)[OF ok, of l] that by (simp add: load_ok_def)
  show "file_ok ?p M fid" for fid using pool_okD(5)[OF ok, of fid] by (simp add: file_ok_def)
  show "right_ok ?p r" if "r \<in># M" for r
  proof -
    have old: "right_ok p r" using pool_okD(6)[OF ok] that by simp
    show ?thesis
      by (rule right_ok_entry[OF old own(3)[OF that]]) (use own(4)[OF that] in auto)
  qed
qed

section \<open>Becoming resident, and ceasing to be\<close>

lemma held_replicate [simp]: "held P (replicate_mset k r) = (if P r then k else 0)"
  by (induction k) auto

lemma publish_frame:
  assumes ok: "pool_ok p (add_mset (Own_Frame f st io pid) (add_mset (Own_Entry pid e) M))"
    and c: "legal_frame (c (bp_frame p f))" "bf_state (c (bp_frame p f)) = RESIDENT"
      "bf_io_state (c (bp_frame p f)) = IO_NONE" "Page_id (bf_page (c (bp_frame p f))) = pid"
      "bf_readers (c (bp_frame p f)) = bf_readers (bp_frame p f)" "bf_writer (c (bp_frame p f)) = bf_writer (bp_frame p f)"
    and k: "k = unat (bf_pin_count (c (bp_frame p f)))"
    and e': "e' = \<lparr>pt_state = PT_RESIDENT, pt_frame_id = f, pt_load = None\<rparr>" and place: "entry_place p M pid e'"
  shows "pool_ok (put_entry pid e' (set_frame f c p)) (replicate_mset k (Pinned f) + M)"
proof (rule pool_okI)
  let ?p = "put_entry pid e' (set_frame f c p)" and ?M = "replicate_mset k (Pinned f) + M"
  note own = owned_frame[OF ok]
  note swap = ok[unfolded add_mset_commute[of "Own_Frame f st io pid"]]
  note oe = owned_entry[OF swap]
  note fr = bp_frame_set_frame[OF own(1)]
  have none: "\<not> owns_frame f r \<and> \<not> writes_back f r \<and> \<not> pins p f r \<and> \<not> owns_entry pid r" if "r \<in># M" for r
    using own(5)[of r] oe(3)[of r] that by simp
  show "shape_ok ?p" using pool_okD(1)[OF ok] by (simp add: shape_ok_def)
  show "frame_ok ?p ?M f'" if "f' \<in> frame_ids ?p" for f'
  proof (cases "f' = f")
    case True
    have "\<not> holds mode f r" if "r \<in># M" for mode r using none[OF that] by (cases r) auto
    then have "held (holds mode f) M = 0" for mode by (simp add: held_zero)
    moreover have "held (owns_frame f) M = 0" "held (writes_back f) M = 0" "held (pins p f) M = 0"
      using none by (simp_all add: held_zero)
    ultimately show ?thesis using True own(1,4,9,10) c k e' by (simp add: frame_ok_def Let_def fr)
  next
    case False
    then show ?thesis using pool_okD(2)[OF ok, of f'] that oe(1,2)
      by (auto simp: frame_ok_def Let_def fr)
  qed
  show "entry_ok ?p ?M pid'" for pid'
    using pool_okD(3)[OF ok, of pid'] place e' c none own(1,2,3)
    by (auto simp: entry_ok_def entry_place_def fr held_zero split: option.splits)
  show "load_ok ?p ?M l" if "l < length (bp_loads ?p)" for l
    using pool_okD(4)[OF ok, of l] that by (simp add: load_ok_def)
  show "file_ok ?p ?M fid" for fid using pool_okD(5)[OF ok, of fid] by (simp add: file_ok_def)
  show "right_ok ?p r" if r: "r \<in># ?M" for r
  proof (cases "r \<in># M")
    case True
    have old: "right_ok p r" using pool_okD(6)[OF ok] True by simp
    have "right_ok (set_frame f c p) r"
    proof (rule right_ok_set_frame[OF old own(1)])
      fix fid pages clean pid' e1
      assume "find_entry p pid' = Some e1" "pt_frame_id e1 = f" "pt_state e1 = PT_RESIDENT"
      then show "bf_pin_count (c (bp_frame p f)) = 0 \<and> (clean \<and> bf_dirty (c (bp_frame p f)) \<longrightarrow> pid' \<in> pages)"
        using resident_entry(2)[OF ok, of pid' e1] own(2,3) by simp
    qed (use none[OF True] in auto)
    then show ?thesis
      by (rule right_ok_entry) (use none[OF True] oe(4)[of r] True in auto)
  qed (use r own(1) in \<open>auto simp: in_replicate_mset split: if_splits\<close>)
qed

lemma resident_not_owned:
  assumes ok: "pool_ok p M" and f: "f \<in> frame_ids p" and st: "bf_state (bp_frame p f) = RESIDENT"
    and pin: "bf_pin_count (bp_frame p f) = 0" and io: "bf_io_state (bp_frame p f) = IO_NONE"
  shows "r \<in># M \<Longrightarrow> \<not> owns_frame f r \<and> \<not> writes_back f r \<and> \<not> pins p f r \<and>
      \<not> owns_entry (Page_id (bf_page (bp_frame p f))) r"
    and "bf_readers (bp_frame p f) = 0" and "\<not> bf_writer (bp_frame p f)" and "held (holds mode f) M = 0"
proof -
  have acc: "held (owns_frame f) M = 0" "held (writes_back f) M = 0" "held (pins p f) M = 0"
    "f \<notin> set (bp_free_list p)"
    using pool_okD(2)[OF ok f] st pin io by (auto simp: frame_ok_def Let_def)
  have "held (owns_entry (Page_id (bf_page (bp_frame p f)))) M = 0"
    using pool_okD(3)[OF ok, of "Page_id (bf_page (bp_frame p f))"] resident_frame(1)[OF ok f st]
    by (simp add: entry_ok_def)
  with acc show n: "\<not> owns_frame f r \<and> \<not> writes_back f r \<and> \<not> pins p f r \<and>
      \<not> owns_entry (Page_id (bf_page (bp_frame p f))) r" if "r \<in># M" for r
    using that by (simp add: held_zero)
  have "\<not> holds mode f r" if "r \<in># M" for mode r using n[OF that] by (cases r) auto
  then show h: "held (holds mode f) M = 0" for mode by (simp add: held_zero)
  have "bf_readers (bp_frame p f) = held (holds SHARED f) M"
    "of_bool (bf_writer (bp_frame p f)) = held (holds EXCLUSIVE f) M"
    using pool_okD(2)[OF ok f] by (simp_all add: frame_ok_def Let_def)
  then show "bf_readers (bp_frame p f) = 0" "\<not> bf_writer (bp_frame p f)" unfolding h by (simp_all split: if_splits)
qed

lemma reserve_frame:
  assumes ok: "pool_ok p M" and f: "f \<in> frame_ids p" and st: "bf_state (bp_frame p f) = RESIDENT"
    and pin: "bf_pin_count (bp_frame p f) = 0" and io: "bf_io_state (bp_frame p f) = IO_NONE"
    and pid: "pid = Page_id (bf_page (bp_frame p f))" and active: "registered p (file_id pid) ACTIVE creating"
    and e: "e = \<lparr>pt_state = PT_EVICTING, pt_frame_id = f, pt_load = None\<rparr>"
  shows "pool_ok (put_entry pid e (set_frame f (\<lambda>fr. fr\<lparr>bf_state := EVICTING\<rparr>) p))
    (add_mset (Own_Frame f EVICTING IO_NONE pid) (add_mset (Own_Entry pid e) M))"
proof (rule pool_okI)
  let ?c = "\<lambda>fr. fr\<lparr>bf_state := EVICTING\<rparr>"
  let ?p = "put_entry pid e (set_frame f ?c p)"
    and ?M = "add_mset (Own_Frame f EVICTING IO_NONE pid) (add_mset (Own_Entry pid e) M)"
  note own = resident_not_owned[OF ok f st pin io]
  note ent = resident_frame(1)[OF ok f st, folded pid]
  have acc: "frame_ok p M f" by (rule pool_okD(2)[OF ok f])
  note fr = bp_frame_set_frame[OF f]
  show "shape_ok ?p" using pool_okD(1)[OF ok] by (simp add: shape_ok_def)
  show "frame_ok ?p ?M f'" if "f' \<in> frame_ids ?p" for f'
  proof (cases "f' = f")
    case True
    then show ?thesis using acc st pin io
      by (auto simp: frame_ok_def Let_def fr legal_frame_def)
  next
    case False
    have "frame_ok p M f'" using pool_okD(2)[OF ok, of f'] that by simp
    moreover have "Page_id (bf_page (bp_frame p f')) \<noteq> pid" if "bf_state (bp_frame p f') = RESIDENT"
      using \<open>frame_ok p M f'\<close> that ent False by (auto simp: frame_ok_def Let_def)
    ultimately show ?thesis using False by (auto simp: frame_ok_def Let_def fr)
  qed
  show "entry_ok ?p ?M pid'" for pid'
  proof (cases "pid' = pid")
    case True
    then show ?thesis using entry_place_ok[OF ok ent] pool_okD(3)[OF ok, of pid] ent e
      by (auto simp: entry_ok_def entry_place_def)
  next
    case False
    have "pt_frame_id e1 \<noteq> f" if "find_entry p pid' = Some e1" "pt_state e1 = PT_RESIDENT" for e1
      using resident_entry(3)[OF ok that] False pid by auto
    then show ?thesis using False pool_okD(3)[OF ok, of pid']
      by (auto simp: entry_ok_def fr split: option.splits)
  qed
  show "load_ok ?p ?M l" if "l < length (bp_loads ?p)" for l
    using pool_okD(4)[OF ok, of l] that by (simp add: load_ok_def)
  show "file_ok ?p ?M fid" for fid using pool_okD(5)[OF ok, of fid] by (simp add: file_ok_def)
  show "right_ok ?p r" if r: "r \<in># ?M" for r
  proof (cases "r \<in># M")
    case True
    have old: "right_ok p r" using pool_okD(6)[OF ok True] .
    have "right_ok (set_frame f ?c p) r"
      by (rule right_ok_set_frame[OF old f]) (use own(1)[OF True] pin in auto)
    then show ?thesis
    proof (rule right_ok_entry)
      show "r \<noteq> Closing (file_id pid) pages clean" for pages clean
        using old active by (auto simp: closing_ok_def registered_def)
    qed (use own(1)[OF True] pid in auto)
  qed (use r f e pid io in \<open>auto simp: bp_frame_set_frame\<close>)
qed

lemma drop_frame:
  assumes ok: "pool_ok p M" and f: "f \<in> frame_ids p" and st: "bf_state (bp_frame p f) = RESIDENT"
    and pin: "bf_pin_count (bp_frame p f) = 0" and io: "bf_io_state (bp_frame p f) = IO_NONE"
    and pid: "pid = Page_id (bf_page (bp_frame p f))"
    and c: "legal_frame (c (bp_frame p f))" "bf_state (c (bp_frame p f)) = FREE" "bf_pin_count (c (bp_frame p f)) = 0"
      "bf_readers (c (bp_frame p f)) = bf_readers (bp_frame p f)" "bf_writer (c (bp_frame p f)) = bf_writer (bp_frame p f)"
  shows "pool_ok (set_frame f c (erase_entry pid p)) (add_mset (Own_Frame f FREE IO_NONE default_PageId) M)"
proof (rule pool_okI)
  let ?p = "set_frame f c (erase_entry pid p)" and ?M = "add_mset (Own_Frame f FREE IO_NONE default_PageId) M"
  note own = resident_not_owned[OF ok f st pin io]
  note ent = resident_frame(1)[OF ok f st, folded pid]
  have acc: "frame_ok p M f" by (rule pool_okD(2)[OF ok f])
  have fr: "bp_frame ?p f' = (if f' = f then c (bp_frame p f) else bp_frame p f')" for f'
    using bp_frame_set_frame[of f "erase_entry pid p"] f by simp
  have legal: "bf_io_state (c (bp_frame p f)) = IO_NONE" "Page_id (bf_page (c (bp_frame p f))) = default_PageId"
    using c by (simp_all add: legal_frame_def)
  show "shape_ok ?p" using pool_okD(1)[OF ok] by (simp add: shape_ok_def)
  show "frame_ok ?p ?M f'" if "f' \<in> frame_ids ?p" for f'
  proof (cases "f' = f")
    case True
    then show ?thesis using acc st pin io c
      by (auto simp: frame_ok_def Let_def fr)
  next
    case False
    have "frame_ok p M f'" using pool_okD(2)[OF ok, of f'] that by simp
    moreover have "Page_id (bf_page (bp_frame p f')) \<noteq> pid" if "bf_state (bp_frame p f') = RESIDENT"
      using \<open>frame_ok p M f'\<close> that ent False by (auto simp: frame_ok_def Let_def)
    ultimately show ?thesis using False by (auto simp: frame_ok_def Let_def fr)
  qed
  show "entry_ok ?p ?M pid'" for pid'
  proof (cases "pid' = pid")
    case True
    then show ?thesis using own(1) pid by (auto simp: entry_ok_def held_zero)
  next
    case False
    have "pt_frame_id e1 \<noteq> f" if "find_entry p pid' = Some e1" "pt_state e1 = PT_RESIDENT" for e1
      using resident_entry(3)[OF ok that] False pid by auto
    then show ?thesis using False pool_okD(3)[OF ok, of pid']
      by (auto simp: entry_ok_def fr split: option.splits)
  qed
  show "load_ok ?p ?M l" if "l < length (bp_loads ?p)" for l
    using pool_okD(4)[OF ok, of l] that by (simp add: load_ok_def)
  show "file_ok ?p ?M fid" for fid using pool_okD(5)[OF ok, of fid] by (simp add: file_ok_def)
  show "right_ok ?p r" if r: "r \<in># ?M" for r
  proof (cases "r \<in># M")
    case True
    have old: "right_ok p r" using pool_okD(6)[OF ok True] .
    have "right_ok (erase_entry pid p) r"
    proof (cases r)
      case (Closing fid pages clean)
      then show ?thesis using old by (auto simp: closing_ok_def registered_def)
    qed (use old own(1)[OF True] pid in \<open>auto simp: registered_def\<close>)
    then show ?thesis
    proof (rule right_ok_set_frame)
      fix fid pages clean pid' e1
      assume "find_entry (erase_entry pid p) pid' = Some e1" "pt_frame_id e1 = f" "pt_state e1 = PT_RESIDENT"
      then show "bf_pin_count (c (bp_frame (erase_entry pid p) f)) = 0 \<and>
          (clean \<and> bf_dirty (c (bp_frame (erase_entry pid p) f)) \<longrightarrow> pid' \<in> pages)"
        using resident_entry(3)[OF ok, of pid' e1] pid by (auto split: if_splits)
    qed (use own(1)[OF True] f in auto)
  qed (use r f c legal in \<open>auto simp: fr\<close>)
qed

end
