(* ===== verification/Pool_Files.thy ===== *)
theory Pool_Files
  imports Pool_Table
begin

text \<open>Loads, the file registry, and rights that change hands without a change of the pool.\<close>

lemma held_cong: "(\<And>r. r \<in># M \<Longrightarrow> P r = Q r) \<Longrightarrow> held P M = held Q M"
  by (metis (mono_tags, lifting) filter_mset_cong)

lemma held_or: "(\<And>r. r \<in># M \<Longrightarrow> \<not> (P r \<and> Q r)) \<Longrightarrow> held (\<lambda>r. P r \<or> Q r) M = held P M + held Q M"
  by (induction M) auto

section \<open>Loads\<close>

lemma add_load:
  assumes ok: "pool_ok p M" and l: "l = length (bp_loads p)"
    and load: "lo_claims load = 1" "\<not> lo_done load" "lo_frame_id load = None"
  shows "pool_ok (p\<lparr>bp_loads := bp_loads p @ [load]\<rparr>) (add_mset (Own_Load l pid) M)"
proof (rule pool_okI)
  let ?p = "p\<lparr>bp_loads := bp_loads p @ [load]\<rparr>" and ?M = "add_mset (Own_Load l pid) M"
  have old: "l' < l" if "Claim l' \<in># M \<or> Own_Load l' pid' \<in># M" for l' pid'
    using pool_okD(6)[OF ok, of "Claim l'"] pool_okD(6)[OF ok, of "Own_Load l' pid'"] that l by auto
  have none: "\<not> owns_load l r \<and> \<not> claims l r" if "r \<in># M" for r
    using old[of l] that by (cases r) auto
  have pins: "pins ?p f r = pins p f r" if "r \<in># M" for f r
    using old[of _ undefined] that l by (cases r) (auto simp: nth_append)
  have pins': "held (pins ?p f) M = held (pins p f) M" for f using pins by (rule held_cong)
  show "shape_ok ?p" using pool_okD(1)[OF ok] by (simp add: shape_ok_def)
  show "frame_ok ?p ?M f" if "f \<in> frame_ids ?p" for f
    using pool_okD(2)[OF ok, of f] that by (simp add: frame_ok_def Let_def pins')
  show "entry_ok ?p ?M pid'" for pid'
    using pool_okD(3)[OF ok, of pid'] by (auto simp: entry_ok_def split: option.splits)
  show "load_ok ?p ?M l'" if "l' < length (bp_loads ?p)" for l'
  proof (cases "l' = l")
    case True
    have "held (owns_load l) M = 0" "held (claims l) M = 0" using none by (simp_all add: held_zero)
    then show ?thesis using True l load by (simp add: load_ok_def)
  next
    case False
    then show ?thesis using pool_okD(4)[OF ok, of l'] that l by (auto simp: load_ok_def nth_append Let_def)
  qed
  show "file_ok ?p ?M fid" for fid using pool_okD(5)[OF ok, of fid] by (simp add: file_ok_def)
  show "right_ok ?p r" if "r \<in># ?M" for r
  proof (cases "r \<in># M")
    case True
    then show ?thesis using pool_okD(6)[OF ok True] l
      by (cases r) (auto simp: nth_append closing_ok_def registered_def)
  qed (use that l load in auto)
qed

lemma right_ok_set_load:
  assumes "right_ok p r" and "\<not> owns_load l r"
  shows "right_ok (set_load l c p) r"
proof (cases r)
  case (Own_Load l' pid)
  then show ?thesis using assms by (simp add: set_load_def)
qed (use assms in \<open>auto simp: closing_ok_def registered_def\<close>)

lemma set_load_nth [simp]: "l < length (bp_loads p) \<Longrightarrow> bp_loads (set_load l c p) ! l' = (if l' = l then c (bp_loads p ! l) else bp_loads p ! l')"
  by (auto simp: set_load_def nth_list_update)

text \<open>A load changes: what its rights were is given, what they become is to be shown.\<close>

lemma set_load_ok:
  assumes okR: "pool_ok p (A + M)" and l: "l < length (bp_loads p)"
    and only: "\<And>r. r \<in># A + B \<Longrightarrow> owns_load l r \<or> r = Claim l \<or> (\<exists>f. r = Pinned f \<and> f \<in> frame_ids p)"
    and none: "\<And>r. r \<in># M \<Longrightarrow> \<not> owns_load l r"
    and load: "load_ok (set_load l c p) (B + M) l" "\<And>r. r \<in># B \<Longrightarrow> right_ok (set_load l c p) r"
    and entry: "\<And>pid e. find_entry p pid = Some e \<Longrightarrow> pt_load e = Some l \<Longrightarrow> Own_Load l pid \<in># B"
    and pins: "\<And>f. held (pins (set_load l c p) f) (B + M) = held (pins p f) (A + M)"
  shows "pool_ok (set_load l c p) (B + M)"
proof (rule pool_okI)
  let ?p = "set_load l c p"
  have kind: "\<not> P r" if "r \<in># A + B" "\<And>l pid. \<not> P (Own_Load l pid)" "\<not> P (Claim l)" "\<And>f. \<not> P (Pinned f)" for P r
    using only[OF that(1)] that(2-) by (cases r) auto
  have zero: "held P (A + M) = held P (B + M)"
    if "\<And>l pid. \<not> P (Own_Load l pid)" "\<not> P (Claim l)" "\<And>f. \<not> P (Pinned f)" for P
    using held_off[of A P M] held_off[of B P M] kind[of _ P, OF _ that] by (metis union_iff)
  show "shape_ok ?p" using pool_okD(1)[OF okR] by (simp add: shape_ok_def)
  show "frame_ok ?p (B + M) f" if "f \<in> frame_ids ?p" for f
    using pool_okD(2)[OF okR, of f] that pins[of f] zero[of "owns_frame f"] zero[of "writes_back f"]
      zero[of "holds SHARED f"] zero[of "holds EXCLUSIVE f"]
    by (simp add: frame_ok_def Let_def del: filter_union_mset)
  have mem: "Own_Load l' pid \<in># M" if "Own_Load l' pid \<in># A + M" "l' \<noteq> l" for l' pid
    using that only[of "Own_Load l' pid"] by auto
  have creation: "Creation fid x \<in># M" if "Creation fid x \<in># A + M" for fid x
    using that only[of "Creation fid x"] by auto
  show "entry_ok ?p (B + M) pid" for pid
  proof (cases "find_entry p pid")
    case None
    then show ?thesis using pool_okD(3)[OF okR, of pid] zero[of "owns_entry pid"]
      by (simp add: entry_ok_def del: filter_union_mset)
  next
    case (Some e)
    have "Own_Load l' pid \<in># B + M" if "pt_load e = Some l'" for l'
      using entry_place_ok[OF okR Some] that entry[OF Some] mem[of l' pid]
      by (cases "l' = l") (auto simp: entry_place_def)
    then show ?thesis using pool_okD(3)[OF okR, of pid] zero[of "owns_entry pid"] Some creation
      by (fastforce simp: entry_ok_def simp del: filter_union_mset)
  qed
  show "load_ok ?p (B + M) l'" if "l' < length (bp_loads ?p)" for l'
  proof (cases "l' = l")
    case False
    have "held (owns_load l') (A + M) = held (owns_load l') (B + M)" "held (claims l') (A + M) = held (claims l') (B + M)"
    proof -
      have n: "\<not> owns_load l' r \<and> \<not> claims l' r" if "r \<in># A + B" for r
        using only[OF that] False by (cases r) auto
      show "held (owns_load l') (A + M) = held (owns_load l') (B + M)"
        using held_off[of A "owns_load l'" M] held_off[of B "owns_load l'" M] n by (metis union_iff)
      show "held (claims l') (A + M) = held (claims l') (B + M)"
        using held_off[of A "claims l'" M] held_off[of B "claims l'" M] n by (metis union_iff)
    qed
    then show ?thesis using pool_okD(4)[OF okR, of l'] that False l
      by (simp add: load_ok_def Let_def del: filter_union_mset)
  qed (use load in simp)
  show "file_ok ?p (B + M) fid" for fid
    using pool_okD(5)[OF okR, of fid] zero[of "retires fid"] zero[of "creates fid"]
    by (simp add: file_ok_def del: filter_union_mset)
  show "right_ok ?p r" if "r \<in># B + M" for r
  proof (cases "r \<in># B")
    case False
    then have "r \<in># M" using that by simp
    then show ?thesis using right_ok_set_load[OF pool_okD(6)[OF okR] none] by simp
  qed (use load in simp)
qed

lemma loads_none:
  assumes ok: "pool_ok p (add_mset (Own_Load l pid) M)"
  shows "l < length (bp_loads p)" and "\<not> lo_done (bp_loads p ! l)" and "lo_frame_id (bp_loads p ! l) = None"
    and "r \<in># M \<Longrightarrow> \<not> owns_load l r" and "unat (lo_claims (bp_loads p ! l)) = Suc (held (claims l) M)"
proof -
  show l: "l < length (bp_loads p)" "\<not> lo_done (bp_loads p ! l)" "lo_frame_id (bp_loads p ! l) = None"
    using pool_okD(6)[OF ok, of "Own_Load l pid"] by simp_all
  show "unat (lo_claims (bp_loads p ! l)) = Suc (held (claims l) M)"
    using pool_okD(4)[OF ok l(1)] l(2) by (simp add: load_ok_def Let_def)
  then show "r \<in># M \<Longrightarrow> \<not> owns_load l r"
    using pool_okD(4)[OF ok l(1)] l(2) by (auto simp: load_ok_def held_zero Let_def)
qed

lemma claim_load:
  assumes ok: "pool_ok p M" and l: "l < length (bp_loads p)" "\<not> lo_done (bp_loads p ! l)"
    and room: "lo_claims (bp_loads p ! l) \<noteq> - 1"
  shows "pool_ok (set_load l (\<lambda>load. load\<lparr>lo_claims := lo_claims load + 1\<rparr>) p) (add_mset (Claim l) M)"
proof -
  let ?c = "\<lambda>load. load\<lparr>lo_claims := lo_claims load + 1\<rparr>"
  obtain pid where own: "Own_Load l pid \<in># M"
  proof -
    have "held (owns_load l) M = 1" using pool_okD(4)[OF ok l(1)] l(2) by (simp add: load_ok_def Let_def)
    then obtain r where "r \<in># M" "owns_load l r" using held_zero[of "owns_load l" M] by force
    then show ?thesis using that by (cases r) auto
  qed
  then obtain M' where M: "M = add_mset (Own_Load l pid) M'" by (metis insert_DiffM)
  note lo = loads_none[OF ok[unfolded M]]
  have n: "unat (lo_claims (bp_loads p ! l) + 1) = Suc (unat (lo_claims (bp_loads p ! l)))"
    using room by (metis add.commute eq_neg_iff_add_eq_0 unatSuc)
  have "pool_ok (set_load l ?c p) ({#Own_Load l pid, Claim l#} + M')"
  proof (rule set_load_ok[where A = "{#Own_Load l pid#}"])
    show "pool_ok p ({#Own_Load l pid#} + M')" using ok M by simp
    show "load_ok (set_load l ?c p) ({#Own_Load l pid, Claim l#} + M') l"
      using pool_okD(4)[OF ok l(1)] l lo n M by (simp add: load_ok_def Let_def)
    show "held (pins (set_load l ?c p) f) ({#Own_Load l pid, Claim l#} + M') = held (pins p f) ({#Own_Load l pid#} + M')" for f
    proof -
      have "held (pins (set_load l ?c p) f) M' = held (pins p f) M'"
      proof (rule held_cong)
        show "pins (set_load l ?c p) f r = pins p f r" for r using l by (cases r) auto
      qed
      then show ?thesis using l by simp
    qed
    show "right_ok (set_load l ?c p) r" if "r \<in># {#Own_Load l pid, Claim l#}" for r
      using that l lo(3) by auto
    show "Own_Load l pid' \<in># {#Own_Load l pid, Claim l#}" if "find_entry p pid' = Some e" "pt_load e = Some l" for pid' e
      using entry_place_ok[OF ok that(1)] that(2) M lo(4)[of "Own_Load l pid'"] by (auto simp: entry_place_def)
  qed (use l lo(4) in auto)
  then show ?thesis by (simp add: M add_mset_commute)
qed

lemma fail_load_ok:
  assumes ok: "pool_ok p (add_mset (Own_Load l pid) M)"
    and gone: "\<And>e. find_entry p pid = Some e \<Longrightarrow> pt_load e \<noteq> Some l"
  shows "pool_ok (set_load l (\<lambda>load. load\<lparr>lo_error := err, lo_done := True\<rparr>) p) M"
proof -
  let ?c = "\<lambda>load. load\<lparr>lo_error := err, lo_done := True\<rparr>"
  note lo = loads_none[OF ok]
  have "pool_ok (set_load l ?c p) ({#} + M)"
  proof (rule set_load_ok[where A = "{#Own_Load l pid#}"])
    show "pool_ok p ({#Own_Load l pid#} + M)" using ok by simp
    show "load_ok (set_load l ?c p) ({#} + M) l"
      using lo by (simp add: load_ok_def Let_def held_zero)
    show "held (pins (set_load l ?c p) f) ({#} + M) = held (pins p f) ({#Own_Load l pid#} + M)" for f
    proof -
      have "held (pins (set_load l ?c p) f) M = held (pins p f) M"
      proof (rule held_cong)
        show "pins (set_load l ?c p) f r = pins p f r" for r using lo by (cases r) auto
      qed
      then show ?thesis by simp
    qed
    show "Own_Load l pid' \<in># {#}" if "find_entry p pid' = Some e" "pt_load e = Some l" for pid' e
      using entry_place_ok[OF ok that(1)] that gone lo(4)[of "Own_Load l pid'"] by (auto simp: entry_place_def)
  qed (use lo in auto)
  then show ?thesis by simp
qed

lemma finish_load_ok:
  assumes ok: "pool_ok p (replicate_mset k (Pinned f) + add_mset (Own_Load l pid) M)"
    and k: "k = unat (lo_claims (bp_loads p ! l))" and f: "f \<in> frame_ids p"
    and gone: "\<And>e. find_entry p pid = Some e \<Longrightarrow> pt_load e \<noteq> Some l"
  shows "pool_ok (set_load l (\<lambda>load. load\<lparr>lo_frame_id := Some f, lo_done := True\<rparr>) p) (add_mset (Pinned f) M)"
proof -
  let ?c = "\<lambda>load. load\<lparr>lo_frame_id := Some f, lo_done := True\<rparr>"
  let ?A = "add_mset (Own_Load l pid) (replicate_mset k (Pinned f))"
  have ok': "pool_ok p (add_mset (Own_Load l pid) (replicate_mset k (Pinned f) + M))" using ok by simp
  note lo = loads_none[OF ok']
  have none: "\<not> owns_load l r" if "r \<in># M" for r using lo(4) that by simp
  have k': "k = Suc (held (claims l) M)" using lo(5) k by simp
  have "pool_ok (set_load l ?c p) ({#Pinned f#} + M)"
  proof (rule set_load_ok[where A = ?A])
    show "pool_ok p (?A + M)" using ok' by simp
    show "load_ok (set_load l ?c p) ({#Pinned f#} + M) l"
      using lo(1) none f by (simp add: load_ok_def Let_def held_zero)
    show "held (pins (set_load l ?c p) f') ({#Pinned f#} + M) = held (pins p f') (?A + M)" for f'
    proof (cases "f' = f")
      case True
      have "held (pins (set_load l ?c p) f) M = held (\<lambda>r. pins p f r \<or> claims l r) M"
      proof (rule held_cong)
        show "pins (set_load l ?c p) f r = (pins p f r \<or> claims l r)" if "r \<in># M" for r
          using lo(1) none[OF that] by (cases r) auto
      qed
      also have "\<dots> = held (pins p f) M + held (claims l) M"
      proof (rule held_or)
        show "\<not> (pins p f r \<and> claims l r)" if "r \<in># M" for r using lo(2) by (cases r) auto
      qed
      finally show ?thesis using True k' by simp
    next
      case False
      have "held (pins (set_load l ?c p) f') M = held (pins p f') M"
      proof (rule held_cong)
        show "pins (set_load l ?c p) f' r = pins p f' r" for r using lo(1,2) False by (cases r) auto
      qed
      then show ?thesis using False by simp
    qed
    show "Own_Load l pid' \<in># {#Pinned f#}" if "find_entry p pid' = Some e" "pt_load e = Some l" for pid' e
      using entry_place_ok[OF ok' that(1)] that gone lo(4)[of "Own_Load l pid'"] by (auto simp: entry_place_def)
  qed (use lo(1) none f in \<open>auto simp: in_replicate_mset split: if_splits\<close>)
  then show ?thesis by simp
qed

section \<open>The file registry\<close>

definition files_differ :: "FileId \<Rightarrow> BufferPool \<Rightarrow> BufferPool \<Rightarrow> bool" where
  "files_differ fid p p' \<longleftrightarrow> (\<forall>fid'. fid' \<noteq> fid \<longrightarrow> find_file p' fid' = find_file p fid') \<and>
     find_entry p' = find_entry p \<and> bp_frame p' = bp_frame p \<and> length (bp_frames p') = length (bp_frames p) \<and>
     bp_loads p' = bp_loads p \<and> bp_free_list p' = bp_free_list p \<and> (shape_ok p \<longrightarrow> shape_ok p')"

lemma files_differ_put: "files_differ fid p (put_file fid fe p)"
  by (auto simp: files_differ_def shape_ok_def put_file_def distinct_update find_file_def update_conv' find_entry_def
      bp_frame_def fun_eq_iff)

lemma files_differ_erase: "files_differ fid p (p\<lparr>bp_files := AList.delete fid (bp_files p)\<rparr>)"
  by (auto simp: files_differ_def shape_ok_def distinct_delete find_file_def delete_conv' find_entry_def
      bp_frame_def fun_eq_iff)

lemma right_ok_files_differ:
  assumes "right_ok p r" and "files_differ fid p p'" and "\<not> creates fid r" and "\<not> retires fid r"
  shows "right_ok p' r"
  using assms by (cases r) (auto simp: files_differ_def registered_def closing_ok_def)

lemma set_file_ok:
  assumes okR: "pool_ok p (A + M)" and diff: "files_differ fid p p'"
    and on: "\<And>r. r \<in># A + B \<Longrightarrow> creates fid r \<or> retires fid r"
    and acc: "file_ok p' (B + M) fid" "\<And>r. r \<in># B + M \<Longrightarrow> creates fid r \<or> retires fid r \<Longrightarrow> right_ok p' r"
    and place: "\<And>pid e. find_entry p pid = Some e \<Longrightarrow> file_id pid = fid \<Longrightarrow> entry_place p' (B + M) pid e"
  shows "pool_ok p' (B + M)"
proof (rule pool_okI)
  have same: "find_entry p' = find_entry p" "bp_frame p' = bp_frame p" "length (bp_frames p') = length (bp_frames p)"
    "bp_loads p' = bp_loads p" "bp_free_list p' = bp_free_list p" "shape_ok p \<Longrightarrow> shape_ok p'"
    "\<And>fid'. fid' \<noteq> fid \<Longrightarrow> find_file p' fid' = find_file p fid'"
    using diff by (auto simp: files_differ_def)
  have kind: "\<not> P r" if "r \<in># A + B" "\<And>x. \<not> P (Creation fid x)" "\<not> P (Retiring fid)" "\<not> P (Draining fid)"
    "\<And>pages clean. \<not> P (Closing fid pages clean)" for P r
    using on[OF that(1)] that(2-) by (cases r) auto
  have zero: "held P (A + M) = held P (B + M)" if "\<And>x. \<not> P (Creation fid x)" "\<not> P (Retiring fid)" "\<not> P (Draining fid)"
    "\<And>pages clean. \<not> P (Closing fid pages clean)" for P
    using held_off[of A P M] held_off[of B P M] kind[of _ P, OF _ that] by (metis union_iff)
  show "shape_ok p'" using pool_okD(1)[OF okR] same(6) by simp
  show "frame_ok p' (B + M) f" if "f \<in> frame_ids p'" for f
    using pool_okD(2)[OF okR, of f] that zero[of "owns_frame f"] zero[of "writes_back f"] zero[of "pins p f"]
      zero[of "holds SHARED f"] zero[of "holds EXCLUSIVE f"]
    by (simp add: frame_ok_def Let_def same(1-5) pins_loads[OF same(4)] del: filter_union_mset)
  have mem: "Own_Load l pid \<in># B + M" if "Own_Load l pid \<in># A + M" for l pid
    using that on[of "Own_Load l pid"] by auto
  have creation: "Creation fid' x \<in># B + M" if "Creation fid' x \<in># A + M" "fid' \<noteq> fid" for fid' x
    using that on[of "Creation fid' x"] by auto
  show "entry_ok p' (B + M) pid" for pid
  proof (cases "find_entry p pid")
    case None
    then show ?thesis using pool_okD(3)[OF okR, of pid] zero[of "owns_entry pid"]
      by (simp add: entry_ok_def same(1) del: filter_union_mset)
  next
    case (Some e)
    have "entry_place p' (B + M) pid e"
    proof (cases "file_id pid = fid")
      case False
      then show ?thesis using entry_place_ok[OF okR Some] mem creation[of "file_id pid" "Some pid"] same(7)
        unfolding entry_place_def by (metis (full_types))
    qed (use place[OF Some] in simp)
    then show ?thesis using pool_okD(3)[OF okR, of pid] zero[of "owns_entry pid"] Some
      by (auto simp: entry_ok_def entry_place_def same(1-3) simp del: filter_union_mset)
  qed
  show "load_ok p' (B + M) l" if "l < length (bp_loads p')" for l
    using pool_okD(4)[OF okR, of l] that zero[of "owns_load l"] zero[of "claims l"]
    by (simp add: load_ok_def Let_def same(3,4) del: filter_union_mset)
  show "file_ok p' (B + M) fid'" for fid'
  proof (cases "fid' = fid")
    case False
    have n: "\<not> retires fid' r \<and> \<not> creates fid' r" if "r \<in># A + B" for r
      using on[OF that] False by (cases r) auto
    have "held (retires fid') (A + M) = held (retires fid') (B + M)" "held (creates fid') (A + M) = held (creates fid') (B + M)"
      using held_off[of A "retires fid'" M] held_off[of B "retires fid'" M]
        held_off[of A "creates fid'" M] held_off[of B "creates fid'" M] n by (metis union_iff)+
    then show ?thesis using pool_okD(5)[OF okR, of fid'] False
      by (simp add: file_ok_def same(7) del: filter_union_mset)
  qed (use acc in simp)
  show "right_ok p' r" if "r \<in># B + M" for r
  proof (cases "creates fid r \<or> retires fid r")
    case False
    then have "r \<in># A + M" using that on by auto
    then show ?thesis using right_ok_files_differ[OF pool_okD(6)[OF okR] diff] False by simp
  qed (use acc that in simp)
qed

lemma begin_creation:
  assumes ok: "pool_ok p M" and fe: "find_file p fid = Some fe" "fe_state fe = ACTIVE" "\<not> fe_new_page_in_progress fe"
  shows "pool_ok (put_file fid (fe\<lparr>fe_new_page_in_progress := True\<rparr>) p) (add_mset (Creation fid None) M)"
proof -
  have none: "\<not> creates fid r \<and> (retires fid r \<longrightarrow> r = Retiring fid)" if "r \<in># M" for r
    using pool_okD(5)[OF ok, of fid] pool_okD(6)[OF ok that] fe that
    by (cases r) (auto simp: file_ok_def held_zero registered_def closing_ok_def)
  have "pool_ok (put_file fid (fe\<lparr>fe_new_page_in_progress := True\<rparr>) p) ({#Creation fid None#} + M)"
  proof (rule set_file_ok[where A = "{#}", OF _ files_differ_put])
    show "file_ok (put_file fid (fe\<lparr>fe_new_page_in_progress := True\<rparr>) p) ({#Creation fid None#} + M) fid"
      using pool_okD(5)[OF ok, of fid] fe by (simp add: file_ok_def)
    show "entry_place (put_file fid (fe\<lparr>fe_new_page_in_progress := True\<rparr>) p) ({#Creation fid None#} + M) pid e"
      if "find_entry p pid = Some e" "file_id pid = fid" for pid e
      using entry_place_ok[OF ok that(1)] that(2) fe by (auto simp: entry_place_def)
    show "right_ok (put_file fid (fe\<lparr>fe_new_page_in_progress := True\<rparr>) p) r"
      if "r \<in># {#Creation fid None#} + M" "creates fid r \<or> retires fid r" for r
      using that none[of r] by auto
  qed (use ok in auto)
  then show ?thesis by simp
qed

lemma creation_facts:
  assumes ok: "pool_ok p (add_mset (Creation fid x) M)"
  shows "\<exists>fe. find_file p fid = Some fe \<and> fe_new_page_in_progress fe"
    and "r \<in># M \<Longrightarrow> \<not> creates fid r" and "r \<in># M \<Longrightarrow> r \<noteq> Closing fid pages clean"
proof -
  show fe: "\<exists>fe. find_file p fid = Some fe \<and> fe_new_page_in_progress fe"
    using pool_okD(6)[OF ok, of "Creation fid x"] by auto
  show "\<not> creates fid r" if "r \<in># M"
    using pool_okD(5)[OF ok, of fid] fe that by (auto simp: file_ok_def held_zero)
  show "r \<noteq> Closing fid pages clean" if "r \<in># M"
    using pool_okD(6)[OF ok, of r] fe that by (auto simp: closing_ok_def registered_def)
qed

lemma end_creation:
  assumes ok: "pool_ok p (add_mset (Creation fid x) M)"
    and settled: "\<And>pid e. x = Some pid \<Longrightarrow> find_entry p pid = Some e \<Longrightarrow> pt_state e = PT_LOADING \<Longrightarrow> pt_load e \<noteq> None"
  shows "pool_ok (finish_new fid p) M"
proof -
  obtain fe where fe: "find_file p fid = Some fe" "fe_new_page_in_progress fe" using creation_facts(1)[OF ok] by auto
  have none: "\<not> creates fid r" if "r \<in># M" for r using creation_facts(2)[OF ok] that .
  let ?p = "put_file fid (fe\<lparr>fe_new_page_in_progress := False\<rparr>) p"
  have "pool_ok ?p ({#} + M)"
  proof (rule set_file_ok[where A = "{#Creation fid x#}", OF _ files_differ_put])
    show "pool_ok p ({#Creation fid x#} + M)" using ok by simp
    show "file_ok ?p ({#} + M) fid" using pool_okD(5)[OF ok, of fid] none by (simp add: file_ok_def held_zero)
    show "right_ok ?p r" if "r \<in># {#} + M" "creates fid r \<or> retires fid r" for r
      using pool_okD(6)[OF ok, of r] that none[of r] fe creation_facts(3)[OF ok, of r]
      by (cases r) (auto simp: registered_def)
    show "entry_place ?p ({#} + M) pid e" if "find_entry p pid = Some e" "file_id pid = fid" for pid e
      using entry_place_ok[OF ok that(1)] that fe settled[of pid e] none[of "Creation fid (Some pid)"]
      by (auto simp: entry_place_def)
  qed auto
  then show ?thesis using fe by (simp add: finish_new_def)
qed

lemma word_less_Suc: "w < w + 1 \<or> w + 1 = (0 :: 'a::len word)"
  by (metis add.commute unatSuc word_less_nat_alt lessI)

lemma publish_bound:
  assumes ok: "pool_ok p (add_mset (Creation fid (Some pid)) M)" and fe: "find_file p fid = Some fe"
  shows "pool_ok (put_file fid (fe\<lparr>fe_published_page_count := page_no pid + 1\<rparr>) p) (add_mset (Creation fid (Some pid)) M)"
proof -
  let ?p = "put_file fid (fe\<lparr>fe_published_page_count := page_no pid + 1\<rparr>) p" and ?A = "{#Creation fid (Some pid)#}"
  have own: "fe_published_page_count fe = page_no pid \<or> fe_published_page_count fe = page_no pid + 1" "file_id pid = fid"
    "page_no pid \<noteq> 0"
    using pool_okD(6)[OF ok, of "Creation fid (Some pid)"] fe by auto
  have mono: "n < page_no pid + 1 \<or> page_no pid + 1 = 0"
    if "n < fe_published_page_count fe \<or> fe_published_page_count fe = 0" for n
    using that own(1,3) word_less_Suc[of "page_no pid"] by (metis order_less_trans)
  have "pool_ok ?p (?A + M)"
  proof (rule set_file_ok[where A = ?A, OF _ files_differ_put])
    show "pool_ok p (?A + M)" using ok by simp
    show "file_ok ?p (?A + M) fid" using pool_okD(5)[OF ok, of fid] fe by (simp add: file_ok_def)
    show "right_ok ?p r" if "r \<in># ?A + M" "creates fid r \<or> retires fid r" for r
      using pool_okD(6)[OF ok, of r] that fe own creation_facts(2,3)[OF ok, of r]
      by (cases r) (auto simp: registered_def)
    show "entry_place ?p (?A + M) pid' e" if "find_entry p pid' = Some e" "file_id pid' = fid" for pid' e
      using entry_place_ok[OF ok that(1)] that fe mono[of "page_no pid'"] by (auto simp: entry_place_def split: if_splits)
  qed auto
  then show ?thesis by simp
qed

lemma start_retiring:
  assumes ok: "pool_ok p (add_mset (Retiring fid) M)" and fe: "find_file p fid = Some fe"
  shows "pool_ok (put_file fid (fe\<lparr>fe_state := RETIRING\<rparr>) p) (add_mset (Draining fid) M)"
proof -
  let ?p = "put_file fid (fe\<lparr>fe_state := RETIRING\<rparr>) p"
  have none: "\<not> retires fid r" if "r \<in># M" for r
    using pool_okD(5)[OF ok, of fid] that by (auto simp: file_ok_def held_zero)
  have "pool_ok ?p ({#Draining fid#} + M)"
  proof (rule set_file_ok[where A = "{#Retiring fid#}", OF _ files_differ_put])
    show "pool_ok p ({#Retiring fid#} + M)" using ok by simp
    show "file_ok ?p ({#Draining fid#} + M) fid" using pool_okD(5)[OF ok, of fid] fe by (simp add: file_ok_def)
    show "right_ok ?p r" if "r \<in># {#Draining fid#} + M" "creates fid r \<or> retires fid r" for r
      using pool_okD(6)[OF ok, of r] that fe none[of r] by (cases r) (auto simp: registered_def)
    show "entry_place ?p ({#Draining fid#} + M) pid' e" if "find_entry p pid' = Some e" "file_id pid' = fid" for pid' e
      using entry_place_ok[OF ok that(1)] that fe by (auto simp: entry_place_def split: if_splits)
  qed auto
  then show ?thesis by simp
qed

lemma register_ok:
  assumes ok: "pool_ok p M" and new: "find_file p fid = None" and fe: "\<not> fe_new_page_in_progress fe"
  shows "pool_ok (put_file fid fe p) M"
proof -
  have none: "\<not> creates fid r \<and> (retires fid r \<longrightarrow> r = Retiring fid)" if "r \<in># M" for r
    using pool_okD(6)[OF ok that] new by (cases r) (auto simp: registered_def closing_ok_def)
  have "pool_ok (put_file fid fe p) ({#} + M)"
  proof (rule set_file_ok[where A = "{#}", OF _ files_differ_put])
    show "file_ok (put_file fid fe p) ({#} + M) fid"
      using pool_okD(5)[OF ok, of fid] fe new by (simp add: file_ok_def)
    show "entry_place (put_file fid fe p) ({#} + M) pid e" if "find_entry p pid = Some e" "file_id pid = fid" for pid e
      using entry_place_ok[OF ok that(1)] that(2) new by (auto simp: entry_place_def)
    show "right_ok (put_file fid fe p) r" if "r \<in># {#} + M" "creates fid r \<or> retires fid r" for r
      using that none[of r] by auto
  qed (use ok in auto)
  then show ?thesis by simp
qed

lemma unregister_ok:
  assumes ok: "pool_ok p (add_mset r0 M)" and r0: "retires fid r0" and reg: "registered p fid st False"
    and empty: "\<And>pid e. find_entry p pid = Some e \<Longrightarrow> file_id pid \<noteq> fid"
  shows "pool_ok (p\<lparr>bp_files := AList.delete fid (bp_files p)\<rparr>) M"
proof -
  let ?p = "p\<lparr>bp_files := AList.delete fid (bp_files p)\<rparr>"
  have none: "\<not> retires fid r \<and> \<not> creates fid r" if "r \<in># M" for r
    using pool_okD(5)[OF ok, of fid] that reg r0 by (auto simp: file_ok_def held_zero registered_def split: if_splits)
  have "pool_ok ?p ({#} + M)"
  proof (rule set_file_ok[where A = "{#r0#}", OF _ files_differ_erase])
    show "pool_ok p ({#r0#} + M)" using ok by simp
    have "held (retires fid) M = 0" "held (creates fid) M = 0" using none by (simp_all add: held_zero)
    then show "file_ok ?p ({#} + M) fid" unfolding file_ok_def empty_neutral(1) \<open>held (retires fid) M = 0\<close>
      by (simp add: find_file_def delete_conv')
  qed (use r0 none empty in auto)
  then show ?thesis by simp
qed

section \<open>Rights alone\<close>

lemma pool_rights:
  assumes okR: "pool_ok p R" and R: "R = A + M" "R' = B + M"
    and c: "\<And>f. held (owns_frame f) B = held (owns_frame f) A" "\<And>f. held (writes_back f) B = held (writes_back f) A"
      "\<And>f. held (pins p f) B = held (pins p f) A" "\<And>m f. held (holds m f) B = held (holds m f) A"
      "\<And>pid. held (owns_entry pid) B = held (owns_entry pid) A" "\<And>l. held (owns_load l) B = held (owns_load l) A"
      "\<And>fid. held (creates fid) B = held (creates fid) A"
    and claims: "\<And>l. l < length (bp_loads p) \<Longrightarrow> \<not> lo_done (bp_loads p ! l) \<Longrightarrow> held (claims l) B = held (claims l) A"
    and retires: "\<And>fid. held (retires fid) B \<le> held (retires fid) A"
    and rights: "\<And>r. r \<in># B \<Longrightarrow> right_ok p r"
    and loads: "\<And>l pid. Own_Load l pid \<in># A \<Longrightarrow> Own_Load l pid \<in># B"
    and creations: "\<And>fid pid. Creation fid (Some pid) \<in># A \<Longrightarrow> Creation fid (Some pid) \<in># B"
  shows "pool_ok p R'"
  unfolding R(2)
proof (rule pool_okI)
  note ok = okR[unfolded R(1)]
  show "frame_ok p (B + M) f" if "f \<in> frame_ids p" for f
    using pool_okD(2)[OF ok, of f] that by (simp add: frame_ok_def Let_def c)
  show "entry_ok p (B + M) pid" for pid
    using pool_okD(3)[OF ok, of pid] loads creations
    by (fastforce simp: entry_ok_def c split: option.splits if_splits)
  show "load_ok p (B + M) l" if "l < length (bp_loads p)" for l
    using pool_okD(4)[OF ok, of l] that claims by (simp add: load_ok_def Let_def c)
  show "file_ok p (B + M) fid" for fid
    using pool_okD(5)[OF ok, of fid] retires[of fid] by (simp add: file_ok_def c)
  show "right_ok p r" if "r \<in># B + M" for r using that rights pool_okD(6)[OF ok] by auto
qed (rule pool_okD(1)[OF okR])

lemma drop_right:
  assumes ok: "pool_ok p (add_mset r M)" and r: "r = Retiring fid \<or> r = Draining fid \<or> r = Closing fid pages clean \<or> r = Seen f"
  shows "pool_ok p M"
  by (rule pool_rights[OF ok, where A = "{#r#}" and B = "{#}"]) (use r in auto)

lemma replace_retirement:
  assumes ok: "pool_ok p (add_mset r M)" and r: "retires fid r" "retires fid r'" "right_ok p r'"
  shows "pool_ok p (add_mset r' M)"
  by (rule pool_rights[OF ok, where A = "{#r#}" and B = "{#r'#}"]) (use r in \<open>cases r; cases r'; auto\<close>)+

lemma see_frame: "pool_ok p M \<Longrightarrow> f \<in> frame_ids p \<Longrightarrow> pool_ok p (add_mset (Seen f) M)"
  by (rule pool_rights[where A = "{#}" and B = "{#Seen f#}"]) auto

lemma claim_to_pin:
  assumes ok: "pool_ok p (add_mset (Claim l) M)" and l: "lo_done (bp_loads p ! l)" "lo_frame_id (bp_loads p ! l) = Some f"
  shows "pool_ok p (add_mset (Pinned f) M)"
proof (rule pool_rights[OF ok, where A = "{#Claim l#}" and B = "{#Pinned f#}"])
  have len: "l < length (bp_loads p)" using pool_okD(6)[OF ok, of "Claim l"] by simp
  show "right_ok p r" if "r \<in># {#Pinned f#}" for r
    using that pool_okD(4)[OF ok len] l by (simp add: load_ok_def Let_def)
qed (use l in auto)

lemma drop_claim:
  assumes ok: "pool_ok p (add_mset (Claim l) M)" and l: "lo_done (bp_loads p ! l)" "lo_frame_id (bp_loads p ! l) = None"
  shows "pool_ok p M"
  by (rule pool_rights[OF ok, where A = "{#Claim l#}" and B = "{#}"]) (use l in auto)

lemma name_creation:
  assumes ok: "pool_ok p (add_mset (Creation fid None) M)" and fe: "find_file p fid = Some fe"
    and n: "fe_published_page_count fe = page_no pid" "file_id pid = fid" "page_no pid \<noteq> 0"
  shows "pool_ok p (add_mset (Creation fid (Some pid)) M)"
  by (rule pool_rights[OF ok, where A = "{#Creation fid None#}" and B = "{#Creation fid (Some pid)#}"])
    (use fe n creation_facts(1)[OF ok] in auto)

end
