(* ===== verification/Pool_Safety.thy ===== *)
theory Pool_Safety
  imports Pool_Files
begin

text \<open>
  Every task holds rights by its position, and every step of a task turns its rights into those of
  its next position, with the rest of the pool's account untouched.
\<close>

section \<open>The rights of a task\<close>

fun purpose_rights :: "Purpose \<Rightarrow> right multiset" where
  "purpose_rights (For_Load page_id l mode) =
     {#Own_Entry page_id \<lparr>pt_state = PT_LOAD_INTENT, pt_frame_id = 0, pt_load = Some l\<rparr>, Own_Load l page_id#}"
| "purpose_rights (For_New fid initializer) = {#Creation fid None#}"

definition eviction_rights :: "FrameId \<Rightarrow> PageId \<Rightarrow> FrameIoState \<Rightarrow> right multiset" where
  "eviction_rights f victim io =
     {#Own_Frame f EVICTING io victim,
       Own_Entry victim \<lparr>pt_state = PT_EVICTING, pt_frame_id = f, pt_load = None\<rparr>#}"

fun acquire_rights :: "Acquire_Point \<Rightarrow> right multiset" where
  "acquire_rights Acquiring = {#}"
| "acquire_rights (Candidate f victim) = {#Seen f#}"
| "acquire_rights (Reserved f victim) = eviction_rights f victim IO_NONE"
| "acquire_rights (Evict_Write f victim img) = eviction_rights f victim WRITEBACK_IN_PROGRESS"
| "acquire_rights (Evict_Sync f victim) = eviction_rights f victim WRITEBACK_IN_PROGRESS"
| "acquire_rights (Evict_Done f victim status) = eviction_rights f victim WRITEBACK_IN_PROGRESS"

definition building_rights :: "FileId \<Rightarrow> FrameId \<Rightarrow> PageId \<Rightarrow> right multiset" where
  "building_rights fid f page_id =
     {#Creation fid (Some page_id), Own_Frame f LOADING IO_NONE page_id,
       Own_Entry page_id \<lparr>pt_state = PT_LOADING, pt_frame_id = f, pt_load = None\<rparr>#}"

fun create_rights :: "FileId \<Rightarrow> FrameId \<Rightarrow> New_Point \<Rightarrow> right multiset" where
  "create_rights fid f (New_Build page_id validator) = building_rights fid f page_id"
| "create_rights fid f (New_Done page_id built outcome) = building_rights fid f page_id"
| "create_rights fid f _ = {#Creation fid None, Own_Frame f FREE IO_NONE default_PageId#}"

fun after_rights :: "After_Flush \<Rightarrow> PageId list \<Rightarrow> BufferStatus \<Rightarrow> right multiset" where
  "after_rights Return_Status pages failure = {#}"
| "after_rights (Close_File fid) pages failure = {#Closing fid (set pages) (failure = Ok ())#}"

fun flush_rights :: "Flush_Point \<Rightarrow> right multiset" where
  "flush_rights Flush_Next = {#}"
| "flush_rights (Copy_Image f page_id epoch) = {#Writeback f page_id epoch#}"
| "flush_rights (Write_Image f page_id epoch generation img) = {#Writeback f page_id epoch#}"
| "flush_rights (Sync_Image f page_id epoch generation) = {#Writeback f page_id epoch#}"
| "flush_rights (Reconcile f page_id epoch generation status) = {#Writeback f page_id epoch#}"

abbreviation job_rights :: "Flush_Job \<Rightarrow> right multiset" where
  "job_rights job \<equiv> after_rights (fj_after job) (fj_pages job) (fj_failure job)"

fun task_rights :: "Task \<Rightarrow> right multiset" where
  "task_rights (Returned_Guard (Ok guard)) = {#Holding guard#}"
| "task_rights Thrown = {#Impossible#}"
| "task_rights (Join page_id l mode) = {#Claim l#}"
| "task_rights (Acquire purpose point) = acquire_rights point + purpose_rights purpose"
| "task_rights (Load page_id l mode f validator point) =
     {#Own_Frame f LOADING READ_IN_PROGRESS page_id,
       Own_Entry page_id \<lparr>pt_state = PT_LOADING, pt_frame_id = f, pt_load = Some l\<rparr>, Own_Load l page_id#}"
| "task_rights (Create fid initializer f point) = create_rights fid f point"
| "task_rights (Latch f mode) = {#Pinned f#}"
| "task_rights (Unpin f) = {#Pinned f#}"
| "task_rights (Flushing job point) = flush_rights point + job_rights job"
| "task_rights (Retire fid disposition) = {#Retiring fid#}"
| "task_rights (Drain fid disposition) = {#Draining fid#}"
| "task_rights _ = {#}"

section \<open>Acquiring a frame\<close>

lemma put_entry_replacer [simp]:
  "put_entry pid e (p\<lparr>bp_replacer := c\<rparr>) = (put_entry pid e p)\<lparr>bp_replacer := c\<rparr>"
  by (simp add: put_entry_def)

lemma touch_replacer:
  assumes ok: "pool_ok p M" and c: "c = SetReferenced (bp_replacer p) f \<or> c = ClearReferenced (bp_replacer p) f"
  shows "pool_ok (p\<lparr>bp_replacer := c\<rparr>) M"
  by (rule set_replacer[OF ok]) (use pool_okD(1)[OF ok] c in
    \<open>auto simp: shape_ok_def SetReferenced_def ClearReferenced_def clock_inv_def\<close>)

lemma length_FindCandidate: "clock_inv c \<Longrightarrow> length (cr_referenced (snd (FindCandidate e c))) = length (cr_referenced c)"
  by (cases rule: clock_pass_cases[where c = c and e = e]) auto

lemma reset_owned:
  assumes ok: "pool_ok p (add_mset (Own_Frame f st io pid) M)"
  shows "pool_ok (ResetFrame f p) (add_mset (Own_Frame f FREE IO_NONE default_PageId) M)"
  unfolding ResetFrame_def
proof (rule touch_replacer[where f = f])
  show "pool_ok (set_frame f (\<lambda>fr. fr\<lparr>bf_page := Page_new default_PageId, bf_state := FREE, bf_io_state := IO_NONE,
      bf_pin_count := 0, bf_dirty := False\<rparr>) p) (add_mset (Own_Frame f FREE IO_NONE default_PageId) M)"
    by (rule set_owned_frame[OF ok]) (use owned_frame[OF ok] in \<open>simp_all add: legal_frame_def Page_new_def\<close>)
qed simp

lemma bind_owned:
  assumes ok: "pool_ok p (add_mset (Own_Frame f st io pid) M)" and io': "io' \<noteq> WRITEBACK_IN_PROGRESS"
  shows "pool_ok (bind_frame f page_id io' p) (add_mset (Own_Frame f LOADING io' page_id) M)"
  unfolding bind_frame_def
  by (rule set_owned_frame[OF ok]) (use owned_frame[OF ok] io' in \<open>simp_all add: legal_frame_def Page_new_def\<close>)

lemma acquired_ok:
  assumes ok: "pool_ok p (add_mset (Own_Frame f FREE IO_NONE default_PageId) (purpose_rights purpose + M))"
    and step: "acquired purpose f p = (t, p')"
  shows "pool_ok p' (task_rights t + M)"
proof (cases purpose)
  case (For_Load page_id l mode)
  let ?e = "\<lparr>pt_state = PT_LOAD_INTENT, pt_frame_id = 0, pt_load = Some l\<rparr>"
  let ?e' = "\<lparr>pt_state = PT_LOADING, pt_frame_id = f, pt_load = Some l\<rparr>"
  let ?p = "bind_frame f page_id READ_IN_PROGRESS p"
  have "pool_ok ?p (add_mset (Own_Frame f LOADING READ_IN_PROGRESS page_id) (purpose_rights purpose + M))"
    by (rule bind_owned[OF ok]) simp
  then have ok1: "pool_ok ?p (add_mset (Own_Entry page_id ?e)
      (add_mset (Own_Load l page_id) (add_mset (Own_Frame f LOADING READ_IN_PROGRESS page_id) M)))"
    by (simp add: For_Load add_mset_commute)
  note entry = owned_entry(1)[OF ok1]
  have place: "entry_place ?p (add_mset (Own_Load l page_id) (add_mset (Own_Frame f LOADING READ_IN_PROGRESS page_id) M))
      page_id ?e'"
    using entry_place_ok[OF ok1 entry] by (simp add: entry_place_def)
  then obtain fe where fe: "find_file ?p (file_id page_id) = Some fe" by (auto simp: entry_place_def)
  from change_entry[OF ok1 _ place] show ?thesis
    using step entry fe by (auto simp: For_Load Let_def add_mset_commute)
next
  case (For_New fid initializer)
  then have "pool_ok p (add_mset (Creation fid None) (add_mset (Own_Frame f FREE IO_NONE default_PageId) M))"
    using ok by (simp add: add_mset_commute)
  from creation_facts(1)[OF this] this show ?thesis using step For_New by auto
qed

lemma fail_load_task:
  assumes ok: "pool_ok p (add_mset (Own_Entry page_id e0) (add_mset (Own_Load l page_id) M))"
    and step: "fail_load page_id l e p = (t, p')"
  shows "pool_ok p' (task_rights t + M)"
proof -
  have "pool_ok (erase_entry page_id p) (add_mset (Own_Load l page_id) M)" by (rule erase_owned_entry[OF ok])
  from fail_load_ok[OF this] show ?thesis using step by (auto simp: fail_load_def fail_guard_def Let_def)
qed

lemma acquire_failed_ok:
  assumes ok: "pool_ok p (purpose_rights purpose + M)" and step: "acquire_failed purpose e p = (t, p')"
  shows "pool_ok p' (task_rights t + M)"
proof (cases purpose)
  case (For_Load page_id l mode)
  then show ?thesis using fail_load_task[of p page_id _ l M e t p'] ok step by simp
next
  case (For_New fid initializer)
  then have "pool_ok p (add_mset (Creation fid None) M)" using ok by simp
  from end_creation[OF this] show ?thesis using step For_New by (auto simp: fail_guard_def)
qed

lemma eligible_facts:
  assumes "IsVictimEligible p f"
  shows "bf_state (bp_frame p f) = RESIDENT" "bf_pin_count (bp_frame p f) = 0" "bf_io_state (bp_frame p f) = IO_NONE"
    "\<exists>creating. registered p (file_id (Page_id (bf_page (bp_frame p f)))) ACTIVE creating"
  using assms by (auto simp: IsVictimEligible_def Let_def registered_def split: if_splits option.splits)

lemma IsVictimEligible_replacer [simp]: "IsVictimEligible (p\<lparr>bp_replacer := c\<rparr>) = IsVictimEligible p"
  by (simp add: fun_eq_iff IsVictimEligible_def)

lemma reserve_victim_ok:
  assumes ok: "pool_ok p (purpose_rights purpose + M)" and f: "f \<in> frame_ids p" and el: "IsVictimEligible p f"
    and step: "reserve_victim purpose f (Page_id (bf_page (bp_frame p f))) p = (t, p')"
  shows "pool_ok p' (task_rights t + M)"
proof -
  note e = eligible_facts[OF el]
  then obtain creating where act: "registered p (file_id (Page_id (bf_page (bp_frame p f)))) ACTIVE creating" by auto
  have "pool_ok (put_entry (Page_id (bf_page (bp_frame p f))) \<lparr>pt_state = PT_EVICTING, pt_frame_id = f, pt_load = None\<rparr>
      (set_frame f (\<lambda>fr. fr\<lparr>bf_state := EVICTING\<rparr>) p))
    (eviction_rights f (Page_id (bf_page (bp_frame p f))) IO_NONE + (purpose_rights purpose + M))"
    using reserve_frame[OF ok f e(1-3) HOL.refl act HOL.refl] by (simp add: eviction_rights_def add_mset_commute)
  then show ?thesis using step resident_frame(1)[OF ok f e(1)]
    by (auto simp: reserve_victim_def Let_def eviction_rights_def add_mset_commute)
qed

lemma acquire_pass_ok:
  assumes ok: "pool_ok p (purpose_rights purpose + M)" and step: "acquire_pass purpose notified p = (t, p')"
  shows "pool_ok p' (task_rights t + M)"
proof (cases "bp_free_list p = []")
  case False
  show ?thesis
    by (rule acquired_ok[OF take_free[OF ok False]]) (use step False in \<open>simp add: acquire_pass_def\<close>)
next
  case True
  obtain candidate replacer where fc: "FindCandidate (IsVictimEligible p) (bp_replacer p) = (candidate, replacer)"
    by fastforce
  let ?p = "p\<lparr>bp_replacer := replacer\<rparr>"
  have inv: "clock_inv (bp_replacer p)" "length (cr_referenced (bp_replacer p)) = length (bp_frames p)"
    using pool_okD(1)[OF ok] by (simp_all add: shape_ok_def)
  have ok1: "pool_ok ?p (purpose_rights purpose + M)"
    by (rule set_replacer[OF ok])
      (use clock_inv_FindCandidate[OF inv(1), of "IsVictimEligible p"] length_FindCandidate[OF inv(1)] inv(2) fc in
        \<open>metis snd_conv\<close>)+
  show ?thesis
  proof (cases candidate)
    case None
    then show ?thesis using step True fc acquire_failed_ok[OF ok1] by (auto simp: acquire_pass_def Let_def)
  next
    case (Some f)
    have f: "f \<in> frame_ids ?p" "IsVictimEligible ?p f"
      using clock_pass_victim(1,2)[OF inv(1) fc[unfolded Some]] inv(2) by simp_all
    show ?thesis
    proof (cases notified)
      case False
      then show ?thesis using step True fc Some see_frame[OF ok1 f(1)] by (auto simp: acquire_pass_def Let_def)
    next
      case notified: True
      show ?thesis
        by (rule reserve_victim_ok[OF ok1 f]) (use step True fc Some notified in \<open>simp add: acquire_pass_def Let_def\<close>)
    qed
  qed
qed

lemma recheck_candidate_ok:
  assumes ok: "pool_ok p (add_mset (Seen f) (purpose_rights purpose + M))"
    and step: "recheck_candidate purpose f victim p = (t, p')"
  shows "pool_ok p' (task_rights t + M)"
proof -
  have ok1: "pool_ok p (purpose_rights purpose + M)" using drop_right[OF ok] by blast
  have f: "f \<in> frame_ids p" using pool_okD(6)[OF ok, of "Seen f"] by simp
  show ?thesis
    using step acquire_pass_ok[OF ok1, of True] reserve_victim_ok[OF ok1 f, of t p']
    by (auto simp: recheck_candidate_def split: if_splits)
qed

lemma finish_eviction_ok:
  assumes ok: "pool_ok p (eviction_rights f victim io + (purpose_rights purpose + M))"
    and step: "finish_eviction purpose f victim p = (t, p')"
  shows "pool_ok p' (task_rights t + M)"
proof -
  have "pool_ok p (add_mset (Own_Entry victim \<lparr>pt_state = PT_EVICTING, pt_frame_id = f, pt_load = None\<rparr>)
      (add_mset (Own_Frame f EVICTING io victim) (purpose_rights purpose + M)))"
    using ok by (simp add: eviction_rights_def add_mset_commute)
  from reset_owned[OF erase_owned_entry[OF this]] show ?thesis
    by (rule acquired_ok) (use step in \<open>simp add: finish_eviction_def\<close>)
qed

lemma start_eviction_ok:
  assumes ok: "pool_ok p (eviction_rights f victim IO_NONE + (purpose_rights purpose + M))"
    and step: "start_eviction purpose f victim p = (t, p')"
  shows "pool_ok p' (task_rights t + M)"
proof (cases "bf_dirty (bp_frame p f)")
  case True
  have own: "pool_ok p (add_mset (Own_Frame f EVICTING IO_NONE victim)
      (add_mset (Own_Entry victim \<lparr>pt_state = PT_EVICTING, pt_frame_id = f, pt_load = None\<rparr>) (purpose_rights purpose + M)))"
    using ok by (simp add: eviction_rights_def)
  have leg: "legal_frame (bp_frame p f)"
    using pool_okD(2)[OF own owned_frame(1)[OF own]] by (simp add: frame_ok_def Let_def)
  have "pool_ok (set_frame f (\<lambda>fr. fr\<lparr>bf_io_state := WRITEBACK_IN_PROGRESS\<rparr>) p)
      (add_mset (Own_Frame f EVICTING WRITEBACK_IN_PROGRESS victim)
      (add_mset (Own_Entry victim \<lparr>pt_state = PT_EVICTING, pt_frame_id = f, pt_load = None\<rparr>) (purpose_rights purpose + M)))"
    by (rule set_owned_frame[OF own]) (use owned_frame[OF own] True leg in \<open>simp_all add: legal_frame_def\<close>)
  then show ?thesis using step True by (auto simp: start_eviction_def eviction_rights_def add_mset_commute)
next
  case False
  then show ?thesis using finish_eviction_ok[OF ok] step by (simp add: start_eviction_def)
qed

lemma end_eviction_ok:
  assumes ok: "pool_ok p (eviction_rights f victim WRITEBACK_IN_PROGRESS + (purpose_rights purpose + M))"
    and step: "end_eviction purpose f victim written p = (t, p')"
  shows "pool_ok p' (task_rights t + M)"
proof -
  let ?p = "set_frame f (\<lambda>fr. fr\<lparr>bf_io_state := IO_NONE\<rparr>) p"
  let ?e = "\<lparr>pt_state = PT_EVICTING, pt_frame_id = f, pt_load = None\<rparr>"
  let ?e' = "\<lparr>pt_state = PT_RESIDENT, pt_frame_id = f, pt_load = None\<rparr>"
  have own: "pool_ok p (add_mset (Own_Frame f EVICTING WRITEBACK_IN_PROGRESS victim)
      (add_mset (Own_Entry victim ?e) (purpose_rights purpose + M)))"
    using ok by (simp add: eviction_rights_def)
  note of = owned_frame[OF own]
  have leg: "legal_frame (bp_frame p f)"
    using pool_okD(2)[OF own of(1)] by (simp add: frame_ok_def Let_def)
  have ok1: "pool_ok ?p (add_mset (Own_Frame f EVICTING IO_NONE victim)
      (add_mset (Own_Entry victim ?e) (purpose_rights purpose + M)))"
    by (rule set_owned_frame[OF own]) (use of leg in \<open>simp_all add: legal_frame_def\<close>)
  have fr: "bp_frame ?p f = (bp_frame p f)\<lparr>bf_io_state := IO_NONE\<rparr>" using of(1) by (simp add: bp_frame_set_frame)
  show ?thesis
  proof (cases written)
    case (Inr u)
    then show ?thesis using finish_eviction_ok[of ?p f victim IO_NONE purpose M t p'] ok1 step
      by (simp add: end_eviction_def Let_def eviction_rights_def)
  next
    case (Inl e)
    have ent: "find_entry ?p victim = Some ?e" 
      using owned_entry(1) ok1[unfolded add_mset_commute[of "Own_Frame f EVICTING IO_NONE victim"]] .
    have place: "entry_place ?p (purpose_rights purpose + M) victim ?e'"
      using entry_place_ok[OF ok1 ent] by (auto simp: entry_place_def)
    have "pool_ok (put_entry victim ?e' (set_frame f (\<lambda>fr. fr\<lparr>bf_state := RESIDENT\<rparr>) ?p))
        (replicate_mset 0 (Pinned f) + (purpose_rights purpose + M))"
      by (rule publish_frame[OF ok1 _ _ _ _ _ _ _ HOL.refl place])
        (use of leg fr in \<open>auto simp: legal_frame_def\<close>)
    then have "pool_ok (put_entry victim ?e' (set_frame f (\<lambda>fr. fr\<lparr>bf_state := RESIDENT\<rparr>) ?p)) (purpose_rights purpose + M)"
      by simp
    from acquire_failed_ok[OF this] show ?thesis
      using step ent Inl by (auto simp: end_eviction_def Let_def)
  qed
qed

end
