(* ===== verification/Pool_Steps.thy ===== *)
theory Pool_Steps
  imports Pool_Safety
begin

text \<open>The remaining critical sections, and one theorem for any step of any task.\<close>

section \<open>Fetching\<close>

lemma fetchable_file:
  assumes "CheckFetchableLocked p page_id = Ok u"
  obtains fe where "find_file p (file_id page_id) = Some fe" "fe_state fe = ACTIVE"
    "page_no page_id < fe_published_page_count fe"
  using assms that by (auto simp: CheckFetchableLocked_def Let_def not_le split: if_splits option.splits)

lemma active_not_closing:
  assumes "pool_ok p M" and "find_file p fid = Some fe" and "fe_state fe = ACTIVE"
  shows "Closing fid pages clean \<notin># M"
  using pool_okD(6)[OF assms(1), of "Closing fid pages clean"] assms(2,3) by (auto simp: closing_ok_def registered_def)

lemma LoadPage_ok:
  assumes ok: "pool_ok p M" and fetch: "CheckFetchableLocked p page_id = Ok u" and new: "find_entry p page_id = None"
    and step: "LoadPage page_id mode p = (t, p')"
  shows "pool_ok p' (task_rights t + M)"
proof -
  obtain fe where fe: "find_file p (file_id page_id) = Some fe" "fe_state fe = ACTIVE"
    "page_no page_id < fe_published_page_count fe" using fetchable_file[OF fetch] .
  let ?l = "length (bp_loads p)"
  let ?load = "\<lparr>lo_claims = 1, lo_done = False, lo_frame_id = None, lo_error = default_BufferError\<rparr>"
  let ?p = "p\<lparr>bp_loads := bp_loads p @ [?load]\<rparr>"
  let ?e = "\<lparr>pt_state = PT_LOAD_INTENT, pt_frame_id = 0, pt_load = Some ?l\<rparr>"
  have ok1: "pool_ok ?p (add_mset (Own_Load ?l page_id) M)" by (rule add_load[OF ok]) simp_all
  have "pool_ok (put_entry page_id ?e ?p) (add_mset (Own_Entry page_id ?e) (add_mset (Own_Load ?l page_id) M))"
  proof (rule put_new_entry[OF ok1])
    show "entry_place ?p (add_mset (Own_Load ?l page_id) M) page_id ?e"
      by (rule entry_placeI[of _ _ fe]) (use fe in auto)
    show "Closing (file_id page_id) pages clean \<notin># add_mset (Own_Load ?l page_id) M" for pages clean
      using active_not_closing[OF ok fe(1,2)] by simp
  qed (use new in simp_all)
  then show ?thesis using step by (auto simp: LoadPage_def Let_def add_mset_commute)
qed

lemma word_less_not_max: "(w :: 'a::len word) < m \<Longrightarrow> w \<noteq> - 1"
  using word_order.extremum_strict by blast

lemma JoinLoad_ok:
  assumes ok: "pool_ok p M" and entry: "find_entry p page_id = Some e"
    and step: "JoinLoad page_id mode (pt_load e) p = (t, p')"
  shows "pool_ok p' (task_rights t + M)"
proof (cases "pt_load e")
  case None
  then show ?thesis using ok step by (auto simp: JoinLoad_def fail_guard_def)
next
  case (Some l)
  then have "Own_Load l page_id \<in># M" using entry_place_ok[OF ok entry] by (simp add: entry_place_def)
  from pool_okD(6)[OF ok this] have l: "l < length (bp_loads p)" "\<not> lo_done (bp_loads p ! l)" by simp_all
  show ?thesis
  proof (cases "lo_claims (bp_loads p ! l) \<ge> bp_max_pin_count p")
    case True
    then show ?thesis using ok step Some by (auto simp: JoinLoad_def fail_guard_def)
  next
    case False
    then have "lo_claims (bp_loads p ! l) \<noteq> - 1" using word_less_not_max by (metis not_le)
    from claim_load[OF ok l this] show ?thesis using step Some False by (auto simp: JoinLoad_def)
  qed
qed

lemma pin_page_ok:
  assumes ok: "pool_ok p M" and step: "pin_page page_id mode notified p = Some (t, p')"
  shows "pool_ok p' (task_rights t + M)"
proof (cases "CheckFetchableLocked p page_id")
  case (Inl e)
  then show ?thesis using ok step by (auto simp: pin_page_def fail_guard_def)
next
  case (Inr u)
  obtain fe where fe: "find_file p (file_id page_id) = Some fe" "fe_state fe = ACTIVE"
    using fetchable_file[OF Inr] by metis
  show ?thesis
  proof (cases "find_entry p page_id")
    case None
    then show ?thesis using LoadPage_ok[OF ok Inr None, of mode t p'] step Inr by (simp add: pin_page_def)
  next
    case (Some e)
    note join = JoinLoad_ok[OF ok Some, of mode t p']
    show ?thesis
    proof (cases "pt_state e")
      case PT_RESIDENT
      note re = resident_entry[OF ok Some PT_RESIDENT]
      show ?thesis
      proof (cases "notified \<and> bf_pin_count (bp_frame p (pt_frame_id e)) < bp_max_pin_count p")
        case True
        have "registered p (file_id (Page_id (bf_page (bp_frame p (pt_frame_id e))))) ACTIVE (fe_new_page_in_progress fe)"
          using fe re(3) by (simp add: registered_def)
        note ok1 = touch_replacer[OF pin_frame[OF ok re(1,2) this word_less_not_max[OF conjunct2[OF True]]] disjI1[OF HOL.refl]]
        have "\<not> bp_max_pin_count p \<le> bf_pin_count (bp_frame p (pt_frame_id e))" using True by (simp add: not_le)
        then show ?thesis using step Inr Some PT_RESIDENT True ok1
          by (auto simp: pin_page_def PinResidentLocked_def)
      next
        case False
        then show ?thesis using ok step Inr Some PT_RESIDENT
          by (auto simp: pin_page_def PinResidentLocked_def fail_guard_def not_less split: if_splits)
      qed
    qed (use join step Inr Some in \<open>simp_all add: pin_page_def\<close>)
  qed
qed

lemma join_load_ok:
  assumes ok: "pool_ok p (add_mset (Claim l) M)" and step: "join_load l mode p = Some (t, p')"
  shows "pool_ok p' (task_rights t + M)"
  using step claim_to_pin[OF ok] drop_claim[OF ok]
  by (auto simp: join_load_def Let_def fail_guard_def split: if_splits option.splits)

section \<open>Loading\<close>

lemma legal_bytes [simp]: "legal_frame (fr\<lparr>bf_page := (bf_page fr)\<lparr>Page_bytes := bytes\<rparr>\<rparr>) = legal_frame fr"
  by (cases "bf_state fr") (simp_all add: legal_frame_def)

lemma set_bytes_owned:
  assumes ok: "pool_ok p (add_mset (Own_Frame f st io pid) M)"
  shows "pool_ok (set_bytes f bytes p) (add_mset (Own_Frame f st io pid) M)"
  unfolding set_bytes_def
  by (rule set_owned_frame[OF ok])
    (use owned_frame[OF ok] pool_okD(2)[OF ok owned_frame(1)[OF ok]] in
      \<open>simp_all add: frame_ok_def Let_def\<close>)

lemma set_load_replacer [simp]:
  "set_load l c (p\<lparr>bp_replacer := cr\<rparr>) = (set_load l c p)\<lparr>bp_replacer := cr\<rparr>"
  by (simp add: set_load_def)

lemma finish_load_step:
  assumes ok: "pool_ok p (task_rights (Load page_id l mode f validator point) + M)"
    and step: "finish_load page_id l mode f read outcome p = (t, p')"
  shows "pool_ok p' (task_rights t + M)"
proof -
  let ?e = "\<lparr>pt_state = PT_LOADING, pt_frame_id = f, pt_load = Some l\<rparr>"
  let ?e' = "\<lparr>pt_state = PT_RESIDENT, pt_frame_id = f, pt_load = None\<rparr>"
  have own: "pool_ok p (add_mset (Own_Frame f LOADING READ_IN_PROGRESS page_id)
      (add_mset (Own_Entry page_id ?e) (add_mset (Own_Load l page_id) M)))"
    using ok by simp
  note of = owned_frame[OF own]
  have ent: "find_entry p page_id = Some ?e"
    using owned_entry(1) own[unfolded add_mset_commute[of "Own_Frame f LOADING READ_IN_PROGRESS page_id"]] .
  have place: "entry_place p M' page_id ?e'" for M' using entry_place_ok[OF own ent] by (auto simp: entry_place_def)
  then obtain fe where fe: "find_file p (file_id page_id) = Some fe" unfolding entry_place_def by blast
  show ?thesis
  proof (cases "LoadFailureLocked p page_id read outcome")
    case None
    then show ?thesis using fe by (auto simp: LoadFailureLocked_def split: sum.splits if_splits)
  next
    case (Some failure)
    show ?thesis
    proof (cases failure)
      case failed: (Some err)
      from fail_load_task[OF give_free[OF reset_owned[OF own]]] show ?thesis
        using step Some failed by (simp add: finish_load_def)
    next
      case loaded: None
      let ?c = "\<lambda>fr. fr\<lparr>bf_state := RESIDENT, bf_io_state := IO_NONE, bf_pin_count := lo_claims (bp_loads p ! l)\<rparr>"
      let ?k = "unat (lo_claims (bp_loads p ! l))"
      let ?p = "put_entry page_id ?e' (set_frame f ?c p)"
      have leg: "legal_frame (bp_frame p f)"
        using pool_okD(2)[OF own of(1)] by (simp add: frame_ok_def Let_def)
      have ok1: "pool_ok ?p (replicate_mset ?k (Pinned f) + add_mset (Own_Load l page_id) M)"
        by (rule publish_frame[OF own _ _ _ _ _ _ _ HOL.refl place]) (use of leg in \<open>simp_all add: legal_frame_def\<close>)
      have "pool_ok (set_load l (\<lambda>load. load\<lparr>lo_frame_id := Some f, lo_done := True\<rparr>) ?p) (add_mset (Pinned f) M)"
        by (rule finish_load_ok[OF ok1]) (use of(1) in simp_all)
      from touch_replacer[OF this, of "SetReferenced (bp_replacer p) f" f] show ?thesis
        using step Some loaded ent by (auto simp: finish_load_def PublishLoadLocked_def Let_def)
    qed
  qed
qed

section \<open>New pages\<close>

lemma new_page_ok:
  assumes ok: "pool_ok p M" and step: "new_page fid initializer p = Some (t, p')"
  shows "pool_ok p' (task_rights t + M)"
proof (cases "WaitForNewPageTurn fid p")
  case None
  then show ?thesis using step by (simp add: new_page_def)
next
  case (Some turn)
  show ?thesis
  proof (cases turn)
    case (Inl e)
    then show ?thesis using ok step Some by (auto simp: new_page_def fail_guard_def)
  next
    case (Inr u)
    then obtain fe where fe: "find_file p fid = Some fe" "fe_state fe = ACTIVE" "\<not> fe_new_page_in_progress fe"
      using Some by (auto simp: WaitForNewPageTurn_def Let_def split: if_splits option.splits)
    have "pool_ok (put_file fid (fe\<lparr>fe_new_page_in_progress := True\<rparr>) p) (purpose_rights (For_New fid initializer) + M)"
      using begin_creation[OF ok fe] by simp
    from acquire_pass_ok[OF this] show ?thesis using step Some Inr fe by (simp add: new_page_def)
  qed
qed

lemma bind_new_page_ok:
  assumes ok: "pool_ok p ({#Creation fid None, Own_Frame f FREE IO_NONE default_PageId#} + M)"
    and step: "bind_new_page fid initializer f reserved p = (t, p')"
  shows "pool_ok p' (task_rights t + M)"
proof -
  have own: "pool_ok p (add_mset (Creation fid None) (add_mset (Own_Frame f FREE IO_NONE default_PageId) M))"
    using ok by simp
  obtain fe where fe: "find_file p fid = Some fe" using creation_facts(1)[OF own] by auto
  have "pool_ok (ReleaseFrameToFreeList f p) (add_mset (Creation fid None) M)"
    by (rule give_free) (use own in \<open>simp add: add_mset_commute\<close>)
  from end_creation[OF this] have failed: "pool_ok (finish_new fid (ReleaseFrameToFreeList f p)) M" by simp
  show ?thesis
  proof (cases reserved)
    case (Inl e)
    then show ?thesis using step fe failed by (auto simp: bind_new_page_def fail_guard_def)
  next
    case (Inr n)
    show ?thesis
    proof (cases "n = 0 \<or> n \<noteq> fe_published_page_count fe")
      case True
      then show ?thesis using step fe failed Inr by (auto simp: bind_new_page_def fail_guard_def)
    next
      case False
      let ?pid = "PageId fid n"
      let ?e = "\<lparr>pt_state = PT_LOADING, pt_frame_id = f, pt_load = None\<rparr>"
      let ?p = "bind_frame f ?pid IO_NONE p"
      let ?M = "add_mset (Creation fid (Some ?pid)) (add_mset (Own_Frame f LOADING IO_NONE ?pid) M)"
      have new: "find_entry p ?pid = None"
      proof (rule ccontr)
        assume "find_entry p ?pid \<noteq> None"
        then obtain e where e: "find_entry p ?pid = Some e" by auto
        show False using entry_place_ok[OF own e] False fe creation_facts(2)[OF own, of "Creation fid (Some ?pid)"]
          by (auto simp: entry_place_def split: if_splits)
      qed
      have "pool_ok p (add_mset (Own_Frame f FREE IO_NONE default_PageId) (add_mset (Creation fid (Some ?pid)) M))"
        using name_creation[OF own fe, of ?pid] False by (auto simp: add_mset_commute)
      from bind_owned[OF this, of IO_NONE ?pid] have ok1: "pool_ok ?p ?M" by (simp add: add_mset_commute)
      have fe1: "find_file ?p fid = Some fe" using fe by (simp add: bind_frame_def)
      have "pool_ok (put_entry ?pid ?e ?p) (add_mset (Own_Entry ?pid ?e) ?M)"
      proof (rule put_new_entry[OF ok1])
        show "entry_place ?p ?M ?pid ?e" using fe1 by (auto simp: entry_place_def)
        show "Closing (file_id ?pid) pages clean \<notin># ?M" for pages clean
          using creation_facts(3)[OF ok1] by fastforce
      qed (use new in \<open>simp_all add: bind_frame_def\<close>)
      then show ?thesis using step fe Inr False new
        by (auto simp: bind_new_page_def Let_def building_rights_def add_mset_commute bind_frame_def)
    qed
  qed
qed

lemma publish_new_page_ok:
  assumes ok: "pool_ok p (building_rights fid f page_id + M)"
    and step: "publish_new_page fid f page_id built outcome p = (t, p')"
  shows "pool_ok p' (task_rights t + M)"
proof -
  let ?e = "\<lparr>pt_state = PT_LOADING, pt_frame_id = f, pt_load = None\<rparr>"
  let ?e' = "\<lparr>pt_state = PT_RESIDENT, pt_frame_id = f, pt_load = None\<rparr>"
  let ?C = "Creation fid (Some page_id)" and ?F = "Own_Frame f LOADING IO_NONE page_id"
  have own: "pool_ok p (add_mset ?C (add_mset ?F (add_mset (Own_Entry page_id ?e) M)))"
    using ok by (simp add: building_rights_def)
  obtain fe where fe: "find_file p fid = Some fe" using creation_facts(1)[OF own] by auto
  have fid: "file_id page_id = fid" "page_no page_id \<noteq> 0" using pool_okD(6)[OF own, of ?C] by auto
  show ?thesis
  proof (cases "\<not> built \<or> outcome \<noteq> VALID \<or> fe_state fe \<noteq> ACTIVE")
    case True
    have "pool_ok p (add_mset (Own_Entry page_id ?e) (add_mset ?F (add_mset ?C M)))"
      using own by (simp add: add_mset_commute)
    from give_free[OF reset_owned[OF erase_owned_entry[OF this]]]
    have "pool_ok (ReleaseFrameToFreeList f (ResetFrame f (erase_entry page_id p))) (add_mset ?C M)" .
    from end_creation[OF this] show ?thesis using step fe True
      by (auto simp: publish_new_page_def Let_def fail_guard_def ReleaseFrameToFreeList_def ResetFrame_def)
  next
    case False
    let ?p1 = "put_file fid (fe\<lparr>fe_published_page_count := page_no page_id + 1\<rparr>) p"
    let ?c = "\<lambda>fr. fr\<lparr>bf_state := RESIDENT, bf_pin_count := 1, bf_dirty := True,
      bf_modification_generation := bf_modification_generation fr + 1\<rparr>"
    have ok1: "pool_ok ?p1 (add_mset ?F (add_mset (Own_Entry page_id ?e) (add_mset ?C M)))"
      using publish_bound[OF own fe] by (simp add: add_mset_commute)
    note of = owned_frame[OF ok1]
    have leg: "legal_frame (bp_frame p f)"
      using pool_okD(2)[OF ok1 of(1)] by (simp add: frame_ok_def Let_def)
    have place: "entry_place ?p1 (add_mset ?C M) page_id ?e'"
      by (rule entry_placeI) (use fid word_less_Suc[of "page_no page_id"] in auto)
    have "pool_ok (put_entry page_id ?e' (set_frame f ?c ?p1)) (replicate_mset 1 (Pinned f) + add_mset ?C M)"
      by (rule publish_frame[OF ok1 _ _ _ _ _ _ _ HOL.refl place]) (use of leg in \<open>simp_all add: legal_frame_def\<close>)
    then have "pool_ok (put_entry page_id ?e' (set_frame f ?c ?p1)) (add_mset ?C (add_mset (Pinned f) M))"
      by (simp add: add_mset_commute)
    from touch_replacer[OF this, of "SetReferenced (bp_replacer p) f" f]
    have ok2: "pool_ok ((put_entry page_id ?e' (set_frame f ?c ?p1))\<lparr>bp_replacer := SetReferenced (bp_replacer p) f\<rparr>)
        (add_mset ?C (add_mset (Pinned f) M))" by simp
    have ent: "find_entry p page_id = Some ?e"
      using owned_entry(1)[of p page_id ?e "add_mset ?F (add_mset ?C M)"] own by (simp add: add_mset_commute)
    have "pool_ok (finish_new fid ((put_entry page_id ?e' (set_frame f ?c ?p1))
        \<lparr>bp_replacer := SetReferenced (bp_replacer p) f\<rparr>)) (add_mset (Pinned f) M)"
      by (rule end_creation[OF ok2]) auto
    then show ?thesis using step fe False ent by (auto simp: publish_new_page_def Let_def)
  qed
qed

section \<open>Flushing and closing\<close>

lemma close_page_ok:
  assumes ok: "pool_ok p M" and entry: "find_entry p pid = Some e" and st: "pt_state e = PT_RESIDENT"
    and idle: "bf_pin_count (bp_frame p (pt_frame_id e)) = 0" "bf_io_state (bp_frame p (pt_frame_id e)) = IO_NONE"
  shows "pool_ok (close_page (pid, e) p) M" and "find_entry (close_page (pid, e) p) = (find_entry p)(pid := None)"
    and "find_file (close_page (pid, e) p) = find_file p"
    and "f' \<noteq> pt_frame_id e \<Longrightarrow> bp_frame (close_page (pid, e) p) f' = bp_frame p f'"
proof -
  note re = resident_entry[OF ok entry st]
  let ?f = "pt_frame_id e"
  let ?c = "\<lambda>fr. fr\<lparr>bf_page := Page_new default_PageId, bf_state := FREE, bf_io_state := IO_NONE,
        bf_pin_count := 0, bf_dirty := False\<rparr>"
  have leg: "legal_frame (bp_frame p ?f)"
    using pool_okD(2)[OF ok re(1)] by (simp add: frame_ok_def Let_def)
  have "pool_ok (set_frame ?f ?c (erase_entry pid p)) (add_mset (Own_Frame ?f FREE IO_NONE default_PageId) M)"
    by (rule drop_frame[OF ok re(1,2) idle re(3)[symmetric]]) (use leg in \<open>simp_all add: legal_frame_def Page_new_def\<close>)
  from give_free[OF touch_replacer[OF this disjI2[OF HOL.refl]]]
  show "pool_ok (close_page (pid, e) p) M" by (simp add: close_page_def ResetFrame_def)
  have f: "?f \<in> frame_ids (erase_entry pid p)" using re(1) by simp
  show "find_entry (close_page (pid, e) p) = (find_entry p)(pid := None)"
    "find_file (close_page (pid, e) p) = find_file p"
    "f' \<noteq> ?f \<Longrightarrow> bp_frame (close_page (pid, e) p) f' = bp_frame p f'"
    using bp_frame_set_frame[OF f]
    by (auto simp: close_page_def ResetFrame_def ReleaseFrameToFreeList_def fun_eq_iff find_entry_def[symmetric])
qed

text \<open>Entries of a file that nobody uses.\<close>

definition idle_file :: "BufferPool \<Rightarrow> FileId \<Rightarrow> bool" where
  "idle_file p fid \<longleftrightarrow> (\<forall>pid e. find_entry p pid = Some e \<and> file_id pid = fid \<longrightarrow> pt_state e = PT_RESIDENT \<and>
     bf_pin_count (bp_frame p (pt_frame_id e)) = 0 \<and> bf_io_state (bp_frame p (pt_frame_id e)) = IO_NONE)"

lemma close_pages_ok:
  assumes "pool_ok p M" and "idle_file p fid" and "distinct (map fst xs)"
    and "\<And>pid e. (pid, e) \<in> set xs \<Longrightarrow> find_entry p pid = Some e \<and> file_id pid = fid"
  shows "pool_ok (fold close_page xs p) M \<and> find_file (fold close_page xs p) = find_file p \<and>
    (\<forall>pid. find_entry (fold close_page xs p) pid = (if pid \<in> fst ` set xs then None else find_entry p pid))"
  using assms
proof (induction xs arbitrary: p)
  case (Cons x xs)
  obtain pid e where x: "x = (pid, e)" by fastforce
  have e: "find_entry p pid = Some e" "file_id pid = fid" using Cons.prems(4)[of pid e] x by auto
  then have idle: "pt_state e = PT_RESIDENT" "bf_pin_count (bp_frame p (pt_frame_id e)) = 0"
    "bf_io_state (bp_frame p (pt_frame_id e)) = IO_NONE"
    using Cons.prems(2) by (auto simp: idle_file_def)
  note cl = close_page_ok[OF Cons.prems(1) e(1) idle]
  have other: "pt_frame_id e' \<noteq> pt_frame_id e"
    if "find_entry p pid' = Some e'" "pid' \<noteq> pid" "pt_state e' = PT_RESIDENT" for pid' e'
    using resident_entry(3)[OF Cons.prems(1) that(1,3)] resident_entry(3)[OF Cons.prems(1) e(1) idle(1)] that(2) by auto
  have "idle_file (close_page x p) fid"
    unfolding idle_file_def x cl(2)
  proof (intro allI impI)
    fix pid' e' assume a: "((find_entry p)(pid := None)) pid' = Some e' \<and> file_id pid' = fid"
    then have b: "find_entry p pid' = Some e'" "pid' \<noteq> pid" "file_id pid' = fid" by (auto split: if_splits)
    then have "pt_state e' = PT_RESIDENT" "bf_pin_count (bp_frame p (pt_frame_id e')) = 0"
      "bf_io_state (bp_frame p (pt_frame_id e')) = IO_NONE"
      using Cons.prems(2) by (auto simp: idle_file_def)
    then show "pt_state e' = PT_RESIDENT \<and> bf_pin_count (bp_frame (close_page (pid, e) p) (pt_frame_id e')) = 0 \<and>
        bf_io_state (bp_frame (close_page (pid, e) p) (pt_frame_id e')) = IO_NONE"
      using other[OF b(1,2)] cl(4) by simp
  qed
  moreover have "find_entry (close_page x p) pid' = Some e' \<and> file_id pid' = fid" if "(pid', e') \<in> set xs" for pid' e'
    using Cons.prems(4)[of pid' e'] that Cons.prems(3) x cl(2) by (auto simp: rev_image_eqI)
  ultimately have "pool_ok (fold close_page xs (close_page x p)) M \<and>
      find_file (fold close_page xs (close_page x p)) = find_file (close_page x p) \<and>
      (\<forall>pid'. find_entry (fold close_page xs (close_page x p)) pid' =
         (if pid' \<in> fst ` set xs then None else find_entry (close_page x p) pid'))"
    using Cons.IH[of "close_page x p"] cl(1) Cons.prems(3) x by simp
  then show ?case using cl(2,3) x by auto
qed simp

lemma close_file_ok:
  assumes ok: "pool_ok p (add_mset r0 M)" and r0: "retires fid r0" and reg: "registered p fid st False"
    and idle: "idle_file p fid"
  shows "pool_ok (close_file fid p) M"
proof -
  let ?xs = "filter (\<lambda>(pid, e). file_id pid = fid) (bp_page_table p)"
  let ?p = "fold close_page ?xs p"
  have shape: "shape_ok p" by (rule pool_okD(1)[OF ok])
  have dist: "distinct (map fst ?xs)" using shape by (simp add: shape_ok_def distinct_map_filter)
  have mem: "find_entry p pid = Some e \<and> file_id pid = fid" if "(pid, e) \<in> set ?xs" for pid e
    using that find_entry_mem[OF shape] by auto
  have closed: "pool_ok ?p (add_mset r0 M)" "find_file ?p = find_file p"
    "find_entry ?p pid = (if pid \<in> fst ` set ?xs then None else find_entry p pid)" for pid
    using close_pages_ok[OF ok idle dist mem] by blast+
  have "file_id pid \<noteq> fid" if "find_entry ?p pid = Some e" for pid e
  proof
    assume f: "file_id pid = fid"
    have "pid \<notin> fst ` set ?xs" "find_entry p pid = Some e" using that closed(3)[of pid] by (auto split: if_splits)
    moreover have "pid \<in> fst ` set ?xs"
      using find_entry_mem[OF shape, of pid e] f calculation(2) by (force intro: image_eqI[of _ _ "(pid, e)"])
    ultimately show False by simp
  qed
  from unregister_ok[OF closed(1) r0 _ this] show ?thesis
    using reg closed(2) by (auto simp: close_file_def Let_def registered_def)
qed

lemma closing_idle:
  assumes ok: "pool_ok p (add_mset (Closing fid {} True) M)"
  shows "idle_file p fid"
  unfolding idle_file_def
proof (intro allI impI)
  fix pid e assume e: "find_entry p pid = Some e \<and> file_id pid = fid"
  then have c: "pt_state e = PT_RESIDENT" "bf_pin_count (bp_frame p (pt_frame_id e)) = 0"
    "\<not> bf_dirty (bp_frame p (pt_frame_id e))"
    using pool_okD(6)[OF ok, of "Closing fid {} True"] by (auto simp: closing_ok_def)
  note re = resident_entry[OF ok conjunct1[OF e] c(1)]
  have "legal_frame (bp_frame p (pt_frame_id e))"
    using pool_okD(2)[OF ok re(1)] by (simp add: frame_ok_def Let_def)
  then show "pt_state e = PT_RESIDENT \<and> bf_pin_count (bp_frame p (pt_frame_id e)) = 0 \<and>
      bf_io_state (bp_frame p (pt_frame_id e)) = IO_NONE"
    using c re(2) by (cases "bf_io_state (bp_frame p (pt_frame_id e))") (simp_all add: legal_frame_def)
qed

lemma end_flush_ok:
  assumes ok: "pool_ok p (after_rights after [] failure + M)" and step: "end_flush failure after p = (t, p')"
  shows "pool_ok p' (task_rights t + M)"
proof (cases after)
  case Return_Status
  then show ?thesis using ok step by (auto simp: end_flush_def)
next
  case (Close_File fid)
  then have closing: "pool_ok p (add_mset (Closing fid {} (failure = Ok ())) M)" using ok by simp
  show ?thesis
  proof (cases failure)
    case (Inl e)
    have "pool_ok p M" using drop_right[OF closing] by blast
    then show ?thesis using step Close_File Inl by (auto simp: end_flush_def)
  next
    case (Inr u)
    then have c: "pool_ok p (add_mset (Closing fid {} True) M)" using closing by simp
    have "registered p fid RETIRING False" using pool_okD(6)[OF c, of "Closing fid {} True"] by (simp add: closing_ok_def)
    from close_file_ok[OF c _ this closing_idle[OF c]] show ?thesis using step Close_File Inr by (auto simp: end_flush_def)
  qed
qed

lemma skip_page:
  assumes ok: "pool_ok p (after_rights after (page_id # rest) failure + M)"
    and skip: "\<And>e. find_entry p page_id = Some e \<Longrightarrow> pt_state e = PT_RESIDENT \<Longrightarrow> \<not> bf_dirty (bp_frame p (pt_frame_id e))"
  shows "pool_ok p (after_rights after rest failure + M)"
proof (cases after)
  case (Close_File fid)
  then have c: "pool_ok p (add_mset (Closing fid (set (page_id # rest)) (failure = Ok ())) M)" using ok by simp
  have "closing_ok p fid (set rest) (failure = Ok ())"
    using pool_okD(6)[OF c, of "Closing fid (set (page_id # rest)) (failure = Ok ())"] skip
    by (fastforce simp: closing_ok_def)
  then have "pool_ok p (add_mset (Closing fid (set rest) (failure = Ok ())) M)"
    by (intro replace_retirement[OF c]) simp_all
  then show ?thesis using Close_File by simp
qed (use ok in simp)

lemma flush_pages_ok:
  "pool_ok p (after_rights after pages failure + M) \<Longrightarrow> flush_pages pages failure operation after p = (t, p') \<Longrightarrow>
    pool_ok p' (task_rights t + M)"
proof (induction pages failure operation after p rule: flush_pages.induct)
  case (1 failure operation after p)
  then show ?case using end_flush_ok[of p after failure M t p'] by simp
next
  case (2 page_id rest failure operation after p)
  let ?job = "\<lparr>fj_pages = page_id # rest, fj_failure = failure, fj_operation = operation, fj_after = after\<rparr>"
  note skip = skip_page[OF "2.prems"(1)]
  have wait: "pool_ok p (task_rights (Flushing ?job Flush_Next) + M)" using "2.prems"(1) by simp
  show ?case
  proof (cases "find_entry p page_id")
    case None
    then show ?thesis using "2.IH"(1)[OF HOL.refl None] skip "2.prems"(2) by simp
  next
    case (Some e)
    show ?thesis
    proof (cases "pt_state e")
      case PT_RESIDENT
      let ?f = "pt_frame_id e"
      note re = resident_entry[OF "2.prems"(1) Some PT_RESIDENT]
      show ?thesis
      proof (cases "bf_dirty (bp_frame p ?f)")
        case False
        then show ?thesis using "2.IH"(4)[OF HOL.refl Some PT_RESIDENT HOL.refl HOL.refl False] skip "2.prems"(2) Some PT_RESIDENT by simp
      next
        case dirty: True
        show ?thesis
        proof (cases "bf_io_state (bp_frame p ?f) = IO_NONE")
          case True
          from start_writeback[OF "2.prems"(1) re(1,2) dirty True HOL.refl HOL.refl] show ?thesis
            using "2.prems"(2) Some PT_RESIDENT dirty True by (auto simp: Let_def)
        next
          case False
          then show ?thesis using wait "2.prems"(2) Some PT_RESIDENT dirty by (auto simp: Let_def)
        qed
      qed
    next
      case PT_EVICTING
      then show ?thesis using wait "2.prems"(2) Some by (auto simp: Let_def)
    next
      case PT_LOAD_INTENT
      then show ?thesis using "2.IH"(2)[OF HOL.refl Some PT_LOAD_INTENT] skip "2.prems"(2) Some by simp
    next
      case PT_LOADING
      then show ?thesis using "2.IH"(3)[OF HOL.refl Some PT_LOADING] skip "2.prems"(2) Some by simp
    qed
  qed
qed

end
