(* ===== verification/Pool_Invariant.thy ===== *)
theory Pool_Invariant
  imports Pool_Steps
begin

text \<open>
  The account of the whole system: every step of \<open>system_step\<close> keeps \<open>pool_ok\<close> for the rights of all
  tasks and guards, so it holds in every state of a run.
\<close>

section \<open>Any step of any task\<close>

lemma with_device_Some [simp]: "with_device d r = Some (t, p', d') \<longleftrightarrow> r = Some (t, p') \<and> d' = d"
  by (cases r) (auto simp: with_device_def)

lemma write_image_cases:
  assumes "write_stable_image io page_id img operation failed written d = Some (t, d')"
  shows "t = written \<or> (\<exists>e. t = failed (Unexpected e))"
proof -
  obtain status where "io_WritePage io page_id (FinalizePageChecksum img) d = Some (status, d')"
    using assms by (auto simp: write_stable_image_def)
  then show ?thesis using assms by (cases status) (auto simp: write_stable_image_def)
qed

lemma sync_image_cases:
  assumes "sync_stable_image io page_id operation finished d = Some (t, d')"
  shows "\<exists>status. t = finished status"
proof -
  obtain status where "io_SyncFile io (file_id page_id) d = Some (status, d')"
    using assms by (auto simp: sync_stable_image_def)
  then show ?thesis using assms by (cases status) (auto simp: sync_stable_image_def)
qed

lemma with_pool_Some [simp]: "with_pool p r = Some (t, p', d') \<longleftrightarrow> r = Some (t, d') \<and> p' = p"
  by (cases r) (auto simp: with_pool_def)

lemma create_rights_counted [simp]:
  "create_rights fid f (new_page_counted published physical) = {#Creation fid None, Own_Frame f FREE IO_NONE default_PageId#}"
  by (simp add: new_page_counted_def split: sum.splits)

lemma advance_acquire_ok:
  assumes ok: "pool_ok p (task_rights (Acquire purpose point) + M)"
    and step: "advance_acquire io purpose point p d = Some (t, p', d')"
  shows "pool_ok p' (task_rights t + M)"
proof (cases point)
  case Acquiring
  then show ?thesis using ok step acquire_pass_ok[of p purpose M False t p'] by (simp)
next
  case (Candidate f victim)
  then show ?thesis using ok step recheck_candidate_ok[of p f purpose M victim t p'] by (simp)
next
  case (Reserved f victim)
  then show ?thesis using ok step start_eviction_ok[of p f victim purpose M t p']
    by (simp add: add.assoc)
next
  case (Evict_Write f victim img)
  then show ?thesis using ok step
    by (auto dest!: write_image_cases sync_image_cases)
next
  case (Evict_Sync f victim)
  then show ?thesis using ok step
    by (auto dest!: write_image_cases sync_image_cases)
next
  case (Evict_Done f victim status)
  then show ?thesis using ok step end_eviction_ok[of p f victim purpose M status t p']
    by (simp add: add.assoc)
qed

lemma advance_load_ok:
  assumes ok: "pool_ok p (task_rights (Load page_id l mode f validator point) + M)"
    and step: "advance_load io page_id l mode f validator point p d = Some (t, p', d')"
  shows "pool_ok p' (task_rights t + M)"
proof (cases point)
  case Load_Read
  have "pool_ok (set_bytes f bytes p) (task_rights (Load page_id l mode f validator point') + M)" for bytes point'
    using set_bytes_owned ok by simp
  then show ?thesis using step Load_Read by auto
next
  case Load_Validate
  then show ?thesis using ok step by auto
next
  case (Load_Done read outcome)
  then have "finish_load page_id l mode f read outcome p = (t, p')" using step by simp
  then show ?thesis by (rule finish_load_step[OF ok])
qed

lemma advance_create_ok:
  assumes ok: "pool_ok p (task_rights (Create fid initializer f point) + M)"
    and step: "advance_create io fid initializer f point p d = Some (t, p', d')"
  shows "pool_ok p' (task_rights t + M)"
proof (cases point)
  case (New_Count published)
  then show ?thesis using ok step by auto
next
  case New_Extend
  then show ?thesis using ok step by auto
next
  case (New_Bind reserved)
  then show ?thesis using ok step bind_new_page_ok[of p fid f M initializer reserved t p'] by (simp)
next
  case (New_Build page_id validator)
  have own: "pool_ok p (add_mset (Own_Frame f LOADING IO_NONE page_id) (add_mset (Creation fid (Some page_id))
      (add_mset (Own_Entry page_id \<lparr>pt_state = PT_LOADING, pt_frame_id = f, pt_load = None\<rparr>) M)))"
    using ok New_Build by (simp add: building_rights_def add_mset_commute)
  from set_bytes_owned[OF this]
  have "pool_ok (set_bytes f bytes p) (building_rights fid f page_id + M)" for bytes
    by (simp add: building_rights_def add_mset_commute)
  then show ?thesis using step New_Build by (auto simp: Let_def split: prod.splits)
next
  case (New_Done page_id built outcome)
  then show ?thesis using ok step publish_new_page_ok[of p fid f page_id M built outcome t p'] by (simp)
qed

lemma flush_next_ok:
  "pool_ok p (job_rights job + M) \<Longrightarrow> flush_next job p = (t, p') \<Longrightarrow> pool_ok p' (task_rights t + M)"
  unfolding flush_next_def by (rule flush_pages_ok)

lemma weaken_closing:
  assumes ok: "pool_ok p (after_rights after pages failure + M)" and "failure' \<noteq> Ok ()"
  shows "pool_ok p (after_rights after pages' failure' + M)"
proof (cases after)
  case (Close_File fid)
  then have c: "pool_ok p (add_mset (Closing fid (set pages) (failure = Ok ())) M)" using ok by simp
  have "closing_ok p fid (set pages') False"
    using pool_okD(6)[OF c, of "Closing fid (set pages) (failure = Ok ())"] by (simp add: closing_ok_def)
  then have "pool_ok p (add_mset (Closing fid (set pages') False) M)"
    by (intro replace_retirement[OF c]) simp_all
  then show ?thesis using Close_File assms(2) by simp
qed (use ok in simp)

lemma reconcile_ok:
  assumes ok: "pool_ok p (add_mset (Writeback f page_id epoch) (job_rights job + M))"
    and step: "reconcile job f page_id epoch generation written p = (t, p')"
  shows "pool_ok p' (task_rights t + M)"
proof -
  let ?p = "set_frame f (\<lambda>fr. fr\<lparr>bf_io_state := IO_NONE\<rparr>) p"
  note wb = writeback_resident[OF ok, of f page_id epoch, simplified]
  have ok1: "pool_ok ?p (job_rights job + M)" by (rule end_writeback[OF ok])
  have fr: "bp_frame ?p f = (bp_frame p f)\<lparr>bf_io_state := IO_NONE\<rparr>" using wb(3) by (simp add: bp_frame_set_frame)
  have ok2: "pool_ok (set_frame f (\<lambda>fr. fr\<lparr>bf_dirty := False\<rparr>) ?p) (job_rights job + M)"
    by (rule mark_clean[OF ok1]) (use wb fr in simp_all)
  obtain q where q: "pool_ok q (job_rights job + M)"
    "reconcile job f page_id epoch generation written p =
      (case written of Ok _ \<Rightarrow> flush_next job q
        | Unexpected e \<Rightarrow> flush_next (job\<lparr>fj_pages := tl (fj_pages job),
               fj_failure := (case fj_failure job of Ok _ \<Rightarrow> Unexpected e | Unexpected e' \<Rightarrow> Unexpected e')\<rparr>) q)"
  proof (rule that)
    let ?q = "if written = Ok () \<and> Page_id (bf_page (bp_frame ?p f)) = page_id \<and> bf_binding_epoch (bp_frame ?p f) = epoch \<and>
        bf_modification_generation (bp_frame ?p f) = generation then set_frame f (\<lambda>fr. fr\<lparr>bf_dirty := False\<rparr>) ?p else ?p"
    show "pool_ok ?q (job_rights job + M)" using ok1 ok2 by simp
  qed (simp add: reconcile_def Let_def)
  show ?thesis
  proof (cases written)
    case (Inr u)
    then show ?thesis using q step flush_next_ok by auto
  next
    case (Inl e)
    let ?job = "job\<lparr>fj_pages := tl (fj_pages job),
               fj_failure := (case fj_failure job of Ok _ \<Rightarrow> Unexpected e | Unexpected e' \<Rightarrow> Unexpected e')\<rparr>"
    have "pool_ok q (job_rights ?job + M)"
      using weaken_closing[OF q(1), of "fj_failure ?job" "tl (fj_pages job)"] by (auto split: sum.splits)
    then show ?thesis by (rule flush_next_ok) (use q(2) step Inl in simp)
  qed
qed

lemma advance_flush_ok:
  assumes ok: "pool_ok p (task_rights (Flushing job point) + M)"
    and step: "advance_flush io job point p d = Some (t, p', d')"
  shows "pool_ok p' (task_rights t + M)"
proof (cases point)
  case Flush_Next
  then show ?thesis using ok step flush_next_ok[of p job M t p'] by (simp)
next
  case (Copy_Image f page_id epoch)
  then show ?thesis using ok step by (auto simp: Let_def split: if_splits)
next
  case (Write_Image f page_id epoch generation img)
  then show ?thesis using ok step by (auto dest!: write_image_cases sync_image_cases)
next
  case (Sync_Image f page_id epoch generation)
  then show ?thesis using ok step by (auto dest!: write_image_cases sync_image_cases)
next
  case (Reconcile f page_id epoch generation status)
  then show ?thesis using ok step reconcile_ok[of p f page_id epoch job M generation status t p']
    by (simp)
qed

section \<open>Retiring\<close>

lemma dirty_pages_mem:
  assumes "shape_ok p"
  shows "pid \<in> set (dirty_pages selected p) \<longleftrightarrow>
    (\<exists>e. find_entry p pid = Some e \<and> selected pid \<and> pt_state e = PT_RESIDENT \<and> bf_dirty (bp_frame p (pt_frame_id e)))"
  using find_entry_mem[OF assms] by (force simp: dirty_pages_def)

lemma file_drained_idle:
  assumes "shape_ok p" and "file_drained fid p"
  shows "idle_file p fid"
  using assms find_entry_mem[OF assms(1)] by (fastforce simp: file_drained_def idle_file_def list_all_iff)

lemma drain_file_ok:
  assumes ok: "pool_ok p (add_mset (Draining fid) M)" and step: "drain_file fid disposition p = Some (t, p')"
  shows "pool_ok p' (task_rights t + M)"
proof -
  note shape = pool_okD(1)[OF ok]
  obtain fe where fe: "find_file p fid = Some fe" "fe_state fe = RETIRING"
    using pool_okD(6)[OF ok, of "Draining fid"] by (auto simp: registered_def)
  have go: "\<not> fe_new_page_in_progress fe" "file_drained fid p"
    using step fe by (auto simp: drain_file_def split: if_splits)
  have reg: "registered p fid RETIRING False" using fe go(1) by (simp add: registered_def)
  note idle = file_drained_idle[OF shape go(2)]
  show ?thesis
  proof (cases "disposition = FLUSH_DIRTY")
    case True
    have "closing_ok p fid (set (dirty_pages (\<lambda>pid. file_id pid = fid) p)) True"
      using reg idle by (auto simp: closing_ok_def idle_file_def dirty_pages_mem[OF shape])
    then have "pool_ok p (after_rights (Close_File fid) (dirty_pages (\<lambda>pid. file_id pid = fid) p) (Ok ()) + M)"
      using replace_retirement[OF ok] by simp
    from flush_pages_ok[OF this] show ?thesis using step fe go True by (simp add: drain_file_def)
  next
    case False
    then show ?thesis using step fe go close_file_ok[OF ok _ reg idle] by (auto simp: drain_file_def)
  qed
qed

lemma retire_file_ok:
  assumes ok: "pool_ok p (add_mset (Retiring fid) M)" and step: "retire_file fid disposition p = (t, p')"
  shows "pool_ok p' (task_rights t + M)"
proof (cases "find_file p fid")
  case None
  have "pool_ok p M" using drop_right[OF ok] by blast
  then show ?thesis using step None by (auto simp: retire_file_def)
next
  case (Some fe)
  show ?thesis
  proof (cases "fe_state fe = ACTIVE")
    case True
    then show ?thesis using start_retiring[OF ok Some] step Some by (auto simp: retire_file_def)
  next
    case False
    then have "fe_state fe = RETIRING" by (cases "fe_state fe") simp_all
    then have "pool_ok p (add_mset (Draining fid) M)"
      using Some by (intro replace_retirement[OF ok]) (auto simp: registered_def)
    then show ?thesis using drain_file_ok step Some False by (auto simp: retire_file_def split: option.splits)
  qed
qed

lemma register_counted_ok:
  assumes ok: "pool_ok p M" and step: "register_counted fid validator page_count p = (status, p')"
  shows "pool_ok p' M"
  using step ok register_ok[OF ok]
  by (auto simp: register_counted_def Let_def split: sum.splits if_splits)

theorem advance_ok:
  assumes ok: "pool_ok p (task_rights t + M)" and step: "advance io t p d = Some (t', p', d')"
  shows "pool_ok p' (task_rights t' + M)"
proof (cases t)
  case (Pin page_id mode notified)
  then show ?thesis using ok step pin_page_ok[of p M] by auto
next
  case (Join page_id l mode)
  then show ?thesis using ok step join_load_ok[of p l M] by auto
next
  case (Acquire purpose point)
  then show ?thesis using ok step advance_acquire_ok by auto
next
  case (Load page_id l mode f validator point)
  show ?thesis by (rule advance_load_ok[OF ok[unfolded Load]]) (use step Load in simp)
next
  case (New_Page fid initializer)
  then show ?thesis using ok step new_page_ok[of p M] by auto
next
  case (Create fid initializer f point)
  show ?thesis by (rule advance_create_ok[OF ok[unfolded Create]]) (use step Create in simp)
next
  case (Latch f mode)
  then show ?thesis using ok step latch_frame[of p f M] by auto
next
  case (Unpin f)
  then show ?thesis using ok step unpin_pinned[of p f M] by auto
next
  case (Flush_Page page_id)
  then show ?thesis using ok step flush_pages_ok[of p Return_Status _ _ M] by (auto simp del: flush_pages.simps)
next
  case (Flush_File fid)
  then show ?thesis using ok step flush_pages_ok[of p Return_Status _ _ M]
    by (auto simp: flush_file_def split: if_splits)
next
  case Flush_All
  then show ?thesis using ok step flush_pages_ok[of p Return_Status _ _ M] by auto
next
  case (Flushing job point)
  show ?thesis by (rule advance_flush_ok[OF ok[unfolded Flushing]]) (use step Flushing in simp)
next
  case (Register fid validator)
  then show ?thesis using ok step by (auto split: if_splits)
next
  case (Register_Counted fid validator page_count)
  then show ?thesis using ok step register_counted_ok[of p M] by (auto split: prod.splits)
next
  case (Retire fid disposition)
  then show ?thesis using ok step retire_file_ok[of p fid M] by auto
next
  case (Drain fid disposition)
  then show ?thesis using ok step drain_file_ok[of p fid M] by auto
next
  case Shutdown
  then show ?thesis using set_quiescing[of p M True] ok step flush_pages_ok[of _ Return_Status _ _ M]
    by (auto simp: shutdown_def drain_pool_def Let_def split: if_splits)
next
  case Shutdown_Drain
  then show ?thesis using ok step flush_pages_ok[of p Return_Status _ _ M]
    by (auto simp: drain_pool_def split: if_splits)
qed (use step in simp_all)

section \<open>The system\<close>

definition rights_of :: "Task list \<Rightarrow> right multiset" where
  "rights_of ts = sum_list (map task_rights ts)"

definition system_rights :: "'d system \<Rightarrow> right multiset" where
  "system_rights s = rights_of (sy_tasks s) + image_mset Holding (mset (sy_guards s))"

lemma rights_of_split:
  assumes "i < length ts"
  obtains M where "rights_of ts = task_rights (ts ! i) + M" "\<And>t. rights_of (ts[i := t]) = task_rights t + M"
proof
  show "rights_of ts = task_rights (ts ! i) + (rights_of (take i ts) + rights_of (drop (Suc i) ts))"
    using id_take_nth_drop[OF assms] by (metis (no_types, lifting) ab_semigroup_add_class.add_ac(1) add.left_commute
        list.map(2) map_append rights_of_def sum_list.Cons sum_list.append)
  show "rights_of (ts[i := t]) = task_rights t + (rights_of (take i ts) + rights_of (drop (Suc i) ts))" for t
    using assms by (simp add: upd_conv_take_nth_drop rights_of_def ac_simps)
qed

lemma guards_split:
  assumes "j < length gs"
  obtains M where "image_mset Holding (mset gs) = add_mset (Holding (gs ! j)) M"
    "\<And>g. image_mset Holding (mset (gs[j := g])) = add_mset (Holding g) M"
proof
  show "image_mset Holding (mset gs) = add_mset (Holding (gs ! j)) (image_mset Holding (mset (take j gs @ drop (Suc j) gs)))"
    by (subst id_take_nth_drop[OF assms]) simp
  show "image_mset Holding (mset (gs[j := g])) = add_mset (Holding g) (image_mset Holding (mset (take j gs @ drop (Suc j) gs)))" for g
    using assms by (simp add: upd_conv_take_nth_drop)
qed

text \<open>The callers' discipline: a file is retired by one call at a time.\<close>

fun retires_file :: "FileId \<Rightarrow> Task \<Rightarrow> bool" where
  "retires_file fid (Retire fid' disposition) = (fid' = fid)"
| "retires_file fid (Drain fid' disposition) = (fid' = fid)"
| "retires_file fid (Flushing job point) = (fj_after job = Close_File fid)"
| "retires_file fid _ = False"

definition one_retirer :: "'d system \<Rightarrow> bool" where
  "one_retirer s \<longleftrightarrow> (\<forall>fid. length (filter (retires_file fid) (sy_tasks s)) \<le> 1)"

text \<open>Initializers write inside the page they are given, a span of its bytes.\<close>

definition spans_kept :: "PageInitializer \<Rightarrow> bool" where
  "spans_kept initializer \<longleftrightarrow>
     (\<forall>pid bytes. length bytes = 8192 \<longrightarrow> length (snd (initializer pid bytes)) = 8192)"

fun well_spanned :: "Task \<Rightarrow> bool" where
  "well_spanned (New_Page fid initializer) = spans_kept initializer"
| "well_spanned (Acquire (For_New fid initializer) point) = spans_kept initializer"
| "well_spanned (Create fid initializer f point) = spans_kept initializer"
| "well_spanned _ = True"

lemma held_retires_task: "held (retires fid) (task_rights t) = of_bool (retires_file fid t)"
proof (cases t)
  case (Returned_Guard r)
  then show ?thesis by (cases r) simp_all
next
  case (Acquire purpose point)
  then show ?thesis by (cases purpose; cases point) (simp_all add: eviction_rights_def)
next
  case (Create fid' initializer f point)
  then show ?thesis by (cases point) (simp_all add: building_rights_def)
next
  case (Flushing job point)
  then show ?thesis by (cases point; cases "fj_after job") simp_all
qed simp_all

lemma held_retires_tasks: "held (retires fid) (rights_of ts) = length (filter (retires_file fid) ts)"
  by (induction ts) (simp_all add: rights_of_def held_retires_task)

lemma add_retiring:
  assumes ok: "pool_ok p M" and none: "held (retires fid) M = 0"
  shows "pool_ok p (add_mset (Retiring fid) M)"
proof (rule pool_okI)
  show "entry_ok p (add_mset (Retiring fid) M) pid" for pid
    using pool_okD(3)[OF ok, of pid] by (auto simp: entry_ok_def split: option.splits)
  show "load_ok p (add_mset (Retiring fid) M) l" if "l < length (bp_loads p)" for l
    using pool_okD(4)[OF ok that] by (simp add: load_ok_def)
  show "file_ok p (add_mset (Retiring fid) M) fid'" for fid'
    using pool_okD(5)[OF ok, of fid'] none by (auto simp: file_ok_def held_zero)
  show "frame_ok p (add_mset (Retiring fid) M) f" if "f \<in> frame_ids p" for f
    using pool_okD(2)[OF ok that] by (simp add: frame_ok_def)
  show "right_ok p r" if "r \<in># add_mset (Retiring fid) M" for r using that pool_okD(6)[OF ok] by auto
qed (rule pool_okD(1)[OF ok])

lemma call_ok:
  assumes ok: "pool_ok p (rights_of ts + G)" and call: "is_call t"
    and one: "\<And>fid. length (filter (retires_file fid) (ts @ [t])) \<le> 1" and G: "\<And>fid. held (retires fid) G = 0"
  shows "pool_ok p (rights_of (ts @ [t]) + G)"
proof (cases "\<exists>fid disposition. t = Retire fid disposition")
  case True
  then obtain fid disposition where t: "t = Retire fid disposition" by auto
  have "held (retires fid) (rights_of ts + G) = 0"
    using one[of fid] G[of fid] held_retires_tasks[of fid ts] t by simp
  from add_retiring[OF ok this] show ?thesis by (simp add: rights_of_def t)
next
  case False
  then have "task_rights t = {#}" using call by (cases t) auto
  then show ?thesis using ok by (simp add: rights_of_def)
qed

theorem system_step_ok:
  assumes step: "system_step io s t" and ok: "pool_ok (sy_pool s) (system_rights s)" and one: "one_retirer t"
  shows "pool_ok (sy_pool t) (system_rights t)"
  using step
proof cases
  case (call c)
  have "held (retires fid) (image_mset Holding (mset (sy_guards s))) = 0" for fid by (auto simp: held_zero)
  from call_ok[OF ok[unfolded system_rights_def] call(2) _ this] show ?thesis
    using one call(1) by (simp add: system_rights_def one_retirer_def)
next
  case (task i c p d)
  obtain M where M: "rights_of (sy_tasks s) = task_rights (sy_tasks s ! i) + M"
    "\<And>u. rights_of ((sy_tasks s)[i := u]) = task_rights u + M" using rights_of_split[OF task(2)] by metis
  have "pool_ok (sy_pool s) (task_rights (sy_tasks s ! i) + (M + image_mset Holding (mset (sy_guards s))))"
    using ok by (simp add: system_rights_def M(1) add.assoc)
  from advance_ok[OF this task(3)] show ?thesis using task(1) by (simp add: system_rights_def M(2) add.assoc)
next
  case (take_guard i g)
  obtain M where M: "rights_of (sy_tasks s) = task_rights (sy_tasks s ! i) + M"
    "\<And>u. rights_of ((sy_tasks s)[i := u]) = task_rights u + M" using rights_of_split[OF take_guard(2)] by metis
  then show ?thesis using ok take_guard by (simp add: system_rights_def)
next
  case (mutate j bytes)
  let ?g = "sy_guards s ! j"
  obtain M where M: "image_mset Holding (mset (sy_guards s)) = add_mset (Holding ?g) M"
    "\<And>g. image_mset Holding (mset ((sy_guards s)[j := g])) = add_mset (Holding g) M" using guards_split[OF mutate(2)] by metis
  have "pool_ok (sy_pool s) (add_mset (Holding ?g) (rights_of (sy_tasks s) + M))"
    using ok by (simp add: system_rights_def M(1))
  from guard_frame[OF this, of "?g\<lparr>g_unpublished := True\<rparr>" "\<lambda>fr. fr\<lparr>bf_page := (bf_page fr)\<lparr>Page_bytes := bytes\<rparr>\<rparr>"]
  show ?thesis using mutate(1) by (simp add: system_rights_def M(2) set_bytes_def)
next
  case (mark_dirty j)
  let ?g = "sy_guards s ! j"
  obtain M where M: "image_mset Holding (mset (sy_guards s)) = add_mset (Holding ?g) M"
    "\<And>g. image_mset Holding (mset ((sy_guards s)[j := g])) = add_mset (Holding g) M" using guards_split[OF mark_dirty(2)] by metis
  have "pool_ok (sy_pool s) (add_mset (Holding ?g) (rights_of (sy_tasks s) + M))"
    using ok by (simp add: system_rights_def M(1))
  from guard_frame[OF this, of "?g\<lparr>g_unpublished := False\<rparr>" "\<lambda>fr. fr\<lparr>bf_modification_generation :=
      bf_modification_generation fr + 1, bf_dirty := True\<rparr>"]
  show ?thesis using mark_dirty(1) by (simp add: system_rights_def M(2) PublishMutation_def)
next
  case (release gs g gs')
  have "pool_ok (sy_pool s) (add_mset (Holding g) (rights_of (sy_tasks s) + image_mset Holding (mset (gs @ gs'))))"
    using ok release(2) by (simp add: system_rights_def)
  from unlatch_frame[OF this] show ?thesis using release(1)
    by (simp add: system_rights_def rights_of_def)
qed

lemma BufferPool_new_ok:
  assumes new: "BufferPool_new n m = Some p" and n: "n \<le> 4294967296"
  shows "pool_ok p {#}"
proof -
  obtain replacer where r: "ClockReplacer_new n = Some replacer"
    "p = \<lparr>bp_max_pin_count = max m 1, bp_frames = replicate n BufferFrame_new,
           bp_free_list = map of_nat (rev [0..<n]), bp_replacer = replacer, bp_page_table = [], bp_files = [],
           bp_quiescing = False, bp_loads = []\<rparr>"
    using new by (auto simp: BufferPool_new_def split: if_splits)
  have un: "unat (of_nat x :: FrameId) = x" if "x < n" for x
    using that n by (simp add: unsigned_of_nat take_bit_nat_eq_self)
  have len: "length (cr_referenced replacer) = n" "clock_inv replacer"
    using r(1) clock_inv_new[OF r(1) n] by (auto simp: ClockReplacer_new_def split: if_splits)
  have ids: "f \<in> set (bp_free_list p) \<longleftrightarrow> unat f < n" for f
  proof
    show "unat f < n" if "f \<in> set (bp_free_list p)" using that un by (auto simp: r(2))
    show "f \<in> set (bp_free_list p)" if "unat f < n"
      using that by (auto simp: r(2) intro!: image_eqI[of _ _ "unat f"])
  qed
  have dist: "distinct (bp_free_list p)"
    using un by (auto simp: r(2) distinct_map intro!: inj_onI) (metis un)
  show ?thesis
  proof (rule pool_okI)
    show "shape_ok p" using len ids by (auto simp: shape_ok_def r(2))
    show "frame_ok p {#} f" if "f \<in> frame_ids p" for f
    proof -
      have f: "unat f < n" using that by (simp add: r(2))
      then have "count (mset (bp_free_list p)) f = 1"
        using ids[of f] dist by (simp add: distinct_count_atmost_1)
      moreover have "bp_frame p f = BufferFrame_new" using f by (simp add: bp_frame_def r(2))
      ultimately show ?thesis using f by (simp add: frame_ok_def Let_def BufferFrame_new_def legal_frame_def Page_new_def)
    qed
  qed (auto simp: r(2) entry_ok_def load_ok_def file_ok_def find_entry_def find_file_def)
qed

theorem system_run_ok:
  assumes run: "system_run io one_retirer (system_start p d) s" and new: "BufferPool_new n m = Some p"
    and n: "n \<le> 4294967296"
  shows "pool_ok (sy_pool s) (system_rights s)"
  using run
proof induction
  case run_start
  then show ?case using BufferPool_new_ok[OF new n] by (simp add: system_start_def system_rights_def rights_of_def)
next
  case (run_more t u)
  then show ?case using system_step_ok by blast
qed

end
