(* ===== verification/Pool_Content.thy ===== *)
theory Pool_Content
  imports Pool_Invariant
begin

text \<open>
  What the cache holds against what the device holds. \<open>current\<close> is the content of a page as the pool
  defines it: the bytes of its frame, sealed with their checksum, while the page is cached, and the
  device's page otherwise. The predicates here say when the two agree, frame by frame and call by
  call; \<open>carries\<close> is what a critical section keeps of them, and lemma by lemma every section of the
  pool is shown to change no content.
\<close>

section \<open>Content\<close>

definition contents :: "BufferPool \<Rightarrow> FrameId \<Rightarrow> byte list" where
  "contents p f = Page_bytes (bf_page (bp_frame p f))"

definition sealed :: "BufferPool \<Rightarrow> FrameId \<Rightarrow> byte list" where
  "sealed p f = FinalizePageChecksum (contents p f)"

fun visible :: "PageTableEntry \<Rightarrow> FrameId option" where
  "visible e = (if pt_state e = PT_RESIDENT \<or> pt_state e = PT_EVICTING then Some (pt_frame_id e) else None)"

definition cached :: "BufferPool \<Rightarrow> PageId \<Rightarrow> FrameId option" where
  "cached p pid = Option.bind (find_entry p pid) visible"

definition current :: "BufferPool \<Rightarrow> (PageId \<Rightarrow> byte list option) \<Rightarrow> PageId \<Rightarrow> byte list option" where
  "current p disk pid = (case cached p pid of Some f \<Rightarrow> Some (sealed p f) | None \<Rightarrow> disk pid)"

text \<open>A clean resident frame agrees with the device, unless a writer has changes to publish
  (\<open>U\<close>: the frames of such writers).\<close>

definition saved :: "(PageId \<Rightarrow> byte list option) \<Rightarrow> FrameId set \<Rightarrow> BufferPool \<Rightarrow> FrameId \<Rightarrow> bool" where
  "saved disk U p f \<longleftrightarrow> length (contents p f) = 8192 \<and>
     (bf_state (bp_frame p f) = RESIDENT \<and> \<not> bf_dirty (bp_frame p f) \<and> f \<notin> U \<longrightarrow>
       disk (Page_id (bf_page (bp_frame p f))) = Some (sealed p f))"

text \<open>What a call in progress knows: a copied image is the frame's bytes as long as nobody changed them,
  a written one is on the device, a page read is the device's.\<close>

fun acquire_content :: "BufferPool \<Rightarrow> (PageId \<Rightarrow> byte list option) \<Rightarrow> Acquire_Point \<Rightarrow> bool" where
  "acquire_content p disk (Reserved f victim) = (\<not> bf_dirty (bp_frame p f) \<longrightarrow> disk victim = Some (sealed p f))"
| "acquire_content p disk (Evict_Write f victim img) = (img = contents p f)"
| "acquire_content p disk (Evict_Sync f victim) = (disk victim = Some (sealed p f))"
| "acquire_content p disk (Evict_Done f victim status) = (status = Ok () \<longrightarrow> disk victim = Some (sealed p f))"
| "acquire_content p disk _ = True"

fun load_content :: "BufferPool \<Rightarrow> (PageId \<Rightarrow> byte list option) \<Rightarrow> PageId \<Rightarrow> FrameId \<Rightarrow> Load_Point \<Rightarrow> bool" where
  "load_content p disk page_id f Load_Read = True"
| "load_content p disk page_id f Load_Validate = (disk page_id = Some (contents p f))"
| "load_content p disk page_id f (Load_Done read outcome) =
     (read = Ok () \<and> outcome = VALID \<longrightarrow> disk page_id = Some (sealed p f))"

definition copied :: "BufferPool \<Rightarrow> FrameId set \<Rightarrow> FrameId \<Rightarrow> 64 word \<Rightarrow> bool \<Rightarrow> bool" where
  "copied p U f generation agrees \<longleftrightarrow> generation \<le> bf_modification_generation (bp_frame p f) \<and>
     (generation = bf_modification_generation (bp_frame p f) \<and> f \<notin> U \<longrightarrow> agrees)"

fun flush_content :: "BufferPool \<Rightarrow> (PageId \<Rightarrow> byte list option) \<Rightarrow> FrameId set \<Rightarrow> Flush_Point \<Rightarrow> bool" where
  "flush_content p disk U (Write_Image f page_id epoch generation img) =
     (length img = 8192 \<and> copied p U f generation (img = contents p f))"
| "flush_content p disk U (Sync_Image f page_id epoch generation) =
     copied p U f generation (disk page_id = Some (sealed p f))"
| "flush_content p disk U (Reconcile f page_id epoch generation status) =
     copied p U f generation (status = Ok () \<longrightarrow> disk page_id = Some (sealed p f))"
| "flush_content p disk U _ = True"

fun task_content :: "BufferPool \<Rightarrow> (PageId \<Rightarrow> byte list option) \<Rightarrow> FrameId set \<Rightarrow> Task \<Rightarrow> bool" where
  "task_content p disk U (Acquire purpose point) = acquire_content p disk point"
| "task_content p disk U (Load page_id l mode f validator point) = load_content p disk page_id f point"
| "task_content p disk U (Flushing job point) = flush_content p disk U point"
| "task_content p disk U (Returned_Guard r) = (case r of Ok g \<Rightarrow> \<not> g_unpublished g | Unexpected e \<Rightarrow> True)"
| "task_content p disk U _ = True"

definition plain :: "Task \<Rightarrow> bool" where
  "plain t \<longleftrightarrow> (\<forall>p disk U. task_content p disk U t)"

section \<open>Small changes\<close>

text \<open>Outside the frames \<open>X\<close>, pages, dirty flags and generations stay, and no frame becomes resident.\<close>

definition kept :: "FrameId set \<Rightarrow> BufferPool \<Rightarrow> BufferPool \<Rightarrow> bool" where
  "kept X p p' \<longleftrightarrow> length (bp_frames p') = length (bp_frames p) \<and>
     (\<forall>f \<in> frame_ids p. f \<notin> X \<longrightarrow>
        bf_page (bp_frame p' f) = bf_page (bp_frame p f) \<and> bf_dirty (bp_frame p' f) = bf_dirty (bp_frame p f) \<and>
        bf_modification_generation (bp_frame p' f) = bf_modification_generation (bp_frame p f) \<and>
        (bf_state (bp_frame p' f) = RESIDENT \<longrightarrow> bf_state (bp_frame p f) = RESIDENT))"

definition quiet :: "BufferPool \<Rightarrow> BufferPool \<Rightarrow> bool" where
  "quiet p p' \<longleftrightarrow> kept {} p p' \<and> cached p' = cached p"

lemma bp_frame_set: "f' \<in> frame_ids p \<Longrightarrow>
    bp_frame (set_frame f c p) f' = (if f' = f then c (bp_frame p f) else bp_frame p f')"
  by (auto simp: bp_frame_def set_frame_def nth_list_update word_unat_eq_iff)

lemma kept_refl [simp]: "kept X p p"
  by (simp add: kept_def)

lemma kept_trans: "kept X p p1 \<Longrightarrow> kept Y p1 p2 \<Longrightarrow> kept (X \<union> Y) p p2"
  by (auto simp: kept_def)

lemma quiet_refl [simp]: "quiet p p"
  by (simp add: quiet_def)

lemma quiet_trans: "quiet p p1 \<Longrightarrow> quiet p1 p2 \<Longrightarrow> quiet p p2"
  using kept_trans[of "{}" p p1 "{}" p2] by (auto simp: quiet_def)

lemma cached_change [simp]:
  "cached (set_frame f c p) = cached p" "cached (put_file fid fe p) = cached p" "cached (set_load l lc p) = cached p"
  "cached (p\<lparr>bp_replacer := c'\<rparr>) = cached p" "cached (p\<lparr>bp_free_list := fl\<rparr>) = cached p"
  "cached (p\<lparr>bp_quiescing := q\<rparr>) = cached p" "cached (p\<lparr>bp_loads := ls\<rparr>) = cached p"
  by (simp_all add: cached_def fun_eq_iff)

lemma cached_entry:
  "cached (put_entry pid e p) = (cached p)(pid := visible e)"
  "cached (erase_entry pid p) = (cached p)(pid := None)"
  by (simp_all add: cached_def fun_eq_iff)

lemma kept_extra [simp]:
  "kept X p (put_file fid fe p') = kept X p p'" "kept X p (set_load l lc p') = kept X p p'"
  "kept X p (put_entry pid e p') = kept X p p'" "kept X p (erase_entry pid p') = kept X p p'"
  "kept X p (p'\<lparr>bp_replacer := c'\<rparr>) = kept X p p'" "kept X p (p'\<lparr>bp_free_list := fl\<rparr>) = kept X p p'"
  "kept X p (p'\<lparr>bp_quiescing := q\<rparr>) = kept X p p'" "kept X p (p'\<lparr>bp_loads := ls\<rparr>) = kept X p p'"
  "kept X p (finish_new fid p') = kept X p p'" "kept X p (ReleaseFrameToFreeList f p') = kept X p p'"
  by (simp_all add: kept_def finish_new_def ReleaseFrameToFreeList_def split: option.splits)

lemma cached_more [simp]:
  "cached (finish_new fid p) = cached p" "cached (ReleaseFrameToFreeList f p) = cached p"
  "cached (ResetFrame f p) = cached p" "cached (bind_frame f pid io p) = cached p"
  "cached (set_bytes f bytes p) = cached p"
  by (simp_all add: finish_new_def ReleaseFrameToFreeList_def ResetFrame_def bind_frame_def set_bytes_def
      split: option.splits)

lemma kept_set_frame: "kept {f} p (set_frame f c p)"
  by (auto simp: kept_def bp_frame_set)

lemma kept_set_frame_calm:
  assumes "bf_page (c (bp_frame p f)) = bf_page (bp_frame p f)" "bf_dirty (c (bp_frame p f)) = bf_dirty (bp_frame p f)"
    "bf_modification_generation (c (bp_frame p f)) = bf_modification_generation (bp_frame p f)"
    "bf_state (c (bp_frame p f)) = RESIDENT \<Longrightarrow> bf_state (bp_frame p f) = RESIDENT"
  shows "kept X p (set_frame f c p)"
  using assms by (auto simp: kept_def bp_frame_set)

lemma kept_reset: "kept {f} p (ResetFrame f p)" "kept {f} p (bind_frame f pid io p)" "kept {f} p (set_bytes f bytes p)"
  by (simp_all add: ResetFrame_def bind_frame_def set_bytes_def kept_set_frame)

lemma frame_ids_kept: "kept X p p' \<Longrightarrow> frame_ids p' = frame_ids p"
  by (simp add: kept_def)

lemma contents_kept: "kept X p p' \<Longrightarrow> f \<in> frame_ids p \<Longrightarrow> f \<notin> X \<Longrightarrow> contents p' f = contents p f \<and> sealed p' f = sealed p f"
  by (simp add: kept_def contents_def sealed_def)

lemma saved_kept:
  assumes "kept X p p'" and "f \<in> frame_ids p" and "f \<notin> X" and "saved disk U p f"
  shows "saved disk U p' f"
  using assms contents_kept[OF assms(1-3)] by (auto simp: saved_def kept_def)

section \<open>Who else looks at a frame\<close>

definition unclaimed :: "FrameId set \<Rightarrow> right multiset \<Rightarrow> bool" where
  "unclaimed X M \<longleftrightarrow> (\<forall>f \<in> X. \<forall>r \<in># M. \<not> owns_frame f r \<and> \<not> writes_back f r)"

lemma unclaimed_empty [simp]: "unclaimed {} M"
  by (simp add: unclaimed_def)

lemma unclaimed_Un: "unclaimed X M \<Longrightarrow> unclaimed Y M \<Longrightarrow> unclaimed (X \<union> Y) M"
  by (auto simp: unclaimed_def)

lemma right_frame: "right_ok p r \<Longrightarrow> owns_frame f r \<or> writes_back f r \<Longrightarrow> f \<in> frame_ids p"
  by (cases r) auto

text \<open>The frame a task's content is about is one it owns or writes back.\<close>

lemma task_content_kept:
  assumes ok: "pool_ok p R" and mine: "task_rights t \<subseteq># M" and sub: "M \<subseteq># R"
    and kept: "kept X p p'" and free: "unclaimed X M" and content: "task_content p disk U t"
  shows "task_content p' disk U t"
proof -
  have same: "contents p' f = contents p f \<and> sealed p' f = sealed p f \<and>
      bf_dirty (bp_frame p' f) = bf_dirty (bp_frame p f) \<and>
      bf_modification_generation (bp_frame p' f) = bf_modification_generation (bp_frame p f)"
    if "r \<in># task_rights t" "owns_frame f r \<or> writes_back f r" for f r
  proof -
    have M: "r \<in># M" using mine that(1) by (rule mset_subset_eqD)
    then have "f \<notin> X" using free that(2) by (auto simp: unclaimed_def)
    moreover have "f \<in> frame_ids p"
      using right_frame[OF pool_okD(6)[OF ok mset_subset_eqD[OF sub M]] that(2)] .
    ultimately show ?thesis using kept contents_kept[OF kept] by (auto simp: kept_def)
  qed
  show ?thesis
  proof (cases t)
    case (Acquire purpose point)
    then show ?thesis using content same by (cases point) (force simp: eviction_rights_def)+
  next
    case (Load page_id l mode f validator point)
    then have "contents p' f = contents p f \<and> sealed p' f = sealed p f"
      using same[of "Own_Frame f LOADING READ_IN_PROGRESS page_id" f] by simp
    then show ?thesis using content Load by (cases point) simp_all
  next
    case (Flushing job point)
    then show ?thesis using content same by (cases point) (force simp: copied_def)+
  qed (use content in simp_all)
qed

text \<open>An entry under eviction goes with the frame it names.\<close>

definition paired :: "right multiset \<Rightarrow> bool" where
  "paired R \<longleftrightarrow> (\<forall>pid e. Own_Entry pid e \<in># R \<and> pt_state e = PT_EVICTING \<longrightarrow>
     (\<exists>io. Own_Frame (pt_frame_id e) EVICTING io pid \<in># R))"

lemma paired_union: "paired A \<Longrightarrow> paired B \<Longrightarrow> paired (A + B)"
  by (auto simp: paired_def) blast+

lemma paired_task: "paired (task_rights t)"
proof (cases t)
  case (Returned_Guard r)
  then show ?thesis by (cases r) (simp_all add: paired_def)
next
  case (Acquire purpose point)
  then show ?thesis by (cases purpose; cases point) (auto simp: paired_def eviction_rights_def)
next
  case (Create fid initializer f point)
  then show ?thesis by (cases point) (auto simp: paired_def building_rights_def)
next
  case (Flushing job point)
  then show ?thesis by (cases point; cases "fj_after job") (auto simp: paired_def)
qed (auto simp: paired_def)

lemma cached_frame:
  assumes ok: "pool_ok p R" and paired: "paired R" and c: "cached p pid = Some f"
  shows "f \<in> frame_ids p" and "Page_id (bf_page (bp_frame p f)) = pid"
    and "bf_state (bp_frame p f) = RESIDENT \<or> bf_state (bp_frame p f) = EVICTING"
proof -
  obtain e where e: "find_entry p pid = Some e" "pt_frame_id e = f" and st: "pt_state e = PT_RESIDENT \<or> pt_state e = PT_EVICTING"
    using c by (auto simp: cached_def bind_eq_Some_conv split: if_splits)
  have "f \<in> frame_ids p \<and> Page_id (bf_page (bp_frame p f)) = pid \<and>
      (bf_state (bp_frame p f) = RESIDENT \<or> bf_state (bp_frame p f) = EVICTING)"
  proof (cases "pt_state e = PT_RESIDENT")
    case True
    then show ?thesis using resident_entry[OF ok e(1)] e(2) by simp
  next
    case False
    then have "held (owns_entry pid) R \<noteq> 0" using pool_okD(3)[OF ok, of pid] e(1) by (simp add: entry_ok_def)
    then obtain r where r: "r \<in># R" "owns_entry pid r" by (auto simp: held_zero)
    then obtain e' where e': "r = Own_Entry pid e'" by (cases r) auto
    with pool_okD(6)[OF ok r(1)] e(1) have "e' = e" by simp
    with r e' False st obtain io where own: "Own_Frame f EVICTING io pid \<in># R" using paired e(2) by (auto simp: paired_def)
    from pool_okD(6)[OF ok own] show ?thesis by simp
  qed
  then show "f \<in> frame_ids p" and "Page_id (bf_page (bp_frame p f)) = pid"
    and "bf_state (bp_frame p f) = RESIDENT \<or> bf_state (bp_frame p f) = EVICTING" by auto
qed

lemma current_kept:
  assumes "kept X p p'" and "cached p' pid = cached p pid"
    and "\<And>f. cached p pid = Some f \<Longrightarrow> f \<in> frame_ids p \<and> f \<notin> X"
  shows "current p' disk pid = current p disk pid"
  using assms contents_kept[OF assms(1)] by (auto simp: current_def split: option.splits)

end
