(* ===== verification/Pool_Carry.thy ===== *)
theory Pool_Carry
  imports Pool_Content
begin

text \<open>
  Critical sections carry the contents along: what a section does to frames other calls look at, that
  it leaves clean frames agreeing with the device, what its next position knows, and that no page's
  current content changes, save those of a set \<open>E\<close>.
\<close>

definition carries :: "(PageId \<Rightarrow> byte list option) \<Rightarrow> FrameId set \<Rightarrow> right multiset \<Rightarrow> PageId set \<Rightarrow> BufferPool \<Rightarrow>
    Task \<Rightarrow> BufferPool \<Rightarrow> bool" where
  "carries disk U M E p t p' \<longleftrightarrow> (\<exists>X. kept X p p' \<and> unclaimed X M) \<and> (\<forall>f \<in> frame_ids p. saved disk U p' f) \<and>
     task_content p' disk U t \<and> (\<forall>pid. pid \<notin> E \<longrightarrow> current p' disk pid = current p disk pid)"

definition all_saved :: "(PageId \<Rightarrow> byte list option) \<Rightarrow> FrameId set \<Rightarrow> BufferPool \<Rightarrow> bool" where
  "all_saved disk U p \<longleftrightarrow> (\<forall>f \<in> frame_ids p. saved disk U p f)"

text \<open>The frames \<open>U\<close> are those of write guards.\<close>

definition writers :: "FrameId set \<Rightarrow> right multiset \<Rightarrow> bool" where
  "writers U M \<longleftrightarrow> (\<forall>f \<in> U. \<exists>g. Holding g \<in># M \<and> g_frame_id g = f \<and> g_mode g = EXCLUSIVE)"

lemma writer_frame:
  assumes ok: "pool_ok p R" and "writers U M" and "M \<subseteq># R" and "f \<in> U"
  shows "bf_state (bp_frame p f) = RESIDENT" and "bf_pin_count (bp_frame p f) \<noteq> 0" and "bf_writer (bp_frame p f)"
proof -
  obtain g where g: "Holding g \<in># R" "g_frame_id g = f" "g_mode g = EXCLUSIVE"
    using assms(2-4) mset_subset_eqD unfolding writers_def by metis
  show "bf_state (bp_frame p f) = RESIDENT" "bf_pin_count (bp_frame p f) \<noteq> 0" using guard_resident[OF ok g(1)] g(2) by simp_all
  have "held (holds EXCLUSIVE f) R \<noteq> 0" using g by (intro held_nonzero[OF g(1)]) simp
  then show "bf_writer (bp_frame p f)"
    using pool_okD(2)[OF ok guard_resident(3)[OF ok g(1)]] g(2) by (cases "bf_writer (bp_frame p f)") (auto simp: frame_ok_def Let_def)
qed

lemma paired_add: "(\<And>pid e. r = Own_Entry pid e \<Longrightarrow> pt_state e \<noteq> PT_EVICTING) \<Longrightarrow> paired M \<Longrightarrow> paired (add_mset r M)"
  by (auto simp: paired_def) blast

lemma paired_purpose: "paired (purpose_rights purpose)"
  by (cases purpose) (auto simp: paired_def)

lemma paired_eviction: "paired (eviction_rights f victim io)"
  by (auto simp: paired_def eviction_rights_def)

lemmas paired_rules = paired_union paired_purpose paired_eviction

section \<open>Composing\<close>

lemma carriesI:
  assumes "kept X p p'" "unclaimed X M" "\<And>f. f \<in> frame_ids p \<Longrightarrow> saved disk U p' f" "task_content p' disk U t"
    "\<And>pid. pid \<notin> E \<Longrightarrow> current p' disk pid = current p disk pid"
  shows "carries disk U M E p t p'"
  using assms by (auto simp: carries_def)

lemma carries_trans:
  assumes "kept X p p1" and "unclaimed X M" and "\<And>pid. pid \<notin> E \<Longrightarrow> current p1 disk pid = current p disk pid"
    and "carries disk U M E p1 t p'"
  shows "carries disk U M E p t p'"
proof -
  obtain Y where Y: "kept Y p1 p'" "unclaimed Y M" using assms(4) by (auto simp: carries_def)
  then have "kept (X \<union> Y) p p'" "unclaimed (X \<union> Y) M" using kept_trans[OF assms(1)] unclaimed_Un assms(2) by blast+
  then show ?thesis
    using assms(3,4) frame_ids_kept[OF assms(1)] by (auto simp: carries_def)
qed

lemma carries_quiet:
  assumes ok: "pool_ok p R" and paired: "paired R" and quiet: "quiet p p1" and rest: "carries disk U M E p1 t p'"
  shows "carries disk U M E p t p'"
proof (rule carries_trans[OF _ _ _ rest, where X = "{}"])
  show "current p1 disk pid = current p disk pid" for pid
    using quiet cached_frame(1)[OF ok paired] by (intro current_kept[where X = "{}"]) (auto simp: quiet_def)
qed (use quiet in \<open>simp_all add: quiet_def\<close>)

lemma quiet_carries:
  assumes ok: "pool_ok p R" and paired: "paired R" and saved: "all_saved disk U p" and quiet: "quiet p p'"
    and content: "task_content p' disk U t"
  shows "carries disk U M E p t p'"
proof (rule carries_quiet[OF ok paired quiet])
  show "carries disk U M E p' t p'"
    using saved quiet content saved_kept[of "{}" p p'] frame_ids_kept[of "{}" p p']
    by (intro carriesI[where X = "{}"]) (auto simp: quiet_def all_saved_def)
qed

lemma all_saved_kept:
  assumes "all_saved disk U p" and "kept X p p'" and "\<And>f. f \<in> X \<Longrightarrow> f \<in> frame_ids p \<Longrightarrow> saved disk U p' f"
  shows "all_saved disk U p'"
  unfolding all_saved_def
proof
  fix f assume "f \<in> frame_ids p'"
  then have "f \<in> frame_ids p" using frame_ids_kept[OF assms(2)] by simp
  then show "saved disk U p' f" using assms(1,3) saved_kept[OF assms(2)] unfolding all_saved_def by blast
qed

text \<open>A section that works on a frame of its own, which no entry shows.\<close>

lemma own_frame_current:
  assumes ok: "pool_ok p (add_mset (Own_Frame f st io pid0) M)" and paired: "paired (add_mset (Own_Frame f st io pid0) M)"
    and st: "st \<noteq> EVICTING" and kept: "kept {f} p p'" and same: "cached p' pid = cached p pid"
  shows "current p' disk pid = current p disk pid"
proof (rule current_kept[OF kept same])
  fix f' assume c: "cached p pid = Some f'"
  show "f' \<in> frame_ids p \<and> f' \<notin> {f}"
    using cached_frame[OF ok paired c] owned_frame(2,3)[OF ok] st by auto
qed

lemma own_frame_unclaimed:
  assumes ok: "pool_ok p (add_mset (Own_Frame f st io pid0) (A + M))"
  shows "unclaimed {f} M"
  using owned_frame(5)[OF ok] by (auto simp: unclaimed_def)

lemma own_frame_carries:
  assumes ok: "pool_ok p (add_mset (Own_Frame f st io pid0) (A + M))" and paired: "paired (A + M)"
    and st: "st \<noteq> EVICTING" and saved: "all_saved disk U p" and kept: "kept {f} p p'"
    and mine: "saved disk U p' f" and content: "task_content p' disk U t"
    and same: "\<And>pid. pid \<notin> E \<Longrightarrow> cached p' pid = cached p pid"
  shows "carries disk U M E p t p'"
proof (rule carriesI[OF kept own_frame_unclaimed[OF ok] _ content])
  have paired: "paired (add_mset (Own_Frame f st io pid0) (A + M))" using paired by (rule paired_add[rotated]) simp
  show "current p' disk pid = current p disk pid" if "pid \<notin> E" for pid
    by (rule own_frame_current[OF ok paired st kept same[OF that]])
  show "saved disk U p' f'" if "f' \<in> frame_ids p" for f'
    using saved_kept[OF kept that] saved that mine by (cases "f' = f") (auto simp: all_saved_def)
qed

section \<open>Acquiring a frame\<close>

lemma plainD [simp]: "plain t \<Longrightarrow> task_content p disk U t"
  by (simp add: plain_def)

lemma plain_simps [simp]:
  "plain Thrown" "plain (Returned status)" "plain (Returned_Guard (Unexpected e))" "plain (fail_guard e)" "plain (Latch f mode)"
  "plain (Pin page_id mode notified)" "plain (Join page_id l mode)" "plain (Unpin f)" "plain (New_Page fid initializer)"
  "plain (Create fid initializer f point)" "plain (Register fid validator)" "plain (Register_Counted fid validator page_count)"
  "plain (Retire fid disposition)" "plain (Drain fid disposition)" "plain Shutdown" "plain Shutdown_Drain"
  "plain (Flush_Page page_id)" "plain (Flush_File fid)" "plain Flush_All" "plain (Acquire purpose Acquiring)"
  "plain (Acquire purpose (Candidate f victim))" "plain (Load page_id l mode f validator Load_Read)"
  "plain (Flushing job Flush_Next)" "plain (Flushing job (Copy_Image f page_id epoch))"
  by (simp_all add: plain_def fail_guard_def)

lemma saved_fresh:
  assumes "length (contents p f) = 8192" and "bf_state (bp_frame p f) \<noteq> RESIDENT"
  shows "saved disk U p f"
  using assms by (simp add: saved_def)

lemma bind_frame_at:
  assumes "f \<in> frame_ids p"
  shows "contents (bind_frame f pid io p) f = replicate 8192 0" and "bf_state (bp_frame (bind_frame f pid io p) f) = LOADING"
  using assms by (simp_all add: contents_def bind_frame_def bp_frame_set Page_new_def)

lemma reset_frame_at:
  assumes "f \<in> frame_ids p"
  shows "contents (ResetFrame f p) f = replicate 8192 0" and "bf_state (bp_frame (ResetFrame f p) f) = FREE"
  using assms by (simp_all add: contents_def ResetFrame_def bp_frame_set Page_new_def)

lemma contents_change [simp]:
  "contents (put_entry pid e p) = contents p" "contents (erase_entry pid p) = contents p"
  "contents (put_file fid fe p) = contents p" "contents (set_load l lc p) = contents p"
  "contents (p\<lparr>bp_replacer := c\<rparr>) = contents p" "contents (p\<lparr>bp_free_list := fl\<rparr>) = contents p"
  "contents (ReleaseFrameToFreeList f p) = contents p"
  by (simp_all add: contents_def fun_eq_iff ReleaseFrameToFreeList_def)

lemma saved_change [simp]:
  "saved disk U (put_entry pid e p) = saved disk U p" "saved disk U (erase_entry pid p) = saved disk U p"
  "saved disk U (put_file fid fe p) = saved disk U p" "saved disk U (set_load l lc p) = saved disk U p"
  "saved disk U (p\<lparr>bp_replacer := c\<rparr>) = saved disk U p" "saved disk U (p\<lparr>bp_free_list := fl\<rparr>) = saved disk U p"
  "saved disk U (ReleaseFrameToFreeList f p) = saved disk U p"
  by (simp_all add: saved_def fun_eq_iff sealed_def ReleaseFrameToFreeList_def)

lemma acquired_carries:
  assumes ok: "pool_ok p (add_mset (Own_Frame f FREE IO_NONE default_PageId) (purpose_rights purpose + M))"
    and paired: "paired M" and saved: "all_saved disk U p" and step: "acquired purpose f p = (t, p')"
  shows "carries disk U M {} p t p'"
proof (cases purpose)
  case (For_Load page_id l mode)
  let ?e = "\<lparr>pt_state = PT_LOAD_INTENT, pt_frame_id = 0, pt_load = Some l\<rparr>"
  have f: "f \<in> frame_ids p" by (rule owned_frame(1)[OF ok])
  have "pool_ok p (add_mset (Own_Entry page_id ?e)
      (add_mset (Own_Load l page_id) (add_mset (Own_Frame f FREE IO_NONE default_PageId) M)))"
    using ok by (simp add: For_Load add_mset_commute)
  note entry = owned_entry(1)[OF this]
  then have none: "cached p page_id = None" by (simp add: cached_def)
  let ?p = "put_entry page_id (?e\<lparr>pt_state := PT_LOADING, pt_frame_id := f\<rparr>) (bind_frame f page_id READ_IN_PROGRESS p)"
  have p': "p' = ?p" and t: "plain t"
    using step entry by (auto simp: For_Load Let_def bind_frame_def split: option.splits)
  show ?thesis unfolding p'
    by (rule own_frame_carries[OF ok _ _ saved])
      (use paired none t f in \<open>auto simp: paired_union paired_purpose cached_entry kept_reset bind_frame_at
        intro!: saved_fresh\<close>)
next
  case (For_New fid initializer)
  have "p' = p" "plain t" using step For_New by (auto split: option.splits)
  then show ?thesis using saved by (intro carriesI[where X = "{}"]) (simp_all add: all_saved_def)
qed

lemma quiet_finish_new [simp]: "quiet p (finish_new fid p)"
  by (simp add: quiet_def)

lemma acquire_failed_quiet:
  assumes ok: "pool_ok p (purpose_rights purpose + M)" and step: "acquire_failed purpose e p = (t, p')"
  shows "quiet p p' \<and> plain t"
proof (cases purpose)
  case (For_Load page_id l mode)
  then have "find_entry p page_id = Some \<lparr>pt_state = PT_LOAD_INTENT, pt_frame_id = 0, pt_load = Some l\<rparr>"
    using owned_entry(1)[of p page_id] ok by simp
  then have "cached p page_id = None" by (simp add: cached_def)
  then show ?thesis using step For_Load
    by (auto simp: fail_load_def Let_def quiet_def cached_entry fun_upd_idem_iff)
next
  case (For_New fid initializer)
  then show ?thesis using step by auto
qed

lemma reserve_victim_carries:
  assumes ok: "pool_ok p (purpose_rights purpose + M)" and paired: "paired M" and writers: "writers U M"
    and saved: "all_saved disk U p" and f: "f \<in> frame_ids p" and el: "IsVictimEligible p f"
    and step: "reserve_victim purpose f (Page_id (bf_page (bp_frame p f))) p = (t, p')"
  shows "carries disk U M {} p t p'"
proof -
  note e = eligible_facts[OF el]
  let ?v = "Page_id (bf_page (bp_frame p f))"
  have ent: "find_entry p ?v = Some \<lparr>pt_state = PT_RESIDENT, pt_frame_id = f, pt_load = None\<rparr>"
    using resident_frame(1)[OF ok f e(1)] .
  then have p': "p' = put_entry ?v \<lparr>pt_state = PT_EVICTING, pt_frame_id = f, pt_load = None\<rparr>
      (set_frame f (\<lambda>fr. fr\<lparr>bf_state := EVICTING\<rparr>) p)" and t: "t = Acquire purpose (Reserved f ?v)"
    using step by (auto simp: reserve_victim_def Let_def)
  have "cached p ?v = Some f" using ent by (simp add: cached_def)
  then have quiet: "quiet p p'"
    by (auto simp: p' quiet_def cached_entry fun_upd_idem_iff intro!: kept_set_frame_calm)
  have "f \<notin> U" using writer_frame(2)[OF ok writers mset_subset_eq_add_right] e(2) by blast
  then have "\<not> bf_dirty (bp_frame p f) \<longrightarrow> disk ?v = Some (sealed p f)"
    using saved f e(1) by (auto simp: all_saved_def saved_def)
  then have "task_content p' disk U t"
    using f by (simp add: p' t sealed_def contents_def bp_frame_set)
  from quiet_carries[OF ok _ saved quiet this] show ?thesis using paired by (simp add: paired_rules)
qed

lemma acquire_pass_carries:
  assumes ok: "pool_ok p (purpose_rights purpose + M)" and paired: "paired M" and writers: "writers U M"
    and saved: "all_saved disk U p" and step: "acquire_pass purpose notified p = (t, p')"
  shows "carries disk U M {} p t p'"
proof (cases "bp_free_list p = []")
  case False
  let ?p = "p\<lparr>bp_free_list := butlast (bp_free_list p)\<rparr>"
  have "carries disk U M {} ?p t p'"
    by (rule acquired_carries[OF take_free[OF ok False] paired])
      (use saved step False in \<open>simp_all add: acquire_pass_def all_saved_def\<close>)
  then show ?thesis
    by (rule carries_quiet[OF ok paired_union[OF paired_purpose paired], rotated]) (simp add: quiet_def)
next
  case True
  obtain candidate replacer where fc: "FindCandidate (IsVictimEligible p) (bp_replacer p) = (candidate, replacer)"
    by fastforce
  let ?p = "p\<lparr>bp_replacer := replacer\<rparr>"
  have inv: "clock_inv (bp_replacer p)" "length (cr_referenced (bp_replacer p)) = length (bp_frames p)"
    using pool_okD(1)[OF ok] by (simp_all add: shape_ok_def)
  have ok1: "pool_ok ?p (purpose_rights purpose + M)"
    by (rule set_replacer[OF ok])
      (use clock_inv_FindCandidate[OF inv(1), of "IsVictimEligible p"] length_FindCandidate[OF inv(1)] inv(2) fc in
        \<open>metis snd_conv\<close>)+
  have saved1: "all_saved disk U ?p" using saved by (simp add: all_saved_def)
  have "carries disk U M {} ?p t p'"
  proof (cases candidate)
    case None
    then have "acquire_failed purpose (buffer_error NO_REPLACEABLE_FRAME (purpose_operation purpose)
        (purpose_page purpose) ''no frame is free or replaceable'' None) ?p = (t, p')"
      using step True fc by (simp add: acquire_pass_def Let_def)
    from acquire_failed_quiet[OF ok1 this] show ?thesis
      using paired by (intro quiet_carries[OF ok1 _ saved1]) (simp_all add: paired_rules)
  next
    case (Some f)
    have f: "f \<in> frame_ids ?p" "IsVictimEligible ?p f"
      using clock_pass_victim(1,2)[OF inv(1) fc[unfolded Some]] inv(2) by simp_all
    show ?thesis
    proof (cases notified)
      case False
      then have "p' = ?p" "plain t" using step True fc Some by (auto simp: acquire_pass_def Let_def)
      then show ?thesis using paired by (intro quiet_carries[OF ok1 _ saved1]) (simp_all add: paired_rules)
    next
      case notified: True
      show ?thesis
        by (rule reserve_victim_carries[OF ok1 paired writers saved1 f])
          (use step True fc Some notified in \<open>simp add: acquire_pass_def Let_def\<close>)
    qed
  qed
  then show ?thesis
    by (rule carries_quiet[OF ok paired_union[OF paired_purpose paired], rotated]) (simp add: quiet_def)
qed

lemma recheck_candidate_carries:
  assumes ok: "pool_ok p (add_mset (Seen f) (purpose_rights purpose + M))" and paired: "paired M"
    and writers: "writers U M" and saved: "all_saved disk U p" and step: "recheck_candidate purpose f victim p = (t, p')"
  shows "carries disk U M {} p t p'"
proof -
  have ok1: "pool_ok p (purpose_rights purpose + M)" using drop_right[OF ok] by blast
  have f: "f \<in> frame_ids p" using pool_okD(6)[OF ok, of "Seen f"] by simp
  show ?thesis
    using step acquire_pass_carries[OF ok1 paired writers saved, of True]
      reserve_victim_carries[OF ok1 paired writers saved f, of t p']
    by (auto simp: recheck_candidate_def split: if_splits)
qed

text \<open>Dropping a cached page whose bytes the device has.\<close>

lemma finish_eviction_carries:
  assumes ok: "pool_ok p (eviction_rights f victim io + (purpose_rights purpose + M))" and paired: "paired M"
    and saved: "all_saved disk U p" and disk: "disk victim = Some (sealed p f)"
    and step: "finish_eviction purpose f victim p = (t, p')"
  shows "carries disk U M {} p t p'"
proof -
  let ?e = "\<lparr>pt_state = PT_EVICTING, pt_frame_id = f, pt_load = None\<rparr>"
  let ?p = "ResetFrame f (erase_entry victim p)"
  have ok1: "pool_ok p (add_mset (Own_Entry victim ?e) (add_mset (Own_Frame f EVICTING io victim) (purpose_rights purpose + M)))"
    using ok by (simp add: eviction_rights_def add_mset_commute)
  have own: "pool_ok p (add_mset (Own_Frame f EVICTING io victim) (add_mset (Own_Entry victim ?e) (purpose_rights purpose + M)))"
    using ok by (simp add: eviction_rights_def)
  note f = owned_frame(1)[OF own]
  have victim: "cached p victim = Some f" using owned_entry(1)[OF ok1] by (simp add: cached_def)
  note ok2 = reset_owned[OF erase_owned_entry[OF ok1]]
  have kept: "kept {f} p ?p" using kept_reset(1)[of f "erase_entry victim p"] by (simp add: kept_def)
  have saved1: "all_saved disk U ?p"
    by (rule all_saved_kept[OF saved kept]) (use f reset_frame_at[of f "erase_entry victim p"] in \<open>auto intro!: saved_fresh\<close>)
  show ?thesis
  proof (rule carries_trans[OF kept _ _ acquired_carries[OF ok2 paired saved1]])
    show "unclaimed {f} M"
      using owned_frame(5)[OF own] by (auto simp: unclaimed_def)
    show "acquired purpose f ?p = (t, p')" using step by (simp add: finish_eviction_def)
    show "current ?p disk pid = current p disk pid" for pid
    proof (cases "pid = victim")
      case True
      then show ?thesis using victim disk by (simp add: current_def cached_entry)
    next
      case False
      show ?thesis
      proof (rule current_kept[OF kept])
        show "cached ?p pid = cached p pid" using False by (simp add: cached_entry)
        fix f' assume c: "cached p pid = Some f'"
        have "paired (eviction_rights f victim io + (purpose_rights purpose + M))" using paired by (simp add: paired_rules)
        from cached_frame(1,2)[OF ok this] c victim False show "f' \<in> frame_ids p \<and> f' \<notin> {f}" by blast
      qed
    qed
  qed
qed

lemma start_eviction_carries:
  assumes ok: "pool_ok p (eviction_rights f victim IO_NONE + (purpose_rights purpose + M))" and paired: "paired M"
    and saved: "all_saved disk U p" and content: "acquire_content p disk (Reserved f victim)"
    and step: "start_eviction purpose f victim p = (t, p')"
  shows "carries disk U M {} p t p'"
proof (cases "bf_dirty (bp_frame p f)")
  case True
  have own: "pool_ok p (add_mset (Own_Frame f EVICTING IO_NONE victim)
      (add_mset (Own_Entry victim \<lparr>pt_state = PT_EVICTING, pt_frame_id = f, pt_load = None\<rparr>) (purpose_rights purpose + M)))"
    using ok by (simp add: eviction_rights_def)
  note f = owned_frame(1)[OF own]
  have p': "p' = set_frame f (\<lambda>fr. fr\<lparr>bf_io_state := WRITEBACK_IN_PROGRESS\<rparr>) p"
    and t: "t = Acquire purpose (Evict_Write f victim (contents p f))"
    using step True by (auto simp: start_eviction_def contents_def)
  have "quiet p p'" unfolding p' by (simp add: quiet_def) (rule kept_set_frame_calm; simp)
  moreover have "task_content p' disk U t" using f by (simp add: t p' contents_def bp_frame_set)
  ultimately show ?thesis using paired by (intro quiet_carries[OF ok _ saved]) (simp_all add: paired_rules)
next
  case False
  then show ?thesis using finish_eviction_carries[OF ok paired saved] content step by (simp add: start_eviction_def)
qed

lemma end_eviction_carries:
  assumes ok: "pool_ok p (eviction_rights f victim WRITEBACK_IN_PROGRESS + (purpose_rights purpose + M))"
    and paired: "paired M" and saved: "all_saved disk U p" and content: "acquire_content p disk (Evict_Done f victim written)"
    and step: "end_eviction purpose f victim written p = (t, p')"
  shows "carries disk U M {} p t p'"
proof -
  let ?p = "set_frame f (\<lambda>fr. fr\<lparr>bf_io_state := IO_NONE\<rparr>) p"
  let ?e = "\<lparr>pt_state = PT_EVICTING, pt_frame_id = f, pt_load = None\<rparr>"
  let ?e' = "\<lparr>pt_state = PT_RESIDENT, pt_frame_id = f, pt_load = None\<rparr>"
  have own: "pool_ok p (add_mset (Own_Frame f EVICTING WRITEBACK_IN_PROGRESS victim)
      (add_mset (Own_Entry victim ?e) (purpose_rights purpose + M)))"
    using ok by (simp add: eviction_rights_def)
  note of = owned_frame[OF own]
  have leg: "legal_frame (bp_frame p f)" using pool_okD(2)[OF own of(1)] by (simp add: frame_ok_def Let_def)
  have ok1: "pool_ok ?p (add_mset (Own_Frame f EVICTING IO_NONE victim)
      (add_mset (Own_Entry victim ?e) (purpose_rights purpose + M)))"
    by (rule set_owned_frame[OF own]) (use of leg in \<open>simp_all add: legal_frame_def\<close>)
  have fr: "bp_frame ?p f = (bp_frame p f)\<lparr>bf_io_state := IO_NONE\<rparr>" using of(1) by (simp add: bp_frame_set)
  have quiet: "quiet p ?p" by (simp add: quiet_def) (rule kept_set_frame_calm; simp)
  have saved1: "all_saved disk U ?p"
    by (rule all_saved_kept[OF saved, where X = "{}"]) (use quiet in \<open>simp_all add: quiet_def\<close>)
  have paired1: "paired (eviction_rights f victim WRITEBACK_IN_PROGRESS + (purpose_rights purpose + M))"
    using paired by (simp add: paired_rules)
  show ?thesis
  proof (cases written)
    case (Inr u)
    then have disk: "disk victim = Some (sealed ?p f)" using content fr by (simp add: sealed_def contents_def)
    have "pool_ok ?p (eviction_rights f victim IO_NONE + (purpose_rights purpose + M))"
      using ok1 by (simp add: eviction_rights_def)
    from finish_eviction_carries[OF this paired saved1 disk] show ?thesis
      using step Inr by (intro carries_quiet[OF ok paired1 quiet]) (simp add: end_eviction_def Let_def)
  next
    case (Inl e)
    let ?q = "put_entry victim ?e' (set_frame f (\<lambda>fr. fr\<lparr>bf_state := RESIDENT\<rparr>) ?p)"
    have ent: "find_entry ?p victim = Some ?e"
      using owned_entry(1) ok1[unfolded add_mset_commute[of "Own_Frame f EVICTING IO_NONE victim"]] .
    then have victim: "cached p victim = Some f" by (simp add: cached_def)
    have place: "entry_place ?p (purpose_rights purpose + M) victim ?e'"
      using entry_place_ok[OF ok1 ent] by (auto simp: entry_place_def)
    have "pool_ok ?q (replicate_mset 0 (Pinned f) + (purpose_rights purpose + M))"
      by (rule publish_frame[OF ok1 _ _ _ _ _ _ _ HOL.refl place]) (use of leg fr in \<open>auto simp: legal_frame_def\<close>)
    then have ok2: "pool_ok ?q (purpose_rights purpose + M)" by simp
    have frq: "bp_frame ?q f = (bp_frame p f)\<lparr>bf_io_state := IO_NONE, bf_state := RESIDENT\<rparr>"
      using of(1) fr by (simp add: bp_frame_set)
    have "kept ({f} \<union> {f}) p (set_frame f (\<lambda>fr. fr\<lparr>bf_state := RESIDENT\<rparr>) ?p)"
      by (rule kept_trans[OF kept_set_frame kept_set_frame])
    then have kept: "kept {f} p ?q" by simp
    have dirty: "bf_dirty (bp_frame p f)" using leg of(6) by (simp add: legal_frame_def)
    have saved2: "all_saved disk U ?q"
      by (rule all_saved_kept[OF saved kept])
        (use saved dirty frq of(1) in \<open>auto simp: all_saved_def saved_def contents_def\<close>)
    have "acquire_failed purpose (e\<lparr>be_message := ''eviction writeback failed: '' @ be_message e\<rparr>) ?q = (t, p')"
      using step ent Inl by (simp add: end_eviction_def Let_def)
    from acquire_failed_quiet[OF ok2 this] have "carries disk U M {} ?q t p'"
      using paired by (intro quiet_carries[OF ok2 _ saved2]) (simp_all add: paired_rules)
    then show ?thesis
    proof (rule carries_trans[OF kept, rotated -1])
      show "unclaimed {f} M" using of(5) by (auto simp: unclaimed_def)
      have same: "cached ?q = cached p" using victim by (auto simp: cached_entry fun_upd_idem_iff)
      have "sealed ?q f' = sealed p f'" if "f' \<in> frame_ids p" for f'
        using contents_kept[OF kept that] frq by (cases "f' = f") (auto simp: sealed_def contents_def)
      then show "current ?q disk pid = current p disk pid" for pid
        using cached_frame(1)[OF ok paired1] by (auto simp: current_def same split: option.splits)
    qed
  qed
qed

end
