(* ===== verification/Pool_Carry_Files.thy ===== *)
theory Pool_Carry_Files
  imports Pool_Carry
begin

text \<open>The sections of loads, page creations, flushes and file closings carry the contents along.\<close>

lemma bp_frame_release [simp]:
  "bp_frame (ReleaseFrameToFreeList f p) = bp_frame p" "bp_frame (finish_new fid p) = bp_frame p"
  by (simp_all add: ReleaseFrameToFreeList_def finish_new_def split: option.splits)

lemma saved_finish_new [simp]: "saved disk U (finish_new fid p) = saved disk U p"
  by (simp add: finish_new_def split: option.splits)

lemma kept_from [simp]:
  "kept X (put_entry pid e p) p' = kept X p p'" "kept X (erase_entry pid p) p' = kept X p p'"
  "kept X (put_file fid fe p) p' = kept X p p'"
  by (simp_all add: kept_def)

section \<open>Fetching and loading\<close>

lemma pin_page_quiet:
  assumes step: "pin_page page_id mode notified p = Some (t, p')"
  shows "quiet p p' \<and> plain t"
proof (cases "CheckFetchableLocked p page_id")
  case (Inl e)
  then show ?thesis using step by (auto simp: pin_page_def)
next
  case (Inr u)
  show ?thesis
  proof (cases "find_entry p page_id")
    case None
    then have "cached p page_id = None" by (simp add: cached_def)
    then show ?thesis using step Inr None
      by (auto simp: pin_page_def LoadPage_def Let_def quiet_def cached_entry fun_upd_idem_iff)
  next
    case (Some e)
    have join: "quiet p q \<and> plain s" if "JoinLoad page_id mode (pt_load e) p = (s, q)" for s q
      using that by (auto simp: JoinLoad_def quiet_def split: option.splits if_splits)
    have "quiet p q" if "PinResidentLocked f page_id p = (r, q)" for f r q
      using that by (auto simp: PinResidentLocked_def quiet_def intro!: kept_set_frame_calm split: if_splits)
    then show ?thesis using step Inr Some join
      by (auto simp: pin_page_def split: PageTableEntryState.splits if_splits prod.splits sum.splits)
  qed
qed

lemma join_load_quiet: "join_load l mode p = Some (t, p') \<Longrightarrow> quiet p p' \<and> plain t"
  by (auto simp: join_load_def Let_def split: if_splits option.splits)

lemma set_bytes_at:
  assumes "f \<in> frame_ids p"
  shows "contents (set_bytes f bytes p) f = bytes" and "bf_state (bp_frame (set_bytes f bytes p) f) = bf_state (bp_frame p f)"
  using assms by (simp_all add: contents_def set_bytes_def bp_frame_set)

lemma set_bytes_carries:
  assumes ok: "pool_ok p (add_mset (Own_Frame f st io pid0) (A + M))" and paired: "paired (A + M)" and st: "st \<noteq> EVICTING"
    and saved: "all_saved disk U p" and len: "length bytes = 8192" and content: "task_content (set_bytes f bytes p) disk U t"
  shows "carries disk U M E p t (set_bytes f bytes p)"
  by (rule own_frame_carries[OF ok paired st saved kept_reset(3) _ content])
    (use owned_frame(1-3)[OF ok] set_bytes_at[of f p] len in \<open>auto intro!: saved_fresh\<close>)

lemma put_subspan: "off + n \<le> length bs \<Longrightarrow> put off (subspan off n bs) bs = bs"
  by (simp add: put_def subspan_def take_drop add.commute)
    (metis append_take_drop_id drop_drop add.commute take_drop)

lemma Finalize_verified: "length bs = 8192 \<Longrightarrow> VerifyPageChecksum bs \<Longrightarrow> FinalizePageChecksum bs = bs"
  using put_subspan[of 16 4 bs] by (simp add: FinalizePageChecksum_eq VerifyPageChecksum_eq)

lemma validated_sealed:
  assumes "ValidateLoadedPage pg validator True = VALID" and "length (Page_bytes pg) = 8192"
  shows "FinalizePageChecksum (Page_bytes pg) = Page_bytes pg"
  using assms by (intro Finalize_verified) (auto simp: ValidateLoadedPage_def split: if_splits)

lemma finish_load_carries:
  assumes ok: "pool_ok p (task_rights (Load page_id l mode f validator point) + M)" and paired: "paired M"
    and saved: "all_saved disk U p" and content: "load_content p disk page_id f (Load_Done read outcome)"
    and step: "finish_load page_id l mode f read outcome p = (t, p')"
  shows "carries disk U M {} p t p'"
proof -
  let ?e = "\<lparr>pt_state = PT_LOADING, pt_frame_id = f, pt_load = Some l\<rparr>"
  let ?A = "{#Own_Entry page_id ?e, Own_Load l page_id#}"
  have own: "pool_ok p (add_mset (Own_Frame f LOADING READ_IN_PROGRESS page_id) (?A + M))" using ok by simp
  have paired1: "paired (?A + M)" using paired by (auto intro!: paired_add)
  note of = owned_frame[OF own]
  have "pool_ok p (add_mset (Own_Entry page_id ?e) (add_mset (Own_Frame f LOADING READ_IN_PROGRESS page_id)
      (add_mset (Own_Load l page_id) M)))" using own by (simp add: add_mset_commute)
  note ent = owned_entry(1)[OF this]
  then have none: "cached p page_id = None" by (simp add: cached_def)
  show ?thesis
  proof (cases "LoadFailureLocked p page_id read outcome")
    case None
    then have "p' = p" "plain t" using step by (simp_all add: finish_load_def)
    then show ?thesis using saved by (intro carriesI[where X = "{}"]) (simp_all add: all_saved_def)
  next
    case (Some failure)
    show ?thesis
    proof (cases failure)
      case failed: (Some err)
      have t: "plain t" using step Some failed by (auto simp: finish_load_def fail_load_def Let_def)
      have p': "kept {f} p p'" "cached p' = (cached p)(page_id := None)" "saved disk U p' f"
        using step Some failed kept_reset(1)[of f p] reset_frame_at[OF of(1)]
        by (auto simp: finish_load_def fail_load_def Let_def cached_entry intro!: saved_fresh)
      show ?thesis
        by (rule own_frame_carries[OF own paired1 _ saved p'(1,3)])
          (use t p'(2) none in \<open>auto simp: fun_upd_idem_iff\<close>)
    next
      case loaded: None
      have valid: "read = Ok () \<and> outcome = VALID"
        using Some loaded by (cases outcome) (auto simp: LoadFailureLocked_def split: sum.splits if_splits)
      then have disk: "disk page_id = Some (sealed p f)" using content by simp
      let ?c = "\<lambda>fr. fr\<lparr>bf_state := RESIDENT, bf_io_state := IO_NONE, bf_pin_count := lo_claims (bp_loads p ! l)\<rparr>"
      have t: "t = Latch f mode" and p': "kept {f} p p'" "cached p' = (cached p)(page_id \<mapsto> f)"
          "bp_frame p' f = ?c (bp_frame p f)"
        using step Some loaded ent kept_set_frame[of f p ?c] of(1)
        by (auto simp: finish_load_def PublishLoadLocked_def Let_def cached_entry bp_frame_set)
      have sealed: "sealed p' f = sealed p f" "length (contents p' f) = 8192"
        using p'(3) saved of(1) by (auto simp: sealed_def contents_def all_saved_def saved_def)
      have mine: "saved disk U p' f"
        using sealed disk p'(3) of(7) by (simp add: saved_def)
      have "carries disk U M {page_id} p t p'"
        by (rule own_frame_carries[OF own paired1 _ saved p'(1) mine]) (use t p'(2) in auto)
      moreover have "current p' disk page_id = current p disk page_id"
        using p'(2) none disk sealed(1) by (simp add: current_def)
      ultimately show ?thesis unfolding carries_def by (metis insertE empty_iff)
    qed
  qed
qed

section \<open>New pages\<close>

lemma new_page_carries:
  assumes ok: "pool_ok p M" and paired: "paired M" and writers: "writers U M" and saved: "all_saved disk U p"
    and step: "new_page fid initializer p = Some (t, p')"
  shows "carries disk U M {} p t p'"
proof (cases "WaitForNewPageTurn fid p")
  case None
  then show ?thesis using step by (simp add: new_page_def)
next
  case (Some turn)
  show ?thesis
  proof (cases turn)
    case (Inl e)
    then have "p' = p" "plain t" using step Some by (auto simp: new_page_def)
    then show ?thesis using quiet_carries[OF ok paired saved, of p t] by simp
  next
    case (Inr u)
    then obtain fe where fe: "find_file p fid = Some fe" "fe_state fe = ACTIVE" "\<not> fe_new_page_in_progress fe"
      using Some by (auto simp: WaitForNewPageTurn_def Let_def split: if_splits option.splits)
    let ?p = "put_file fid (fe\<lparr>fe_new_page_in_progress := True\<rparr>) p"
    have ok1: "pool_ok ?p (purpose_rights (For_New fid initializer) + M)" using begin_creation[OF ok fe] by simp
    have "carries disk U M {} ?p t p'"
      by (rule acquire_pass_carries[OF ok1 paired writers])
        (use saved step Some Inr fe in \<open>simp_all add: new_page_def all_saved_def\<close>)
    then show ?thesis by (rule carries_quiet[OF ok paired, rotated]) (simp add: quiet_def)
  qed
qed

lemma bind_new_page_carries:
  assumes ok: "pool_ok p ({#Creation fid None, Own_Frame f FREE IO_NONE default_PageId#} + M)" and paired: "paired M"
    and saved: "all_saved disk U p" and step: "bind_new_page fid initializer f reserved p = (t, p')"
  shows "carries disk U M {} p t p'"
proof -
  have own: "pool_ok p (add_mset (Own_Frame f FREE IO_NONE default_PageId) ({#Creation fid None#} + M))"
    using ok by (simp add: add_mset_commute)
  have paired1: "paired ({#Creation fid None#} + M)" using paired by (auto intro!: paired_add)
  note f = owned_frame(1)[OF own]
  have shut: "carries disk U M {} p t p'" if "quiet p p'" "plain t"
    by (rule quiet_carries[OF own _ saved that(1)]) (use paired1 that(2) in \<open>auto intro!: paired_add\<close>)
  have t: "plain t"
    using step by (auto simp: bind_new_page_def Let_def split: option.splits sum.splits if_splits)
  show ?thesis
  proof (cases "\<exists>n fe. reserved = Ok n \<and> find_file p fid = Some fe \<and> n \<noteq> 0 \<and> n = fe_published_page_count fe")
    case False
    then have "quiet p p'"
      using step by (auto simp: bind_new_page_def Let_def quiet_def split: option.splits sum.splits if_splits)
    then show ?thesis using shut t by simp
  next
    case True
    then obtain fe where fe: "reserved = Ok (fe_published_page_count fe)" "find_file p fid = Some fe"
      "fe_published_page_count fe \<noteq> 0" by auto
    let ?pid = "PageId fid (fe_published_page_count fe)"
    let ?e = "\<lparr>pt_state = PT_LOADING, pt_frame_id = f, pt_load = None\<rparr>"
    have p': "p' = (if find_entry p ?pid = None then put_entry ?pid ?e (bind_frame f ?pid IO_NONE p)
        else bind_frame f ?pid IO_NONE p)"
      using step fe by (auto simp: bind_new_page_def Let_def bind_frame_def)
    have "find_entry p ?pid = None \<Longrightarrow> cached p ?pid = None" by (simp add: cached_def)
    then show ?thesis unfolding p'
      by (intro own_frame_carries[OF own paired1 _ saved])
        (use t f in \<open>auto simp: cached_entry kept_reset bind_frame_at fun_upd_idem_iff intro!: saved_fresh\<close>)
  qed
qed

text \<open>A new page appears with the bytes its initializer gave it.\<close>

lemma publish_new_page_carries:
  assumes ok: "pool_ok p (building_rights fid f page_id + M)" and paired: "paired M" and saved: "all_saved disk U p"
    and step: "publish_new_page fid f page_id built outcome p = (t, p')"
  shows "carries disk U M {page_id} p t p'"
proof -
  let ?e = "\<lparr>pt_state = PT_LOADING, pt_frame_id = f, pt_load = None\<rparr>"
  let ?A = "{#Creation fid (Some page_id), Own_Entry page_id ?e#}"
  have own: "pool_ok p (add_mset (Own_Frame f LOADING IO_NONE page_id) (?A + M))"
    using ok by (simp add: building_rights_def add_mset_commute)
  have paired1: "paired (?A + M)" using paired by (auto intro!: paired_add)
  note of = owned_frame[OF own]
  have t: "plain t" using step by (auto simp: publish_new_page_def Let_def split: option.splits if_splits)
  have len: "length (contents p f) = 8192" using saved of(1) by (auto simp: all_saved_def saved_def)
  show ?thesis
  proof (cases "find_file p fid")
    case None
    then have "p' = p" using step by (simp add: publish_new_page_def)
    then show ?thesis using saved t by (intro carriesI[where X = "{}"]) (simp_all add: all_saved_def)
  next
    case (Some fe)
    show ?thesis
    proof (cases "\<not> built \<or> outcome \<noteq> VALID \<or> fe_state fe \<noteq> ACTIVE")
      case True
      have p': "p' = finish_new fid (ReleaseFrameToFreeList f (ResetFrame f (erase_entry page_id p)))"
        using step Some True by (auto simp: publish_new_page_def Let_def)
      have "kept {f} p (ResetFrame f (erase_entry page_id p))" using kept_reset(1)[of f "erase_entry page_id p"] by simp
      then show ?thesis unfolding p'
        by (intro own_frame_carries[OF own paired1 _ saved])
          (use t of(1) reset_frame_at[of f "erase_entry page_id p"] in
            \<open>auto simp: cached_entry intro!: saved_fresh\<close>)
    next
      case False
      have "pool_ok p (add_mset (Own_Entry page_id ?e)
          (add_mset (Own_Frame f LOADING IO_NONE page_id) (add_mset (Creation fid (Some page_id)) M)))"
        using ok by (simp add: building_rights_def add_mset_commute)
      note ent = owned_entry(1)[OF this]
      let ?p1 = "put_file fid (fe\<lparr>fe_published_page_count := page_no page_id + 1\<rparr>) p"
      let ?c = "\<lambda>fr. fr\<lparr>bf_state := RESIDENT, bf_pin_count := 1, bf_dirty := True,
        bf_modification_generation := bf_modification_generation fr + 1\<rparr>"
      have p': "p' = finish_new fid (put_entry page_id (?e\<lparr>pt_state := PT_RESIDENT\<rparr>)
          ((set_frame f ?c ?p1)\<lparr>bp_replacer := SetReferenced (bp_replacer p) f\<rparr>))"
        using step Some False ent by (auto simp: publish_new_page_def Let_def)
      have "kept {f} p (set_frame f ?c ?p1)" using kept_set_frame[of f ?p1 ?c] by simp
      moreover have "saved disk U p' f"
        using len of(1) by (simp add: p' saved_def contents_def bp_frame_set)
      ultimately show ?thesis
        by (intro own_frame_carries[OF own paired1 _ saved]) (use t in \<open>auto simp: p' cached_entry\<close>)
    qed
  qed
qed

section \<open>Closing a file\<close>

lemma close_page_kept:
  "kept {pt_frame_id e} p (close_page (pid, e) p)"
  "pt_frame_id e \<in> frame_ids p \<Longrightarrow> contents (close_page (pid, e) p) (pt_frame_id e) = replicate 8192 0 \<and>
     bf_state (bp_frame (close_page (pid, e) p) (pt_frame_id e)) = FREE"
  using kept_reset(1)[of "pt_frame_id e" "erase_entry pid p"] reset_frame_at[of "pt_frame_id e" "erase_entry pid p"]
  by (simp_all add: close_page_def)

lemma close_pages_kept:
  "kept (pt_frame_id ` snd ` set xs) p (fold close_page xs p) \<and>
   (\<forall>f \<in> pt_frame_id ` snd ` set xs. f \<in> frame_ids p \<longrightarrow>
      length (contents (fold close_page xs p) f) = 8192 \<and> bf_state (bp_frame (fold close_page xs p) f) \<noteq> RESIDENT)"
proof (induction xs arbitrary: p)
  case (Cons x xs)
  obtain pid e where x: "x = (pid, e)" by fastforce
  let ?q = "close_page (pid, e) p"
  have k: "kept {pt_frame_id e} p ?q" by (rule close_page_kept)
  have rest: "kept (pt_frame_id ` snd ` set xs) ?q (fold close_page xs ?q)"
    "f \<in> pt_frame_id ` snd ` set xs \<Longrightarrow> f \<in> frame_ids p \<Longrightarrow>
      length (contents (fold close_page xs ?q) f) = 8192 \<and> bf_state (bp_frame (fold close_page xs ?q) f) \<noteq> RESIDENT" for f
    using Cons.IH[of ?q] frame_ids_kept[OF k] by blast+
  have "length (contents (fold close_page xs ?q) (pt_frame_id e)) = 8192 \<and>
      bf_state (bp_frame (fold close_page xs ?q) (pt_frame_id e)) \<noteq> RESIDENT" if f: "pt_frame_id e \<in> frame_ids p"
  proof (cases "pt_frame_id e \<in> pt_frame_id ` snd ` set xs")
    case True
    then show ?thesis using rest(2) f by blast
  next
    case False
    have f': "pt_frame_id e \<in> frame_ids ?q" using f frame_ids_kept[OF k] by simp
    show ?thesis
      using contents_kept[OF rest(1) f' False] close_page_kept(2)[OF f, of pid] rest(1) f' False
      unfolding kept_def by auto
  qed
  then show ?case using kept_trans[OF k rest(1)] rest(2) by (auto simp: x)
qed simp

lemma close_file_carries:
  assumes ok: "pool_ok p (add_mset r0 M)" and r0: "retires fid r0" and paired: "paired M" and saved: "all_saved disk U p"
    and idle: "idle_file p fid" and plain: "plain t"
    and E: "\<And>pid f. file_id pid = fid \<Longrightarrow> pid \<notin> E \<Longrightarrow> cached p pid = Some f \<Longrightarrow> disk pid = Some (sealed p f)"
  shows "carries disk U M E p t (close_file fid p)"
proof -
  let ?xs = "filter (\<lambda>(pid, e). file_id pid = fid) (bp_page_table p)"
  let ?p = "fold close_page ?xs p" and ?X = "pt_frame_id ` snd ` set ?xs"
  let ?q = "?p\<lparr>bp_files := AList.delete fid (bp_files ?p)\<rparr>"
  have q: "close_file fid p = ?q" by (simp add: close_file_def Let_def)
  have shape: "shape_ok p" by (rule pool_okD(1)[OF ok])
  have dist: "distinct (map fst ?xs)" using shape by (simp add: shape_ok_def distinct_map_filter)
  have mem: "(pid, e) \<in> set ?xs \<longleftrightarrow> find_entry p pid = Some e \<and> file_id pid = fid" for pid e
    using find_entry_mem[OF shape] by auto
  have entry: "find_entry ?p pid = (if pid \<in> fst ` set ?xs then None else find_entry p pid)" for pid
    using close_pages_ok[OF ok idle dist] mem by blast
  have "pid \<in> fst ` set ?xs \<longleftrightarrow> find_entry p pid \<noteq> None \<and> file_id pid = fid" for pid
    using mem[of pid] by (force simp: image_iff)
  then have cached: "cached ?q pid = (if file_id pid = fid then None else cached p pid)" for pid
    using entry[of pid] by (auto simp: cached_def find_entry_def)
  have kept: "kept ?X p ?q" using close_pages_kept[of ?xs p] by (simp add: kept_def bp_frame_def)
  have frame: "f \<in> frame_ids p \<and> bf_state (bp_frame p f) = RESIDENT \<and> bf_io_state (bp_frame p f) = IO_NONE \<and>
      file_id (Page_id (bf_page (bp_frame p f))) = fid" if "f \<in> ?X" for f
  proof -
    obtain pid e where e: "(pid, e) \<in> set ?xs" "f = pt_frame_id e" using \<open>f \<in> ?X\<close> by auto
    then have e': "find_entry p pid = Some e" "file_id pid = fid" using mem by auto
    then have "pt_state e = PT_RESIDENT" "bf_io_state (bp_frame p f) = IO_NONE" using idle e(2) by (auto simp: idle_file_def)
    then show ?thesis using resident_entry[OF ok e'(1)] e(2) e'(2) by simp
  qed
  have paired1: "paired (add_mset r0 M)" using r0 by (intro paired_add[OF _ paired]) auto
  show ?thesis unfolding q
  proof (rule carriesI[OF kept])
    show "unclaimed ?X M" unfolding unclaimed_def
    proof (intro ballI)
      fix f r assume f: "f \<in> ?X" and r: "r \<in># M"
      have "frame_ok p (add_mset r0 M) f" using pool_okD(2)[OF ok] frame[OF f] by blast
      then have "held (writes_back f) M = 0" using frame[OF f] by (auto simp: frame_ok_def Let_def split: if_splits)
      then show "\<not> owns_frame f r \<and> \<not> writes_back f r"
        using resident_frame(3)[OF ok, of f r] frame[OF f] r by (auto simp: held_zero)
    qed
    show "saved disk U ?q f" if "f \<in> frame_ids p" for f
    proof (cases "f \<in> ?X")
      case True
      then have "length (contents ?p f) = 8192 \<and> bf_state (bp_frame ?p f) \<noteq> RESIDENT"
        using close_pages_kept[of ?xs p] that by blast
      then show ?thesis by (intro saved_fresh) (simp_all add: contents_def bp_frame_def)
    next
      case False
      then show ?thesis using saved_kept[OF kept that] saved that unfolding all_saved_def by blast
    qed
    show "task_content ?q disk U t" using plain by simp
    show "current ?q disk pid = current p disk pid" if "pid \<notin> E" for pid
    proof (cases "file_id pid = fid")
      case True
      then show ?thesis using E[OF True that] cached[of pid] by (auto simp: current_def split: option.splits)
    next
      case False
      show ?thesis
      proof (rule current_kept[OF kept])
        show "cached ?q pid = cached p pid" using cached False by simp
        fix f assume "cached p pid = Some f"
        then show "f \<in> frame_ids p \<and> f \<notin> ?X" using cached_frame(1,2)[OF ok paired1] frame[of f] False by auto
      qed
    qed
  qed
qed

lemma idle_cached:
  assumes ok: "pool_ok p R" and idle: "idle_file p fid" and "file_id pid = fid" and c: "cached p pid = Some f"
  shows "f \<in> frame_ids p" and "bf_state (bp_frame p f) = RESIDENT" and "bf_pin_count (bp_frame p f) = 0"
    and "find_entry p pid = Some \<lparr>pt_state = PT_RESIDENT, pt_frame_id = f, pt_load = None\<rparr>"
    and "Page_id (bf_page (bp_frame p f)) = pid"
proof -
  obtain e where e: "find_entry p pid = Some e" "pt_frame_id e = f"
    using c by (auto simp: cached_def bind_eq_Some_conv split: if_splits)
  then have i: "pt_state e = PT_RESIDENT" "bf_pin_count (bp_frame p f) = 0" using idle assms(3) by (auto simp: idle_file_def)
  note re = resident_entry[OF ok e(1) i(1)]
  then show "f \<in> frame_ids p" "bf_state (bp_frame p f) = RESIDENT" "bf_pin_count (bp_frame p f) = 0"
    "find_entry p pid = Some \<lparr>pt_state = PT_RESIDENT, pt_frame_id = f, pt_load = None\<rparr>"
    "Page_id (bf_page (bp_frame p f)) = pid"
    using e i by (cases e; simp)+
qed

lemma end_flush_carries:
  assumes ok: "pool_ok p (after_rights after [] failure + M)" and paired: "paired M" and writers: "writers U M"
    and saved: "all_saved disk U p" and step: "end_flush failure after p = (t, p')"
  shows "carries disk U M {} p t p'"
proof -
  have paired1: "paired (after_rights after [] failure + M)"
    using paired by (cases after) (auto intro!: paired_add)
  show ?thesis
  proof (cases "\<exists>fid. after = Close_File fid \<and> failure = Ok ()")
    case False
    then have "p' = p" "plain t" using step by (auto simp: end_flush_def split: After_Flush.splits sum.splits)
    then show ?thesis using quiet_carries[OF ok paired1 saved, of p t] by simp
  next
    case True
    then obtain fid where after: "after = Close_File fid" "failure = Ok ()" by auto
    then have c: "pool_ok p (add_mset (Closing fid {} True) M)" using ok by simp
    note idle = closing_idle[OF c]
    have "carries disk U M {} p (Returned (Ok ())) (close_file fid p)"
    proof (rule close_file_carries[OF c _ paired saved idle])
      fix pid f assume fid: "file_id pid = fid" and f: "cached p pid = Some f"
      note i = idle_cached[OF c idle fid f]
      have "\<not> bf_dirty (bp_frame p f)"
        using pool_okD(6)[OF c, of "Closing fid {} True"] i(4) fid
        by (fastforce simp: closing_ok_def)
      moreover have "f \<notin> U" using writer_frame(2)[OF c writers] i(3) by auto
      ultimately show "disk pid = Some (sealed p f)" using saved i by (auto simp: all_saved_def saved_def)
    qed simp_all
    then show ?thesis using step after by (simp add: end_flush_def)
  qed
qed

section \<open>Flushing\<close>

lemma flush_pages_carries:
  "pool_ok p (after_rights after pages failure + M) \<Longrightarrow> paired M \<Longrightarrow> writers U M \<Longrightarrow> all_saved disk U p \<Longrightarrow>
    flush_pages pages failure operation after p = (t, p') \<Longrightarrow> carries disk U M {} p t p'"
proof (induction pages failure operation after p rule: flush_pages.induct)
  case (1 failure operation after p)
  then show ?case using end_flush_carries[of p after failure M U disk t p'] by simp
next
  case (2 page_id rest failure operation after p)
  note ok = "2.prems"(1) and paired = "2.prems"(2) and saved = "2.prems"(4) and step = "2.prems"(5)
  note skip = skip_page[OF ok] and IH = "2.IH"
  have paired1: "paired (after_rights after (page_id # rest) failure + M)"
    using paired by (cases after) (auto intro!: paired_add)
  have wait: "carries disk U M {} p (Flushing job Flush_Next) p" for job
    by (rule quiet_carries[OF ok paired1 saved]) simp_all
  show ?case
  proof (cases "find_entry p page_id")
    case None
    then show ?thesis using IH(1)[OF HOL.refl None _ "2.prems"(2-4)] skip step by simp
  next
    case (Some e)
    show ?thesis
    proof (cases "pt_state e")
      case PT_RESIDENT
      let ?f = "pt_frame_id e"
      note re = resident_entry[OF ok Some PT_RESIDENT]
      show ?thesis
      proof (cases "bf_dirty (bp_frame p ?f)")
        case False
        then show ?thesis
          using IH(4)[OF HOL.refl Some PT_RESIDENT HOL.refl HOL.refl False _ "2.prems"(2-4)] skip step Some PT_RESIDENT by simp
      next
        case dirty: True
        show ?thesis
        proof (cases "bf_io_state (bp_frame p ?f) = IO_NONE")
          case True
          have "quiet p (set_frame ?f (\<lambda>fr. fr\<lparr>bf_io_state := WRITEBACK_IN_PROGRESS\<rparr>) p)"
            by (simp add: quiet_def) (rule kept_set_frame_calm; simp)
          then show ?thesis using quiet_carries[OF ok paired1 saved] step Some PT_RESIDENT dirty True
            by (auto simp: Let_def)
        next
          case False
          then show ?thesis using wait step Some PT_RESIDENT dirty by (auto simp: Let_def)
        qed
      qed
    next
      case PT_EVICTING
      then show ?thesis using wait step Some by (auto simp: Let_def)
    next
      case PT_LOAD_INTENT
      then show ?thesis using IH(2)[OF HOL.refl Some PT_LOAD_INTENT _ "2.prems"(2-4)] skip step Some by simp
    next
      case PT_LOADING
      then show ?thesis using IH(3)[OF HOL.refl Some PT_LOADING _ "2.prems"(2-4)] skip step Some by simp
    qed
  qed
qed

lemma reconcile_carries:
  assumes ok: "pool_ok p (add_mset (Writeback f page_id epoch) (job_rights job + M))" and paired: "paired M"
    and writers: "writers U M" and saved: "all_saved disk U p"
    and content: "flush_content p disk U (Reconcile f page_id epoch generation written)"
    and step: "reconcile job f page_id epoch generation written p = (t, p')"
  shows "carries disk U M {} p t p'"
proof -
  let ?p = "set_frame f (\<lambda>fr. fr\<lparr>bf_io_state := IO_NONE\<rparr>) p"
  let ?c = "set_frame f (\<lambda>fr. fr\<lparr>bf_dirty := False\<rparr>) ?p"
  let ?clean = "written = Ok () \<and> Page_id (bf_page (bp_frame ?p f)) = page_id \<and>
    bf_binding_epoch (bp_frame ?p f) = epoch \<and> bf_modification_generation (bp_frame ?p f) = generation"
  let ?q = "if ?clean then ?c else ?p"
  let ?job = "case written of Ok _ \<Rightarrow> job | Unexpected e \<Rightarrow> job\<lparr>fj_pages := tl (fj_pages job),
     fj_failure := (case fj_failure job of Ok _ \<Rightarrow> Unexpected e | Unexpected e' \<Rightarrow> Unexpected e')\<rparr>"
  note wb = writeback_resident[OF ok, of f page_id epoch, simplified]
  have f: "f \<in> frame_ids p" using wb(3) by simp
  have right: "Page_id (bf_page (bp_frame p f)) = page_id"
    using pool_okD(6)[OF ok, of "Writeback f page_id epoch"] by simp
  have ok1: "pool_ok ?p (job_rights job + M)" by (rule end_writeback[OF ok])
  have fr: "bp_frame ?p f = (bp_frame p f)\<lparr>bf_io_state := IO_NONE\<rparr>" using f by (simp add: bp_frame_set)
  have ok2: "pool_ok ?c (job_rights job + M)" by (rule mark_clean[OF ok1]) (use wb fr in simp_all)
  have okq: "pool_ok ?q (job_rights job + M)" using ok1 ok2 by simp
  have okj: "pool_ok ?q (job_rights ?job + M)"
  proof (cases written)
    case (Inl e)
    then show ?thesis using weaken_closing[OF okq, of "fj_failure ?job" "tl (fj_pages job)"] by (auto split: sum.splits)
  qed (use okq in simp)
  have go: "flush_next ?job ?q = (t, p')" using step by (cases written) (simp_all add: reconcile_def Let_def)
  have kept: "kept {f} p ?q"
  proof (cases ?clean)
    case True
    have "kept ({f} \<union> {f}) p ?c" by (rule kept_trans[OF kept_set_frame kept_set_frame])
    then show ?thesis using True by simp
  next
    case False
    have "?q = ?p" by (rule if_not_P[OF False])
    then show ?thesis by (simp only: kept_set_frame)
  qed
  have frq: "bp_frame ?q f = (bp_frame p f)\<lparr>bf_io_state := IO_NONE, bf_dirty := (\<not> ?clean \<and> bf_dirty (bp_frame p f))\<rparr>"
    using f fr by (simp add: bp_frame_set)
  have mine: "saved disk U ?q f"
  proof (cases ?clean)
    case True
    then have "f \<notin> U \<longrightarrow> disk page_id = Some (sealed p f)" using content fr by (auto simp: copied_def)
    then show ?thesis using saved f right frq by (simp add: all_saved_def saved_def sealed_def contents_def)
  next
    case False
    then have "bp_frame ?q f = (bp_frame p f)\<lparr>bf_io_state := IO_NONE\<rparr>" using frq by simp
    then show ?thesis using saved f by (simp add: all_saved_def saved_def sealed_def contents_def)
  qed
  have saved1: "all_saved disk U ?q" by (rule all_saved_kept[OF saved kept]) (use mine in simp)
  have paired1: "paired (add_mset (Writeback f page_id epoch) (job_rights job + M))"
    using paired by (cases "fj_after job") (auto intro!: paired_add)
  show ?thesis
  proof (rule carries_trans[OF kept])
    show "carries disk U M {} ?q t p'"
      using flush_pages_carries[OF okj paired writers saved1] go by (simp add: flush_next_def)
    have "frame_ok p (add_mset (Writeback f page_id epoch) (job_rights job + M)) f" by (rule pool_okD(2)[OF ok f])
    then have "held (writes_back f) M = 0" "held (owns_frame f) M = 0"
      using wb(1,2) by (auto simp: frame_ok_def Let_def)
    then show "unclaimed {f} M" by (auto simp: unclaimed_def held_zero)
    have "sealed ?q f' = sealed p f'" if "f' \<in> frame_ids p" for f'
      using contents_kept[OF kept that] frq by (cases "f' = f") (auto simp: sealed_def contents_def)
    then show "current ?q disk pid = current p disk pid" for pid
      using cached_frame(1)[OF ok paired1] by (auto simp: current_def split: option.splits)
  qed
qed

lemma copy_image_content:
  assumes ok: "pool_ok p (add_mset (Writeback f page_id epoch) R)" and writers: "writers U R"
    and saved: "all_saved disk U p" and free: "\<not> bf_writer (bp_frame p f)"
  shows "flush_content p disk U (Write_Image f page_id epoch (bf_modification_generation (bp_frame p f)) (contents p f))"
proof -
  have f: "f \<in> frame_ids p" using pool_okD(6)[OF ok, of "Writeback f page_id epoch"] by simp
  have "f \<notin> U" using writer_frame(3)[OF ok writers, of f] free by auto
  then show ?thesis using saved f by (simp add: copied_def all_saved_def saved_def)
qed

section \<open>Retiring and shutting down\<close>

lemma drain_file_carries:
  assumes ok: "pool_ok p (add_mset (Draining fid) M)" and paired: "paired M" and writers: "writers U M"
    and saved: "all_saved disk U p" and step: "drain_file fid disposition p = Some (t, p')"
    and E: "\<And>pid. disposition = DISCARD_DIRTY \<Longrightarrow> file_id pid = fid \<Longrightarrow> pid \<in> E"
  shows "carries disk U M E p t p'"
proof -
  note shape = pool_okD(1)[OF ok]
  obtain fe where fe: "find_file p fid = Some fe" "fe_state fe = RETIRING"
    using pool_okD(6)[OF ok, of "Draining fid"] by (auto simp: registered_def)
  have go: "\<not> fe_new_page_in_progress fe" "file_drained fid p"
    using step fe by (auto simp: drain_file_def split: if_splits)
  have reg: "registered p fid RETIRING False" using fe go(1) by (simp add: registered_def)
  note idle = file_drained_idle[OF shape go(2)]
  show ?thesis
  proof (cases "disposition = FLUSH_DIRTY")
    case True
    have "closing_ok p fid (set (dirty_pages (\<lambda>pid. file_id pid = fid) p)) True"
      using reg idle by (auto simp: closing_ok_def idle_file_def dirty_pages_mem[OF shape])
    then have "pool_ok p (after_rights (Close_File fid) (dirty_pages (\<lambda>pid. file_id pid = fid) p) (Ok ()) + M)"
      using replace_retirement[OF ok] by simp
    from flush_pages_carries[OF this paired writers saved] have "carries disk U M {} p t p'"
      using step fe go True by (simp add: drain_file_def)
    then show ?thesis by (auto simp: carries_def)
  next
    case False
    then have "disposition = DISCARD_DIRTY" by (cases disposition) simp_all
    then show ?thesis
      using close_file_carries[OF ok _ paired saved idle, where t = t and E = E] step fe go False E
      by (auto simp: drain_file_def)
  qed
qed

lemma retire_file_carries:
  assumes ok: "pool_ok p (add_mset (Retiring fid) M)" and paired: "paired M" and writers: "writers U M"
    and saved: "all_saved disk U p" and step: "retire_file fid disposition p = (t, p')"
    and E: "\<And>pid. disposition = DISCARD_DIRTY \<Longrightarrow> file_id pid = fid \<Longrightarrow> pid \<in> E"
  shows "carries disk U M E p t p'"
proof -
  have paired1: "paired (add_mset (Retiring fid) M)" using paired by (intro paired_add) auto
  show ?thesis
  proof (cases "find_file p fid")
    case None
    then show ?thesis using quiet_carries[OF ok paired1 saved, of p t] step by (auto simp: retire_file_def)
  next
    case (Some fe)
    show ?thesis
    proof (cases "fe_state fe = ACTIVE")
      case True
      then show ?thesis using quiet_carries[OF ok paired1 saved, of p' t] step Some by (auto simp: retire_file_def quiet_def)
    next
      case False
      then have "fe_state fe = RETIRING" by (cases "fe_state fe") simp_all
      then have "pool_ok p (add_mset (Draining fid) M)"
        using Some by (intro replace_retirement[OF ok]) (auto simp: registered_def)
      from drain_file_carries[OF this paired writers saved _ E] show ?thesis
        using quiet_carries[OF ok paired1 saved, of p t] step Some False
        by (auto simp: retire_file_def split: option.splits)
    qed
  qed
qed

lemma drain_pool_carries:
  assumes ok: "pool_ok p M" and "paired M" and "writers U M" and "all_saved disk U p"
    and step: "drain_pool p = Some (t, p')"
  shows "carries disk U M {} p t p'"
  using flush_pages_carries[of p Return_Status _ _ M] assms by (auto simp: drain_pool_def split: if_splits)

lemma shutdown_carries:
  assumes ok: "pool_ok p M" and paired: "paired M" and writers: "writers U M" and saved: "all_saved disk U p"
    and step: "shutdown p = (t, p')"
  shows "carries disk U M {} p t p'"
proof -
  let ?p = "p\<lparr>bp_quiescing := True\<rparr>"
  have ok1: "pool_ok ?p M" by (rule set_quiescing[OF ok])
  have saved1: "all_saved disk U ?p"
    by (rule all_saved_kept[OF saved, where X = "{}"]) simp_all
  have "carries disk U M {} ?p t p'"
    using step drain_pool_carries[OF ok1 paired writers saved1] quiet_carries[OF ok1 paired saved1, of ?p t]
    by (auto simp: shutdown_def Let_def split: option.splits)
  then show ?thesis by (rule carries_quiet[OF ok paired, rotated]) (simp add: quiet_def)
qed

end
