(* ===== verification/Page_Device.thy ===== *)
theory Page_Device
  imports Page_Io
begin

text \<open>
  What the buffer pool relies on from its \<open>PageIo\<close>: a device is a map from page ids to pages, which the
  operations of \<open>page_io.h\<close> read, replace and extend. \<open>DiskPageIo\<close> over any kernel with the laws of
  \<open>posix_kernel\<close> is such a device, for a disk manager whose files are distinct.
\<close>

locale page_device =
  fixes io :: "'d page_io"
    and dev :: "'d \<Rightarrow> PageId \<Rightarrow> byte list option"
    and sound :: "'d \<Rightarrow> bool"
  assumes dev_length: "sound d \<Longrightarrow> dev d pid = Some b \<Longrightarrow> length b = 8192"
    and read_law: "io_ReadPage io pid dst d = Some (r, out, d') \<Longrightarrow> sound d \<Longrightarrow>
      sound d' \<and> dev d' = dev d \<and>
      (case r of Ok _ \<Rightarrow> dev d pid = Some out | Unexpected e \<Rightarrow> out = dst)"
    and write_law: "io_WritePage io pid img d = Some (u, d') \<Longrightarrow> sound d \<Longrightarrow> length img = 8192 \<Longrightarrow>
      sound d' \<and>
      (case u of
         Ok _ \<Rightarrow> dev d pid \<noteq> None \<and> dev d' = (dev d)(pid \<mapsto> img)
       | Unexpected e \<Rightarrow> dev d' = dev d \<or>
           dev d pid \<noteq> None \<and> (\<exists>torn. length torn = 8192 \<and> dev d' = (dev d)(pid \<mapsto> torn)))"
    and sync_law: "io_SyncFile io fid d = Some (u, d') \<Longrightarrow> sound d \<Longrightarrow> sound d' \<and> dev d' = dev d"
    and count_law: "io_PageCount io fid d = Some (n, d') \<Longrightarrow> sound d \<Longrightarrow> sound d' \<and> dev d' = dev d"
    and extend_law: "io_ExtendFile io fid d = Some (n, d') \<Longrightarrow> sound d \<Longrightarrow>
      sound d' \<and>
      (case n of
         Ok no \<Rightarrow> dev d (PageId fid no) = None \<and> dev d' = (dev d)(PageId fid no \<mapsto> replicate 8192 0)
       | Unexpected e \<Rightarrow> dev d' = dev d)"
begin

lemma write_others:
  assumes "io_WritePage io pid img d = Some (u, d')" and "sound d" and "length img = 8192" and "pid' \<noteq> pid"
  shows "dev d' pid' = dev d pid'"
  using write_law[OF assms(1-3)] assms(4) by (auto split: sum.splits)

lemma extend_kept:
  assumes "io_ExtendFile io fid d = Some (n, d')" and "sound d" and "dev d pid = Some b"
  shows "dev d' pid = Some b"
  using extend_law[OF assms(1,2)] assms(3) by (auto split: sum.splits)

end

section \<open>The disk manager\<close>

text \<open>No two registered file ids name one file.\<close>

definition distinct_files :: "DiskManager \<Rightarrow> os_view \<Rightarrow> bool" where
  "distinct_files dm v \<longleftrightarrow>
     (\<forall>fid fid'. file_inode dm v fid \<noteq> None \<and> file_inode dm v fid = file_inode dm v fid' \<longrightarrow> fid = fid')"

definition disk_sound :: "('k \<Rightarrow> os_view) \<Rightarrow> DiskManager \<times> 'k \<Rightarrow> bool" where
  "disk_sound view d \<longleftrightarrow> disk_ok (fst d) (view (snd d)) \<and> distinct_files (fst d) (view (snd d))"

definition disk_pages :: "('k \<Rightarrow> os_view) \<Rightarrow> DiskManager \<times> 'k \<Rightarrow> PageId \<Rightarrow> byte list option" where
  "disk_pages view d = disk_page (fst d) (view (snd d))"

lemma distinct_files_set [simp]: "distinct_files dm (set_fd_data fd d v) = distinct_files dm v"
  by (simp add: distinct_files_def)

lemma page_written_pages:
  assumes w: "page_written pid data dm v v'" and len: "length data = 8192" and ok: "disk_ok dm v"
    and distinct: "distinct_files dm v"
  shows "disk_ok dm v' \<and> distinct_files dm v' \<and> disk_page dm v pid \<noteq> None \<and>
    disk_page dm v' = (disk_page dm v)(pid \<mapsto> data)"
proof -
  from w obtain e d where e: "dm_files dm (file_id pid) = Some e" "fd_data v (fe_descriptor e) = Some d"
    "unat (page_no pid) * 8192 + 8192 \<le> length d"
    and v': "v' = set_fd_data (fe_descriptor e) (put (unat (page_no pid) * 8192) data d) v"
    by (auto simp: page_written_def)
  then have page: "disk_page dm v pid \<noteq> None" by (simp add: disk_page_def file_data_def page_at_def)
  have "file_inode dm v (file_id pid) \<noteq> None" using ok e(1) by (auto simp: disk_ok_def file_inode_def)
  then have "file_inode dm v (file_id qid) = file_inode dm v (file_id pid) \<longleftrightarrow> file_id qid = file_id pid" for qid
    using distinct by (auto simp: distinct_files_def)
  then have "disk_page dm v' = (disk_page dm v)(pid \<mapsto> data)"
    using disk_page_written[OF w len] by (auto simp: fun_eq_iff PageId.expand)
  then show ?thesis using ok distinct page v' by simp
qed

lemma file_extended_pages:
  assumes x: "file_extended fid n dm v v'" and ok: "disk_ok dm v" and distinct: "distinct_files dm v"
  shows "disk_ok dm v' \<and> distinct_files dm v' \<and> disk_page dm v (PageId fid n) = None \<and>
    disk_page dm v' = (disk_page dm v)(PageId fid n \<mapsto> replicate 8192 0)"
proof -
  from x obtain e d where e: "dm_files dm fid = Some e" "fd_data v (fe_descriptor e) = Some d"
    "length d = unat n * 8192"
    and v': "v' = set_fd_data (fe_descriptor e) (resize (length d + 8192) d) v"
    by (auto simp: file_extended_def)
  then have page: "disk_page dm v (PageId fid n) = None" by (simp add: disk_page_def file_data_def page_at_def)
  have "file_inode dm v fid \<noteq> None" using ok e(1) by (auto simp: disk_ok_def file_inode_def)
  then have "file_inode dm v (file_id qid) = file_inode dm v fid \<longleftrightarrow> file_id qid = fid" for qid
    using distinct by (auto simp: distinct_files_def)
  then have "disk_page dm v' = (disk_page dm v)(PageId fid n \<mapsto> replicate 8192 0)"
    using disk_page_extended[OF x] by (auto simp: fun_eq_iff PageId.expand)
  then show ?thesis using ok distinct page v' by simp
qed

lemma page_torn_pages:
  assumes "page_torn pid dm v v'" and "disk_ok dm v" and "distinct_files dm v"
  shows "disk_ok dm v' \<and> distinct_files dm v' \<and> disk_page dm v pid \<noteq> None \<and>
    (\<exists>torn. length torn = 8192 \<and> disk_page dm v' = (disk_page dm v)(pid \<mapsto> torn))"
  using assms page_written_pages unfolding page_torn_def by blast

lemma length_disk_page: "disk_page dm v pid = Some b \<Longrightarrow> length b = 8192"
  by (auto simp: disk_page_def page_at_def split: if_splits Option.bind_splits)

sublocale posix_kernel \<subseteq> disk: page_device "DiskPageIo os" "disk_pages view" "disk_sound view"
proof (unfold_locales, goal_cases)
  case (1 d pid b)
  then show ?case by (auto simp: disk_pages_def dest: length_disk_page)
next
  case (2 pid dst d r out d')
  obtain dm k where d: "d = (dm, k)" by (cases d)
  from ReadPage_spec[of pid dst dm k] 2 show ?case
    by (auto simp: d DiskPageIo_def disk_sound_def disk_pages_def split: sum.splits)
next
  case (3 pid img d u d')
  obtain dm k where d: "d = (dm, k)" by (cases d)
  obtain k' where k': "WritePage os pid img dm k = Some (u, k')" "d' = (dm, k')"
    using 3(1) by (auto simp: d DiskPageIo_def)
  have sound: "disk_ok dm (view k)" "distinct_files dm (view k)" using 3(2) by (simp_all add: d disk_sound_def)
  have "case u of
      Ok _ \<Rightarrow> page_written pid img dm (view k) (view k')
    | Unexpected e \<Rightarrow> view k' = view k \<or> page_torn pid dm (view k) (view k')"
    using WritePage_spec[of pid img dm k] k'(1) sound(1) 3(3) by (auto split: sum.splits)
  then show ?case
    using page_written_pages[OF _ 3(3) sound, of pid] page_torn_pages[OF _ sound, of pid] sound
    by (auto simp: d k'(2) disk_sound_def disk_pages_def split: sum.splits)
next
  case (4 fid d u d')
  obtain dm k where d: "d = (dm, k)" by (cases d)
  from SyncFile_spec[of fid dm k] 4 show ?case
    by (auto simp: d DiskPageIo_def disk_sound_def disk_pages_def)
next
  case (5 fid d n d')
  obtain dm k where d: "d = (dm, k)" by (cases d)
  from PageCount_spec[of fid dm k] 5 show ?case
    by (auto simp: d DiskPageIo_def disk_sound_def disk_pages_def)
next
  case (6 fid d n d')
  obtain dm k where d: "d = (dm, k)" by (cases d)
  obtain k' where k': "ExtendFile os fid dm k = Some (n, k')" "d' = (dm, k')"
    using 6(1) by (auto simp: d DiskPageIo_def)
  have sound: "disk_ok dm (view k)" "distinct_files dm (view k)" using 6(2) by (simp_all add: d disk_sound_def)
  have "case n of Ok n \<Rightarrow> file_extended fid n dm (view k) (view k') | Unexpected e \<Rightarrow> view k' = view k"
    using ExtendFile_spec[of fid dm k] k'(1) sound(1) by auto
  then show ?case
    using file_extended_pages[OF _ sound, of fid] sound
    by (auto simp: d k'(2) disk_sound_def disk_pages_def split: sum.splits)
qed

end
