(* ===== verification/Pool_Store.thy ===== *)
theory Pool_Store
  imports Pool_Carry_Files Page_Device
begin

text \<open>
  The pool over a device is a store of pages: whatever a step loads, evicts, writes back or fails to,
  it changes the current content of a page only where a write guard edits it, a new page is built, or
  a file is closed with its changes discarded.
\<close>

section \<open>Device writes under other calls\<close>

text \<open>The pages a call's content speaks of are those it has an entry or a writeback of.\<close>

fun acquire_page :: "Acquire_Point \<Rightarrow> PageId option" where
  "acquire_page (Reserved f victim) = Some victim"
| "acquire_page (Evict_Write f victim img) = Some victim"
| "acquire_page (Evict_Sync f victim) = Some victim"
| "acquire_page (Evict_Done f victim status) = Some victim"
| "acquire_page _ = None"

fun flush_page :: "Flush_Point \<Rightarrow> PageId option" where
  "flush_page (Write_Image f page_id epoch generation img) = Some page_id"
| "flush_page (Sync_Image f page_id epoch generation) = Some page_id"
| "flush_page (Reconcile f page_id epoch generation status) = Some page_id"
| "flush_page _ = None"

fun task_page :: "Task \<Rightarrow> PageId option" where
  "task_page (Acquire purpose point) = acquire_page point"
| "task_page (Load page_id l mode f validator point) = Some page_id"
| "task_page (Flushing job point) = flush_page point"
| "task_page _ = None"

definition writes_page :: "PageId \<Rightarrow> right \<Rightarrow> bool" where
  "writes_page pid r \<longleftrightarrow> (\<exists>e. r = Own_Entry pid e) \<or> (\<exists>f epoch. r = Writeback f pid epoch)"

lemma task_page_right: "task_page t = Some pid \<Longrightarrow> \<exists>r \<in># task_rights t. writes_page pid r"
proof (cases t)
  case (Acquire purpose point)
  then show "task_page t = Some pid \<Longrightarrow> ?thesis" by (cases point) (auto simp: writes_page_def eviction_rights_def)
next
  case (Flushing job point)
  then show "task_page t = Some pid \<Longrightarrow> ?thesis" by (cases point) (auto simp: writes_page_def)
qed (auto simp: writes_page_def)

lemma task_content_disk:
  assumes "task_content p disk U t" and "\<And>pid. task_page t = Some pid \<Longrightarrow> disk' pid = disk pid"
  shows "task_content p disk' U t"
proof (cases t)
  case (Acquire purpose point)
  then show ?thesis using assms by (cases point) auto
next
  case (Load page_id l mode f validator point)
  then show ?thesis using assms by (cases point) auto
next
  case (Flushing job point)
  then show ?thesis using assms by (cases point) auto
qed (use assms in simp_all)

lemma task_content_mono:
  assumes "task_content p disk U t" and "\<And>pid b. disk pid = Some b \<Longrightarrow> disk' pid = Some b"
  shows "task_content p disk' U t"
proof (cases t)
  case (Acquire purpose point)
  then show ?thesis using assms by (cases point) auto
next
  case (Load page_id l mode f validator point)
  then show ?thesis using assms by (cases point) auto
next
  case (Flushing job point)
  then show ?thesis using assms by (cases point) (auto simp: copied_def)
qed (use assms in simp_all)

lemma writeback_entry:
  assumes ok: "pool_ok p R" and r: "Writeback f pid epoch \<in># R"
  shows "find_entry p pid = Some \<lparr>pt_state = PT_RESIDENT, pt_frame_id = f, pt_load = None\<rparr>"
    and "bf_dirty (bp_frame p f)"
proof -
  note wb = writeback_resident[OF ok r]
  show "find_entry p pid = Some \<lparr>pt_state = PT_RESIDENT, pt_frame_id = f, pt_load = None\<rparr>"
    using resident_frame(1)[OF ok wb(3,1)] pool_okD(6)[OF ok r] by simp
  show "bf_dirty (bp_frame p f)"
    using pool_okD(2)[OF ok wb(3)] wb(2) by (simp add: frame_ok_def Let_def legal_frame_def)
qed

text \<open>Only one call at a time may write a page, and the page is cached, and dirty if it is resident.\<close>

lemma writes_page_alone:
  assumes ok: "pool_ok p (add_mset r M)" and r: "writes_page pid r" and r': "r' \<in># M"
  shows "\<not> writes_page pid r'"
proof
  assume w': "writes_page pid r'"
  have R: "r \<in># add_mset r M" "r' \<in># add_mset r M" using r' by simp_all
  show False
  proof (cases "\<exists>e. r = Own_Entry pid e")
    case True
    then obtain e where e: "r = Own_Entry pid e" by auto
    note own = owned_entry(1-3)[OF ok[unfolded e]]
    from w' own(3)[OF r'] obtain f epoch where "r' = Writeback f pid epoch" by (auto simp: writes_page_def)
    with writeback_entry(1)[OF ok, of f pid epoch] R(2) own(1,2) show False by simp
  next
    case False
    then obtain f epoch where f: "r = Writeback f pid epoch" using r by (auto simp: writes_page_def)
    note entry = writeback_entry(1)[OF ok, of f pid epoch] and wb = writeback_resident[OF ok, of f pid epoch]
    have "held (writes_back f) (add_mset r M) \<le> 1"
      using pool_okD(2)[OF ok, of f] wb(3) f by (simp add: frame_ok_def Let_def)
    then have "held (writes_back f) M = 0" by (simp add: f)
    moreover have "writes_back f r'"
    proof (cases "\<exists>e. r' = Own_Entry pid e")
      case True
      then show ?thesis using pool_okD(6)[OF ok R(2)] entry f by auto
    next
      case False
      then obtain f' epoch' where f': "r' = Writeback f' pid epoch'" using w' by (auto simp: writes_page_def)
      then have "find_entry p pid = Some \<lparr>pt_state = PT_RESIDENT, pt_frame_id = f', pt_load = None\<rparr>"
        using writeback_entry(1)[OF ok] R(2) by blast
      then show ?thesis using entry f f' by simp
    qed
    ultimately show False using r' by (simp add: held_zero)
  qed
qed

lemma saved_written:
  assumes ok: "pool_ok p (add_mset r M)" and r: "writes_page pid r" and saved: "all_saved disk U p"
    and same: "\<And>pid'. pid' \<noteq> pid \<Longrightarrow> disk' pid' = disk pid'"
  shows "all_saved disk' U p"
  unfolding all_saved_def
proof
  fix f assume f: "f \<in> frame_ids p"
  have "Page_id (bf_page (bp_frame p f)) \<noteq> pid" if res: "bf_state (bp_frame p f) = RESIDENT" "\<not> bf_dirty (bp_frame p f)"
  proof
    assume pid: "Page_id (bf_page (bp_frame p f)) = pid"
    note entry = resident_frame(1)[OF ok f res(1), unfolded pid]
    show False
    proof (cases "\<exists>e. r = Own_Entry pid e")
      case True
      then show False using owned_entry(1,2)[of p pid _ M] ok entry by fastforce
    next
      case False
      then obtain f' epoch where f': "r = Writeback f' pid epoch" using r by (auto simp: writes_page_def)
      then show False using writeback_entry[OF ok, of f' pid epoch] entry res(2) by simp
    qed
  qed
  then show "saved disk' U p f" using saved f same by (auto simp: all_saved_def saved_def)
qed

lemma current_written:
  assumes same: "\<And>pid'. pid' \<noteq> pid \<Longrightarrow> disk' pid' = disk pid'" and cached: "cached p pid \<noteq> None"
  shows "current p disk' = current p disk"
proof
  fix q show "current p disk' q = current p disk q"
    using same[of q] cached by (cases "q = pid") (auto simp: current_def split: option.splits)
qed

section \<open>One step of a call\<close>

text \<open>The pages whose current content a step of the call may change.\<close>

fun touches :: "(PageId \<Rightarrow> byte list option) \<Rightarrow> Task \<Rightarrow> PageId set" where
  "touches disk (Create fid initializer f (New_Done page_id built outcome)) = {page_id}"
| "touches disk (Create fid initializer f New_Extend) = {pid. file_id pid = fid \<and> disk pid = None}"
| "touches disk (Retire fid disposition) = {pid. disposition = DISCARD_DIRTY \<and> file_id pid = fid}"
| "touches disk (Drain fid disposition) = {pid. disposition = DISCARD_DIRTY \<and> file_id pid = fid}"
| "touches disk _ = {}"

definition settled :: "(PageId \<Rightarrow> byte list option) \<Rightarrow> FrameId set \<Rightarrow> BufferPool \<Rightarrow> Task \<Rightarrow> Task list \<Rightarrow> bool" where
  "settled disk U p t ts \<longleftrightarrow> all_saved disk U p \<and> task_content p disk U t \<and> (\<forall>u \<in> set ts. task_content p disk U u)"

lemma carries_settled:
  assumes ok: "pool_ok p (A + M)" and others: "\<And>u. u \<in> set ts \<Longrightarrow> task_rights u \<subseteq># M"
    and content: "\<And>u. u \<in> set ts \<Longrightarrow> task_content p disk U u" and carries: "carries disk U M E p t p'"
  shows "settled disk U p' t ts"
proof -
  obtain X where X: "kept X p p'" "unclaimed X M" using carries by (auto simp: carries_def)
  show ?thesis
    using carries task_content_kept[OF ok others _ X] content frame_ids_kept[OF X(1)]
    by (auto simp: settled_def carries_def all_saved_def)
qed

text \<open>What a step of call \<open>t\<close> next to the calls \<open>ts\<close> establishes.\<close>

definition stored :: "('d \<Rightarrow> PageId \<Rightarrow> byte list option) \<Rightarrow> ('d \<Rightarrow> bool) \<Rightarrow> FrameId set \<Rightarrow> PageId set \<Rightarrow> Task list \<Rightarrow>
    BufferPool \<times> 'd \<Rightarrow> Task \<Rightarrow> BufferPool \<times> 'd \<Rightarrow> bool" where
  "stored dev sound U E ts = (\<lambda>(p, d) t (p', d'). sound d' \<and> settled (dev d') U p' t ts \<and>
     (\<forall>pid. pid \<notin> E \<longrightarrow> current p' (dev d') pid = current p (dev d) pid))"

lemma carries_stored:
  assumes ok: "pool_ok p (A + M)" and others: "\<And>u. u \<in> set ts \<Longrightarrow> task_rights u \<subseteq># M"
    and content: "\<And>u. u \<in> set ts \<Longrightarrow> task_content p (dev d) U u" and carries: "carries (dev d) U M E p t p'"
    and same: "sound d'" "dev d' = dev d"
  shows "stored dev sound U E ts (p, d) t (p', d')"
  using carries_settled[OF ok others content carries] carries same by (auto simp: stored_def carries_def)

text \<open>A write of the page whose entry or writeback the call holds.\<close>

lemma write_stored:
  assumes ok: "pool_ok p (add_mset r M)" and r: "writes_page pid r" and others: "\<And>u. u \<in> set ts \<Longrightarrow> task_rights u \<subseteq># M"
    and content: "\<And>u. u \<in> set ts \<Longrightarrow> task_content p (dev d) U u" and saved: "all_saved (dev d) U p"
    and cached: "cached p pid \<noteq> None" and sound: "sound d'"
    and same: "\<And>pid'. pid' \<noteq> pid \<Longrightarrow> dev d' pid' = dev d pid'" and mine: "task_content p (dev d') U t"
  shows "stored dev sound U E ts (p, d) t (p, d')"
proof -
  have "task_content p (dev d') U u" if u: "u \<in> set ts" for u
  proof (rule task_content_disk[OF content[OF u]])
    fix pid' assume "task_page u = Some pid'"
    then obtain r' where r': "r' \<in># task_rights u" "writes_page pid' r'" using task_page_right by blast
    then have "r' \<in># M" using mset_subset_eqD[OF others[OF u]] by blast
    then have "pid' \<noteq> pid" using writes_page_alone[OF ok r] r'(2) by blast
    then show "dev d' pid' = dev d pid'" by (rule same)
  qed
  then show ?thesis
    using saved_written[OF ok r saved same] current_written[OF same cached] sound mine by (simp add: stored_def settled_def)
qed

context page_device
begin

lemma write_image_step:
  assumes step: "write_stable_image io pid img operation failed written d = Some (t, d')" and sound: "sound d"
    and len: "length img = 8192"
  shows "sound d' \<and> (\<forall>pid'. pid' \<noteq> pid \<longrightarrow> dev d' pid' = dev d pid') \<and>
    (t = written \<and> dev d' pid = Some (FinalizePageChecksum img) \<or> (\<exists>e. t = failed (Unexpected e)))"
proof -
  obtain u where u: "io_WritePage io pid (FinalizePageChecksum img) d = Some (u, d')"
    using step by (auto simp: write_stable_image_def)
  from write_law[OF u sound] write_others[OF u sound] len show ?thesis
    using step u by (cases u) (auto simp: write_stable_image_def)
qed

lemma sync_image_step:
  assumes "sync_stable_image io pid operation finished d = Some (t, d')" and "sound d"
  shows "sound d' \<and> dev d' = dev d \<and> (\<exists>status. t = finished status)"
proof -
  obtain u where "io_SyncFile io (file_id pid) d = Some (u, d')" using assms(1) by (auto simp: sync_stable_image_def)
  from sync_law[OF this assms(2)] show ?thesis using sync_image_cases[OF assms(1)] by auto
qed

lemma advance_acquire_stored:
  assumes ok: "pool_ok p (task_rights (Acquire purpose point) + M)" and paired: "paired M" and writers: "writers U M"
    and others: "\<And>u. u \<in> set ts \<Longrightarrow> task_rights u \<subseteq># M" and content: "\<And>u. u \<in> set ts \<Longrightarrow> task_content p (dev d) U u"
    and saved: "all_saved (dev d) U p" and mine: "acquire_content p (dev d) point" and sound: "sound d"
    and step: "advance_acquire io purpose point p d = Some (t, p', d')"
  shows "stored dev sound U {} ts (p, d) t (p', d')"
proof -
  note pool_step = carries_stored[where dev = dev and sound = sound, OF ok others content]
  note okp = ok[simplified, unfolded add.assoc]
  have evict: "stored dev sound U {} ts (p, d) t (p, d')"
    if io: "acquire_rights point = eviction_rights f victim io" and sound': "sound d'"
      and same: "\<And>pid'. pid' \<noteq> victim \<Longrightarrow> dev d' pid' = dev d pid'" and t: "task_content p (dev d') U t" for f victim io
  proof -
    let ?e = "\<lparr>pt_state = PT_EVICTING, pt_frame_id = f, pt_load = None\<rparr>"
    have ok1: "pool_ok p (add_mset (Own_Entry victim ?e) (add_mset (Own_Frame f EVICTING io victim) (purpose_rights purpose + M)))"
      using ok io by (simp add: eviction_rights_def add_mset_commute)
    have "cached p victim \<noteq> None" using owned_entry(1)[OF ok1] by (simp add: cached_def)
    moreover have "M \<subseteq># add_mset (Own_Frame f EVICTING io victim) (purpose_rights purpose + M)"
      by (metis add_mset_add_single mset_subset_eq_add_right union_assoc union_commute)
    then have "task_rights u \<subseteq># add_mset (Own_Frame f EVICTING io victim) (purpose_rights purpose + M)" if "u \<in> set ts" for u
      using subset_mset.trans[OF others[OF that]] by blast
    ultimately show ?thesis
      by (intro write_stored[where dev = dev and sound = sound, OF ok1 _ _ content saved _ sound' same t]) (auto simp: writes_page_def)
  qed
  show ?thesis
  proof (cases point)
    case Acquiring
    then show ?thesis using step sound acquire_pass_carries[of p purpose M U "dev d" False t p'] ok paired writers saved
      by (intro pool_step) auto
  next
    case (Candidate f victim)
    then show ?thesis using step sound recheck_candidate_carries[of p f purpose M U "dev d" victim t p'] ok paired writers saved
      by (intro pool_step) auto
  next
    case (Reserved f victim)
    then show ?thesis using step sound start_eviction_carries[of p f victim purpose M "dev d" U t p'] okp paired saved mine
      by (intro pool_step) auto
  next
    case (Evict_Write f victim img)
    have own: "pool_ok p (add_mset (Own_Frame f EVICTING WRITEBACK_IN_PROGRESS victim)
        (add_mset (Own_Entry victim \<lparr>pt_state = PT_EVICTING, pt_frame_id = f, pt_load = None\<rparr>) (purpose_rights purpose + M)))"
      using ok Evict_Write by (simp add: eviction_rights_def)
    have img: "img = contents p f" "length img = 8192"
      using mine saved owned_frame(1)[OF own] Evict_Write by (auto simp: all_saved_def saved_def)
    have "write_stable_image io victim img (purpose_operation purpose)
       (\<lambda>status. Acquire purpose (Evict_Done f victim status)) (Acquire purpose (Evict_Sync f victim)) d = Some (t, d')"
      and p': "p' = p" using step Evict_Write by simp_all
    from write_image_step[OF this(1) sound img(2)] show ?thesis unfolding p'
      by (intro evict[of f victim WRITEBACK_IN_PROGRESS]) (auto simp: Evict_Write img(1) sealed_def)
  next
    case (Evict_Sync f victim)
    then have "sync_stable_image io victim (purpose_operation purpose)
       (\<lambda>status. Acquire purpose (Evict_Done f victim status)) d = Some (t, d')"
      and p': "p' = p" using step by simp_all
    from sync_image_step[OF this(1) sound] show ?thesis using mine unfolding p'
      by (intro evict[of f victim WRITEBACK_IN_PROGRESS]) (auto simp: Evict_Sync)
  next
    case (Evict_Done f victim status)
    then show ?thesis using step sound end_eviction_carries[of p f victim purpose M "dev d" U status t p'] okp paired saved mine
      by (intro pool_step) auto
  qed
qed

lemma advance_load_stored:
  assumes ok: "pool_ok p (task_rights (Load page_id l mode f validator point) + M)" and paired: "paired M"
    and others: "\<And>u. u \<in> set ts \<Longrightarrow> task_rights u \<subseteq># M" and content: "\<And>u. u \<in> set ts \<Longrightarrow> task_content p (dev d) U u"
    and saved: "all_saved (dev d) U p" and mine: "load_content p (dev d) page_id f point" and sound: "sound d"
    and step: "advance_load io page_id l mode f validator point p d = Some (t, p', d')"
  shows "stored dev sound U {} ts (p, d) t (p', d')"
proof -
  note pool_step = carries_stored[where dev = dev and sound = sound, OF ok others content]
  let ?A = "{#Own_Entry page_id \<lparr>pt_state = PT_LOADING, pt_frame_id = f, pt_load = Some l\<rparr>, Own_Load l page_id#}"
  have own: "pool_ok p (add_mset (Own_Frame f LOADING READ_IN_PROGRESS page_id) (?A + M))" using ok by simp
  have paired1: "paired (?A + M)" using paired by (auto intro!: paired_add)
  note f = owned_frame(1)[OF own]
  have len: "length (contents p f) = 8192" using saved f by (auto simp: all_saved_def saved_def)
  show ?thesis
  proof (cases point)
    case Load_Read
    then obtain r bytes where io: "io_ReadPage io page_id (contents p f) d = Some (r, bytes, d')"
      and t: "t = Load page_id l mode f validator (case r of Ok _ \<Rightarrow> Load_Validate | Unexpected e \<Rightarrow> Load_Done r VALID)"
      and p': "p' = set_bytes f bytes p" using step by (auto simp: contents_def)
    note law = read_law[OF io sound]
    have read: "length bytes = 8192 \<and> task_content p' (dev d) U t"
      using law dev_length[OF sound] len set_bytes_at(1)[OF f, of bytes] by (cases r) (auto simp: t p')
    have "carries (dev d) U M {} p t p'" unfolding p'
      by (rule set_bytes_carries[OF own paired1 _ saved]) (use read p' in simp_all)
    then show ?thesis using law by (intro pool_step) auto
  next
    case Load_Validate
    let ?outcome = "ValidateLoadedPage (bf_page (bp_frame p f)) validator True"
    have "?outcome = VALID \<Longrightarrow> sealed p f = contents p f"
      using validated_sealed len by (simp add: sealed_def contents_def)
    then have "task_content p (dev d) U t" and p': "p' = p" "d' = d" using step Load_Validate mine by auto
    then have "carries (dev d) U M {} p t p'"
      using saved by (intro carriesI[where X = "{}"]) (simp_all add: all_saved_def)
    then show ?thesis using sound p' by (intro pool_step) auto
  next
    case (Load_Done read outcome)
    then show ?thesis using finish_load_carries[OF ok paired saved] mine step sound by (intro pool_step) auto
  qed
qed

lemma advance_create_stored:
  assumes ok: "pool_ok p (task_rights (Create fid initializer f point) + M)" and paired: "paired M"
    and others: "\<And>u. u \<in> set ts \<Longrightarrow> task_rights u \<subseteq># M" and content: "\<And>u. u \<in> set ts \<Longrightarrow> task_content p (dev d) U u"
    and saved: "all_saved (dev d) U p" and sound: "sound d" and spans: "spans_kept initializer"
    and step: "advance_create io fid initializer f point p d = Some (t, p', d')"
  shows "stored dev sound U (touches (dev d) (Create fid initializer f point)) ts (p, d) t (p', d')"
proof -
  note pool_step = carries_stored[where dev = dev and sound = sound, OF ok others content]
  have same: "carries (dev d) U M {} p (Create fid initializer f q) p" for q
    using saved by (intro carriesI[where X = "{}"]) (simp_all add: all_saved_def)
  show ?thesis
  proof (cases point)
    case (New_Count published)
    then obtain n where io: "io_PageCount io fid d = Some (n, d')" and "p' = p"
      and "t = Create fid initializer f (new_page_counted published n)" using step by auto
    then show ?thesis using count_law[OF io sound] same New_Count by (intro pool_step) auto
  next
    case New_Extend
    then obtain n where io: "io_ExtendFile io fid d = Some (n, d')" and p': "p' = p"
      and t: "t = Create fid initializer f (New_Bind n)" using step by auto
    note law = extend_law[OF io sound]
    have mono: "dev d' pid = Some b" if "dev d pid = Some b" for pid b by (rule extend_kept[OF io sound that])
    have "saved (dev d') U p g" if "g \<in> frame_ids p" for g
      using saved that mono by (auto simp: all_saved_def saved_def)
    moreover have "current p (dev d') pid = current p (dev d) pid" if "\<not> (file_id pid = fid \<and> dev d pid = None)" for pid
      using law that by (auto simp: current_def split: sum.splits option.splits)
    ultimately show ?thesis
      using law t content task_content_mono[OF content mono] by (auto simp: stored_def settled_def all_saved_def p' New_Extend)
  next
    case (New_Bind reserved)
    then show ?thesis using bind_new_page_carries[of p fid f M "dev d" U initializer reserved t p'] ok paired saved step sound
      by (intro pool_step) auto
  next
    case (New_Build page_id validator)
    let ?A = "{#Creation fid (Some page_id), Own_Entry page_id \<lparr>pt_state = PT_LOADING, pt_frame_id = f, pt_load = None\<rparr>#}"
    have own: "pool_ok p (add_mset (Own_Frame f LOADING IO_NONE page_id) (?A + M))"
      using ok New_Build by (simp add: building_rights_def add_mset_commute)
    have paired1: "paired (?A + M)" using paired by (auto intro!: paired_add)
    have len: "length (contents p f) = 8192" using saved owned_frame(1)[OF own] by (auto simp: all_saved_def saved_def)
    obtain built bytes where b: "initializer page_id (contents p f) = (built, bytes)" by fastforce
    then have "length bytes = 8192" using spans len by (metis snd_conv spans_kept_def)
    then have "carries (dev d) U M {} p t (set_bytes f bytes p)"
      using step New_Build b by (intro set_bytes_carries[OF own paired1 _ saved]) (auto simp: Let_def contents_def)
    then show ?thesis using step New_Build b sound by (intro pool_step) (auto simp: Let_def contents_def)
  next
    case (New_Done page_id built outcome)
    then show ?thesis
      using publish_new_page_carries[of p fid f page_id M "dev d" U built outcome t p'] ok paired saved step sound
      by (intro pool_step) auto
  qed
qed

lemma advance_flush_stored:
  assumes ok: "pool_ok p (task_rights (Flushing job point) + M)" and paired: "paired M" and writers: "writers U M"
    and others: "\<And>u. u \<in> set ts \<Longrightarrow> task_rights u \<subseteq># M" and content: "\<And>u. u \<in> set ts \<Longrightarrow> task_content p (dev d) U u"
    and saved: "all_saved (dev d) U p" and mine: "flush_content p (dev d) U point" and sound: "sound d"
    and step: "advance_flush io job point p d = Some (t, p', d')"
  shows "stored dev sound U {} ts (p, d) t (p', d')"
proof -
  note pool_step = carries_stored[where dev = dev and sound = sound, OF ok others content]
  have ok1: "pool_ok p (flush_rights point + (job_rights job + M))" using ok by (simp add: add.assoc)
  have store: "stored dev sound U {} ts (p, d) t (p, d')"
    if r: "flush_rights point = {#Writeback f pid epoch#}" and sound': "sound d'"
      and same: "\<And>pid'. pid' \<noteq> pid \<Longrightarrow> dev d' pid' = dev d pid'" and t: "task_content p (dev d') U t" for f pid epoch
  proof -
    have ok2: "pool_ok p (add_mset (Writeback f pid epoch) (job_rights job + M))" using ok1 r by simp
    have "cached p pid \<noteq> None" using writeback_entry(1)[OF ok2, of f pid epoch] by (simp add: cached_def)
    moreover have "task_rights u \<subseteq># job_rights job + M" if "u \<in> set ts" for u
      using subset_mset.trans[OF others[OF that], of "job_rights job + M"] by simp
    ultimately show ?thesis
      by (intro write_stored[where dev = dev and sound = sound, OF ok2 _ _ content saved _ sound' same t])
        (simp_all add: writes_page_def)
  qed
  show ?thesis
  proof (cases point)
    case Flush_Next
    then show ?thesis using step sound paired writers saved ok
        flush_pages_carries[of p "fj_after job" "fj_pages job" "fj_failure job" M U "dev d" "fj_operation job" t p']
      by (intro pool_step) (auto simp: flush_next_def)
  next
    case (Copy_Image f page_id epoch)
    have ok2: "pool_ok p (add_mset (Writeback f page_id epoch) (job_rights job + M))" using ok1 Copy_Image by simp
    have w: "writers U (job_rights job + M)" using writers by (auto simp: writers_def)
    have go: "\<not> bf_writer (bp_frame p f)" "p' = p" "d' = d" "t = Flushing job (Write_Image f page_id epoch
        (bf_modification_generation (bp_frame p f)) (contents p f))"
      using step Copy_Image by (auto simp: Let_def contents_def split: if_splits)
    then have "carries (dev d) U M {} p t p'"
      using saved copy_image_content[OF ok2 w saved go(1)] by (intro carriesI[where X = "{}"]) (simp_all add: all_saved_def)
    then show ?thesis using sound go by (intro pool_step) auto
  next
    case (Write_Image f page_id epoch generation img)
    have "write_stable_image io page_id img (fj_operation job)
       (\<lambda>status. Flushing job (Reconcile f page_id epoch generation status))
       (Flushing job (Sync_Image f page_id epoch generation)) d = Some (t, d')"
      and p': "p' = p" using step Write_Image by simp_all
    from write_image_step[OF this(1) sound] show ?thesis using mine unfolding p'
      by (intro store[of f page_id epoch]) (auto simp: Write_Image copied_def sealed_def)
  next
    case (Sync_Image f page_id epoch generation)
    then have "sync_stable_image io page_id (fj_operation job)
       (\<lambda>status. Flushing job (Reconcile f page_id epoch generation status)) d = Some (t, d')"
      and p': "p' = p" using step by simp_all
    from sync_image_step[OF this(1) sound] show ?thesis using mine unfolding p'
      by (intro store[of f page_id epoch]) (auto simp: Sync_Image copied_def)
  next
    case (Reconcile f page_id epoch generation status)
    then show ?thesis using step sound paired writers saved mine ok1
        reconcile_carries[of p f page_id epoch job M U "dev d" generation status t p']
      by (intro pool_step) auto
  qed
qed

lemma plain_step:
  assumes ok: "pool_ok p (A + M)" and paired: "paired (A + M)"
    and others: "\<And>u. u \<in> set ts \<Longrightarrow> task_rights u \<subseteq># M" and content: "\<And>u. u \<in> set ts \<Longrightarrow> task_content p (dev d) U u"
    and saved: "all_saved (dev d) U p" and same: "sound d'" "dev d' = dev d" and quiet: "quiet p p'" "plain t"
  shows "stored dev sound U E ts (p, d) t (p', d')"
  using quiet_carries[OF ok paired saved quiet(1), of t M] quiet(2)
  by (intro carries_stored[where dev = dev and sound = sound, OF ok others content _ same]) (auto simp: carries_def)

theorem advance_stored:
  assumes ok: "pool_ok p (task_rights c + M)" and paired: "paired M" and writers: "writers U M"
    and others: "\<And>u. u \<in> set ts \<Longrightarrow> task_rights u \<subseteq># M" and content: "\<And>u. u \<in> set ts \<Longrightarrow> task_content p (dev d) U u"
    and saved: "all_saved (dev d) U p" and mine: "task_content p (dev d) U c" and sound: "sound d"
    and spans: "well_spanned c" and step: "advance io c p d = Some (t, p', d')"
  shows "stored dev sound U (touches (dev d) c) ts (p, d) t (p', d')"
proof -
  note plain_step = plain_step[OF ok paired_union[OF paired_task paired] others content saved]
  note pool_step = carries_stored[where dev = dev and sound = sound, OF ok others content]
  show ?thesis
  proof (cases c)
    case (Pin page_id mode notified)
    then show ?thesis using step pin_page_quiet[of page_id mode notified p t p'] sound by (intro plain_step) auto
  next
    case (Join page_id l mode)
    then show ?thesis using step join_load_quiet[of l mode p t p'] sound by (intro plain_step) auto
  next
    case (Acquire purpose point)
    then show ?thesis using advance_acquire_stored[OF ok[unfolded Acquire] paired writers others content saved _ sound] mine step by simp
  next
    case (Load page_id l mode f validator point)
    then show ?thesis using advance_load_stored[OF ok[unfolded Load] paired others content saved _ sound] mine step by simp
  next
    case (New_Page fid initializer)
    then show ?thesis using step sound new_page_carries[of p M U "dev d" fid initializer t p'] ok paired writers saved
      by (intro pool_step) auto
  next
    case (Create fid initializer f point)
    then show ?thesis using advance_create_stored[OF ok[unfolded Create] paired others content saved sound] spans step by simp
  next
    case (Latch f mode)
    then obtain g where g: "MakeGuard f mode p = Some (g, p')" "t = Returned_Guard (Ok g)" "d' = d" using step by auto
    then have "quiet p p'" and "\<not> g_unpublished g"
      by (auto simp: MakeGuard_def Let_def quiet_def intro!: kept_set_frame_calm split: if_splits)
    then have "carries (dev d) U M {} p t p'"
      by (intro quiet_carries[OF ok paired_union[OF paired_task paired] saved]) (simp_all add: g)
    then show ?thesis using sound g Latch by (intro pool_step) auto
  next
    case (Unpin f)
    then have "t = Returned (Ok ())" "p' = unpin_frame f p" "d' = d" using step by auto
    then show ?thesis using sound
      by (intro plain_step) (auto simp: unpin_frame_def quiet_def intro!: kept_set_frame_calm)
  next
    case (Flush_Page page_id)
    then show ?thesis using step sound paired writers saved ok flush_pages_carries[of p Return_Status _ _ M U "dev d" _ t p']
      by (intro pool_step) (auto simp del: flush_pages.simps)
  next
    case (Flush_File fid)
    show ?thesis
    proof (cases "find_file p fid = None")
      case True
      then show ?thesis using step sound Flush_File by (intro plain_step) (auto simp: flush_file_def)
    next
      case False
      then show ?thesis
        using step sound paired writers saved ok Flush_File flush_pages_carries[of p Return_Status _ _ M U "dev d" _ t p']
        by (intro pool_step) (auto simp: flush_file_def)
    qed
  next
    case Flush_All
    then show ?thesis using step sound paired writers saved ok flush_pages_carries[of p Return_Status _ _ M U "dev d" _ t p']
      by (intro pool_step) auto
  next
    case (Flushing job point)
    then show ?thesis using advance_flush_stored[OF ok[unfolded Flushing] paired writers others content saved _ sound] mine step by simp
  next
    case (Register fid validator)
    show ?thesis
    proof (cases "fid = INVALID_FILE_ID")
      case True
      then show ?thesis using step sound Register by (intro plain_step) auto
    next
      case False
      then obtain n where io: "io_PageCount io fid d = Some (n, d')" and "p' = p" "t = Register_Counted fid validator n"
        using step Register by auto
      then show ?thesis using count_law[OF io sound] by (intro plain_step) auto
    qed
  next
    case (Register_Counted fid validator page_count)
    then have "quiet p p'" "plain t" "d' = d"
      using step by (auto simp: register_counted_def Let_def quiet_def split: sum.splits if_splits)
    then show ?thesis using sound by (intro plain_step) auto
  next
    case (Retire fid disposition)
    then have "carries (dev d) U M (touches (dev d) c) p t p'"
      using step ok by (intro retire_file_carries[OF _ paired writers saved]) auto
    then show ?thesis using step sound Retire by (intro pool_step) auto
  next
    case (Drain fid disposition)
    then have "carries (dev d) U M (touches (dev d) c) p t p'"
      using step ok by (intro drain_file_carries[OF _ paired writers saved]) auto
    then show ?thesis using step sound Drain by (intro pool_step) auto
  next
    case Shutdown
    then show ?thesis using step sound shutdown_carries[of p M U "dev d" t p'] ok paired writers saved by (intro pool_step) auto
  next
    case Shutdown_Drain
    then show ?thesis using step sound drain_pool_carries[of p M U "dev d" t p'] ok paired writers saved by (intro pool_step) auto
  qed (use step in simp_all)
qed

end

end
