(* ===== verification/Pool_Transparent.thy ===== *)
theory Pool_Transparent
  imports Pool_Store
begin

text \<open>
  The whole system over a device. \<open>store_ok\<close> is the agreement of cache and device in every state of a
  run; a step of the system changes the content of a page only by an edit through a write guard
  (\<open>edits\<close>) or a step of a call that builds, extends or discards (\<open>call_changes\<close>).
\<close>

definition unpublished :: "Guard list \<Rightarrow> FrameId set" where
  "unpublished gs = g_frame_id ` {g \<in> set gs. g_unpublished g}"

definition store_ok :: "('d \<Rightarrow> PageId \<Rightarrow> byte list option) \<Rightarrow> ('d \<Rightarrow> bool) \<Rightarrow> 'd system \<Rightarrow> bool" where
  "store_ok dev sound s \<longleftrightarrow> sound (sy_device s) \<and>
     all_saved (dev (sy_device s)) (unpublished (sy_guards s)) (sy_pool s) \<and>
     (\<forall>t \<in> set (sy_tasks s). task_content (sy_pool s) (dev (sy_device s)) (unpublished (sy_guards s)) t) \<and>
     (\<forall>g \<in> set (sy_guards s). g_unpublished g \<longrightarrow> g_mode g = EXCLUSIVE)"

definition content :: "('d \<Rightarrow> PageId \<Rightarrow> byte list option) \<Rightarrow> 'd system \<Rightarrow> PageId \<Rightarrow> byte list option" where
  "content dev s = current (sy_pool s) (dev (sy_device s))"

text \<open>The two kinds of steps that change the content of a page.\<close>

inductive edits :: "PageId \<Rightarrow> 'd system \<Rightarrow> 'd system \<Rightarrow> bool" where
  "j < length (sy_guards s) \<Longrightarrow> g_mode (sy_guards s ! j) = EXCLUSIVE \<Longrightarrow> length bytes = 8192 \<Longrightarrow>
   edits (g_page_id (sy_guards s ! j)) s
     (s\<lparr>sy_pool := set_bytes (g_frame_id (sy_guards s ! j)) bytes (sy_pool s),
        sy_guards := (sy_guards s)[j := (sy_guards s ! j)\<lparr>g_unpublished := True\<rparr>]\<rparr>)"

inductive call_changes :: "'d page_io \<Rightarrow> ('d \<Rightarrow> PageId \<Rightarrow> byte list option) \<Rightarrow> PageId \<Rightarrow> 'd system \<Rightarrow> 'd system \<Rightarrow> bool"
  for io dev where
  "i < length (sy_tasks s) \<Longrightarrow> advance io (sy_tasks s ! i) (sy_pool s) (sy_device s) = Some (t, p, d) \<Longrightarrow>
   pid \<in> touches (dev (sy_device s)) (sy_tasks s ! i) \<Longrightarrow>
   call_changes io dev pid s (s\<lparr>sy_pool := p, sy_device := d, sy_tasks := (sy_tasks s)[i := t]\<rparr>)"

section \<open>Others and guards\<close>

abbreviation without :: "nat \<Rightarrow> 'a list \<Rightarrow> 'a list" where
  "without i xs \<equiv> take i xs @ drop (Suc i) xs"

lemma set_without: "i < length xs \<Longrightarrow> set xs = insert (xs ! i) (set (without i xs))"
  by (subst id_take_nth_drop[of i xs]) auto

lemma set_update_without: "i < length xs \<Longrightarrow> set (xs[i := x]) = insert x (set (without i xs))"
  by (simp add: upd_conv_take_nth_drop)

lemma rights_of_without:
  assumes "i < length ts"
  shows "rights_of ts = task_rights (ts ! i) + rights_of (without i ts)"
  by (subst (1) id_take_nth_drop[OF assms]) (simp add: rights_of_def ac_simps)

lemma rights_of_member: "t \<in> set ts \<Longrightarrow> task_rights t \<subseteq># rights_of ts"
proof (induction ts)
  case (Cons a ts)
  then show ?case using subset_mset.trans[of "task_rights t" "rights_of ts" "task_rights a + rights_of ts"]
    by (auto simp: rights_of_def)
qed simp

lemma paired_rights_of: "paired (rights_of ts)"
  by (induction ts) (auto simp: rights_of_def paired_task intro!: paired_union simp: paired_def[of "{#}"])

lemma paired_guards: "paired (image_mset Holding G)"
  by (auto simp: paired_def)

lemma writers_guards:
  assumes "\<forall>g \<in> set gs. g_unpublished g \<longrightarrow> g_mode g = EXCLUSIVE"
  shows "writers (unpublished gs) (M + image_mset Holding (mset gs))"
  using assms by (force simp: writers_def unpublished_def)

lemma unpublished_update:
  assumes "j < length gs" and "g_frame_id g = g_frame_id (gs ! j)"
  shows "unpublished gs - {g_frame_id g} \<subseteq> unpublished (gs[j := g])"
    and "g_unpublished g \<Longrightarrow> g_frame_id g \<in> unpublished (gs[j := g])"
  unfolding unpublished_def set_update_without[OF assms(1), of g] set_without[OF assms(1)]
  using assms(2) by (auto simp del: set_append)[1] (simp add: rev_image_eqI[of g])

text \<open>A holder of the exclusive latch changes its frame under calls that may be writing it back.\<close>

lemma task_content_guarded:
  assumes ok: "pool_ok p R" and mine: "task_rights u \<subseteq># R" and kept: "kept {f} p p'"
    and res: "f \<in> frame_ids p" "bf_state (bp_frame p f) = RESIDENT"
    and U: "U - {f} \<subseteq> U'" and content: "task_content p disk U u"
    and later: "f \<in> U' \<and> bf_modification_generation (bp_frame p' f) = bf_modification_generation (bp_frame p f) \<or>
      bf_modification_generation (bp_frame p f) < bf_modification_generation (bp_frame p' f)"
  shows "task_content p' disk U' u"
proof -
  have own: "g \<noteq> f" if "r \<in># task_rights u" "owns_frame g r" for g r
    using resident_frame(3)[OF ok res mset_subset_eqD[OF mine that(1)]] that(2) by auto
  have frame: "g \<in> frame_ids p" if "r \<in># task_rights u" "owns_frame g r \<or> writes_back g r" for g r
    using right_frame[OF pool_okD(6)[OF ok mset_subset_eqD[OF mine that(1)]] that(2)] .
  have same: "contents p' g = contents p g \<and> sealed p' g = sealed p g \<and>
      bf_dirty (bp_frame p' g) = bf_dirty (bp_frame p g) \<and>
      bf_modification_generation (bp_frame p' g) = bf_modification_generation (bp_frame p g)"
    if "g \<in> frame_ids p" "g \<noteq> f" for g
    using kept contents_kept[OF kept that(1)] that by (auto simp: kept_def)
  have copy: "copied p' U' g generation agrees'"
    if c: "copied p U g generation agrees" and g: "g \<in> frame_ids p" and a: "g \<noteq> f \<Longrightarrow> agrees' = agrees" for g generation agrees agrees'
  proof (cases "g = f")
    case True
    then show ?thesis using c later by (auto simp: copied_def)
  next
    case False
    then show ?thesis using c same[OF g False] a U by (auto simp: copied_def)
  qed
  show ?thesis
  proof (cases u)
    case (Acquire purpose point)
    have evict: "contents p' g = contents p g \<and> sealed p' g = sealed p g \<and>
        bf_dirty (bp_frame p' g) = bf_dirty (bp_frame p g)"
      if "acquire_rights point = eviction_rights g victim io" for g victim io
    proof -
      have r: "Own_Frame g EVICTING io victim \<in># task_rights u" using that by (simp add: Acquire eviction_rights_def)
      show ?thesis using same[of g] frame[OF r, of g] own[OF r, of g] by simp
    qed
    show ?thesis using content Acquire evict by (cases point) auto
  next
    case (Load page_id l mode g validator point)
    have r: "Own_Frame g LOADING READ_IN_PROGRESS page_id \<in># task_rights u" by (simp add: Load)
    have "g \<in> frame_ids p" "g \<noteq> f" using frame[OF r, of g] own[OF r, of g] by simp_all
    then show ?thesis using same[of g] content Load by (cases point) auto
  next
    case (Flushing job point)
    show ?thesis
    proof (cases point)
      case (Write_Image g page_id epoch generation img)
      then have g: "g \<in> frame_ids p" using frame[of "Writeback g page_id epoch" g] Flushing by simp
      then show ?thesis using content Flushing Write_Image copy[OF _ g] same[OF g] by auto
    next
      case (Sync_Image g page_id epoch generation)
      then have g: "g \<in> frame_ids p" using frame[of "Writeback g page_id epoch" g] Flushing by simp
      then show ?thesis using content Flushing Sync_Image copy[OF _ g] same[OF g] by auto
    next
      case (Reconcile g page_id epoch generation status)
      then have g: "g \<in> frame_ids p" using frame[of "Writeback g page_id epoch" g] Flushing by simp
      then show ?thesis using content Flushing Reconcile copy[OF _ g] same[OF g] by auto
    qed (simp_all add: Flushing)
  qed (use content in simp_all)
qed

lemma all_saved_guarded:
  assumes kept: "kept {f} p p'" and saved: "all_saved disk U p" and U: "U - {f} \<subseteq> U'"
    and mine: "f \<in> frame_ids p \<Longrightarrow> saved disk U' p' f"
  shows "all_saved disk U' p'"
  unfolding all_saved_def
proof
  fix g assume "g \<in> frame_ids p'"
  then have g: "g \<in> frame_ids p" using frame_ids_kept[OF kept] by simp
  show "saved disk U' p' g"
  proof (cases "g = f")
    case True
    then show ?thesis using mine g by simp
  next
    case False
    then have "saved disk U p' g" using saved_kept[OF kept g] saved g by (auto simp: all_saved_def)
    then show ?thesis using U False by (auto simp: saved_def)
  qed
qed

section \<open>A step of the system\<close>

lemma is_call_plain: "is_call t \<Longrightarrow> task_content p disk U t"
  by (cases t) simp_all

text \<open>A step that changes neither device nor guards, and frames only quietly.\<close>

lemma quiet_store:
  assumes ok: "pool_ok (sy_pool s) R" and paired: "paired R" and rights: "\<And>t. t \<in> set (sy_tasks s) \<Longrightarrow> task_rights t \<subseteq># R"
    and store: "store_ok dev sound s" and quiet: "quiet (sy_pool s) (sy_pool t)"
    and same: "sy_device t = sy_device s" "unpublished (sy_guards t) = unpublished (sy_guards s)"
    and guards: "\<And>g. g \<in> set (sy_guards t) \<Longrightarrow> g_unpublished g \<Longrightarrow> g \<in> set (sy_guards s)"
    and tasks: "\<And>u. u \<in> set (sy_tasks t) \<Longrightarrow> u \<in> set (sy_tasks s) \<or> (\<forall>p disk U. task_content p disk U u)"
  shows "store_ok dev sound t \<and> content dev t = content dev s"
proof -
  have kept: "kept {} (sy_pool s) (sy_pool t)" and cached: "cached (sy_pool t) = cached (sy_pool s)"
    using quiet by (simp_all add: quiet_def)
  have "task_content (sy_pool t) (dev (sy_device s)) (unpublished (sy_guards s)) u" if "u \<in> set (sy_tasks t)" for u
  proof (cases "u \<in> set (sy_tasks s)")
    case True
    have "task_content (sy_pool s) (dev (sy_device s)) (unpublished (sy_guards s)) u"
      using store True by (simp add: store_ok_def)
    then show ?thesis by (intro task_content_kept[OF ok rights[OF True] _ kept]) simp_all
  next
    case False
    then show ?thesis using tasks[OF that] by blast
  qed
  moreover have "all_saved (dev (sy_device s)) (unpublished (sy_guards s)) (sy_pool t)"
    using store all_saved_kept[OF _ kept] by (auto simp: store_ok_def)
  moreover have "content dev t pid = content dev s pid" for pid
    unfolding content_def same(1) using cached_frame(1)[OF ok paired] cached by (intro current_kept[OF kept]) auto
  ultimately show ?thesis using store guards same by (auto simp: store_ok_def)
qed

text \<open>A step of the holder of a write guard on its frame.\<close>

lemma guarded_store:
  assumes ok: "pool_ok (sy_pool s) (system_rights s)" and store: "store_ok dev sound s" and j: "j < length (sy_guards s)"
    and mode: "g_mode (sy_guards s ! j) = EXCLUSIVE" and g: "g = sy_guards s ! j" and f: "f = g_frame_id g"
    and t: "t = s\<lparr>sy_pool := set_frame f c (sy_pool s), sy_guards := (sy_guards s)[j := g\<lparr>g_unpublished := u\<rparr>]\<rparr>"
    and len: "length (Page_bytes (bf_page (c (bp_frame (sy_pool s) f)))) = 8192"
    and later: "u \<and> bf_modification_generation (c (bp_frame (sy_pool s) f)) = bf_modification_generation (bp_frame (sy_pool s) f) \<or>
      bf_modification_generation (bp_frame (sy_pool s) f) < bf_modification_generation (c (bp_frame (sy_pool s) f))"
    and clean: "u \<or> bf_dirty (c (bp_frame (sy_pool s) f))"
  shows "store_ok dev sound t \<and> (\<forall>pid. pid \<noteq> g_page_id g \<longrightarrow> content dev t pid = content dev s pid) \<and>
    content dev t (g_page_id g) = Some (FinalizePageChecksum (Page_bytes (bf_page (c (bp_frame (sy_pool s) f)))))"
proof -
  let ?p = "sy_pool s" and ?p' = "set_frame f c (sy_pool s)" and ?disk = "dev (sy_device s)"
  let ?U = "unpublished (sy_guards s)" and ?U' = "unpublished (sy_guards t)"
  have right: "Holding g \<in># system_rights s" using j g by (auto simp: system_rights_def)
  note res = guard_resident[OF ok right, folded f]
  have page: "Page_id (bf_page (bp_frame ?p f)) = g_page_id g" using pool_okD(6)[OF ok right] by (simp add: f)
  have kept: "kept {f} ?p ?p'" by (rule kept_set_frame)
  have U: "?U - {f} \<subseteq> ?U'" "u \<Longrightarrow> f \<in> ?U'"
    using unpublished_update[OF j, of "g\<lparr>g_unpublished := u\<rparr>"] by (simp_all add: t g f)
  have fr: "bp_frame ?p' f = c (bp_frame ?p f)" using res(3) by (simp add: bp_frame_set)
  have saved: "all_saved ?disk ?U' ?p'"
    by (rule all_saved_guarded[OF kept _ U(1)])
      (use store len clean fr U(2) in \<open>auto simp: store_ok_def saved_def contents_def\<close>)
  have tasks: "task_content ?p' ?disk ?U' v" if v: "v \<in> set (sy_tasks s)" for v
  proof (rule task_content_guarded[OF ok _ kept _ _ U(1)])
    show "task_rights v \<subseteq># system_rights s"
      using subset_mset.trans[OF rights_of_member[OF v]] by (simp add: system_rights_def)
    show "task_content ?p ?disk ?U v" using store v by (simp add: store_ok_def)
    show "f \<in> ?U' \<and> bf_modification_generation (bp_frame ?p' f) = bf_modification_generation (bp_frame ?p f) \<or>
        bf_modification_generation (bp_frame ?p f) < bf_modification_generation (bp_frame ?p' f)"
      using later U(2) fr by auto
  qed (use res in simp_all)
  have guards: "\<forall>g' \<in> set (sy_guards t). g_unpublished g' \<longrightarrow> g_mode g' = EXCLUSIVE"
    using store mode g set_update_without[OF j] set_without[OF j] by (auto simp: t store_ok_def simp del: set_append)
  have cached: "cached ?p (g_page_id g) = Some f"
    using resident_frame(1)[OF ok res(3,1)] page by (simp add: cached_def)
  have paired: "paired (system_rights s)"
    by (simp add: system_rights_def paired_union paired_rights_of paired_guards)
  have "content dev t pid = content dev s pid" if "pid \<noteq> g_page_id g" for pid
  proof -
    have "current ?p' ?disk pid = current ?p ?disk pid"
    proof (rule current_kept[OF kept])
      fix f' assume "cached ?p pid = Some f'"
      then show "f' \<in> frame_ids ?p \<and> f' \<notin> {f}" using cached_frame(1,2)[OF ok paired] page that by fastforce
    qed simp
    then show ?thesis by (simp add: content_def t)
  qed
  moreover have "content dev t (g_page_id g) = Some (FinalizePageChecksum (Page_bytes (bf_page (c (bp_frame ?p f)))))"
    using cached fr by (simp add: content_def t current_def sealed_def contents_def)
  ultimately show ?thesis using saved tasks guards store by (simp add: store_ok_def t)
qed

context page_device
begin

theorem system_step_stored:
  assumes step: "system_step io s t" and ok: "pool_ok (sy_pool s) (system_rights s)" and store: "store_ok dev sound s"
    and spans: "\<And>u. u \<in> set (sy_tasks s) \<Longrightarrow> well_spanned u"
    and new_ok: "pool_ok (sy_pool t) (system_rights t)"
  shows "store_ok dev sound t \<and>
    (\<forall>pid. content dev t pid \<noteq> content dev s pid \<longrightarrow> edits pid s t \<or> call_changes io dev pid s t)"
proof -
  have paired: "paired (system_rights s)"
    by (simp add: system_rights_def paired_union paired_rights_of paired_guards)
  have rights: "task_rights u \<subseteq># system_rights s" if "u \<in> set (sy_tasks s)" for u
    using subset_mset.trans[OF rights_of_member[OF that]] by (simp add: system_rights_def)
  note quiet = quiet_store[OF ok paired rights store, of t]
  show ?thesis using step
  proof cases
    case (call c)
    have "store_ok dev sound t \<and> content dev t = content dev s"
      by (rule quiet) (use call is_call_plain[OF call(2)] in auto)
    then show ?thesis by simp
  next
    case (task i c p d)
    let ?ts = "without i (sy_tasks s)" and ?U = "unpublished (sy_guards s)"
    let ?M = "rights_of ?ts + image_mset Holding (mset (sy_guards s))"
    have "stored dev sound ?U (touches (dev (sy_device s)) (sy_tasks s ! i)) ?ts (sy_pool s, sy_device s) c (p, d)"
    proof (rule advance_stored)
      show "pool_ok (sy_pool s) (task_rights (sy_tasks s ! i) + ?M)"
        using ok rights_of_without[OF task(2)] by (simp add: system_rights_def add.assoc)
      show "paired ?M" by (simp add: paired_union paired_rights_of paired_guards)
      show "writers ?U ?M" using store by (intro writers_guards) (simp add: store_ok_def)
      show "task_rights u \<subseteq># ?M" if "u \<in> set ?ts" for u
        using subset_mset.trans[OF rights_of_member[OF that]] by simp
      show "advance io (sy_tasks s ! i) (sy_pool s) (sy_device s) = Some (c, p, d)" by (rule task(3))
      show "task_content (sy_pool s) (dev (sy_device s)) ?U (sy_tasks s ! i)" "well_spanned (sy_tasks s ! i)"
        using store spans task(2) by (auto simp: store_ok_def)
      show "task_content (sy_pool s) (dev (sy_device s)) ?U u" if "u \<in> set ?ts" for u
        using store that set_without[OF task(2)] by (auto simp: store_ok_def)
    qed (use store in \<open>simp_all add: store_ok_def\<close>)
    then have "store_ok dev sound t" and same: "pid \<notin> touches (dev (sy_device s)) (sy_tasks s ! i) \<Longrightarrow>
        content dev t pid = content dev s pid" for pid
      using store set_update_without[OF task(2), of c] task(1)
      by (auto simp: stored_def settled_def store_ok_def content_def simp del: set_append)
    moreover have "call_changes io dev pid s t" if "content dev t pid \<noteq> content dev s pid" for pid
      unfolding task(1) by (rule call_changes.intros[OF task(2,3)]) (use same that in blast)
    ultimately show ?thesis by blast
  next
    case (take_guard i g)
    have fresh: "\<not> g_unpublished g"
      using store take_guard(2,3) nth_mem[OF take_guard(2)] by (auto simp: store_ok_def)
    have "store_ok dev sound t \<and> content dev t = content dev s"
      by (rule quiet)
        (use take_guard fresh set_update_without[OF take_guard(2)] set_without[OF take_guard(2)] in
          \<open>auto simp: unpublished_def simp del: set_append\<close>)
    then show ?thesis by simp
  next
    case (mutate j bytes)
    have "store_ok dev sound t \<and> (\<forall>pid. pid \<noteq> g_page_id (sy_guards s ! j) \<longrightarrow> content dev t pid = content dev s pid)"
      using guarded_store[OF ok store mutate(2,3) HOL.refl HOL.refl mutate(1)[unfolded set_bytes_def]] mutate(4) by simp
    moreover have "edits (g_page_id (sy_guards s ! j)) s t" unfolding mutate(1) by (rule edits.intros[OF mutate(2-4)])
    ultimately show ?thesis by metis
  next
    case (mark_dirty j)
    let ?g = "sy_guards s ! j"
    let ?f = "g_frame_id ?g" and ?c = "\<lambda>fr. fr\<lparr>bf_modification_generation := bf_modification_generation fr + 1, bf_dirty := True\<rparr>"
    have right: "Holding ?g \<in># system_rights s" using mark_dirty(2) by (auto simp: system_rights_def)
    note res = guard_resident[OF ok right]
    have len: "length (contents (sy_pool s) ?f) = 8192"
      using store res(3) by (auto simp: store_ok_def all_saved_def saved_def)
    have gen: "bf_modification_generation (bp_frame (sy_pool s) ?f) < bf_modification_generation (bp_frame (sy_pool s) ?f) + 1"
      using mark_dirty(4) word_less_Suc[of "bf_modification_generation (bp_frame (sy_pool s) ?f)"]
      by (metis add.right_inverse add_right_cancel add.commute)
    have "store_ok dev sound t \<and> (\<forall>pid. pid \<noteq> g_page_id ?g \<longrightarrow> content dev t pid = content dev s pid) \<and>
        content dev t (g_page_id ?g) = Some (sealed (sy_pool s) ?f)"
      using guarded_store[OF ok store mark_dirty(2,3) HOL.refl HOL.refl, where c = ?c and u = False] mark_dirty(1) len gen
      by (simp add: PublishMutation_def sealed_def contents_def)
    moreover have "cached (sy_pool s) (g_page_id ?g) = Some ?f"
      using resident_frame(1)[OF ok res(3,1)] pool_okD(6)[OF ok right] by (simp add: cached_def)
    then have "content dev s (g_page_id ?g) = Some (sealed (sy_pool s) ?f)" by (simp add: content_def current_def)
    ultimately show ?thesis by metis
  next
    case (release gs g gs')
    have "quiet (sy_pool s) (ReleaseLatch g (sy_pool s))"
      by (auto simp: ReleaseLatch_def quiet_def intro!: kept_set_frame_calm split: if_splits)
    then have "store_ok dev sound t \<and> content dev t = content dev s"
      by (intro quiet) (use release in \<open>auto simp: unpublished_def\<close>)
    then show ?thesis by simp
  qed
qed

end

end
