(* ===== verification/Pool_Sample.thy ===== *)
theory Pool_Sample
  imports Pool_Invariant Sample_Files
begin

text \<open>
  Scripted runs of the concurrent system, and one on the disk manager over the sample kernel: a file
  is registered, a page is created and changed through its write guard, and the guard is released.
\<close>

section \<open>Scripts\<close>

datatype act =
    Do Task
  | Go nat
  | Get nat
  | Edit nat "byte list"
  | Mark nat
  | Drop

fun perform :: "'d page_io \<Rightarrow> act \<Rightarrow> 'd system \<Rightarrow> 'd system option" where
  "perform io (Do t) s = (if is_call t then Some (s\<lparr>sy_tasks := sy_tasks s @ [t]\<rparr>) else None)"
| "perform io (Go i) s =
     (if i < length (sy_tasks s) then
        map_option (\<lambda>(t, p, d). s\<lparr>sy_pool := p, sy_device := d, sy_tasks := (sy_tasks s)[i := t]\<rparr>)
          (advance io (sy_tasks s ! i) (sy_pool s) (sy_device s))
      else None)"
| "perform io (Get i) s =
     (if i < length (sy_tasks s) then
        (case sy_tasks s ! i of
           Returned_Guard (Ok g) \<Rightarrow>
             Some (s\<lparr>sy_tasks := (sy_tasks s)[i := Returned (Ok ())], sy_guards := g # sy_guards s\<rparr>)
         | _ \<Rightarrow> None)
      else None)"
| "perform io (Edit j bytes) s =
     (if j < length (sy_guards s) \<and> g_mode (sy_guards s ! j) = EXCLUSIVE \<and> length bytes = 8192 then
        Some (s\<lparr>sy_pool := set_bytes (g_frame_id (sy_guards s ! j)) bytes (sy_pool s),
          sy_guards := (sy_guards s)[j := (sy_guards s ! j)\<lparr>g_unpublished := True\<rparr>]\<rparr>)
      else None)"
| "perform io (Mark j) s =
     (if j < length (sy_guards s) \<and> g_mode (sy_guards s ! j) = EXCLUSIVE \<and>
         bf_modification_generation (bp_frame (sy_pool s) (g_frame_id (sy_guards s ! j))) \<noteq> - 1 then
        Some (s\<lparr>sy_pool := PublishMutation (g_frame_id (sy_guards s ! j)) (sy_pool s),
          sy_guards := (sy_guards s)[j := (sy_guards s ! j)\<lparr>g_unpublished := False\<rparr>]\<rparr>)
      else None)"
| "perform io Drop s =
     (case sy_guards s of
        [] \<Rightarrow> None
      | g # gs \<Rightarrow>
          if g_unpublished g then None
          else Some (s\<lparr>sy_pool := ReleaseLatch g (sy_pool s), sy_guards := gs,
            sy_tasks := sy_tasks s @ [Unpin (g_frame_id g)]\<rparr>))"

lemma perform_step: "perform io a s = Some t \<Longrightarrow> system_step io s t"
proof (cases a)
  case (Get i)
  then show "perform io a s = Some t \<Longrightarrow> ?thesis"
    by (auto intro: system_step.take_guard split: if_splits Task.splits sum.splits)
next
  case Drop
  then show "perform io a s = Some t \<Longrightarrow> ?thesis"
    using system_step.release[of s "[]"] by (auto split: list.splits if_splits)
qed (auto intro: system_step.intros split: if_splits)

text \<open>A script without retirements keeps the discipline of \<open>one_retirer\<close>.\<close>

fun retiring :: "Task \<Rightarrow> bool" where
  "retiring (Retire fid disposition) = True"
| "retiring (Drain fid disposition) = True"
| "retiring (Flushing job point) = (fj_after job \<noteq> Return_Status)"
| "retiring _ = False"

definition calm :: "'d system \<Rightarrow> bool" where
  "calm s \<longleftrightarrow> list_all (\<lambda>t. \<not> retiring t \<and> well_spanned t) (sy_tasks s)"

fun script :: "('d system \<Rightarrow> bool) \<Rightarrow> 'd page_io \<Rightarrow> act list \<Rightarrow> 'd system \<Rightarrow> 'd system option" where
  "script P io [] s = Some s"
| "script P io (a # as) s =
     (case perform io a s of None \<Rightarrow> None | Some t \<Rightarrow> if P t then script P io as t else None)"

lemma not_retiring: "\<not> retiring t \<Longrightarrow> \<not> retires_file fid t"
  by (cases t) auto

lemma calm_one_retirer: "calm s \<Longrightarrow> one_retirer s"
  using not_retiring by (fastforce simp: calm_def one_retirer_def list_all_iff filter_empty_conv)

lemma script_run: "script P io as s = Some t \<Longrightarrow> system_run io P s0 s \<Longrightarrow> system_run io P s0 t"
proof (induction as arbitrary: s)
  case (Cons a as)
  then obtain u where u: "perform io a s = Some u" "P u" "script P io as u = Some t"
    by (auto split: option.splits if_splits)
  show ?case by (rule Cons.IH[OF u(3) run_more[OF Cons.prems(2) perform_step[OF u(1)] u(2)]])
qed simp

lemma system_run_mono: "system_run io P s t \<Longrightarrow> (\<And>u. P u \<Longrightarrow> Q u) \<Longrightarrow> system_run io Q s t"
  by (induction rule: system_run.induct) (auto intro: system_run.intros)

section \<open>A page created, changed and released\<close>

definition any_page :: PageValidator where "any_page loaded = VALID"

definition titled :: "PageNo \<Rightarrow> byte list" where
  "titled no = put 0 (CommonPageHeader_image
     \<lparr>ch_page_type = HEAP_DATA, ch_format_version = 1, ch_flags = 0, ch_page_lsn = 0, ch_checksum_crc32c = 0,
      ch_header_size = 64, ch_reserved16 = 0, ch_page_no = no\<rparr>) (replicate 8192 0)"

definition title_page :: PageInitializer where
  "title_page page_id bytes = (True, titled (page_no page_id))"

lemma spans_title_page [simp]: "spans_kept title_page"
  by (simp add: spans_kept_def title_page_def titled_def)

definition sample_device :: "DiskManager \<times> sample_kernel" where
  "sample_device = (sample_dm, rough_kernel [])"

definition grown_device :: "DiskManager \<times> sample_kernel" where
  "grown_device = (sample_dm, (rough_kernel [])\<lparr>sk_view := set_fd_data 3 (replicate 24576 0) two_pages\<rparr>)"

abbreviation sample_io :: "(DiskManager \<times> sample_kernel) page_io" where
  "sample_io \<equiv> DiskPageIo sample_os"

lemma sample_io_count: "io_PageCount sample_io 7 sample_device = Some (Ok 2, sample_device)"
  by (simp add: DiskPageIo_def sample_device_def sample_run sample_dm_def rough_kernel_def two_pages_def)

lemma sample_io_extend: "io_ExtendFile sample_io 7 sample_device = Some (Ok 2, grown_device)"
  by (simp add: DiskPageIo_def sample_device_def grown_device_def ExtendFile_def sample_run sample_dm_def
      rough_kernel_def two_pages_def max_off_t_def word_le_nat_alt word_less_nat_alt resize_def flip: replicate_add)

lemma length_titled [simp]: "length (titled no) = 8192"
  by (simp add: titled_def)

lemma titled_valid: "ValidateLoadedPage \<lparr>Page_id = PageId fid no, Page_bytes = titled no\<rparr> any_page False = VALID"
proof -
  let ?h = "\<lparr>ch_page_type = HEAP_DATA, ch_format_version = 1, ch_flags = 0, ch_page_lsn = 0, ch_checksum_crc32c = 0,
      ch_header_size = 64, ch_reserved16 = 0, ch_page_no = no\<rparr>"
  have "take 32 (titled no) = CommonPageHeader_image ?h" by (simp add: titled_def put_def)
  then have "DecodeCommonPageHeader (titled no) = Some ?h"
    using common_header.decode_prefix[of "titled no"] common_header.decode_image[of ?h] by simp
  then show ?thesis by (simp add: ValidateLoadedPage_def any_page_def)
qed

definition one_frame :: BufferPool where
  "one_frame = \<lparr>bp_max_pin_count = 8, bp_frames = [BufferFrame_new], bp_free_list = [0],
     bp_replacer = \<lparr>cr_referenced = [0], cr_hand = 0, cr_last_pass_visits = 0\<rparr>, bp_page_table = [], bp_files = [],
     bp_quiescing = False, bp_loads = []\<rparr>"

lemma one_frame_new: "BufferPool_new 1 8 = Some one_frame"
  by (simp add: BufferPool_new_def one_frame_def ClockReplacer_new_def)

definition registered_pool :: BufferPool where
  "registered_pool = one_frame\<lparr>bp_files := [(7, \<lparr>fe_state = ACTIVE, fe_validator = any_page,
     fe_published_page_count = 2, fe_new_page_in_progress = False\<rparr>)]\<rparr>"

definition registered_system :: "(DiskManager \<times> sample_kernel) system" where
  "registered_system = \<lparr>sy_pool = registered_pool, sy_device = sample_device, sy_tasks = [Returned (Ok ())],
     sy_guards = []\<rparr>"

lemma register_script:
  "script calm sample_io [Do (Register 7 any_page), Go 0, Go 0] (system_start one_frame sample_device) =
    Some registered_system"
  by (simp add: calm_def system_start_def registered_system_def registered_pool_def sample_io_count register_counted_def Let_def
      one_frame_def find_file_def put_file_def INVALID_FILE_ID_def)

definition created_frame :: BufferFrame where
  "created_frame = \<lparr>bf_page = \<lparr>Page_id = PageId 7 2, Page_bytes = titled 2\<rparr>, bf_state = RESIDENT, bf_io_state = IO_NONE,
     bf_pin_count = 1, bf_dirty = True, bf_modification_generation = 1, bf_binding_epoch = 1, bf_readers = 0,
     bf_writer = True\<rparr>"

definition created_pool :: BufferPool where
  "created_pool = \<lparr>bp_max_pin_count = 8, bp_frames = [created_frame], bp_free_list = [],
     bp_replacer = \<lparr>cr_referenced = [1], cr_hand = 0, cr_last_pass_visits = 0\<rparr>,
     bp_page_table = [(PageId 7 2, \<lparr>pt_state = PT_RESIDENT, pt_frame_id = 0, pt_load = None\<rparr>)],
     bp_files = [(7, \<lparr>fe_state = ACTIVE, fe_validator = any_page, fe_published_page_count = 3,
       fe_new_page_in_progress = False\<rparr>)], bp_quiescing = False, bp_loads = []\<rparr>"

definition created_guard :: Guard where
  "created_guard = \<lparr>g_frame_id = 0, g_mode = EXCLUSIVE, g_page_id = PageId 7 2, g_binding_epoch = 1,
     g_unpublished = False\<rparr>"

definition created_system :: "(DiskManager \<times> sample_kernel) system" where
  "created_system = \<lparr>sy_pool = created_pool, sy_device = grown_device,
     sy_tasks = [Returned (Ok ()), Returned (Ok ())], sy_guards = [created_guard]\<rparr>"

lemmas pool_evaluation = Let_def with_device_def with_pool_def find_file_def put_file_def find_entry_def put_entry_def
  bp_frame_def set_frame_def set_bytes_def SetReferenced_def ClearReferenced_def

lemma create_script:
  "script calm sample_io [Do (New_Page 7 title_page), Go 1, Go 1, Go 1, Go 1, Go 1, Go 1, Go 1, Get 1] registered_system =
    Some created_system"
  by (simp add: calm_def registered_system_def registered_pool_def one_frame_def BufferFrame_new_def created_system_def
      created_pool_def created_frame_def created_guard_def pool_evaluation new_page_def WaitForNewPageTurn_def
      acquire_pass_def sample_io_count sample_io_extend new_page_counted_def bind_new_page_def bind_frame_def
      title_page_def titled_valid publish_new_page_def finish_new_def MakeGuard_def Page_new_def)

section \<open>The guard released\<close>

definition resting_system :: "(DiskManager \<times> sample_kernel) system" where
  "resting_system = created_system\<lparr>sy_pool := created_pool\<lparr>bp_frames :=
       [created_frame\<lparr>bf_pin_count := 0, bf_writer := False\<rparr>]\<rparr>,
     sy_tasks := replicate 3 (Returned (Ok ())), sy_guards := []\<rparr>"

lemma release_script: "script calm sample_io [Drop, Go 2] created_system = Some resting_system"
  by (simp add: calm_def created_system_def created_pool_def created_frame_def created_guard_def pool_evaluation
      resting_system_def ReleaseLatch_def unpin_frame_def numeral_3_eq_3)

lemma created_run: "system_run sample_io calm (system_start one_frame sample_device) created_system"
  by (rule script_run[OF create_script script_run[OF register_script run_start]]) (simp add: calm_def system_start_def)

lemma resting_run: "system_run sample_io calm (system_start one_frame sample_device) resting_system"
  by (rule script_run[OF release_script created_run])

section \<open>The page flushed\<close>

definition title_image :: "byte list" where "title_image = FinalizePageChecksum (titled 2)"

lemma length_title_image [simp]: "length title_image = 8192"
  by (simp add: title_image_def)

definition saved_device :: "DiskManager \<times> sample_kernel" where
  "saved_device = (sample_dm, (rough_kernel [])\<lparr>sk_view := set_fd_data 3 (write_at 16384 title_image (replicate 24576 0)) two_pages\<rparr>)"

lemma sample_io_write: "io_WritePage sample_io (PageId 7 2) title_image grown_device = Some (Ok (), saved_device)"
  by (simp add: DiskPageIo_def grown_device_def saved_device_def WritePage_def sample_run WritePage_loop.simps sample_dm_def
      rough_kernel_def two_pages_def word_le_nat_alt)

lemma sample_io_sync: "io_SyncFile sample_io 7 saved_device = Some (Ok (), saved_device)"
  by (simp add: DiskPageIo_def saved_device_def SyncFile_def sample_run sample_dm_def rough_kernel_def two_pages_def)

definition flushed_system :: "(DiskManager \<times> sample_kernel) system" where
  "flushed_system = resting_system\<lparr>sy_pool := created_pool\<lparr>bp_frames :=
       [created_frame\<lparr>bf_pin_count := 0, bf_writer := False, bf_dirty := False\<rparr>]\<rparr>,
     sy_device := saved_device, sy_tasks := replicate 4 (Returned (Ok ()))\<rparr>"

definition flush_acts :: "act list" where
  "flush_acts = Do (Flush_Page (PageId 7 2)) # replicate 5 (Go (Suc (Suc (Suc 0))))"

lemma flush_script: "script calm sample_io flush_acts resting_system = Some flushed_system"
  by (simp add: flush_acts_def calm_def created_system_def created_pool_def created_frame_def pool_evaluation
      resting_system_def flushed_system_def write_stable_image_def sync_stable_image_def sample_io_write[unfolded title_image_def]
      sample_io_sync reconcile_def flush_next_def end_flush_def numeral_eq_Suc)

lemma flushed_run: "system_run sample_io calm (system_start one_frame sample_device) flushed_system"
  by (rule script_run[OF flush_script resting_run])

end
