(* ===== verification/Pool_Properties.thy ===== *)
theory Pool_Properties
  imports Pool_Sample
begin

text \<open>
  What every run of the buffer pool guarantees its callers, read off the account of
  \<open>system_run_ok\<close>: guards protect their pages, every frame has one role, the counts count the
  holders, no call ends by an exception, and a pool at rest has lost nothing. A run starts in a new
  pool of at most \<open>2 ^ 32\<close> frames, and its callers retire a file by one call at a time.
\<close>

definition pool_run :: "'d page_io \<Rightarrow> nat \<Rightarrow> 32 word \<Rightarrow> 'd \<Rightarrow> 'd system \<Rightarrow> bool" where
  "pool_run io n m d s \<longleftrightarrow>
     n \<le> 4294967296 \<and> (\<exists>p. BufferPool_new n m = Some p \<and> system_run io one_retirer (system_start p d) s)"

lemma pool_run_ok: "pool_run io n m d s \<Longrightarrow> pool_ok (sy_pool s) (system_rights s)"
  using system_run_ok by (auto simp: pool_run_def)

lemma guard_right: "g \<in> set (sy_guards s) \<Longrightarrow> Holding g \<in># system_rights s"
  by (simp add: system_rights_def)

lemma task_right:
  assumes "t \<in> set (sy_tasks s)" and "r \<in># task_rights t"
  shows "r \<in># system_rights s"
  using assms proof -
  obtain i where "i < length (sy_tasks s)" "sy_tasks s ! i = t" using assms(1) by (auto simp: in_set_conv_nth)
  then show ?thesis using rights_of_split[of i "sy_tasks s"] assms(2) by (metis system_rights_def union_iff)
qed

lemma sample_pool_run:
  "system_run sample_io calm (system_start one_frame sample_device) s \<Longrightarrow> pool_run sample_io 1 8 sample_device s"
  using one_frame_new system_run_mono[OF _ calm_one_retirer] by (auto simp: pool_run_def)

section \<open>Guards\<close>

lemma other_guard:
  assumes ok: "pool_ok p R" and R: "R = add_mset (Holding g) M" and writer: "g_mode g = EXCLUSIVE"
    and other: "Holding g' \<in># M"
  shows "g_frame_id g' \<noteq> g_frame_id g"
proof
  assume same: "g_frame_id g' = g_frame_id g"
  have f: "frame_ok p R (g_frame_id g)" using pool_okD(2,6)[OF ok] R by force
  then have w: "of_bool (bf_writer (bp_frame p (g_frame_id g))) = Suc (held (holds EXCLUSIVE (g_frame_id g)) M)"
    using R writer by (simp add: frame_ok_def Let_def)
  then have "held (holds EXCLUSIVE (g_frame_id g)) M = 0" and "bf_writer (bp_frame p (g_frame_id g))"
    by (cases "bf_writer (bp_frame p (g_frame_id g))"; simp)+
  moreover from this(2) have "held (holds SHARED (g_frame_id g)) R = 0"
    using f unfolding frame_ok_def Let_def legal_frame_def by metis
  ultimately show False using other same writer R by (cases "g_mode g'") (auto simp: held_zero)
qed

lemma distinct_guards:
  assumes "j < length gs" "i < length gs" "i \<noteq> j"
  shows "\<exists>M. image_mset Holding (mset gs) = add_mset (Holding (gs ! j)) M \<and> Holding (gs ! i) \<in># M"
proof (intro exI conjI)
  let ?M = "image_mset Holding (mset (take j gs @ drop (Suc j) gs))"
  show "image_mset Holding (mset gs) = add_mset (Holding (gs ! j)) ?M"
    by (subst id_take_nth_drop[OF assms(1)]) simp
  have "gs ! i \<in> set (take j gs @ drop (Suc j) gs)"
  proof (cases "i < j")
    case True
    then show ?thesis using assms by (auto simp: in_set_conv_nth intro!: exI[of _ i])
  next
    case False
    then have "drop (Suc j) gs ! (i - Suc j) = gs ! i" "i - Suc j < length (drop (Suc j) gs)" using assms by auto
    then show ?thesis by (metis UnI2 nth_mem set_append)
  qed
  then show "Holding (gs ! i) \<in># ?M" by auto
qed

text \<open>C11: safety. In every reachable state, a page guard protects what it was given for: its frame
  is resident, is still bound to the guard's page and to the binding it was pinned under, is pinned,
  and is the frame the page table names for that page; and while a write guard is held, no other
  guard of either kind is held on its frame. No interleaving of fetches, evictions, flushes, page
  creations, retirements and shutdowns, with whatever device errors, takes a page away from its
  holder.
  Callers retire a file by one call at a time.\<close>

theorem guards_protect:
  assumes "pool_run io n m d s" and "j < length (sy_guards s)" and "sy_guards s ! j = g"
  shows "bf_state (bp_frame (sy_pool s) (g_frame_id g)) = RESIDENT \<and>
    Page_id (bf_page (bp_frame (sy_pool s) (g_frame_id g))) = g_page_id g \<and>
    bf_binding_epoch (bp_frame (sy_pool s) (g_frame_id g)) = g_binding_epoch g \<and>
    bf_pin_count (bp_frame (sy_pool s) (g_frame_id g)) \<noteq> 0 \<and>
    find_entry (sy_pool s) (g_page_id g) =
      Some \<lparr>pt_state = PT_RESIDENT, pt_frame_id = g_frame_id g, pt_load = None\<rparr> \<and>
    (g_mode g = EXCLUSIVE \<longrightarrow>
      (\<forall>i < length (sy_guards s). i \<noteq> j \<longrightarrow> g_frame_id (sy_guards s ! i) \<noteq> g_frame_id g))"
proof -
  note ok = pool_run_ok[OF assms(1)]
  have "g \<in> set (sy_guards s)" using assms(2,3) by auto
  note right = guard_right[OF this]
  have "g_frame_id (sy_guards s ! i) \<noteq> g_frame_id g"
    if i: "g_mode g = EXCLUSIVE" "i < length (sy_guards s)" "i \<noteq> j" for i
  proof -
    obtain M where "image_mset Holding (mset (sy_guards s)) = add_mset (Holding (sy_guards s ! j)) M"
      "Holding (sy_guards s ! i) \<in># M" using distinct_guards[OF assms(2) i(2,3)] by blast
    then show ?thesis
      using other_guard[OF ok, of g "rights_of (sy_tasks s) + M" "sy_guards s ! i"] i(1) assms(3)
      by (simp add: system_rights_def)
  qed
  moreover have "find_entry (sy_pool s) (g_page_id g) =
      Some \<lparr>pt_state = PT_RESIDENT, pt_frame_id = g_frame_id g, pt_load = None\<rparr>"
    using resident_frame(1)[OF ok guard_resident(3,1)[OF ok right]] pool_okD(6)[OF ok right] by simp
  ultimately show ?thesis
    using guard_resident[OF ok right] pool_okD(6)[OF ok right] by auto
qed

theorem guards_protect_witness:
  "find_entry created_pool (PageId 7 2) = Some \<lparr>pt_state = PT_RESIDENT, pt_frame_id = 0, pt_load = None\<rparr>"
  using guards_protect[OF sample_pool_run[OF created_run], of 0 created_guard]
  by (simp add: created_system_def created_guard_def)

section \<open>Frames\<close>

text \<open>The frame a call owns while it is neither free nor resident, and the frames it keeps pinned.\<close>

fun acquire_frame :: "Acquire_Point \<Rightarrow> FrameId option" where
  "acquire_frame Acquiring = None"
| "acquire_frame (Candidate f victim) = None"
| "acquire_frame (Reserved f victim) = Some f"
| "acquire_frame (Evict_Write f victim img) = Some f"
| "acquire_frame (Evict_Sync f victim) = Some f"
| "acquire_frame (Evict_Done f victim status) = Some f"

fun task_frame :: "Task \<Rightarrow> FrameId option" where
  "task_frame (Acquire purpose point) = acquire_frame point"
| "task_frame (Load page_id l mode f validator point) = Some f"
| "task_frame (Create fid initializer f point) = Some f"
| "task_frame _ = None"

fun task_pin :: "BufferPool \<Rightarrow> Task \<Rightarrow> FrameId option" where
  "task_pin p (Returned_Guard (Ok g)) = Some (g_frame_id g)"
| "task_pin p (Latch f mode) = Some f"
| "task_pin p (Unpin f) = Some f"
| "task_pin p (Join page_id l mode) = (if lo_done (bp_loads p ! l) then lo_frame_id (bp_loads p ! l) else None)"
| "task_pin p _ = None"

lemma held_task:
  "held (owns_frame f) (task_rights t) = of_bool (task_frame t = Some f) \<and>
   held (pins p f) (task_rights t) = of_bool (task_pin p t = Some f) \<and>
   held (holds mode f) (task_rights t) =
     of_bool (\<exists>g. t = Returned_Guard (Ok g) \<and> g_frame_id g = f \<and> g_mode g = mode)"
proof (cases t)
  case (Returned_Guard r)
  then show ?thesis by (cases r) simp_all
next
  case (Acquire purpose point)
  then show ?thesis by (cases purpose; cases point) (simp_all add: eviction_rights_def)
next
  case (Create fid' initializer f point)
  then show ?thesis by (cases point) (simp_all add: building_rights_def)
next
  case (Flushing job point)
  then show ?thesis by (cases point; cases "fj_after job") simp_all
qed simp_all

lemmas owns_frame_task = held_task[THEN conjunct1]
lemmas pins_task = held_task[THEN conjunct2, THEN conjunct1]
lemmas holds_task = held_task[THEN conjunct2, THEN conjunct2]

lemma held_tasks:
  assumes "\<And>t. held P (task_rights t) = of_bool (Q t)"
  shows "held P (rights_of ts) = length (filter Q ts)"
  using assms by (induction ts) (simp_all add: rights_of_def)

lemma held_guards: "held P (image_mset Holding (mset gs)) = length (filter (\<lambda>g. P (Holding g)) gs)"
  by (induction gs) simp_all

lemma held_system:
  assumes "\<And>t. held P (task_rights t) = of_bool (Q t)"
  shows "held P (system_rights s) =
    length (filter Q (sy_tasks s)) + length (filter (\<lambda>g. P (Holding g)) (sy_guards s))"
  by (simp add: system_rights_def held_tasks[OF assms] held_guards)

text \<open>C13: invariant. In every reachable state each frame has exactly one role: it is on the free list,
  once, and reset; or it is resident, mapped by the page-table entry of its page; or it is in the hands
  of exactly one call that is loading, creating or evicting. Its states are one of the combinations the
  frame's declaration allows: a frame that is not resident is never pinned, a free or loading frame is
  never dirty, a frame under writeback is dirty. So no frame is lost and none is given out twice.
  Callers retire a file by one call at a time.\<close>

theorem frames_accounted:
  assumes "pool_run io n m d s" and "unat f < length (bp_frames (sy_pool s))"
  shows "length (filter ((=) f) (bp_free_list (sy_pool s))) +
      length (filter (\<lambda>t. task_frame t = Some f) (sy_tasks s)) +
      of_bool (bf_state (bp_frame (sy_pool s) f) = RESIDENT \<and>
        find_entry (sy_pool s) (Page_id (bf_page (bp_frame (sy_pool s) f))) =
          Some \<lparr>pt_state = PT_RESIDENT, pt_frame_id = f, pt_load = None\<rparr>) = 1 \<and>
    (f \<in> set (bp_free_list (sy_pool s)) \<longrightarrow> bf_state (bp_frame (sy_pool s) f) = FREE) \<and>
    legal_frame (bp_frame (sy_pool s) f)"
proof -
  have "count (mset xs) f = length (filter ((=) f) xs)" for xs :: "FrameId list"
    by (induction xs) simp_all
  moreover have "frame_ok (sy_pool s) (system_rights s) f"
    using pool_okD(2)[OF pool_run_ok[OF assms(1)], of f] assms(2) by simp
  ultimately show ?thesis
    unfolding frame_ok_def Let_def held_system[where P = "owns_frame f", OF owns_frame_task]
    by (auto split: if_splits)
qed

theorem frames_accounted_witness: "legal_frame created_frame \<and> bf_state created_frame = RESIDENT"
  using frames_accounted[OF sample_pool_run[OF created_run], of 0]
  by (simp add: created_system_def created_pool_def created_frame_def bp_frame_def)

text \<open>C14: bounds. The counts count: in every reachable state the pin count of a frame is exactly the
  number of its holders (guards, calls about to latch or unpin it, and fetches joined to the load that
  published it) with no wrap-around, its latch has as many readers as there are shared guards, and
  a writer exactly when there is an exclusive guard.
  Callers retire a file by one call at a time.\<close>

theorem counts_are_holders:
  assumes "pool_run io n m d s" and "unat f < length (bp_frames (sy_pool s))"
  shows "unat (bf_pin_count (bp_frame (sy_pool s) f)) =
      length (filter (\<lambda>t. task_pin (sy_pool s) t = Some f) (sy_tasks s)) +
      length (filter (\<lambda>g. g_frame_id g = f) (sy_guards s)) \<and>
    bf_readers (bp_frame (sy_pool s) f) =
      length (filter (\<lambda>t. \<exists>g. t = Returned_Guard (Ok g) \<and> g_frame_id g = f \<and> g_mode g = SHARED) (sy_tasks s)) +
      length (filter (\<lambda>g. g_frame_id g = f \<and> g_mode g = SHARED) (sy_guards s)) \<and>
    of_bool (bf_writer (bp_frame (sy_pool s) f)) =
      length (filter (\<lambda>t. \<exists>g. t = Returned_Guard (Ok g) \<and> g_frame_id g = f \<and> g_mode g = EXCLUSIVE) (sy_tasks s)) +
      length (filter (\<lambda>g. g_frame_id g = f \<and> g_mode g = EXCLUSIVE) (sy_guards s))"
proof -
  have "held (holds mode f) (task_rights t) =
      of_bool (\<exists>g. t = Returned_Guard (Ok g) \<and> g_frame_id g = f \<and> g_mode g = mode)" for mode t
    by (rule holds_task)
  note latch = held_system[where P = "holds _ f", OF this]
  have "frame_ok (sy_pool s) (system_rights s) f"
    using pool_okD(2)[OF pool_run_ok[OF assms(1)], of f] assms(2) by simp
  then show ?thesis
    unfolding frame_ok_def Let_def held_system[where P = "pins (sy_pool s) f", OF pins_task] latch by simp
qed

theorem counts_are_holders_witness:
  "unat (bf_pin_count created_frame) = length (sy_guards created_system) \<and> bf_writer created_frame"
  using counts_are_holders[OF sample_pool_run[OF created_run], of 0]
  by (simp add: created_system_def created_pool_def created_frame_def created_guard_def bp_frame_def)

section \<open>Page-table entries\<close>

text \<open>The state of a frame that the state of a page-table entry calls for.\<close>

fun frame_state_of :: "PageTableEntryState \<Rightarrow> FrameState" where
  "frame_state_of PT_LOAD_INTENT = FREE"
| "frame_state_of PT_LOADING = LOADING"
| "frame_state_of PT_RESIDENT = RESIDENT"
| "frame_state_of PT_EVICTING = EVICTING"

lemma rights_of_mem: "r \<in># rights_of ts \<Longrightarrow> \<exists>t \<in> set ts. r \<in># task_rights t"
  by (induction ts) (auto simp: rights_of_def)

lemma task_entry:
  assumes "Own_Entry pid e \<in># task_rights t"
  shows "if pt_state e = PT_LOAD_INTENT then pt_load e \<noteq> None \<and> pt_frame_id e = 0
    else \<exists>io. Own_Frame (pt_frame_id e) (frame_state_of (pt_state e)) io pid \<in># task_rights t"
proof (cases t)
  case (Returned_Guard g)
  then show ?thesis using assms by (cases g) auto
next
  case (Acquire purpose point)
  then show ?thesis using assms by (cases purpose; cases point) (auto simp: eviction_rights_def)
next
  case (Create fid initializer f point)
  then show ?thesis using assms by (cases point) (auto simp: building_rights_def)
next
  case (Flushing job point)
  then show ?thesis using assms by (cases point; cases "fj_after job") auto
qed (use assms in auto)

lemma owned_by_task:
  assumes ok: "pool_ok (sy_pool s) (system_rights s)" and e: "find_entry (sy_pool s) pid = Some e"
    and st: "pt_state e \<noteq> PT_RESIDENT"
  obtains t where "t \<in> set (sy_tasks s)" "Own_Entry pid e \<in># task_rights t"
proof -
  have "held (owns_entry pid) (system_rights s) = of_bool (pt_state e \<noteq> PT_RESIDENT)"
    using pool_okD(3)[OF ok, of pid] unfolding entry_ok_def e option.case by blast
  then have "held (owns_entry pid) (system_rights s) \<noteq> 0" using st by (metis of_bool_eq(2) zero_neq_one)
  then obtain r where r: "r \<in># system_rights s" "owns_entry pid r" unfolding held_zero by blast
  then obtain e' where "r = Own_Entry pid e'" by (cases r) auto
  moreover from this have "e' = e" using pool_okD(6)[OF ok r(1)] e by simp
  ultimately show ?thesis using that r(1) rights_of_mem by (auto simp: system_rights_def)
qed

lemma intent_load:
  assumes "pool_ok (sy_pool s) (system_rights s)" and "find_entry (sy_pool s) pid = Some e"
    and "pt_state e = PT_LOAD_INTENT"
  shows "pt_load e \<noteq> None" "pt_frame_id e = 0"
proof -
  obtain t where "Own_Entry pid e \<in># task_rights t" by (rule owned_by_task[OF assms(1,2)]) (use assms(3) in simp_all)
  from task_entry[OF this] show "pt_load e \<noteq> None" "pt_frame_id e = 0" using assms(3) by simp_all
qed

lemma entry_frame:
  assumes ok: "pool_ok (sy_pool s) (system_rights s)" and e: "find_entry (sy_pool s) pid = Some e"
    and st: "pt_state e \<noteq> PT_LOAD_INTENT"
  shows "bf_state (bp_frame (sy_pool s) (pt_frame_id e)) = frame_state_of (pt_state e)"
    and "Page_id (bf_page (bp_frame (sy_pool s) (pt_frame_id e))) = pid" and "pt_frame_id e \<in> frame_ids (sy_pool s)"
proof -
  have "bf_state (bp_frame (sy_pool s) (pt_frame_id e)) = frame_state_of (pt_state e) \<and>
      Page_id (bf_page (bp_frame (sy_pool s) (pt_frame_id e))) = pid \<and> pt_frame_id e \<in> frame_ids (sy_pool s)"
  proof (cases "pt_state e = PT_RESIDENT")
    case True
    then show ?thesis using resident_entry[OF ok e] by simp
  next
    case False
    then obtain t where t: "t \<in> set (sy_tasks s)" "Own_Entry pid e \<in># task_rights t" by (rule owned_by_task[OF ok e])
    then obtain io where "Own_Frame (pt_frame_id e) (frame_state_of (pt_state e)) io pid \<in># system_rights s"
      using task_entry[OF t(2)] st task_right[OF t(1)] by auto
    from pool_okD(6)[OF ok this] show ?thesis by simp
  qed
  then show "bf_state (bp_frame (sy_pool s) (pt_frame_id e)) = frame_state_of (pt_state e)"
    and "Page_id (bf_page (bp_frame (sy_pool s) (pt_frame_id e))) = pid" and "pt_frame_id e \<in> frame_ids (sy_pool s)"
    by simp_all
qed

lemma entry_load:
  assumes ok: "pool_ok p R" and e: "find_entry p pid = Some e" and l: "pt_load e = Some l"
  shows "l < length (bp_loads p)" "\<not> lo_done (bp_loads p ! l)"
proof -
  have r: "Own_Load l pid \<in># R" using pool_okD(3)[OF ok, of pid] l unfolding entry_ok_def e option.case by blast
  show "l < length (bp_loads p)" "\<not> lo_done (bp_loads p ! l)" using pool_okD(6)[OF ok r] by simp_all
qed

lemma entry_claims:
  assumes ok: "pool_ok p R" and e: "find_entry p pid = Some e" and l: "pt_load e = Some l"
  shows "0 < lo_claims (bp_loads p ! l)"
proof -
  have r: "Own_Load l pid \<in># R" using pool_okD(3)[OF ok, of pid] l unfolding entry_ok_def e option.case by blast
  have "unat (lo_claims (bp_loads p ! l)) = held (claims l) R"
    using pool_okD(4)[OF ok, of l] entry_load[OF assms] by (simp add: load_ok_def Let_def)
  moreover have "held (claims l) R \<noteq> 0" by (rule held_nonzero[OF r]) simp
  ultimately show ?thesis by (metis unat_0 word_gt_0)
qed

section \<open>Assertions\<close>

text \<open>The debug assertions of \<open>buffer_pool.cpp\<close> hold wherever they are evaluated: in \<open>WritebackResident\<close>,
  which starts in the section that leaves a call at \<open>Copy_Image\<close>, in \<open>Unpin\<close>, in \<open>PublishMutation\<close>
  of a guard's frame, and in \<open>ReleaseFrameToFreeList\<close>, which all its callers but the one at
  \<open>New_Bind\<close> run on a frame they have just reset.\<close>

lemma assertions_hold:
  assumes "pool_run io n m d s"
  shows "Flushing job (Copy_Image f pid epoch) \<in> set (sy_tasks s) \<Longrightarrow> bf_state (bp_frame (sy_pool s) f) = RESIDENT \<and>
      bf_io_state (bp_frame (sy_pool s) f) = WRITEBACK_IN_PROGRESS"
    and "Unpin f \<in> set (sy_tasks s) \<Longrightarrow> bf_pin_count (bp_frame (sy_pool s) f) \<noteq> 0"
    and "g \<in> set (sy_guards s) \<Longrightarrow> bf_state (bp_frame (sy_pool s) (g_frame_id g)) = RESIDENT \<and>
      bf_pin_count (bp_frame (sy_pool s) (g_frame_id g)) \<noteq> 0"
    and "Create fid initializer f (New_Bind reserved) \<in> set (sy_tasks s) \<Longrightarrow> bf_state (bp_frame (sy_pool s) f) = FREE"
    and "f \<in> frame_ids p \<Longrightarrow> bf_state (bp_frame (ResetFrame f p) f) = FREE"
proof -
  note ok = pool_run_ok[OF assms]
  show "bf_state (bp_frame (sy_pool s) f) = RESIDENT \<and> bf_io_state (bp_frame (sy_pool s) f) = WRITEBACK_IN_PROGRESS"
    if "Flushing job (Copy_Image f pid epoch) \<in> set (sy_tasks s)"
    using writeback_resident(1,2)[OF ok task_right[OF that, of "Writeback f pid epoch"]] by simp
  show "bf_pin_count (bp_frame (sy_pool s) f) \<noteq> 0" if "Unpin f \<in> set (sy_tasks s)"
    using pinned_resident(2)[OF ok _ task_right[OF that, of "Pinned f"]] pool_okD(6)[OF ok task_right[OF that, of "Pinned f"]]
    by simp
  show "bf_state (bp_frame (sy_pool s) (g_frame_id g)) = RESIDENT \<and> bf_pin_count (bp_frame (sy_pool s) (g_frame_id g)) \<noteq> 0"
    if "g \<in> set (sy_guards s)" using guard_resident(1,2)[OF ok guard_right[OF that]] by simp
  show "bf_state (bp_frame (sy_pool s) f) = FREE" if "Create fid initializer f (New_Bind reserved) \<in> set (sy_tasks s)"
    using pool_okD(6)[OF ok task_right[OF that, of "Own_Frame f FREE IO_NONE default_PageId"]] by simp
  show "bf_state (bp_frame (ResetFrame f p) f) = FREE" if "f \<in> frame_ids p"
    using bp_frame_set_frame[OF that] by (simp add: ResetFrame_def)
qed

section \<open>Indices\<close>

text \<open>Every frame and every load a call remembers while the pool mutex is free.\<close>

fun acquire_frames :: "Acquire_Point \<Rightarrow> FrameId list" where
  "acquire_frames Acquiring = []"
| "acquire_frames (Candidate f victim) = [f]"
| "acquire_frames (Reserved f victim) = [f]"
| "acquire_frames (Evict_Write f victim img) = [f]"
| "acquire_frames (Evict_Sync f victim) = [f]"
| "acquire_frames (Evict_Done f victim status) = [f]"

fun flush_frames :: "Flush_Point \<Rightarrow> FrameId list" where
  "flush_frames Flush_Next = []"
| "flush_frames (Copy_Image f page_id epoch) = [f]"
| "flush_frames (Write_Image f page_id epoch generation img) = [f]"
| "flush_frames (Sync_Image f page_id epoch generation) = [f]"
| "flush_frames (Reconcile f page_id epoch generation status) = [f]"

fun task_frames :: "Task \<Rightarrow> FrameId list" where
  "task_frames (Returned_Guard (Ok g)) = [g_frame_id g]"
| "task_frames (Acquire purpose point) = acquire_frames point"
| "task_frames (Load page_id l mode f validator point) = [f]"
| "task_frames (Create fid initializer f point) = [f]"
| "task_frames (Latch f mode) = [f]"
| "task_frames (Unpin f) = [f]"
| "task_frames (Flushing job point) = flush_frames point"
| "task_frames _ = []"

fun task_loads :: "Task \<Rightarrow> nat list" where
  "task_loads (Join page_id l mode) = [l]"
| "task_loads (Acquire (For_Load page_id l mode) point) = [l]"
| "task_loads (Load page_id l mode f validator point) = [l]"
| "task_loads _ = []"

lemma task_frame_right:
  assumes "f \<in> set (task_frames t)"
  shows "\<exists>r \<in># task_rights t. \<forall>p. right_ok p r \<longrightarrow> unat f < length (bp_frames p)"
proof (cases t)
  case (Returned_Guard r)
  then show ?thesis using assms by (cases r) simp_all
next
  case (Acquire purpose point)
  then show ?thesis using assms by (cases point) (simp_all add: eviction_rights_def)
next
  case (Create fid initializer g point)
  then show ?thesis using assms by (cases point) (simp_all add: building_rights_def)
next
  case (Flushing job point)
  then show ?thesis using assms by (cases point) simp_all
qed (use assms in simp_all)

lemma task_load_right:
  assumes "l \<in> set (task_loads t)"
  shows "\<exists>r \<in># task_rights t. \<forall>p. right_ok p r \<longrightarrow> l < length (bp_loads p)"
proof (cases t)
  case (Acquire purpose point)
  then show ?thesis using assms by (cases purpose) simp_all
qed (use assms in simp_all)

text \<open>C19: type. Every reachable state is well formed: the keys of the page table and of the file
  table are distinct, the CLOCK hand and its reference bits match the frames, and every index into the
  frame array or to a load operation that anything holds is in range: those of the free list, of every
  entry of the page table in whatever state, of a finished load, of a guard and of the position of any call. So
  no access of the pool to a frame or a load is out of bounds. A load that an entry names is not finished.
  Callers retire a file by one call at a time.\<close>

theorem indices_in_range:
  assumes "pool_run io n m d s"
  shows "shape_ok (sy_pool s) \<and>
    (\<forall>t \<in> set (sy_tasks s). \<forall>f \<in> set (task_frames t). unat f < length (bp_frames (sy_pool s))) \<and>
    (\<forall>t \<in> set (sy_tasks s). \<forall>l \<in> set (task_loads t). l < length (bp_loads (sy_pool s))) \<and>
    (\<forall>g \<in> set (sy_guards s). unat (g_frame_id g) < length (bp_frames (sy_pool s))) \<and>
    (\<forall>load \<in> set (bp_loads (sy_pool s)). \<forall>f. lo_frame_id load = Some f \<longrightarrow> unat f < length (bp_frames (sy_pool s))) \<and>
    (\<forall>f \<in> set (bp_free_list (sy_pool s)). unat f < length (bp_frames (sy_pool s))) \<and>
    (\<forall>pid e. find_entry (sy_pool s) pid = Some e \<longrightarrow> unat (pt_frame_id e) < length (bp_frames (sy_pool s)) \<and>
      (\<forall>l. pt_load e = Some l \<longrightarrow> l < length (bp_loads (sy_pool s)) \<and> \<not> lo_done (bp_loads (sy_pool s) ! l)))"
proof (intro conjI ballI allI impI)
  note ok = pool_run_ok[OF assms]
  show "shape_ok (sy_pool s)" by (rule pool_okD(1)[OF ok])
  show "unat f < length (bp_frames (sy_pool s))" if "t \<in> set (sy_tasks s)" "f \<in> set (task_frames t)" for t f
    using task_frame_right[OF that(2)] task_right[OF that(1)] pool_okD(6)[OF ok] by blast
  show "l < length (bp_loads (sy_pool s))" if "t \<in> set (sy_tasks s)" "l \<in> set (task_loads t)" for t l
    using task_load_right[OF that(2)] task_right[OF that(1)] pool_okD(6)[OF ok] by blast
  show "unat (g_frame_id g) < length (bp_frames (sy_pool s))" if "g \<in> set (sy_guards s)" for g
    using guard_resident(3)[OF ok guard_right[OF that]] by simp
  show "unat f < length (bp_frames (sy_pool s))"
    if "load \<in> set (bp_loads (sy_pool s))" "lo_frame_id load = Some f" for load f
    using that pool_okD(4)[OF ok] by (fastforce simp: in_set_conv_nth load_ok_def Let_def)
  show "unat f < length (bp_frames (sy_pool s))" if "f \<in> set (bp_free_list (sy_pool s))" for f
    using pool_okD(1)[OF ok] that by (auto simp: shape_ok_def)
  show "unat (pt_frame_id e) < length (bp_frames (sy_pool s))" if "find_entry (sy_pool s) pid = Some e" for pid e
    using entry_frame(3)[OF ok that] intent_load(2)[OF ok that] pool_okD(1)[OF ok]
    by (cases "pt_state e = PT_LOAD_INTENT") (auto simp: shape_ok_def clock_inv_def)
  show "l < length (bp_loads (sy_pool s))" "\<not> lo_done (bp_loads (sy_pool s) ! l)"
    if "find_entry (sy_pool s) pid = Some e" "pt_load e = Some l" for pid e l
    using entry_load[OF ok that] by simp_all
qed

theorem indices_in_range_witness: "shape_ok created_pool"
  using indices_in_range[OF sample_pool_run[OF created_run]] by (simp add: created_system_def)

section \<open>Calls\<close>

text \<open>C17: error. No call of the pool ends by an exception: the lookups of \<open>buffer_pool.cpp\<close> that
  throw when their key is missing (\<open>files_.at\<close>, \<open>page_table_.at\<close>) always find it, under every
  interleaving and every device error, as long as a file is retired by one call at a time.\<close>

theorem no_call_throws:
  assumes "pool_run io n m d s"
  shows "Thrown \<notin> set (sy_tasks s)"
proof
  assume "Thrown \<in> set (sy_tasks s)"
  then have "Impossible \<in># system_rights s" by (rule task_right) simp
  from pool_okD(6)[OF pool_run_ok[OF assms] this] show False by simp
qed

theorem no_call_throws_witness: "Thrown \<notin> set (sy_tasks resting_system)"
  by (rule no_call_throws[OF sample_pool_run[OF resting_run]])

text \<open>C18: error. The discipline is needed, and the code does not enforce it: two overlapping calls of \<open>RetireFile\<close>
  on one file can end with \<open>std::out_of_range\<close> thrown from the wait of the first. From a new pool, after a
  file is registered, both calls come in. The first marks the file as retiring and is in its notification, with the
  mutex free; the second finds the file retiring and drained, closes it, erases the registration and returns
  success; the wait of the first then looks the file up with \<open>files_.at\<close>.\<close>

theorem retire_race_throws:
  assumes count: "io_PageCount io fid d = Some (Ok c, d')" and fid: "fid \<noteq> INVALID_FILE_ID"
    and new: "BufferPool_new n m = Some p"
  shows "\<exists>r s t u. system_run io (\<lambda>_. True) (system_start p d) r \<and>
    sy_tasks r = [Returned (Ok ()), Retire fid a, Retire fid b] \<and>
    (\<exists>fe. find_file (sy_pool r) fid = Some fe \<and> fe_state fe = ACTIVE) \<and>
    system_step io r s \<and> sy_tasks s = [Returned (Ok ()), Drain fid a, Retire fid b] \<and>
    (\<exists>fe. find_file (sy_pool s) fid = Some fe \<and> fe_state fe = RETIRING) \<and>
    system_step io s t \<and> sy_tasks t = [Returned (Ok ()), Drain fid a, Returned (Ok ())] \<and>
    find_file (sy_pool t) fid = None \<and>
    system_step io t u \<and> sy_tasks u = [Returned (Ok ()), Thrown, Returned (Ok ())]"
proof -
  have empty: "bp_files p = []" "bp_page_table p = []" "\<not> bp_quiescing p"
    using new by (auto simp: BufferPool_new_def split: if_splits)
  have fid: "fid \<noteq> 0" using fid by (simp add: INVALID_FILE_ID_def)
  let ?s = "\<lambda>files ts. \<lparr>sy_pool = p\<lparr>bp_files := files\<rparr>, sy_device = d', sy_tasks = Returned (Ok ()) # ts, sy_guards = []\<rparr>"
  let ?fe = "\<lambda>st. \<lparr>fe_state = st, fe_validator = any_page, fe_published_page_count = c, fe_new_page_in_progress = False\<rparr>"
  let ?r = "?s [(fid, ?fe ACTIVE)] [Retire fid a, Retire fid b]" and ?s1 = "?s [(fid, ?fe RETIRING)] [Drain fid a, Retire fid b]"
  let ?t = "?s [] [Drain fid a, Returned (Ok ())]" and ?u = "?s [] [Thrown, Returned (Ok ())]"
  note evaluation = system_start_def count fid empty pool_evaluation register_counted_def retire_file_def drain_file_def
    file_drained_def close_file_def dirty_pages_def end_flush_def numeral_2_eq_2 INVALID_FILE_ID_def
  have "script (\<lambda>_. True) io [Do (Register fid any_page), Go 0, Go 0, Do (Retire fid a), Do (Retire fid b)] (system_start p d) =
      Some ?r" by (simp add: evaluation)
  then have run: "system_run io (\<lambda>_. True) (system_start p d) ?r" by (rule script_run) (simp add: run_start)
  have "perform io (Go 1) ?r = Some ?s1" "perform io (Go 2) ?s1 = Some ?t" "perform io (Go 1) ?t = Some ?u"
    by (simp_all add: evaluation)
  note steps = this[THEN perform_step]
  show ?thesis
    by (rule exI[of _ ?r], rule exI[of _ ?s1], rule exI[of _ ?t], rule exI[of _ ?u]) (use run steps in \<open>simp add: find_file_def\<close>)
qed

theorem retire_race_throws_witness:
  "\<exists>s u. system_run sample_io (\<lambda>_. True) (system_start one_frame sample_device) s \<and>
    sy_tasks s = [Returned (Ok ()), Drain 7 FLUSH_DIRTY, Retire 7 DISCARD_DIRTY] \<and>
    system_run sample_io (\<lambda>_. True) s u \<and> sy_tasks u = [Returned (Ok ()), Thrown, Returned (Ok ())]"
proof -
  have "(7 :: FileId) \<noteq> INVALID_FILE_ID" by (simp add: INVALID_FILE_ID_def)
  from retire_race_throws[OF sample_io_count this one_frame_new, of FLUSH_DIRTY DISCARD_DIRTY]
  obtain r s t u where steps: "system_run sample_io (\<lambda>_. True) (system_start one_frame sample_device) r"
    "system_step sample_io r s" "system_step sample_io s t" "system_step sample_io t u"
    and tasks: "sy_tasks s = [Returned (Ok ()), Drain 7 FLUSH_DIRTY, Retire 7 DISCARD_DIRTY]"
      "sy_tasks u = [Returned (Ok ()), Thrown, Returned (Ok ())]" by blast
  have "system_run sample_io (\<lambda>_. True) s u"
    by (rule run_more[OF run_more[OF run_start steps(3)] steps(4)]) simp_all
  then show ?thesis using run_more[OF steps(1,2)] tasks by blast
qed

fun finished :: "Task \<Rightarrow> bool" where
  "finished (Returned status) = True"
| "finished (Returned_Guard (Unexpected e)) = True"
| "finished _ = False"

lemma finished_rights: "finished t \<Longrightarrow> task_rights t = {#}"
  by (cases t rule: finished.cases) simp_all

lemma idle_rights:
  assumes "list_all finished (sy_tasks s)" and "sy_guards s = []"
  shows "system_rights s = {#}"
proof -
  have "rights_of ts = {#}" if "list_all finished ts" for ts
    using that finished_rights by (induction ts) (simp_all add: rights_of_def)
  then show ?thesis using assms by (simp add: system_rights_def)
qed

lemma resident_pages_count:
  assumes ok: "pool_ok p {#}"
  shows "card {f \<in> frame_ids p. bf_state (bp_frame p f) = RESIDENT} = length (bp_page_table p)"
proof -
  have entry: "find_entry p pid = Some e \<Longrightarrow> pt_state e = PT_RESIDENT" for pid e
    using pool_okD(3)[OF ok, of pid] by (auto simp: entry_ok_def split: if_splits)
  note mem = find_entry_mem[OF pool_okD(1)[OF ok]]
  have "bij_betw (\<lambda>(pid, e). pt_frame_id e) (set (bp_page_table p)) {f \<in> frame_ids p. bf_state (bp_frame p f) = RESIDENT}"
    unfolding bij_betw_def inj_on_def
  proof (intro conjI ballI impI)
    fix x y
    assume "x \<in> set (bp_page_table p)" "y \<in> set (bp_page_table p)"
      and same: "(case x of (pid, e) \<Rightarrow> pt_frame_id e) = (case y of (pid, e) \<Rightarrow> pt_frame_id e)"
    then have "find_entry p (fst x) = Some (snd x)" "find_entry p (fst y) = Some (snd y)" by (auto simp: mem)
    moreover from this have "fst x = fst y"
      using resident_entry(3)[OF ok _ entry] same by (metis case_prod_beta)
    ultimately show "x = y" by (simp add: prod_eq_iff)
  next
    show "(\<lambda>(pid, e). pt_frame_id e) ` set (bp_page_table p) = {f \<in> frame_ids p. bf_state (bp_frame p f) = RESIDENT}"
      (is "?l = ?r")
    proof
      show "?l \<subseteq> ?r" using resident_entry[OF ok _ entry] mem by fastforce
      show "?r \<subseteq> ?l"
      proof
        fix f assume "f \<in> ?r"
        then have "find_entry p (Page_id (bf_page (bp_frame p f))) =
            Some \<lparr>pt_state = PT_RESIDENT, pt_frame_id = f, pt_load = None\<rparr>"
          using resident_frame(1)[OF ok] by blast
        then show "f \<in> ?l" using mem by force
      qed
    qed
  qed
  from bij_betw_same_card[OF this] show ?thesis
    using pool_okD(1)[OF ok] distinct_card[of "bp_page_table p"] by (simp add: shape_ok_def distinct_map)
qed

lemma card_frame_ids: "n \<le> 4294967296 \<Longrightarrow> card {f :: FrameId. unat f < n} = n"
proof -
  assume n: "n \<le> 4294967296"
  have "bij_betw unat {f :: FrameId. unat f < n} {..<n}"
    using n by (intro bij_betw_byWitness[where f' = of_nat]) (auto simp: unsigned_of_nat take_bit_nat_eq_self)
  from bij_betw_same_card[OF this] show ?thesis by simp
qed

text \<open>C15: liveness. Nothing is lost: once every call has returned and every guard is released, the
  condition on which \<open>Shutdown\<close> waits holds, so a shutdown then proceeds at once; every page-table
  entry is resident and unpinned; and the free frames and the cached pages together are all the
  frames of the pool, whatever the calls did and however the device failed.
  Callers retire a file by one call at a time.\<close>

theorem pool_at_rest:
  assumes "pool_run io n m d s" and "list_all finished (sy_tasks s)" and "sy_guards s = []"
  shows "pool_drained (sy_pool s) \<and>
    FreeFrameCount (sy_pool s) + length (bp_page_table (sy_pool s)) = length (bp_frames (sy_pool s))"
proof
  let ?p = "sy_pool s"
  have ok: "pool_ok ?p {#}" using pool_run_ok[OF assms(1)] idle_rights[OF assms(2,3)] by simp
  note shape = pool_okD(1)[OF ok]
  have len: "length (bp_frames ?p) \<le> 4294967296" using shape by (simp add: shape_ok_def clock_inv_def)
  have frame: "bf_pin_count (bp_frame ?p f) = 0 \<and> bf_io_state (bp_frame ?p f) = IO_NONE \<and>
      count (mset (bp_free_list ?p)) f + of_bool (bf_state (bp_frame ?p f) = RESIDENT) = 1" if "f \<in> frame_ids ?p" for f
    using pool_okD(2)[OF ok that] count_mset_0_iff[of "bp_free_list ?p" f]
    by (cases "bf_state (bp_frame ?p f)"; cases "bf_io_state (bp_frame ?p f)")
      (auto simp: frame_ok_def Let_def legal_frame_def unat_eq_zero
        simp del: count_mset_0_iff)
  have "bf_pin_count fr = 0 \<and> bf_io_state fr = IO_NONE" if fr: "fr \<in> set (bp_frames ?p)" for fr
  proof -
    obtain i where i: "i < length (bp_frames ?p)" "bp_frames ?p ! i = fr" using fr by (auto simp: in_set_conv_nth)
    then have "bp_frame ?p (of_nat i) = fr" "of_nat i \<in> frame_ids ?p" using len by (auto simp: bp_frame_def unsigned_of_nat take_bit_nat_eq_self)
    then show ?thesis using frame by blast
  qed
  moreover have "pt_state e = PT_RESIDENT" if "(pid, e) \<in> set (bp_page_table ?p)" for pid e
    using pool_okD(3)[OF ok, of pid] that find_entry_mem[OF shape, of pid e] by (auto simp: entry_ok_def split: if_splits)
  moreover have "\<not> fe_new_page_in_progress e" if "(fid, e) \<in> set (bp_files ?p)" for fid e
  proof -
    have "find_file ?p fid = Some e" using that shape by (simp add: find_file_def shape_ok_def)
    then show ?thesis using pool_okD(5)[OF ok, of fid] by (auto simp: file_ok_def)
  qed
  ultimately show "pool_drained ?p" by (auto simp: pool_drained_def list_all_iff)
  have "length (bp_free_list ?p) = (\<Sum>f \<in> frame_ids ?p. count (mset (bp_free_list ?p)) f)"
    using shape by (simp add: shape_ok_def sum.mono_neutral_right[of "frame_ids ?p" "set (bp_free_list ?p)"]
        flip: size_mset) (simp add: size_multiset_overloaded_eq sum.mono_neutral_left count_eq_zero_iff)
  moreover have "length (bp_page_table ?p) = (\<Sum>f \<in> frame_ids ?p. of_bool (bf_state (bp_frame ?p f) = RESIDENT))"
    using resident_pages_count[OF ok] by (simp add: of_bool_def sum.If_cases Int_def)
  moreover have "(\<Sum>f \<in> frame_ids ?p. count (mset (bp_free_list ?p)) f + of_bool (bf_state (bp_frame ?p f) = RESIDENT)) =
      (\<Sum>f \<in> frame_ids ?p. 1)"
    by (rule sum.cong) (use frame in auto)
  ultimately have "length (bp_free_list ?p) + length (bp_page_table ?p) = (\<Sum>f \<in> frame_ids ?p. 1)"
    unfolding sum.distrib by simp
  then show "FreeFrameCount ?p + length (bp_page_table ?p) = length (bp_frames ?p)"
    using card_frame_ids[OF len] by (simp add: FreeFrameCount_def)
qed

theorem pool_at_rest_witness:
  "pool_drained (sy_pool resting_system) \<and> FreeFrameCount (sy_pool resting_system) = 0"
  using pool_at_rest[OF sample_pool_run[OF resting_run]]
  by (simp add: resting_system_def created_system_def created_pool_def numeral_3_eq_3)

end
