(* ===== verification/Store_Properties.thy ===== *)
theory Store_Properties
  imports Pool_Transparent Pool_Properties
begin

text \<open>
  What the buffer pool over the disk manager guarantees of the contents of pages, for every kernel with
  the laws of \<open>posix_kernel\<close>: its system calls may be interrupted, transfer less than asked, fail, and
  leave the page they were writing torn. The disk manager's registered files are distinct, a file is
  retired by one call at a time, and initializers keep to the span of the page they are given.
\<close>

definition disciplined :: "'d system \<Rightarrow> bool" where
  "disciplined s \<longleftrightarrow> one_retirer s \<and> (\<forall>t \<in> set (sy_tasks s). well_spanned t)"

definition cache_run :: "'k posix \<Rightarrow> ('k \<Rightarrow> os_view) \<Rightarrow> nat \<Rightarrow> 32 word \<Rightarrow> DiskManager \<times> 'k \<Rightarrow>
    (DiskManager \<times> 'k) system \<Rightarrow> bool" where
  "cache_run os view n m d s \<longleftrightarrow> n \<le> 4294967296 \<and> disk_sound view d \<and>
     (\<exists>p. BufferPool_new n m = Some p \<and> system_run (DiskPageIo os) disciplined (system_start p d) s)"

text \<open>Steps none of which changes the content of the page \<open>pid\<close>.\<close>

inductive untouched :: "'d page_io \<Rightarrow> ('d \<Rightarrow> PageId \<Rightarrow> byte list option) \<Rightarrow> PageId \<Rightarrow> 'd system \<Rightarrow> 'd system \<Rightarrow> bool"
  for io dev pid s where
  untouched_start: "untouched io dev pid s s"
| untouched_more: "untouched io dev pid s t \<Longrightarrow> system_step io t u \<Longrightarrow> disciplined u \<Longrightarrow>
    \<not> edits pid t u \<Longrightarrow> \<not> call_changes io dev pid t u \<Longrightarrow> untouched io dev pid s u"

section \<open>Runs\<close>

lemma new_pool_saved:
  assumes "BufferPool_new n m = Some p"
  shows "all_saved disk U p"
proof -
  have p: "bp_frames p = replicate n BufferFrame_new" using assms by (auto simp: BufferPool_new_def split: if_splits)
  then have "bp_frame p f = BufferFrame_new" if "f \<in> frame_ids p" for f using that by (simp add: bp_frame_def)
  then show ?thesis by (simp add: all_saved_def saved_def contents_def BufferFrame_new_def Page_new_def)
qed

context page_device
begin

lemma step_stored:
  assumes "system_step io s t" and "pool_ok (sy_pool s) (system_rights s)" and "store_ok dev sound s"
    and "disciplined s" and "disciplined t"
  shows "pool_ok (sy_pool t) (system_rights t) \<and> store_ok dev sound t \<and>
    (\<forall>pid. content dev t pid \<noteq> content dev s pid \<longrightarrow> edits pid s t \<or> call_changes io dev pid s t)"
  using system_step_ok[OF assms(1,2)] system_step_stored[OF assms(1-3)] assms(4,5) by (auto simp: disciplined_def)

lemma run_stored:
  assumes run: "system_run io disciplined (system_start p d) s" and new: "BufferPool_new n m = Some p"
    and n: "n \<le> 4294967296" and sound: "sound d"
  shows "pool_ok (sy_pool s) (system_rights s) \<and> store_ok dev sound s \<and> disciplined s"
  using run
proof induction
  case run_start
  then show ?case using BufferPool_new_ok[OF new n] new_pool_saved[OF new] sound
    by (simp add: system_start_def system_rights_def rights_of_def store_ok_def)
next
  case (run_more t u)
  then show ?case using step_stored by blast
qed

lemma untouched_content:
  assumes "untouched io dev pid s t"
    and "pool_ok (sy_pool s) (system_rights s) \<and> store_ok dev sound s \<and> disciplined s"
  shows "(pool_ok (sy_pool t) (system_rights t) \<and> store_ok dev sound t \<and> disciplined t) \<and> content dev t pid = content dev s pid"
  using assms
proof (induction rule: untouched.induct)
  case (untouched_more t u)
  then show ?case using step_stored[of t u] by metis
qed simp

end

lemma seal_injective:
  assumes len: "length a = 8192" "length b = 8192" and same: "FinalizePageChecksum a = FinalizePageChecksum b"
  shows "take 16 a = take 16 b \<and> drop 20 a = drop 20 b"
proof -
  have "take 16 (FinalizePageChecksum c) = take 16 c \<and> drop 20 (FinalizePageChecksum c) = drop 20 c"
    if "length c = 8192" for c
    using that by (simp add: FinalizePageChecksum_eq put_def)
  then show ?thesis using len same by metis
qed

lemma guard_content:
  assumes ok: "pool_ok (sy_pool s) (system_rights s)" and g: "g \<in> set (sy_guards s)"
  shows "content dev s (g_page_id g) = Some (sealed (sy_pool s) (g_frame_id g))"
proof -
  note right = guard_right[OF g]
  note res = guard_resident[OF ok right]
  have "cached (sy_pool s) (g_page_id g) = Some (g_frame_id g)"
    using resident_frame(1)[OF ok res(3,1)] pool_okD(6)[OF ok right] by (simp add: cached_def)
  then show ?thesis by (simp add: content_def current_def)
qed


context posix_kernel
begin

lemma disk_device: "page_device (DiskPageIo os) (disk_pages view) (disk_sound view)"
  by (rule disk.page_device_axioms)

lemma cache_run_stored:
  assumes "cache_run os view n m d s"
  shows "pool_ok (sy_pool s) (system_rights s) \<and> store_ok (disk_pages view) (disk_sound view) s \<and> disciplined s"
proof -
  obtain p where "BufferPool_new n m = Some p" "system_run (DiskPageIo os) disciplined (system_start p d) s"
    "n \<le> 4294967296" "disk_sound view d" using assms by (auto simp: cache_run_def)
  then show ?thesis using page_device.run_stored[OF disk_device] by blast
qed

end

section \<open>A sample run\<close>

interpretation sample_pages: page_device "DiskPageIo sample_os" "disk_pages sk_view" "disk_sound sk_view"
  by (rule sample.disk_device)

lemma calm_disciplined: "calm s \<Longrightarrow> disciplined s"
  using calm_one_retirer by (auto simp: disciplined_def calm_def list_all_iff)

lemma sample_device_sound: "disk_sound sk_view sample_device"
  using sample_disk_ok
  by (auto simp: disk_sound_def sample_device_def distinct_files_def file_inode_def sample_dm_def split: if_splits)

lemma sample_cache_run:
  "system_run sample_io calm (system_start one_frame sample_device) s \<Longrightarrow> cache_run sample_os sk_view 1 8 sample_device s"
  using one_frame_new sample_device_sound system_run_mono[OF _ calm_disciplined] by (auto simp: cache_run_def)

text \<open>A state no step from which touches a page.\<close>

fun harmless :: "Task \<Rightarrow> bool" where
  "harmless (Create fid initializer f point) = False"
| "harmless (Retire fid disposition) = False"
| "harmless (Drain fid disposition) = False"
| "harmless _ = True"

definition at_ease :: "'d system \<Rightarrow> bool" where
  "at_ease s \<longleftrightarrow> calm s \<and> sy_guards s = [] \<and> list_all harmless (sy_tasks s)"

lemma harmless_touches: "harmless t \<Longrightarrow> touches disk t = {}"
  by (cases t) simp_all

lemma calls_touch_nothing: "list_all harmless (sy_tasks s) \<Longrightarrow> \<not> call_changes io dev pid s t"
  using harmless_touches by (fastforce elim!: call_changes.cases simp: list_all_length)

lemma at_ease_step:
  assumes "untouched io dev pid s t" and "perform io a t = Some u" and "at_ease t" and "disciplined u"
  shows "untouched io dev pid s u"
proof (rule untouched_more[OF assms(1) perform_step[OF assms(2)] assms(4)])
  show "\<not> edits pid t u" using assms(3) by (auto elim!: edits.cases simp: at_ease_def)
  show "\<not> call_changes io dev pid t u" using assms(3) by (simp add: at_ease_def calls_touch_nothing)
qed

lemma at_ease_script:
  "script at_ease io as t = Some u \<Longrightarrow> at_ease t \<Longrightarrow> untouched io dev pid s t \<Longrightarrow> untouched io dev pid s u"
proof (induction as arbitrary: t)
  case (Cons a as)
  then obtain v where v: "perform io a t = Some v" "at_ease v" "script at_ease io as v = Some u"
    by (auto split: option.splits if_splits)
  show ?case
    by (rule Cons.IH[OF v(3,2) at_ease_step[OF Cons.prems(3) v(1) Cons.prems(2) calm_disciplined]])
      (use v(2) in \<open>simp add: at_ease_def\<close>)
qed simp

lemma drop_no_edit:
  assumes "perform io Drop s = Some t"
  shows "\<not> edits pid s t"
proof -
  have "length (sy_tasks t) = Suc (length (sy_tasks s))" using assms by (auto split: list.splits if_splits)
  then show ?thesis by (auto elim!: edits.cases)
qed

lemma drop_step_untouched:
  assumes "perform io Drop s = Some t" and "list_all harmless (sy_tasks s)" and "disciplined t"
  shows "untouched io dev pid s t"
proof (rule untouched_more[OF untouched_start perform_step[OF assms(1)] assms(3)])
  show "\<not> edits pid s t" by (rule drop_no_edit[OF assms(1)])
  show "\<not> call_changes io dev pid s t" by (rule calls_touch_nothing[OF assms(2)])
qed

text \<open>The write guard of the created page is released and the page fetched for reading.\<close>

definition read_guard :: Guard where
  "read_guard = created_guard\<lparr>g_mode := SHARED\<rparr>"

definition fetch_acts :: "act list" where
  "fetch_acts = (let i = Suc (Suc 0)
     in [Go i, Do (Pin (PageId 7 2) SHARED False), Go (Suc i), Go (Suc i), Go (Suc i)])"

lemma refetch_script:
  "\<exists>s t u. perform sample_io Drop created_system = Some s \<and> at_ease s \<and>
    script at_ease sample_io fetch_acts s = Some t \<and>
    at_ease t \<and> perform sample_io (Get (Suc (Suc (Suc 0)))) t = Some u \<and> calm u \<and> sy_guards u = [read_guard]"
  by (simp add: at_ease_def calm_def created_system_def created_pool_def created_frame_def created_guard_def read_guard_def
      pool_evaluation ReleaseLatch_def unpin_frame_def pin_page_def CheckFetchableLocked_def PinResidentLocked_def
      MakeGuard_def fetch_acts_def)

lemma refetched:
  obtains u where "untouched sample_io (disk_pages sk_view) pid created_system u" "sy_guards u = [read_guard]"
proof -
  obtain s t u where run: "perform sample_io Drop created_system = Some s" "at_ease s"
    "script at_ease sample_io fetch_acts s = Some t"
    "at_ease t" "perform sample_io (Get (Suc (Suc (Suc 0)))) t = Some u" "calm u" "sy_guards u = [read_guard]"
    using refetch_script by blast
  have "untouched sample_io (disk_pages sk_view) pid created_system s"
    by (rule drop_step_untouched[OF run(1) _ calm_disciplined])
      (use run(2) in \<open>simp_all add: created_system_def at_ease_def\<close>)
  from at_ease_step[OF at_ease_script[OF run(3,2) this] run(5,4) calm_disciplined[OF run(6)]] run(7) that
  show ?thesis by blast
qed

section \<open>A cache that does not show\<close>

text \<open>C3: refinement. The pool over the disk manager is a store of pages. Its content is, page by page,
  the frame's bytes under their checksum while the page is cached and the disk's page otherwise; and no
  step of any run changes it, except an edit through a write guard of that page, the publication of a
  page under construction, the extension of a file by a page that was not there, and the closing of a
  file with its changes discarded. Loads, evictions, writebacks, races between a flush and a writer,
  failed and torn writes, and shutdowns change where a page is, never what it is.
  Callers retire a file by one call at a time, and initializers of new pages keep to the page they are given.\<close>

theorem cache_is_transparent:
  assumes "posix_kernel os view patience" and "cache_run os view n m d s"
    and "system_step (DiskPageIo os) s t" and "disciplined t"
  shows "content (disk_pages view) t pid = content (disk_pages view) s pid \<or>
    edits pid s t \<or> call_changes (DiskPageIo os) (disk_pages view) pid s t"
  using page_device.step_stored[OF posix_kernel.disk_device[OF assms(1)] assms(3)]
    posix_kernel.cache_run_stored[OF assms(1,2)] assms(4) by blast

theorem cache_is_transparent_witness:
  "\<exists>t. system_step sample_io created_system t \<and> sy_guards t = [] \<and>
     content (disk_pages sk_view) t (PageId 7 2) = content (disk_pages sk_view) created_system (PageId 7 2)"
proof -
  obtain s where s: "perform sample_io Drop created_system = Some s" "at_ease s" using refetch_script by blast
  note step = perform_step[OF s(1)]
  have d: "disciplined s" by (rule calm_disciplined) (use s(2) in \<open>simp add: at_ease_def\<close>)
  have "\<not> call_changes sample_io (disk_pages sk_view) (PageId 7 2) created_system s"
    by (rule calls_touch_nothing) (simp add: created_system_def)
  moreover have "\<not> edits (PageId 7 2) created_system s" by (rule drop_no_edit[OF s(1)])
  ultimately show ?thesis
    using cache_is_transparent[OF sample.posix_kernel_axioms sample_cache_run[OF created_run] step d, of "PageId 7 2"] step s(2)
    by (auto simp: at_ease_def)
qed

text \<open>C2: functional. Reading again: if a guard on a page is held in one state of a run and a guard on
  the same page in a later one, and no step in between edited the page, rebuilt or discarded it, then
  the second guard's frame has the bytes the first one had, in whatever frame it is now, however often
  the page was written back, evicted and reloaded since; only the four bytes of the stored checksum may
  differ.
  Callers retire a file by one call at a time, and initializers of new pages keep to the page they are given.\<close>

theorem reread_unchanged:
  assumes "posix_kernel os view patience" and "cache_run os view n m d s"
    and "untouched (DiskPageIo os) (disk_pages view) pid s t"
    and "g \<in> set (sy_guards s)" and "g_page_id g = pid" and "h \<in> set (sy_guards t)" and "g_page_id h = pid"
  shows "take 16 (contents (sy_pool t) (g_frame_id h)) = take 16 (contents (sy_pool s) (g_frame_id g)) \<and>
    drop 20 (contents (sy_pool t) (g_frame_id h)) = drop 20 (contents (sy_pool s) (g_frame_id g))"
proof -
  note device = posix_kernel.disk_device[OF assms(1)]
  note ok = posix_kernel.cache_run_stored[OF assms(1,2)]
  note later = page_device.untouched_content[OF device assms(3) ok]
  have len: "length (contents (sy_pool u) (g_frame_id k)) = 8192"
    if "pool_ok (sy_pool u) (system_rights u)" "store_ok (disk_pages view) (disk_sound view) u" "k \<in> set (sy_guards u)" for u k
    using guard_resident(3)[OF that(1) guard_right[OF that(3)]] that(2) by (auto simp: store_ok_def all_saved_def saved_def)
  have "sealed (sy_pool t) (g_frame_id h) = sealed (sy_pool s) (g_frame_id g)"
    using guard_content[OF _ assms(4), of "disk_pages view"] guard_content[OF _ assms(6), of "disk_pages view"] ok later assms(5,7)
    by simp
  then show ?thesis
    using seal_injective[OF len len] ok later assms(4,6) by (simp add: sealed_def)
qed

theorem reread_unchanged_witness:
  "\<exists>u. untouched sample_io (disk_pages sk_view) (PageId 7 2) created_system u \<and> sy_guards u = [read_guard] \<and>
     drop 20 (contents (sy_pool u) 0) = drop 20 (titled 2)"
proof -
  obtain u where u: "untouched sample_io (disk_pages sk_view) (PageId 7 2) created_system u" "sy_guards u = [read_guard]"
    using refetched by blast
  have g: "created_guard \<in> set (sy_guards created_system)" "g_page_id created_guard = PageId 7 2"
    "read_guard \<in> set (sy_guards u)" "g_page_id read_guard = PageId 7 2"
    using u(2) by (simp_all add: created_system_def created_guard_def read_guard_def)
  from reread_unchanged[OF sample.posix_kernel_axioms sample_cache_run[OF created_run] u(1) g] u(2)
  have "drop 20 (contents (sy_pool u) 0) = drop 20 (titled 2)"
    by (simp add: read_guard_def created_guard_def created_system_def created_pool_def created_frame_def contents_def bp_frame_def)
  then show ?thesis using u by blast
qed

text \<open>C4: invariant. A clean page is a saved page: in every reachable state, when the frame of a cached
  page is not dirty and no writer has unpublished changes to it, the disk's page is the frame's bytes
  with their checksum, so a load of it would find them valid. An eviction that drops a clean page
  without writing it loses nothing.
  Callers retire a file by one call at a time, and initializers of new pages keep to the page they are given.\<close>

theorem clean_page_is_saved:
  assumes "posix_kernel os view patience" and "cache_run os view n m d s"
    and "find_entry (sy_pool s) pid = Some \<lparr>pt_state = PT_RESIDENT, pt_frame_id = f, pt_load = None\<rparr>"
    and "\<not> bf_dirty (bp_frame (sy_pool s) f)" and "\<And>g. g \<in> set (sy_guards s) \<Longrightarrow> g_frame_id g = f \<Longrightarrow> \<not> g_unpublished g"
  shows "disk_pages view (sy_device s) pid = Some (FinalizePageChecksum (contents (sy_pool s) f)) \<and>
    VerifyPageChecksum (FinalizePageChecksum (contents (sy_pool s) f))"
proof -
  have ok: "pool_ok (sy_pool s) (system_rights s)" "store_ok (disk_pages view) (disk_sound view) s"
    using posix_kernel.cache_run_stored[OF assms(1,2)] by auto
  have re: "f \<in> frame_ids (sy_pool s)" "bf_state (bp_frame (sy_pool s) f) = RESIDENT"
    "Page_id (bf_page (bp_frame (sy_pool s) f)) = pid"
    using resident_entry[OF ok(1) assms(3)] by simp_all
  moreover have "f \<notin> unpublished (sy_guards s)" using assms(5) by (auto simp: unpublished_def)
  ultimately have "saved (disk_pages view (sy_device s)) (unpublished (sy_guards s)) (sy_pool s) f"
    using ok(2) by (simp add: store_ok_def all_saved_def)
  then show ?thesis using re assms(4) \<open>f \<notin> unpublished (sy_guards s)\<close>
    by (auto simp: saved_def sealed_def VerifyPageChecksum_Finalize)
qed

theorem clean_page_is_saved_witness:
  "disk_pages sk_view saved_device (PageId 7 2) = Some (FinalizePageChecksum (titled 2))"
  using clean_page_is_saved[OF sample.posix_kernel_axioms sample_cache_run[OF flushed_run], of "PageId 7 2" 0]
  by (simp add: flushed_system_def resting_system_def created_system_def created_pool_def created_frame_def
      find_entry_def bp_frame_def contents_def)

end
