(* ===== verification/Pool_Inspector.thy ===== *)
theory Pool_Inspector
  imports Pool_Properties
begin

text \<open>
  The diagnostic view of the pool (\<open>buffer_pool_inspector.h\<close>, \<open>buffer_pool_inspector.cpp\<close>). Each call
  takes the pool mutex, so it sees one state of the concurrent system.
\<close>

record FrameSnapshot =
  fs_frame_id :: FrameId
  fs_page_id :: PageId
  fs_state :: FrameState
  fs_io_state :: FrameIoState
  fs_pin_count :: "32 word"
  fs_dirty :: bool
  fs_referenced :: bool
  fs_modification_generation :: "64 word"
  fs_binding_epoch :: "64 word"

record PageTableSnapshot =
  ps_state :: PageTableEntryState
  ps_frame :: "FrameSnapshot option"
  ps_pending_claims :: "32 word"

definition SnapshotFrameLocked :: "BufferPool \<Rightarrow> FrameId \<Rightarrow> FrameSnapshot" where
  "SnapshotFrameLocked p f =
     (let fr = bp_frame p f
      in \<lparr>fs_frame_id = f, fs_page_id = Page_id (bf_page fr), fs_state = bf_state fr, fs_io_state = bf_io_state fr,
          fs_pin_count = bf_pin_count fr, fs_dirty = bf_dirty fr, fs_referenced = IsReferenced (bp_replacer p) f,
          fs_modification_generation = bf_modification_generation fr, fs_binding_epoch = bf_binding_epoch fr\<rparr>)"

definition InspectFrame :: "BufferPool \<Rightarrow> FrameId \<Rightarrow> FrameSnapshot" where
  "InspectFrame p f = SnapshotFrameLocked p f"

definition InspectPage :: "BufferPool \<Rightarrow> PageId \<Rightarrow> PageTableSnapshot option" where
  "InspectPage p page_id =
     (case find_entry p page_id of
        None \<Rightarrow> None
      | Some entry \<Rightarrow>
          (let snapshot = \<lparr>ps_state = pt_state entry, ps_frame = None,
                 ps_pending_claims = (case pt_load entry of Some l \<Rightarrow> lo_claims (bp_loads p ! l) | None \<Rightarrow> 0)\<rparr>
           in Some (if pt_state entry \<noteq> PT_LOAD_INTENT
                then snapshot\<lparr>ps_frame := Some (SnapshotFrameLocked p (pt_frame_id entry))\<rparr> else snapshot)))"

definition LastClockPassVisits :: "BufferPool \<Rightarrow> nat" where
  "LastClockPassVisits p = cr_last_pass_visits (bp_replacer p)"

definition IsCurrentBinding :: "BufferPool \<Rightarrow> FrameId \<Rightarrow> PageId \<Rightarrow> 64 word \<Rightarrow> bool" where
  "IsCurrentBinding p f page_id binding_epoch \<longleftrightarrow>
     (let fr = bp_frame p f
      in bf_state fr \<noteq> FREE \<and> Page_id (bf_page fr) = page_id \<and> bf_binding_epoch fr = binding_epoch)"

section \<open>The page table and the frames\<close>

text \<open>C16: invariant. The page table and the frames move together: in every reachable state, what the inspector shows of
  a page is a page-table entry and a frame in matching states, \<open>LOADING\<close> for \<open>LOADING\<close>, \<open>EVICTING\<close> for
  \<open>EVICTING\<close>, \<open>RESIDENT\<close> for \<open>RESIDENT\<close>, the frame bound to that page and to its current binding; a frame is
  shown unless the entry is only the intent to load, and then a fetch is waiting for it.
  Callers retire a file by one call at a time.\<close>

theorem table_matches_frames:
  assumes "pool_run io n m d s" and "InspectPage (sy_pool s) pid = Some snapshot"
  shows "case ps_frame snapshot of
      None \<Rightarrow> ps_state snapshot = PT_LOAD_INTENT \<and> 0 < ps_pending_claims snapshot
    | Some frame \<Rightarrow> ps_state snapshot \<noteq> PT_LOAD_INTENT \<and> fs_state frame = frame_state_of (ps_state snapshot) \<and>
        fs_page_id frame = pid \<and> frame = InspectFrame (sy_pool s) (fs_frame_id frame) \<and>
        IsCurrentBinding (sy_pool s) (fs_frame_id frame) pid (fs_binding_epoch frame)"
proof -
  let ?p = "sy_pool s"
  note ok = pool_run_ok[OF assms(1)]
  obtain e where e: "find_entry ?p pid = Some e" using assms(2) by (auto simp: InspectPage_def split: option.splits)
  show ?thesis
  proof (cases "pt_state e = PT_LOAD_INTENT")
    case True
    have "pt_load e \<noteq> None" using intent_load(1)[OF ok e True] .
    then show ?thesis using assms(2) e True entry_claims[OF ok e] by (auto simp: InspectPage_def Let_def)
  next
    case False
    then have "frame_state_of (pt_state e) \<noteq> FREE" by (cases "pt_state e") simp_all
    then show ?thesis using assms(2) e False entry_frame[OF ok e False]
      by (auto simp: InspectPage_def InspectFrame_def Let_def SnapshotFrameLocked_def IsCurrentBinding_def)
  qed
qed

theorem table_matches_frames_witness:
  "fs_state (InspectFrame created_pool 0) = RESIDENT \<and> IsCurrentBinding created_pool 0 (PageId 7 2) 1"
  using table_matches_frames[OF sample_pool_run[OF created_run], of "PageId 7 2" "the (InspectPage created_pool (PageId 7 2))"]
  by (simp add: InspectPage_def InspectFrame_def SnapshotFrameLocked_def created_system_def created_pool_def created_frame_def
      find_entry_def bp_frame_def IsReferenced_def)

end
