(* ===== verification/Pool_Drain.thy ===== *)
theory Pool_Drain
  imports Pool_Inspector Pool_Transparent
begin

text \<open>
  The end of a pool's life. Once a pool that refuses new work has drained, every call still on its way
  is \<open>idle\<close>: it can only fail, wait, or flush. A step of such a system dirties no frame and enters no
  page in the page table (\<open>calmer\<close>), so the pages that \<open>Shutdown\<close> found dirty are all it has to flush.
\<close>

fun idle :: "BufferPool \<Rightarrow> Task \<Rightarrow> bool" where
  "idle p (Returned_Guard (Ok g)) = False"
| "idle p (Join page_id l mode) = (lo_done (bp_loads p ! l) \<and> lo_frame_id (bp_loads p ! l) = None)"
| "idle p (Acquire purpose point) = False"
| "idle p (Load page_id l mode f validator point) = False"
| "idle p (Create fid initializer f point) = False"
| "idle p (Latch f mode) = False"
| "idle p (Unpin f) = False"
| "idle p _ = True"

definition quiescent :: "'d system \<Rightarrow> bool" where
  "quiescent s \<longleftrightarrow> bp_quiescing (sy_pool s) \<and> sy_guards s = [] \<and> (\<forall>t \<in> set (sy_tasks s). idle (sy_pool s) t)"

definition calmer :: "BufferPool \<Rightarrow> BufferPool \<Rightarrow> bool" where
  "calmer p p' \<longleftrightarrow> bp_quiescing p' = bp_quiescing p \<and> bp_loads p' = bp_loads p \<and>
     (\<forall>pid e. find_entry p' pid = Some e \<longrightarrow> find_entry p pid = Some e) \<and>
     length (bp_frames p') = length (bp_frames p) \<and>
     (\<forall>f \<in> frame_ids p. bf_dirty (bp_frame p' f) \<longrightarrow> bf_dirty (bp_frame p f))"

section \<open>A drained pool\<close>

lemma drained_frame:
  assumes "pool_drained p" and "f \<in> frame_ids p"
  shows "bf_pin_count (bp_frame p f) = 0" and "bf_io_state (bp_frame p f) = IO_NONE"
  using assms by (auto simp: pool_drained_def list_all_iff bp_frame_def)

lemma drained_entry:
  assumes "pool_drained p" and "find_entry p pid = Some e"
  shows "pt_state e = PT_RESIDENT"
  using assms map_of_SomeD by (fastforce simp: pool_drained_def list_all_iff find_entry_def)

lemma drained_right:
  assumes ok: "pool_ok p R" and drained: "pool_drained p" and r: "r \<in># R"
  shows "\<not> pins p f r" and "\<not> owns_entry pid r" and "\<not> creates fid r" and "\<not> writes_back f r"
proof -
  have unpinned: "held (pins p f) R = 0" if "f \<in> frame_ids p" for f
    using pool_okD(2)[OF ok that] drained_frame(1)[OF drained that] by (simp add: frame_ok_def Let_def)
  show "\<not> pins p f r"
  proof
    assume pin: "pins p f r"
    have "f \<in> frame_ids p"
      using pin pool_okD(6)[OF ok r] pool_okD(4)[OF ok] by (cases r) (auto simp: load_ok_def Let_def)
    then show False using unpinned pin r held_zero by blast
  qed
  show "\<not> owns_entry pid r"
    using pool_okD(3)[OF ok, of pid] drained_entry[OF drained, of pid] r
    by (auto simp: entry_ok_def held_zero split: option.splits)
  show "\<not> creates fid r"
  proof -
    have "\<not> fe_new_page_in_progress fe" if "find_file p fid = Some fe" for fe
      using that drained map_of_SomeD by (fastforce simp: pool_drained_def list_all_iff find_file_def)
    then show ?thesis using pool_okD(5)[OF ok, of fid] r by (auto simp: file_ok_def held_zero split: option.splits)
  qed
  show "\<not> writes_back f r"
  proof
    assume wb: "writes_back f r"
    then obtain pid epoch where r': "r = Writeback f pid epoch" by (cases r) auto
    note res = writeback_resident[OF ok r[unfolded r']]
    show False using drained_frame(2)[OF drained res(3)] res(2) by simp
  qed
qed

lemma load_owner: "r \<in># task_rights t \<Longrightarrow> owns_load l r \<Longrightarrow> \<exists>pid e. Own_Entry pid e \<in># task_rights t"
proof (induction t rule: task_rights.induct)
  case (4 purpose point)
  then show ?case by (cases purpose; cases point) (auto simp: eviction_rights_def)
next
  case (6 fid initializer f point)
  then show ?case by (cases point) (auto simp: building_rights_def)
next
  case (9 job point)
  then show ?case by (cases point; cases "fj_after job") auto
qed auto

lemma drained_idle:
  assumes ok: "pool_ok p R" and drained: "pool_drained p" and mine: "task_rights t \<subseteq># R"
    and owner: "\<And>l r. r \<in># R \<Longrightarrow> owns_load l r \<Longrightarrow> \<exists>pid e. Own_Entry pid e \<in># R"
  shows "idle p t"
proof -
  have right: "\<not> pins p f r \<and> \<not> owns_entry pid r \<and> \<not> creates fid r" if "r \<in># task_rights t" for r f pid fid
    using drained_right[OF ok drained mset_subset_eqD[OF mine that]] by blast
  show ?thesis
  proof (cases t)
    case (Returned_Guard g)
    then show ?thesis using right[of "Holding g'" "g_frame_id g'" for g'] by (cases g) auto
  next
    case (Join page_id l mode)
    have l: "l < length (bp_loads p)" using pool_okD(6)[OF ok mset_subset_eqD[OF mine], of "Claim l"] Join by simp
    have "lo_done (bp_loads p ! l)"
    proof (rule ccontr)
      assume "\<not> lo_done (bp_loads p ! l)"
      then have "held (owns_load l) R \<noteq> 0" using pool_okD(4)[OF ok l] by (simp add: load_ok_def Let_def)
      then obtain r where r: "r \<in># R" "owns_load l r" using held_zero by blast
      then obtain pid e where "Own_Entry pid e \<in># R" using owner by blast
      then show False using drained_right(2)[OF ok drained, of _ pid] by force
    qed
    then show ?thesis using right[of "Claim l"] Join by (cases "lo_frame_id (bp_loads p ! l)") auto
  next
    case (Acquire purpose point)
    then have "\<exists>r \<in># task_rights t. \<exists>pid fid. owns_entry pid r \<or> creates fid r" by (cases purpose) auto
    then show ?thesis using right by blast
  next
    case (Load page_id l mode f validator point)
    then show ?thesis using right[of "Own_Entry page_id \<lparr>pt_state = PT_LOADING, pt_frame_id = f, pt_load = Some l\<rparr>" undefined page_id] by simp
  next
    case (Create fid initializer f point)
    then have "\<exists>r \<in># task_rights t. \<exists>fid. creates fid r" by (cases point) (auto simp: building_rights_def)
    then show ?thesis using right by blast
  next
    case (Latch f mode)
    then show ?thesis using right[of "Pinned f" f] by simp
  next
    case (Unpin f)
    then show ?thesis using right[of "Pinned f" f] by simp
  qed simp_all
qed

lemma drained_quiescent:
  assumes ok: "pool_ok (sy_pool s) (system_rights s)" and drained: "pool_drained (sy_pool s)"
  shows "sy_guards s = [] \<and> (\<forall>t \<in> set (sy_tasks s). idle (sy_pool s) t)"
proof
  show "sy_guards s = []"
  proof (rule ccontr)
    assume "sy_guards s \<noteq> []"
    then have "Holding (hd (sy_guards s)) \<in># system_rights s" by (simp add: guard_right)
    then show False using drained_right(1)[OF ok drained, of _ "g_frame_id (hd (sy_guards s))"] by force
  qed
  have owner: "\<exists>pid e. Own_Entry pid e \<in># system_rights s" if r: "r \<in># system_rights s" "owns_load l r" for l r
  proof -
    obtain t where t: "t \<in> set (sy_tasks s)" "r \<in># task_rights t"
      using r rights_of_mem by (auto simp: system_rights_def)
    then show ?thesis using load_owner[OF t(2) r(2)] task_right[OF t(1)] by blast
  qed
  show "\<forall>t \<in> set (sy_tasks s). idle (sy_pool s) t"
  proof
    fix t assume "t \<in> set (sy_tasks s)"
    then have mine: "task_rights t \<subseteq># system_rights s"
      unfolding system_rights_def by (meson mset_subset_eq_add_left rights_of_member subset_mset.trans)
    show "idle (sy_pool s) t" by (rule drained_idle[OF ok drained mine owner])
  qed
qed

section \<open>A step of an idle call\<close>

lemma calmer_refl [simp]: "calmer p p"
  by (simp add: calmer_def)

lemma calmer_trans: "calmer p q \<Longrightarrow> calmer q r \<Longrightarrow> calmer p r"
  by (simp add: calmer_def)

lemma calmer_set_frame:
  assumes "bf_dirty (c (bp_frame p f)) \<Longrightarrow> bf_dirty (bp_frame p f)"
  shows "calmer p (set_frame f c p)"
  using assms by (auto simp: calmer_def bp_frame_set)

lemma calmer_close:
  "calmer p (erase_entry pid p)" "calmer p (ResetFrame f p)" "calmer p (ReleaseFrameToFreeList f p)"
  "calmer p (put_file fid fe p)" "calmer p (p\<lparr>bp_files := fs\<rparr>)"
proof -
  show "calmer p (ResetFrame f p)"
    using calmer_set_frame[of "\<lambda>fr. fr\<lparr>bf_page := Page_new default_PageId, bf_state := FREE,
        bf_io_state := IO_NONE, bf_pin_count := 0, bf_dirty := False\<rparr>" p f]
    by (simp add: ResetFrame_def calmer_def)
qed (simp_all add: calmer_def ReleaseFrameToFreeList_def erase_entry_def put_file_def find_entry_def bp_frame_def delete_conv')

lemma calmer_close_file: "calmer p (close_file fid p)"
proof -
  have "calmer p (close_page item p)" for item p
    unfolding close_page_def by (rule calmer_trans[OF calmer_close(1) calmer_trans[OF calmer_close(2,3)]])
  then have "calmer p (fold close_page items p)" for items
    by (induction items arbitrary: p) (simp, metis calmer_trans fold_simps(2))
  then show ?thesis unfolding close_file_def Let_def by (rule calmer_trans[OF _ calmer_close(5)])
qed

lemma end_flush_calmer: "end_flush failure after p = (t, p') \<Longrightarrow> calmer p p' \<and> idle p' t"
  by (auto simp: end_flush_def calmer_close_file split: After_Flush.splits sum.splits)

lemma flush_pages_calmer:
  "flush_pages pages failure operation after p = (t, p') \<Longrightarrow> calmer p p' \<and> idle p' t"
proof (induction pages failure operation after p rule: flush_pages.induct)
  case (1 failure operation after p)
  then show ?case by (simp add: end_flush_calmer)
next
  case (2 page_id rest failure operation after p)
  show ?case
  proof (cases "find_entry p page_id")
    case None
    then show ?thesis using 2 by simp
  next
    case (Some e)
    then show ?thesis using 2
      by (cases "pt_state e") (auto simp: Let_def calmer_set_frame split: if_splits)
  qed
qed

lemma reconcile_calmer:
  assumes "reconcile job f page_id epoch generation written p = (t, p')"
  shows "calmer p p' \<and> idle p' t"
proof -
  obtain q pages failure where q: "calmer p q"
    "flush_pages pages failure (fj_operation job) (fj_after job) q = (t, p')"
  proof -
    let ?p = "set_frame f (\<lambda>fr. fr\<lparr>bf_io_state := IO_NONE\<rparr>) p"
    let ?q = "set_frame f (\<lambda>fr. fr\<lparr>bf_dirty := False\<rparr>) ?p"
    have "calmer p ?p" by (rule calmer_set_frame) simp
    moreover have "calmer ?p ?q" by (rule calmer_set_frame) simp
    ultimately have "calmer p ?p" "calmer p ?q" using calmer_trans by blast+
    then show ?thesis using that assms
      by (auto simp: reconcile_def Let_def flush_next_def split: if_splits sum.splits)
  qed
  then show ?thesis using flush_pages_calmer calmer_trans by blast
qed

lemma still_quiescing: "bp_quiescing p \<Longrightarrow> p\<lparr>bp_quiescing := True\<rparr> = p"
  by simp

lemma advance_idle:
  assumes idle: "idle p t" and q: "bp_quiescing p" and step: "advance io t p d = Some (t', p', d')"
  shows "calmer p p' \<and> idle p' t'"
proof (cases t)
  case (Flushing job point)
  then show ?thesis using step
    by (cases point)
      (auto simp: with_device_def flush_next_def Let_def split: if_splits prod.splits
        simp del: flush_pages.simps dest!: write_image_cases sync_image_cases flush_pages_calmer reconcile_calmer)
qed (use idle q step in \<open>auto simp: with_device_def pin_page_def CheckFetchableLocked_def fail_guard_def join_load_def new_page_def
    WaitForNewPageTurn_def flush_file_def register_counted_def retire_file_def drain_file_def shutdown_def drain_pool_def
    calmer_close calmer_close_file still_quiescing Let_def simp del: flush_pages.simps
    split: if_splits option.splits sum.splits prod.splits dest!: flush_pages_calmer\<close>)

section \<open>A step of a quiescent system\<close>

lemma idle_loads: "bp_loads p' = bp_loads p \<Longrightarrow> idle p' = idle p"
proof
  fix t assume "bp_loads p' = bp_loads p"
  then show "idle p' t = idle p t" by (induction p t rule: idle.induct) simp_all
qed

lemma quiescent_task:
  assumes "quiescent s" and "calmer (sy_pool s) p" and "idle p t"
  shows "quiescent (s\<lparr>sy_pool := p, sy_device := d, sy_tasks := (sy_tasks s)[i := t]\<rparr>)"
proof -
  have "idle p = idle (sy_pool s)" using assms(2) by (intro idle_loads) (simp add: calmer_def)
  then show ?thesis using assms set_update_subset_insert[of "sy_tasks s" i t] by (auto simp: quiescent_def calmer_def)
qed

lemma quiescent_step:
  assumes "quiescent s" and "system_step io s t"
  shows "quiescent t \<and> calmer (sy_pool s) (sy_pool t) \<and>
    (t = s\<lparr>sy_tasks := sy_tasks t\<rparr> \<or> (\<exists>i < length (sy_tasks s). \<exists>u.
       advance io (sy_tasks s ! i) (sy_pool s) (sy_device s) = Some (u, sy_pool t, sy_device t)))"
  using assms(2)
proof cases
  case (call c)
  then have "idle (sy_pool s) c" by (cases c) auto
  then show ?thesis using assms(1) call by (auto simp: quiescent_def)
next
  case (task i c p d)
  have "idle (sy_pool s) (sy_tasks s ! i)" "bp_quiescing (sy_pool s)" using assms(1) task(2) by (simp_all add: quiescent_def)
  from advance_idle[OF this task(3)] show ?thesis using quiescent_task[OF assms(1)] task by auto
next
  case (take_guard i g)
  then have "idle (sy_pool s) (Returned_Guard (Ok g))" using assms(1) nth_mem by (fastforce simp: quiescent_def)
  then show ?thesis by simp
qed (use assms(1) in \<open>simp_all add: quiescent_def\<close>)

section \<open>What a shutdown still has to flush\<close>

definition covers :: "BufferPool \<Rightarrow> PageId list \<Rightarrow> bool" where
  "covers p pages \<longleftrightarrow> (\<forall>pid e. find_entry p pid = Some e \<and> pt_state e = PT_RESIDENT \<and>
     bf_dirty (bp_frame p (pt_frame_id e)) \<longrightarrow> pid \<in> set pages)"

definition in_range :: "BufferPool \<Rightarrow> bool" where
  "in_range p \<longleftrightarrow> (\<forall>pid e. find_entry p pid = Some e \<and> pt_state e = PT_RESIDENT \<longrightarrow> pt_frame_id e \<in> frame_ids p)"

lemma in_range_calmer: "in_range p \<Longrightarrow> calmer p p' \<Longrightarrow> in_range p'"
  unfolding calmer_def in_range_def by fastforce

lemma covers_calmer: "in_range p \<Longrightarrow> calmer p p' \<Longrightarrow> covers p pages \<Longrightarrow> covers p' pages"
  unfolding covers_def calmer_def in_range_def by fastforce

lemma covers_dirty_pages: "covers p (dirty_pages (\<lambda>_. True) p)"
  unfolding covers_def dirty_pages_def find_entry_def by (force dest!: map_of_SomeD)

lemma flush_pages_covers:
  assumes "in_range p" and "failure = Ok () \<longrightarrow> covers p pages"
    and "flush_pages pages failure operation Return_Status p = (t, p')"
  shows "t = Returned failure \<and> (failure = Ok () \<longrightarrow> covers p' []) \<or>
    (\<exists>job point. t = Flushing job point \<and> fj_after job = Return_Status \<and> fj_failure job = failure \<and>
       (failure = Ok () \<longrightarrow> covers p' (fj_pages job)))"
  using assms(2,3)
proof (induction pages)
  case Nil
  then show ?case by (simp add: end_flush_def)
next
  case (Cons page_id rest)
  have skip: "failure = Ok () \<longrightarrow> covers p rest"
    if "\<And>e. find_entry p page_id = Some e \<Longrightarrow> pt_state e = PT_RESIDENT \<Longrightarrow> \<not> bf_dirty (bp_frame p (pt_frame_id e))"
    using Cons.prems(1) that by (fastforce simp: covers_def)
  have reserve: "failure = Ok () \<longrightarrow>
      covers (set_frame f (\<lambda>fr. fr\<lparr>bf_io_state := WRITEBACK_IN_PROGRESS\<rparr>) p) (page_id # rest)" for f
    by (intro impI covers_calmer[OF assms(1) calmer_set_frame]) (use Cons.prems(1) in simp_all)
  show ?case
  proof (cases "find_entry p page_id")
    case None
    then show ?thesis using Cons skip by simp
  next
    case (Some e)
    then show ?thesis using Cons skip reserve
      by (cases "pt_state e") (auto simp: Let_def split: if_splits)
  qed
qed

fun shutdown_call :: "Task \<Rightarrow> bool" where
  "shutdown_call Shutdown = True"
| "shutdown_call Shutdown_Drain = True"
| "shutdown_call (Flushing job point) = (fj_operation job = SHUTDOWN)"
| "shutdown_call _ = False"

text \<open>Where a call that shuts down has come to.\<close>

definition advanced :: "BufferPool \<Rightarrow> Task \<Rightarrow> bool" where
  "advanced p t \<longleftrightarrow> (t = Returned (Ok ()) \<longrightarrow> covers p []) \<and>
     (\<forall>job point. t = Flushing job point \<longrightarrow> fj_after job = Return_Status \<and>
        (fj_failure job = Ok () \<longrightarrow> covers p (fj_pages job)))"

lemma flush_pages_advanced:
  assumes "in_range p" and "failure = Ok () \<longrightarrow> covers p pages"
    and "flush_pages pages failure operation Return_Status p = (t, p')"
  shows "advanced p' t"
  using flush_pages_covers[OF assms] by (auto simp: advanced_def)

lemma reconcile_advanced:
  assumes range: "in_range p" and job: "advanced p (Flushing job point)"
    and step: "reconcile job f page_id epoch generation written p = (t, p')"
  shows "advanced p' t"
proof -
  let ?p = "set_frame f (\<lambda>fr. fr\<lparr>bf_io_state := IO_NONE\<rparr>) p"
  let ?q = "set_frame f (\<lambda>fr. fr\<lparr>bf_dirty := False\<rparr>) ?p"
  have after: "fj_after job = Return_Status" "fj_failure job = Ok () \<longrightarrow> covers p (fj_pages job)"
    using job by (simp_all add: advanced_def)
  have "calmer p ?p" by (rule calmer_set_frame) simp
  moreover have "calmer ?p ?q" by (rule calmer_set_frame) simp
  ultimately have "calmer p ?p" "calmer p ?q" using calmer_trans by blast+
  then have q: "in_range q \<and> (fj_failure job = Ok () \<longrightarrow> covers q (fj_pages job))" if "q = ?p \<or> q = ?q" for q
    using that after(2) covers_calmer[OF range] in_range_calmer[OF range] by blast
  obtain q pages failure where "in_range q" "failure = Ok () \<longrightarrow> covers q pages"
    "flush_pages pages failure (fj_operation job) Return_Status q = (t, p')"
    using step q[of ?p] q[of ?q] after(1)
    by (auto simp: reconcile_def Let_def flush_next_def split: if_splits sum.splits)
  then show ?thesis by (rule flush_pages_advanced)
qed

definition shutting :: "'d system \<Rightarrow> bool" where
  "shutting s \<longleftrightarrow> (Shutdown_Drain \<in> set (sy_tasks s) \<longrightarrow> bp_quiescing (sy_pool s)) \<and>
     (\<forall>job point. Flushing job point \<in> set (sy_tasks s) \<and> fj_operation job = SHUTDOWN \<longrightarrow>
        quiescent s \<and> advanced (sy_pool s) (Flushing job point))"

section \<open>Everybody else\<close>

text \<open>No other call stops or starts a shutdown.\<close>

definition unrelated :: "BufferPool \<Rightarrow> Task \<times> BufferPool \<Rightarrow> bool" where
  "unrelated p r \<longleftrightarrow> bp_quiescing (snd r) = bp_quiescing p \<and> \<not> shutdown_call (fst r)"

lemma quiescing_change [simp]:
  "bp_quiescing (put_entry pid e p) = bp_quiescing p" "bp_quiescing (erase_entry pid p) = bp_quiescing p"
  "bp_quiescing (put_file fid fe p) = bp_quiescing p" "bp_quiescing (set_load l lc p) = bp_quiescing p"
  "bp_quiescing (ResetFrame f p) = bp_quiescing p" "bp_quiescing (ReleaseFrameToFreeList f p) = bp_quiescing p"
  "bp_quiescing (bind_frame f pid io p) = bp_quiescing p" "bp_quiescing (finish_new fid p) = bp_quiescing p"
  "bp_quiescing (set_bytes f bytes p) = bp_quiescing p"
  by (simp_all add: put_entry_def erase_entry_def put_file_def set_load_def ResetFrame_def ReleaseFrameToFreeList_def
      bind_frame_def finish_new_def set_bytes_def split: option.splits)

lemma unrelated_guard [simp]: "unrelated p (fail_guard e, p') \<longleftrightarrow> bp_quiescing p' = bp_quiescing p"
  by (simp add: unrelated_def fail_guard_def)

lemma acquired_unrelated: "unrelated p (acquired purpose f p)"
  by (cases purpose) (simp_all add: unrelated_def Let_def split: option.splits)

lemma acquire_failed_unrelated: "unrelated p (acquire_failed purpose e p)"
  by (cases purpose) (simp_all add: fail_load_def Let_def)

lemma reserve_victim_unrelated: "unrelated p (reserve_victim purpose f victim p)"
  by (simp add: reserve_victim_def unrelated_def Let_def split: option.splits)

lemma unrelated_from: "unrelated q r \<Longrightarrow> bp_quiescing q = bp_quiescing p \<Longrightarrow> unrelated p r"
  by (simp add: unrelated_def)

lemma acquire_pass_unrelated: "unrelated p (acquire_pass purpose notified p)"
proof -
  note moves = unrelated_from[OF acquired_unrelated] unrelated_from[OF acquire_failed_unrelated]
    unrelated_from[OF reserve_victim_unrelated]
  show ?thesis unfolding acquire_pass_def
    by (auto simp: Let_def unrelated_def[of p "(Acquire purpose q, r)" for q r] intro!: moves
        split: option.splits prod.splits)
qed

lemma eviction_unrelated:
  "unrelated p (recheck_candidate purpose f victim p)" "unrelated p (start_eviction purpose f victim p)"
  "unrelated p (end_eviction purpose f victim written p)"
proof -
  have finish: "unrelated q (finish_eviction purpose f victim p)" if "bp_quiescing q = bp_quiescing p" for p q
    unfolding finish_eviction_def by (rule unrelated_from[OF acquired_unrelated]) (simp add: that)
  show "unrelated p (recheck_candidate purpose f victim p)"
    by (simp add: recheck_candidate_def acquire_pass_unrelated reserve_victim_unrelated)
  show "unrelated p (start_eviction purpose f victim p)" using finish[of p p]
    by (simp add: start_eviction_def unrelated_def)
  show "unrelated p (end_eviction purpose f victim written p)"
    using finish[of p] unrelated_from[OF acquire_failed_unrelated, of _ p purpose]
    by (auto simp: end_eviction_def Let_def unrelated_def[of p "(Thrown, r)" for r] split: sum.splits option.splits)
qed

lemma end_flush_unrelated: "unrelated p (end_flush failure after p)"
  using calmer_close_file[of p] by (auto simp: end_flush_def unrelated_def calmer_def split: After_Flush.splits sum.splits)

lemma flush_pages_unrelated: "operation \<noteq> SHUTDOWN \<Longrightarrow> unrelated p (flush_pages pages failure operation after p)"
proof (induction pages failure operation after p rule: flush_pages.induct)
  case (1 failure operation after p)
  then show ?case by (simp add: end_flush_unrelated)
next
  case (2 page_id rest failure operation after p)
  then show ?case
    by (cases "find_entry p page_id"; cases "pt_state (the (find_entry p page_id))")
      (auto simp: Let_def unrelated_def split: if_splits)
qed

lemma reconcile_unrelated:
  "fj_operation job \<noteq> SHUTDOWN \<Longrightarrow> unrelated p (reconcile job f page_id epoch generation written p)"
  unfolding reconcile_def Let_def flush_next_def
  by (auto intro!: unrelated_from[OF flush_pages_unrelated] split: sum.splits)

lemma fetch_unrelated:
  "unrelated p (LoadPage page_id mode p)" "unrelated p (JoinLoad page_id mode load p)"
  "pin_page page_id mode notified p = Some r \<Longrightarrow> unrelated p r" "join_load l mode p = Some r \<Longrightarrow> unrelated p r"
  "unrelated p (finish_load page_id l mode f read outcome p)"
proof -
  show load: "unrelated p (LoadPage page_id mode p)" for page_id mode p by (simp add: LoadPage_def unrelated_def Let_def)
  show join: "unrelated p (JoinLoad page_id mode load p)" for page_id mode load p
    by (auto simp: JoinLoad_def unrelated_def fail_guard_def split: option.splits)
  have pin: "bp_quiescing q = bp_quiescing p" if "PinResidentLocked f page_id p = (x, q)" for f x q
    using that by (auto simp: PinResidentLocked_def split: if_splits)
  show "pin_page page_id mode notified p = Some r \<Longrightarrow> unrelated p r"
    using load join pin by (auto simp: pin_page_def unrelated_def[of p "(Pin a b c, q)" for a b c q]
        unrelated_def[of p "(Latch a b, q)" for a b q] split: sum.splits option.splits PageTableEntryState.splits if_splits prod.splits)
  show "join_load l mode p = Some r \<Longrightarrow> unrelated p r"
    by (auto simp: join_load_def unrelated_def fail_guard_def Let_def split: option.splits if_splits)
  have "bp_quiescing q = bp_quiescing p" if "PublishLoadLocked page_id f l p = Some q" for q
    using that by (auto simp: PublishLoadLocked_def Let_def)
  then show "unrelated p (finish_load page_id l mode f read outcome p)"
    by (auto simp: finish_load_def unrelated_def fail_load_def fail_guard_def Let_def split: option.splits)
qed

lemma create_unrelated:
  "new_page fid initializer p = Some r \<Longrightarrow> unrelated p r"
  "unrelated p (bind_new_page fid initializer f reserved p)"
  "unrelated p (publish_new_page fid f page_id built outcome p)"
proof -
  show "new_page fid initializer p = Some r \<Longrightarrow> unrelated p r"
    by (auto simp: new_page_def unrelated_def[of p "(Thrown, q)" for q] intro!: unrelated_from[OF acquire_pass_unrelated]
        split: option.splits sum.splits)
  show "unrelated p (bind_new_page fid initializer f reserved p)"
    by (auto simp: bind_new_page_def unrelated_def fail_guard_def Let_def split: option.splits sum.splits)
  show "unrelated p (publish_new_page fid f page_id built outcome p)"
    by (auto simp: publish_new_page_def unrelated_def fail_guard_def Let_def split: option.splits)
qed

lemma file_unrelated:
  "unrelated p (flush_file fid p)" "drain_file fid disposition p = Some r \<Longrightarrow> unrelated p r"
  "unrelated p (retire_file fid disposition p)"
proof -
  show "unrelated p (flush_file fid p)"
    by (simp add: flush_file_def flush_pages_unrelated) (simp add: unrelated_def)
  have close: "unrelated p (Returned (Ok ()), close_file fid p)"
    using calmer_close_file[of p fid] by (simp add: unrelated_def calmer_def)
  show drain: "drain_file fid disposition p = Some r \<Longrightarrow> unrelated p r" for r
    using close by (auto simp: drain_file_def flush_pages_unrelated unrelated_def[of p "(Thrown, q)" for q]
        split: option.splits if_splits)
  show "unrelated p (retire_file fid disposition p)"
    using drain by (auto simp: retire_file_def unrelated_def split: option.splits)
qed

lemma unrelated_result: "unrelated p r \<Longrightarrow> r = (t, p') \<Longrightarrow> bp_quiescing p' = bp_quiescing p \<and> \<not> shutdown_call t"
  by (simp add: unrelated_def)

lemma flush_unrelated:
  "flush_pages pages failure operation after p = (t, p') \<Longrightarrow> operation \<noteq> SHUTDOWN \<Longrightarrow>
    bp_quiescing p' = bp_quiescing p \<and> \<not> shutdown_call t"
  "reconcile job f page_id epoch generation written p = (t, p') \<Longrightarrow> fj_operation job \<noteq> SHUTDOWN \<Longrightarrow>
    bp_quiescing p' = bp_quiescing p \<and> \<not> shutdown_call t"
  using unrelated_result flush_pages_unrelated reconcile_unrelated by blast+

lemmas unrelated_results = unrelated_result[OF acquire_pass_unrelated] eviction_unrelated[THEN unrelated_result]
  fetch_unrelated(5)[THEN unrelated_result] create_unrelated(2,3)[THEN unrelated_result]
  file_unrelated(1,3)[THEN unrelated_result] flush_unrelated

lemma advance_unrelated:
  assumes "\<not> shutdown_call t" and step: "advance io t p d = Some (t', p', d')"
  shows "unrelated p (t', p')"
proof (cases t)
  case (Acquire purpose point)
  then show ?thesis using step
    by (cases point) (auto simp: unrelated_def dest!: write_image_cases sync_image_cases unrelated_results)
next
  case (Load page_id l mode f validator point)
  then show ?thesis using step by (cases point) (auto simp: unrelated_def dest!: unrelated_results)
next
  case (Create fid initializer f point)
  then show ?thesis using step
    by (cases point) (auto simp: unrelated_def Let_def split: prod.splits dest!: unrelated_results)
next
  case (Flushing job point)
  then show ?thesis using step assms(1)
    by (cases point) (auto simp: unrelated_def flush_next_def Let_def split: if_splits
        dest!: write_image_cases sync_image_cases unrelated_results)
next
  case (Pin page_id mode notified)
  then show ?thesis using step fetch_unrelated(3) by auto
next
  case (Join page_id l mode)
  then show ?thesis using step fetch_unrelated(4) by auto
next
  case (New_Page fid initializer)
  then show ?thesis using step create_unrelated(1) by auto
next
  case (Latch f mode)
  then show ?thesis using step by (auto simp: unrelated_def MakeGuard_def Let_def split: if_splits)
next
  case (Drain fid disposition)
  then show ?thesis using step file_unrelated(2) by auto
qed (use assms in \<open>auto simp: unrelated_def unpin_frame_def register_counted_def Let_def simp del: flush_pages.simps
    split: if_splits sum.splits prod.splits dest!: unrelated_results\<close>)

section \<open>A shutdown, from drain to return\<close>

lemma pool_in_range: "pool_ok p R \<Longrightarrow> in_range p"
  using resident_entry(1) by (auto simp: in_range_def)

lemma drain_pool_advanced:
  assumes "drain_pool p = Some (t, p')" and "in_range p"
  shows "pool_drained p \<and> calmer p p' \<and> idle p' t \<and> advanced p' t"
proof -
  have d: "pool_drained p" and f: "flush_pages (dirty_pages (\<lambda>_. True) p) (Ok ()) SHUTDOWN Return_Status p = (t, p')"
    using assms(1) by (auto simp: drain_pool_def split: if_splits)
  from flush_pages_calmer[OF f] flush_pages_advanced[OF assms(2) _ f] d covers_dirty_pages show ?thesis by simp
qed

text \<open>A step that carries a shutdown on leaves a quiescent system, unless it still waits for the pool to drain.\<close>

lemma shutdown_step:
  assumes ok: "pool_ok (sy_pool s) (system_rights s)" and shut: "shutting s" and i: "i < length (sy_tasks s)"
    and call: "shutdown_call (sy_tasks s ! i)"
    and step: "advance io (sy_tasks s ! i) (sy_pool s) (sy_device s) = Some (u, p, d)"
    and t: "t = s\<lparr>sy_pool := p, sy_device := d, sy_tasks := (sy_tasks s)[i := u]\<rparr>"
  shows "bp_quiescing p \<and> (u = Shutdown_Drain \<or> quiescent t \<and> advanced p u)"
proof -
  have drained: "quiescent t \<and> advanced p u"
    if drain: "drain_pool ((sy_pool s)\<lparr>bp_quiescing := True\<rparr>) = Some (u, p)"
  proof -
    let ?p = "(sy_pool s)\<lparr>bp_quiescing := True\<rparr>"
    let ?s = "s\<lparr>sy_pool := ?p\<rparr>"
    have okp: "pool_ok ?p (system_rights s)" by (rule set_quiescing[OF ok])
    note adv = drain_pool_advanced[OF drain pool_in_range[OF okp]]
    have "pool_ok (sy_pool ?s) (system_rights ?s)" using okp by (simp add: system_rights_def)
    then have "quiescent ?s" using drained_quiescent[of ?s] adv by (simp add: quiescent_def)
    from quiescent_task[OF this, of p u i d] adv show ?thesis by (simp add: t)
  qed
  show ?thesis
  proof (cases "sy_tasks s ! i")
    case Shutdown
    then have r: "shutdown (sy_pool s) = (u, p)" using step by simp
    show ?thesis
    proof (cases "drain_pool ((sy_pool s)\<lparr>bp_quiescing := True\<rparr>)")
      case None
      then show ?thesis using r by (auto simp: shutdown_def)
    next
      case (Some x)
      then have "drain_pool ((sy_pool s)\<lparr>bp_quiescing := True\<rparr>) = Some (u, p)" using r by (simp add: shutdown_def Let_def)
      from drained[OF this] show ?thesis by (simp add: quiescent_def t)
    qed
  next
    case Shutdown_Drain
    then have q: "bp_quiescing (sy_pool s)" using shut nth_mem[OF i] by (simp add: shutting_def)
    then have "drain_pool ((sy_pool s)\<lparr>bp_quiescing := True\<rparr>) = Some (u, p)"
      using step Shutdown_Drain by (simp add: still_quiescing)
    from drained[OF this] show ?thesis by (simp add: quiescent_def t)
  next
    case (Flushing job point)
    then have "Flushing job point \<in> set (sy_tasks s)" "fj_operation job = SHUTDOWN" using nth_mem[OF i] call by auto
    then have s: "quiescent s" "advanced (sy_pool s) (Flushing job point)" using shut by (auto simp: shutting_def)
    have "idle (sy_pool s) (sy_tasks s ! i)" "bp_quiescing (sy_pool s)" using s(1) i by (simp_all add: quiescent_def)
    from advance_idle[OF this step] have calm: "calmer (sy_pool s) p" "idle p u" by simp_all
    from quiescent_task[OF s(1) this] have quiet: "quiescent t" by (simp add: t)
    have "advanced p u"
      using step s(2) pool_in_range[OF ok] unfolding Flushing
      by (cases point)
        (auto simp: advanced_def[of _ "Flushing a b" for a b] flush_next_def Let_def split: if_splits
          dest!: write_image_cases sync_image_cases intro: flush_pages_advanced reconcile_advanced)
    then show ?thesis using quiet by (simp add: quiescent_def t)
  qed (use call in simp_all)
qed

lemma shutting_kept:
  assumes ok: "pool_ok (sy_pool s) (system_rights s)" and shut: "shutting s" and step: "system_step io s t"
    and quiescing: "bp_quiescing (sy_pool s) \<Longrightarrow> bp_quiescing (sy_pool t)"
    and tasks: "\<And>u. u \<in> set (sy_tasks t) \<Longrightarrow> u \<in> set (sy_tasks s) \<or> \<not> shutdown_call u \<or> u = Shutdown \<or>
      bp_quiescing (sy_pool t) \<and> (u = Shutdown_Drain \<or> quiescent t \<and> advanced (sy_pool t) u)"
  shows "shutting t"
proof -
  have "quiescent t \<and> advanced (sy_pool t) (Flushing job point)"
    if job: "Flushing job point \<in> set (sy_tasks t)" "fj_operation job = SHUTDOWN" for job point
  proof (cases "Flushing job point \<in> set (sy_tasks s)")
    case True
    then have s: "quiescent s" "advanced (sy_pool s) (Flushing job point)" using shut job(2) by (auto simp: shutting_def)
    note quiet = quiescent_step[OF s(1) step]
    then show ?thesis using s(2) covers_calmer[OF pool_in_range[OF ok]] by (auto simp: advanced_def)
  next
    case False
    then show ?thesis using tasks[OF job(1)] job(2) by simp
  qed
  moreover have "bp_quiescing (sy_pool t)" if "Shutdown_Drain \<in> set (sy_tasks t)"
    using tasks[OF that] shut quiescing by (auto simp: shutting_def)
  ultimately show ?thesis unfolding shutting_def by blast
qed

lemma call_shuts: "is_call t \<Longrightarrow> \<not> shutdown_call t \<or> t = Shutdown"
  by (cases t) simp_all

lemma shutting_step:
  assumes ok: "pool_ok (sy_pool s) (system_rights s)" and shut: "shutting s" and step: "system_step io s t"
  shows "shutting t"
  using step
proof cases
  case (call c)
  then show ?thesis using call_shuts by (intro shutting_kept[OF assms]) auto
next
  case (task i u p d)
  have mem: "v = u \<or> v \<in> set (sy_tasks s)" if "v \<in> set (sy_tasks t)" for v
    using that set_update_subset_insert[of "sy_tasks s" i u] task(1) by auto
  show ?thesis
  proof (cases "shutdown_call (sy_tasks s ! i)")
    case True
    from shutdown_step[OF ok shut task(2) True task(3,1)] mem task(1) show ?thesis
      by (intro shutting_kept[OF assms]) auto
  next
    case False
    from advance_unrelated[OF False task(3)] mem task(1) show ?thesis
      by (intro shutting_kept[OF assms]) (auto simp: unrelated_def)
  qed
next
  case (take_guard i g)
  then show ?thesis using set_update_subset_insert[of "sy_tasks s" i "Returned (Ok ())"]
    by (intro shutting_kept[OF assms]) auto
next
  case (release gs g gs')
  then show ?thesis by (intro shutting_kept[OF assms]) (auto simp: ReleaseLatch_def)
qed (intro shutting_kept[OF assms]; simp add: set_bytes_def PublishMutation_def)+

text \<open>After a shutdown that succeeded nothing is dirty, and nothing becomes so.\<close>

definition at_rest :: "'d system \<Rightarrow> bool" where
  "at_rest s \<longleftrightarrow> quiescent s \<and> covers (sy_pool s) []"

lemma shutdown_at_rest:
  assumes "pool_ok (sy_pool s) (system_rights s)" and "shutting s" and "i < length (sy_tasks s)"
    and "shutdown_call (sy_tasks s ! i)"
    and "advance io (sy_tasks s ! i) (sy_pool s) (sy_device s) = Some (Returned (Ok ()), p, d)"
    and "t = s\<lparr>sy_pool := p, sy_device := d, sy_tasks := (sy_tasks s)[i := Returned (Ok ())]\<rparr>"
  shows "at_rest t"
  using shutdown_step[OF assms] assms(6) by (simp add: at_rest_def advanced_def)

lemma at_rest_step:
  assumes "pool_ok (sy_pool s) (system_rights s)" and "at_rest s" and "system_step io s t"
  shows "at_rest t"
  using quiescent_step[OF _ assms(3)] assms(2) covers_calmer[OF pool_in_range[OF assms(1)]] by (auto simp: at_rest_def)

lemma idle_rights_only: "idle p t \<Longrightarrow> r \<in># task_rights t \<Longrightarrow> \<not> owns_entry pid r"
proof (cases t)
  case (Flushing job point)
  then show "r \<in># task_rights t \<Longrightarrow> ?thesis" by (cases point; cases "fj_after job") auto
next
  case (Returned_Guard g)
  then show "idle p t \<Longrightarrow> r \<in># task_rights t \<Longrightarrow> ?thesis" by (cases g) auto
qed auto

lemma at_rest_entry:
  assumes ok: "pool_ok (sy_pool s) (system_rights s)" and rest: "at_rest s" and e: "find_entry (sy_pool s) pid = Some e"
  shows "pt_state e = PT_RESIDENT" and "\<not> bf_dirty (bp_frame (sy_pool s) (pt_frame_id e))"
proof -
  have "\<not> owns_entry pid r" if r: "r \<in># system_rights s" for r
  proof -
    have "sy_guards s = []" using rest by (simp add: at_rest_def quiescent_def)
    then obtain t where "t \<in> set (sy_tasks s)" "r \<in># task_rights t"
      using r rights_of_mem by (auto simp: system_rights_def)
    then show ?thesis using rest idle_rights_only by (auto simp: at_rest_def quiescent_def)
  qed
  then have "held (owns_entry pid) (system_rights s) = 0" unfolding held_zero by blast
  moreover have "held (owns_entry pid) (system_rights s) = of_bool (pt_state e \<noteq> PT_RESIDENT)"
    using pool_okD(3)[OF ok, of pid] unfolding entry_ok_def e option.case by blast
  ultimately show st: "pt_state e = PT_RESIDENT" by (metis of_bool_eq(2) zero_neq_one)
  show "\<not> bf_dirty (bp_frame (sy_pool s) (pt_frame_id e))" using rest e st by (auto simp: at_rest_def covers_def)
qed

text \<open>Nobody holds a pin.\<close>

lemma idle_pins: "idle p t \<Longrightarrow> r \<in># task_rights t \<Longrightarrow> \<not> pins p f r"
proof (cases t)
  case (Flushing job point)
  then show "r \<in># task_rights t \<Longrightarrow> ?thesis" by (cases point; cases "fj_after job") auto
next
  case (Returned_Guard g)
  then show "idle p t \<Longrightarrow> r \<in># task_rights t \<Longrightarrow> ?thesis" by (cases g) auto
qed auto

lemma quiescent_unpinned:
  assumes ok: "pool_ok (sy_pool s) (system_rights s)" and quiet: "quiescent s"
  shows "BufferPool_destroy debug (sy_pool s) = Some ()"
proof -
  let ?p = "sy_pool s"
  have len: "length (bp_frames ?p) \<le> 4294967296" using pool_okD(1)[OF ok] by (simp add: shape_ok_def clock_inv_def)
  have "bf_pin_count fr = 0" if fr: "fr \<in> set (bp_frames ?p)" for fr
  proof -
    obtain i where i: "i < length (bp_frames ?p)" "bp_frames ?p ! i = fr" using fr by (auto simp: in_set_conv_nth)
    let ?f = "of_nat i :: FrameId"
    have f: "?f \<in> frame_ids ?p" "bp_frame ?p ?f = fr"
      using i len by (auto simp: bp_frame_def unsigned_of_nat take_bit_nat_eq_self)
    have "\<not> pins ?p ?f r" if "r \<in># system_rights s" for r
      using that quiet rights_of_mem[of r "sy_tasks s"] idle_pins by (auto simp: system_rights_def quiescent_def)
    then have "held (pins ?p ?f) (system_rights s) = 0" unfolding held_zero by blast
    moreover have "unat (bf_pin_count fr) = held (pins ?p ?f) (system_rights s)"
      using pool_okD(2)[OF ok f(1)] unfolding frame_ok_def Let_def f(2) by blast
    ultimately have "unat (bf_pin_count fr) = 0" by (rule trans[rotated])
    then show ?thesis by (simp add: unat_eq_zero)
  qed
  then show ?thesis by (simp add: BufferPool_destroy_def list_all_iff)
qed

text \<open>No writeback is in progress, since the frame would be dirty.\<close>

lemma at_rest_no_writeback:
  assumes ok: "pool_ok (sy_pool s) (system_rights s)" and rest: "at_rest s"
    and i: "i < length (sy_tasks s)" and job: "sy_tasks s ! i = Flushing job point"
  shows "point = Flush_Next"
proof (rule ccontr)
  assume "point \<noteq> Flush_Next"
  then obtain f pid epoch where "Writeback f pid epoch \<in># task_rights (sy_tasks s ! i)" unfolding job by (cases point) auto
  then have r: "Writeback f pid epoch \<in># system_rights s" using task_right nth_mem[OF i] by blast
  note res = writeback_resident[OF ok r]
  have "bf_dirty (bp_frame (sy_pool s) f)"
    using pool_okD(2)[OF ok res(3)] res(2) by (simp add: frame_ok_def Let_def legal_frame_def)
  then show False using at_rest_entry(2)[OF ok rest resident_frame(1)[OF ok res(3,1)]] by simp
qed

context page_device
begin

lemma at_rest_device:
  assumes ok: "pool_ok (sy_pool s) (system_rights s)" and rest: "at_rest s" and step: "system_step io s t"
    and sound: "sound (sy_device s)"
  shows "dev (sy_device t) = dev (sy_device s)"
proof -
  have quiet: "quiescent s" using rest by (simp add: at_rest_def)
  have "dev d = dev (sy_device s)"
    if i: "i < length (sy_tasks s)" and a: "advance io (sy_tasks s ! i) (sy_pool s) (sy_device s) = Some (u, p, d)" for i u p d
  proof -
    have idle: "idle (sy_pool s) (sy_tasks s ! i)" using quiet i by (simp add: quiescent_def)
    show ?thesis
    proof (cases "sy_tasks s ! i")
      case (Register fid validator)
      then show ?thesis using a count_law[OF _ sound] by (auto split: if_splits)
    next
      case (Flushing job point)
      then show ?thesis using a at_rest_no_writeback[OF ok rest i Flushing] by simp
    qed (use a idle in \<open>auto split: prod.splits\<close>)
  qed
  then show ?thesis using quiescent_step[OF quiet step] by (metis system.ext_inject system.surjective system.update_convs(3))
qed

end

end
