(* ===== verification/Durable_Properties.thy ===== *)
theory Durable_Properties
  imports Store_Properties Pool_Drain
begin

text \<open>
  What a flush or a shutdown that reports success has achieved on the disk, for every kernel with the
  laws of \<open>posix_kernel\<close> and every interleaving with other calls.
\<close>

section \<open>A flush that returns\<close>

fun flush_call :: "PageId \<Rightarrow> Task \<Rightarrow> bool" where
  "flush_call pid (Flush_Page page_id) = (page_id = pid)"
| "flush_call pid (Flushing job point) = (pid \<in> set (fj_pages job) \<and> fj_after job = Return_Status)"
| "flush_call pid _ = False"

definition flushed :: "BufferPool \<Rightarrow> PageId \<Rightarrow> bool" where
  "flushed p pid \<longleftrightarrow> (\<forall>e. find_entry p pid = Some e \<longrightarrow>
     pt_state e \<noteq> PT_EVICTING \<and> (pt_state e = PT_RESIDENT \<longrightarrow> \<not> bf_dirty (bp_frame p (pt_frame_id e))))"

lemma flush_pages_flushed:
  "flush_pages pages failure operation Return_Status p = (Returned (Ok ()), p') \<Longrightarrow>
    failure = Ok () \<and> p' = p \<and> (\<forall>pid \<in> set pages. flushed p pid)"
proof (induction pages)
  case (Cons page_id rest)
  show ?case
  proof (cases "find_entry p page_id")
    case None
    then show ?thesis using Cons by (simp add: flushed_def)
  next
    case (Some e)
    then show ?thesis using Cons by (cases "pt_state e") (auto simp: Let_def flushed_def split: if_splits)
  qed
qed (simp add: end_flush_def)

lemma advance_flushed:
  assumes call: "flush_call pid t" and step: "advance io t p d = Some (Returned (Ok ()), p', d')"
  shows "flushed p' pid"
proof (cases t)
  case (Flush_Page page_id)
  then show ?thesis using call step flush_pages_flushed[of "[page_id]"] by (auto simp del: flush_pages.simps)
next
  case (Flushing job point)
  then have job: "pid \<in> set (fj_pages job)" "fj_after job = Return_Status" using call by simp_all
  show ?thesis
  proof (cases point)
    case Flush_Next
    then show ?thesis using step job by (auto simp: Flushing flush_next_def dest!: flush_pages_flushed)
  next
    case (Reconcile f page_id epoch generation written)
    then have r: "reconcile job f page_id epoch generation written p = (Returned (Ok ()), p')" using step Flushing by simp
    show ?thesis
    proof (cases written)
      case (Inl e)
      then show ?thesis using r job(2) by (auto simp: reconcile_def Let_def flush_next_def dest!: flush_pages_flushed split: sum.splits)
    next
      case (Inr x)
      then show ?thesis using r job by (auto simp: reconcile_def Let_def flush_next_def dest!: flush_pages_flushed split: if_splits)
    qed
  qed (use step Flushing in \<open>auto simp: Let_def split: if_splits dest!: write_image_cases sync_image_cases\<close>)
qed (use call in simp_all)

lemma clean_content:
  assumes ok: "pool_ok (sy_pool s) (system_rights s)" and store: "store_ok dev sound s" and clean: "flushed (sy_pool s) pid"
    and published: "\<And>g. g \<in> set (sy_guards s) \<Longrightarrow> g_page_id g = pid \<Longrightarrow> \<not> g_unpublished g"
  shows "dev (sy_device s) pid = content dev s pid"
proof (cases "cached (sy_pool s) pid")
  case None
  then show ?thesis by (simp add: content_def current_def)
next
  case (Some f)
  then obtain e where e: "find_entry (sy_pool s) pid = Some e" "pt_frame_id e = f" "pt_state e = PT_RESIDENT"
    using clean by (auto simp: cached_def bind_eq_Some_conv flushed_def split: if_splits)
  note re = resident_entry[OF ok e(1,3), unfolded e(2)]
  have "f \<notin> unpublished (sy_guards s)"
  proof
    assume "f \<in> unpublished (sy_guards s)"
    then obtain g where g: "g \<in> set (sy_guards s)" "g_unpublished g" "g_frame_id g = f" by (auto simp: unpublished_def)
    from pool_okD(6)[OF ok guard_right[OF g(1)]] g(3) re(3) have "g_page_id g = pid" by simp
    then show False using published g by blast
  qed
  moreover have "saved (dev (sy_device s)) (unpublished (sy_guards s)) (sy_pool s) f"
    using store re(1) by (simp add: store_ok_def all_saved_def)
  ultimately show ?thesis using re e clean Some by (simp add: saved_def flushed_def content_def current_def)
qed

section \<open>A shutdown\<close>

lemma run_shutting:
  assumes run: "system_run io disciplined (system_start p d) s" and new: "BufferPool_new n m = Some p" and n: "n \<le> 4294967296"
  shows "shutting s \<and> pool_ok (sy_pool s) (system_rights s)"
  using run
proof induction
  case run_start
  then show ?case using BufferPool_new_ok[OF new n]
    by (simp add: system_start_def system_rights_def rights_of_def shutting_def)
next
  case (run_more t u)
  then show ?case using shutting_step system_step_ok by (auto simp: disciplined_def)
qed

lemma at_rest_content:
  assumes ok: "pool_ok (sy_pool s) (system_rights s)" and store: "store_ok dev sound s" and rest: "at_rest s"
  shows "dev (sy_device s) pid = content dev s pid"
proof (rule clean_content[OF ok store])
  show "flushed (sy_pool s) pid" using at_rest_entry[OF ok rest] by (auto simp: flushed_def)
qed (use rest in \<open>simp add: at_rest_def quiescent_def\<close>)

context page_device
begin

lemma at_rest_run:
  assumes run: "system_run io disciplined s t" and rest: "at_rest s"
    and ok: "pool_ok (sy_pool s) (system_rights s)" and store: "store_ok dev sound s"
  shows "at_rest t \<and> pool_ok (sy_pool t) (system_rights t) \<and> store_ok dev sound t \<and> disciplined t \<and>
    dev (sy_device t) = dev (sy_device s)"
  using run
proof induction
  case run_start
  then show ?case using rest ok store by simp
next
  case (run_more t u)
  then show ?case using at_rest_step at_rest_device step_stored[of t u] by (auto simp: store_ok_def)
qed

end

section \<open>Samples\<close>

text \<open>The states of \<open>FlushPage\<close> and of \<open>Shutdown\<close> before their last step, from the pool at rest.\<close>

definition last_step :: "BufferOperation \<Rightarrow> bool \<Rightarrow> (DiskManager \<times> sample_kernel) system" where
  "last_step operation closing = resting_system
     \<lparr>sy_pool := created_pool\<lparr>bp_quiescing := closing, bp_frames := [created_frame\<lparr>bf_pin_count := 0,
        bf_writer := False, bf_io_state := WRITEBACK_IN_PROGRESS\<rparr>]\<rparr>,
      sy_device := saved_device,
      sy_tasks := replicate 3 (Returned (Ok ())) @ [Flushing \<lparr>fj_pages = [PageId 7 2], fj_failure = Ok (),
        fj_operation = operation, fj_after = Return_Status\<rparr> (Reconcile 0 (PageId 7 2) 1 1 (Ok ()))]\<rparr>"

definition clean_pool :: "bool \<Rightarrow> BufferPool" where
  "clean_pool closing = created_pool\<lparr>bp_quiescing := closing, bp_frames := [created_frame\<lparr>bf_pin_count := 0,
     bf_writer := False, bf_dirty := False\<rparr>]\<rparr>"

lemma flush_to_last:
  "script calm sample_io (Do (Flush_Page (PageId 7 2)) # replicate 4 (Go (Suc (Suc (Suc 0))))) resting_system =
    Some (last_step FLUSH_PAGE False)"
  by (simp add: calm_def created_system_def created_pool_def created_frame_def pool_evaluation
      resting_system_def last_step_def write_stable_image_def sync_stable_image_def sample_io_write[unfolded title_image_def]
      sample_io_sync numeral_eq_Suc)

lemma shutdown_to_last:
  "script calm sample_io (Do Shutdown # replicate 4 (Go (Suc (Suc (Suc 0))))) resting_system =
    Some (last_step SHUTDOWN True)"
  by (simp add: calm_def created_system_def created_pool_def created_frame_def pool_evaluation
      resting_system_def last_step_def write_stable_image_def sync_stable_image_def sample_io_write[unfolded title_image_def]
      sample_io_sync shutdown_def drain_pool_def pool_drained_def dirty_pages_def numeral_eq_Suc)

lemma last_step_returns:
  "advance sample_io (sy_tasks (last_step operation closing) ! 3) (sy_pool (last_step operation closing)) saved_device =
    Some (Returned (Ok ()), clean_pool closing, saved_device)"
  by (simp add: last_step_def clean_pool_def nth_append created_pool_def created_frame_def pool_evaluation reconcile_def flush_next_def end_flush_def)

lemma last_step_cache_run:
  "cache_run sample_os sk_view 1 8 sample_device (last_step FLUSH_PAGE False)"
  "cache_run sample_os sk_view 1 8 sample_device (last_step SHUTDOWN True)"
  by (rule sample_cache_run[OF script_run[OF flush_to_last resting_run]],
      rule sample_cache_run[OF script_run[OF shutdown_to_last resting_run]])

lemma last_step_disciplined: "disciplined ((last_step operation closing)
    \<lparr>sy_pool := p, sy_device := d, sy_tasks := (sy_tasks (last_step operation closing))[3 := Returned (Ok ())]\<rparr>)"
  by (rule calm_disciplined) (simp add: calm_def last_step_def list_update_append list_all_iff)

section \<open>Durability\<close>

text \<open>C6: functional. \<open>FlushPage\<close> does what it says: in the moment the call returns success, after however many
  writebacks, and whatever evictions, other flushes and writers it met on the way, the disk has the
  content of the page, unless a writer is at that moment changing it without having published the
  change. The same holds of the last page of \<open>FlushFile\<close> and \<open>FlushAll\<close>.
  Callers retire a file by one call at a time, and initializers of new pages keep to the page they are given.
  The disk is what its calls read back; whether it survives a power failure is not modelled.\<close>

theorem flush_saves_page:
  assumes "posix_kernel os view patience" and "cache_run os view n m d s"
    and "i < length (sy_tasks s)" and "flush_call pid (sy_tasks s ! i)"
    and "advance (DiskPageIo os) (sy_tasks s ! i) (sy_pool s) (sy_device s) = Some (Returned (Ok ()), p, d')"
    and "t = s\<lparr>sy_pool := p, sy_device := d', sy_tasks := (sy_tasks s)[i := Returned (Ok ())]\<rparr>"
    and "disciplined t" and "\<And>g. g \<in> set (sy_guards s) \<Longrightarrow> g_page_id g = pid \<Longrightarrow> \<not> g_unpublished g"
  shows "disk_pages view (sy_device t) pid = content (disk_pages view) t pid"
proof -
  note device = posix_kernel.disk_device[OF assms(1)]
  have step: "system_step (DiskPageIo os) s t" unfolding assms(6) by (rule system_step.task[OF assms(3,5)])
  note ok = page_device.step_stored[OF device step] posix_kernel.cache_run_stored[OF assms(1,2)]
  show ?thesis
    by (rule clean_content) (use ok assms(6-8) advance_flushed[OF assms(4,5)] in auto)
qed

theorem flush_saves_page_witness:
  "disk_pages sk_view saved_device (PageId 7 2) = Some (FinalizePageChecksum (titled 2))"
proof -
  have "disk_pages sk_view saved_device (PageId 7 2) = content (disk_pages sk_view) ((last_step FLUSH_PAGE False)
      \<lparr>sy_pool := clean_pool False, sy_device := saved_device,
       sy_tasks := (sy_tasks (last_step FLUSH_PAGE False))[3 := Returned (Ok ())]\<rparr>) (PageId 7 2)"
    using flush_saves_page[OF sample.posix_kernel_axioms last_step_cache_run(1), of 3 "PageId 7 2" "clean_pool False" saved_device,
        OF _ _ _ HOL.refl last_step_disciplined] last_step_returns[of FLUSH_PAGE False]
    by (simp add: last_step_def nth_append resting_system_def)
  then show ?thesis
    by (simp add: content_def current_def cached_def clean_pool_def created_pool_def created_frame_def find_entry_def
        sealed_def contents_def bp_frame_def)
qed

text \<open>C5: safety. A shutdown that reports success loses nothing, for good: from the moment it returns, in every
  continuation of the run, the disk has, page by page, the content the pool had when it returned, and
  the pool's content is the disk's. Whatever still runs (other flushes, retirements that discard, late
  fetches and registrations) changes neither, and the pool can be destroyed: no frame is pinned, as its
  destructor asserts.
  Callers retire a file by one call at a time, and initializers of new pages keep to the page they are given.
  The disk is what its calls read back; whether it survives a power failure is not modelled.\<close>

theorem shutdown_saves_all:
  assumes "posix_kernel os view patience" and "cache_run os view n m d s"
    and "i < length (sy_tasks s)" and "shutdown_call (sy_tasks s ! i)"
    and "advance (DiskPageIo os) (sy_tasks s ! i) (sy_pool s) (sy_device s) = Some (Returned (Ok ()), p, d')"
    and "t = s\<lparr>sy_pool := p, sy_device := d', sy_tasks := (sy_tasks s)[i := Returned (Ok ())]\<rparr>"
    and "disciplined t" and "system_run (DiskPageIo os) disciplined t u"
  shows "disk_pages view (sy_device u) pid = content (disk_pages view) t pid \<and>
    content (disk_pages view) u pid = content (disk_pages view) t pid \<and> BufferPool_destroy debug (sy_pool u) = Some ()"
proof -
  note device = posix_kernel.disk_device[OF assms(1)]
  have step: "system_step (DiskPageIo os) s t" unfolding assms(6) by (rule system_step.task[OF assms(3,5)])
  note ok = page_device.step_stored[OF device step] posix_kernel.cache_run_stored[OF assms(1,2)]
  obtain q where q: "BufferPool_new n m = Some q" "n \<le> 4294967296" "system_run (DiskPageIo os) disciplined (system_start q d) s"
    using assms(2) by (auto simp: cache_run_def)
  have "shutting s" using run_shutting[OF q(3,1,2)] by simp
  then have rest: "at_rest t" using shutdown_at_rest[OF _ _ assms(3-6)] ok by blast
  from page_device.at_rest_run[OF device assms(8) rest] ok assms(7)
  have u: "at_rest u" "pool_ok (sy_pool u) (system_rights u)" "store_ok (disk_pages view) (disk_sound view) u"
    "disk_pages view (sy_device u) = disk_pages view (sy_device t)" by blast+
  then show ?thesis using at_rest_content[OF u(2,3,1), of pid] at_rest_content[OF _ _ rest, of "disk_pages view" _ pid] ok assms(7)
      quiescent_unpinned[OF u(2)] u(1) by (metis at_rest_def)
qed

theorem shutdown_saves_all_witness:
  "disk_pages sk_view saved_device (PageId 7 2) = Some (FinalizePageChecksum (titled 2)) \<and> bp_quiescing (clean_pool True)"
proof -
  let ?t = "(last_step SHUTDOWN True)\<lparr>sy_pool := clean_pool True, sy_device := saved_device,
       sy_tasks := (sy_tasks (last_step SHUTDOWN True))[3 := Returned (Ok ())]\<rparr>"
  have "disk_pages sk_view saved_device (PageId 7 2) = content (disk_pages sk_view) ?t (PageId 7 2)"
    using shutdown_saves_all[OF sample.posix_kernel_axioms last_step_cache_run(2), of 3 "clean_pool True" saved_device,
        OF _ _ _ HOL.refl last_step_disciplined run_start, OF _ _ _ last_step_disciplined] last_step_returns[of SHUTDOWN True]
    by (simp add: last_step_def nth_append)
  then show ?thesis
    by (simp add: content_def current_def cached_def clean_pool_def created_pool_def created_frame_def find_entry_def
        sealed_def contents_def bp_frame_def)
qed

end
