(* ===== verification/Pool_Progress.thy ===== *)
theory Pool_Progress
  imports Pool_Inspector
begin

text \<open>
  No call waits for ever. A call waits for an eviction, a load, a page creation, a writeback, a pin or a
  latch; the account of the pool names who holds it, and the holder can go on unless it is a page guard.
  So while no caller has a guard in its hands, some call can move (\<open>some_call_moves\<close>).
\<close>

definition answers :: "'d page_io \<Rightarrow> bool" where
  "answers io \<longleftrightarrow> (\<forall>pid bytes d. io_ReadPage io pid bytes d \<noteq> None) \<and> (\<forall>pid bytes d. io_WritePage io pid bytes d \<noteq> None) \<and>
     (\<forall>fid d. io_SyncFile io fid d \<noteq> None) \<and> (\<forall>fid d. io_PageCount io fid d \<noteq> None) \<and> (\<forall>fid d. io_ExtendFile io fid d \<noteq> None)"

lemma answersD:
  assumes "answers io"
  shows "\<exists>st out d'. io_ReadPage io pid bytes d = Some (st, out, d')" "\<exists>st d'. io_WritePage io pid bytes d = Some (st, d')"
    "\<exists>st d'. io_SyncFile io fid d = Some (st, d')" "\<exists>n d'. io_PageCount io fid d = Some (n, d')"
    "\<exists>n d'. io_ExtendFile io fid d = Some (n, d')"
  using assms by (simp_all add: answers_def)

lemma write_image_answers:
  assumes "answers io"
  shows "\<exists>st d'. write_stable_image io pid img operation failed written d = Some (st, d') \<and> (st = written \<or> (\<exists>e. st = failed e))"
    "\<exists>st d'. sync_stable_image io pid operation done_with d = Some (st, d') \<and> (\<exists>e. st = done_with e)"
proof -
  obtain st d' where w: "io_WritePage io pid (FinalizePageChecksum img) d = Some (st, d')" using answersD(2)[OF assms] by blast
  obtain st' d'' where y: "io_SyncFile io (file_id pid) d = Some (st', d'')" using answersD(3)[OF assms] by blast
  show "\<exists>st d'. write_stable_image io pid img operation failed written d = Some (st, d') \<and> (st = written \<or> (\<exists>e. st = failed e))"
    by (cases st) (auto simp: write_stable_image_def w)
  show "\<exists>st d'. sync_stable_image io pid operation done_with d = Some (st, d') \<and> (\<exists>e. st = done_with e)"
    by (cases st') (auto simp: sync_stable_image_def y)
qed

text \<open>A step that changes nothing is a look at a page somebody else is busy with.\<close>

definition moves :: "'d page_io \<Rightarrow> Task \<Rightarrow> BufferPool \<Rightarrow> 'd \<Rightarrow> bool" where
  "moves io t p d \<longleftrightarrow> (\<exists>t' p' d'. advance io t p d = Some (t', p', d') \<and> (t', p') \<noteq> (t, p))"

definition guard_free :: "'d system \<Rightarrow> bool" where
  "guard_free s \<longleftrightarrow> sy_guards s = [] \<and> (\<forall>g. Returned_Guard (Ok g) \<notin> set (sy_tasks s))"

section \<open>Calls that never wait\<close>

fun working :: "Task \<Rightarrow> bool" where
  "working (Acquire purpose point) = True"
| "working (Load page_id l mode f validator point) = True"
| "working (Create fid initializer f point) = True"
| "working _ = False"

lemma movesI: "advance io t p d = Some (t', p', d') \<Longrightarrow> t' \<noteq> t \<Longrightarrow> moves io t p d"
  by (auto simp: moves_def)

lemma moves_section: "advance io t p d = with_device d (Some r) \<Longrightarrow> fst r \<noteq> t \<Longrightarrow> moves io t p d"
  by (cases r) (auto simp: moves_def with_device_def)

lemma acquired_other: "fst (acquired purpose f p) \<noteq> Acquire purpose' point"
  by (cases purpose) (auto simp: Let_def split: option.splits)

lemma acquire_failed_other: "fst (acquire_failed purpose e p) \<noteq> Acquire purpose' point"
  by (cases purpose) (auto simp: fail_load_def fail_guard_def Let_def)

lemma reserve_other: "fst (reserve_victim purpose f victim p) = Acquire purpose' point \<Longrightarrow> \<exists>f v. point = Reserved f v"
  by (auto simp: reserve_victim_def Let_def split: option.splits)

lemma acquire_pass_other:
  assumes "fst (acquire_pass purpose notified p) = Acquire purpose' point"
  shows "(\<not> notified \<and> (\<exists>f v. point = Candidate f v)) \<or> (\<exists>f v. point = Reserved f v)"
  using assms acquired_other acquire_failed_other reserve_other
  by (auto simp: acquire_pass_def Let_def split: if_splits option.splits prod.splits; metis)

lemma acquire_moves:
  assumes "answers io"
  shows "moves io (Acquire purpose point) p d"
proof (cases point)
  case Acquiring
  then show ?thesis using acquire_pass_other[of purpose False p purpose point]
    by (intro moves_section) auto
next
  case (Candidate f v)
  have "fst (recheck_candidate purpose f v p) \<noteq> Acquire purpose (Candidate f v)"
    using acquire_pass_other[of purpose True p purpose point] reserve_other[of purpose f v p purpose point] Candidate
    by (auto simp: recheck_candidate_def)
  then show ?thesis using Candidate by (intro moves_section) auto
next
  case (Reserved f v)
  have "fst (start_eviction purpose f v p) \<noteq> Acquire purpose point"
    using acquired_other Reserved by (auto simp: start_eviction_def finish_eviction_def)
  then show ?thesis using Reserved by (intro moves_section) auto
next
  case (Evict_Write f v img)
  then show ?thesis using write_image_answers(1)[OF assms] by (fastforce simp: with_pool_def moves_def)
next
  case (Evict_Sync f v)
  then show ?thesis using write_image_answers(2)[OF assms] by (fastforce simp: with_pool_def moves_def)
next
  case (Evict_Done f v status)
  have "fst (end_eviction purpose f v status p) \<noteq> Acquire purpose point"
    using acquired_other acquire_failed_other by (auto simp: end_eviction_def finish_eviction_def Let_def split: sum.splits option.splits)
  then show ?thesis using Evict_Done by (intro moves_section) auto
qed

lemma finish_load_other: "fst (finish_load page_id l mode f read outcome p) \<noteq> Load page_id' l' mode' f' validator point"
  by (auto simp: finish_load_def fail_load_def fail_guard_def Let_def split: option.splits)

lemma bind_new_page_other:
  "fst (bind_new_page fid initializer f reserved p) = Create fid' initializer' f' point \<Longrightarrow> \<exists>pid v. point = New_Build pid v"
  by (auto simp: bind_new_page_def fail_guard_def Let_def split: option.splits sum.splits if_splits)

lemma publish_new_page_other: "fst (publish_new_page fid f page_id built outcome p) \<noteq> Create fid' initializer' f' point"
  by (auto simp: publish_new_page_def fail_guard_def Let_def split: option.splits)

lemma working_moves:
  assumes "answers io" and "working t"
  shows "moves io t p d"
proof (cases t)
  case (Acquire purpose point)
  then show ?thesis using acquire_moves[OF assms(1)] by simp
next
  case (Load page_id l mode f validator point)
  show ?thesis
  proof (cases point)
    case Load_Read
    obtain st out d' where "io_ReadPage io page_id (Page_bytes (bf_page (bp_frame p f))) d = Some (st, out, d')"
      using answersD(1)[OF assms(1)] by blast
    then show ?thesis using Load Load_Read by (cases st) (simp_all add: moves_def)
  next
    case (Load_Done read outcome)
    then show ?thesis using Load finish_load_other by (intro moves_section) auto
  qed (use Load in \<open>auto simp: moves_def\<close>)
next
  case (Create fid initializer f point)
  show ?thesis
  proof (cases point)
    case (New_Count published)
    obtain st d' where "io_PageCount io fid d = Some (st, d')" using answersD(4)[OF assms(1)] by blast
    then show ?thesis using Create New_Count by (cases st) (simp_all add: moves_def new_page_counted_def)
  next
    case New_Extend
    obtain st d' where "io_ExtendFile io fid d = Some (st, d')" using answersD(5)[OF assms(1)] by blast
    then show ?thesis using Create New_Extend by (simp add: moves_def)
  next
    case (New_Bind reserved)
    then show ?thesis using Create bind_new_page_other by (intro moves_section) fastforce+
  next
    case (New_Build page_id validator)
    then show ?thesis using Create by (auto simp: moves_def Let_def split: prod.splits)
  next
    case (New_Done page_id built outcome)
    then show ?thesis using Create publish_new_page_other by (intro moves_section) auto
  qed
qed (use assms(2) in auto)

section \<open>Calls that wait\<close>

text \<open>A page with nobody at its latch can be copied; after the transfers the flush goes on.\<close>

lemma flush_pages_point:
  "fst (flush_pages pages failure operation after p) = Flushing job point \<Longrightarrow>
    point = Flush_Next \<or> (\<exists>f pid epoch. point = Copy_Image f pid epoch)"
  by (induction pages failure operation after p rule: flush_pages.induct)
    (auto simp: end_flush_def Let_def split: After_Flush.splits sum.splits option.splits PageTableEntryState.splits if_splits)

lemma flushing_moves:
  assumes "answers io" and "point \<noteq> Flush_Next" and "\<And>f. \<exists>pid epoch. point = Copy_Image f pid epoch \<Longrightarrow> \<not> bf_writer (bp_frame p f)"
  shows "moves io (Flushing job point) p d"
proof (cases point)
  case (Copy_Image f pid epoch)
  then show ?thesis using assms(3)[of f] by (auto simp: moves_def Let_def)
next
  case (Write_Image f pid epoch generation img)
  then show ?thesis using write_image_answers(1)[OF assms(1)] by (fastforce simp: with_pool_def moves_def)
next
  case (Sync_Image f pid epoch generation)
  then show ?thesis using write_image_answers(2)[OF assms(1)] by (fastforce simp: with_pool_def moves_def)
next
  case (Reconcile f pid epoch generation status)
  have "fst (reconcile job f pid epoch generation status p) \<noteq> Flushing job point"
    using flush_pages_point Reconcile
    by (auto simp: reconcile_def flush_next_def Let_def simp del: flush_pages.simps split: sum.splits) fastforce+
  then show ?thesis using Reconcile by (intro moves_section) auto
qed (use assms(2) in auto)

section \<open>Who is waited for\<close>

text \<open>The right a waiting call lacks is held by a call.\<close>

definition blocker :: "right \<Rightarrow> bool" where
  "blocker r \<longleftrightarrow> (\<exists>f st io pid. r = Own_Frame f st io pid) \<or> (\<exists>pid e. r = Own_Entry pid e) \<or> (\<exists>l pid. r = Own_Load l pid) \<or>
     (\<exists>fid pid. r = Creation fid pid)"

lemma blocker_working:
  assumes "blocker r" and "r \<in># task_rights t"
  shows "working t"
proof (cases t)
  case (Returned_Guard g)
  then show ?thesis using assms by (cases g) (auto simp: blocker_def)
next
  case (Flushing job point)
  then show ?thesis using assms by (cases point; cases "fj_after job") (auto simp: blocker_def)
qed (use assms in \<open>auto simp: blocker_def\<close>)

lemma writeback_flushing:
  assumes "Writeback f pid epoch \<in># task_rights t"
  shows "\<exists>job point. t = Flushing job point \<and> point \<noteq> Flush_Next"
proof (cases t)
  case (Returned_Guard g)
  then show ?thesis using assms by (cases g) auto
next
  case (Acquire purpose point)
  then show ?thesis using assms by (cases purpose; cases point) (auto simp: eviction_rights_def)
next
  case (Create fid initializer f point)
  then show ?thesis using assms by (cases point) (auto simp: building_rights_def)
next
  case (Flushing job point)
  then show ?thesis using assms by (cases point; cases "fj_after job") auto
qed (use assms in auto)

lemma held_bool: "held P R = of_bool b \<Longrightarrow> r \<in># R \<Longrightarrow> P r \<Longrightarrow> b"
  using held_nonzero[of r R P] by (cases b) auto

lemma system_right_cases:
  assumes "r \<in># system_rights s"
  obtains (task) t where "t \<in> set (sy_tasks s)" "r \<in># task_rights t" | (guard) g where "g \<in> set (sy_guards s)" "r = Holding g"
  using assms rights_of_mem[of r "sy_tasks s"] by (auto simp: system_rights_def)

lemma frame_facts:
  assumes "pool_ok p R" and "f \<in> frame_ids p"
  shows "legal_frame (bp_frame p f)"
    "count (mset (bp_free_list p)) f + held (owns_frame f) R + of_bool (bf_state (bp_frame p f) = RESIDENT) = 1"
    "held (writes_back f) R = of_bool (bf_state (bp_frame p f) = RESIDENT \<and> bf_io_state (bp_frame p f) = WRITEBACK_IN_PROGRESS)"
    "unat (bf_pin_count (bp_frame p f)) = held (pins p f) R" "bf_readers (bp_frame p f) = held (holds SHARED f) R"
    "of_bool (bf_writer (bp_frame p f)) = held (holds EXCLUSIVE f) R"
    "f \<in> set (bp_free_list p) \<Longrightarrow> bf_state (bp_frame p f) = FREE"
  using pool_okD(2)[OF assms] unfolding frame_ok_def Let_def by blast+

definition somebody_moves :: "'d page_io \<Rightarrow> 'd system \<Rightarrow> bool" where
  "somebody_moves io s \<longleftrightarrow> (\<exists>t \<in> set (sy_tasks s). moves io t (sy_pool s) (sy_device s))"

lemma pin_page_waits:
  "pin_page pid mode hit p = None \<Longrightarrow> \<exists>e. find_entry p pid = Some e \<and> pt_state e \<noteq> PT_RESIDENT"
  by (fastforce simp: pin_page_def split: sum.splits option.splits PageTableEntryState.splits if_splits prod.splits)

lemma pin_page_other: "pin_page pid mode hit p = Some r \<Longrightarrow> fst r \<noteq> Pin pid mode hit"
  by (auto simp: pin_page_def LoadPage_def JoinLoad_def fail_guard_def Let_def
      split: sum.splits option.splits PageTableEntryState.splits if_splits prod.splits)

lemma new_page_waits:
  "new_page fid initializer p = None \<Longrightarrow> \<exists>fe. find_file p fid = Some fe \<and> fe_new_page_in_progress fe"
  by (auto simp: new_page_def WaitForNewPageTurn_def Let_def split: sum.splits option.splits if_splits)

lemma acquire_pass_call: "fst (acquire_pass purpose notified p) \<noteq> New_Page fid initializer"
  by (cases purpose; auto simp: acquire_pass_def reserve_victim_def fail_load_def fail_guard_def Let_def
      split: option.splits prod.splits)

lemma new_page_other: "new_page fid initializer p = Some r \<Longrightarrow> fst r \<noteq> New_Page fid initializer"
  using acquire_pass_call by (auto simp: new_page_def fail_guard_def split: option.splits sum.splits)

lemma flush_pages_result:
  "(\<exists>st. fst (flush_pages pages failure operation after p) = Returned st) \<or>
    (\<exists>job point. fst (flush_pages pages failure operation after p) = Flushing job point)"
  by (induction pages failure operation after p rule: flush_pages.induct)
    (auto simp: end_flush_def Let_def split: After_Flush.splits sum.splits option.splits PageTableEntryState.splits if_splits)

lemma flush_pages_other [simp]:
  assumes "\<And>st. t \<noteq> Returned st" and "\<And>job point. t \<noteq> Flushing job point"
  shows "fst (flush_pages pages failure operation after p) \<noteq> t"
  using flush_pages_result[of pages failure operation after p] assms by metis

lemma flush_pages_waits:
  "fst (flush_pages pages failure operation after p) = Flushing job Flush_Next \<Longrightarrow>
    \<exists>pid e. find_entry p pid = Some e \<and>
      (pt_state e = PT_EVICTING \<or> pt_state e = PT_RESIDENT \<and> bf_io_state (bp_frame p (pt_frame_id e)) \<noteq> IO_NONE)"
  by (induction pages failure operation after p rule: flush_pages.induct)
    (auto simp: end_flush_def Let_def split: After_Flush.splits sum.splits option.splits PageTableEntryState.splits if_splits)

lemma drain_file_waits:
  assumes "drain_file fid disposition p = None"
  shows "(\<exists>fe. find_file p fid = Some fe \<and> fe_new_page_in_progress fe) \<or>
    (\<exists>pid e. (pid, e) \<in> set (bp_page_table p) \<and> (pt_state e \<noteq> PT_RESIDENT \<or>
       pt_state e = PT_RESIDENT \<and> (bf_pin_count (bp_frame p (pt_frame_id e)) \<noteq> 0 \<or>
       bf_io_state (bp_frame p (pt_frame_id e)) \<noteq> IO_NONE)))"
  using assms by (fastforce simp: drain_file_def file_drained_def list_all_iff split: option.splits if_splits)

lemma drain_file_other: "drain_file fid disposition p = Some r \<Longrightarrow> fst r \<noteq> Drain fid disposition \<and> fst r \<noteq> Retire fid disposition"
  by (auto simp: drain_file_def simp del: flush_pages.simps split: option.splits if_splits)

lemma retire_file_other: "fst (retire_file fid disposition p) \<noteq> Retire fid disposition"
proof (cases "drain_file fid disposition p")
  case (Some r)
  then show ?thesis using drain_file_other[OF Some] by (simp add: retire_file_def split: option.split)
qed (simp add: retire_file_def split: option.split)

lemma pool_drained_waits:
  assumes "shape_ok p" and "\<not> pool_drained p"
  shows "(\<exists>f \<in> frame_ids p. bf_pin_count (bp_frame p f) \<noteq> 0 \<or> bf_io_state (bp_frame p f) \<noteq> IO_NONE) \<or>
    (\<exists>pid e. find_entry p pid = Some e \<and> pt_state e \<noteq> PT_RESIDENT) \<or>
    (\<exists>fid fe. find_file p fid = Some fe \<and> fe_new_page_in_progress fe)"
proof -
  have len: "length (bp_frames p) \<le> 4294967296" using assms(1) by (simp add: shape_ok_def clock_inv_def)
  consider (frame) fr where "fr \<in> set (bp_frames p)" "bf_pin_count fr \<noteq> 0 \<or> bf_io_state fr \<noteq> IO_NONE"
    | (entry) pid e where "(pid, e) \<in> set (bp_page_table p)" "pt_state e \<noteq> PT_RESIDENT"
    | (creation) fid fe where "(fid, fe) \<in> set (bp_files p)" "fe_new_page_in_progress fe"
    using assms(2) by (fastforce simp: pool_drained_def list_all_iff)
  then show ?thesis
  proof cases
    case frame
    then obtain i where i: "i < length (bp_frames p)" "bp_frames p ! i = fr" by (auto simp: in_set_conv_nth)
    then have "unat (of_nat i :: 32 word) = i" using len by (simp add: unsigned_of_nat take_bit_nat_eq_self)
    then have "of_nat i \<in> frame_ids p" "bp_frame p (of_nat i) = fr" using i by (simp_all add: bp_frame_def)
    then show ?thesis using frame(2) by blast
  next
    case entry
    then show ?thesis using find_entry_mem[OF assms(1)] by blast
  next
    case creation
    then show ?thesis using assms(1) by (auto simp: find_file_def shape_ok_def map_of_eq_Some_iff)
  qed
qed

lemma call_moves:
  assumes "answers io"
  shows "moves io (Unpin f) p d" "moves io (Flush_Page pid) p d" "moves io (Flush_File fid) p d" "moves io Flush_All p d"
    "moves io (Register fid validator) p d" "moves io (Register_Counted fid validator n) p d"
    "moves io (Retire fid disposition) p d" "moves io Shutdown p d"
proof -
  show "moves io (Unpin f) p d" "moves io (Register_Counted fid validator n) p d"
    by (auto simp: moves_def Let_def split: prod.splits)
  obtain n' d' where "io_PageCount io fid d = Some (n', d')" using answersD(4)[OF assms] by blast
  then show "moves io (Register fid validator) p d" by (simp add: moves_def)
  show "moves io (Flush_Page pid) p d"
    by (rule moves_section[where r = "flush_page pid p"]; simp del: flush_pages.simps)
  show "moves io Flush_All p d"
    by (rule moves_section[where r = "flush_all p"]; simp del: flush_pages.simps)
  show "moves io (Flush_File fid) p d"
    by (rule moves_section[where r = "flush_file fid p"]; simp add: flush_file_def del: flush_pages.simps)
  show "moves io (Retire fid disposition) p d"
    by (rule moves_section[where r = "retire_file fid disposition p"]) (simp_all add: retire_file_other)
  show "moves io Shutdown p d"
    by (rule moves_section[where r = "shutdown p"]; simp add: shutdown_def drain_pool_def Let_def del: flush_pages.simps)
qed

definition unhindered :: "'d page_io \<Rightarrow> 'd system \<Rightarrow> bool" where
  "unhindered io s \<longleftrightarrow> answers io \<and> pool_ok (sy_pool s) (system_rights s) \<and> guard_free s"

lemma unhinderedD:
  assumes "unhindered io s"
  shows "answers io" "pool_ok (sy_pool s) (system_rights s)" "guard_free s"
  using assms by (simp_all add: unhindered_def)

lemma latches_free:
  assumes "f \<in> frame_ids (sy_pool s)"
    and un: "unhindered io s"
  shows "\<not> bf_writer (bp_frame (sy_pool s) f)" and "bf_readers (bp_frame (sy_pool s) f) = 0"
proof -
  note io = unhinderedD(1)[OF un] and ok = unhinderedD(2)[OF un] and free = unhinderedD(3)[OF un]
  have "\<not> holds mode f r" if "r \<in># system_rights s" for mode r
    using that
  proof (cases rule: system_right_cases)
    case (task t)
    show ?thesis
    proof
      assume "holds mode f r"
      have "\<exists>g. t = Returned_Guard (Ok g) \<and> g_frame_id g = f \<and> g_mode g = mode"
        using held_bool[where P = "holds mode f", OF holds_task task(2)] \<open>holds mode f r\<close> by simp
      then show False using free task(1) by (auto simp: guard_free_def)
    qed
  next
    case (guard g)
    then show ?thesis using free by (simp add: guard_free_def)
  qed
  then have none: "held (holds mode f) (system_rights s) = 0" for mode by (simp add: held_zero)
  show "\<not> bf_writer (bp_frame (sy_pool s) f)" and "bf_readers (bp_frame (sy_pool s) f) = 0"
    using frame_facts(5,6)[OF ok assms(1)] unfolding none by (simp_all split: if_splits)
qed

lemma blocked_by:
  assumes "blocker r" and "r \<in># system_rights s"
    and un: "unhindered io s"
  shows "somebody_moves io s"
  using assms(2)
proof (cases rule: system_right_cases)
  note io = unhinderedD(1)[OF un] and ok = unhinderedD(2)[OF un] and free = unhinderedD(3)[OF un]
  case (task t)
  then show ?thesis using working_moves[OF io blocker_working[OF assms(1)]] by (auto simp: somebody_moves_def)
next
  case (guard g)
  then show ?thesis using assms(1) by (simp add: blocker_def)
qed

lemma writeback_moves:
  assumes "Writeback f pid epoch \<in># system_rights s"
    and un: "unhindered io s"
  shows "somebody_moves io s"
  using assms
proof (cases rule: system_right_cases)
  note io = unhinderedD(1)[OF un] and ok = unhinderedD(2)[OF un] and free = unhinderedD(3)[OF un]
  case (task t)
  obtain job point where t: "t = Flushing job point" "point \<noteq> Flush_Next" using writeback_flushing[OF task(2)] by blast
  have "\<not> bf_writer (bp_frame (sy_pool s) f')" if copies: "\<exists>pid' epoch'. point = Copy_Image f' pid' epoch'" for f'
  proof -
    obtain pid' epoch' where "point = Copy_Image f' pid' epoch'" using copies by blast
    then have "Writeback f' pid' epoch' \<in># task_rights t" using t by simp
    from pool_okD(6)[OF ok task_right[OF task(1) this]] have "f' \<in> frame_ids (sy_pool s)" by simp
    then show ?thesis by (rule latches_free(1)[OF _ un])
  qed
  from flushing_moves[where job = job, OF io t(2) this] show ?thesis using task(1) t(1) by (auto simp: somebody_moves_def)
qed simp

lemma pin_moves:
  assumes f: "f \<in> frame_ids (sy_pool s)" and "bf_pin_count (bp_frame (sy_pool s) f) \<noteq> 0"
    and un: "unhindered io s"
  shows "somebody_moves io s"
proof -
  note io = unhinderedD(1)[OF un] and ok = unhinderedD(2)[OF un] and free = unhinderedD(3)[OF un]
  have "held (pins (sy_pool s) f) (system_rights s) \<noteq> 0"
    using frame_facts(4)[OF ok f] assms(2) unat_eq_zero by metis
  then obtain r where r: "r \<in># system_rights s" "pins (sy_pool s) f r" unfolding held_zero by blast
  show ?thesis using r(1)
  proof (cases rule: system_right_cases)
    case (task t)
    have pin: "task_pin (sy_pool s) t = Some f" 
      using held_bool[where P = "pins (sy_pool s) f", OF pins_task task(2)] r(2) by simp
    have "moves io t (sy_pool s) (sy_device s)"
    proof (cases t)
      case (Returned_Guard g)
      then show ?thesis using pin task(1) free by (cases g) (auto simp: guard_free_def)
    next
      case (Join pid l mode)
      then show ?thesis using pin
        by (auto simp: moves_def join_load_def with_device_def Let_def split: if_splits)
    next
      case (Latch f' mode)
      then show ?thesis using pin latches_free[OF f un] by (auto simp: moves_def MakeGuard_def Let_def)
    qed (use pin in \<open>auto simp: moves_def\<close>)
    then show ?thesis using task(1) by (auto simp: somebody_moves_def)
  next
    case (guard g)
    then show ?thesis using free by (simp add: guard_free_def)
  qed
qed

lemma entry_moves:
  assumes "find_entry (sy_pool s) pid = Some e" and "pt_state e \<noteq> PT_RESIDENT"
    and un: "unhindered io s"
  shows "somebody_moves io s"
proof -
  note io = unhinderedD(1)[OF un] and ok = unhinderedD(2)[OF un] and free = unhinderedD(3)[OF un]
  obtain t where "t \<in> set (sy_tasks s)" "Own_Entry pid e \<in># task_rights t" by (rule owned_by_task[OF ok assms(1,2)])
  then show ?thesis using blocked_by[of "Own_Entry pid e", OF _ _ un] task_right by (auto simp: blocker_def)
qed

lemma busy_moves:
  assumes f: "f \<in> frame_ids (sy_pool s)" and busy: "bf_io_state (bp_frame (sy_pool s) f) \<noteq> IO_NONE"
    and un: "unhindered io s"
  shows "somebody_moves io s"
proof (cases "bf_state (bp_frame (sy_pool s) f) = RESIDENT")
  case True
  have "bf_io_state (bp_frame (sy_pool s) f) = WRITEBACK_IN_PROGRESS"
    using frame_facts(1)[OF unhinderedD(2)[OF un] f] True busy by (cases "bf_io_state (bp_frame (sy_pool s) f)") (simp_all add: legal_frame_def)
  then have "held (writes_back f) (system_rights s) \<noteq> 0" using frame_facts(3)[OF unhinderedD(2)[OF un] f] True by (simp del: size_eq_0_iff_empty)
  then obtain r where r: "r \<in># system_rights s" "writes_back f r" unfolding held_zero by blast
  then obtain pid epoch where "r = Writeback f pid epoch" by (cases r) auto
  then show ?thesis using writeback_moves[OF _ un] r(1) by blast
next
  case False
  have "f \<notin> set (bp_free_list (sy_pool s))"
    using frame_facts(1,7)[OF unhinderedD(2)[OF un] f] busy by (auto simp: legal_frame_def)
  then have "count (mset (bp_free_list (sy_pool s))) f = 0" by (simp add: not_in_iff)
  then have "held (owns_frame f) (system_rights s) \<noteq> 0" using frame_facts(2)[OF unhinderedD(2)[OF un] f] False by (metis add_0 of_bool_eq(1) zero_neq_one)
  then obtain r where r: "r \<in># system_rights s" "owns_frame f r" unfolding held_zero by blast
  then obtain st io pid where "r = Own_Frame f st io pid" by (cases r) auto
  then show ?thesis using blocked_by[OF _ r(1) un] by (auto simp: blocker_def)
qed

lemma creation_moves:
  assumes "find_file (sy_pool s) fid = Some fe" and "fe_new_page_in_progress fe"
    and un: "unhindered io s"
  shows "somebody_moves io s"
proof -
  note io = unhinderedD(1)[OF un] and ok = unhinderedD(2)[OF un] and free = unhinderedD(3)[OF un]
  have "held (creates fid) (system_rights s) \<noteq> 0" using pool_okD(5)[OF ok, of fid] assms by (simp add: file_ok_def)
  then obtain r where r: "r \<in># system_rights s" "creates fid r" unfolding held_zero by blast
  then obtain pid where "r = Creation fid pid" by (cases r) auto
  then show ?thesis using blocked_by[OF _ r(1) un] by (auto simp: blocker_def)
qed

lemma load_moves:
  assumes "l < length (bp_loads (sy_pool s))" and "\<not> lo_done (bp_loads (sy_pool s) ! l)"
    and un: "unhindered io s"
  shows "somebody_moves io s"
proof -
  note io = unhinderedD(1)[OF un] and ok = unhinderedD(2)[OF un] and free = unhinderedD(3)[OF un]
  have "held (owns_load l) (system_rights s) \<noteq> 0" using pool_okD(4)[OF ok assms(1)] assms(2) by (simp add: load_ok_def Let_def)
  then obtain r where r: "r \<in># system_rights s" "owns_load l r" unfolding held_zero by blast
  then obtain pid where "r = Own_Load l pid" by (cases r) auto
  then show ?thesis using blocked_by[OF _ r(1) un] by (auto simp: blocker_def)
qed

lemma unfinished_moves:
  assumes t: "t \<in> set (sy_tasks s)" and "\<not> finished t"
    and un: "unhindered io s"
  shows "somebody_moves io s"
proof -
  note io = unhinderedD(1)[OF un] and ok = unhinderedD(2)[OF un] and free = unhinderedD(3)[OF un]
  note waits = entry_moves[OF _ _ un] busy_moves[OF _ _ un] creation_moves[OF _ _ un] pin_moves[OF _ _ un] load_moves[OF _ _ un]
    writeback_moves[OF _ un]
  have self: "somebody_moves io s" if "moves io t (sy_pool s) (sy_device s)" using t that by (auto simp: somebody_moves_def)
  have part: "somebody_moves io s" if "advance io t (sy_pool s) (sy_device s) = with_device (sy_device s) (Some r)" "fst r \<noteq> t" for r
    by (rule self[OF moves_section[OF that]])
  note right = pool_okD(6)[OF ok task_right[OF t]]
  show ?thesis
  proof (cases "working t")
    case True
    then show ?thesis using self working_moves[OF io] by blast
  next
    case False
    show ?thesis
    proof (cases t)
      case (Returned_Guard r)
      then show ?thesis using t assms(2) free by (cases r) (auto simp: guard_free_def)
    next
      case Thrown
      then show ?thesis using right[of Impossible] by simp
    next
      case (Pin pid mode hit)
      show ?thesis
      proof (cases "pin_page pid mode hit (sy_pool s)")
        case None
        then show ?thesis using waits pin_page_waits by blast
      next
        case (Some r)
        then show ?thesis using part[of r] pin_page_other[OF Some] Pin by auto
      qed
    next
      case (Join pid l mode)
      have "l < length (bp_loads (sy_pool s))" using right[of "Claim l"] Join by simp
      moreover have "somebody_moves io s" if "lo_done (bp_loads (sy_pool s) ! l)"
        by (rule self) (use that Join in \<open>auto simp: moves_def with_device_def join_load_def fail_guard_def Let_def split: option.splits\<close>)
      ultimately show ?thesis using waits by blast
    next
      case (New_Page fid initializer)
      show ?thesis
      proof (cases "new_page fid initializer (sy_pool s)")
        case None
        then show ?thesis using waits new_page_waits by blast
      next
        case (Some r)
        then show ?thesis using part[of r] new_page_other[OF Some] New_Page by auto
      qed
    next
      case (Latch f mode)
      have "f \<in> frame_ids (sy_pool s)" using right[of "Pinned f"] Latch by simp
      note latches_free[OF this un]
      then show ?thesis using Latch by (intro self) (auto simp: moves_def MakeGuard_def Let_def)
    next
      case (Flushing job point)
      show ?thesis
      proof (cases "point = Flush_Next")
        case True
        show ?thesis
        proof (cases "fst (flush_next job (sy_pool s)) = t")
          case stays: True
          then obtain pid e where "find_entry (sy_pool s) pid = Some e"
            "pt_state e = PT_EVICTING \<or> pt_state e = PT_RESIDENT \<and> bf_io_state (bp_frame (sy_pool s) (pt_frame_id e)) \<noteq> IO_NONE"
            using flush_pages_waits Flushing True unfolding flush_next_def by blast
          then show ?thesis using waits(1,2) resident_entry(1)[OF ok, of pid e] by auto
        next
          case False
          then show ?thesis using part[of "flush_next job (sy_pool s)"] Flushing True by simp
        qed
      next
        case False
        then obtain f pid epoch where "Writeback f pid epoch \<in># task_rights t" using Flushing by (cases point) auto
        then show ?thesis using waits task_right[OF t] by blast
      qed
    next
      case (Drain fid disposition)
      show ?thesis
      proof (cases "drain_file fid disposition (sy_pool s)")
        case None
        from drain_file_waits[OF None] show ?thesis using waits resident_entry(1)[OF ok]
            find_entry_mem[OF pool_okD(1)[OF ok]] by blast
      next
        case (Some r)
        then show ?thesis using part[of r] drain_file_other[OF Some] Drain by auto
      qed
    next
      case Shutdown_Drain
      show ?thesis
      proof (cases "pool_drained (sy_pool s)")
        case True
        then show ?thesis using Shutdown_Drain
          by (intro part[of "the (drain_pool (sy_pool s))"]) (simp_all add: drain_pool_def del: flush_pages.simps)
      next
        case False
        from pool_drained_waits[OF pool_okD(1)[OF ok] this] show ?thesis using waits by blast
      qed
    qed (use False assms(2) self call_moves[OF io, where p = "sy_pool s" and d = "sy_device s"] in auto)
  qed
qed

end
