(* ===== verification/Pool_Termination.thy ===== *)
theory Pool_Termination
  imports Pool_Progress Durable_Properties
begin

text \<open>
  Every call ends. \<open>work\<close> bounds the steps a call still has before it, six for each dirty page it may have
  to write; \<open>work_left\<close> adds the dirty pages of the pool, which a successful writeback uses up. Every step
  that changes anything takes from it, so the calls come to a stop, and where they stop all of them
  have returned, unless a caller keeps a page guard.
\<close>

section \<open>Work\<close>

text \<open>A writeback whose page changed after its copy was taken does not clean the page, and is done again.\<close>

definition stale :: "BufferPool \<Rightarrow> FrameId \<Rightarrow> 64 word \<Rightarrow> nat" where
  "stale p f generation = (if bf_modification_generation (bp_frame p f) = generation then 0 else 5)"

fun flush_work :: "BufferPool \<Rightarrow> nat \<Rightarrow> Flush_Point \<Rightarrow> nat" where
  "flush_work p n Flush_Next = 6 * n + 5"
| "flush_work p n (Copy_Image f page_id epoch) = 6 * n + 4"
| "flush_work p n (Write_Image f page_id epoch generation img) = 6 * n + 3 + stale p f generation"
| "flush_work p n (Sync_Image f page_id epoch generation) = 6 * n + 2 + stale p f generation"
| "flush_work p n (Reconcile f page_id epoch generation status) = 6 * n + 1 + stale p f generation"

fun acquire_work :: "Acquire_Point \<Rightarrow> nat" where
  "acquire_work Acquiring = 18"
| "acquire_work (Candidate f victim) = 17"
| "acquire_work (Reserved f victim) = 16"
| "acquire_work (Evict_Write f victim img) = 15"
| "acquire_work (Evict_Sync f victim) = 14"
| "acquire_work (Evict_Done f victim status) = 13"

fun load_work :: "Load_Point \<Rightarrow> nat" where
  "load_work Load_Read = 4"
| "load_work Load_Validate = 3"
| "load_work (Load_Done read outcome) = 2"

fun create_work :: "New_Point \<Rightarrow> nat" where
  "create_work (New_Count published) = 12"
| "create_work New_Extend = 11"
| "create_work (New_Bind reserved) = 10"
| "create_work (New_Build page_id validator) = 9"
| "create_work (New_Done page_id built outcome) = 8"

fun work :: "BufferPool \<Rightarrow> Task \<Rightarrow> nat" where
  "work p (Pin page_id mode hit_notified) = (if hit_notified then 19 else 20)"
| "work p (Join page_id l mode) = 2"
| "work p (Acquire purpose point) = acquire_work point"
| "work p (Load page_id l mode f validator point) = load_work point"
| "work p (New_Page fid initializer) = 19"
| "work p (Create fid initializer f point) = create_work point"
| "work p (Latch f mode) = 1"
| "work p (Unpin f) = 1"
| "work p (Flush_Page page_id) = 12"
| "work p (Flush_File fid) = 6 * length (bp_frames p) + 6"
| "work p Flush_All = 6 * length (bp_frames p) + 6"
| "work p (Flushing job point) = flush_work p (length (fj_pages job)) point"
| "work p (Register fid validator) = 2"
| "work p (Register_Counted fid validator page_count) = 1"
| "work p (Retire fid disposition) = 6 * length (bp_frames p) + 7"
| "work p (Drain fid disposition) = 6 * length (bp_frames p) + 6"
| "work p Shutdown = 6 * length (bp_frames p) + 7"
| "work p Shutdown_Drain = 6 * length (bp_frames p) + 6"
| "work p _ = 0"

definition dirt :: "BufferPool \<Rightarrow> nat" where
  "dirt p = length (filter bf_dirty (bp_frames p))"

definition work_left :: "'d system \<Rightarrow> nat" where
  "work_left s = sum_list (map (work (sy_pool s)) (sy_tasks s)) + 6 * dirt (sy_pool s)"

section \<open>Changes that make no work\<close>

definition tame :: "BufferPool \<Rightarrow> BufferPool \<Rightarrow> bool" where
  "tame p p' \<longleftrightarrow> length (bp_frames p') = length (bp_frames p) \<and> dirt p' \<le> dirt p \<and>
     (\<forall>f. bf_modification_generation (bp_frame p' f) = bf_modification_generation (bp_frame p f))"

lemma tame_refl [simp]: "tame p p"
  by (simp add: tame_def)

lemma tame_trans: "tame p q \<Longrightarrow> tame q r \<Longrightarrow> tame p r"
  by (simp add: tame_def)

lemma dirt_update:
  assumes "i < length frs"
  shows "length (filter bf_dirty (frs[i := fr])) + of_bool (bf_dirty (frs ! i)) =
    length (filter bf_dirty frs) + of_bool (bf_dirty fr)"
  using assms
proof (induction frs arbitrary: i)
  case (Cons a frs)
  then show ?case by (cases i) auto
qed simp

lemma dirt_set_frame:
  assumes "f \<in> frame_ids p"
  shows "dirt (set_frame f c p) + of_bool (bf_dirty (bp_frame p f)) = dirt p + of_bool (bf_dirty (c (bp_frame p f)))"
  using dirt_update[of "unat f" "bp_frames p" "c (bp_frame p f)"] assms by (simp add: dirt_def set_frame_def bp_frame_def)

lemma generation_set_frame:
  assumes "\<And>fr. bf_modification_generation (c fr) = bf_modification_generation fr"
  shows "bf_modification_generation (bp_frame (set_frame f c p) g) = bf_modification_generation (bp_frame p g)"
  using assms by (cases "unat f < length (bp_frames p) \<and> unat g = unat f")
    (auto simp: set_frame_def bp_frame_def nth_list_update list_update_beyond)

lemma tame_set_frame:
  assumes "\<And>fr. bf_dirty (c fr) \<Longrightarrow> bf_dirty fr" and "\<And>fr. bf_modification_generation (c fr) = bf_modification_generation fr"
  shows "tame p (set_frame f c p)"
proof -
  have "dirt (set_frame f c p) \<le> dirt p"
  proof (cases "f \<in> frame_ids p")
    case True
    then show ?thesis using dirt_set_frame[OF True, of c] assms(1)[of "bp_frame p f"]
      by (cases "bf_dirty (bp_frame p f)"; cases "bf_dirty (c (bp_frame p f))") simp_all
  next
    case False
    then show ?thesis by (simp add: dirt_def set_frame_def list_update_beyond)
  qed
  then show ?thesis using generation_set_frame[OF assms(2)] by (simp add: tame_def)
qed

lemma tame_extra [simp]:
  "tame p (put_file fid fe p') = tame p p'" "tame p (set_load l lc p') = tame p p'"
  "tame p (put_entry pid e p') = tame p p'" "tame p (erase_entry pid p') = tame p p'"
  "tame p (p'\<lparr>bp_replacer := c'\<rparr>) = tame p p'" "tame p (p'\<lparr>bp_free_list := fl\<rparr>) = tame p p'"
  "tame p (p'\<lparr>bp_quiescing := q\<rparr>) = tame p p'" "tame p (p'\<lparr>bp_loads := ls\<rparr>) = tame p p'"
  "tame p (p'\<lparr>bp_files := fs\<rparr>) = tame p p'"
  "tame p (finish_new fid p') = tame p p'" "tame p (ReleaseFrameToFreeList f p') = tame p p'"
  by (simp_all add: tame_def dirt_def bp_frame_def finish_new_def ReleaseFrameToFreeList_def split: option.splits)

lemma tame_frames [simp]:
  "tame p p' \<Longrightarrow> tame p (ResetFrame f p')" "tame p p' \<Longrightarrow> tame p (bind_frame f pid io_state p')"
  "tame p p' \<Longrightarrow> tame p (set_bytes f bytes p')" "tame p p' \<Longrightarrow> tame p (unpin_frame f p')"
  by (auto simp: ResetFrame_def bind_frame_def set_bytes_def unpin_frame_def elim!: tame_trans intro!: tame_set_frame)

lemma tame_close_file [simp]: "tame p (close_file fid p)"
proof -
  have "tame p p' \<Longrightarrow> tame p (fold close_page items p')" for items p'
    by (induction items arbitrary: p') (simp_all add: close_page_def)
  then show ?thesis by (simp add: close_file_def Let_def)
qed

section \<open>The sections of a call\<close>

text \<open>What a section may leave: a tame change, and at most so much work.\<close>

definition leaves :: "nat \<Rightarrow> BufferPool \<Rightarrow> Task \<times> BufferPool \<Rightarrow> bool" where
  "leaves n p r \<longleftrightarrow> tame p (snd r) \<and> work (snd r) (fst r) \<le> n"

lemma leaves_le: "leaves m p r \<Longrightarrow> m \<le> n \<Longrightarrow> leaves n p r"
  by (simp add: leaves_def)

lemma leaves_tame: "tame p q \<Longrightarrow> leaves n q r \<Longrightarrow> leaves n p r"
  by (auto simp: leaves_def elim: tame_trans)

lemma leaves_acquired: "tame p q \<Longrightarrow> leaves 12 p (acquired purpose f q)"
  by (cases purpose) (simp_all add: leaves_def Let_def split: option.split)

lemma leaves_failed: "tame p q \<Longrightarrow> leaves 0 p (acquire_failed purpose e q)"
  by (cases purpose) (simp_all add: leaves_def fail_load_def fail_guard_def Let_def)

lemma leaves_reserve: "tame p q \<Longrightarrow> leaves 16 p (reserve_victim purpose f victim q)"
proof -
  assume q: "tame p q"
  have "tame p (set_frame f (\<lambda>fr. fr\<lparr>bf_state := EVICTING\<rparr>) q)" by (rule tame_trans[OF q tame_set_frame]) simp_all
  then show ?thesis by (simp add: leaves_def reserve_victim_def Let_def split: option.split)
qed

lemma leaves_pass: "tame p q \<Longrightarrow> leaves (if notified then 16 else 17) p (acquire_pass purpose notified q)"
  by (auto simp: acquire_pass_def Let_def split: prod.split option.split
      intro!: leaves_le[OF leaves_acquired] leaves_le[OF leaves_failed] leaves_le[OF leaves_reserve])
    (simp add: leaves_def)

lemma leaves_recheck: "leaves 16 p (recheck_candidate purpose f victim p)"
  using leaves_pass[of p p True purpose] leaves_reserve[of p p purpose f victim] by (simp add: recheck_candidate_def)

lemma leaves_finish_eviction: "tame p q \<Longrightarrow> leaves 12 p (finish_eviction purpose f victim q)"
  unfolding finish_eviction_def by (rule leaves_acquired) simp

lemma leaves_start_eviction: "leaves 15 p (start_eviction purpose f victim p)"
  using leaves_le[OF leaves_finish_eviction[OF tame_refl], of 15 p]
    tame_set_frame[of "\<lambda>fr. fr\<lparr>bf_io_state := WRITEBACK_IN_PROGRESS\<rparr>" p f]
  by (simp add: start_eviction_def leaves_def)

lemma leaves_end_eviction: "leaves 12 p (end_eviction purpose f victim written p)"
proof -
  let ?p = "set_frame f (\<lambda>fr. fr\<lparr>bf_io_state := IO_NONE\<rparr>) p" let ?q = "set_frame f (\<lambda>fr. fr\<lparr>bf_state := RESIDENT\<rparr>) ?p"
  have p: "tame p ?p" by (rule tame_set_frame) simp_all
  have q: "tame p ?q" by (rule tame_trans[OF p tame_set_frame]) simp_all
  show ?thesis
  proof (cases written)
    case (Inl e)
    then show ?thesis using q leaves_le[OF leaves_failed, of p _ 12]
      by (simp add: end_eviction_def Let_def leaves_def split: option.split)
  next
    case (Inr u)
    then show ?thesis using leaves_finish_eviction[OF p] by (simp add: end_eviction_def Let_def)
  qed
qed

lemma leaves_load: "leaves 1 p (finish_load page_id l mode f read outcome p)"
proof -
  have "tame p (set_frame f (\<lambda>fr. fr\<lparr>bf_state := RESIDENT, bf_io_state := IO_NONE, bf_pin_count := n\<rparr>) p)" for n
    by (rule tame_set_frame) simp_all
  then show ?thesis
    by (auto simp: leaves_def finish_load_def fail_load_def fail_guard_def PublishLoadLocked_def Let_def split: option.split)
qed

lemma leaves_pin:
  assumes "pin_page page_id mode hit p = Some r"
  shows "leaves (if hit then 18 else 19) p r"
  using assms
  by (auto simp: pin_page_def LoadPage_def JoinLoad_def PinResidentLocked_def fail_guard_def leaves_def Let_def
      intro!: tame_set_frame split: if_splits sum.splits option.splits PageTableEntryState.splits prod.splits)

lemma leaves_join: "join_load l mode p = Some r \<Longrightarrow> leaves 1 p r"
  by (auto simp: join_load_def leaves_def fail_guard_def Let_def split: if_splits option.splits)

lemma leaves_new_page: "new_page fid initializer p = Some r \<Longrightarrow> leaves 18 p r"
  by (auto simp: new_page_def fail_guard_def split: option.splits sum.splits intro!: leaves_le[OF leaves_pass])
    (simp_all add: leaves_def)

lemma leaves_bind: "leaves 9 p (bind_new_page fid initializer f reserved p)"
  by (auto simp: bind_new_page_def leaves_def fail_guard_def Let_def split: option.split sum.split)

section \<open>Flushes\<close>

lemma leaves_end_flush: "leaves 0 p (end_flush failure after p)"
  by (auto simp: leaves_def end_flush_def split: After_Flush.split sum.split)

text \<open>A flush that finds its first page busy changes nothing.\<close>

lemma flush_pages_leaves:
  "leaves (6 * length pages + 4) p (flush_pages pages failure operation after p) \<or>
   flush_pages pages failure operation after p =
     (Flushing \<lparr>fj_pages = pages, fj_failure = failure, fj_operation = operation, fj_after = after\<rparr> Flush_Next, p)"
proof (induction pages)
  case Nil
  then show ?case using leaves_le[OF leaves_end_flush] by simp
next
  case (Cons page_id rest)
  have skip: "leaves (6 * length (page_id # rest) + 4) p (flush_pages rest failure operation after p)"
    using Cons.IH by (auto simp: leaves_def)
  have reserve: "tame p (set_frame f (\<lambda>fr. fr\<lparr>bf_io_state := WRITEBACK_IN_PROGRESS\<rparr>) p)" for f by (rule tame_set_frame) simp_all
  show ?case
  proof (cases "find_entry p page_id")
    case None
    then show ?thesis using skip by simp
  next
    case (Some e)
    show ?thesis
    proof (cases "pt_state e = PT_RESIDENT \<and> bf_dirty (bp_frame p (pt_frame_id e))")
      case True
      then show ?thesis using Some reserve by (simp add: Let_def leaves_def)
    next
      case False
      then show ?thesis using Some skip by (cases "pt_state e") (simp_all add: Let_def)
    qed
  qed
qed

lemma flush_pages_total: "leaves (6 * length pages + 5) p (flush_pages pages failure operation after p)"
  using flush_pages_leaves[of pages p failure operation after] by (auto simp: leaves_def)

section \<open>A step uses up work\<close>

definition spends :: "BufferPool \<Rightarrow> Task \<Rightarrow> BufferPool \<Rightarrow> Task \<Rightarrow> bool" where
  "spends p t p' t' \<longleftrightarrow> length (bp_frames p') = length (bp_frames p) \<and> work p' t' + 6 * dirt p' < work p t + 6 * dirt p \<and>
     (\<forall>f \<in> frame_ids p. bf_state (bp_frame p f) = RESIDENT \<longrightarrow>
        bf_modification_generation (bp_frame p' f) = bf_modification_generation (bp_frame p f))"

lemma spends_less: "leaves n p (t', p') \<Longrightarrow> n < work p t \<Longrightarrow> spends p t p' t'"
  by (simp add: leaves_def spends_def tame_def)

lemma spends_alone: "work p t' < work p t \<Longrightarrow> spends p t p t'"
  by (simp add: spends_def)

lemma dirty_pages_few:
  assumes ok: "pool_ok p R"
  shows "length (dirty_pages selected p) \<le> length (bp_frames p)"
proof -
  let ?pids = "map fst (filter (\<lambda>(pid, e). selected pid \<and> pt_state e = PT_RESIDENT \<and>
    bf_dirty (bp_frame p (pt_frame_id e))) (bp_page_table p))"
  let ?frame = "\<lambda>pid. unat (pt_frame_id (the (find_entry p pid)))"
  have d: "distinct ?pids" using pool_okD(1)[OF ok] by (simp add: shape_ok_def distinct_map_filter)
  have entry: "\<exists>e. find_entry p pid = Some e \<and> pt_state e = PT_RESIDENT" if "pid \<in> set ?pids" for pid
    using that find_entry_mem[OF pool_okD(1)[OF ok]] by auto
  have "inj_on ?frame (set ?pids)"
  proof (rule inj_onI)
    fix a b assume ab: "a \<in> set ?pids" "b \<in> set ?pids" "?frame a = ?frame b"
    obtain e e' where e: "find_entry p a = Some e" "pt_state e = PT_RESIDENT" "find_entry p b = Some e'" "pt_state e' = PT_RESIDENT"
      using entry[OF ab(1)] entry[OF ab(2)] by blast
    then have "pt_frame_id e = pt_frame_id e'" using ab(3) by (simp add: word_unat_eq_iff)
    then show "a = b" using resident_entry(3)[OF ok e(1,2)] resident_entry(3)[OF ok e(3,4)] by simp
  qed
  moreover have "?frame ` set ?pids \<subseteq> {..< length (bp_frames p)}"
  proof
    fix x assume "x \<in> ?frame ` set ?pids"
    then obtain pid where pid: "pid \<in> set ?pids" "x = ?frame pid" by (rule imageE)
    from entry[OF pid(1)] obtain e where e: "find_entry p pid = Some e" "pt_state e = PT_RESIDENT" by blast
    then show "x \<in> {..< length (bp_frames p)}" using resident_entry(1)[OF ok e] pid(2) by simp
  qed
  ultimately have "card (set ?pids) \<le> card {..< length (bp_frames p)}" by (rule card_inj_on_le) simp
  then show ?thesis unfolding distinct_card[OF d] by (simp add: dirty_pages_def)
qed

lemma leaves_dirty_pages:
  assumes "pool_ok p R"
  shows "leaves (6 * length (bp_frames p) + 5) p (flush_pages (dirty_pages selected p) failure operation after p)"
  by (rule leaves_le[OF flush_pages_total]) (use dirty_pages_few[OF assms] in simp)

lemma reconcile_spends:
  assumes ok: "pool_ok p (add_mset (Writeback f page_id epoch) M)"
    and step: "reconcile job f page_id epoch generation written p = (t, p')"
  shows "spends p (Flushing job (Reconcile f page_id epoch generation written)) p' t"
proof -
  let ?q = "set_frame f (\<lambda>fr. fr\<lparr>bf_io_state := IO_NONE\<rparr>) p" let ?c = "set_frame f (\<lambda>fr. fr\<lparr>bf_dirty := False\<rparr>) ?q"
  let ?n = "length (fj_pages job)"
  have wb: "Writeback f page_id epoch \<in># add_mset (Writeback f page_id epoch) M" by simp
  note res = writeback_resident[OF ok wb]
  have fr: "Page_id (bf_page (bp_frame ?q f)) = page_id" "bf_binding_epoch (bp_frame ?q f) = epoch"
    "bf_modification_generation (bp_frame ?q f) = bf_modification_generation (bp_frame p f)"
    "bf_dirty (bp_frame ?q f)" "f \<in> frame_ids ?q"
    using pool_okD(6)[OF ok wb] res frame_facts(1)[OF ok res(3)] by (simp_all add: bp_frame_set_frame legal_frame_def)
  have q: "tame p ?q" by (rule tame_set_frame) simp_all
  show ?thesis
  proof (cases written)
    case (Inl e)
    then have r: "flush_pages (tl (fj_pages job)) (case fj_failure job of Ok _ \<Rightarrow> Unexpected e | Unexpected e' \<Rightarrow> Unexpected e')
        (fj_operation job) (fj_after job) ?q = (t, p')"
      using step by (simp add: reconcile_def flush_next_def Let_def)
    show ?thesis
    proof (cases "fj_pages job")
      case Nil
      then have "leaves 0 p (t, p')" using leaves_tame[OF q leaves_end_flush] r[symmetric] by simp
      then show ?thesis by (rule spends_less) simp
    next
      case (Cons a rest)
      then have "leaves (6 * length rest + 5) p (t, p')"
        using leaves_tame[OF q flush_pages_total, of rest] r[symmetric] by (simp del: flush_pages.simps)
      moreover have "6 * length rest + 5 < work p (Flushing job (Reconcile f page_id epoch generation written))"
        unfolding work.simps flush_work.simps Cons by simp
      ultimately show ?thesis by (rule spends_less)
    qed
  next
    case (Inr u)
    show ?thesis
    proof (cases "bf_modification_generation (bp_frame p f) = generation")
      case True
      then have r: "flush_pages (fj_pages job) (fj_failure job) (fj_operation job) (fj_after job) ?c = (t, p')"
        using step Inr fr by (simp add: reconcile_def flush_next_def Let_def)
      have "tame ?q ?c" by (rule tame_set_frame) simp_all
      moreover have "dirt ?c + 1 = dirt ?q" using dirt_set_frame[OF fr(5), of "\<lambda>fr. fr\<lparr>bf_dirty := False\<rparr>"] fr(4) by simp
      moreover have "leaves (6 * ?n + 5) ?c (t, p')" using flush_pages_total[of "fj_pages job" ?c] unfolding r[symmetric] .
      ultimately show ?thesis using q by (simp add: spends_def leaves_def tame_def)
    next
      case False
      then have r: "flush_pages (fj_pages job) (fj_failure job) (fj_operation job) (fj_after job) ?q = (t, p')"
        using step Inr fr by (simp add: reconcile_def flush_next_def Let_def)
      have "leaves (6 * ?n + 5) ?q (t, p')" using flush_pages_total[of "fj_pages job" ?q] unfolding r[symmetric] .
      then have "leaves (6 * ?n + 5) p (t, p')" by (rule leaves_tame[OF q])
      moreover have "6 * ?n + 5 < work p (Flushing job (Reconcile f page_id epoch generation written))"
        using False by (simp add: stale_def)
      ultimately show ?thesis by (rule spends_less)
    qed
  qed
qed

lemma publish_spends:
  assumes ok: "pool_ok p (add_mset (Own_Frame f LOADING io_state page_id) M)"
    and step: "publish_new_page fid f page_id built outcome p = (t, p')"
  shows "spends p (Create fid initializer f (New_Done page_id built outcome)) p' t"
proof -
  note own = owned_frame[OF ok]
  let ?c = "\<lambda>fr. fr\<lparr>bf_state := RESIDENT, bf_pin_count := 1, bf_dirty := True,
    bf_modification_generation := bf_modification_generation fr + 1\<rparr>"
  have "\<not> bf_dirty (bp_frame p f)" using frame_facts(1)[OF ok own(1)] own(2) by (simp add: legal_frame_def)
  then have d: "dirt (set_frame f ?c p) = dirt p + 1" using dirt_set_frame[OF own(1), of ?c] by simp
  have g: "bf_modification_generation (bp_frame (set_frame f ?c p) g) = bf_modification_generation (bp_frame p g)" if "g \<noteq> f" for g
    using that own(1) by (simp add: bp_frame_set_frame)
  have pub: "spends p (Create fid initializer f (New_Done page_id b out)) p'' u"
    if p'': "tame (set_frame f ?c p) p''" "work p'' u \<le> 1" for p'' b out u
  proof -
    have "bf_modification_generation (bp_frame p'' h) = bf_modification_generation (bp_frame p h)"
      if "bf_state (bp_frame p h) = RESIDENT" for h
      using that own(2) g[of h] p''(1) by (cases "h = f") (simp_all add: tame_def)
    then show ?thesis using p'' d by (simp add: spends_def tame_def)
  qed
  have swap: "set_frame f ?c (put_file fid e p) = put_file fid e (set_frame f ?c p)" for e
    by (simp add: set_frame_def put_file_def bp_frame_def)
  have fail: "spends p (Create fid initializer f (New_Done page_id b out))
      (finish_new fid (ReleaseFrameToFreeList f (ResetFrame f (erase_entry page_id p)))) (fail_guard e)" for b out e
    by (rule spends_less[of 0]) (simp_all add: leaves_def fail_guard_def)
  show ?thesis
  proof (cases "find_file p fid")
    case None
    then show ?thesis using step by (auto simp: publish_new_page_def intro: spends_alone)
  next
    case (Some fe)
    then show ?thesis using step by (auto simp: publish_new_page_def Let_def swap split: option.splits if_splits intro!: fail)
        (auto intro!: pub)
  qed
qed

lemma spends_section: "leaves n p r \<Longrightarrow> n < work p t \<Longrightarrow> r = (t', p') \<Longrightarrow> spends p t p' t'"
  using spends_less by blast

lemma acquire_spends:
  assumes "advance_acquire io purpose point p d = Some (t', p', d')"
  shows "spends p (Acquire purpose point) p' t'"
proof (cases point)
  case Acquiring
  then show ?thesis using assms spends_section[OF leaves_pass[where notified = False, OF tame_refl]] by auto
next
  case (Candidate f victim)
  then show ?thesis using assms spends_section[OF leaves_recheck] by auto
next
  case (Reserved f victim)
  then show ?thesis using assms spends_section[OF leaves_start_eviction] by auto
next
  case (Evict_Write f victim img)
  then show ?thesis using assms by (auto intro!: spends_alone dest!: write_image_cases)
next
  case (Evict_Sync f victim)
  then show ?thesis using assms by (auto intro!: spends_alone dest!: sync_image_cases)
next
  case (Evict_Done f victim status)
  then show ?thesis using assms spends_section[OF leaves_end_eviction] by auto
qed

lemma load_spends:
  assumes "advance_load io page_id l mode f validator point p d = Some (t', p', d')"
  shows "spends p (Load page_id l mode f validator point) p' t'"
proof (cases point)
  case Load_Read
  then obtain st out where st: "io_ReadPage io page_id (Page_bytes (bf_page (bp_frame p f))) d = Some (st, out, d')"
    "t' = Load page_id l mode f validator (case st of Ok _ \<Rightarrow> Load_Validate | Unexpected e \<Rightarrow> Load_Done st VALID)"
    "p' = set_bytes f out p" using assms by auto
  then have "leaves 3 p (t', p')" by (cases st) (simp_all add: leaves_def)
  then show ?thesis by (rule spends_less) (simp add: Load_Read)
next
  case Load_Validate
  then show ?thesis using assms by (auto intro!: spends_alone)
next
  case (Load_Done read outcome)
  then show ?thesis using assms spends_section[OF leaves_load] by auto
qed

lemma create_spends:
  assumes ok: "pool_ok p (task_rights (Create fid initializer f point) + M)"
    and "advance_create io fid initializer f point p d = Some (t', p', d')"
  shows "spends p (Create fid initializer f point) p' t'"
proof (cases point)
  case (New_Count published)
  then obtain n where n: "t' = Create fid initializer f (new_page_counted published n)" "p' = p" using assms(2) by auto
  then show ?thesis using New_Count by (cases n) (auto simp: new_page_counted_def intro!: spends_alone)
next
  case New_Extend
  then show ?thesis using assms by (auto intro!: spends_alone)
next
  case (New_Bind reserved)
  then show ?thesis using assms spends_section[OF leaves_bind] by auto
next
  case (New_Build page_id validator)
  then show ?thesis using assms by (auto simp: Let_def leaves_def split: prod.splits intro!: spends_less[of 8])
next
  case (New_Done page_id built outcome)
  have "pool_ok p (add_mset (Own_Frame f LOADING IO_NONE page_id) ({#Creation fid (Some page_id),
      Own_Entry page_id \<lparr>pt_state = PT_LOADING, pt_frame_id = f, pt_load = None\<rparr>#} + M))"
    using ok New_Done by (simp add: building_rights_def add_mset_commute)
  from publish_spends[OF this] show ?thesis using assms(2) New_Done by simp
qed

lemma flushing_spends:
  assumes ok: "pool_ok p (task_rights (Flushing job point) + M)"
    and step: "advance_flush io job point p d = Some (t', p', d')" and "(t', p') \<noteq> (Flushing job point, p)"
  shows "spends p (Flushing job point) p' t'"
proof (cases point)
  case Flush_Next
  then have r: "flush_pages (fj_pages job) (fj_failure job) (fj_operation job) (fj_after job) p = (t', p')"
    using step by (simp add: flush_next_def)
  have "leaves (6 * length (fj_pages job) + 4) p (t', p')"
    using flush_pages_leaves[of "fj_pages job" p "fj_failure job" "fj_operation job" "fj_after job"] assms(3) Flush_Next
    unfolding r by auto
  then show ?thesis by (rule spends_less) (simp add: Flush_Next)
next
  case (Copy_Image f page_id epoch)
  then show ?thesis using step by (auto simp: Let_def stale_def split: if_splits intro!: spends_alone)
next
  case (Write_Image f page_id epoch generation img)
  then show ?thesis using step by (auto intro!: spends_alone dest!: write_image_cases)
next
  case (Sync_Image f page_id epoch generation)
  then show ?thesis using step by (auto intro!: spends_alone dest!: sync_image_cases)
next
  case (Reconcile f page_id epoch generation status)
  then show ?thesis using reconcile_spends[of p f page_id epoch "job_rights job + M" job generation status t' p'] ok step by simp
qed

theorem advance_spends:
  assumes ok: "pool_ok p (task_rights t + M)" and step: "advance io t p d = Some (t', p', d')" and move: "(t', p') \<noteq> (t, p)"
  shows "spends p t p' t'"
proof -
  note pages = leaves_dirty_pages[OF ok]
  have drained: "leaves (6 * length (bp_frames p) + 5) p r" if "drain_file fid disposition p = Some r" for fid disposition r
    using that pages by (auto simp: drain_file_def leaves_def simp del: flush_pages.simps split: option.splits if_splits)
  show ?thesis
  proof (cases t)
    case (Pin page_id mode hit)
    then show ?thesis using step leaves_pin[of page_id mode hit p] by (auto intro!: spends_section)
  next
    case (Join page_id l mode)
    then show ?thesis using step leaves_join[of l mode p] by (auto intro!: spends_section)
  next
    case (Acquire purpose point)
    then show ?thesis using step acquire_spends by simp
  next
    case (Load page_id l mode f validator point)
    then show ?thesis using step load_spends by simp
  next
    case (New_Page fid initializer)
    then show ?thesis using step leaves_new_page[of fid initializer p] by (auto intro!: spends_section)
  next
    case (Create fid initializer f point)
    then show ?thesis using step create_spends ok by simp
  next
    case (Latch f mode)
    then show ?thesis using step
      by (auto simp: MakeGuard_def Let_def leaves_def split: if_splits intro!: spends_less[of 0] tame_set_frame)
  next
    case (Unpin f)
    then show ?thesis using step by (auto simp: leaves_def intro!: spends_less[of 0])
  next
    case (Flush_Page page_id)
    then show ?thesis using step flush_pages_total[of "[page_id]" p] by (auto simp del: flush_pages.simps intro!: spends_section)
  next
    case (Flush_File fid)
    have "leaves (6 * length (bp_frames p) + 5) p (flush_file fid p)" using pages by (simp add: flush_file_def leaves_def)
    then show ?thesis using step Flush_File by (auto intro!: spends_section)
  next
    case Flush_All
    then show ?thesis using step pages by (auto simp del: flush_pages.simps intro!: spends_section)
  next
    case (Flushing job point)
    then show ?thesis using step flushing_spends ok move by simp
  next
    case (Register fid validator)
    then show ?thesis using step by (auto split: if_splits intro!: spends_alone)
  next
    case (Register_Counted fid validator n)
    then show ?thesis using step
      by (auto simp: register_counted_def leaves_def Let_def split: sum.splits if_splits intro!: spends_less[of 0])
  next
    case (Retire fid disposition)
    have "leaves (6 * length (bp_frames p) + 6) p (retire_file fid disposition p)"
      using leaves_le[OF drained[of fid disposition], of _ "6 * length (bp_frames p) + 6"]
      by (simp add: retire_file_def leaves_def split: option.split)
    then show ?thesis using step Retire by (auto intro!: spends_section)
  next
    case (Drain fid disposition)
    then show ?thesis using step drained[of fid disposition] by (auto intro!: spends_section)
  next
    case Shutdown
    let ?q = "p\<lparr>bp_quiescing := True\<rparr>"
    have "pool_ok ?q M" using set_quiescing ok Shutdown by simp
    note leaves_dirty_pages[OF this]
    then have "leaves (6 * length (bp_frames p) + 5) p (flush_pages (dirty_pages (\<lambda>_. True) ?q) (Ok ()) SHUTDOWN Return_Status ?q)"
      by (intro leaves_tame[of p ?q]) simp_all
    then have "leaves (6 * length (bp_frames p) + 6) p (shutdown p)"
      by (auto simp: shutdown_def drain_pool_def Let_def leaves_def simp del: flush_pages.simps)
    then show ?thesis using step Shutdown by (auto intro!: spends_section)
  next
    case Shutdown_Drain
    then show ?thesis using step pages
      by (auto simp: drain_pool_def simp del: flush_pages.simps split: if_splits intro!: spends_section)
  qed (use step in simp_all)
qed

section \<open>Runs of the calls alone\<close>

text \<open>A step of a call that changes it or the pool.\<close>

definition call_step :: "'d page_io \<Rightarrow> 'd system \<Rightarrow> 'd system \<Rightarrow> bool" where
  "call_step io s s' \<longleftrightarrow> (\<exists>i t p d. i < length (sy_tasks s) \<and> advance io (sy_tasks s ! i) (sy_pool s) (sy_device s) = Some (t, p, d) \<and>
     (t, p) \<noteq> (sy_tasks s ! i, sy_pool s) \<and> s' = s\<lparr>sy_pool := p, sy_device := d, sy_tasks := (sy_tasks s)[i := t]\<rparr>)"

lemma somebody_steps: "somebody_moves io s \<Longrightarrow> \<exists>t. call_step io s t"
proof -
  assume "somebody_moves io s"
  then obtain i t p d where "i < length (sy_tasks s)" "advance io (sy_tasks s ! i) (sy_pool s) (sy_device s) = Some (t, p, d)"
    "(t, p) \<noteq> (sy_tasks s ! i, sy_pool s)" by (auto simp: somebody_moves_def moves_def in_set_conv_nth)
  then show ?thesis unfolding call_step_def by blast
qed

text \<open>The other calls keep their work: a page that one of them is writing back is resident.\<close>

lemma work_kept:
  assumes ok: "pool_ok p R" and mine: "\<And>r. r \<in># task_rights u \<Longrightarrow> r \<in># R" and step: "spends p t p' t'"
  shows "work p' u = work p u"
proof (cases u)
  case (Flushing job point)
  have "stale p' f generation = stale p f generation" if "Writeback f pid epoch \<in># task_rights u" for f pid epoch generation
    using writeback_resident(1,3)[OF ok mine[OF that]] step by (simp add: spends_def stale_def)
  then show ?thesis using Flushing by (cases point) auto
qed (use step in \<open>simp_all add: spends_def\<close>)

lemma sum_update:
  fixes v w :: "'a \<Rightarrow> nat"
  assumes "i < length xs" and "\<And>y. y \<in> set (take i xs @ drop (Suc i) xs) \<Longrightarrow> w y = v y"
  shows "sum_list (map w (xs[i := x])) + v (xs ! i) = sum_list (map v xs) + w x"
proof -
  let ?others = "take i xs @ drop (Suc i) xs"
  have "map w ?others = map v ?others" using assms(2) by (intro map_cong) simp_all
  then have "sum_list (map w ?others) = sum_list (map v ?others)" by (rule arg_cong)
  moreover have "sum_list (map v xs) = v (xs ! i) + sum_list (map v ?others)"
    by (subst id_take_nth_drop[OF assms(1)]) simp
  moreover have "sum_list (map w (xs[i := x])) = w x + sum_list (map w ?others)"
    using assms(1) by (simp add: upd_conv_take_nth_drop)
  ultimately show ?thesis by simp
qed

lemma call_step_work:
  assumes ok: "pool_ok (sy_pool s) (system_rights s)" and step: "call_step io s s'"
  shows "pool_ok (sy_pool s') (system_rights s') \<and> work_left s' < work_left s"
proof -
  obtain i t p d where i: "i < length (sy_tasks s)"
    and adv: "advance io (sy_tasks s ! i) (sy_pool s) (sy_device s) = Some (t, p, d)" "(t, p) \<noteq> (sy_tasks s ! i, sy_pool s)"
    and s': "s' = s\<lparr>sy_pool := p, sy_device := d, sy_tasks := (sy_tasks s)[i := t]\<rparr>"
    using step unfolding call_step_def by blast
  obtain M where M: "rights_of (sy_tasks s) = task_rights (sy_tasks s ! i) + M"
    "\<And>u. rights_of ((sy_tasks s)[i := u]) = task_rights u + M" using rights_of_split[OF i] by metis
  have ok1: "pool_ok (sy_pool s) (task_rights (sy_tasks s ! i) + (M + image_mset Holding (mset (sy_guards s))))"
    using ok by (simp add: system_rights_def M(1) add.assoc)
  have ok2: "pool_ok (sy_pool s') (system_rights s')"
    using advance_ok[OF ok1 adv(1)] by (simp add: s' system_rights_def M(2) add.assoc)
  note spends = advance_spends[OF ok1 adv]
  have "work p u = work (sy_pool s) u" if "u \<in> set (take i (sy_tasks s) @ drop (Suc i) (sy_tasks s))" for u
  proof (rule work_kept[OF ok _ spends])
    have "u \<in> set (sy_tasks s)" using that set_take_subset set_drop_subset by fastforce
    then show "r \<in># system_rights s" if "r \<in># task_rights u" for r using that by (rule task_right)
  qed
  from sum_update[where x = t and w = "work p" and v = "work (sy_pool s)", OF i this] have "work_left s' < work_left s"
    using spends by (simp add: work_left_def s' spends_def)
  then show ?thesis using ok2 by blast
qed

lemma call_steps_work:
  "(call_step io ^^ k) s t \<Longrightarrow> pool_ok (sy_pool s) (system_rights s) \<Longrightarrow>
    pool_ok (sy_pool t) (system_rights t) \<and> work_left t + k \<le> work_left s"
proof (induction k arbitrary: t)
  case (Suc k)
  then obtain u where u: "(call_step io ^^ k) s u" "call_step io u t" by auto
  show ?case using Suc.IH[OF u(1) Suc.prems(2)] call_step_work[OF _ u(2)] by auto
qed simp

text \<open>The disk manager always answers, however often the kernel interrupts it.\<close>

lemma disk_answers:
  assumes "posix_kernel os view patience"
  shows "answers (DiskPageIo os)"
proof -
  have "ReadPage os pid bytes dm k \<noteq> None" "WritePage os pid bytes dm k \<noteq> None" "SyncFile os fid dm k \<noteq> None"
    "PageCount os fid dm k \<noteq> None" "ExtendFile os fid dm k \<noteq> None" for pid fid bytes dm k
    using posix_kernel.PageCount_spec[OF assms] posix_kernel.SyncFile_spec[OF assms] posix_kernel.ReadPage_spec[OF assms]
      posix_kernel.WritePage_spec[OF assms] posix_kernel.ExtendFile_spec[OF assms] by (metis option.distinct(1))+
  then show ?thesis by (simp add: answers_def DiskPageIo_def case_prod_beta)
qed

section \<open>Every call ends\<close>

text \<open>C7: liveness. The pool neither deadlocks nor runs in circles. From any reachable state, whatever the scheduler
  and the devices do, the calls in progress can take at most \<open>work_left\<close> steps that change anything (looking
  again at a page somebody else is busy with is no such step); and as long as a call has not returned and
  no caller has a page guard in its hands, some call can take one. So if guards are released, every fetch,
  page creation, flush, retirement and shutdown returns. Waiting for a latch, a load, an eviction, a
  writeback, a page creation or for pins never closes a circle.
  Callers retire a file by one call at a time.\<close>

theorem calls_finish:
  assumes "posix_kernel os view patience" and "pool_run (DiskPageIo os) n m d s" and "(call_step (DiskPageIo os) ^^ k) s t"
  shows "k \<le> work_left s \<and>
    (list_all finished (sy_tasks t) \<or> (\<exists>u. call_step (DiskPageIo os) t u) \<or> \<not> guard_free t)"
proof -
  note run = call_steps_work[OF assms(3) pool_run_ok[OF assms(2)]]
  have "\<exists>u. call_step (DiskPageIo os) t u" if "c \<in> set (sy_tasks t)" "\<not> finished c" "guard_free t" for c
    by (rule somebody_steps[OF unfinished_moves[OF that(1,2)]])
      (use run that(3) disk_answers[OF assms(1)] in \<open>simp add: unhindered_def\<close>)
  then show ?thesis using run by (auto simp: list_all_iff)
qed

theorem calls_finish_witness: "work_left (last_step FLUSH_PAGE False) = 13 \<and> 1 \<le> work_left (last_step FLUSH_PAGE False)"
proof -
  let ?s = "last_step FLUSH_PAGE False"
  have "call_step sample_io ?s (?s\<lparr>sy_pool := clean_pool False, sy_device := saved_device,
      sy_tasks := (sy_tasks ?s)[3 := Returned (Ok ())]\<rparr>)"
    using last_step_returns[of FLUSH_PAGE False] unfolding call_step_def
    by (intro exI[of _ 3] exI[of _ "Returned (Ok ())"] exI[of _ "clean_pool False"] exI[of _ saved_device])
      (simp add: last_step_def nth_append)
  then have one: "(call_step sample_io ^^ 1) ?s (?s\<lparr>sy_pool := clean_pool False, sy_device := saved_device,
      sy_tasks := (sy_tasks ?s)[3 := Returned (Ok ())]\<rparr>)" by (simp only: relpowp_1)
  have "1 \<le> work_left ?s"
    using calls_finish[OF sample.posix_kernel_axioms sample_pool_run[OF script_run[OF flush_to_last resting_run]] one] by blast
  moreover have "work_left ?s = 13"
    by (simp add: work_left_def last_step_def dirt_def resting_system_def created_pool_def created_frame_def stale_def bp_frame_def)
  ultimately show ?thesis by simp
qed

end
