(* ===== verification/Pool_Wakeup.thy ===== *)
theory Pool_Wakeup
  imports Pool_Termination
begin

text \<open>
  The condition variable \<open>state_changed_\<close>. A call that finds its condition false sleeps until some call runs
  \<open>notify_all\<close>; a change that makes a condition true without notifying would leave it asleep. \<open>sleeps\<close> says
  which calls wait for the condition variable, \<open>notifies\<close> which sections run \<open>notify_all\<close>, and the
  sections that do not are shown to wake nobody (\<open>lulls\<close>).
\<close>

section \<open>Sleepers and wake-ups\<close>

fun sleeps :: "BufferPool \<Rightarrow> Task \<Rightarrow> bool" where
  "sleeps p (Pin page_id mode hit_notified) = (pin_page page_id mode hit_notified p = None)"
| "sleeps p (Join page_id l mode) = (join_load l mode p = None)"
| "sleeps p (New_Page fid initializer) = (new_page fid initializer p = None)"
| "sleeps p (Flushing job Flush_Next) = (flush_next job p = (Flushing job Flush_Next, p))"
| "sleeps p (Drain fid disposition) = (drain_file fid disposition p = None)"
| "sleeps p Shutdown_Drain = (drain_pool p = None)"
| "sleeps p _ = False"

definition failed_guard :: "Task \<Rightarrow> bool" where
  "failed_guard t \<longleftrightarrow> (\<exists>e. t = Returned_Guard (Unexpected e))"

text \<open>Where \<open>notify_all\<close> runs, operation by operation. At the end of an eviction: of a clean page in the section after
  \<open>VICTIM_RESERVED\<close>, of a dirty one after its writeback, failed or not.\<close>

fun eviction_notifies :: "BufferPool \<Rightarrow> Acquire_Point \<Rightarrow> bool" where
  "eviction_notifies p (Reserved f victim) = (\<not> bf_dirty (bp_frame p f))"
| "eviction_notifies p (Evict_Done f victim status) = True"
| "eviction_notifies p point = False"

text \<open>When a load ends, by its publication or by \<open>fail\<close>.\<close>

fun load_notifies :: "Load_Point \<Rightarrow> bool" where
  "load_notifies (Load_Done read outcome) = True"
| "load_notifies point = False"

text \<open>When a page creation ends (\<open>finish\<close>): where its number cannot be reserved, and after its page is built.\<close>

fun creation_notifies :: "New_Point \<Rightarrow> Task \<Rightarrow> bool" where
  "creation_notifies (New_Bind reserved) t' = failed_guard t'"
| "creation_notifies (New_Done page_id built outcome) t' = True"
| "creation_notifies point t' = False"

text \<open>When a writeback ends, and when the flush of a retirement has left the file to be closed.\<close>

fun writeback_notifies :: "Flush_Job \<Rightarrow> Flush_Point \<Rightarrow> Task \<Rightarrow> bool" where
  "writeback_notifies job (Reconcile f page_id epoch generation status) t' = True"
| "writeback_notifies job Flush_Next t' = (fj_after job \<noteq> Return_Status \<and> t' = Returned (Ok ()))"
| "writeback_notifies job point t' = False"

text \<open>When a retirement marks its file, and when it has closed it.\<close>

definition retire_notifies :: "BufferPool \<Rightarrow> FileId \<Rightarrow> Task \<Rightarrow> bool" where
  "retire_notifies p fid t' \<longleftrightarrow>
     (\<exists>fe. find_file p fid = Some fe \<and> fe_state fe = ACTIVE) \<or> t' = Returned (Ok ())"

text \<open>When the last pin goes.\<close>

definition unpin_notifies :: "BufferPool \<Rightarrow> FrameId \<Rightarrow> bool" where
  "unpin_notifies p f \<longleftrightarrow> bf_pin_count (bp_frame p f) = 1"

declare retire_notifies_def [simp] unpin_notifies_def [simp]

text \<open>The section from the task \<open>t\<close> in the pool \<open>p\<close> to \<open>t'\<close>. A failed acquisition ends its load (\<open>fail\<close>) or its
  page creation (\<open>finish\<close>); a shutdown notifies once it has set \<open>quiescing_\<close>.\<close>

fun notifies :: "BufferPool \<Rightarrow> Task \<Rightarrow> Task \<Rightarrow> bool" where
  "notifies p (Acquire purpose point) t' = (eviction_notifies p point \<or> failed_guard t')"
| "notifies p (Load page_id l mode f validator point) t' = load_notifies point"
| "notifies p (New_Page fid initializer) t' = (WaitForNewPageTurn fid p = Some (Ok ()) \<and> failed_guard t')"
| "notifies p (Create fid initializer f point) t' = creation_notifies point t'"
| "notifies p (Unpin f) t' = unpin_notifies p f"
| "notifies p (Flushing job point) t' = writeback_notifies job point t'"
| "notifies p (Retire fid disposition) t' = retire_notifies p fid t'"
| "notifies p (Drain fid disposition) t' = (t' = Returned (Ok ()))"
| "notifies p Shutdown t' = True"
| "notifies p _ t' = False"

section \<open>Changes that wake nobody\<close>

text \<open>Files stay as they are and creations in progress stay so; an entry stays, and one that is not resident stays
  so; what is pinned, under transfer or loading stays so.\<close>

definition lulls :: "BufferPool \<Rightarrow> BufferPool \<Rightarrow> bool" where
  "lulls p p' \<longleftrightarrow> bp_quiescing p' = bp_quiescing p \<and> length (bp_frames p') = length (bp_frames p) \<and>
     (\<forall>fid fe. find_file p fid = Some fe \<longrightarrow> (\<exists>fe'. find_file p' fid = Some fe' \<and> fe_state fe' = fe_state fe \<and>
        fe_published_page_count fe' = fe_published_page_count fe \<and> (fe_new_page_in_progress fe \<longrightarrow> fe_new_page_in_progress fe'))) \<and>
     (\<forall>pid e. find_entry p pid = Some e \<longrightarrow> (\<exists>e'. find_entry p' pid = Some e' \<and>
        (if pt_state e = PT_RESIDENT then pt_state e' = PT_EVICTING \<or> pt_state e' = PT_RESIDENT \<and> pt_frame_id e' = pt_frame_id e
         else if pt_state e = PT_EVICTING then pt_state e' = PT_EVICTING else pt_state e' \<noteq> PT_RESIDENT))) \<and>
     (\<forall>f. (bf_pin_count (bp_frame p f) \<noteq> 0 \<longrightarrow> bf_pin_count (bp_frame p' f) \<noteq> 0) \<and>
        (bf_io_state (bp_frame p f) \<noteq> IO_NONE \<longrightarrow> bf_io_state (bp_frame p' f) \<noteq> IO_NONE) \<and>
        (bf_io_state (bp_frame p f) \<noteq> IO_NONE \<and> bf_dirty (bp_frame p f) \<longrightarrow> bf_dirty (bp_frame p' f))) \<and>
     (\<forall>l < length (bp_loads p). l < length (bp_loads p') \<and> (\<not> lo_done (bp_loads p ! l) \<longrightarrow> \<not> lo_done (bp_loads p' ! l)))"

lemma lulls_refl [simp]: "lulls p p"
  by (auto simp: lulls_def)

lemma flush_stays_iff:
  "flush_pages pages failure operation after p =
     (Flushing \<lparr>fj_pages = pages, fj_failure = failure, fj_operation = operation, fj_after = after\<rparr> Flush_Next, p) \<longleftrightarrow>
   (\<exists>pid rest e. pages = pid # rest \<and> find_entry p pid = Some e \<and> (pt_state e = PT_EVICTING \<or>
      pt_state e = PT_RESIDENT \<and> bf_dirty (bp_frame p (pt_frame_id e)) \<and> bf_io_state (bp_frame p (pt_frame_id e)) \<noteq> IO_NONE))"
proof (cases pages)
  case Nil
  then show ?thesis by (auto simp: end_flush_def split: After_Flush.splits sum.splits)
next
  case (Cons pid rest)
  have "flush_pages rest failure operation after p \<noteq>
      (Flushing \<lparr>fj_pages = pid # rest, fj_failure = failure, fj_operation = operation, fj_after = after\<rparr> Flush_Next, p)"
    using flush_pages_total[of rest p failure operation after] by (auto simp: leaves_def)
  then show ?thesis using Cons
    by (cases "find_entry p pid") (auto simp: Let_def split: PageTableEntryState.splits)
qed

lemma lulls_file:
  assumes "lulls p p'" and "find_file p fid = Some fe"
  obtains fe' where "find_file p' fid = Some fe'" "fe_state fe' = fe_state fe"
    "fe_published_page_count fe' = fe_published_page_count fe" "fe_new_page_in_progress fe \<Longrightarrow> fe_new_page_in_progress fe'"
  using assms unfolding lulls_def by metis

lemma lulls_entry:
  assumes "lulls p p'" and "find_entry p pid = Some e"
  obtains e' where "find_entry p' pid = Some e'" "pt_state e = PT_EVICTING \<Longrightarrow> pt_state e' = PT_EVICTING"
    "pt_state e \<noteq> PT_RESIDENT \<Longrightarrow> pt_state e' \<noteq> PT_RESIDENT"
    "pt_state e = PT_RESIDENT \<Longrightarrow> pt_state e' = PT_EVICTING \<or> pt_state e' = PT_RESIDENT \<and> pt_frame_id e' = pt_frame_id e"
proof -
  from assms obtain e' where e': "find_entry p' pid = Some e'"
    "if pt_state e = PT_RESIDENT then pt_state e' = PT_EVICTING \<or> pt_state e' = PT_RESIDENT \<and> pt_frame_id e' = pt_frame_id e
     else if pt_state e = PT_EVICTING then pt_state e' = PT_EVICTING else pt_state e' \<noteq> PT_RESIDENT"
    unfolding lulls_def by metis
  show ?thesis by (rule that[OF e'(1)]) (use e'(2) in \<open>auto split: if_splits\<close>)
qed

lemma lulls_frame:
  assumes "lulls p p'"
  shows "bf_pin_count (bp_frame p f) \<noteq> 0 \<Longrightarrow> bf_pin_count (bp_frame p' f) \<noteq> 0"
    "bf_io_state (bp_frame p f) \<noteq> IO_NONE \<Longrightarrow> bf_io_state (bp_frame p' f) \<noteq> IO_NONE"
    "bf_io_state (bp_frame p f) \<noteq> IO_NONE \<Longrightarrow> bf_dirty (bp_frame p f) \<Longrightarrow> bf_dirty (bp_frame p' f)"
  using assms unfolding lulls_def by blast+

section \<open>Sleepers sleep on\<close>

lemma check_lulled:
  assumes l: "lulls p p'" and c: "CheckFetchableLocked p pid = Ok ()"
  shows "CheckFetchableLocked p' pid = Ok ()"
proof -
  obtain fe where fe: "find_file p (file_id pid) = Some fe" "fe_state fe = ACTIVE" "\<not> bp_quiescing p"
    "page_no pid \<noteq> 0" "page_no pid < fe_published_page_count fe"
    using c by (auto simp: CheckFetchableLocked_def Let_def not_le split: if_splits option.splits)
  obtain fe' where "find_file p' (file_id pid) = Some fe'" "fe_state fe' = fe_state fe"
    "fe_published_page_count fe' = fe_published_page_count fe" by (rule lulls_file[OF l fe(1)])
  moreover have "\<not> bp_quiescing p'" using l fe(3) by (simp add: lulls_def)
  ultimately show ?thesis using fe by (simp add: CheckFetchableLocked_def)
qed

lemma pin_sleeps_iff: "pin_page pid mode hit p = None \<longleftrightarrow>
    CheckFetchableLocked p pid = Ok () \<and> (\<exists>e. find_entry p pid = Some e \<and> pt_state e = PT_EVICTING)"
  by (auto simp: pin_page_def split: sum.splits option.splits PageTableEntryState.splits prod.splits)

lemma new_page_sleeps_iff: "new_page fid initializer p = None \<longleftrightarrow>
    \<not> bp_quiescing p \<and> (\<exists>fe. find_file p fid = Some fe \<and> fe_state fe = ACTIVE \<and> fe_new_page_in_progress fe)"
  by (auto simp: new_page_def WaitForNewPageTurn_def Let_def split: option.splits sum.splits if_splits)

lemma busy_entry_lulled:
  assumes l: "lulls p p'" and e: "find_entry p pid = Some e"
    and busy: "pt_state e \<noteq> PT_RESIDENT \<or> bf_pin_count (bp_frame p (pt_frame_id e)) \<noteq> 0 \<or> bf_io_state (bp_frame p (pt_frame_id e)) \<noteq> IO_NONE"
  shows "\<exists>e'. find_entry p' pid = Some e' \<and> (pt_state e' \<noteq> PT_RESIDENT \<or> bf_pin_count (bp_frame p' (pt_frame_id e')) \<noteq> 0 \<or>
    bf_io_state (bp_frame p' (pt_frame_id e')) \<noteq> IO_NONE)"
proof -
  obtain e' where e': "find_entry p' pid = Some e'" "pt_state e \<noteq> PT_RESIDENT \<Longrightarrow> pt_state e' \<noteq> PT_RESIDENT"
    "pt_state e = PT_RESIDENT \<Longrightarrow> pt_state e' = PT_EVICTING \<or> pt_state e' = PT_RESIDENT \<and> pt_frame_id e' = pt_frame_id e"
    by (rule lulls_entry[OF l e]) blast
  show ?thesis
  proof (cases "pt_state e' = PT_RESIDENT")
    case True
    then have "pt_state e = PT_RESIDENT" "pt_frame_id e' = pt_frame_id e" using e' by auto
    then show ?thesis using e'(1) busy lulls_frame(1,2)[OF l] by auto
  qed (use e'(1) in blast)
qed

lemma drain_lulled:
  assumes l: "lulls p p'" and shape: "shape_ok p" and s: "drain_file fid disposition p = None"
  shows "drain_file fid disposition p' = None"
proof -
  obtain fe where fe: "find_file p fid = Some fe" "fe_new_page_in_progress fe \<or> \<not> file_drained fid p"
    using s by (auto simp: drain_file_def split: option.splits if_splits)
  obtain fe' where fe': "find_file p' fid = Some fe'" "fe_new_page_in_progress fe \<Longrightarrow> fe_new_page_in_progress fe'"
    by (rule lulls_file[OF l fe(1)]) blast
  have "\<not> file_drained fid p'" if "\<not> file_drained fid p"
  proof -
    obtain pid e where e: "find_entry p pid = Some e" "file_id pid = fid" "pt_state e \<noteq> PT_RESIDENT \<or>
        bf_pin_count (bp_frame p (pt_frame_id e)) \<noteq> 0 \<or> bf_io_state (bp_frame p (pt_frame_id e)) \<noteq> IO_NONE"
      using \<open>\<not> file_drained fid p\<close> find_entry_mem[OF shape] by (fastforce simp: file_drained_def list_all_iff)
    from busy_entry_lulled[OF l e(1,3)] e(2) show ?thesis
      by (fastforce simp: file_drained_def list_all_iff find_entry_def dest: map_of_SomeD)
  qed
  then show ?thesis using fe(2) fe' by (auto simp: drain_file_def)
qed

lemma pool_drain_lulled:
  assumes l: "lulls p p'" and shape: "shape_ok p" and s: "\<not> pool_drained p"
  shows "\<not> pool_drained p'"
  using pool_drained_waits[OF shape s]
proof (elim disjE exE conjE bexE)
  fix f assume f: "f \<in> frame_ids p" "bf_pin_count (bp_frame p f) \<noteq> 0"
  then show ?thesis using lulls_frame(1)[OF l f(2)] drained_frame(1)[of p' f] l by (auto simp: lulls_def)
next
  fix f assume f: "f \<in> frame_ids p" "bf_io_state (bp_frame p f) \<noteq> IO_NONE"
  then show ?thesis using lulls_frame(2)[OF l f(2)] drained_frame(2)[of p' f] l by (auto simp: lulls_def)
next
  fix pid e assume e: "find_entry p pid = Some e" "pt_state e \<noteq> PT_RESIDENT"
  show ?thesis by (rule lulls_entry[OF l e(1)]) (use e(2) drained_entry in blast)
next
  fix fid fe assume fe: "find_file p fid = Some fe" "fe_new_page_in_progress fe"
  show ?thesis by (rule lulls_file[OF l fe(1)])
    (use fe(2) in \<open>fastforce simp: pool_drained_def list_all_iff find_file_def dest: map_of_SomeD\<close>)
qed

lemma flush_lulled:
  assumes l: "lulls p p'" and s: "flush_next job p = (Flushing job Flush_Next, p)"
  shows "flush_next job p' = (Flushing job Flush_Next, p')"
proof -
  have job: "job = \<lparr>fj_pages = fj_pages job, fj_failure = fj_failure job, fj_operation = fj_operation job, fj_after = fj_after job\<rparr>"
    by simp
  obtain pid rest e where e: "fj_pages job = pid # rest" "find_entry p pid = Some e" "pt_state e = PT_EVICTING \<or>
      pt_state e = PT_RESIDENT \<and> bf_dirty (bp_frame p (pt_frame_id e)) \<and> bf_io_state (bp_frame p (pt_frame_id e)) \<noteq> IO_NONE"
    using s[unfolded flush_next_def] flush_stays_iff[of "fj_pages job" "fj_failure job" "fj_operation job" "fj_after job" p] job by auto
  obtain e' where e': "find_entry p' pid = Some e'" "pt_state e = PT_EVICTING \<Longrightarrow> pt_state e' = PT_EVICTING"
    "pt_state e = PT_RESIDENT \<Longrightarrow> pt_state e' = PT_EVICTING \<or> pt_state e' = PT_RESIDENT \<and> pt_frame_id e' = pt_frame_id e"
    by (rule lulls_entry[OF l e(2)]) blast
  then have "pt_state e' = PT_EVICTING \<or> pt_state e' = PT_RESIDENT \<and> bf_dirty (bp_frame p' (pt_frame_id e')) \<and>
      bf_io_state (bp_frame p' (pt_frame_id e')) \<noteq> IO_NONE" using e(3) lulls_frame[OF l] by auto
  then show ?thesis using e(1) e'(1)
      flush_stays_iff[of "fj_pages job" "fj_failure job" "fj_operation job" "fj_after job" p'] job
    by (auto simp: flush_next_def)
qed

lemma sleeper_lulled:
  assumes l: "lulls p p'" and ok: "pool_ok p R" and mine: "\<And>r. r \<in># task_rights t \<Longrightarrow> r \<in># R" and s: "sleeps p t"
  shows "sleeps p' t"
proof (cases t)
  case (Pin pid mode hit)
  obtain e where e: "find_entry p pid = Some e" "pt_state e = PT_EVICTING" "CheckFetchableLocked p pid = Ok ()"
    using s Pin by (auto simp: pin_sleeps_iff)
  show ?thesis by (rule lulls_entry[OF l e(1)]) (use e check_lulled[OF l e(3)] Pin in \<open>simp add: pin_sleeps_iff\<close>)
next
  case (Join pid i mode)
  have "i < length (bp_loads p)" using pool_okD(6)[OF ok mine, of "Claim i"] Join by simp
  then have "lo_done (bp_loads p' ! i) \<Longrightarrow> lo_done (bp_loads p ! i)" using l unfolding lulls_def by blast
  then show ?thesis using s Join by (auto simp: join_load_def Let_def split: if_splits option.splits)
next
  case (New_Page fid initializer)
  obtain fe where fe: "find_file p fid = Some fe" "fe_state fe = ACTIVE" "fe_new_page_in_progress fe" "\<not> bp_quiescing p"
    using s New_Page by (auto simp: new_page_sleeps_iff)
  have "\<not> bp_quiescing p'" using l fe(4) by (simp add: lulls_def)
  then show ?thesis by - (rule lulls_file[OF l fe(1)], use fe New_Page in \<open>simp add: new_page_sleeps_iff\<close>)
next
  case (Flushing job point)
  then show ?thesis using s flush_lulled[OF l] by (cases point) simp_all
next
  case (Drain fid disposition)
  then show ?thesis using s drain_lulled[OF l pool_okD(1)[OF ok]] by simp
next
  case Shutdown_Drain
  then show ?thesis using s pool_drain_lulled[OF l pool_okD(1)[OF ok]] by (auto simp: drain_pool_def split: if_splits)
qed (use s in simp_all)

section \<open>Sections that do not notify\<close>

lemma lulls_set_frame:
  assumes "bf_pin_count (bp_frame p f) \<noteq> 0 \<Longrightarrow> bf_pin_count (c (bp_frame p f)) \<noteq> 0"
    and "bf_io_state (bp_frame p f) \<noteq> IO_NONE \<Longrightarrow>
      bf_io_state (c (bp_frame p f)) \<noteq> IO_NONE \<and> (bf_dirty (bp_frame p f) \<longrightarrow> bf_dirty (c (bp_frame p f)))"
  shows "lulls p (set_frame f c p)"
proof -
  have "bp_frame (set_frame f c p) g = (if f \<in> frame_ids p \<and> g = f then c (bp_frame p f) else bp_frame p g)" for g
    by (auto simp: set_frame_def bp_frame_def nth_list_update list_update_beyond word_unat_eq_iff)
  then show ?thesis using assms by (auto simp: lulls_def)
qed

lemma lulls_put_entry:
  assumes "lulls p q" and "\<And>e. find_entry p pid = Some e \<Longrightarrow> pt_state e \<noteq> PT_RESIDENT \<and> pt_state e' \<noteq> PT_RESIDENT \<and>
      (pt_state e = PT_EVICTING \<longrightarrow> pt_state e' = PT_EVICTING) \<or> pt_state e' = PT_EVICTING"
  shows "lulls p (put_entry pid e' q)"
  using assms unfolding lulls_def by (auto split: if_splits)

lemma lulls_extra [simp]:
  "lulls p (p'\<lparr>bp_replacer := c'\<rparr>) = lulls p p'" "lulls p (p'\<lparr>bp_free_list := fl\<rparr>) = lulls p p'"
  by (simp_all add: lulls_def)

lemma lulls_trans: "lulls p q \<Longrightarrow> lulls q r \<Longrightarrow> lulls p r"
proof -
  assume l: "lulls p q" "lulls q r"
  have files: "\<exists>fe'. find_file r fid = Some fe' \<and> fe_state fe' = fe_state fe \<and>
      fe_published_page_count fe' = fe_published_page_count fe \<and> (fe_new_page_in_progress fe \<longrightarrow> fe_new_page_in_progress fe')"
    if "find_file p fid = Some fe" for fid fe
    by (rule lulls_file[OF l(1) that], rule lulls_file[OF l(2)]) auto
  have entries: "\<exists>e'. find_entry r pid = Some e' \<and>
      (if pt_state e = PT_RESIDENT then pt_state e' = PT_EVICTING \<or> pt_state e' = PT_RESIDENT \<and> pt_frame_id e' = pt_frame_id e
       else if pt_state e = PT_EVICTING then pt_state e' = PT_EVICTING else pt_state e' \<noteq> PT_RESIDENT)"
    if e: "find_entry p pid = Some e" for pid e
  proof -
    obtain e1 where e1: "find_entry q pid = Some e1" "pt_state e = PT_EVICTING \<Longrightarrow> pt_state e1 = PT_EVICTING"
      "pt_state e \<noteq> PT_RESIDENT \<Longrightarrow> pt_state e1 \<noteq> PT_RESIDENT"
      "pt_state e = PT_RESIDENT \<Longrightarrow> pt_state e1 = PT_EVICTING \<or> pt_state e1 = PT_RESIDENT \<and> pt_frame_id e1 = pt_frame_id e"
      by (rule lulls_entry[OF l(1) e]) blast
    obtain e2 where e2: "find_entry r pid = Some e2" "pt_state e1 = PT_EVICTING \<Longrightarrow> pt_state e2 = PT_EVICTING"
      "pt_state e1 \<noteq> PT_RESIDENT \<Longrightarrow> pt_state e2 \<noteq> PT_RESIDENT"
      "pt_state e1 = PT_RESIDENT \<Longrightarrow> pt_state e2 = PT_EVICTING \<or> pt_state e2 = PT_RESIDENT \<and> pt_frame_id e2 = pt_frame_id e1"
      by (rule lulls_entry[OF l(2) e1(1)]) blast
    show ?thesis by (intro exI[of _ e2]) (use e1 e2 in \<open>cases "pt_state e"; auto\<close>)
  qed
  show ?thesis unfolding lulls_def
    using files entries lulls_frame[OF l(1)] lulls_frame[OF l(2)] l by (auto simp: lulls_def)
qed

lemma lulls_flush_pages:
  assumes "flush_pages pages failure operation after p = (t, p')" and "\<not> (after \<noteq> Return_Status \<and> t = Returned (Ok ()))"
  shows "lulls p p'"
  using assms
proof (induction pages)
  case Nil
  then show ?case by (auto simp: end_flush_def split: After_Flush.splits sum.splits)
next
  case (Cons pid rest)
  have "lulls p (set_frame f (\<lambda>fr. fr\<lparr>bf_io_state := WRITEBACK_IN_PROGRESS\<rparr>) p)" for f by (rule lulls_set_frame) simp_all
  then show ?case using Cons
    by (auto simp: Let_def split: option.splits PageTableEntryState.splits if_splits)
qed

lemma lulls_reserve: "reserve_victim purpose f victim p = (t, p') \<Longrightarrow> lulls p p'"
proof -
  have "lulls p (set_frame f (\<lambda>fr. fr\<lparr>bf_state := EVICTING\<rparr>) p)" by (rule lulls_set_frame) simp_all
  then show "reserve_victim purpose f victim p = (t, p') \<Longrightarrow> lulls p p'"
    by (auto simp: reserve_victim_def Let_def split: option.splits intro!: lulls_put_entry)
qed

text \<open>A frame is bound while nobody uses it, for a page that is only intended.\<close>

definition awaited :: "BufferPool \<Rightarrow> Purpose \<Rightarrow> bool" where
  "awaited p purpose \<longleftrightarrow> (\<forall>pid l mode. purpose = For_Load pid l mode \<longrightarrow>
     (\<forall>e. find_entry p pid = Some e \<longrightarrow> pt_state e = PT_LOAD_INTENT))"

lemma purpose_awaited:
  assumes "pool_ok p R" and "purpose_rights purpose \<subseteq># R"
  shows "awaited p purpose"
proof (cases purpose)
  case (For_Load pid l mode)
  then have "Own_Entry pid \<lparr>pt_state = PT_LOAD_INTENT, pt_frame_id = 0, pt_load = Some l\<rparr> \<in># R"
    using assms(2) by (auto dest: mset_subset_eqD)
  from pool_okD(6)[OF assms(1) this] show ?thesis using For_Load by (simp add: awaited_def)
qed (simp add: awaited_def)

lemma lulls_bind: "bf_io_state (bp_frame p f) = IO_NONE \<Longrightarrow> lulls p (bind_frame f pid io_state p)"
  unfolding bind_frame_def by (rule lulls_set_frame) simp_all

lemma lulls_acquired:
  assumes "bf_io_state (bp_frame p f) = IO_NONE" and "awaited p purpose" and "acquired purpose f p = (t, p')"
  shows "lulls p p'"
proof (cases purpose)
  case (For_Load pid l mode)
  then show ?thesis using assms lulls_bind[OF assms(1), of pid READ_IN_PROGRESS]
    by (auto simp: awaited_def Let_def bind_frame_def split: option.splits intro!: lulls_put_entry)
qed (use assms in \<open>auto split: option.splits\<close>)

lemma lulls_pass:
  assumes ok: "pool_ok p R" and awaited: "awaited p purpose" and step: "acquire_pass purpose notified p = (t, p')"
    and "\<not> failed_guard t"
  shows "lulls p p'"
proof (cases "bp_free_list p = []")
  case True
  obtain candidate c where c: "FindCandidate (IsVictimEligible p) (bp_replacer p) = (candidate, c)" by fastforce
  show ?thesis
  proof (cases candidate)
    case None
    then have "failed_guard t" using step True c
      by (cases purpose) (auto simp: acquire_pass_def fail_load_def fail_guard_def failed_guard_def Let_def)
    then show ?thesis using assms(4) by blast
  next
    case (Some f)
    then show ?thesis using step True c lulls_trans[OF _ lulls_reserve, of p "p\<lparr>bp_replacer := c\<rparr>"]
      by (auto simp: acquire_pass_def Let_def split: if_splits)
  qed
next
  case False
  let ?f = "last (bp_free_list p)" let ?q = "p\<lparr>bp_free_list := butlast (bp_free_list p)\<rparr>"
  have f: "?f \<in> set (bp_free_list p)" using False by simp
  then have "?f \<in> frame_ids p" using pool_okD(1)[OF ok] by (auto simp: shape_ok_def)
  then have "bf_io_state (bp_frame p ?f) = IO_NONE"
    using frame_facts(1,7)[OF ok] f by (force simp: legal_frame_def)
  then have "lulls ?q p'"
    using step False awaited by (intro lulls_acquired[of ?q ?f purpose t]) (simp_all add: acquire_pass_def awaited_def)
  then show ?thesis by (rule lulls_trans[rotated]) simp
qed

lemma lulls_loads:
  assumes "length (bp_loads p) \<le> length ls" and "\<And>l. l < length (bp_loads p) \<Longrightarrow> lo_done (ls ! l) = lo_done (bp_loads p ! l)"
  shows "lulls p (p\<lparr>bp_loads := ls\<rparr>)"
  using assms by (auto simp: lulls_def)

lemma lulls_pin:
  assumes step: "pin_page pid mode hit p = Some (t, p')"
  shows "lulls p p'"
proof -
  have load: "lulls p (snd (LoadPage pid mode p))" if "find_entry p pid = None"
    unfolding LoadPage_def Let_def snd_conv
    by (rule lulls_put_entry[OF lulls_loads]) (use that in \<open>simp_all add: nth_append\<close>)
  have claim: "lulls p (set_load l (\<lambda>load. load\<lparr>lo_claims := lo_claims load + 1\<rparr>) p)" for l
  proof -
    have "lo_done ((bp_loads p)[l := (bp_loads p ! l)\<lparr>lo_claims := c\<rparr>] ! i) = lo_done (bp_loads p ! i)"
      if "i < length (bp_loads p)" for c i using that by (cases "i = l") simp_all
    then show ?thesis unfolding set_load_def by (intro lulls_loads) simp_all
  qed
  have pin: "lulls p (set_frame f (\<lambda>fr. fr\<lparr>bf_pin_count := bf_pin_count fr + 1\<rparr>) p)"
    if "bf_pin_count (bp_frame p f) < bp_max_pin_count p" for f
  proof -
    have "bf_pin_count (bp_frame p f) + 1 \<noteq> 0" using that max_word_wrap max_word_max by (metis not_le)
    then show ?thesis by (intro lulls_set_frame) simp_all
  qed
  show ?thesis using step load claim pin
    by (auto simp: pin_page_def JoinLoad_def PinResidentLocked_def not_le
        split: sum.splits option.splits PageTableEntryState.splits if_splits)
qed

lemma lulls_bytes [simp]: "lulls p (set_bytes f bytes p)"
  unfolding set_bytes_def by (rule lulls_set_frame) simp_all

lemma lulls_bind_new:
  assumes ok: "pool_ok p (create_rights fid f (New_Bind reserved) + M)"
    and step: "bind_new_page fid initializer f reserved p = (t, p')" and "\<not> failed_guard t"
  shows "lulls p p'"
proof -
  have free: "bf_io_state (bp_frame p f) = IO_NONE"
    using pool_okD(6)[OF ok, of "Own_Frame f FREE IO_NONE default_PageId"] by simp
  have bound: "lulls p (bind_frame f pid IO_NONE p)" for pid by (rule lulls_bind[OF free])
  show ?thesis using step assms(3) bound
    by (auto simp: bind_new_page_def fail_guard_def failed_guard_def Let_def bind_frame_def
        split: option.splits sum.splits if_splits intro!: lulls_put_entry)
qed

lemma lulls_acquire:
  assumes ok: "pool_ok p (task_rights (Acquire purpose point) + M)"
    and step: "advance_acquire io purpose point p d = Some (t, p', d')" and quiet: "\<not> notifies p (Acquire purpose point) t"
  shows "lulls p p'"
proof -
  have awaited: "awaited p purpose" by (rule purpose_awaited[OF ok]) (cases point; auto)
  note pass = lulls_pass[OF ok awaited]
  show ?thesis
  proof (cases point)
    case Acquiring
    then show ?thesis using step quiet pass by auto
  next
    case (Candidate f victim)
    then show ?thesis using step quiet pass lulls_reserve by (auto simp: recheck_candidate_def split: if_splits)
  next
    case (Reserved f victim)
    have "lulls p (set_frame f (\<lambda>fr. fr\<lparr>bf_io_state := WRITEBACK_IN_PROGRESS\<rparr>) p)" by (rule lulls_set_frame) simp_all
    then show ?thesis using step quiet Reserved by (auto simp: start_eviction_def)
  qed (use step quiet in auto)
qed

lemma lulls_new_page:
  assumes ok: "pool_ok p (task_rights (New_Page fid initializer) + M)" and step: "new_page fid initializer p = Some (t, p')"
    and quiet: "\<not> notifies p (New_Page fid initializer) t"
  shows "lulls p p'"
proof (cases "WaitForNewPageTurn fid p = Some (Ok ())")
  case True
  then obtain fe where fe: "find_file p fid = Some fe" "fe_state fe = ACTIVE" "\<not> fe_new_page_in_progress fe"
    by (auto simp: WaitForNewPageTurn_def Let_def split: option.splits if_splits)
  let ?q = "put_file fid (fe\<lparr>fe_new_page_in_progress := True\<rparr>) p"
  have pass: "acquire_pass (For_New fid initializer) False ?q = (t, p')" using step True fe(1) by (simp add: new_page_def)
  have "pool_ok ?q (add_mset (Creation fid None) M)" using begin_creation[OF _ fe] ok by simp
  then have "lulls ?q p'" by (rule lulls_pass) (use pass quiet True in \<open>simp_all add: awaited_def\<close>)
  moreover have "lulls p ?q" using fe(1) by (auto simp: lulls_def)
  ultimately show ?thesis using lulls_trans by blast
next
  case False
  then show ?thesis using step by (auto simp: new_page_def split: option.splits sum.splits)
qed

lemma lulls_flush:
  assumes step: "advance_flush io job point p d = Some (t, p', d')" and quiet: "\<not> notifies p (Flushing job point) t"
  shows "lulls p p'"
proof (cases point)
  case Flush_Next
  then show ?thesis using step quiet lulls_flush_pages[of "fj_pages job" "fj_failure job" "fj_operation job" "fj_after job" p t p']
    by (auto simp: flush_next_def)
qed (use step quiet in \<open>auto simp: Let_def split: if_splits\<close>)

lemma lulls_drain:
  assumes "drain_file fid disposition p = Some (t, p')" and "t \<noteq> Returned (Ok ())"
  shows "lulls p p'"
  using assms lulls_flush_pages[of _ "Ok ()" RETIRE_FILE "Close_File fid" p t p']
  by (auto simp: drain_file_def simp del: flush_pages.simps split: option.splits if_splits)

lemma lulls_advance:
  assumes ok: "pool_ok p (task_rights t + M)" and step: "advance io t p d = Some (t', p', d')" and quiet: "\<not> notifies p t t'"
  shows "lulls p p'"
proof (cases t)
  case (Acquire purpose point)
  then show ?thesis using lulls_acquire[of p purpose point M io d t' p' d'] ok step quiet by simp
next
  case (Load page_id l mode f validator point)
  then show ?thesis using step quiet by (cases point) auto
next
  case (New_Page fid initializer)
  then show ?thesis using lulls_new_page[of p fid initializer M t' p'] ok step quiet by simp
next
  case (Create fid initializer f point)
  then show ?thesis using lulls_bind_new[of p fid f _ M initializer t' p'] ok step quiet
    by (cases point) (auto simp: Let_def split: prod.splits)
next
  case (Latch f mode)
  have "lulls p (set_frame f (\<lambda>fr. if mode = SHARED then fr\<lparr>bf_readers := bf_readers fr + 1\<rparr> else fr\<lparr>bf_writer := True\<rparr>) p)"
    by (rule lulls_set_frame) simp_all
  then show ?thesis using step Latch by (auto simp: MakeGuard_def Let_def split: if_splits)
next
  case (Unpin f)
  have "lulls p (set_frame f (\<lambda>fr. fr\<lparr>bf_pin_count := bf_pin_count fr - 1\<rparr>) p)"
    by (rule lulls_set_frame) (use quiet Unpin in simp_all)
  then show ?thesis using step Unpin by (auto simp: unpin_frame_def)
next
  case (Flushing job point)
  then show ?thesis using lulls_flush[of io job point p d t' p' d'] step quiet by simp
next
  case (Register_Counted fid validator page_count)
  have "lulls p (put_file fid fe p)" if "find_file p fid = None" for fe using that by (auto simp: lulls_def)
  then show ?thesis using step Register_Counted
    by (auto simp: register_counted_def Let_def split: sum.splits if_splits)
next
  case (Retire fid disposition)
  then show ?thesis using step quiet lulls_drain[of fid disposition p t' p']
    by (auto simp: retire_file_def split: option.splits if_splits)
next
  case Shutdown_Drain
  then show ?thesis using step lulls_flush_pages[of _ "Ok ()" SHUTDOWN Return_Status p t' p']
    by (auto simp: drain_pool_def simp del: flush_pages.simps split: if_splits)
qed (use step quiet lulls_pin lulls_drain lulls_flush_pages in
  \<open>auto simp: join_load_def flush_file_def Let_def simp del: flush_pages.simps split: if_splits option.splits\<close>)

section \<open>No wake-up is lost\<close>

text \<open>A call that sleeps is woken by nothing but another call's section that notifies: its own step leaves it
  asleep, and so do a new call, a guard given out, changed or released.\<close>

lemma guard_lulled:
  "lulls p (ReleaseLatch g p)" "lulls p (PublishMutation f p)"
  unfolding ReleaseLatch_def PublishMutation_def by (rule lulls_set_frame; simp)+

lemma sleeper_stays:
  assumes "sleeps p t" and "advance io t p d = Some (t', p', d')"
  shows "t' = t \<and> p' = p"
proof (cases t)
  case (Flushing job point)
  then show ?thesis using assms by (cases point) auto
qed (use assms in auto)

text \<open>C8: safety. No wake-up is lost. A call that sleeps on the condition variable (a fetch of a page under
  eviction, a fetch joined to a load, a page creation waiting for its turn, a flush of a page somebody is
  transferring, a retirement or a shutdown waiting for pins and transfers) waits for a condition on the shared state.
  Whenever a step of the system makes that condition true, it is a section of some call that ends with
  \<open>notify_all\<close>; a section without one never does. So no call sleeps on while it could go on.
  Callers retire a file by one call at a time.\<close>

theorem no_lost_wakeup:
  assumes "pool_run io n m d s" and "system_step io s s'"
    and "j < length (sy_tasks s)" and "sleeps (sy_pool s) (sy_tasks s ! j)" and "\<not> sleeps (sy_pool s') (sy_tasks s' ! j)"
  shows "\<exists>i t p d'. i < length (sy_tasks s) \<and> i \<noteq> j \<and>
    advance io (sy_tasks s ! i) (sy_pool s) (sy_device s) = Some (t, p, d') \<and>
    s' = s\<lparr>sy_pool := p, sy_device := d', sy_tasks := (sy_tasks s)[i := t]\<rparr> \<and> notifies (sy_pool s) (sy_tasks s ! i) t"
proof -
  note ok = pool_run_ok[OF assms(1)]
  have sleeper: "sleeps p' (sy_tasks s ! j)" if "lulls (sy_pool s) p'" for p'
    by (rule sleeper_lulled[OF that ok _ assms(4)]) (use task_right[OF nth_mem[OF assms(3)]] in blast)
  show ?thesis using assms(2)
  proof cases
    case (call t)
    then show ?thesis using assms(3-5) by (simp add: nth_append)
  next
    case (task i t p d')
    show ?thesis
    proof (cases "i = j")
      case True
      then have "sleeps (sy_pool s') (sy_tasks s' ! j)"
        using sleeper_stays[of "sy_pool s" "sy_tasks s ! j" io "sy_device s" t p d'] task assms(3,4) by simp
      then show ?thesis using assms(5) by contradiction
    next
      case False
      obtain M where M: "rights_of (sy_tasks s) = task_rights (sy_tasks s ! i) + M" using rights_of_split[OF task(2)] by metis
      have "pool_ok (sy_pool s) (task_rights (sy_tasks s ! i) + (M + image_mset Holding (mset (sy_guards s))))"
        using ok by (simp add: system_rights_def M add.assoc)
      from lulls_advance[OF this task(3)] have "notifies (sy_pool s) (sy_tasks s ! i) t"
        using sleeper assms(5) task(1) False by auto
      then show ?thesis using task False by blast
    qed
  next
    case (take_guard i g)
    then show ?thesis using assms(4,5) by (cases "i = j") auto
  next
    case (release gs g gs')
    then show ?thesis using sleeper[OF guard_lulled(1)] assms(3,5) by (simp add: nth_append)
  qed (use sleeper[OF lulls_bytes] sleeper[OF guard_lulled(2)] assms(5) in simp_all)
qed

text \<open>A shutdown sleeps while a page is pinned; the last \<open>Unpin\<close> wakes it.\<close>

definition last_pin :: "bool \<Rightarrow> (DiskManager \<times> sample_kernel) system" where
  "last_pin pinned = created_system\<lparr>sy_pool := created_pool\<lparr>bp_quiescing := True,
       bp_frames := [created_frame\<lparr>bf_pin_count := of_bool pinned, bf_writer := False\<rparr>]\<rparr>,
     sy_tasks := replicate 2 (Returned (Ok ())) @ [Shutdown_Drain, if pinned then Unpin 0 else Returned (Ok ())], sy_guards := []\<rparr>"

lemma script_to_last_pin:
  "script calm sample_io [Do Shutdown, Go 2, Drop] created_system = Some (last_pin True)"
  "perform sample_io (Go 3) (last_pin True) = Some (last_pin False)"
  by (simp_all add: calm_def created_system_def created_pool_def created_frame_def created_guard_def last_pin_def
      pool_evaluation shutdown_def drain_pool_def pool_drained_def ReleaseLatch_def unpin_frame_def numeral_eq_Suc)

theorem no_lost_wakeup_witness:
  "notifies (sy_pool (last_pin True)) (Unpin 0) (Returned (Ok ())) \<and>
   sleeps (sy_pool (last_pin True)) Shutdown_Drain \<and> \<not> sleeps (sy_pool (last_pin False)) Shutdown_Drain"
proof -
  have sleeps: "sleeps (sy_pool (last_pin pinned)) Shutdown_Drain \<longleftrightarrow> pinned" for pinned
    by (simp add: last_pin_def created_pool_def created_frame_def drain_pool_def pool_drained_def)
  have two: "sy_tasks (last_pin pinned) ! 2 = Shutdown_Drain" "2 < length (sy_tasks (last_pin pinned))" for pinned
    by (simp_all add: last_pin_def nth_append)
  obtain i t where i: "i < length (sy_tasks (last_pin True))" "i \<noteq> 2"
    "sy_tasks (last_pin False) = (sy_tasks (last_pin True))[i := t]" "notifies (sy_pool (last_pin True)) (sy_tasks (last_pin True) ! i) t"
    using no_lost_wakeup[OF sample_pool_run[OF script_run[OF script_to_last_pin(1) created_run]]
        perform_step[OF script_to_last_pin(2)] two(2), unfolded two(1)] sleeps[of True] sleeps[of False]
    by (auto dest: arg_cong[where f = sy_tasks] simp del: sleeps.simps)
  then have "i = 0 \<or> i = 1 \<or> i = 3" by (simp add: last_pin_def) linarith
  then have "notifies (sy_pool (last_pin True)) (Unpin 0) (Returned (Ok ()))"
    using i(3,4) by (elim disjE) (simp_all add: last_pin_def numeral_eq_Suc)
  then show ?thesis using sleeps by simp
qed

end
