(* ===== verification/Page_Guard.thy ===== *)
theory Page_Guard
  imports Pool_System
begin

text \<open>
  The guard objects of \<open>page_guard.h\<close> and \<open>page_guard.cpp\<close>: what a caller of the pool has in its hands.
  An object is inert or owns one pin and one latch; it can be moved from, moved to, released and
  destroyed in any order. \<open>debug\<close> says whether \<open>NDEBUG\<close> is undefined; \<open>None\<close> is an aborted assertion or
  the use of a null pointer. \<open>Guard\<close> of the concurrent system is the claim an object stands for.
\<close>

section \<open>The objects\<close>

text \<open>\<open>pool_\<close> is null or the one pool; \<open>page_\<close> is null or points to the page of a frame.\<close>

record PageGuardBase =
  pg_pool :: bool
  pg_page :: "FrameId option"
  pg_frame_id :: FrameId
  pg_binding_epoch :: "64 word"

record WritePageGuard = PageGuardBase +
  wg_mutable_accessed :: bool
  wg_published_checksum :: "32 word"

definition PageGuardBase_default :: PageGuardBase where
  "PageGuardBase_default = \<lparr>pg_pool = False, pg_page = None, pg_frame_id = 0, pg_binding_epoch = 0\<rparr>"

definition WritePageGuard_default :: WritePageGuard where
  "WritePageGuard_default =
     \<lparr>pg_pool = False, pg_page = None, pg_frame_id = 0, pg_binding_epoch = 0,
      wg_mutable_accessed = False, wg_published_checksum = 0\<rparr>"

text \<open>The constructor \<open>MakeGuard\<close> calls, on a default object of either type.\<close>

definition PageGuardBase_bound :: "FrameId \<Rightarrow> FrameId \<Rightarrow> 64 word \<Rightarrow> 'a PageGuardBase_scheme \<Rightarrow> 'a PageGuardBase_scheme" where
  "PageGuardBase_bound frame_id pg binding_epoch this =
     this\<lparr>pg_pool := True, pg_page := Some pg, pg_frame_id := frame_id, pg_binding_epoch := binding_epoch\<rparr>"

definition Valid :: "'a PageGuardBase_scheme \<Rightarrow> bool" where
  "Valid this = pg_pool this"

definition Frame :: "'a PageGuardBase_scheme \<Rightarrow> FrameId" where
  "Frame this = pg_frame_id this"

definition BindingEpoch :: "'a PageGuardBase_scheme \<Rightarrow> 64 word" where
  "BindingEpoch this = pg_binding_epoch this"

text \<open>\<open>DBLUS_ASSERT(Valid(), ...)\<close>, then \<open>page_\<close> followed.\<close>

definition GetPage :: "bool \<Rightarrow> BufferPool \<Rightarrow> 'a PageGuardBase_scheme \<Rightarrow> Page option" where
  "GetPage debug p this =
     (if debug \<and> \<not> Valid this then None else map_option (\<lambda>f. bf_page (bp_frame p f)) (pg_page this))"

definition Id :: "bool \<Rightarrow> BufferPool \<Rightarrow> 'a PageGuardBase_scheme \<Rightarrow> PageId option" where
  "Id debug p this =
     (if debug \<and> \<not> Valid this then None else map_option (\<lambda>f. Page_id (bf_page (bp_frame p f))) (pg_page this))"

definition Bytes :: "bool \<Rightarrow> BufferPool \<Rightarrow> 'a PageGuardBase_scheme \<Rightarrow> byte list option" where
  "Bytes debug p this =
     (if debug \<and> \<not> Valid this then None else map_option (\<lambda>f. Page_bytes (bf_page (bp_frame p f))) (pg_page this))"

text \<open>\<open>std::exchange\<close> leaves the other object without pool and page; the identity stays in both.\<close>

definition TakeFrom :: "'a PageGuardBase_scheme \<Rightarrow> 'a PageGuardBase_scheme \<Rightarrow>
    'a PageGuardBase_scheme \<times> 'a PageGuardBase_scheme" where
  "TakeFrom this other =
     (this\<lparr>pg_pool := pg_pool other, pg_page := pg_page other, pg_frame_id := pg_frame_id other,
        pg_binding_epoch := pg_binding_epoch other\<rparr>,
      other\<lparr>pg_pool := False, pg_page := None\<rparr>)"

definition unlock_frame :: "LatchMode \<Rightarrow> FrameId \<Rightarrow> BufferPool \<Rightarrow> BufferPool" where
  "unlock_frame latch f =
     set_frame f (\<lambda>fr. if latch = SHARED then fr\<lparr>bf_readers := bf_readers fr - 1\<rparr> else fr\<lparr>bf_writer := False\<rparr>)"

text \<open>The latch is released here; the observer and other threads may run before the pin is, so the rest of
  the call is the task \<open>Unpin\<close>.\<close>

definition ReleaseLatchAndPin :: "LatchMode \<Rightarrow> 'a PageGuardBase_scheme \<Rightarrow> BufferPool \<Rightarrow>
    ('a PageGuardBase_scheme \<times> BufferPool \<times> Task list) option" where
  "ReleaseLatchAndPin latch this p =
     (if \<not> pg_pool this then Some (this, p, [])
      else (case pg_page this of
          None \<Rightarrow> None
        | Some pg \<Rightarrow>
            Some (this\<lparr>pg_pool := False, pg_page := None\<rparr>, unlock_frame latch (pg_frame_id this) p,
              [Unpin (pg_frame_id this)])))"

section \<open>Read guards\<close>

definition ReadPageGuard_Release :: "PageGuardBase \<Rightarrow> BufferPool \<Rightarrow> (PageGuardBase \<times> BufferPool \<times> Task list) option" where
  "ReadPageGuard_Release = ReleaseLatchAndPin SHARED"

section \<open>Write guards\<close>

text \<open>The move constructor and the move assignment also take the debug fields along.\<close>

definition WritePageGuard_take :: "bool \<Rightarrow> WritePageGuard \<Rightarrow> WritePageGuard \<Rightarrow> WritePageGuard \<times> WritePageGuard" where
  "WritePageGuard_take debug this other =
     (let (this, other) = TakeFrom this other
      in if debug
         then (this\<lparr>wg_mutable_accessed := wg_mutable_accessed other, wg_published_checksum := wg_published_checksum other\<rparr>,
               other\<lparr>wg_mutable_accessed := False\<rparr>)
         else (this, other))"

text \<open>The reference \<open>MutablePage\<close> returns is the frame of the page; \<open>MutableBytes\<close> is its bytes.\<close>

definition MutablePage :: "bool \<Rightarrow> WritePageGuard \<Rightarrow> BufferPool \<Rightarrow> (WritePageGuard \<times> FrameId) option" where
  "MutablePage debug this p =
     (if debug \<and> \<not> Valid this then None
      else if debug \<and> \<not> wg_mutable_accessed this
      then (case (Bytes debug p this, pg_page this) of
          (Some bytes, Some pg) \<Rightarrow>
            Some (this\<lparr>wg_mutable_accessed := True, wg_published_checksum := ComputePageChecksum bytes\<rparr>, pg)
        | _ \<Rightarrow> None)
      else map_option (\<lambda>pg. (this, pg)) (pg_page this))"

text \<open>\<open>PublishMutation\<close> asserts a pinned resident frame whose generation does not overflow.\<close>

definition PublishMutation_asserts :: "FrameId \<Rightarrow> BufferPool \<Rightarrow> bool" where
  "PublishMutation_asserts f p \<longleftrightarrow> bf_state (bp_frame p f) = RESIDENT \<and> bf_pin_count (bp_frame p f) > 0 \<and>
     bf_modification_generation (bp_frame p f) \<noteq> - 1"

definition MarkDirty :: "bool \<Rightarrow> WritePageGuard \<Rightarrow> BufferPool \<Rightarrow> (WritePageGuard \<times> BufferPool) option" where
  "MarkDirty debug this p =
     (if debug \<and> \<not> (Valid this \<and> PublishMutation_asserts (Frame this) p) \<or> \<not> Valid this then None
      else
        (let p = PublishMutation (Frame this) p
         in if debug
            then map_option (\<lambda>bytes. (this\<lparr>wg_mutable_accessed := True,
                   wg_published_checksum := ComputePageChecksum bytes\<rparr>, p)) (Bytes debug p this)
            else Some (this, p)))"

text \<open>\<open>DBLUS_CHECK\<close>: the bytes are those last published, or those of the first mutable access.\<close>

definition changes_published :: "WritePageGuard \<Rightarrow> BufferPool \<Rightarrow> bool" where
  "changes_published this p \<longleftrightarrow> \<not> wg_mutable_accessed this \<or>
     map_option ComputePageChecksum (Bytes True p this) = Some (wg_published_checksum this)"

definition WritePageGuard_Release :: "bool \<Rightarrow> WritePageGuard \<Rightarrow> BufferPool \<Rightarrow>
    (WritePageGuard \<times> BufferPool \<times> Task list) option" where
  "WritePageGuard_Release debug this p =
     (if \<not> Valid this then Some (this, p, [])
      else if debug \<and> \<not> changes_published this p then None
      else ReleaseLatchAndPin EXCLUSIVE (if debug then this\<lparr>wg_mutable_accessed := False\<rparr> else this) p)"

section \<open>Callers\<close>

text \<open>The callers of a pool: its calls in progress and every guard object that exists. Objects are never
  removed from the lists: a destroyed one stays, inert. \<open>cl_unpublished\<close> is a record kept for the
  specification, of the frames changed through an object since its last \<open>MarkDirty\<close>.\<close>

record 'd callers =
  cl_pool :: BufferPool
  cl_device :: 'd
  cl_tasks :: "Task list"
  cl_reads :: "PageGuardBase list"
  cl_writes :: "WritePageGuard list"
  cl_unpublished :: "FrameId set"

text \<open>\<open>*this\<close> and \<open>other\<close> are positions, so an assignment can have one object on both sides.\<close>

datatype caller_op =
    Do_Call Task
  | Advance nat
  | Take_Read nat
  | Take_Write nat
  | Move_Read nat
  | Assign_Read nat nat
  | Drop_Read nat
  | Move_Write nat
  | Assign_Write nat nat
  | Drop_Write nat
  | Store_Bytes nat "byte list"
  | Mark_Dirty nat

definition after_release :: "('o \<times> BufferPool \<times> Task list) option \<Rightarrow> ('o \<Rightarrow> 'd callers \<Rightarrow> 'd callers) \<Rightarrow>
    'd callers \<Rightarrow> 'd callers option" where
  "after_release r store c = map_option (\<lambda>(this, p, ts). store this (c\<lparr>cl_pool := p, cl_tasks := cl_tasks c @ ts\<rparr>)) r"

definition put_read :: "nat \<Rightarrow> PageGuardBase \<Rightarrow> 'd callers \<Rightarrow> 'd callers" where
  "put_read i this c = c\<lparr>cl_reads := (cl_reads c)[i := this]\<rparr>"

definition put_write :: "nat \<Rightarrow> WritePageGuard \<Rightarrow> 'd callers \<Rightarrow> 'd callers" where
  "put_write i this c = c\<lparr>cl_writes := (cl_writes c)[i := this]\<rparr>"

definition read_drop :: "nat \<Rightarrow> 'd callers \<Rightarrow> 'd callers option" where
  "read_drop i c = after_release (ReadPageGuard_Release (cl_reads c ! i) (cl_pool c)) (put_read i) c"

definition write_drop :: "bool \<Rightarrow> nat \<Rightarrow> 'd callers \<Rightarrow> 'd callers option" where
  "write_drop debug i c = after_release (WritePageGuard_Release debug (cl_writes c ! i) (cl_pool c)) (put_write i) c"

definition read_take :: "nat \<Rightarrow> nat \<Rightarrow> 'd callers \<Rightarrow> 'd callers" where
  "read_take i j c =
     (let (this, other) = TakeFrom (cl_reads c ! i) (cl_reads c ! j) in put_read j other (put_read i this c))"

definition write_take :: "bool \<Rightarrow> nat \<Rightarrow> nat \<Rightarrow> 'd callers \<Rightarrow> 'd callers" where
  "write_take debug i j c =
     (let (this, other) = WritePageGuard_take debug (cl_writes c ! i) (cl_writes c ! j)
      in put_write j other (put_write i this c))"

definition ReadPageGuard_assign :: "nat \<Rightarrow> nat \<Rightarrow> 'd callers \<Rightarrow> 'd callers option" where
  "ReadPageGuard_assign i j c = (if i \<noteq> j then map_option (read_take i j) (read_drop i c) else Some c)"

definition WritePageGuard_assign :: "bool \<Rightarrow> nat \<Rightarrow> nat \<Rightarrow> 'd callers \<Rightarrow> 'd callers option" where
  "WritePageGuard_assign debug i j c =
     (if i \<noteq> j then map_option (write_take debug i j) (write_drop debug i c) else Some c)"

fun caller_step :: "bool \<Rightarrow> 'd page_io \<Rightarrow> caller_op \<Rightarrow> 'd callers \<Rightarrow> 'd callers option" where
  "caller_step debug io (Do_Call t) c = (if is_call t then Some (c\<lparr>cl_tasks := cl_tasks c @ [t]\<rparr>) else None)"
| "caller_step debug io (Advance i) c =
     (if i < length (cl_tasks c) then
        map_option (\<lambda>(t, p, d). c\<lparr>cl_pool := p, cl_device := d, cl_tasks := (cl_tasks c)[i := t]\<rparr>)
          (advance io (cl_tasks c ! i) (cl_pool c) (cl_device c))
      else None)"
| "caller_step debug io (Take_Read i) c =
     (if i < length (cl_tasks c) then
        (case cl_tasks c ! i of
           Returned_Guard (Ok g) \<Rightarrow>
             if g_mode g = SHARED then
               Some (c\<lparr>cl_tasks := (cl_tasks c)[i := Returned (Ok ())],
                 cl_reads := cl_reads c @ [PageGuardBase_bound (g_frame_id g) (g_frame_id g) (g_binding_epoch g)
                   PageGuardBase_default]\<rparr>)
             else None
         | _ \<Rightarrow> None)
      else None)"
| "caller_step debug io (Take_Write i) c =
     (if i < length (cl_tasks c) then
        (case cl_tasks c ! i of
           Returned_Guard (Ok g) \<Rightarrow>
             if g_mode g = EXCLUSIVE then
               Some (c\<lparr>cl_tasks := (cl_tasks c)[i := Returned (Ok ())],
                 cl_writes := cl_writes c @ [PageGuardBase_bound (g_frame_id g) (g_frame_id g) (g_binding_epoch g)
                   WritePageGuard_default]\<rparr>)
             else None
         | _ \<Rightarrow> None)
      else None)"
| "caller_step debug io (Move_Read j) c =
     (if j < length (cl_reads c)
      then Some (read_take (length (cl_reads c)) j (c\<lparr>cl_reads := cl_reads c @ [PageGuardBase_default]\<rparr>)) else None)"
| "caller_step debug io (Assign_Read i j) c =
     (if i < length (cl_reads c) \<and> j < length (cl_reads c) then ReadPageGuard_assign i j c else None)"
| "caller_step debug io (Drop_Read i) c = (if i < length (cl_reads c) then read_drop i c else None)"
| "caller_step debug io (Move_Write j) c =
     (if j < length (cl_writes c)
      then Some (write_take debug (length (cl_writes c)) j (c\<lparr>cl_writes := cl_writes c @ [WritePageGuard_default]\<rparr>)) else None)"
| "caller_step debug io (Assign_Write i j) c =
     (if i < length (cl_writes c) \<and> j < length (cl_writes c) then WritePageGuard_assign debug i j c else None)"
| "caller_step debug io (Drop_Write i) c = (if i < length (cl_writes c) then write_drop debug i c else None)"
| "caller_step debug io (Store_Bytes i bytes) c =
     (if i < length (cl_writes c) \<and> Valid (cl_writes c ! i) \<and> length bytes = 8192 then
        map_option (\<lambda>(this, pg). (put_write i this c)\<lparr>cl_pool := set_bytes pg bytes (cl_pool c),
            cl_unpublished := insert pg (cl_unpublished c)\<rparr>)
          (MutablePage debug (cl_writes c ! i) (cl_pool c))
      else None)"
| "caller_step debug io (Mark_Dirty i) c =
     (if i < length (cl_writes c) then
        map_option (\<lambda>(this, p). (put_write i this c)\<lparr>cl_pool := p,
            cl_unpublished := cl_unpublished c - {Frame this}\<rparr>)
          (MarkDirty debug (cl_writes c ! i) (cl_pool c))
      else None)"

end
