(* ===== verification/Guard_Objects.thy ===== *)
theory Guard_Objects
  imports Page_Guard Pool_Drain
begin

text \<open>
  Guard objects refine the guards of the concurrent system: at any time the objects that are not inert
  stand, one for one, for the guards the system has given out (\<open>stands_for\<close>), and an operation on
  objects is at most one step of the system. So every pin and every latch is released exactly once,
  however objects are moved, assigned (also to themselves), released again and destroyed.
\<close>

type_synonym claim = "FrameId \<times> LatchMode \<times> 64 word"

definition hold :: "LatchMode \<Rightarrow> 'a PageGuardBase_scheme \<Rightarrow> claim multiset" where
  "hold mode this = (if pg_pool this then {#(pg_frame_id this, mode, pg_binding_epoch this)#} else {#})"

definition holds_all :: "LatchMode \<Rightarrow> 'a PageGuardBase_scheme list \<Rightarrow> claim multiset" where
  "holds_all mode objects = sum_list (map (hold mode) objects)"

definition claim_of :: "Guard \<Rightarrow> claim" where
  "claim_of g = (g_frame_id g, g_mode g, g_binding_epoch g)"

definition points_right :: "'a PageGuardBase_scheme \<Rightarrow> bool" where
  "points_right this \<longleftrightarrow> (pg_pool this \<longrightarrow> pg_page this = Some (pg_frame_id this))"

definition stands_for :: "'d callers \<Rightarrow> 'd system \<Rightarrow> bool" where
  "stands_for c s \<longleftrightarrow> sy_pool s = cl_pool c \<and> sy_device s = cl_device c \<and> sy_tasks s = cl_tasks c \<and>
     image_mset claim_of (mset (sy_guards s)) = holds_all SHARED (cl_reads c) + holds_all EXCLUSIVE (cl_writes c) \<and>
     (\<forall>g \<in> set (sy_guards s). g_unpublished g \<longrightarrow> g_mode g = EXCLUSIVE \<and> g_frame_id g \<in> cl_unpublished c) \<and>
     (\<forall>g. Returned_Guard (Ok g) \<in> set (cl_tasks c) \<longrightarrow> \<not> g_unpublished g) \<and>
     (\<forall>this \<in> set (cl_reads c). points_right this) \<and> (\<forall>this \<in> set (cl_writes c). points_right this)"

text \<open>What a caller must not do: release a page it changed without \<open>MarkDirty\<close>, which the debug build
  checks, and publish more than \<open>2 ^ 64 - 1\<close> changes of one frame.\<close>

fun careful :: "caller_op \<Rightarrow> 'd callers \<Rightarrow> bool" where
  "careful (Drop_Write i) c = (Valid (cl_writes c ! i) \<longrightarrow> Frame (cl_writes c ! i) \<notin> cl_unpublished c)"
| "careful (Assign_Write i j) c =
     (i \<noteq> j \<longrightarrow> Valid (cl_writes c ! i) \<longrightarrow> Frame (cl_writes c ! i) \<notin> cl_unpublished c)"
| "careful (Mark_Dirty i) c = (bf_modification_generation (bp_frame (cl_pool c) (Frame (cl_writes c ! i))) \<noteq> - 1)"
| "careful _ c = True"

section \<open>Objects\<close>

lemma holds_all_update:
  "i < length objects \<Longrightarrow>
    holds_all mode (objects[i := this]) + hold mode (objects ! i) = holds_all mode objects + hold mode this"
proof (induction objects arbitrary: i)
  case (Cons a objects)
  then show ?case by (cases i) (simp_all add: holds_all_def ac_simps)
qed simp

lemma holds_all_append [simp]: "holds_all mode (xs @ [this]) = holds_all mode xs + hold mode this"
  by (simp add: holds_all_def)

lemma holds_all_same:
  assumes "i < length objects" and "hold mode this = hold mode (objects ! i)"
  shows "holds_all mode (objects[i := this]) = holds_all mode objects"
  using holds_all_update[OF assms(1), of mode this] assms(2) by simp

lemma holds_all_take:
  assumes "i < length objects" "j < length objects" "i \<noteq> j" and "hold mode (objects ! i) = {#}"
    and "hold mode this = hold mode (objects ! j)" and "hold mode other = {#}"
  shows "holds_all mode (objects[i := this, j := other]) = holds_all mode objects"
  using holds_all_update[of j "objects[i := this]" mode other] holds_all_update[OF assms(1), of mode this] assms by simp

lemma holds_all_nth:
  assumes "i < length objects" and "pg_pool (objects ! i)"
  shows "(pg_frame_id (objects ! i), mode, pg_binding_epoch (objects ! i)) \<in># holds_all mode objects"
  using assms
proof (induction objects arbitrary: i)
  case (Cons a objects)
  then show ?case by (cases i) (auto simp: holds_all_def hold_def)
qed simp

lemma default_facts [simp]:
  "hold mode PageGuardBase_default = {#}" "hold mode WritePageGuard_default = {#}"
  "points_right PageGuardBase_default" "points_right WritePageGuard_default"
  by (simp_all add: hold_def points_right_def PageGuardBase_default_def WritePageGuard_default_def)

lemma bound_facts [simp]:
  "hold mode (PageGuardBase_bound f f epoch this) = {#(f, mode, epoch)#}" "points_right (PageGuardBase_bound f f epoch this)"
  by (simp_all add: hold_def points_right_def PageGuardBase_bound_def)

lemma take_facts:
  assumes "TakeFrom this other = (this', other')"
  shows "hold mode this' = hold mode other" and "hold mode other' = {#}"
    and "points_right other \<Longrightarrow> points_right this'" and "points_right other'"
  using assms by (auto simp: TakeFrom_def hold_def points_right_def)

lemma write_take_facts:
  assumes "WritePageGuard_take debug this other = (this', other')"
  shows "hold mode this' = hold mode other" and "hold mode other' = {#}"
    and "points_right other \<Longrightarrow> points_right this'" and "points_right other'"
  using assms by (auto simp: WritePageGuard_take_def TakeFrom_def hold_def points_right_def split: if_splits)

lemma release_facts:
  assumes "ReleaseLatchAndPin latch this p = Some (this', p', ts)"
  shows "hold mode this' = {#}" and "points_right this'"
    and "if pg_pool this then p' = unlock_frame latch (pg_frame_id this) p \<and> ts = [Unpin (pg_frame_id this)]
      else p' = p \<and> ts = []"
  using assms by (auto simp: ReleaseLatchAndPin_def hold_def points_right_def split: if_splits option.splits)

lemma write_release_facts:
  assumes "WritePageGuard_Release debug this p = Some (this', p', ts)"
  shows "hold mode this' = {#}" and "points_right this'"
    and "if pg_pool this then p' = unlock_frame EXCLUSIVE (pg_frame_id this) p \<and> ts = [Unpin (pg_frame_id this)]
      else p' = p \<and> ts = []"
proof -
  have "\<not> pg_pool this \<and> this' = this \<and> p' = p \<and> ts = [] \<or>
      pg_pool this \<and> ReleaseLatchAndPin EXCLUSIVE (if debug then this\<lparr>wg_mutable_accessed := False\<rparr> else this) p = Some (this', p', ts)"
    using assms by (auto simp: WritePageGuard_Release_def Valid_def split: if_splits)
  then show "hold mode this' = {#}" and "points_right this'"
    and "if pg_pool this then p' = unlock_frame EXCLUSIVE (pg_frame_id this) p \<and> ts = [Unpin (pg_frame_id this)]
      else p' = p \<and> ts = []"
    using release_facts[of EXCLUSIVE "if debug then this\<lparr>wg_mutable_accessed := False\<rparr> else this" p this' p' ts]
    by (auto simp: hold_def points_right_def split: if_splits)
qed

section \<open>Where guards come from\<close>

definition no_guard :: "Task \<Rightarrow> bool" where
  "no_guard t \<longleftrightarrow> (\<forall>g. t \<noteq> Returned_Guard (Ok g))"

lemma no_guard_simps [simp]:
  "no_guard (fail_guard e)" "no_guard (Returned status)" "no_guard Thrown" "no_guard (Pin page_id mode b)"
  "no_guard (Join page_id l mode)" "no_guard (Acquire purpose point)" "no_guard (Load page_id l mode f validator lp)"
  "no_guard (Create fid initializer f np)" "no_guard (Latch f mode)" "no_guard (Flushing job fp)" "no_guard (Drain fid disposition)"
  "no_guard Shutdown_Drain" "no_guard (Register_Counted fid validator n)"
  by (simp_all add: no_guard_def fail_guard_def)

lemma acquired_no_guard [simp]: "no_guard (fst (acquired purpose f p))"
  by (cases purpose) (simp_all add: Let_def split: option.splits)

lemma acquire_no_guard [simp]:
  "no_guard (fst (acquire_failed purpose e p))" "no_guard (fst (acquire_pass purpose b p))"
  "no_guard (fst (finish_eviction purpose f victim p))"
  by (cases purpose; auto simp: fail_load_def Let_def acquire_pass_def reserve_victim_def finish_eviction_def
      split: option.splits prod.splits)+

lemma flush_no_guard [simp]:
  "no_guard (fst (flush_pages pages failure operation after p))" "no_guard (fst (reconcile job f page_id epoch generation written p))"
proof -
  have idle: "idle p' t \<Longrightarrow> no_guard t" for p' t by (auto simp: no_guard_def)
  show "no_guard (fst (flush_pages pages failure operation after p))"
    by (rule idle[OF flush_pages_calmer[THEN conjunct2]]) (rule prod.collapse[symmetric])
  show "no_guard (fst (reconcile job f page_id epoch generation written p))"
    by (rule idle[OF reconcile_calmer[THEN conjunct2]]) (rule prod.collapse[symmetric])
qed

lemma no_guard_result: "r = (t, p') \<Longrightarrow> no_guard (fst r) \<Longrightarrow> no_guard t"
  by simp

lemma sections_no_guard:
  "no_guard (fst (recheck_candidate purpose f victim p))" "no_guard (fst (start_eviction purpose f victim p))"
  "no_guard (fst (end_eviction purpose f victim written p))" "no_guard (fst (finish_load page_id l mode f read outcome p))"
  "no_guard (fst (bind_new_page fid initializer f reserved p))" "no_guard (fst (publish_new_page fid f page_id built outcome p))"
  "no_guard (fst (retire_file fid disposition p))" "no_guard (fst (shutdown p))"
  by (auto simp: recheck_candidate_def reserve_victim_def start_eviction_def end_eviction_def finish_load_def fail_load_def
      bind_new_page_def publish_new_page_def retire_file_def drain_file_def shutdown_def drain_pool_def Let_def
      simp del: flush_pages.simps split: option.splits sum.splits)

lemmas no_guard_results = sections_no_guard[THEN no_guard_result[rotated]] acquire_no_guard(2)[THEN no_guard_result[rotated]]
  flush_no_guard[THEN no_guard_result[rotated]]

lemma advance_no_guard:
  assumes "\<And>f mode. t \<noteq> Latch f mode" and step: "advance io t p d = Some (t', p', d')"
  shows "no_guard t'"
proof (cases t)
  case (Acquire purpose point)
  then show ?thesis using step
    by (cases point) (auto dest!: write_image_cases sync_image_cases no_guard_results)
next
  case (Load page_id l mode f validator point)
  then show ?thesis using step by (cases point) (auto dest!: no_guard_results)
next
  case (Create fid initializer f point)
  then show ?thesis using step by (cases point) (auto simp: Let_def split: prod.splits dest!: no_guard_results)
next
  case (Flushing job point)
  then show ?thesis using step
    by (cases point) (auto simp: flush_next_def Let_def split: if_splits dest!: write_image_cases sync_image_cases no_guard_results)
qed (use assms in \<open>auto simp: pin_page_def LoadPage_def JoinLoad_def join_load_def new_page_def flush_file_def drain_file_def
    drain_pool_def Let_def simp del: flush_pages.simps split: if_splits sum.splits option.splits prod.splits
    PageTableEntryState.splits dest!: no_guard_results\<close>)

lemma advance_fresh:
  assumes step: "advance io t p d = Some (Returned_Guard (Ok g), p', d')"
  shows "\<not> g_unpublished g"
proof (cases "\<exists>f mode. t = Latch f mode")
  case True
  then show ?thesis using step by (auto simp: MakeGuard_def Let_def split: if_splits)
next
  case False
  then show ?thesis using advance_no_guard[OF _ step] by (auto simp: no_guard_def)
qed

section \<open>One operation, at most one step\<close>

lemma release_claim:
  assumes claim: "(f, mode, e) \<in># image_mset claim_of (mset (sy_guards s))"
    and U: "\<And>g. g \<in> set (sy_guards s) \<Longrightarrow> g_unpublished g \<Longrightarrow> g_mode g = EXCLUSIVE \<and> g_frame_id g \<in> U"
    and published: "mode = EXCLUSIVE \<Longrightarrow> f \<notin> U"
  obtains t where "system_step io s t" "sy_pool t = unlock_frame mode f (sy_pool s)" "sy_device t = sy_device s"
    "sy_tasks t = sy_tasks s @ [Unpin f]" "set (sy_guards t) \<subseteq> set (sy_guards s)"
    "image_mset claim_of (mset (sy_guards s)) = add_mset (f, mode, e) (image_mset claim_of (mset (sy_guards t)))"
proof -
  obtain g where g: "g \<in> set (sy_guards s)" "claim_of g = (f, mode, e)" using claim by auto
  then obtain gs gs' where split: "sy_guards s = gs @ g # gs'" by (meson split_list)
  have "\<not> g_unpublished g" using U[OF g(1)] published g(2) by (auto simp: claim_of_def)
  from system_step.release[OF split this, of io]
  show ?thesis by (rule that) (use split g(2) in \<open>auto simp: claim_of_def ReleaseLatch_def unlock_frame_def\<close>)
qed

text \<open>What a drop does to the rest of the callers, for an object of either type.\<close>

lemma drop_object:
  assumes sim: "stands_for c s"
    and facts: "if pg_pool this then p = unlock_frame mode (pg_frame_id this) (cl_pool c) \<and> ts = [Unpin (pg_frame_id this)]
      else p = cl_pool c \<and> ts = []"
    and claims: "hold mode this \<subseteq># holds_all SHARED (cl_reads c) + holds_all EXCLUSIVE (cl_writes c)"
    and careful: "mode = EXCLUSIVE \<Longrightarrow> pg_pool this \<Longrightarrow> pg_frame_id this \<notin> cl_unpublished c"
  obtains t where "t = s \<or> system_step io s t" "sy_pool t = p" "sy_device t = cl_device c" "sy_tasks t = cl_tasks c @ ts"
    "set (sy_guards t) \<subseteq> set (sy_guards s)"
    "image_mset claim_of (mset (sy_guards t)) + hold mode this = holds_all SHARED (cl_reads c) + holds_all EXCLUSIVE (cl_writes c)"
proof (cases "pg_pool this")
  case False
  then show ?thesis using that[of s] sim facts by (simp add: stands_for_def hold_def)
next
  case True
  have claim: "(pg_frame_id this, mode, pg_binding_epoch this) \<in># image_mset claim_of (mset (sy_guards s))"
    using sim claims True by (simp add: stands_for_def hold_def)
  show ?thesis
    by (rule release_claim[OF claim, where io = io and U = "cl_unpublished c"])
      (use sim careful True facts that in \<open>auto simp: stands_for_def hold_def\<close>)
qed

lemma read_drop_sim:
  assumes sim: "stands_for c s" and i: "i < length (cl_reads c)" and drop: "read_drop i c = Some c'"
  shows "\<exists>t. (t = s \<or> system_step io s t) \<and> stands_for c' t \<and> hold SHARED (cl_reads c' ! i) = {#} \<and>
    length (cl_reads c') = length (cl_reads c)"
proof -
  obtain this' p ts where r: "ReleaseLatchAndPin SHARED (cl_reads c ! i) (cl_pool c) = Some (this', p, ts)"
    and c': "c' = c\<lparr>cl_pool := p, cl_tasks := cl_tasks c @ ts, cl_reads := (cl_reads c)[i := this']\<rparr>"
    using drop by (auto simp: read_drop_def after_release_def ReadPageGuard_Release_def put_read_def)
  note facts = release_facts[OF r]
  note bag = holds_all_update[OF i, of SHARED this']
  have sub: "hold SHARED (cl_reads c ! i) \<subseteq># holds_all SHARED (cl_reads c) + holds_all EXCLUSIVE (cl_writes c)"
    using bag facts(1)[of SHARED] by (metis add.right_neutral mset_subset_eq_add_right subset_mset.add_increasing2 subset_mset.zero_le)
  obtain t where t: "t = s \<or> system_step io s t" "sy_pool t = p" "sy_device t = cl_device c" "sy_tasks t = cl_tasks c @ ts"
    "set (sy_guards t) \<subseteq> set (sy_guards s)"
    "image_mset claim_of (mset (sy_guards t)) + hold SHARED (cl_reads c ! i) =
      holds_all SHARED (cl_reads c) + holds_all EXCLUSIVE (cl_writes c)"
    by (rule drop_object[OF sim facts(3) sub, where io = io]) auto
  have "image_mset claim_of (mset (sy_guards t)) + hold SHARED (cl_reads c ! i) =
      holds_all SHARED ((cl_reads c)[i := this']) + holds_all EXCLUSIVE (cl_writes c) + hold SHARED (cl_reads c ! i)"
    using t(6) bag facts(1)[of SHARED] by (simp add: ac_simps)
  moreover have "Returned_Guard r \<notin> set ts" for r using facts(3) by (auto split: if_splits)
  ultimately have "stands_for c' t"
    using sim t(2-5) facts(2) set_update_subset_insert[of "cl_reads c" i this'] unfolding stands_for_def c' by auto
  then show ?thesis using t(1) facts(1)[of SHARED] i by (auto simp: c')
qed

lemma write_drop_sim:
  assumes sim: "stands_for c s" and i: "i < length (cl_writes c)" and drop: "write_drop debug i c = Some c'"
    and careful: "careful (Drop_Write i) c"
  shows "\<exists>t. (t = s \<or> system_step io s t) \<and> stands_for c' t \<and> hold EXCLUSIVE (cl_writes c' ! i) = {#} \<and>
    length (cl_writes c') = length (cl_writes c)"
proof -
  obtain this' p ts where r: "WritePageGuard_Release debug (cl_writes c ! i) (cl_pool c) = Some (this', p, ts)"
    and c': "c' = c\<lparr>cl_pool := p, cl_tasks := cl_tasks c @ ts, cl_writes := (cl_writes c)[i := this']\<rparr>"
    using drop by (auto simp: write_drop_def after_release_def put_write_def)
  note facts = write_release_facts[OF r]
  note bag = holds_all_update[OF i, of EXCLUSIVE this']
  have sub: "hold EXCLUSIVE (cl_writes c ! i) \<subseteq># holds_all SHARED (cl_reads c) + holds_all EXCLUSIVE (cl_writes c)"
    using bag facts(1)[of EXCLUSIVE] by (metis add.right_neutral mset_subset_eq_add_right subset_mset.add_increasing subset_mset.zero_le)
  obtain t where t: "t = s \<or> system_step io s t" "sy_pool t = p" "sy_device t = cl_device c" "sy_tasks t = cl_tasks c @ ts"
    "set (sy_guards t) \<subseteq> set (sy_guards s)"
    "image_mset claim_of (mset (sy_guards t)) + hold EXCLUSIVE (cl_writes c ! i) =
      holds_all SHARED (cl_reads c) + holds_all EXCLUSIVE (cl_writes c)"
    by (rule drop_object[OF sim facts(3) sub, where io = io]) (use careful in \<open>auto simp: Valid_def Frame_def\<close>)
  have "image_mset claim_of (mset (sy_guards t)) + hold EXCLUSIVE (cl_writes c ! i) =
      holds_all SHARED (cl_reads c) + holds_all EXCLUSIVE ((cl_writes c)[i := this']) + hold EXCLUSIVE (cl_writes c ! i)"
    using t(6) bag facts(1)[of EXCLUSIVE] by (simp add: ac_simps)
  moreover have "Returned_Guard r \<notin> set ts" for r using facts(3) by (auto split: if_splits)
  ultimately have "stands_for c' t"
    using sim t(2-5) facts(2) set_update_subset_insert[of "cl_writes c" i this'] unfolding stands_for_def c' by auto
  then show ?thesis using t(1) facts(1)[of EXCLUSIVE] i by (auto simp: c')
qed

lemma points_right_update:
  "\<forall>x \<in> set objects. points_right x \<Longrightarrow> points_right this \<Longrightarrow> \<forall>x \<in> set (objects[i := this]). points_right x"
  using set_update_subset_insert[of objects i this] by auto

lemma read_take_sim:
  assumes sim: "stands_for c s" and i: "i < length (cl_reads c)" "j < length (cl_reads c)" "i \<noteq> j"
    and inert: "hold SHARED (cl_reads c ! i) = {#}"
  shows "stands_for (read_take i j c) s"
proof -
  obtain this other where t: "TakeFrom (cl_reads c ! i) (cl_reads c ! j) = (this, other)" by force
  have c: "read_take i j c = c\<lparr>cl_reads := (cl_reads c)[i := this, j := other]\<rparr>"
    by (simp add: read_take_def t put_read_def)
  have "points_right (cl_reads c ! j)" using sim i(2) by (simp add: stands_for_def)
  from take_facts(3)[OF t this] take_facts(4)[OF t] sim
  have "\<forall>x \<in> set ((cl_reads c)[i := this, j := other]). points_right x"
    by (intro points_right_update) (auto simp: stands_for_def)
  with holds_all_take[OF i inert take_facts(1,2)[OF t]] sim show ?thesis by (auto simp: stands_for_def c)
qed

lemma write_take_sim:
  assumes sim: "stands_for c s" and i: "i < length (cl_writes c)" "j < length (cl_writes c)" "i \<noteq> j"
    and inert: "hold EXCLUSIVE (cl_writes c ! i) = {#}"
  shows "stands_for (write_take debug i j c) s"
proof -
  obtain this other where t: "WritePageGuard_take debug (cl_writes c ! i) (cl_writes c ! j) = (this, other)" by force
  have c: "write_take debug i j c = c\<lparr>cl_writes := (cl_writes c)[i := this, j := other]\<rparr>"
    by (simp add: write_take_def t put_write_def)
  have "points_right (cl_writes c ! j)" using sim i(2) by (simp add: stands_for_def)
  from write_take_facts(3)[OF t this] write_take_facts(4)[OF t] sim
  have "\<forall>x \<in> set ((cl_writes c)[i := this, j := other]). points_right x"
    by (intro points_right_update) (auto simp: stands_for_def)
  with holds_all_take[OF i inert write_take_facts(1,2)[OF t]] sim show ?thesis by (auto simp: stands_for_def c)
qed

text \<open>The guard of the system that a valid write object stands for.\<close>

lemma write_guard:
  assumes sim: "stands_for c s" and i: "i < length (cl_writes c)" "Valid (cl_writes c ! i)"
  obtains j where "j < length (sy_guards s)" "g_mode (sy_guards s ! j) = EXCLUSIVE"
    "g_frame_id (sy_guards s ! j) = Frame (cl_writes c ! i)"
proof -
  have "(pg_frame_id (cl_writes c ! i), EXCLUSIVE, pg_binding_epoch (cl_writes c ! i)) \<in># image_mset claim_of (mset (sy_guards s))"
    using sim holds_all_nth[OF i(1), of EXCLUSIVE] i(2) by (auto simp: stands_for_def Valid_def)
  then obtain g where "g \<in> set (sy_guards s)" "claim_of g = (pg_frame_id (cl_writes c ! i), EXCLUSIVE, pg_binding_epoch (cl_writes c ! i))"
    by auto
  then show ?thesis using that by (auto simp: in_set_conv_nth claim_of_def Frame_def)
qed

lemma claims_update:
  assumes "j < length gs" and "claim_of g = claim_of (gs ! j)"
  shows "image_mset claim_of (mset (gs[j := g])) = image_mset claim_of (mset gs)"
proof -
  have "map claim_of (gs[j := g]) = map claim_of gs" using assms by (metis list_update_id map_update)
  then show ?thesis by (metis mset_map)
qed

lemma take_object_sim:
  assumes sim: "stands_for c s" and i: "i < length (cl_tasks c)" and task: "cl_tasks c ! i = Returned_Guard (Ok g)"
    and c': "c' = c\<lparr>cl_tasks := (cl_tasks c)[i := Returned (Ok ())], cl_reads := rs, cl_writes := ws\<rparr>"
    and objects: "holds_all SHARED rs + holds_all EXCLUSIVE ws =
        add_mset (claim_of g) (holds_all SHARED (cl_reads c) + holds_all EXCLUSIVE (cl_writes c))"
      "\<forall>x \<in> set rs. points_right x" "\<forall>x \<in> set ws. points_right x"
  shows "\<exists>t. system_step io s t \<and> stands_for c' t"
proof (intro exI conjI)
  show "system_step io s (s\<lparr>sy_tasks := (sy_tasks s)[i := Returned (Ok ())], sy_guards := g # sy_guards s\<rparr>)"
    by (rule system_step.take_guard) (use sim i task in \<open>simp_all add: stands_for_def\<close>)
  show "stands_for c' (s\<lparr>sy_tasks := (sy_tasks s)[i := Returned (Ok ())], sy_guards := g # sy_guards s\<rparr>)"
    using sim objects i task set_update_subset_insert[of "cl_tasks c" i "Returned (Ok ())"] nth_mem[OF i]
    by (auto simp: stands_for_def c')
qed

lemma store_bytes_sim:
  assumes sim: "stands_for c s" and i: "i < length (cl_writes c)" "Valid (cl_writes c ! i)" and len: "length bytes = 8192"
    and access: "MutablePage debug (cl_writes c ! i) (cl_pool c) = Some (this, pg)"
  shows "\<exists>t. system_step io s t \<and> stands_for ((put_write i this c)
    \<lparr>cl_pool := set_bytes pg bytes (cl_pool c), cl_unpublished := insert pg (cl_unpublished c)\<rparr>) t"
proof -
  obtain j where j: "j < length (sy_guards s)" "g_mode (sy_guards s ! j) = EXCLUSIVE"
    "g_frame_id (sy_guards s ! j) = Frame (cl_writes c ! i)" by (rule write_guard[OF sim i])
  have right: "points_right (cl_writes c ! i)" using sim i(1) by (simp add: stands_for_def)
  then have pg: "pg = Frame (cl_writes c ! i)" "hold EXCLUSIVE this = hold EXCLUSIVE (cl_writes c ! i)" "points_right this"
    using access i(2) by (auto simp: MutablePage_def points_right_def Valid_def Frame_def hold_def split: if_splits option.splits)
  let ?g = "(sy_guards s ! j)\<lparr>g_unpublished := True\<rparr>"
  have "claim_of ?g = claim_of (sy_guards s ! j)" by (simp add: claim_of_def)
  note same = claims_update[OF j(1) this] holds_all_same[OF i(1) pg(2)]
  have "\<forall>g \<in> set ((sy_guards s)[j := ?g]). g_unpublished g \<longrightarrow> g_mode g = EXCLUSIVE \<and> g_frame_id g \<in> insert pg (cl_unpublished c)"
    using sim j(2,3) pg(1) set_update_subset_insert[of "sy_guards s" j ?g] by (fastforce simp: stands_for_def)
  moreover have "\<forall>x \<in> set ((cl_writes c)[i := this]). points_right x"
    using sim pg(3) by (intro points_right_update) (auto simp: stands_for_def)
  ultimately have "stands_for ((put_write i this c)\<lparr>cl_pool := set_bytes pg bytes (cl_pool c),
      cl_unpublished := insert pg (cl_unpublished c)\<rparr>)
    (s\<lparr>sy_pool := set_bytes (g_frame_id (sy_guards s ! j)) bytes (sy_pool s), sy_guards := (sy_guards s)[j := ?g]\<rparr>)"
    using sim same j(3) pg(1) by (simp add: stands_for_def put_write_def)
  with system_step.mutate[OF j(1,2) len] show ?thesis by blast
qed

lemma mark_dirty_sim:
  assumes ok: "pool_ok (sy_pool s) (system_rights s)"
    and sim: "stands_for c s" and i: "i < length (cl_writes c)" and careful: "careful (Mark_Dirty i) c"
    and mark: "MarkDirty debug (cl_writes c ! i) (cl_pool c) = Some (this, p)"
  shows "\<exists>t. system_step io s t \<and> stands_for ((put_write i this c)
    \<lparr>cl_pool := p, cl_unpublished := cl_unpublished c - {Frame this}\<rparr>) t"
proof -
  have valid: "Valid (cl_writes c ! i)" using mark by (simp add: MarkDirty_def split: if_splits)
  obtain j where j: "j < length (sy_guards s)" "g_mode (sy_guards s ! j) = EXCLUSIVE"
    "g_frame_id (sy_guards s ! j) = Frame (cl_writes c ! i)" by (rule write_guard[OF sim i valid])
  have right: "points_right (cl_writes c ! i)" using sim i by (simp add: stands_for_def)
  have r: "Frame this = Frame (cl_writes c ! i)" "hold EXCLUSIVE this = hold EXCLUSIVE (cl_writes c ! i)"
    "points_right this" "p = PublishMutation (Frame (cl_writes c ! i)) (cl_pool c)"
    using mark right by (auto simp: MarkDirty_def Frame_def hold_def points_right_def Let_def split: if_splits)
  let ?g = "(sy_guards s ! j)\<lparr>g_unpublished := False\<rparr>"
  have "claim_of ?g = claim_of (sy_guards s ! j)" by (simp add: claim_of_def)
  note same = claims_update[OF j(1) this] holds_all_same[OF i r(2)]
  have "g_frame_id g \<in> cl_unpublished c - {Frame this} \<and> g_mode g = EXCLUSIVE"
    if g: "g \<in> set ((sy_guards s)[j := ?g])" "g_unpublished g" for g
  proof -
    obtain k where k': "k < length (sy_guards s)" "(sy_guards s)[j := ?g] ! k = g"
      using g(1) by (auto simp: in_set_conv_nth)
    moreover have "k \<noteq> j" using k' g(2) by auto
    ultimately have k: "k < length (sy_guards s)" "k \<noteq> j" "sy_guards s ! k = g" by simp_all
    obtain M where "image_mset Holding (mset (sy_guards s)) = add_mset (Holding (sy_guards s ! j)) M" "Holding g \<in># M"
      using distinct_guards[OF j(1) k(1,2)] k(3) by blast
    then have "g_frame_id g \<noteq> Frame this"
      using other_guard[OF ok, of "sy_guards s ! j" "rights_of (sy_tasks s) + M" g] j(2,3) r(1) by (simp add: system_rights_def)
    then show ?thesis using sim nth_mem[OF k(1)] k(3) g(2) by (auto simp: stands_for_def)
  qed
  moreover have "\<forall>x \<in> set ((cl_writes c)[i := this]). points_right x"
    using sim r(3) by (intro points_right_update) (auto simp: stands_for_def)
  ultimately have "stands_for ((put_write i this c)\<lparr>cl_pool := p, cl_unpublished := cl_unpublished c - {Frame this}\<rparr>)
    (s\<lparr>sy_pool := PublishMutation (g_frame_id (sy_guards s ! j)) (sy_pool s), sy_guards := (sy_guards s)[j := ?g]\<rparr>)"
    using sim same j(3) r(4) by (simp add: stands_for_def put_write_def)
  moreover have "bf_modification_generation (bp_frame (sy_pool s) (g_frame_id (sy_guards s ! j))) \<noteq> - 1"
    using careful sim j(3) by (simp add: stands_for_def)
  ultimately show ?thesis using system_step.mark_dirty[OF j(1,2)] by blast
qed

theorem caller_step_refines:
  assumes sim: "stands_for c s" and ok: "pool_ok (sy_pool s) (system_rights s)"
    and step: "caller_step debug io op c = Some c'" and careful: "careful op c"
  shows "\<exists>t. (t = s \<or> system_step io s t) \<and> stands_for c' t"
proof (cases op)
  case (Do_Call t)
  then have c': "is_call t" "c' = c\<lparr>cl_tasks := cl_tasks c @ [t]\<rparr>" using step by (auto split: if_splits)
  then have "t \<noteq> Returned_Guard r" for r by (cases t) auto
  then have "stands_for c' (s\<lparr>sy_tasks := sy_tasks s @ [t]\<rparr>)" using sim by (auto simp: stands_for_def c'(2))
  then show ?thesis using system_step.call[OF c'(1)] by blast
next
  case (Advance i)
  then obtain t p d where i: "i < length (cl_tasks c)"
    and a: "advance io (cl_tasks c ! i) (cl_pool c) (cl_device c) = Some (t, p, d)"
    and c': "c' = c\<lparr>cl_pool := p, cl_device := d, cl_tasks := (cl_tasks c)[i := t]\<rparr>"
    using step by (auto split: if_splits)
  have "stands_for c' (s\<lparr>sy_pool := p, sy_device := d, sy_tasks := (sy_tasks s)[i := t]\<rparr>)"
    using sim advance_fresh a set_update_subset_insert[of "cl_tasks c" i t] by (fastforce simp: stands_for_def c')
  moreover have "system_step io s (s\<lparr>sy_pool := p, sy_device := d, sy_tasks := (sy_tasks s)[i := t]\<rparr>)"
    by (rule system_step.task) (use sim i a in \<open>simp_all add: stands_for_def\<close>)
  ultimately show ?thesis by blast
next
  case (Take_Read i)
  then obtain g where "i < length (cl_tasks c)" "cl_tasks c ! i = Returned_Guard (Ok g)" "g_mode g = SHARED"
    "c' = c\<lparr>cl_tasks := (cl_tasks c)[i := Returned (Ok ())], cl_reads := cl_reads c @
      [PageGuardBase_bound (g_frame_id g) (g_frame_id g) (g_binding_epoch g) PageGuardBase_default], cl_writes := cl_writes c\<rparr>"
    using step by (auto split: if_splits Task.splits sum.splits)
  note take = this
  have "\<exists>t. system_step io s t \<and> stands_for c' t"
    by (rule take_object_sim[OF sim take(1,2,4)])
      (use sim take(3) in \<open>auto simp: stands_for_def claim_of_def ac_simps\<close>)
  then show ?thesis by blast
next
  case (Take_Write i)
  then obtain g where "i < length (cl_tasks c)" "cl_tasks c ! i = Returned_Guard (Ok g)" "g_mode g = EXCLUSIVE"
    "c' = c\<lparr>cl_tasks := (cl_tasks c)[i := Returned (Ok ())], cl_reads := cl_reads c, cl_writes := cl_writes c @
      [PageGuardBase_bound (g_frame_id g) (g_frame_id g) (g_binding_epoch g) WritePageGuard_default]\<rparr>"
    using step by (auto split: if_splits Task.splits sum.splits)
  note take = this
  have "\<exists>t. system_step io s t \<and> stands_for c' t"
    by (rule take_object_sim[OF sim take(1,2,4)])
      (use sim take(3) in \<open>auto simp: stands_for_def claim_of_def ac_simps\<close>)
  then show ?thesis by blast
next
  case (Move_Read j)
  let ?c = "c\<lparr>cl_reads := cl_reads c @ [PageGuardBase_default]\<rparr>"
  have j: "j < length (cl_reads c)" "c' = read_take (length (cl_reads c)) j ?c" using step Move_Read by (auto split: if_splits)
  have "stands_for ?c s" using sim by (auto simp: stands_for_def)
  then have "stands_for c' s" unfolding j(2) by (rule read_take_sim) (use j(1) in \<open>simp_all\<close>)
  then show ?thesis by blast
next
  case (Move_Write j)
  let ?c = "c\<lparr>cl_writes := cl_writes c @ [WritePageGuard_default]\<rparr>"
  have j: "j < length (cl_writes c)" "c' = write_take debug (length (cl_writes c)) j ?c" using step Move_Write by (auto split: if_splits)
  have "stands_for ?c s" using sim by (auto simp: stands_for_def)
  then have "stands_for c' s" unfolding j(2) by (rule write_take_sim) (use j(1) in \<open>simp_all\<close>)
  then show ?thesis by blast
next
  case (Drop_Read i)
  then have i: "i < length (cl_reads c)" "read_drop i c = Some c'" using step by (auto split: if_splits)
  from read_drop_sim[OF sim i, of io] show ?thesis by blast
next
  case (Drop_Write i)
  then have i: "i < length (cl_writes c)" "write_drop debug i c = Some c'" using step by (auto split: if_splits)
  from write_drop_sim[OF sim i careful[unfolded Drop_Write], of io] show ?thesis by blast
next
  case (Assign_Read i j)
  then have i: "i < length (cl_reads c)" "j < length (cl_reads c)" "ReadPageGuard_assign i j c = Some c'"
    using step by (auto split: if_splits)
  show ?thesis
  proof (cases "i = j")
    case True
    then show ?thesis using i sim by (auto simp: ReadPageGuard_assign_def)
  next
    case False
    then obtain c1 where c1: "read_drop i c = Some c1" "c' = read_take i j c1"
      using i(3) by (auto simp: ReadPageGuard_assign_def)
    then show ?thesis using read_drop_sim[OF sim i(1) c1(1), of io] read_take_sim[of c1 _ i j] i False by auto
  qed
next
  case (Assign_Write i j)
  then have i: "i < length (cl_writes c)" "j < length (cl_writes c)" "WritePageGuard_assign debug i j c = Some c'"
    using step by (auto split: if_splits)
  show ?thesis
  proof (cases "i = j")
    case True
    then show ?thesis using i sim by (auto simp: WritePageGuard_assign_def)
  next
    case False
    then obtain c1 where c1: "write_drop debug i c = Some c1" "c' = write_take debug i j c1"
      using i(3) by (auto simp: WritePageGuard_assign_def)
    have "careful (Drop_Write i) c" using careful False by (simp add: Assign_Write)
    from write_drop_sim[OF sim i(1) c1(1) this, of io] show ?thesis using c1(2) write_take_sim[of c1 _ i j] i False by auto
  qed
next
  case (Store_Bytes i bytes)
  then obtain this pg where "i < length (cl_writes c)" "Valid (cl_writes c ! i)" "length bytes = 8192"
    "MutablePage debug (cl_writes c ! i) (cl_pool c) = Some (this, pg)"
    "c' = (put_write i this c)\<lparr>cl_pool := set_bytes pg bytes (cl_pool c), cl_unpublished := insert pg (cl_unpublished c)\<rparr>"
    using step by (auto split: if_splits)
  from store_bytes_sim[OF sim this(1-4), of io] this(5) show ?thesis by blast
next
  case (Mark_Dirty i)
  then obtain this p where "i < length (cl_writes c)" "MarkDirty debug (cl_writes c ! i) (cl_pool c) = Some (this, p)"
    "c' = (put_write i this c)\<lparr>cl_pool := p, cl_unpublished := cl_unpublished c - {Frame this}\<rparr>"
    using step by (auto split: if_splits)
  from mark_dirty_sim[OF ok sim this(1) careful[unfolded Mark_Dirty] this(2), of io] this(3) show ?thesis by blast
qed

section \<open>Programs over guard objects\<close>

definition callers_system :: "'d callers \<Rightarrow> 'd system" where
  "callers_system c = \<lparr>sy_pool = cl_pool c, sy_device = cl_device c, sy_tasks = cl_tasks c, sy_guards = []\<rparr>"

definition callers_start :: "BufferPool \<Rightarrow> 'd \<Rightarrow> 'd callers" where
  "callers_start p d = \<lparr>cl_pool = p, cl_device = d, cl_tasks = [], cl_reads = [], cl_writes = [], cl_unpublished = {}\<rparr>"

text \<open>Any operations in any order, by careful callers, on a new pool.\<close>

inductive callers_run :: "bool \<Rightarrow> 'd page_io \<Rightarrow> nat \<Rightarrow> 32 word \<Rightarrow> 'd \<Rightarrow> 'd callers \<Rightarrow> bool" for debug io n m d where
  callers_begin: "n \<le> 4294967296 \<Longrightarrow> BufferPool_new n m = Some p \<Longrightarrow> callers_run debug io n m d (callers_start p d)"
| callers_more: "callers_run debug io n m d c \<Longrightarrow> caller_step debug io op c = Some c' \<Longrightarrow> careful op c \<Longrightarrow>
    one_retirer (callers_system c') \<Longrightarrow> callers_run debug io n m d c'"

lemma pool_run_more: "pool_run io n m d s \<Longrightarrow> system_step io s t \<Longrightarrow> one_retirer t \<Longrightarrow> pool_run io n m d t"
  by (auto simp: pool_run_def intro: run_more)

theorem callers_refine:
  "callers_run debug io n m d c \<Longrightarrow> \<exists>s. pool_run io n m d s \<and> stands_for c s"
proof (induction rule: callers_run.induct)
  case (callers_begin p)
  then show ?case
    by (intro exI[of _ "system_start p d"])
      (auto simp: pool_run_def stands_for_def system_start_def callers_start_def holds_all_def one_retirer_def intro: run_start)
next
  case (callers_more c op c')
  then obtain s where s: "pool_run io n m d s" "stands_for c s" by blast
  obtain t where t: "t = s \<or> system_step io s t" "stands_for c' t"
    using caller_step_refines[OF s(2) pool_run_ok[OF s(1)] callers_more.hyps(2,3)] by blast
  have one: "one_retirer t" using t(2) callers_more.hyps(4)
    by (simp add: one_retirer_def stands_for_def callers_system_def)
  have "pool_run io n m d t" using t(1)
  proof
    assume "system_step io s t"
    then show ?thesis by (rule pool_run_more[OF s(1) _ one])
  qed (use s(1) in simp)
  then show ?case using t(2) by blast
qed

section \<open>What an object is good for\<close>

lemma holds_all_filter:
  "size (filter_mset (\<lambda>x. fst x = f \<and> fst (snd x) = mode) (holds_all mode' objects)) =
    (if mode' = mode then length (filter (\<lambda>this. pg_pool this \<and> pg_frame_id this = f) objects) else 0)"
  by (induction objects) (auto simp: holds_all_def hold_def)

lemma guards_counted:
  assumes "stands_for c s"
  shows "length (filter (\<lambda>g. g_frame_id g = f \<and> g_mode g = SHARED) (sy_guards s)) =
      length (filter (\<lambda>this. pg_pool this \<and> pg_frame_id this = f) (cl_reads c))"
    and "length (filter (\<lambda>g. g_frame_id g = f \<and> g_mode g = EXCLUSIVE) (sy_guards s)) =
      length (filter (\<lambda>this. pg_pool this \<and> pg_frame_id this = f) (cl_writes c))"
proof -
  have count: "length (filter (\<lambda>g. g_frame_id g = f \<and> g_mode g = mode) (sy_guards s)) =
      size (filter_mset (\<lambda>x. fst x = f \<and> fst (snd x) = mode) (holds_all SHARED (cl_reads c) + holds_all EXCLUSIVE (cl_writes c)))" for mode
  proof -
    have "filter_mset (\<lambda>x. fst x = f \<and> fst (snd x) = mode) (image_mset claim_of (mset (sy_guards s))) =
        image_mset claim_of (filter_mset (\<lambda>g. g_frame_id g = f \<and> g_mode g = mode) (mset (sy_guards s)))"
      by (simp add: filter_mset_image_mset claim_of_def)
    then show ?thesis using assms by (simp add: stands_for_def flip: mset_filter)
  qed
  show "length (filter (\<lambda>g. g_frame_id g = f \<and> g_mode g = SHARED) (sy_guards s)) =
      length (filter (\<lambda>this. pg_pool this \<and> pg_frame_id this = f) (cl_reads c))"
    and "length (filter (\<lambda>g. g_frame_id g = f \<and> g_mode g = EXCLUSIVE) (sy_guards s)) =
      length (filter (\<lambda>this. pg_pool this \<and> pg_frame_id this = f) (cl_writes c))"
    unfolding count by (simp_all add: holds_all_filter)
qed

lemma object_guard:
  assumes sim: "stands_for c s"
    and claim: "(f, mode, e) \<in># holds_all SHARED (cl_reads c) + holds_all EXCLUSIVE (cl_writes c)"
  obtains g where "g \<in> set (sy_guards s)" "g_frame_id g = f" "g_mode g = mode" "g_binding_epoch g = e"
proof -
  have "(f, mode, e) \<in># image_mset claim_of (mset (sy_guards s))" using sim claim by (simp add: stands_for_def)
  then show ?thesis using that by (auto simp: claim_of_def)
qed

lemma object_protected:
  assumes run: "pool_run io n m d s" and sim: "stands_for c s" and right: "points_right this" "Valid this"
    and claim: "(Frame this, mode, BindingEpoch this) \<in># holds_all SHARED (cl_reads c) + holds_all EXCLUSIVE (cl_writes c)"
  shows "\<exists>pid. Id debug (cl_pool c) this = Some pid \<and>
    find_entry (cl_pool c) pid = Some \<lparr>pt_state = PT_RESIDENT, pt_frame_id = Frame this, pt_load = None\<rparr> \<and>
    IsCurrentBinding (cl_pool c) (Frame this) pid (BindingEpoch this) \<and> bf_pin_count (bp_frame (cl_pool c) (Frame this)) \<noteq> 0"
proof -
  obtain g where g: "g \<in> set (sy_guards s)" "g_frame_id g = Frame this" "g_binding_epoch g = BindingEpoch this"
    using object_guard[OF sim claim] by metis
  then obtain j where j: "j < length (sy_guards s)" "sy_guards s ! j = g" by (auto simp: in_set_conv_nth)
  have "pg_page this = Some (Frame this)" using right by (simp add: points_right_def Valid_def Frame_def)
  then show ?thesis using guards_protect[OF run j] sim g(2,3) right(2)
    by (auto simp: Id_def IsCurrentBinding_def Let_def stands_for_def)
qed

definition protected :: "bool \<Rightarrow> BufferPool \<Rightarrow> 'a PageGuardBase_scheme \<Rightarrow> bool" where
  "protected debug p this \<longleftrightarrow> (\<exists>pid. Id debug p this = Some pid \<and>
     find_entry p pid = Some \<lparr>pt_state = PT_RESIDENT, pt_frame_id = Frame this, pt_load = None\<rparr> \<and>
     IsCurrentBinding p (Frame this) pid (BindingEpoch this) \<and> bf_pin_count (bp_frame p (Frame this)) \<noteq> 0)"

definition valid_at :: "FrameId \<Rightarrow> 'a PageGuardBase_scheme list \<Rightarrow> nat" where
  "valid_at f objects = length (filter (\<lambda>this. Valid this \<and> Frame this = f) objects)"

text \<open>The guards on a frame that calls have returned but nobody has taken yet.\<close>

definition arriving :: "LatchMode \<Rightarrow> FrameId \<Rightarrow> Task list \<Rightarrow> nat" where
  "arriving mode f ts =
     length (filter (\<lambda>t. \<exists>g. t = Returned_Guard (Ok g) \<and> g_frame_id g = f \<and> g_mode g = mode) ts)"

lemma all_protected:
  assumes "pool_run io n m d s" and sim: "stands_for c s"
  shows "(\<forall>this \<in> set (cl_reads c). Valid this \<longrightarrow> protected debug (cl_pool c) this) \<and>
    (\<forall>this \<in> set (cl_writes c). Valid this \<longrightarrow> protected debug (cl_pool c) this)"
proof (intro conjI ballI impI)
  fix x assume mem: "x \<in> set (cl_reads c)" "Valid x"
  from mem have "points_right x" using sim by (simp add: stands_for_def)
  moreover have "(Frame x, SHARED, BindingEpoch x) \<in># holds_all SHARED (cl_reads c) + holds_all EXCLUSIVE (cl_writes c)"
    using mem holds_all_nth[of _ "cl_reads c" SHARED] by (force simp: in_set_conv_nth Valid_def Frame_def BindingEpoch_def)
  ultimately show "protected debug (cl_pool c) x"
    unfolding protected_def by (rule object_protected[OF assms _ mem(2)])
next
  fix x assume mem: "x \<in> set (cl_writes c)" "Valid x"
  from mem have "points_right x" using sim by (simp add: stands_for_def)
  moreover have "(Frame x, EXCLUSIVE, BindingEpoch x) \<in># holds_all SHARED (cl_reads c) + holds_all EXCLUSIVE (cl_writes c)"
    using mem holds_all_nth[of _ "cl_writes c" EXCLUSIVE] by (force simp: in_set_conv_nth Valid_def Frame_def BindingEpoch_def)
  ultimately show "protected debug (cl_pool c) x"
    unfolding protected_def by (rule object_protected[OF assms _ mem(2)])
qed

lemma length_filter_modes:
  "length (filter (\<lambda>g. g_frame_id g = f) gs) =
    length (filter (\<lambda>g. g_frame_id g = f \<and> g_mode g = SHARED) gs) +
    length (filter (\<lambda>g. g_frame_id g = f \<and> g_mode g = EXCLUSIVE) gs)"
proof (induction gs)
  case (Cons g gs)
  then show ?case by (cases "g_mode g") auto
qed simp

section \<open>A sample program\<close>

fun caller_script :: "bool \<Rightarrow> 'd page_io \<Rightarrow> caller_op list \<Rightarrow> 'd callers \<Rightarrow> 'd callers option" where
  "caller_script debug io [] c = Some c"
| "caller_script debug io (op # ops) c =
     (case caller_step debug io op c of
        None \<Rightarrow> None
      | Some c' \<Rightarrow> if careful op c \<and> calm (callers_system c') then caller_script debug io ops c' else None)"

lemma caller_script_run:
  "caller_script debug io ops c = Some c' \<Longrightarrow> callers_run debug io n m d c \<Longrightarrow> callers_run debug io n m d c'"
proof (induction ops arbitrary: c)
  case (Cons op ops)
  then obtain c1 where c1: "caller_step debug io op c = Some c1" "careful op c" "calm (callers_system c1)"
    "caller_script debug io ops c1 = Some c'" by (auto split: option.splits if_splits)
  show ?case by (rule Cons.IH[OF c1(4) callers_more[OF Cons.prems(2) c1(1,2) calm_one_retirer[OF c1(3)]]])
qed simp

text \<open>A page is created, its guard moved to a second object, assigned to itself and back to the first one,
  and the second one, inert, released.\<close>

definition shuffled :: "(DiskManager \<times> sample_kernel) callers" where
  "shuffled = \<lparr>cl_pool = created_pool, cl_device = grown_device, cl_tasks = [Returned (Ok ()), Returned (Ok ())],
     cl_reads = [],
     cl_writes =
       [\<lparr>pg_pool = True, pg_page = Some 0, pg_frame_id = 0, pg_binding_epoch = 1, wg_mutable_accessed = False,
         wg_published_checksum = 0\<rparr>,
        \<lparr>pg_pool = False, pg_page = None, pg_frame_id = 0, pg_binding_epoch = 1, wg_mutable_accessed = False,
         wg_published_checksum = 0\<rparr>],
     cl_unpublished = {}\<rparr>"

lemma create_callers:
  "caller_script True sample_io [Do_Call (Register 7 any_page), Advance 0, Advance 0] (callers_start one_frame sample_device) =
    Some (callers_start registered_pool sample_device\<lparr>cl_tasks := [Returned (Ok ())]\<rparr>)"
  by (simp add: calm_def callers_system_def callers_start_def registered_pool_def sample_io_count register_counted_def Let_def
      one_frame_def find_file_def put_file_def INVALID_FILE_ID_def)

lemma shuffle_callers:
  "caller_script True sample_io [Do_Call (New_Page 7 title_page), Advance 1, Advance 1, Advance 1, Advance 1, Advance 1,
      Advance 1, Advance 1, Take_Write 1, Move_Write 0, Assign_Write 1 1, Assign_Write 0 1, Drop_Write 1]
    (callers_start registered_pool sample_device\<lparr>cl_tasks := [Returned (Ok ())]\<rparr>) = Some shuffled"
  by (simp add: calm_def callers_system_def callers_start_def registered_pool_def one_frame_def BufferFrame_new_def shuffled_def
      created_pool_def created_frame_def pool_evaluation new_page_def WaitForNewPageTurn_def
      acquire_pass_def sample_io_count sample_io_extend new_page_counted_def bind_new_page_def bind_frame_def
      title_page_def titled_valid publish_new_page_def finish_new_def MakeGuard_def Page_new_def
      PageGuardBase_bound_def WritePageGuard_default_def write_take_def WritePageGuard_take_def TakeFrom_def put_write_def
      WritePageGuard_assign_def write_drop_def after_release_def WritePageGuard_Release_def Valid_def Frame_def)

lemma shuffled_run: "callers_run True sample_io 1 8 sample_device shuffled"
  by (rule caller_script_run[OF shuffle_callers caller_script_run[OF create_callers callers_begin[OF _ one_frame_new]]]) simp

section \<open>Ownership\<close>

text \<open>C12: refinement. Guard objects own what they stand for, whatever program uses them: after any sequence of
  fetches, moves, assignments (also of an object to itself), releases, repeated releases and destructions, with
  the calls and device errors of the pool in between, in debug and in release builds, every object that is
  not inert still refers to its page, resident in its frame under the binding it was made for, and
  pinned; each frame's latch has as many readers as there are such read objects (and guards about to be
  handed over), a writer exactly if there is such a write object, never both; and its pin count is the
  number of these objects and of the calls that hold a pin. So no pin and no latch is lost, kept by an
  object that was moved from, or released twice.
  The callers publish what they
  changed before they let go of a write guard (\<open>careful\<close>) and retire a file by one call at a time.\<close>

theorem guard_objects_own:
  assumes "callers_run debug io n m d c"
  shows "(\<forall>this \<in> set (cl_reads c). Valid this \<longrightarrow> protected debug (cl_pool c) this) \<and>
    (\<forall>this \<in> set (cl_writes c). Valid this \<longrightarrow> protected debug (cl_pool c) this) \<and>
    (\<forall>f. unat f < length (bp_frames (cl_pool c)) \<longrightarrow>
      bf_readers (bp_frame (cl_pool c) f) = arriving SHARED f (cl_tasks c) + valid_at f (cl_reads c) \<and>
      of_bool (bf_writer (bp_frame (cl_pool c) f)) = arriving EXCLUSIVE f (cl_tasks c) + valid_at f (cl_writes c) \<and>
      (bf_writer (bp_frame (cl_pool c) f) \<longrightarrow> bf_readers (bp_frame (cl_pool c) f) = 0) \<and>
      unat (bf_pin_count (bp_frame (cl_pool c) f)) =
        length (filter (\<lambda>t. task_pin (cl_pool c) t = Some f) (cl_tasks c)) + valid_at f (cl_reads c) + valid_at f (cl_writes c))"
proof -
  obtain s where s: "pool_run io n m d s" "stands_for c s" using callers_refine[OF assms] by blast
  have same: "sy_pool s = cl_pool c" "sy_tasks s = cl_tasks c" using s(2) by (simp_all add: stands_for_def)
  have "legal_frame (bp_frame (cl_pool c) f)" if "unat f < length (bp_frames (cl_pool c))" for f
    using pool_okD(2)[OF pool_run_ok[OF s(1)], of f] that same(1) by (simp add: frame_ok_def Let_def)
  then show ?thesis
    using all_protected[OF s] counts_are_holders[OF s(1)] guards_counted[OF s(2)] unfolding same length_filter_modes
    by (simp add: arriving_def valid_at_def Valid_def Frame_def legal_frame_def)
qed

theorem guard_objects_own_witness: "protected True created_pool (hd (cl_writes shuffled)) \<and> bf_writer (bp_frame created_pool 0)"
  using guard_objects_own[OF shuffled_run] by (simp add: shuffled_def Valid_def Frame_def valid_at_def arriving_def
      created_pool_def created_frame_def bp_frame_def)

end
