(* ===== verification/Spec2Isabelle.thy ===== *)
theory Spec2Isabelle
  imports Heap_Properties Tuple_Properties Format_Properties Space_Properties File_Properties Store_Properties
    Durable_Properties Pool_Wakeup Guard_Objects
begin

text \<open>
  A verification library for the storage engine of DBlusBlus (\<open>src/src\<close>): page-oriented storage on
  POSIX files, a buffer pool over it, and the formats of what the pages hold.

  The program. A managed file is a sequence of pages of 8192 bytes; page zero is its superblock
  (\<open>storage/file/file_superblock.cpp\<close>). \<open>DiskManager\<close> (\<open>storage/disk\<close>) maps a \<open>FileId\<close> to an open
  descriptor and transfers whole pages; \<open>PageFile\<close> (\<open>storage/file\<close>) creates, opens and extends
  one managed file through it. \<open>BufferPool\<close> (\<open>storage/buffer\<close>) caches pages in frames, hands out
  latched and pinned guards, chooses victims with a CLOCK, and writes dirty pages back. A heap page
  (\<open>storage/heap/heap_page.cpp\<close>) is a slotted page of tuples; the tuple layer (\<open>storage/tuple\<close>)
  encodes rows under a planned layout; the free-space map (\<open>storage/heap/fsm_page.cpp\<close>) and its
  candidate index (\<open>fsm_candidate_index.cpp\<close>) find a page with room for a tuple.

  Which theory models what (each section is in the order of the code):
    \<^item> \<open>Prelude\<close>: \<open>common/result.h\<close> as a sum with the error on the left, list and word lemmas,
      the \<open>codec\<close> and \<open>splice\<close> collections; \<open>Common_Types\<close>: \<open>common/types.h\<close>;
      \<open>Encoding\<close>: \<open>common/encoding.h\<close>; \<open>Crc32c\<close>: \<open>common/crc32c.cpp\<close>.
    \<^item> \<open>Page\<close>: \<open>storage/page\<close> (page, common header, checksum). \<open>Heap_Format\<close>, \<open>Tuple_Header\<close>,
      \<open>File_Superblock\<close>: the persistent headers and slot entries. \<open>Format_Properties\<close> holds the
      properties of these formats.
    \<^item> \<open>Null_Bitmap\<close>, \<open>Tuple_Layout\<close>: \<open>tuple_layout.cpp\<close>; \<open>Scalar_Codec\<close>, \<open>Tuple_Codec\<close>:
      \<open>tuple_codec.cpp\<close>; \<open>Tuple_Repr\<close> and \<open>Tuple_Validate\<close> say which bytes represent which values
      and show that encoder, validator and decoder agree with it; properties in \<open>Tuple_Properties\<close>.
    \<^item> \<open>Heap_Validate\<close>, \<open>Heap_Page\<close>, \<open>Heap_Compact\<close>: the passes and operations of
      \<open>heap_page.cpp\<close>. \<open>Heap_Structure\<close> is the declarative meaning of a valid page,
      \<open>Heap_Insert\<close> and \<open>Heap_Reclaim\<close> show each operation correct against it, \<open>Heap_Store\<close> that
      a page refines a map from slot numbers to tuples; properties in \<open>Heap_Properties\<close>.
    \<^item> \<open>Fsm_Page\<close>, \<open>Fsm_Index\<close>, \<open>Clock\<close>: the free-space map page, the candidate index and the
      replacement policy (\<open>clock_replacer.cpp\<close>), with their invariants; properties in
      \<open>Space_Properties\<close>.
    \<^item> \<open>Posix\<close>: the system calls as a record of functions over an abstract kernel state, with the
      laws of their manual pages in the locale \<open>posix_kernel\<close>; \<open>Sample_Kernel\<close> is a kernel that obeys
      them. \<open>Disk_Manager\<close> and \<open>Page_File\<close> translate the two classes over any such kernel;
      \<open>Disk_Kernel\<close>, \<open>Disk_Spec\<close>, \<open>Disk_Store\<close>, \<open>Page_File_Spec\<close> state and prove what each
      operation does to the pages of the registered files; \<open>Sample_Files\<close> runs them;
      properties in \<open>File_Properties\<close>.
    \<^item> \<open>Page_Io\<close>, \<open>Buffer_Pool\<close>, \<open>Pool_Tasks\<close>, \<open>Pool_System\<close>: the buffer pool and its guards
      (\<open>page_io.h\<close>, \<open>buffer_frame.h\<close>, \<open>buffer_pool.h\<close>, \<open>buffer_pool.cpp\<close>, \<open>page_guard.cpp\<close>) as a
      concurrent system: a call is a \<open>Task\<close>, its position is a constructor, and \<open>system_step\<close> moves one
      call from one point at which it holds no mutex to the next, or lets a caller take, use or release
      a guard. \<open>Pool_Rights\<close> says what the calls and guards own: a multiset of rights that
      accounts for every frame, entry, load, pin, latch and writeback of the pool (\<open>pool_ok\<close>).
      \<open>Pool_Moves\<close>, \<open>Pool_Table\<close> and \<open>Pool_Files\<close> move rights along with each small change of
      the pool, \<open>Pool_Safety\<close> and \<open>Pool_Steps\<close> with each section of a call, and \<open>Pool_Invariant\<close>
      concludes that every step of the system keeps the account (\<open>system_run_ok\<close>), under the one
      discipline \<open>one_retirer\<close>: a file is retired by one call at a time. \<open>Pool_Sample\<close> runs a
      script of calls on the disk manager over the sample kernel; properties in \<open>Pool_Properties\<close>.
    \<^item> \<open>Page_Device\<close>: the interface the pool uses, a device of pages, as the locale \<open>page_device\<close>; every
      kernel with the laws of \<open>posix_kernel\<close> gives one. \<open>Pool_Content\<close> defines the current content of
      a page (the frame's bytes while cached, the device's page otherwise) and what a call in progress
      knows about it; \<open>Pool_Carry\<close> and \<open>Pool_Carry_Files\<close> show that each critical section leaves the
      contents alone, \<open>Pool_Store\<close> adds the device transfers, \<open>Pool_Transparent\<close> the guards and the
      system step: the pool refines a store of pages. Properties in \<open>Store_Properties\<close>, which need two
      more conditions: the registered files are distinct (\<open>distinct_files\<close>), and an initializer of a
      new page keeps its bytes to the page's length (\<open>well_spanned\<close>; a span in the code).
    \<^item> \<open>Pool_Drain\<close>: the pool at rest after a shutdown. Once it is quiescing and drained, the calls still running
      can only fail, wait, flush, retire or return, so frames stay unpinned and clean pages stay clean.
      \<open>Durable_Properties\<close> has what follows for the disk: a successful \<open>FlushPage\<close> and a successful
      \<open>Shutdown\<close> leave on it what the pool shows.
    \<^item> \<open>Pool_Progress\<close>: no deadlock, since whoever is waited for can move; \<open>Pool_Termination\<close>: no livelock, by a
      measure of the work before each call that every step uses up. There a waiting
      call may look at its condition at any time. \<open>Pool_Wakeup\<close> shows that this is the condition variable
      \<open>state_changed_\<close>: what calls wait for comes true only in sections that run \<open>notify_all\<close>.
    \<^item> \<open>Page_Guard\<close>: the guard objects of \<open>page_guard.h\<close> and \<open>page_guard.cpp\<close> themselves, which callers move,
      assign, release and destroy (\<open>caller_step\<close>), in debug and in release builds. \<open>Guard_Objects\<close>
      shows that they refine the guards of the concurrent system (\<open>stands_for\<close>), for callers that publish
      what they change (\<open>careful\<close>), and concludes what an object owns.
    \<^item> \<open>Pool_Inspector\<close>: \<open>buffer_pool_inspector.cpp\<close>, and with it that page table and frames agree.

  Conventions. A byte is an \<open>8 word\<close>, an identifier a word of its width; sizes and indices of
  \<open>size_t\<close> are \<open>nat\<close> where the code checks them against smaller bounds, and go through
  \<open>CheckedAdd\<close> at 64 bits where the code does. A span is a byte list whose length is that of the span;
  an out-parameter is an extra result. An abort (\<open>DBLUS_CHECK\<close>) or an exception the model can reach is
  \<open>None\<close> or the task \<open>Thrown\<close>.

  Termination. The retry loops of the system calls and the transfer loops are
  \<open>partial_function (option)\<close>: not returning is \<open>None\<close>. That they return is proved
  (\<open>file_operations_return\<close>) from the one liveness assumption of \<open>posix_kernel\<close>, that a kernel
  interrupts finitely often in a row, given as a measure on its state. Every other loop is
  structural recursion on the number of its remaining iterations. No fuel is used. The calls of the pool,
  which wait for each other, end by \<open>calls_finish\<close> if their callers release their guards.

  Not modelled: \<open>main.cpp\<close>, benchmarks and tests (no logic of their own); the printing in
  \<open>common/assert.cpp\<close>; the conversions \<open>FromDouble\<close> and \<open>ToDouble\<close> (a double is its 64 bits); the poison
  fill of a reset frame in debug builds; the events sent to a pool observer (the points at which they
  are sent are kept: the mutex is free there); running out of memory, but for \<open>Upsert\<close> of the candidate
  index; the mutex of \<open>ExtendFile\<close> (the operations of the disk manager are atomic steps here); the
  iteration order of hash maps; stable storage: the disk of the model is what its calls read back, so that
  \<open>fdatasync\<close> can fail but has no effect to see, and nothing is said of what a power failure leaves.
\<close>

section \<open>Properties that span components\<close>

text \<open>C1: roundtrip. A row stored is a row read, through every layer: encode a row under a built layout,
  insert the bytes at any time in the life of an initialised heap page, let any further insertions,
  deletions of other rows and compactions follow; the bytes read at the row's identifier decode,
  column by column, to the values encoded.\<close>

theorem stored_row_reads_back:
  assumes "BuildTuplePhysicalLayout specs ver = Ok L" and "EncodeTuple L md vs = Ok t"
    and "Page_wf p" and "HeapPage_Initialize p lsn = Some (Ok (), p0)"
    and "heap_run H p0 (earlier @ Inserted rid t # later) p'" and "Deleted (slot rid) \<notin> set later"
  shows "\<exists>b. HeapPage_TupleBytes H p' (slot rid) = Some b \<and>
    map (DecodeTupleValue L b) [0..<length specs] = map Ok vs"
proof -
  note ini = initialized_page_store(1,2)[OF assms(3,4), of H]
  have run: "store_run empty_store (earlier @ Inserted rid t # later) = Some (page_store H p')"
    using heap_run_simulates[OF assms(5) ini(1)] ini(2) by simp
  have "HeapPage_TupleBytes H p' (slot rid) = Some t"
    using store_run_keeps[OF run assms(6)] by (simp add: page_store_def)
  then show ?thesis using encoded_reads_back[OF assms(1,2)] by blast
qed

theorem stored_row_reads_back_witness:
  "\<exists>b. HeapPage_TupleBytes sample_history sample_page 0 = Some b \<and>
     map (DecodeTupleValue sample_layout b) [0..<length sample_specs] = map Ok sample_values"
proof -
  have "heap_run sample_history sample_empty ([] @ Inserted (Rid (PageId 1 3) 0) sample_tuple # []) sample_page"
    using run_snoc[OF run_nil insert_ok[OF sample_insert]] by simp
  from stored_row_reads_back[OF sample_build sample_encode sample_blank_wf sample_initialize this]
  show ?thesis by simp
qed

text \<open>C24: liveness. The free-space index, the category arithmetic and the heap page agree: when the index
  is asked for room for a valid tuple and names a page whose tracked category was computed from
  that page's free bytes, the insertion into it succeeds.\<close>

theorem found_page_accepts:
  assumes "index_inv ix" and "FsmCandidateIndex_FindCandidate ix (length t) = Ok (Some (page_no (Page_id p)))"
    and "ValidateStructure H p = Ok hdrs"
    and "ci_page_categories ix (page_no (Page_id p)) =
      Some (FsmCategoryForFreeBytes (unat (hp_upper (hh_heap hdrs)) - unat (hp_lower (hh_heap hdrs))))"
    and "tc_error (ValidateTupleForSlot t H (Rid (Page_id p) (hp_slot_count (hh_heap hdrs)))
      (hp_slot_count (hh_heap hdrs) + 1)) = HV_NONE"
  shows "\<exists>p'. HeapPage_Insert H p t = (Ok (Rid (Page_id p) (hp_slot_count (hh_heap hdrs))), p')"
proof -
  obtain es where s: "heap_structure p hdrs es" using assms(3) by (auto simp: ValidateStructure_Ok_iff)
  have len: "48 \<le> length t" by (rule ValidateTupleForSlot_length[OF assms(5)])
  from FindCandidate_Some[OF assms(1,2)] assms(4) obtain m where
    m: "MinimumFsmCategoryForTupleBytes (length t) = Ok m"
    "m \<le> FsmCategoryForFreeBytes (unat (hp_upper (hh_heap hdrs)) - unat (hp_lower (hh_heap hdrs)))" by auto
  then have "length t \<le> 8135" by (simp add: MinimumFsmCategory_Ok_iff)
  moreover have "length t + 8 \<le> unat (hp_upper (hh_heap hdrs)) - unat (hp_lower (hh_heap hdrs))"
    using category_sound[OF m] len by linarith
  ultimately show ?thesis using assms(5) by (simp add: Insert_Ok_iff[OF s] insertable_def)
qed

theorem found_page_accepts_witness:
  "\<exists>ix p'. FsmCandidateIndex_FindCandidate ix (length sample_tuple) = Ok (Some 3) \<and>
     HeapPage_Insert sample_history sample_empty sample_tuple = (Ok (Rid (PageId 1 3) 0), p')"
proof -
  obtain hdrs where s: "heap_structure sample_empty hdrs []" "hh_heap hdrs = default_HeapPageHeader"
    using sample_empty_structure by blast
  have v: "ValidateStructure sample_history sample_empty = Ok hdrs"
    using s(1) unfolding ValidateStructure_Ok_iff by blast
  have p: "IsValidHeapPageNumber 3" by (simp add: IsValidHeapPageNumber_def INVALID_PAGE_NO_def)
  have free: "unat (hp_upper (hh_heap hdrs)) - unat (hp_lower (hh_heap hdrs)) = 8144"
    by (simp add: s(2) default_HeapPageHeader_def)
  obtain ix where ix: "index_inv ix" "ci_page_categories ix = [3 \<mapsto> FsmCategoryForFreeBytes 8144]"
    using Upsert_ok[OF index_inv_new p, of "FsmCategoryForFreeBytes 8144"]
    by (auto simp: FsmCandidateIndex_new_def)
  have "FsmCandidateIndex_FindCandidate ix 64 = Ok (Some 3)"
  proof -
    obtain m where m: "MinimumFsmCategoryForTupleBytes 64 = Ok m" by (simp add: MinimumFsmCategoryForTupleBytes_def)
    have "unat m = 2" using m by (simp add: MinimumFsmCategory_Ok_iff)
    moreover have "unat (FsmCategoryForFreeBytes 8144) = 255" by (simp add: FsmCategoryForFreeBytes_eq)
    ultimately have le: "m \<le> FsmCategoryForFreeBytes 8144" by (simp add: word_le_nat_alt)
    obtain q where q: "FsmCandidateIndex_FindCandidate ix 64 = Ok q"
      using m by (simp add: FsmCandidateIndex_FindCandidate_def)
    show ?thesis
    proof (cases q)
      case None
      then obtain m' where "MinimumFsmCategoryForTupleBytes 64 = Ok m'"
        "\<forall>q d. ci_page_categories ix q = Some d \<longrightarrow> d < m'"
        using FindCandidate_None[OF ix(1), of 64] q by blast
      then have "FsmCategoryForFreeBytes 8144 < m" using m ix(2) by (metis Inr_inject fun_upd_same)
      then show ?thesis using le by simp
    next
      case (Some x)
      then show ?thesis using FindCandidate_Some[OF ix(1), of 64 x] q ix(2) by (auto split: if_splits)
    qed
  qed
  then have f: "FsmCandidateIndex_FindCandidate ix (length sample_tuple) =
      Ok (Some (page_no (Page_id sample_empty)))"
    by (simp add: sample_tuple_length sample_empty_id)
  have c: "ci_page_categories ix (page_no (Page_id sample_empty)) =
      Some (FsmCategoryForFreeBytes (unat (hp_upper (hh_heap hdrs)) - unat (hp_lower (hh_heap hdrs))))"
    unfolding free by (simp add: ix(2) sample_empty_id)
  from found_page_accepts[OF ix(1) f v c sample_tuple_check] f show ?thesis
    by (auto simp: s(2) default_HeapPageHeader_def sample_empty_id)
qed

end
